(* ===== verification/Clarinet_Prelude.thy ===== *)
theory Clarinet_Prelude
  imports
    Main
    "HOL-Library.AList"
    "HOL-Library.Word"
    "HOL-Library.List_Lexorder"
    "HOL-Library.Char_ord"
begin

text \<open>
  Shared vocabulary of the development.

  \<^item> \<open>outcome\<close>: the result of a Rust computation that may panic or never return.
  \<^item> \<open>u64\<close> and friends: machine integers at their width, with the saturating
    operation the sources use.
  \<^item> \<open>btree_map\<close>: \<open>std::collections::BTreeMap\<close> as an association list in strictly
    ascending key order, because the sources iterate over it; its contract is the locale
    \<open>ordered_map\<close>, interpreted on the operations.
  \<^item> \<open>hash_map\<close>: \<open>HashMap\<close> as an association list that is only looked up, never iterated.
  \<^item> \<open>btree_set\<close>: \<open>BTreeSet\<close> as an ascending list without repetition.
  \<^item> \<open>collect_results\<close>: \<open>Iterator::collect::<Result<Vec<_>, _>>\<close>, first error wins;
    \<open>collect_fallible\<close> is the same over functions that may also panic.
  \<^item> \<open>fallible\<close>: a function that returns \<^verbatim>\<open>Result<_, String>\<close> and may panic; \<open>try_bind\<close> is the
    question mark operator.
  \<^item> strings are lists of bytes; \<open>show_nat\<close> is the decimal \<^verbatim>\<open>Display\<close> of unsigned integers,
    \<open>parse_unsigned\<close> their \<^verbatim>\<open>FromStr\<close>.
\<close>

named_theorems seg_simps \<open>characteristic equations of chain segments\<close>
named_theorems pool_simps \<open>characteristic equations of the block pools\<close>

section \<open>Computations that may panic or diverge\<close>

datatype 'a outcome = Done 'a | Panic | Diverge

fun bind_outcome :: "'a outcome \<Rightarrow> ('a \<Rightarrow> 'b outcome) \<Rightarrow> 'b outcome" where
  "bind_outcome (Done x) f = f x"
| "bind_outcome Panic f = Panic"
| "bind_outcome Diverge f = Diverge"

definition expect :: "'a option \<Rightarrow> 'a outcome" where
  "expect x = (case x of Some v \<Rightarrow> Done v | None \<Rightarrow> Panic)"

definition terminating :: "'a option \<Rightarrow> 'a outcome" where
  "terminating x = (case x of Some v \<Rightarrow> Done v | None \<Rightarrow> Diverge)"

fun returns :: "'a outcome \<Rightarrow> bool" where
  "returns (Done _) = True"
| "returns Panic = False"
| "returns Diverge = False"

lemma bind_outcome_Done_iff:
  "bind_outcome m f = Done y \<longleftrightarrow> (\<exists>x. m = Done x \<and> f x = Done y)"
  by (cases m) auto

lemma bind_case_sum_Done_iff:
  "bind_outcome m (\<lambda>r. case r of Inl e \<Rightarrow> f e | Inr x \<Rightarrow> g x) = Done y \<longleftrightarrow>
     (\<exists>e. m = Done (Inl e) \<and> f e = Done y) \<or> (\<exists>x. m = Done (Inr x) \<and> g x = Done y)"
proof (cases m)
  case (Done r)
  then show ?thesis by (cases r) simp_all
qed simp_all

lemma bind_outcome_Panic_iff:
  "bind_outcome m f = Panic \<longleftrightarrow> m = Panic \<or> (\<exists>x. m = Done x \<and> f x = Panic)"
  by (cases m) auto

lemma bind_outcome_Diverge_iff:
  "bind_outcome m f = Diverge \<longleftrightarrow> m = Diverge \<or> (\<exists>x. m = Done x \<and> f x = Diverge)"
  by (cases m) auto

lemma bind_outcome_cong:
  "m = m' \<Longrightarrow> (\<And>x. m' = Done x \<Longrightarrow> f x = g x) \<Longrightarrow> bind_outcome m f = bind_outcome m' g"
  by (cases m') simp_all

lemma expect_simps [simp]: "expect (Some x) = Done x" "expect None = Panic"
  by (simp_all add: expect_def)

lemma terminating_simps [simp]: "terminating (Some x) = Done x" "terminating None = Diverge"
  by (simp_all add: terminating_def)

lemma terminating_no_panic [simp]: "terminating x \<noteq> Panic"
  by (cases x) simp_all

lemma expect_no_diverge [simp]: "expect x \<noteq> Diverge"
  by (cases x) simp_all

lemma returns_iff: "returns m \<longleftrightarrow> (\<exists>x. m = Done x)"
  by (cases m) auto

section \<open>Machine integers\<close>

type_synonym u8 = "8 word"
type_synonym u16 = "16 word"
type_synonym u32 = "32 word"
type_synonym u64 = "64 word"
type_synonym i64 = "64 word"
type_synonym u128 = "128 word"

definition saturating_sub :: "'a::len word \<Rightarrow> 'a word \<Rightarrow> 'a word" where
  "saturating_sub a b = (if b \<le> a then a - b else 0)"

lemma unat_saturating_sub: "unat (saturating_sub a b) = unat a - unat b"
  by (auto simp: saturating_sub_def unat_sub_if' word_le_nat_alt)

text \<open>\<^verbatim>\<open>to_be_bytes\<close>: the bytes of a word, most significant first.\<close>

definition be_bytes :: "nat \<Rightarrow> 'a::len word \<Rightarrow> u8 list" where
  "be_bytes n w = map (\<lambda>i. ucast (drop_bit (8 * i) w)) (rev [0..<n])"

lemma length_be_bytes [simp]: "length (be_bytes n w) = n"
  by (simp add: be_bytes_def)

lemma be_bytes_nth: "i < n \<Longrightarrow> be_bytes n w ! (n - 1 - i) = ucast (drop_bit (8 * i) w)"
  by (simp add: be_bytes_def rev_map [symmetric] rev_nth)

lemma be_bytes_inject:
  fixes v w :: "'a::len word"
  assumes "LENGTH('a) = 8 * n" and eq: "be_bytes n v = be_bytes n w"
  shows "v = w"
proof (rule bit_word_eqI)
  fix k
  assume "k < LENGTH('a)"
  with assms(1) have i: "k div 8 < n" by (simp add: div_less_iff_less_mult mult.commute)
  have "(ucast (drop_bit (8 * (k div 8)) v) :: u8) = ucast (drop_bit (8 * (k div 8)) w)"
    using be_bytes_nth [OF i, of v] be_bytes_nth [OF i, of w] eq by simp
  then have "bit (ucast (drop_bit (8 * (k div 8)) v) :: u8) (k mod 8) =
      bit (ucast (drop_bit (8 * (k div 8)) w) :: u8) (k mod 8)" by simp
  then show "bit v k = bit w k" by (simp add: bit_ucast_iff bit_drop_bit_eq)
qed

section \<open>Iterators over fallible functions\<close>

fun collect_results :: "('a \<Rightarrow> 'e + 'b) \<Rightarrow> 'a list \<Rightarrow> 'e + 'b list" where
  "collect_results f [] = Inr []"
| "collect_results f (x # xs) =
     (case f x of
        Inl e \<Rightarrow> Inl e
      | Inr y \<Rightarrow> (case collect_results f xs of Inl e \<Rightarrow> Inl e | Inr ys \<Rightarrow> Inr (y # ys)))"

lemma collect_results_Inr_iff:
  "collect_results f xs = Inr ys \<longleftrightarrow> map f xs = map Inr ys"
proof (induction xs arbitrary: ys)
  case (Cons x xs)
  show ?case
  proof (cases ys)
    case (Cons y zs)
    with Cons.IH [of zs] show ?thesis by (auto split: sum.splits)
  qed (auto split: sum.splits)
qed auto

lemma collect_results_length: "collect_results f xs = Inr ys \<Longrightarrow> length ys = length xs"
  by (metis collect_results_Inr_iff length_map)

lemma collect_results_total:
  "(\<And>x. x \<in> set xs \<Longrightarrow> \<exists>y. f x = Inr y) \<Longrightarrow> \<exists>ys. collect_results f xs = Inr ys"
  by (induction xs) (auto split: sum.splits, metis Inl_Inr_False)

section \<open>Fallible computations\<close>

type_synonym 'a fallible = "(string + 'a) outcome"

definition try_bind :: "'a fallible \<Rightarrow> ('a \<Rightarrow> 'b fallible) \<Rightarrow> 'b fallible" where
  "try_bind m f = bind_outcome m (\<lambda>r. case r of Inl e \<Rightarrow> Done (Inl e) | Inr x \<Rightarrow> f x)"

lemma try_bind_simps [simp]:
  "try_bind (Done (Inr x)) f = f x"
  "try_bind (Done (Inl e)) f = Done (Inl e)"
  "try_bind Panic f = Panic"
  "try_bind Diverge f = Diverge"
  by (simp_all add: try_bind_def)

lemma try_bind_Inr_iff:
  "try_bind m f = Done (Inr y) \<longleftrightarrow> (\<exists>x. m = Done (Inr x) \<and> f x = Done (Inr y))"
proof (cases m)
  case (Done r)
  then show ?thesis by (cases r) simp_all
qed simp_all

definition map_error :: "(string \<Rightarrow> string) \<Rightarrow> string + 'a \<Rightarrow> string + 'a" where
  "map_error g r = (case r of Inl e \<Rightarrow> Inl (g e) | Inr x \<Rightarrow> Inr x)"

lemma map_error_Inr_iff [simp]: "map_error g r = Inr x \<longleftrightarrow> r = Inr x"
  by (cases r) (simp_all add: map_error_def)

fun collect_fallible :: "('a \<Rightarrow> 'b fallible) \<Rightarrow> 'a list \<Rightarrow> 'b list fallible" where
  "collect_fallible f [] = Done (Inr [])"
| "collect_fallible f (x # xs) =
     try_bind (f x) (\<lambda>y. try_bind (collect_fallible f xs) (\<lambda>ys. Done (Inr (y # ys))))"

lemma collect_fallible_Inr_iff:
  "collect_fallible f xs = Done (Inr ys) \<longleftrightarrow> map f xs = map (\<lambda>y. Done (Inr y)) ys"
proof (induction xs arbitrary: ys)
  case (Cons x xs)
  then show ?case by (cases ys) (auto simp: try_bind_Inr_iff)
qed auto

section \<open>Strings\<close>

definition decimal_digit :: "nat \<Rightarrow> char" where
  "decimal_digit d = char_of (48 + d)"

fun show_nat :: "nat \<Rightarrow> string" where
  "show_nat n =
     (if n < 10 then [decimal_digit n] else show_nat (n div 10) @ [decimal_digit (n mod 10)])"

declare show_nat.simps [simp del]

text \<open>\<^verbatim>\<open>str::parse\<close> at an unsigned type: an optional plus sign and at least one digit, below the bound.\<close>

definition digit_value :: "char \<Rightarrow> int option" where
  "digit_value c = (let n = (of_char c :: int) in if 48 \<le> n \<and> n \<le> 57 then Some (n - 48) else None)"

fun parse_digits :: "string \<Rightarrow> int \<Rightarrow> int option" where
  "parse_digits [] acc = Some acc"
| "parse_digits (c # cs) acc =
     (case digit_value c of
        None \<Rightarrow> None
      | Some d \<Rightarrow> parse_digits cs (10 * acc + d))"

definition parse_unsigned :: "string \<Rightarrow> int option" where
  "parse_unsigned s =
     (let digits = (case s of c # rest \<Rightarrow> if c = CHR ''+'' then rest else s | [] \<Rightarrow> [])
      in if digits = [] then None else parse_digits digits 0)"

definition strip_prefix :: "string \<Rightarrow> string \<Rightarrow> string option" where
  "strip_prefix pre s = (if take (length pre) s = pre then Some (drop (length pre) s) else None)"

text \<open>
  \<^verbatim>\<open>&s[n..]\<close> panics past the end and inside a multi-byte character, whose later bytes lie
  between 128 and 191.
\<close>

definition slice_from :: "nat \<Rightarrow> string \<Rightarrow> string outcome" where
  "slice_from n s =
     (if length s < n then Panic
      else case drop n s of
          [] \<Rightarrow> Done []
        | c # rest \<Rightarrow>
            if n \<noteq> 0 \<and> (128::nat) \<le> of_char c \<and> (of_char c :: nat) < 192 then Panic else Done (c # rest))"

fun join_with :: "string \<Rightarrow> string list \<Rightarrow> string" where
  "join_with sep [] = []"
| "join_with sep [s] = s"
| "join_with sep (s # t # rest) = s @ sep @ join_with sep (t # rest)"

lemma of_char_decimal_digit: "d < 10 \<Longrightarrow> (of_char (decimal_digit d) :: nat) = 48 + d"
  by (simp add: decimal_digit_def of_char_of)

lemma digit_value_decimal_digit:
  assumes "d < 10"
  shows "digit_value (decimal_digit d) = Some (int d)"
proof -
  have "(of_char (decimal_digit d) :: int) = int (of_char (decimal_digit d))"
    by (rule of_nat_of_char [symmetric])
  with of_char_decimal_digit [OF assms] have "(of_char (decimal_digit d) :: int) = 48 + int d"
    by (simp del: of_nat_of_char)
  with assms show ?thesis by (simp add: digit_value_def Let_def)
qed

lemma parse_digits_append:
  "parse_digits (xs @ ys) acc = (case parse_digits xs acc of None \<Rightarrow> None | Some a \<Rightarrow> parse_digits ys a)"
  by (induction xs acc rule: parse_digits.induct) (auto split: option.split)

lemma parse_digits_show_nat: "parse_digits (show_nat n) 0 = Some (int n)"
proof (induction n rule: show_nat.induct)
  case (1 n)
  then show ?case
    by (subst show_nat.simps) (auto simp: parse_digits_append digit_value_decimal_digit zdiv_int zmod_int)
qed

lemma show_nat_Cons: "\<exists>d rest. d < 10 \<and> show_nat n = decimal_digit d # rest"
proof (induction n rule: show_nat.induct)
  case (1 n)
  show ?case
  proof (cases "n < 10")
    case True
    then show ?thesis by (subst show_nat.simps) auto
  next
    case False
    with 1 obtain d rest where "d < 10" "show_nat (n div 10) = decimal_digit d # rest" by blast
    with False show ?thesis by (subst show_nat.simps) auto
  qed
qed

lemma decimal_digit_not_plus: "d < 10 \<Longrightarrow> decimal_digit d \<noteq> CHR ''+''"
  using of_char_decimal_digit [of d] by auto

lemma parse_unsigned_show_nat: "parse_unsigned (show_nat n) = Some (int n)"
  using show_nat_Cons [of n] parse_digits_show_nat [of n] decimal_digit_not_plus
  by (auto simp: parse_unsigned_def Let_def)

section \<open>Lists\<close>

lemma count_list_partition:
  fixes f :: "'a \<Rightarrow> 'b::linorder"
  shows "count_list xs x =
     count_list (filter (\<lambda>y. f y < c) xs) x + count_list (filter (\<lambda>y. c \<le> f y) xs) x"
proof -
  have "count_list xs x = count_list (filter P xs) x + count_list (filter (\<lambda>y. \<not> P y) xs) x" for P
    by (induction xs) simp_all
  from this [of "\<lambda>y. f y < c"] show ?thesis by (simp only: not_less)
qed

section \<open>Hash maps\<close>

type_synonym ('k, 'v) hash_map = "('k \<times> 'v) list"

abbreviation hm_get :: "('k, 'v) hash_map \<Rightarrow> 'k \<Rightarrow> 'v option" where
  "hm_get \<equiv> map_of"

abbreviation hm_insert :: "'k \<Rightarrow> 'v \<Rightarrow> ('k, 'v) hash_map \<Rightarrow> ('k, 'v) hash_map" where
  "hm_insert \<equiv> AList.update"

abbreviation hm_remove :: "'k \<Rightarrow> ('k, 'v) hash_map \<Rightarrow> ('k, 'v) hash_map" where
  "hm_remove \<equiv> AList.delete"

lemma hm_get_insert [simp]:
  "hm_get (hm_insert k v m) k' = (if k' = k then Some v else hm_get m k')"
  by (simp add: update_conv)

lemma hm_get_remove [simp]:
  "hm_get (hm_remove k m) k' = (if k' = k then None else hm_get m k')"
  by (simp add: delete_conv)

lemma hm_get_fold_remove:
  "hm_get (fold hm_remove ks m) k = (if k \<in> set ks then None else hm_get m k)"
  by (induction ks arbitrary: m) auto

section \<open>Ordered maps\<close>

type_synonym ('k, 'v) btree_map = "('k \<times> 'v) list"

abbreviation bt_get :: "('k, 'v) btree_map \<Rightarrow> 'k \<Rightarrow> 'v option" where
  "bt_get \<equiv> map_of"

fun bt_insert :: "'k::linorder \<Rightarrow> 'v \<Rightarrow> ('k, 'v) btree_map \<Rightarrow> ('k, 'v) btree_map" where
  "bt_insert k v [] = [(k, v)]"
| "bt_insert k v ((k', v') # m) =
     (if k < k' then (k, v) # (k', v') # m
      else if k = k' then (k, v) # m
      else (k', v') # bt_insert k v m)"

definition bt_remove :: "'k \<Rightarrow> ('k, 'v) btree_map \<Rightarrow> ('k, 'v) btree_map" where
  "bt_remove k m = filter (\<lambda>p. fst p \<noteq> k) m"

definition bt_wf :: "('k::linorder, 'v) btree_map \<Rightarrow> bool" where
  "bt_wf m = sorted_wrt (<) (map fst m)"

lemma keys_bt_insert [simp]: "fst ` set (bt_insert k v m) = insert k (fst ` set m)"
proof (induction m)
  case (Cons p m)
  then show ?case by (cases p) (simp add: insert_commute)
qed simp

lemma bt_insert_nonempty [simp]: "bt_insert k v m \<noteq> []"
  by (cases "(k, v, m)" rule: bt_insert.cases) auto

lemma bt_wf_Nil [simp]: "bt_wf []"
  by (simp add: bt_wf_def)

lemma bt_wf_Cons: "bt_wf ((k, v) # m) \<longleftrightarrow> (\<forall>k' \<in> fst ` set m. k < k') \<and> bt_wf m"
  by (auto simp: bt_wf_def)

lemma bt_wf_insert: "bt_wf m \<Longrightarrow> bt_wf (bt_insert k v m)"
proof (induction m)
  case Nil
  then show ?case by (simp add: bt_wf_def)
next
  case (Cons p m)
  obtain k' v' where p: "p = (k', v')" by (cases p)
  from Cons show ?case by (auto simp: p bt_wf_Cons)
qed

lemma bt_get_insert:
  "bt_get (bt_insert k v m) k' = (if k' = k then Some v else bt_get m k')"
  by (induction m) auto

lemma bt_get_remove: "bt_get (bt_remove k m) k' = (if k' = k then None else bt_get m k')"
  by (induction m) (auto simp: bt_remove_def)

lemma bt_wf_filter: "bt_wf m \<Longrightarrow> bt_wf (filter P m)"
proof (induction m)
  case (Cons p m)
  then show ?case by (cases p) (auto simp: bt_wf_Cons)
qed simp

lemma bt_wf_remove: "bt_wf m \<Longrightarrow> bt_wf (bt_remove k m)"
  by (simp add: bt_remove_def bt_wf_filter)

lemma bt_get_fold_remove:
  "bt_get (fold bt_remove ks m) k = (if k \<in> set ks then None else bt_get m k)"
  by (induction ks arbitrary: m) (auto simp: bt_get_remove)

lemma bt_wf_fold_remove: "bt_wf m \<Longrightarrow> bt_wf (fold bt_remove ks m)"
  by (induction ks arbitrary: m) (auto simp: bt_wf_remove)

lemma bt_wf_map_values: "bt_wf (map (\<lambda>(k, v). (k, f v)) m) \<longleftrightarrow> bt_wf m"
  by (simp add: bt_wf_def comp_def case_prod_beta)

lemma bt_wf_distinct: "bt_wf m \<Longrightarrow> distinct (map fst m)"
  by (simp add: bt_wf_def strict_sorted_iff)

lemma bt_get_in_set: "bt_wf m \<Longrightarrow> bt_get m k = Some v \<longleftrightarrow> (k, v) \<in> set m"
  by (simp add: bt_wf_distinct)

text \<open>
  The contract of an ordered map: what a lookup returns after an update, that every
  operation keeps the order of the entries, and that the entries are the graph of the lookup.
\<close>

locale ordered_map =
  fixes get :: "'m \<Rightarrow> 'k::linorder \<Rightarrow> 'v option"
    and insert_at :: "'k \<Rightarrow> 'v \<Rightarrow> 'm \<Rightarrow> 'm"
    and remove_at :: "'k \<Rightarrow> 'm \<Rightarrow> 'm"
    and entries :: "'m \<Rightarrow> ('k \<times> 'v) list"
    and invar :: "'m \<Rightarrow> bool"
  assumes get_insert: "get (insert_at k v m) k' = (if k' = k then Some v else get m k')"
    and get_remove: "get (remove_at k m) k' = (if k' = k then None else get m k')"
    and invar_insert: "invar m \<Longrightarrow> invar (insert_at k v m)"
    and invar_remove: "invar m \<Longrightarrow> invar (remove_at k m)"
    and entries_sorted: "invar m \<Longrightarrow> sorted_wrt (<) (map fst (entries m))"
    and entries_get: "invar m \<Longrightarrow> (k, v) \<in> set (entries m) \<longleftrightarrow> get m k = Some v"
begin

lemma entries_insert:
  assumes "invar m"
  shows "set (entries (insert_at k v m)) = insert (k, v) {p \<in> set (entries m). fst p \<noteq> k}"
proof -
  have "(a, b) \<in> set (entries (insert_at k v m)) \<longleftrightarrow>
      (a, b) \<in> insert (k, v) {p \<in> set (entries m). fst p \<noteq> k}" for a b
    using entries_get [OF invar_insert [OF assms], of a b] entries_get [OF assms, of a b]
    by (auto simp: get_insert)
  then show ?thesis by (intro set_eqI) (case_tac x, blast)
qed

lemma entries_insert_fresh:
  assumes "invar m" and "get m k = None"
  shows "set (entries (insert_at k v m)) = insert (k, v) (set (entries m))"
  using assms entries_get [OF assms(1)] by (auto simp: entries_insert)

lemma greater_than_last_fresh:
  assumes "invar m" and "\<And>p. p \<in> set (entries m) \<Longrightarrow> fst p < k"
  shows "get m k = None"
proof (rule ccontr)
  assume "get m k \<noteq> None"
  then obtain v where "(k, v) \<in> set (entries m)"
    using entries_get [OF assms(1)] by auto
  with assms(2) show False by fastforce
qed

end

interpretation bt: ordered_map bt_get bt_insert bt_remove "\<lambda>m. m" bt_wf
  by unfold_locales
    (auto simp: bt_get_insert bt_get_remove bt_wf_insert bt_wf_remove bt_get_in_set
      simp flip: bt_wf_def)

section \<open>Ordered sets\<close>

type_synonym 'a btree_set = "'a list"

abbreviation bs_insert :: "'a::linorder \<Rightarrow> 'a btree_set \<Rightarrow> 'a btree_set" where
  "bs_insert \<equiv> insort_insert"

definition bs_remove :: "'a \<Rightarrow> 'a btree_set \<Rightarrow> 'a btree_set" where
  "bs_remove x s = filter (\<lambda>y. y \<noteq> x) s"

definition bs_wf :: "'a::linorder btree_set \<Rightarrow> bool" where
  "bs_wf s = sorted_wrt (<) s"

lemma set_bs_remove [simp]: "set (bs_remove x s) = set s - {x}"
  by (auto simp: bs_remove_def)

lemma set_fold_bs_remove: "set (fold bs_remove xs s) = set s - set xs"
  by (induction xs arbitrary: s) auto

lemma bs_wf_insert: "bs_wf s \<Longrightarrow> bs_wf (bs_insert x s)"
  by (simp add: bs_wf_def strict_sorted_iff sorted_insort_insert distinct_insort_insert)

lemma bs_wf_remove: "bs_wf s \<Longrightarrow> bs_wf (bs_remove x s)"
  by (auto simp: bs_wf_def bs_remove_def strict_sorted_iff intro: sorted_filter [of "\<lambda>x. x", simplified])

lemma bs_wf_fold_remove: "bs_wf s \<Longrightarrow> bs_wf (fold bs_remove xs s)"
  by (induction xs arbitrary: s) (auto simp: bs_wf_remove)

end
