(* ===== verification/Block_Types.thy ===== *)
theory Block_Types
  imports Clarinet_Prelude
begin

text \<open>
  The block vocabulary of \<^verbatim>\<open>components/observer/src/types/rosetta.rs\<close>.

  A \<open>BlockIdentifier\<close> is a height and a hash. Two relations live on it and they disagree:
  \<^verbatim>\<open>PartialEq\<close> (and \<^verbatim>\<open>Hash\<close>) compare the hash alone, \<^verbatim>\<open>Ord\<close> compares height then hash, in
  reverse. The hash-based containers of the sources therefore key on the hash
  (\<open>bid_eq\<close>), the tree-based ones on the whole identifier, whose order is the
  \<^verbatim>\<open>linorder\<close> instance below.
\<close>

datatype block_identifier = BlockIdentifier (bid_index: u64) (bid_hash: string)

definition bid_eq :: "block_identifier \<Rightarrow> block_identifier \<Rightarrow> bool" where
  "bid_eq a b = (bid_hash a = bid_hash b)"

text \<open>\<^verbatim>\<open>Ord::cmp\<close> is the comparison of the other identifier with this one, height then hash.\<close>

definition bid_le :: "block_identifier \<Rightarrow> block_identifier \<Rightarrow> bool" where
  "bid_le a b =
     (bid_index b < bid_index a \<or> bid_index b = bid_index a \<and> bid_hash b \<le> bid_hash a)"

instantiation block_identifier :: linorder
begin

definition less_eq_block_identifier :: "block_identifier \<Rightarrow> block_identifier \<Rightarrow> bool" where
  "less_eq_block_identifier = bid_le"

definition less_block_identifier :: "block_identifier \<Rightarrow> block_identifier \<Rightarrow> bool" where
  "less_block_identifier a b =
     (bid_index b < bid_index a \<or> bid_index b = bid_index a \<and> bid_hash b < bid_hash a)"

instance
  by intro_classes
    (auto simp: bid_le_def less_eq_block_identifier_def less_block_identifier_def
      intro: block_identifier.expand)

end

record block_header =
  block_identifier :: block_identifier
  parent_block_identifier :: block_identifier

record blockchain_updated_with_headers =
  new_headers :: "block_header list"
  confirmed_headers :: "block_header list"

record blockchain_updated_with_reorg =
  headers_to_rollback :: "block_header list"
  headers_to_apply :: "block_header list"
  reorg_confirmed_headers :: "block_header list"

datatype blockchain_event =
    BlockchainUpdatedWithHeaders blockchain_updated_with_headers
  | BlockchainUpdatedWithReorg blockchain_updated_with_reorg

lemma bid_eq_refl [simp]: "bid_eq a a"
  by (simp add: bid_eq_def)

lemma bid_eq_sym: "bid_eq a b \<longleftrightarrow> bid_eq b a"
  by (auto simp: bid_eq_def)

lemma bid_eq_trans: "bid_eq a b \<Longrightarrow> bid_eq b c \<Longrightarrow> bid_eq a c"
  by (simp add: bid_eq_def)

end
