(* ===== verification/Chain_Segment.thy ===== *)
theory Chain_Segment
  imports Block_Types "HOL-Library.Sublist"
begin

text \<open>
  \<^verbatim>\<open>ChainSegment\<close> of \<^verbatim>\<open>components/observer/src/indexer/mod.rs\<close>: a fork as a double-ended
  queue of block identifiers, tip first. The front of the \<^verbatim>\<open>VecDeque\<close> is the head of the list.
  A block enters the operations through the trait \<^verbatim>\<open>AbstractBlock\<close>, that is, through its own
  identifier and its parent's: the model passes the \<open>block_header\<close> that
  \<^verbatim>\<open>AbstractBlock::get_header\<close> builds from the two. Logging is not modelled.
\<close>

section \<open>Operations\<close>

record chain_segment =
  block_ids :: "block_identifier list"

datatype chain_segment_incompatibility =
    OutdatedBlock
  | OutdatedSegment
  | BlockCollision
  | ParentBlockUnknown
  | AlreadyPresent
  | Unknown
  | BlockNotFound

record chain_segment_divergence =
  block_ids_to_apply :: "block_identifier list"
  block_ids_to_rollback :: "block_identifier list"

definition chain_segment_new :: chain_segment where
  "chain_segment_new = \<lparr>block_ids = []\<rparr>"

definition seg_is_empty :: "chain_segment \<Rightarrow> bool" where
  "seg_is_empty s = (block_ids s = [])"

text \<open>\<^verbatim>\<open>#[derive(PartialEq)]\<close> on the segment compares its identifiers pairwise by \<^verbatim>\<open>PartialEq\<close>.\<close>

definition seg_eq :: "chain_segment \<Rightarrow> chain_segment \<Rightarrow> bool" where
  "seg_eq s t = list_all2 bid_eq (block_ids s) (block_ids t)"

definition is_block_id_newer_than_segment :: "chain_segment \<Rightarrow> block_identifier \<Rightarrow> bool" where
  "is_block_id_newer_than_segment s block_id =
     (case block_ids s of
        tip # _ \<Rightarrow> bid_index tip + 1 < bid_index block_id
      | [] \<Rightarrow> False)"

definition get_relative_index :: "chain_segment \<Rightarrow> block_identifier \<Rightarrow> nat" where
  "get_relative_index s block_id =
     (case block_ids s of
        tip # _ \<Rightarrow> unat (saturating_sub (bid_index tip) (bid_index block_id))
      | [] \<Rightarrow> 0)"

definition get_block_id :: "chain_segment \<Rightarrow> block_identifier \<Rightarrow> block_identifier option" where
  "get_block_id s block_id =
     (let i = get_relative_index s block_id
      in if i < length (block_ids s) then Some (block_ids s ! i) else None)"

definition can_append_block ::
  "chain_segment \<Rightarrow> block_header \<Rightarrow> chain_segment_incompatibility + unit" where
  "can_append_block s block =
     (if is_block_id_newer_than_segment s (block_identifier block) then Inl OutdatedSegment
      else case block_ids s of
        [] \<Rightarrow> Inr ()
      | tip # _ \<Rightarrow>
          if bid_index tip = bid_index (parent_block_identifier block) then
            (if bid_hash tip = bid_hash (parent_block_identifier block) then Inr ()
             else Inl ParentBlockUnknown)
          else case get_block_id s (block_identifier block) of
              Some colliding_block \<Rightarrow>
                if bid_eq colliding_block (block_identifier block) then Inl AlreadyPresent
                else Inl BlockCollision
            | None \<Rightarrow> Inl Unknown)"

definition append_block_identifier :: "block_identifier \<Rightarrow> chain_segment \<Rightarrow> chain_segment" where
  "append_block_identifier block_id s = s\<lparr>block_ids := block_id # block_ids s\<rparr>"

fun prune_loop ::
  "block_identifier \<Rightarrow> block_identifier list \<Rightarrow> block_identifier list \<Rightarrow> block_identifier list \<Rightarrow>
   block_identifier list \<times> block_identifier list" where
  "prune_loop cut_off [] keep prune = (keep, prune)"
| "prune_loop cut_off (block_id # rest) keep prune =
     (if bid_index cut_off \<le> bid_index block_id
      then prune_loop cut_off rest (keep @ [block_id]) prune
      else prune_loop cut_off rest keep (prune @ [block_id]))"

definition prune_confirmed_blocks ::
  "chain_segment \<Rightarrow> block_identifier \<Rightarrow> block_identifier list \<times> chain_segment" where
  "prune_confirmed_blocks s cut_off =
     (case prune_loop cut_off (block_ids s) [] [] of
        (keep, prune) \<Rightarrow> (prune, s\<lparr>block_ids := keep\<rparr>))"

definition get_tip :: "chain_segment \<Rightarrow> block_identifier outcome" where
  "get_tip s = (case block_ids s of tip # _ \<Rightarrow> Done tip | [] \<Rightarrow> Panic)"

definition get_length :: "chain_segment \<Rightarrow> nat" where
  "get_length s = length (block_ids s)"

fun keep_loop ::
  "block_identifier \<Rightarrow> block_identifier list \<Rightarrow> bool \<Rightarrow> block_identifier list \<times> bool \<times> bool" where
  "keep_loop block_id [] mutated = ([], False, mutated)"
| "keep_loop block_id (tip # rest) mutated =
     (if bid_eq tip block_id then (tip # rest, True, mutated)
      else keep_loop block_id rest True)"

definition keep_blocks_from_oldest_to_block_identifier ::
  "chain_segment \<Rightarrow> block_identifier \<Rightarrow> (bool \<times> bool) \<times> chain_segment" where
  "keep_blocks_from_oldest_to_block_identifier s block_id =
     (case keep_loop block_id (block_ids s) False of
        (ids, found, mutated) \<Rightarrow> ((found, mutated), s\<lparr>block_ids := ids\<rparr>))"

text \<open>The inner loop of \<^verbatim>\<open>try_identify_divergence\<close>: scan \<open>self\<close> for one block of the other segment.\<close>

fun scan_segment ::
  "block_identifier \<Rightarrow> block_identifier list \<Rightarrow> block_identifier list \<Rightarrow>
   block_identifier option \<times> block_identifier list" where
  "scan_segment cursor_1 [] to_apply = (None, to_apply)"
| "scan_segment cursor_1 (cursor_2 # rest) to_apply =
     (if bid_eq cursor_2 cursor_1 then (Some cursor_2, to_apply)
      else scan_segment cursor_1 rest (to_apply @ [cursor_2]))"

text \<open>Its outer loop; \<open>to_apply\<close> is cleared at the start of every round.\<close>

fun divergence_loop ::
  "block_identifier list \<Rightarrow> block_identifier list \<Rightarrow> block_identifier list \<Rightarrow> block_identifier list \<Rightarrow>
   block_identifier option \<times> block_identifier list \<times> block_identifier list" where
  "divergence_loop self_ids [] to_rollback to_apply = (None, to_rollback, to_apply)"
| "divergence_loop self_ids (cursor_1 # rest) to_rollback to_apply =
     (case scan_segment cursor_1 self_ids [] of
        (Some root, to_apply') \<Rightarrow> (Some root, to_rollback, to_apply')
      | (None, to_apply') \<Rightarrow>
          divergence_loop self_ids rest (to_rollback @ [cursor_1]) to_apply')"

definition try_identify_divergence ::
  "chain_segment \<Rightarrow> chain_segment \<Rightarrow> bool \<Rightarrow>
   chain_segment_incompatibility + chain_segment_divergence" where
  "try_identify_divergence self other allow_reset =
     (case divergence_loop (block_ids self) (block_ids other) [] [] of
        (common_root, to_rollback, to_apply) \<Rightarrow>
          let d = \<lparr>block_ids_to_apply = rev to_apply, block_ids_to_rollback = to_rollback\<rparr>
          in case common_root of
               Some _ \<Rightarrow> Inr d
             | None \<Rightarrow> if allow_reset then Inr d else Inl Unknown)"

definition try_append_block ::
  "chain_segment \<Rightarrow> block_header \<Rightarrow> (bool \<times> chain_segment option) \<times> chain_segment" where
  "try_append_block s block =
     (case can_append_block s block of
        Inr _ \<Rightarrow> ((True, None), append_block_identifier (block_identifier block) s)
      | Inl BlockCollision \<Rightarrow>
          (case keep_blocks_from_oldest_to_block_identifier s (parent_block_identifier block) of
             ((parent_found, _), new_fork) \<Rightarrow>
               if parent_found
               then ((True, Some (append_block_identifier (block_identifier block) new_fork)), s)
               else ((False, None), s))
      | Inl _ \<Rightarrow> ((False, None), s))"

section \<open>Loops in closed form\<close>

lemma prune_loop_eq:
  "prune_loop c ids keep prune =
     (keep @ filter (\<lambda>b. bid_index c \<le> bid_index b) ids,
      prune @ filter (\<lambda>b. bid_index b < bid_index c) ids)"
  by (induction ids arbitrary: keep prune) (auto simp: not_le)

lemma prune_confirmed_blocks_eq [seg_simps]:
  "prune_confirmed_blocks s c =
     (filter (\<lambda>b. bid_index b < bid_index c) (block_ids s),
      s\<lparr>block_ids := filter (\<lambda>b. bid_index c \<le> bid_index b) (block_ids s)\<rparr>)"
  by (simp add: prune_confirmed_blocks_def prune_loop_eq)

lemma keep_loop_eq:
  "keep_loop b ids m =
     (dropWhile (\<lambda>x. \<not> bid_eq x b) ids, \<exists>x \<in> set ids. bid_eq x b,
      m \<or> (\<exists>x xs. ids = x # xs \<and> \<not> bid_eq x b))"
  by (induction ids arbitrary: m) auto

lemma keep_blocks_eq [seg_simps]:
  "keep_blocks_from_oldest_to_block_identifier s b =
     ((\<exists>x \<in> set (block_ids s). bid_eq x b,
       \<exists>x xs. block_ids s = x # xs \<and> \<not> bid_eq x b),
      s\<lparr>block_ids := dropWhile (\<lambda>x. \<not> bid_eq x b) (block_ids s)\<rparr>)"
  by (simp add: keep_blocks_from_oldest_to_block_identifier_def keep_loop_eq)

lemma scan_segment_eq:
  "scan_segment c ids acc =
     ((case dropWhile (\<lambda>x. \<not> bid_eq x c) ids of [] \<Rightarrow> None | r # _ \<Rightarrow> Some r),
      acc @ takeWhile (\<lambda>x. \<not> bid_eq x c) ids)"
  by (induction ids arbitrary: acc) auto

lemma scan_segment_Some:
  assumes "scan_segment c ids [] = (Some r, ap)"
  obtains rest where "ids = ap @ r # rest" and "bid_eq r c" and "\<forall>x \<in> set ap. \<not> bid_eq x c"
proof -
  from assms have dw: "\<exists>rest. dropWhile (\<lambda>x. \<not> bid_eq x c) ids = r # rest"
    and ap: "ap = takeWhile (\<lambda>x. \<not> bid_eq x c) ids"
    by (auto simp: scan_segment_eq split: list.splits)
  from dw obtain rest where d: "dropWhile (\<lambda>x. \<not> bid_eq x c) ids = r # rest" by blast
  have "ids = ap @ r # rest" using takeWhile_dropWhile_id [of "\<lambda>x. \<not> bid_eq x c" ids] d ap by simp
  moreover have "bid_eq r c" using d by (simp add: dropWhile_eq_Cons_conv)
  moreover have "\<forall>x \<in> set ap. \<not> bid_eq x c" using ap by (auto dest: set_takeWhileD)
  ultimately show thesis by (rule that)
qed

lemma scan_segment_None_iff:
  "fst (scan_segment c ids acc) = None \<longleftrightarrow> (\<forall>x \<in> set ids. \<not> bid_eq x c)"
  by (induction ids arbitrary: acc) auto

lemma scan_segment_None:
  "scan_segment c ids [] = (None, ap) \<Longrightarrow> ap = ids \<and> (\<forall>x \<in> set ids. \<not> bid_eq x c)"
  using scan_segment_None_iff [of c ids "[]"]
  by (auto simp: scan_segment_eq takeWhile_eq_all_conv)

lemma divergence_loop_Some:
  assumes "divergence_loop self_ids other rb ap = (Some r, rb', ap')"
  obtains mid r' rest rest' where "rb' = rb @ mid" and "other = mid @ r' # rest'"
    and "self_ids = ap' @ r # rest" and "bid_eq r r'"
    and "\<forall>x \<in> set mid. \<forall>y \<in> set self_ids. \<not> bid_eq y x" and "\<forall>x \<in> set ap'. \<not> bid_eq x r'"
  using assms
proof (induction other arbitrary: rb ap thesis)
  case (Cons c other)
  show ?case
  proof (cases "scan_segment c self_ids []")
    case (Pair root ap1)
    show ?thesis
    proof (cases root)
      case (Some r1)
      with Cons.prems(2) Pair have eqs: "r1 = r" "ap1 = ap'" "rb' = rb" by simp_all
      with Pair Some obtain rest where "self_ids = ap' @ r # rest" "bid_eq r c"
        "\<forall>x \<in> set ap'. \<not> bid_eq x c"
        by (metis scan_segment_Some)
      with eqs show ?thesis by (intro Cons.prems(1) [of "[]" c other rest]) auto
    next
      case None
      with Pair have no: "\<forall>x \<in> set self_ids. \<not> bid_eq x c" using scan_segment_None by blast
      from Cons.prems(2) Pair None
      have "divergence_loop self_ids other (rb @ [c]) ap1 = (Some r, rb', ap')" by simp
      then obtain mid r' rest rest' where "rb' = (rb @ [c]) @ mid" "other = mid @ r' # rest'"
        "self_ids = ap' @ r # rest" "bid_eq r r'"
        "\<forall>x \<in> set mid. \<forall>y \<in> set self_ids. \<not> bid_eq y x" "\<forall>x \<in> set ap'. \<not> bid_eq x r'"
        by (rule Cons.IH [rotated])
      with no show ?thesis by (intro Cons.prems(1) [of "c # mid" r' rest' rest]) auto
    qed
  qed
qed simp

lemma divergence_loop_None:
  "divergence_loop self_ids other rb ap = (None, rb', ap') \<Longrightarrow>
   rb' = rb @ other \<and> ap' = (if other = [] then ap else self_ids) \<and>
   (\<forall>x \<in> set other. \<forall>y \<in> set self_ids. \<not> bid_eq y x)"
proof (induction other arbitrary: rb ap)
  case (Cons c other)
  obtain root ap1 where sc: "scan_segment c self_ids [] = (root, ap1)" by force
  with Cons.prems have "root = None" by (cases root) auto
  with sc have *: "ap1 = self_ids" "\<forall>x \<in> set self_ids. \<not> bid_eq x c" using scan_segment_None by auto
  from Cons.prems sc \<open>root = None\<close>
  have "divergence_loop self_ids other (rb @ [c]) ap1 = (None, rb', ap')" by simp
  from Cons.IH [OF this] * show ?case by auto
qed simp

section \<open>Appending a block\<close>

lemma get_block_id_mem: "get_block_id s b = Some c \<Longrightarrow> c \<in> set (block_ids s)"
  by (auto simp: get_block_id_def Let_def split: if_splits)

lemma can_append_empty [simp]: "block_ids s = [] \<Longrightarrow> can_append_block s b = Inr ()"
  by (simp add: can_append_block_def is_block_id_newer_than_segment_def)

lemma can_append_Inr_iff:
  "can_append_block s b = Inr u \<longleftrightarrow>
     (case block_ids s of
        [] \<Rightarrow> True
      | tip # _ \<Rightarrow> tip = parent_block_identifier b \<and>
                  bid_index (block_identifier b) \<le> bid_index tip + 1)"
  by (auto simp: can_append_block_def is_block_id_newer_than_segment_def not_less
      split: list.splits option.splits intro: block_identifier.expand)

lemma block_ids_append [simp, seg_simps]:
  "block_ids (append_block_identifier b s) = b # block_ids s"
  by (simp add: append_block_identifier_def)

text \<open>
  The three things \<^verbatim>\<open>try_append_block\<close> can do: extend the segment at its tip, fork it at the
  parent and leave it alone, or reject the block.
\<close>

lemma try_append_block_cases:
  assumes "try_append_block s b = ((appended, fork), s')"
  obtains
    (extended) "appended" "fork = None" "s' = append_block_identifier (block_identifier b) s"
      "can_append_block s b = Inr ()"
  | (forked) new_fork above root below where
      "appended" "fork = Some new_fork" "s' = s" "can_append_block s b = Inl BlockCollision"
      "block_ids s = above @ root # below" "bid_eq root (parent_block_identifier b)"
      "\<forall>x \<in> set above. \<not> bid_eq x (parent_block_identifier b)"
      "block_ids new_fork = block_identifier b # root # below"
  | (rejected) "\<not> appended" "fork = None" "s' = s" "can_append_block s b \<noteq> Inr ()"
proof (cases "can_append_block s b")
  case (Inr u)
  show thesis
    by (rule extended) (use assms Inr in \<open>simp_all add: try_append_block_def\<close>)
next
  case (Inl e)
  let ?p = "parent_block_identifier b"
  show thesis
  proof (cases "e = BlockCollision \<and> (\<exists>x \<in> set (block_ids s). bid_eq x ?p)")
    case True
    then have ex: "\<exists>x \<in> set (block_ids s). bid_eq x ?p" by blast
    then obtain root below where
      dw: "dropWhile (\<lambda>x. \<not> bid_eq x ?p) (block_ids s) = root # below"
      by (metis (mono_tags, lifting) dropWhile_eq_Nil_conv neq_Nil_conv)
    have split: "block_ids s = takeWhile (\<lambda>x. \<not> bid_eq x ?p) (block_ids s) @ root # below"
      using takeWhile_dropWhile_id [of "\<lambda>x. \<not> bid_eq x ?p" "block_ids s"] dw by simp
    have root: "bid_eq root ?p" using dw by (simp add: dropWhile_eq_Cons_conv)
    have above: "\<forall>x \<in> set (takeWhile (\<lambda>x. \<not> bid_eq x ?p) (block_ids s)). \<not> bid_eq x ?p"
      by (auto dest: set_takeWhileD)
    have res: "appended" "s' = s"
      "fork = Some (append_block_identifier (block_identifier b) (s\<lparr>block_ids := root # below\<rparr>))"
      using True Inl assms ex dw by (auto simp: try_append_block_def keep_blocks_eq)
    have "can_append_block s b = Inl BlockCollision" using Inl True by simp
    from forked [OF res(1) res(3) res(2) this split root above] show thesis by simp
  next
    case False
    show thesis
      by (rule rejected)
        (use False Inl assms in \<open>auto simp: try_append_block_def keep_blocks_eq
          split: chain_segment_incompatibility.splits\<close>)
  qed
qed

section \<open>Divergence of two segments\<close>

text \<open>
  What a consumer of a divergence does to the identifiers it holds, tip first: take off the
  rolled back blocks, then push the applied ones in order.
\<close>

definition replay_ids :: "chain_segment_divergence \<Rightarrow> block_identifier list \<Rightarrow> block_identifier list" where
  "replay_ids d ids =
     fold (\<lambda>b held. b # held) (block_ids_to_apply d) (drop (length (block_ids_to_rollback d)) ids)"

text \<open>
  Two chains are coherent when a block they share (by hash) has the same ancestors in both:
  from that block down they are the same list.
\<close>

definition coherent :: "block_identifier list \<Rightarrow> block_identifier list \<Rightarrow> bool" where
  "coherent xs ys =
     list_all (\<lambda>s. list_all (\<lambda>t. s \<noteq> [] \<and> t \<noteq> [] \<and> bid_eq (hd s) (hd t) \<longrightarrow> s = t) (suffixes ys))
       (suffixes xs)"

lemma replay_ids_eq: "replay_ids d ids =
    rev (block_ids_to_apply d) @ drop (length (block_ids_to_rollback d)) ids"
proof -
  have "fold (\<lambda>b held. b # held) xs held = rev xs @ held" for xs held :: "block_identifier list"
    by (induction xs arbitrary: held) auto
  then show ?thesis by (simp add: replay_ids_def)
qed

lemma coherent_iff:
  "coherent xs ys \<longleftrightarrow>
     (\<forall>a r s b r' s'. xs = a @ r # s \<longrightarrow> ys = b @ r' # s' \<longrightarrow> bid_eq r r' \<longrightarrow> r # s = r' # s')"
proof
  assume c: "coherent xs ys"
  show "\<forall>a r s b r' s'. xs = a @ r # s \<longrightarrow> ys = b @ r' # s' \<longrightarrow> bid_eq r r' \<longrightarrow> r # s = r' # s'"
  proof (intro allI impI)
    fix a r s b r' s'
    assume *: "xs = a @ r # s" "ys = b @ r' # s'" "bid_eq r r'"
    then have "suffix (r # s) xs" "suffix (r' # s') ys" by (auto simp: suffix_def)
    with c *(3) show "r # s = r' # s'" by (fastforce simp: coherent_def list_all_iff)
  qed
next
  assume r: "\<forall>a r s b r' s'. xs = a @ r # s \<longrightarrow> ys = b @ r' # s' \<longrightarrow> bid_eq r r' \<longrightarrow> r # s = r' # s'"
  have "s = t" if st: "suffix s xs" "suffix t ys" "s \<noteq> []" "t \<noteq> []" "bid_eq (hd s) (hd t)" for s t
  proof -
    obtain r' s' where s: "s = r' # s'" using st(3) by (cases s) auto
    obtain u t' where t: "t = u # t'" using st(4) by (cases t) auto
    obtain a b where "xs = a @ r' # s'" "ys = b @ u # t'"
      using st(1,2) by (auto simp: s t suffix_def)
    with r st(5) show ?thesis unfolding s t by simp
  qed
  then show "coherent xs ys" by (auto simp: coherent_def list_all_iff)
qed

lemma coherentD:
  "coherent xs ys \<Longrightarrow> xs = a @ r # s \<Longrightarrow> ys = b @ r' # s' \<Longrightarrow> bid_eq r r' \<Longrightarrow> r # s = r' # s'"
  unfolding coherent_iff by blast

lemma coherent_sym: "coherent xs ys \<longleftrightarrow> coherent ys xs"
proof -
  have "coherent ys xs" if "coherent xs ys" for xs ys
    unfolding coherent_iff
  proof (intro allI impI)
    fix a r s b r' s'
    assume *: "ys = a @ r # s" "xs = b @ r' # s'" "bid_eq r r'"
    from *(3) have "bid_eq r' r" by (simp add: bid_eq_sym)
    from coherentD [OF that *(2,1) this] show "r # s = r' # s'" by simp
  qed
  then show ?thesis by blast
qed

lemma coherent_Nil [simp]: "coherent [] ys" "coherent xs []"
  by (simp_all add: coherent_iff)

lemma try_identify_divergence_InrE:
  assumes "try_identify_divergence self other allow_reset = Inr d"
  obtains
    (root) r r' rest rest' where
      "block_ids self = rev (block_ids_to_apply d) @ r # rest"
      "block_ids other = block_ids_to_rollback d @ r' # rest'" "bid_eq r r'"
      "\<forall>x \<in> set (block_ids_to_rollback d). \<forall>y \<in> set (block_ids self). \<not> bid_eq y x"
      "\<forall>x \<in> set (block_ids_to_apply d). \<not> bid_eq x r'"
  | (reset) "allow_reset" "block_ids_to_rollback d = block_ids other"
      "block_ids_to_apply d = (if block_ids other = [] then [] else rev (block_ids self))"
      "\<forall>x \<in> set (block_ids other). \<forall>y \<in> set (block_ids self). \<not> bid_eq y x"
proof -
  obtain cr rb ap where dl: "divergence_loop (block_ids self) (block_ids other) [] [] = (cr, rb, ap)"
    by (metis prod_cases3)
  show thesis
  proof (cases cr)
    case None
    with divergence_loop_None [of "block_ids self" "block_ids other" "[]" "[]" rb ap] dl assms
    show thesis by (intro reset) (auto simp: try_identify_divergence_def split: if_splits)
  next
    case (Some r)
    with dl assms have d: "d = \<lparr>block_ids_to_apply = rev ap, block_ids_to_rollback = rb\<rparr>"
      by (simp add: try_identify_divergence_def)
    from dl Some obtain mid r' rest rest' where "rb = [] @ mid" "block_ids other = mid @ r' # rest'"
      "block_ids self = ap @ r # rest" "bid_eq r r'"
      "\<forall>x \<in> set mid. \<forall>y \<in> set (block_ids self). \<not> bid_eq y x" "\<forall>x \<in> set ap. \<not> bid_eq x r'"
      by (metis divergence_loop_Some)
    with d show thesis by (intro root) simp_all
  qed
qed

lemma try_identify_divergence_rootE:
  assumes "try_identify_divergence self other False = Inr d"
  obtains r r' rest rest' where "block_ids self = rev (block_ids_to_apply d) @ r # rest"
    and "block_ids other = block_ids_to_rollback d @ r' # rest'" and "bid_eq r r'"
proof (rule try_identify_divergence_InrE [OF assms], goal_cases)
  case (1 r r' rest rest')
  show ?thesis by (rule that [OF 1(2,3,4)])
next
  case 2
  from 2(2) show ?thesis ..
qed

lemma try_identify_divergence_Inl_iff:
  "try_identify_divergence self other allow_reset = Inl e \<longleftrightarrow>
     e = Unknown \<and> \<not> allow_reset \<and>
     (\<forall>x \<in> set (block_ids other). \<forall>y \<in> set (block_ids self). \<not> bid_eq y x)"
proof -
  obtain cr rb ap where dl: "divergence_loop (block_ids self) (block_ids other) [] [] = (cr, rb, ap)"
    by (metis prod_cases3)
  show ?thesis
  proof (cases cr)
    case None
    with divergence_loop_None [of "block_ids self" "block_ids other" "[]" "[]" rb ap] dl
    show ?thesis by (auto simp: try_identify_divergence_def)
  next
    case (Some r)
    with dl obtain mid r' rest rest' where "block_ids other = mid @ r' # rest'"
      "block_ids self = ap @ r # rest" "bid_eq r r'"
      by (metis divergence_loop_Some)
    with dl Some show ?thesis by (auto simp: try_identify_divergence_def)
  qed
qed

section \<open>Properties\<close>

text \<open>
  C25. \<^verbatim>\<open>ChainSegment::try_identify_divergence\<close> without reset: it fails (with \<^verbatim>\<open>Unknown\<close>) exactly
  when the two segments share no block hash; otherwise the other segment is the rolled back
  blocks followed by a common root, this one is the applied blocks in reverse followed by the
  same root, and no rolled back block belongs to this segment: the roll back is minimal.
\<close>

theorem try_identify_divergence_correct:
  "case try_identify_divergence self other False of
     Inl e \<Rightarrow> e = Unknown \<and>
       list_all (\<lambda>x. list_all (\<lambda>y. \<not> bid_eq y x) (block_ids self)) (block_ids other)
   | Inr d \<Rightarrow> (\<exists>r r' rest rest'.
       block_ids self = rev (block_ids_to_apply d) @ r # rest \<and>
       block_ids other = block_ids_to_rollback d @ r' # rest' \<and>
       bid_eq r r' \<and>
       list_all (\<lambda>x. list_all (\<lambda>y. \<not> bid_eq y x) (block_ids self)) (block_ids_to_rollback d) \<and>
       list_all (\<lambda>x. \<not> bid_eq x r') (block_ids_to_apply d))"
proof (cases "try_identify_divergence self other False")
  case (Inl e)
  then show ?thesis using try_identify_divergence_Inl_iff [of self other False e]
    by (simp add: list_all_iff)
next
  case (Inr d)
  from Inr show ?thesis
  proof (cases rule: try_identify_divergence_InrE)
    case (root r r' rest rest')
    then show ?thesis unfolding Inr sum.case list_all_iff by blast
  qed simp
qed

text \<open>
  C24. Replaying a divergence: when the new segment and the old one are coherent, a consumer that
  holds the old segment's blocks and performs the reported roll back and apply ends up with
  exactly the new segment's blocks.
\<close>

theorem divergence_replay:
  assumes "try_identify_divergence new old False = Inr d"
    and "coherent (block_ids new) (block_ids old)"
  shows "replay_ids d (block_ids old) = block_ids new"
  using assms(1)
proof (cases rule: try_identify_divergence_InrE)
  case (root r r' rest rest')
  from coherentD [OF assms(2) root(1) root(2) root(3)] have "r # rest = r' # rest'" .
  with root show ?thesis by (simp add: replay_ids_eq)
qed simp

theorem divergence_replay_witness:
  "replay_ids
     \<lparr>block_ids_to_apply = [BlockIdentifier 2 ''b2'', BlockIdentifier 3 ''b3''],
      block_ids_to_rollback = [BlockIdentifier 2 ''a2'']\<rparr>
     [BlockIdentifier 2 ''a2'', BlockIdentifier 1 ''r'']
   = [BlockIdentifier 3 ''b3'', BlockIdentifier 2 ''b2'', BlockIdentifier 1 ''r'']"
  using divergence_replay
    [of "\<lparr>block_ids = [BlockIdentifier 3 ''b3'', BlockIdentifier 2 ''b2'', BlockIdentifier 1 ''r'']\<rparr>"
        "\<lparr>block_ids = [BlockIdentifier 2 ''a2'', BlockIdentifier 1 ''r'']\<rparr>"]
  by (simp add: try_identify_divergence_def coherent_def bid_eq_def)

text \<open>
  C26. \<^verbatim>\<open>ChainSegment::try_append_block\<close>: when it reports success, exactly one segment (this one, or
  the new fork it returns, in which case this one is untouched) has the block as its tip, and the
  blocks below it are the suffix of the original segment that starts at the block's parent (the
  whole segment when it was empty); when it reports failure nothing changed and no fork is made.
\<close>

theorem try_append_block_correct:
  "case try_append_block s b of
     ((True, fork), s') \<Rightarrow>
       (let updated = (case fork of None \<Rightarrow> s' | Some f \<Rightarrow> f) in
        (fork \<noteq> None \<longrightarrow> s' = s) \<and>
        (\<exists>below. block_ids updated = block_identifier b # below \<and> suffix below (block_ids s) \<and>
           (below = [] \<longrightarrow> block_ids s = []) \<and>
           (\<forall>p rest. below = p # rest \<longrightarrow> bid_eq p (parent_block_identifier b))))
   | ((False, fork), s') \<Rightarrow> fork = None \<and> s' = s"
proof -
  obtain appended fork s' where eq: "try_append_block s b = ((appended, fork), s')"
    by (metis prod_cases3 prod.collapse)
  from eq show ?thesis
  proof (cases rule: try_append_block_cases)
    case extended
    from extended(4) have "\<forall>p rest. block_ids s = p # rest \<longrightarrow> p = parent_block_identifier b"
      by (auto simp: can_append_Inr_iff split: list.splits)
    with extended eq show ?thesis by (auto simp: Let_def)
  next
    case (forked new_fork above root below)
    have "suffix (root # below) (block_ids s)" unfolding forked(5) by (rule suffixI) simp
    with forked(1-3,6,8) eq show ?thesis by (simp add: Let_def)
  next
    case rejected
    with eq show ?thesis by simp
  qed
qed

theorem try_append_block_correct_witness:
  "case try_append_block \<lparr>block_ids = [BlockIdentifier 2 ''a2'', BlockIdentifier 1 ''r'']\<rparr>
          \<lparr>block_identifier = BlockIdentifier 2 ''b2'', parent_block_identifier = BlockIdentifier 1 ''r''\<rparr> of
     ((ok, fork), s') \<Rightarrow> ok \<and> s' = \<lparr>block_ids = [BlockIdentifier 2 ''a2'', BlockIdentifier 1 ''r'']\<rparr> \<and>
       fork = Some \<lparr>block_ids = [BlockIdentifier 2 ''b2'', BlockIdentifier 1 ''r'']\<rparr>"
  using try_append_block_correct
    [of "\<lparr>block_ids = [BlockIdentifier 2 ''a2'', BlockIdentifier 1 ''r'']\<rparr>"
        "\<lparr>block_identifier = BlockIdentifier 2 ''b2'', parent_block_identifier = BlockIdentifier 1 ''r''\<rparr>"]
  by (simp add: try_append_block_def can_append_block_def is_block_id_newer_than_segment_def
      get_block_id_def get_relative_index_def saturating_sub_def bid_eq_def Let_def
      keep_blocks_from_oldest_to_block_identifier_def append_block_identifier_def)

text \<open>
  \<^verbatim>\<open>ChainSegment::prune_confirmed_blocks\<close> splits the segment by height: what it returns and
  what it keeps are disjoint, together they are the segment, every returned block is strictly below
  the cut off and every kept one is not, and both keep the order of the segment.
\<close>

theorem prune_confirmed_blocks_correct:
  "case prune_confirmed_blocks s c of
     (pruned, s') \<Rightarrow>
       (\<forall>b. count_list (block_ids s) b = count_list pruned b + count_list (block_ids s') b) \<and>
       subseq pruned (block_ids s) \<and> subseq (block_ids s') (block_ids s) \<and>
       list_all (\<lambda>b. bid_index b < bid_index c) pruned \<and>
       list_all (\<lambda>b. bid_index c \<le> bid_index b) (block_ids s')"
  by (simp add: prune_confirmed_blocks_eq list_all_iff count_list_partition)

end
