(* ===== verification/Fork_Set.thy ===== *)
theory Fork_Set
  imports Chain_Segment
begin

text \<open>
  The steps that the two block pools of \<^verbatim>\<open>components/observer/src/indexer\<close>
  (\<^verbatim>\<open>fork_scratch_pad.rs\<close>, \<^verbatim>\<open>stacks/blocks_pool.rs\<close>) perform on a \<^verbatim>\<open>BTreeMap\<close> of forks: offer a
  block to the forks in order, retry the orphans on the fork that took it, and prune all the forks
  at a cut off. The choice of a new fork's key differs between the pools and is the parameter
  \<open>next_id\<close>; its contract is the locale \<open>fork_allocator\<close>.
\<close>

type_synonym fork_map = "(nat, chain_segment) btree_map"

section \<open>Operations\<close>

text \<open>The loop over \<^verbatim>\<open>forks.values_mut()\<close>: the first fork that accepts the block stops it.\<close>

fun append_to_first ::
  "block_header \<Rightarrow> fork_map \<Rightarrow> (nat \<times> chain_segment option \<times> fork_map) option" where
  "append_to_first block [] = None"
| "append_to_first block ((i, fork) # rest) =
     (case try_append_block fork block of
        ((True, new_fork), fork') \<Rightarrow> Some (i, new_fork, (i, fork') # rest)
      | ((False, _), fork') \<Rightarrow>
          (case append_to_first block rest of
             None \<Rightarrow> None
           | Some (j, new_fork, rest') \<Rightarrow> Some (j, new_fork, (i, fork') # rest')))"

text \<open>The key of the fork that received the block, and the forks after it.\<close>

definition append_to_forks ::
  "(fork_map \<Rightarrow> nat) \<Rightarrow> block_header \<Rightarrow> fork_map \<Rightarrow> (nat \<times> fork_map) option" where
  "append_to_forks next_id block fs =
     (case append_to_first block fs of
        None \<Rightarrow> None
      | Some (i, None, fs') \<Rightarrow> Some (i, fs')
      | Some (i, Some new_fork, fs') \<Rightarrow>
          let fork_id = next_id fs' in Some (fork_id, bt_insert fork_id new_fork fs'))"

text \<open>
  One \<^verbatim>\<open>for\<close> pass over the orphans. \<open>lookup\<close> reads the block store, \<open>key\<close> is what the hash set
  \<^verbatim>\<open>applied\<close> compares. A fork returned by the attempt is dropped, as in the source.
\<close>

fun orphan_pass ::
  "('k \<Rightarrow> block_header option) \<Rightarrow> ('k \<Rightarrow> 'h) \<Rightarrow> 'k list \<Rightarrow> chain_segment \<Rightarrow> 'k list \<Rightarrow> bool \<Rightarrow>
   chain_segment \<times> 'k list \<times> bool" where
  "orphan_pass lookup key [] seg applied progress = (seg, applied, progress)"
| "orphan_pass lookup key (orphan # rest) seg applied progress =
     (if key orphan \<in> key ` set applied then orphan_pass lookup key rest seg applied progress
      else case lookup orphan of
          None \<Rightarrow> orphan_pass lookup key rest seg applied progress
        | Some block \<Rightarrow>
            (case try_append_block seg block of
               ((orphan_appended, _), seg') \<Rightarrow>
                 orphan_pass lookup key rest seg'
                   (if orphan_appended then applied @ [orphan] else applied)
                   (progress \<or> orphan_appended)))"

lemma orphan_pass_applied:
  assumes "orphan_pass lookup key os seg applied progress = (seg', applied', progress')"
  shows "(\<exists>new. applied' = applied @ new \<and> set new \<subseteq> set os \<and> (progress' \<longleftrightarrow> progress \<or> new \<noteq> []) \<and>
           key ` set new \<inter> key ` set applied = {})"
  using assms
proof (induction os arbitrary: seg applied progress)
  case (Cons x os)
  show ?case
  proof (cases "key x \<in> key ` set applied \<or> lookup x = None")
    case True
    with Cons.prems have "orphan_pass lookup key os seg applied progress = (seg', applied', progress')"
      by (auto split: if_splits)
    from Cons.IH [OF this] show ?thesis by auto
  next
    case False
    then obtain b where b: "lookup x = Some b" by auto
    obtain ok nf s1 where ta: "try_append_block seg b = ((ok, nf), s1)" by (metis prod.collapse)
    from Cons.prems False b ta have *: "orphan_pass lookup key os s1
        (if ok then applied @ [x] else applied) (progress \<or> ok) = (seg', applied', progress')"
      by simp
    from Cons.IH [OF *] obtain new where
      new: "applied' = (if ok then applied @ [x] else applied) @ new" "set new \<subseteq> set os"
        "progress' \<longleftrightarrow> (progress \<or> ok) \<or> new \<noteq> []"
        "key ` set new \<inter> key ` set (if ok then applied @ [x] else applied) = {}"
      by blast
    show ?thesis
    proof (cases ok)
      case True
      with new False show ?thesis by (intro exI [of _ "x # new"]) auto
    next
      case ok: False
      with new show ?thesis by (intro exI [of _ new]) auto
    qed
  qed
qed simp

lemma orphan_pass_decreases:
  assumes "orphan_pass lookup key os seg applied False = (seg', applied', True)"
  shows "card (key ` set os - key ` set applied') < card (key ` set os - key ` set applied)"
proof -
  from orphan_pass_applied [OF assms] obtain new where
    new: "applied' = applied @ new" "set new \<subseteq> set os" "new \<noteq> []"
      "key ` set new \<inter> key ` set applied = {}"
    by auto
  from new(3) obtain x where x: "x \<in> set new" by (cases new) auto
  have "key x \<in> key ` set os - key ` set applied" "key x \<notin> key ` set os - key ` set applied'"
    using x new by auto
  moreover have "key ` set os - key ` set applied' \<subseteq> key ` set os - key ` set applied"
    using new(1) by auto
  ultimately show ?thesis by (intro psubset_card_mono) auto
qed

text \<open>
  The \<^verbatim>\<open>while at_least_one_orphan_appended\<close> loop: it runs another pass as long as the last one
  appended something. It terminates because every such pass adds an orphan to \<open>applied\<close>.
\<close>

function orphan_loop ::
  "('k \<Rightarrow> block_header option) \<Rightarrow> ('k \<Rightarrow> 'h) \<Rightarrow> 'k list \<Rightarrow> chain_segment \<Rightarrow> 'k list \<Rightarrow>
   chain_segment \<times> 'k list" where
  "orphan_loop lookup key os seg applied =
     (case orphan_pass lookup key os seg applied False of
        (seg', applied', progress) \<Rightarrow>
          if progress then orphan_loop lookup key os seg' applied' else (seg', applied'))"
  by pat_completeness auto
termination
  by (relation "measure (\<lambda>(lookup, key, os, seg, applied). card (key ` set os - key ` set applied))")
    (auto dest: orphan_pass_decreases [OF sym])

declare orphan_loop.simps [simp del]

text \<open>The former orphans, retried on the fork with key \<open>fork_id\<close>: the forks and the orphans applied.\<close>

definition process_orphans ::
  "('k \<Rightarrow> block_header option) \<Rightarrow> ('k \<Rightarrow> 'h) \<Rightarrow> 'k list \<Rightarrow> nat \<Rightarrow> fork_map \<Rightarrow> fork_map \<times> 'k list" where
  "process_orphans lookup key os fork_id fs =
     (case bt_get fs fork_id of
        None \<Rightarrow> (fs, [])
      | Some fork \<Rightarrow>
          (case orphan_loop lookup key os fork [] of
             (fork', applied) \<Rightarrow> (bt_insert fork_id fork' fs, applied)))"

text \<open>Prune every fork: the forks left, the blocks pruned, the keys of the forks left empty.\<close>

fun prune_forks ::
  "block_identifier \<Rightarrow> fork_map \<Rightarrow> fork_map \<times> block_identifier list \<times> nat list" where
  "prune_forks cut_off [] = ([], [], [])"
| "prune_forks cut_off ((i, fork) # rest) =
     (case prune_confirmed_blocks fork cut_off of
        (pruned, fork') \<Rightarrow>
          case prune_forks cut_off rest of
            (rest', pruned', emptied) \<Rightarrow>
              ((i, fork') # rest', pruned @ pruned',
               if block_ids fork' = [] then i # emptied else emptied))"

text \<open>Prune the orphans strictly below the cut off: what is left, what is pruned.\<close>

definition prune_orphans ::
  "block_identifier \<Rightarrow> block_identifier btree_set \<Rightarrow> block_identifier btree_set \<times> block_identifier list" where
  "prune_orphans cut_off os =
     (let dropped = filter (\<lambda>orphan. bid_index orphan < bid_index cut_off) os
      in (fold bs_remove dropped os, dropped))"

text \<open>
  The \<^verbatim>\<open>while let Some(ancestor)\<close> loop that follows parent links through a block store. It never
  returns when the links form a cycle, which is the value \<open>None\<close>.
\<close>

partial_function (option) ancestor_loop ::
  "(block_identifier \<Rightarrow> block_header option) \<Rightarrow> block_identifier \<Rightarrow> block_identifier list \<Rightarrow>
   block_identifier list option" where
  "ancestor_loop lookup ancestor_identifier segment =
     (case lookup ancestor_identifier of
        None \<Rightarrow> Some segment
      | Some ancestor \<Rightarrow>
          ancestor_loop lookup (parent_block_identifier ancestor)
            (segment @ [block_identifier ancestor]))"

declare ancestor_loop.simps [code]

section \<open>Allocating the key of a new fork\<close>

text \<open>
  A pool may not reuse the key of a live fork: inserting the new fork would discard the old one.
\<close>

locale fork_allocator =
  fixes next_id :: "fork_map \<Rightarrow> nat"
  assumes fresh: "bt_wf fs \<Longrightarrow> bt_get fs (next_id fs) = None"
begin

lemma insert_keeps_forks:
  assumes "bt_wf fs" and "bt_get fs i = Some f"
  shows "bt_get (bt_insert (next_id fs) new_fork fs) i = Some f"
  using assms fresh [OF assms(1)] by (auto simp: bt_get_insert)

lemma insert_adds_one:
  assumes "bt_wf fs"
  shows "set (bt_insert (next_id fs) new_fork fs) = insert (next_id fs, new_fork) (set fs)"
  using bt.entries_insert_fresh [OF assms fresh [OF assms]] .

end

section \<open>What the steps do to the forks\<close>

lemma bt_wf_replace: "bt_wf (pre @ (i, v) # post) \<longleftrightarrow> bt_wf (pre @ (i, w) # post)"
  by (simp add: bt_wf_def)

lemma append_to_first_SomeE:
  assumes "append_to_first b fs = Some (i, nf, fs')"
  obtains pre f post f' where "fs = pre @ (i, f) # post" and "fs' = pre @ (i, f') # post"
    and "try_append_block f b = ((True, nf), f')"
  using assms
proof (induction fs arbitrary: fs' thesis)
  case (Cons p fs)
  obtain j f where p: "p = (j, f)" by (cases p)
  obtain ok nf1 f1 where ta: "try_append_block f b = ((ok, nf1), f1)" by (metis prod.collapse)
  show ?case
  proof (cases ok)
    case True
    with Cons.prems(2) p ta show ?thesis by (intro Cons.prems(1) [of "[]" f fs f1]) auto
  next
    case False
    with ta have "f1 = f" by (auto elim: try_append_block_cases)
    with Cons.prems(2) p ta False obtain rest where
      "append_to_first b fs = Some (i, nf, rest)" "fs' = (j, f) # rest"
      by (auto split: option.splits)
    with Cons.IH [of rest] obtain pre g post g' where
      "fs = pre @ (i, g) # post" "rest = pre @ (i, g') # post" "try_append_block g b = ((True, nf), g')"
      by blast
    with p \<open>fs' = _\<close> show ?thesis by (intro Cons.prems(1) [of "(j, f) # pre" g post g']) auto
  qed
qed simp

lemma append_to_first_None_iff:
  "append_to_first b fs = None \<longleftrightarrow> (\<forall>(i, f) \<in> set fs. \<not> fst (fst (try_append_block f b)))"
  by (induction fs) (auto split: prod.splits bool.splits option.splits)

text \<open>A fork that grew by one block: the block on top of a suffix of a former fork.\<close>

definition grown :: "block_header \<Rightarrow> chain_segment \<Rightarrow> chain_segment \<Rightarrow> bool" where
  "grown b f g \<longleftrightarrow> (\<exists>below. block_ids g = block_identifier b # below \<and> suffix below (block_ids f) \<and>
     (below = [] \<longrightarrow> block_ids f = []) \<and>
     (\<forall>p rest. below = p # rest \<longrightarrow> bid_eq p (parent_block_identifier b)))"

lemma try_append_grown:
  assumes "try_append_block f b = ((True, nf), f')"
  shows "grown b f (case nf of None \<Rightarrow> f' | Some g \<Rightarrow> g)"
  using assms
proof (cases rule: try_append_block_cases)
  case extended
  from extended(4) have "\<forall>p rest. block_ids f = p # rest \<longrightarrow> p = parent_block_identifier b"
    by (auto simp: can_append_Inr_iff split: list.splits)
  with extended show ?thesis by (auto simp: grown_def)
next
  case (forked new_fork above root below)
  have "suffix (root # below) (block_ids f)" unfolding forked(5) by (rule suffixI) simp
  with forked(2,6,8) show ?thesis by (simp add: grown_def)
qed simp

lemma try_append_forked_unchanged:
  "try_append_block f b = ((ok, Some nf), f') \<Longrightarrow> f' = f"
  by (auto elim: try_append_block_cases)

lemma append_to_forks_SomeE:
  assumes "append_to_forks next_id b fs = Some (k, fs')" and wf: "bt_wf fs"
  obtains i f g where "bt_get fs i = Some f" and "grown b f g" and "bt_get fs' k = Some g"
    and "bt_wf fs'"
    and "\<forall>j x. bt_get fs' j = Some x \<longrightarrow> j = k \<and> x = g \<or> bt_get fs j = Some x"
    and "fst ` set fs \<subseteq> fst ` set fs'" and "block_ids f = [] \<longrightarrow> k = i"
proof -
  from assms(1) obtain i nf fs1 where a: "append_to_first b fs = Some (i, nf, fs1)"
    by (auto simp: append_to_forks_def split: option.splits)
  then obtain pre f post f' where fs: "fs = pre @ (i, f) # post" "fs1 = pre @ (i, f') # post"
    and ta: "try_append_block f b = ((True, nf), f')"
    by (rule append_to_first_SomeE)
  have i: "bt_get fs i = Some f" using bt_get_in_set [OF wf] fs(1) by auto
  have wf1: "bt_wf fs1" using wf unfolding fs by (subst bt_wf_replace)
  have i1: "bt_get fs1 i = Some f'" using bt_get_in_set [OF wf1] fs(2) by auto
  have j1: "bt_get fs1 j = (if j = i then Some f' else bt_get fs j)" for j
    using i1 unfolding fs by (auto simp: map_add_def split: option.splits)
  show thesis
  proof (cases nf)
    case None
    with assms(1) a have "k = i" "fs' = fs1" by (auto simp: append_to_forks_def)
    with None try_append_grown [OF ta] i i1 j1 wf1 fs show thesis
      by (intro that [of i f f']) (auto split: if_splits)
  next
    case (Some g)
    with assms(1) a have k: "k = next_id fs1" "fs' = bt_insert k g fs1"
      by (auto simp: append_to_forks_def Let_def)
    have ne: "block_ids f \<noteq> []" using ta Some by (auto simp: try_append_block_def)
    have "f' = f" using try_append_forked_unchanged ta Some by blast
    with j1 i have "bt_get fs1 j = bt_get fs j" for j by simp
    with k Some try_append_grown [OF ta] i wf1 fs ne show thesis
      by (intro that [of i f g]) (auto simp: bt_get_insert bt_wf_insert split: if_splits)
  qed
qed

lemma append_to_forks_None_iff:
  "append_to_forks next_id b fs = None \<longleftrightarrow> append_to_first b fs = None"
  by (auto simp: append_to_forks_def Let_def split: option.splits)

text \<open>Induction over the attempts of the orphan loop.\<close>

lemma orphan_pass_invariant:
  assumes step: "\<And>x b s ap ok nf s'. P s ap \<Longrightarrow> x \<in> set os \<Longrightarrow> key x \<notin> key ` set ap \<Longrightarrow>
      lookup x = Some b \<Longrightarrow> try_append_block s b = ((ok, nf), s') \<Longrightarrow>
      P s' (if ok then ap @ [x] else ap)"
    and "P seg applied"
    and "orphan_pass lookup key os' seg applied progress = (seg', applied', progress')"
    and "set os' \<subseteq> set os"
  shows "P seg' applied'"
  using assms(2-)
proof (induction os' arbitrary: seg applied progress)
  case (Cons x os')
  show ?case
  proof (cases "key x \<in> key ` set applied \<or> lookup x = None")
    case True
    with Cons.prems have "orphan_pass lookup key os' seg applied progress = (seg', applied', progress')"
      by (auto split: if_splits)
    with Cons.IH Cons.prems(1,3) show ?thesis by auto
  next
    case False
    then obtain b where b: "lookup x = Some b" by auto
    obtain ok nf s1 where ta: "try_append_block seg b = ((ok, nf), s1)" by (metis prod.collapse)
    from Cons.prems False b ta have *: "orphan_pass lookup key os' s1
        (if ok then applied @ [x] else applied) (progress \<or> ok) = (seg', applied', progress')"
      by simp
    from step [OF Cons.prems(1) _ _ b ta] False Cons.prems(3)
    have "P s1 (if ok then applied @ [x] else applied)" by auto
    from Cons.IH [OF this *] Cons.prems(3) show ?thesis by simp
  qed
qed simp

lemma orphan_loop_invariant:
  assumes "\<And>x b s ap ok nf s'. P s ap \<Longrightarrow> x \<in> set os \<Longrightarrow> key x \<notin> key ` set ap \<Longrightarrow>
      lookup x = Some b \<Longrightarrow> try_append_block s b = ((ok, nf), s') \<Longrightarrow>
      P s' (if ok then ap @ [x] else ap)"
    and "P seg applied"
    and "orphan_loop lookup key os seg applied = (seg', applied')"
  shows "P seg' applied'"
  using assms
proof (induction lookup key os seg applied rule: orphan_loop.induct)
  case (1 lookup key os seg applied)
  obtain s1 ap1 progress where pass: "orphan_pass lookup key os seg applied False = (s1, ap1, progress)"
    by (metis prod_cases3)
  have inv: "P s1 ap1"
    using orphan_pass_invariant [where P = P, OF _ "1.prems"(2) pass subset_refl] "1.prems"(1) by blast
  show ?case
  proof (cases progress)
    case True
    with "1.prems"(3) pass have "orphan_loop lookup key os s1 ap1 = (seg', applied')"
      by (simp add: orphan_loop.simps [of lookup key os seg applied])
    from "1.IH" [OF pass [symmetric] refl True "1.prems"(1) inv this] show ?thesis .
  next
    case False
    with "1.prems"(3) pass inv show ?thesis
      by (simp add: orphan_loop.simps [of lookup key os seg applied])
  qed
qed

text \<open>Pruning in closed form.\<close>

definition cut :: "block_identifier \<Rightarrow> chain_segment \<Rightarrow> chain_segment" where
  "cut c f = f\<lparr>block_ids := filter (\<lambda>b. bid_index c \<le> bid_index b) (block_ids f)\<rparr>"

lemma block_ids_cut [simp]: "block_ids (cut c f) = filter (\<lambda>b. bid_index c \<le> bid_index b) (block_ids f)"
  by (simp add: cut_def)

lemma prune_forks_eq:
  "prune_forks c fs =
     (map (\<lambda>(i, f). (i, cut c f)) fs,
      concat (map (\<lambda>(i, f). filter (\<lambda>b. bid_index b < bid_index c) (block_ids f)) fs),
      map fst (filter (\<lambda>(i, f). block_ids (cut c f) = []) fs))"
  by (induction fs) (auto simp: prune_confirmed_blocks_eq cut_def)

lemma pruned_forks_get:
  assumes "bt_wf fs" and "prune_forks c fs = (fs1, pruned, emptied)"
  shows "bt_get (fold bt_remove emptied fs1) i =
     (case bt_get fs i of
        None \<Rightarrow> None
      | Some f \<Rightarrow> if block_ids (cut c f) = [] then None else Some (cut c f))"
proof -
  have fs1: "fs1 = map (\<lambda>(i, f). (i, cut c f)) fs"
    and e: "emptied = map fst (filter (\<lambda>(i, f). block_ids (cut c f) = []) fs)"
    using assms(2) by (auto simp: prune_forks_eq)
  have "i \<in> set emptied \<longleftrightarrow> (\<exists>f. bt_get fs i = Some f \<and> block_ids (cut c f) = [])"
    unfolding e bt_get_in_set [OF assms(1)] by force
  then show ?thesis
    by (auto simp: bt_get_fold_remove fs1 map_of_map split: option.splits)
qed

lemma pruned_blocks_below:
  "prune_forks c fs = (fs1, pruned, emptied) \<Longrightarrow> b \<in> set pruned \<Longrightarrow> bid_index b < bid_index c"
  by (auto simp: prune_forks_eq)

lemma prune_orphans_set:
  "prune_orphans c os = (os', dropped) \<Longrightarrow>
   set os' = {x \<in> set os. bid_index c \<le> bid_index x} \<and> (\<forall>x \<in> set dropped. bid_index x < bid_index c)"
  by (auto simp: prune_orphans_def Let_def set_fold_bs_remove)

end
