(* ===== verification/Fork_Chains.thy ===== *)
theory Fork_Chains
  imports Fork_Set
begin

text \<open>
  The shape of a set of competing forks: every fork is a chain of parent links through the block
  store, and two forks agree below any block they share. The predicates are stated over a lookup
  function, so both block pools can use them, and over the set \<open>H\<close> of headers the outside world may
  deliver, of which the theory asks what a blockchain guarantees: a block is above its parent, and a
  hash names one block.
\<close>

section \<open>The headers of a blockchain\<close>

definition wf_headers :: "block_header list \<Rightarrow> bool" where
  "wf_headers H =
     (list_all (\<lambda>h. bid_index (parent_block_identifier h) < bid_index (block_identifier h)) H \<and>
      list_all (\<lambda>h. list_all (\<lambda>h'.
         (bid_eq (block_identifier h) (block_identifier h') \<longrightarrow> h = h') \<and>
         (bid_eq (parent_block_identifier h) (block_identifier h') \<longrightarrow>
            parent_block_identifier h = block_identifier h')) H) H)"

lemma wf_headersD:
  assumes "wf_headers H" and "h \<in> set H"
  shows wf_headers_height: "bid_index (parent_block_identifier h) < bid_index (block_identifier h)"
    and wf_headers_unique: "h' \<in> set H \<Longrightarrow> bid_eq (block_identifier h) (block_identifier h') \<Longrightarrow> h = h'"
    and wf_headers_parent: "h' \<in> set H \<Longrightarrow> bid_eq (parent_block_identifier h) (block_identifier h') \<Longrightarrow>
          parent_block_identifier h = block_identifier h'"
  using assms by (auto simp: wf_headers_def list_all_iff)

section \<open>Chains of parent links\<close>

fun linked :: "(block_identifier \<Rightarrow> block_header option) \<Rightarrow> block_identifier list \<Rightarrow> bool" where
  "linked L [] = True"
| "linked L [b] = (L b \<noteq> None)"
| "linked L (b # p # rest) =
     ((case L b of None \<Rightarrow> False | Some h \<Rightarrow> parent_block_identifier h = p) \<and> linked L (p # rest))"

definition store_ok :: "block_header list \<Rightarrow> (block_identifier \<Rightarrow> block_header option) \<Rightarrow> bool" where
  "store_ok H L \<longleftrightarrow> (\<forall>b h. L b = Some h \<longrightarrow> h \<in> set H \<and> block_identifier h = b)"

definition chains_ok ::
  "block_header list \<Rightarrow> (block_identifier \<Rightarrow> block_header option) \<Rightarrow> block_identifier list set \<Rightarrow> bool" where
  "chains_ok H L C \<longleftrightarrow> store_ok H L \<and> (\<forall>c \<in> C. linked L c) \<and> (\<forall>c \<in> C. \<forall>d \<in> C. coherent c d)"

definition chains :: "fork_map \<Rightarrow> block_identifier list set" where
  "chains fs = block_ids ` snd ` set fs"

text \<open>Two forks are connected when they share a block; an empty fork is connected to every fork.\<close>

definition connected :: "block_identifier list \<Rightarrow> block_identifier list \<Rightarrow> bool" where
  "connected c d = (c = [] \<or> d = [] \<or> list_ex (\<lambda>x. list_ex (bid_eq x) d) c)"

definition forks_connected :: "fork_map \<Rightarrow> bool" where
  "forks_connected fs =
     list_all (\<lambda>f. list_all (\<lambda>g. connected (block_ids (snd f)) (block_ids (snd g))) fs) fs"

lemma linked_in_store: "linked L c \<Longrightarrow> b \<in> set c \<Longrightarrow> L b \<noteq> None"
  by (induction L c rule: linked.induct) (auto split: option.splits)

lemma linked_suffix: "linked L (a @ c) \<Longrightarrow> linked L c"
proof (induction a)
  case (Cons x a)
  then show ?case by (cases "a @ c") auto
qed simp

lemma linked_prefix: "linked L (a @ c) \<Longrightarrow> linked L a"
proof (induction a)
  case (Cons x a)
  then show ?case by (cases a; cases c) (auto split: option.splits)
qed simp

lemma linked_cong: "(\<And>b. b \<in> set c \<Longrightarrow> L' b = L b) \<Longrightarrow> linked L' c = linked L c"
  by (induction L c rule: linked.induct) auto

lemma linked_Cons:
  "linked L (b # c) \<longleftrightarrow> (\<exists>h. L b = Some h \<and> (\<forall>p rest. c = p # rest \<longrightarrow> parent_block_identifier h = p)) \<and>
     linked L c"
  by (cases c) (auto split: option.splits)

lemma linked_decreasing:
  assumes "wf_headers H" "store_ok H L" "linked L c"
  shows "sorted_wrt (\<lambda>x y. bid_index y < bid_index x) c"
  using assms(3)
proof (induction c)
  case (Cons b c)
  from Cons.prems obtain h where h: "L b = Some h" "\<forall>p rest. c = p # rest \<longrightarrow> parent_block_identifier h = p"
    and c: "linked L c"
    by (auto simp: linked_Cons)
  from assms(2) h(1) have "h \<in> set H" "block_identifier h = b" by (auto simp: store_ok_def)
  with wf_headers_height [OF assms(1)] h(2) have "\<forall>p rest. c = p # rest \<longrightarrow> bid_index p < bid_index b"
    by auto
  with Cons.IH [OF c] show ?case by (cases c) force+
qed simp

text \<open>Two chains in the store that are equal up to hashes are equal.\<close>

lemma store_ok_bid_eq:
  assumes "wf_headers H" "store_ok H L" "L x \<noteq> None" "L y \<noteq> None" "bid_eq x y"
  shows "x = y"
proof -
  from assms obtain h h' where "L x = Some h" "L y = Some h'" by auto
  with assms(2) have "h \<in> set H" "block_identifier h = x" "h' \<in> set H" "block_identifier h' = y"
    by (auto simp: store_ok_def)
  with wf_headers_unique [OF assms(1)] assms(5) show ?thesis by metis
qed

lemma linked_list_all2_eq:
  assumes "wf_headers H" "store_ok H L" "linked L c" "linked L d" "list_all2 bid_eq c d"
  shows "c = d"
  using assms(5,3,4)
proof (induction rule: list_all2_induct)
  case (Cons x xs y ys)
  then have "L x \<noteq> None" "L y \<noteq> None" "linked L xs" "linked L ys" by (auto simp: linked_Cons)
  with Cons store_ok_bid_eq [OF assms(1,2)] show ?case by auto
qed simp

section \<open>Growing a fork\<close>

lemma coherent_suffix: "coherent (a @ c) d \<Longrightarrow> coherent c d"
  unfolding coherent_iff by (metis append.assoc)

lemma coherent_Cons_fresh:
  assumes "coherent c d" and "\<forall>y \<in> set d. \<not> bid_eq b y"
  shows "coherent (b # c) d"
  unfolding coherent_iff
proof (intro allI impI)
  fix a r s a' r' s'
  assume *: "b # c = a @ r # s" "d = a' @ r' # s'" "bid_eq r r'"
  with assms(2) have "a \<noteq> []" by (cases a) auto
  with *(1) obtain a1 where "c = a1 @ r # s" by (cases a) auto
  from coherentD [OF assms(1) this *(2,3)] show "r # s = r' # s'" .
qed

lemma coherent_Cons_self:
  assumes "coherent c c" and "\<forall>y \<in> set c. \<not> bid_eq b y"
  shows "coherent (b # c) (b # c)"
  unfolding coherent_iff
proof (intro allI impI)
  fix a r s a' r' s'
  assume *: "b # c = a @ r # s" "b # c = a' @ r' # s'" "bid_eq r r'"
  have Cons_c: "coherent (b # c) c" using assms by (rule coherent_Cons_fresh)
  show "r # s = r' # s'"
  proof (cases a')
    case Nil
    show ?thesis
    proof (cases a)
      case (Cons x a1)
      with * Nil assms(2) have "r \<in> set c" "bid_eq b r" by (auto simp: bid_eq_sym)
      with assms(2) show ?thesis by blast
    qed (use * Nil in simp)
  next
    case (Cons x a1)
    with *(2) have "c = a1 @ r' # s'" by simp
    from coherentD [OF Cons_c *(1) this *(3)] show ?thesis .
  qed
qed

text \<open>A block that is in the store and in no chain has a hash no chain has.\<close>

lemma chains_ok_fresh:
  assumes "wf_headers H" "chains_ok H L C" "c \<in> C" "L b \<noteq> None" "b \<notin> set c" "y \<in> set c"
  shows "\<not> bid_eq b y"
proof
  assume "bid_eq b y"
  moreover have "L y \<noteq> None" using assms(2,3,6) linked_in_store by (fastforce simp: chains_ok_def)
  ultimately have "b = y" using store_ok_bid_eq [OF assms(1)] assms(2,4) by (auto simp: chains_ok_def)
  with assms(5,6) show False by simp
qed

lemma chains_ok_grow:
  assumes wf: "wf_headers H" and ok: "chains_ok H L C" and f: "block_ids f \<in> C"
    and h: "L (block_identifier h) = Some h" and fresh: "\<forall>c \<in> C. block_identifier h \<notin> set c"
    and g: "grown h f g"
  shows "chains_ok H L (insert (block_ids g) C)"
proof -
  let ?b = "block_identifier h"
  from g obtain below a where bg: "block_ids g = ?b # below" and bf: "block_ids f = a @ below"
    and par: "\<forall>p rest. below = p # rest \<longrightarrow> bid_eq p (parent_block_identifier h)"
    by (auto simp: grown_def suffix_def)
  have so: "store_ok H L" and coh: "\<And>c d. c \<in> C \<Longrightarrow> d \<in> C \<Longrightarrow> coherent c d"
    and lk: "\<And>c. c \<in> C \<Longrightarrow> linked L c"
    using ok by (auto simp: chains_ok_def)
  have nf: "\<forall>y \<in> set c. \<not> bid_eq ?b y" if "c \<in> C" for c
    using chains_ok_fresh [OF wf ok that] h fresh that by auto
  have lb: "linked L below" using lk [OF f] bf linked_suffix by metis
  have "parent_block_identifier h = p" if "below = p # rest" for p rest
  proof -
    from that lb obtain hp where "L p = Some hp" by (auto simp: linked_Cons)
    with so have "hp \<in> set H" "block_identifier hp = p" "h \<in> set H" using h by (auto simp: store_ok_def)
    with par that wf_headers_parent [OF wf, of h hp] show ?thesis by (simp add: bid_eq_sym)
  qed
  with lb h have "linked L (block_ids g)" by (auto simp: bg linked_Cons)
  moreover have cohb: "coherent below c" if "c \<in> C" for c
    using coh [OF f that] bf coherent_suffix by metis
  have bgc: "coherent (block_ids g) c" if "c \<in> C" for c
    unfolding bg by (rule coherent_Cons_fresh [OF cohb [OF that] nf [OF that]])
  moreover have "coherent c (block_ids g)" if "c \<in> C" for c
    using bgc [OF that] coherent_sym by blast
  moreover have "coherent (block_ids g) (block_ids g)"
  proof -
    have "coherent below below"
      using cohb [OF f] unfolding bf using coherent_sym coherent_suffix by blast
    moreover have "\<forall>y \<in> set below. \<not> bid_eq ?b y" using nf [OF f] bf by auto
    ultimately show ?thesis unfolding bg by (rule coherent_Cons_self)
  qed
  ultimately show ?thesis using ok by (auto simp: chains_ok_def)
qed

lemma grown_nonempty: "grown h f g \<Longrightarrow> block_ids g \<noteq> []"
  by (auto simp: grown_def)

lemma grown_members: "grown h f g \<Longrightarrow> set (block_ids g) \<subseteq> insert (block_identifier h) (set (block_ids f))"
  by (auto simp: grown_def suffix_def)

section \<open>Connected forks\<close>

lemma connected_refl: "connected c c"
  by (cases c) (auto simp: connected_def)

lemma connectedI: "x \<in> set c \<Longrightarrow> y \<in> set d \<Longrightarrow> bid_eq x y \<Longrightarrow> connected c d"
  by (auto simp: connected_def list_ex_iff)

text \<open>A fork grown out of a fork connected to \<open>d\<close> is connected to \<open>d\<close>.\<close>

lemma connected_grown:
  assumes "coherent (block_ids f) d" "connected (block_ids f) d" "grown h f g" "block_ids f \<noteq> []"
  shows "connected (block_ids g) d"
proof (cases "d = []")
  case False
  from assms(3,4) obtain below a where bg: "block_ids g = block_identifier h # below"
    and bf: "block_ids f = a @ below" and ne: "below \<noteq> []"
    by (auto simp: grown_def suffix_def)
  from assms(2,4) False obtain r r' where r: "r \<in> set (block_ids f)" "r' \<in> set d" "bid_eq r r'"
    by (auto simp: connected_def list_ex_iff)
  show ?thesis
  proof (cases "r \<in> set below")
    case True
    with r bg show ?thesis by (intro connectedI [of r]) auto
  next
    case False
    with r(1) bf obtain a1 a2 where "a = a1 @ r # a2" by (auto dest: split_list)
    with bf have f: "block_ids f = a1 @ r # (a2 @ below)" by simp
    from r(2) obtain d1 d2 where d: "d = d1 @ r' # d2" by (auto dest: split_list)
    from coherentD [OF assms(1) f d r(3)] have "hd below \<in> set d" using ne d by (cases below) auto
    with ne bg show ?thesis by (intro connectedI [of "hd below" _ "hd below"]) auto
  qed
qed (simp add: connected_def)

section \<open>Cutting chains at a height\<close>

lemma filter_prefix_decreasing:
  assumes "sorted_wrt (\<lambda>x y. bid_index y < bid_index x) c"
  shows "\<exists>rest. c = filter (\<lambda>b. k \<le> bid_index b) c @ rest"
  using assms
proof (induction c)
  case (Cons b c)
  show ?case
  proof (cases "k \<le> bid_index b")
    case True
    with Cons show ?thesis by auto
  next
    case False
    with Cons.prems have "filter (\<lambda>b. k \<le> bid_index b) c = []"
      by (auto simp: filter_empty_conv)
    with False show ?thesis by simp
  qed
qed simp

lemma coherent_filter:
  assumes "coherent c d" and "\<exists>x. c = filter P c @ x" and "\<exists>y. d = filter P d @ y"
  shows "coherent (filter P c) (filter P d)"
proof -
  from assms(2,3) obtain x y where x: "c = filter P c @ x" and y: "d = filter P d @ y" by blast
  have fx: "filter P x = []" using arg_cong [OF x, of "filter P"] by simp
  have fy: "filter P y = []" using arg_cong [OF y, of "filter P"] by simp
  show ?thesis
    unfolding coherent_iff
  proof (intro allI impI)
    fix a r s a' r' s'
    assume *: "filter P c = a @ r # s" "filter P d = a' @ r' # s'" "bid_eq r r'"
    have "c = a @ r # (s @ x)" "d = a' @ r' # (s' @ y)" using x y *(1,2) by auto
    from coherentD [OF assms(1) this *(3)] have eq: "r # s @ x = r' # s' @ y" .
    have "\<forall>z \<in> set (a @ r # s). P z" "\<forall>z \<in> set (a' @ r' # s'). P z"
      unfolding *(1,2) [symmetric] by simp_all
    then have "filter P (r # s) = r # s" "filter P (r' # s') = r' # s'"
      by (simp_all add: filter_id_conv)
    with arg_cong [OF eq, of "filter P"] fx fy show "r # s = r' # s'"
      by (simp split: if_splits)
  qed
qed

lemma linked_cut:
  assumes "wf_headers H" "chains_ok H L C" "c \<in> C"
    and agree: "\<And>b. k \<le> bid_index b \<Longrightarrow> L' b = L b"
  shows "linked L' (filter (\<lambda>b. k \<le> bid_index b) c)"
    and "\<exists>rest. c = filter (\<lambda>b. k \<le> bid_index b) c @ rest"
proof -
  have lc: "linked L c" "store_ok H L" using assms(2,3) by (auto simp: chains_ok_def)
  show ex: "\<exists>rest. c = filter (\<lambda>b. k \<le> bid_index b) c @ rest"
    by (rule filter_prefix_decreasing [OF linked_decreasing [OF assms(1) lc(2,1)]])
  then obtain rest where "c = filter (\<lambda>b. k \<le> bid_index b) c @ rest" by blast
  with lc(1) have "linked L (filter (\<lambda>b. k \<le> bid_index b) c)" by (metis linked_prefix)
  moreover have "linked L' (filter (\<lambda>b. k \<le> bid_index b) c) =
      linked L (filter (\<lambda>b. k \<le> bid_index b) c)"
    by (rule linked_cong) (auto intro: agree)
  ultimately show "linked L' (filter (\<lambda>b. k \<le> bid_index b) c)" by simp
qed

lemma chains_ok_cut:
  assumes wf: "wf_headers H" and ok: "chains_ok H L C"
    and agree: "\<And>b. k \<le> bid_index b \<Longrightarrow> L' b = L b" and less: "\<And>b h. L' b = Some h \<Longrightarrow> L b = Some h"
    and C': "C' \<subseteq> filter (\<lambda>b. k \<le> bid_index b) ` C"
  shows "chains_ok H L' C'"
proof -
  have "store_ok H L'" using ok less by (fastforce simp: chains_ok_def store_ok_def)
  moreover have "linked L' c'" if "c' \<in> C'" for c'
    using that C' linked_cut(1) [OF wf ok _ agree] by auto
  moreover have "coherent c' d'" if cd: "c' \<in> C'" "d' \<in> C'" for c' d'
  proof -
    from cd C' obtain c d where *: "c \<in> C" "d \<in> C" "c' = filter (\<lambda>b. k \<le> bid_index b) c"
      "d' = filter (\<lambda>b. k \<le> bid_index b) d"
      by blast
    have "coherent c d" using ok * by (auto simp: chains_ok_def)
    with coherent_filter linked_cut(2) [OF wf ok _ agree] * show ?thesis by metis
  qed
  ultimately show ?thesis by (auto simp: chains_ok_def)
qed

section \<open>Following parent links\<close>

lemma ancestor_loop_total:
  assumes wf: "wf_headers H" and so: "store_ok H L"
  shows "\<exists>as. ancestor_loop L b acc = Some (acc @ as) \<and>
     sorted_wrt (\<lambda>x y. bid_index y < bid_index x) as \<and> (\<forall>x \<in> set as. L x \<noteq> None) \<and>
     (\<forall>x \<in> set as. bid_index x \<le> bid_index b) \<and> (L b \<noteq> None \<longrightarrow> as \<noteq> [] \<and> hd as = b)"
proof (induction "unat (bid_index b)" arbitrary: b acc rule: less_induct)
  case less
  show ?case
  proof (cases "L b")
    case None
    then show ?thesis by (intro exI [of _ "[]"]) (simp add: ancestor_loop.simps)
  next
    case (Some h)
    with so have h: "h \<in> set H" "block_identifier h = b" by (auto simp: store_ok_def)
    let ?p = "parent_block_identifier h"
    have lt: "bid_index ?p < bid_index b" using wf_headers_height [OF wf h(1)] h(2) by simp
    then have "unat (bid_index ?p) < unat (bid_index b)" by (simp add: word_less_nat_alt)
    from less [OF this, of "acc @ [b]"] obtain as where
      as: "ancestor_loop L ?p (acc @ [b]) = Some (acc @ [b] @ as)"
        "sorted_wrt (\<lambda>x y. bid_index y < bid_index x) as" "\<forall>x \<in> set as. L x \<noteq> None"
        "\<forall>x \<in> set as. bid_index x \<le> bid_index ?p"
      by auto
    have "\<forall>x \<in> set as. bid_index x < bid_index b" using as(4) lt by auto
    with as Some h show ?thesis
      by (intro exI [of _ "b # as"]) (auto simp: ancestor_loop.simps [of L b])
  qed
qed

end
