(* ===== verification/Fork_Invariants.thy ===== *)
theory Fork_Invariants
  imports Fork_Chains
begin

text \<open>
  The invariant of a block pool, for both pools of \<^verbatim>\<open>components/observer/src/indexer\<close>: what the
  forks, the orphans and the block store of a pool have in common, that placing a block and pruning
  at a confirmed block keep it, and what a consumer of the emitted blocks holds. The block store
  enters as a lookup function, so that the tree-based store of the Bitcoin pool and the hash-based
  store of the Stacks pool are both instances.
\<close>

section \<open>A consumer of chain updates\<close>

text \<open>
  The client the events are for: it holds a chain of block identifiers, tip first, takes a block
  off only when it is the tip, and puts one on only when its parent is the tip. \<open>None\<close> is an update
  it cannot follow.
\<close>

fun pop_all :: "block_header list \<Rightarrow> block_identifier list \<Rightarrow> block_identifier list option" where
  "pop_all [] held = Some held"
| "pop_all (h # hs) [] = None"
| "pop_all (h # hs) (tip # rest) = (if tip = block_identifier h then pop_all hs rest else None)"

fun push_all :: "block_header list \<Rightarrow> block_identifier list \<Rightarrow> block_identifier list option" where
  "push_all [] held = Some held"
| "push_all (h # hs) [] = push_all hs [block_identifier h]"
| "push_all (h # hs) (tip # rest) =
     (if tip = parent_block_identifier h then push_all hs (block_identifier h # tip # rest) else None)"

lemma push_all_linked:
  assumes "store_ok H L" "map L ids = map Some hs" "linked L (rev ids @ below)"
    and "below = [] \<Longrightarrow> older = []"
  shows "push_all hs (below @ older) = Some (rev ids @ below @ older)"
  using assms(2-)
proof (induction ids arbitrary: hs below)
  case (Cons x ids)
  from Cons.prems(1) obtain h hs' where hs: "hs = h # hs'" "L x = Some h" "map L ids = map Some hs'"
    by (auto simp: Cons_eq_map_conv)
  with assms(1) have x: "block_identifier h = x" by (auto simp: store_ok_def)
  have lx: "linked L (rev ids @ (x # below))" using Cons.prems(2) by simp
  then have "linked L (x # below)" using linked_suffix by blast
  with hs(2) have "\<forall>p rest. below = p # rest \<longrightarrow> parent_block_identifier h = p"
    by (auto simp: linked_Cons)
  with Cons.prems(3) Cons.IH [OF hs(3) lx] show ?case
    by (cases below) (auto simp: hs(1) x)
qed simp

lemma pop_all_ids: "map block_identifier hs = ids \<Longrightarrow> pop_all hs (ids @ held) = Some held"
  by (induction hs arbitrary: ids) auto

lemma stored_identifiers:
  "store_ok H L \<Longrightarrow> map L ids = map Some hs \<Longrightarrow> map block_identifier hs = ids"
  by (induction ids arbitrary: hs) (auto simp: store_ok_def Cons_eq_map_conv)

lemma last_stored:
  assumes "store_ok H L" "map L ids = map Some hs" "hs \<noteq> []"
  shows "block_identifier (last hs) = hd (rev ids @ below)"
proof -
  have ids: "map block_identifier hs = ids" using stored_identifiers [OF assms(1,2)] .
  then have "ids \<noteq> []" using assms(3) by auto
  then have "hd (rev ids @ below) = last ids" by (simp add: hd_rev)
  also have "\<dots> = block_identifier (last hs)" using ids assms(3) by (auto simp: last_map)
  finally show ?thesis by simp
qed
section \<open>The invariant\<close>

text \<open>
  Relative to the headers \<open>H\<close> the world may deliver: the store maps identifiers to their headers,
  the forks are chains through it that agree below shared blocks, no orphan is on a fork, the
  canonical fork exists, and only a fresh pool has an empty fork.
\<close>

definition forks_inv ::
  "block_header list \<Rightarrow> (block_identifier \<Rightarrow> block_header option) \<Rightarrow> fork_map \<Rightarrow>
   block_identifier list \<Rightarrow> nat \<Rightarrow> bool" where
  "forks_inv H L fs os canonical_id \<longleftrightarrow>
     bt_wf fs \<and> chains_ok H L (chains fs) \<and>
     set os \<inter> \<Union> (set ` chains fs) = {} \<and> (\<forall>x \<in> set os. L x \<noteq> None) \<and>
     bt_get fs canonical_id \<noteq> None \<and> ([] \<in> chains fs \<longrightarrow> length fs = 1)"

text \<open>
  The state between placing a block and selecting the canonical fork, for the former fork \<open>p\<close>;
  with \<open>q\<close>, every fork shares a block with \<open>p\<close>.
\<close>

definition forks_placed ::
  "bool \<Rightarrow> block_header list \<Rightarrow> (block_identifier \<Rightarrow> block_header option) \<Rightarrow> fork_map \<Rightarrow>
   block_identifier list \<Rightarrow> block_identifier list \<Rightarrow> bool" where
  "forks_placed q H L fs os p \<longleftrightarrow>
     bt_wf fs \<and> chains_ok H L (insert p (chains fs)) \<and>
     set os \<inter> \<Union> (set ` chains fs) = {} \<and> (\<forall>x \<in> set os. L x \<noteq> None) \<and>
     fs \<noteq> [] \<and> [] \<notin> chains fs \<and> (q \<longrightarrow> (\<forall>c \<in> chains fs. connected c p))"

lemma forks_placed_inv:
  "forks_placed q H L fs os p \<Longrightarrow> bt_get fs i \<noteq> None \<Longrightarrow> forks_inv H L fs os i"
  by (auto simp: forks_placed_def forks_inv_def chains_ok_def)

lemma chains_get: "bt_wf fs \<Longrightarrow> c \<in> chains fs \<longleftrightarrow> (\<exists>i f. bt_get fs i = Some f \<and> c = block_ids f)"
  by (force simp: chains_def bt_get_in_set)

lemma bt_get_key: "k \<in> fst ` set m \<longleftrightarrow> bt_get m k \<noteq> None"
  by (metis map_of_eq_None_iff)
section \<open>Placing a block\<close>

text \<open>Storing a new header keeps every fork a chain.\<close>

lemma chains_ok_store:
  assumes "chains_ok H L C" "h \<in> set H" "L (block_identifier h) = None"
  shows "chains_ok H (L(block_identifier h \<mapsto> h)) C"
proof -
  have "linked (L(block_identifier h \<mapsto> h)) c" if "c \<in> C" for c
  proof -
    have lc: "linked L c" using assms(1) that by (simp add: chains_ok_def)
    then have "block_identifier h \<notin> set c" using linked_in_store assms(3) by blast
    then have "linked (L(block_identifier h \<mapsto> h)) c = linked L c"
      by (intro linked_cong) (metis fun_upd_other)
    with lc show ?thesis by simp
  qed
  moreover have "store_ok H (L(block_identifier h \<mapsto> h))"
    using assms(1,2) unfolding chains_ok_def store_ok_def by (metis fun_upd_apply option.inject)
  ultimately show ?thesis using assms(1) by (simp add: chains_ok_def)
qed
text \<open>
  What the orphan loop maintains for the fork it extends: with it, the forks are still well formed,
  the orphans not yet applied are on no fork, and it stays connected to what it was connected to.
\<close>

definition orphan_inv ::
  "bool \<Rightarrow> block_header list \<Rightarrow> (block_identifier \<Rightarrow> block_header option) \<Rightarrow>
   block_identifier list set \<Rightarrow>
   block_identifier list \<Rightarrow> block_identifier list \<Rightarrow> chain_segment \<Rightarrow> block_identifier list \<Rightarrow> bool" where
  "orphan_inv q H L C os p seg applied \<longleftrightarrow>
     chains_ok H L (insert (block_ids seg) C) \<and> block_ids seg \<noteq> [] \<and>
     (set os - set applied) \<inter> \<Union> (set ` insert (block_ids seg) C) = {} \<and>
     (\<forall>x \<in> set applied. L x \<noteq> None) \<and> (q \<longrightarrow> connected (block_ids seg) p)"

lemma orphan_inv_step:
  assumes wf: "wf_headers H" and inv: "orphan_inv q H L C os p seg applied" and p: "p \<in> C"
    and x: "x \<in> set os" "bid_hash x \<notin> bid_hash ` set applied" "L x = Some b"
    and ta: "try_append_block seg b = ((ok, nf), seg')"
  shows "orphan_inv q H L C os p seg' (if ok then applied @ [x] else applied)"
  using ta
proof (cases rule: try_append_block_cases)
  case extended
  have ok: "chains_ok H L (insert (block_ids seg) C)" using inv by (simp add: orphan_inv_def)
  then have bx: "block_identifier b = x" using x(3) by (auto simp: chains_ok_def store_ok_def)
  have xn: "x \<notin> set applied" using x(2) by auto
  have g: "grown b seg seg'" using try_append_grown ta extended by fastforce
  have dis: "(set os - set applied) \<inter> \<Union> (set ` insert (block_ids seg) C) = {}"
    using inv by (simp add: orphan_inv_def)
  have fresh: "\<forall>c \<in> insert (block_ids seg) C. x \<notin> set c"
    using dis x(1) xn by blast
  then have "chains_ok H L (insert (block_ids seg') (insert (block_ids seg) C))"
    using chains_ok_grow [OF wf ok _ _ _ g] x(3) bx by simp
  then have "chains_ok H L (insert (block_ids seg') C)" by (auto simp: chains_ok_def)
  moreover have "q \<longrightarrow> connected (block_ids seg') p"
  proof -
    have "coherent (block_ids seg) p" using ok p by (auto simp: chains_ok_def)
    from connected_grown [OF this _ g] inv show ?thesis by (auto simp: orphan_inv_def)
  qed
  moreover have "(set os - set (applied @ [x])) \<inter> \<Union> (set ` insert (block_ids seg') C) = {}"
    using dis grown_members [OF g] bx by auto
  ultimately show ?thesis
    using inv extended(1) grown_nonempty [OF g] x(3) by (simp add: orphan_inv_def)
next
  case forked
  from forked(1,3) inv x(3) show ?thesis by (auto simp: orphan_inv_def)
next
  case rejected
  with inv show ?thesis by simp
qed
lemma forks_connectedD:
  "forks_connected fs \<Longrightarrow> c \<in> chains fs \<Longrightarrow> d \<in> chains fs \<Longrightarrow> connected c d"
  by (auto simp: forks_connected_def chains_def list_all_iff)
lemma process_orphans_placed:
  assumes wf: "wf_headers H" and ok: "chains_ok H L (insert (block_ids g) C)" and p: "p \<in> C"
    and dis: "set os \<inter> \<Union> (set ` insert (block_ids g) C) = {}"
    and g: "bt_get fs k = Some g" "block_ids g \<noteq> []" "q \<longrightarrow> connected (block_ids g) p"
    and fs: "bt_wf fs"
    and po: "process_orphans L bid_hash os k fs = (fs', applied)"
  obtains g' where "bt_get fs' k = Some g'" "block_ids g' \<noteq> []" "q \<longrightarrow> connected (block_ids g') p"
    and "chains_ok H L (insert (block_ids g') C)" "bt_wf fs'"
    and "\<forall>j x. bt_get fs' j = Some x \<longrightarrow> j = k \<and> x = g' \<or> j \<noteq> k \<and> bt_get fs j = Some x"
    and "(set os - set applied) \<inter> \<Union> (set ` insert (block_ids g') C) = {}"
proof -
  from po g(1) obtain g' where loop: "orphan_loop L bid_hash os g [] = (g', applied)"
    and fs': "fs' = bt_insert k g' fs"
    by (auto simp: process_orphans_def split: prod.splits)
  have "orphan_inv q H L C os p g' applied"
  proof (rule orphan_loop_invariant [where P = "orphan_inv q H L C os p", OF _ _ loop])
    show "orphan_inv q H L C os p g []" using ok dis g by (simp add: orphan_inv_def)
  qed (rule orphan_inv_step [OF wf _ p])
  then show thesis
    using fs fs' by (intro that [of g']) (auto simp: orphan_inv_def bt_get_insert bt_wf_insert split: if_splits)
qed
text \<open>Placing a new block, on whatever key a new fork is given.\<close>

lemma place_forks:
  assumes wf: "wf_headers H" and h: "h \<in> set H" and inv: "forks_inv H L fs os i0"
    and conn: "q \<longrightarrow> forks_connected fs" and new: "L (block_identifier h) = None"
    and prev: "bt_get fs i0 = Some prev"
    and app: "append_to_forks next_id h fs = Some (k, fs1)"
    and po: "process_orphans (L(block_identifier h \<mapsto> h)) bid_hash os k fs1 = (fs2, applied)"
  shows "forks_placed q H (L(block_identifier h \<mapsto> h)) fs2 (fold bs_remove applied os) (block_ids prev)"
proof -
  let ?b = "block_identifier h" and ?C = "chains fs"
  let ?L = "L(?b \<mapsto> h)"
  have wff: "bt_wf fs" using inv by (simp add: forks_inv_def)
  have ok: "chains_ok H ?L ?C"
    using chains_ok_store inv h new by (simp add: forks_inv_def)
  have fresh: "\<forall>c \<in> ?C. ?b \<notin> set c"
    using inv new linked_in_store by (fastforce simp: forks_inv_def chains_ok_def)
  have p: "block_ids prev \<in> ?C" using prev chains_get [OF wff] by blast
  obtain i f g where
    f: "bt_get fs i = Some f" and g: "grown h f g" "bt_get fs1 k = Some g" and wf1: "bt_wf fs1"
    and sub: "\<forall>j x. bt_get fs1 j = Some x \<longrightarrow> j = k \<and> x = g \<or> bt_get fs j = Some x"
    and "fst ` set fs \<subseteq> fst ` set fs1" and ki: "block_ids f = [] \<longrightarrow> k = i"
    by (rule append_to_forks_SomeE [OF app wff])
  have fC: "block_ids f \<in> ?C" using f chains_get [OF wff] by blast
  have okg: "chains_ok H ?L (insert (block_ids g) ?C)"
    by (rule chains_ok_grow [OF wf ok fC _ fresh g(1)]) simp
  have emp: "fs = [(i, f)]" if "block_ids f = []"
  proof -
    have "length fs = 1" using inv fC that by (auto simp: forks_inv_def)
    with f show ?thesis by (cases fs) (auto split: if_splits)
  qed
  have conng: "q \<longrightarrow> connected (block_ids g) (block_ids prev)"
  proof (cases "block_ids f = []")
    case True
    with emp prev show ?thesis by (auto simp: connected_def split: if_splits)
  next
    case False
    have "coherent (block_ids f) (block_ids prev)" using ok fC p by (auto simp: chains_ok_def)
    from connected_grown [OF this _ g(1) False] forks_connectedD [OF _ fC p] conn show ?thesis by blast
  qed
  have "?b \<notin> set os" using inv new by (auto simp: forks_inv_def)
  with inv grown_members [OF g(1)] fC
  have dis: "set os \<inter> \<Union> (set ` insert (block_ids g) ?C) = {}"
    unfolding forks_inv_def by blast
  obtain g' where g': "bt_get fs2 k = Some g'" "block_ids g' \<noteq> []"
    "q \<longrightarrow> connected (block_ids g') (block_ids prev)"
    "chains_ok H ?L (insert (block_ids g') ?C)" "bt_wf fs2"
    "\<forall>j x. bt_get fs2 j = Some x \<longrightarrow> j = k \<and> x = g' \<or> j \<noteq> k \<and> bt_get fs1 j = Some x"
    "(set os - set applied) \<inter> \<Union> (set ` insert (block_ids g') ?C) = {}"
    by (rule process_orphans_placed [OF wf okg p dis g(2) grown_nonempty [OF g(1)] conng wf1 po])
  have sub2: "chains fs2 \<subseteq> insert (block_ids g') ?C"
    using g'(6) sub chains_get [OF g'(5)] chains_get [OF wff] by blast
  have ne: "[] \<notin> chains fs2"
  proof
    assume "[] \<in> chains fs2"
    then obtain j x where x: "bt_get fs2 j = Some x" "block_ids x = []"
      using chains_get [OF g'(5)] by auto
    with g'(2,6) have "j \<noteq> k" "bt_get fs1 j = Some x" by auto
    with sub have j: "bt_get fs j = Some x" by blast
    then have "[] \<in> ?C" using x(2) chains_get [OF wff] by metis
    then have "length fs = 1" using inv by (simp add: forks_inv_def)
    with f j have "x = f" "j = i" by (cases fs; auto split: if_splits)+
    with ki x(2) \<open>j \<noteq> k\<close> show False by simp
  qed
  have "q \<longrightarrow> (\<forall>c \<in> chains fs2. connected c (block_ids prev))"
    using sub2 g'(3) forks_connectedD [OF _ _ p] conn by blast
  moreover have "fs2 \<noteq> []" using g'(1) by auto
  moreover have "chains_ok H ?L (insert (block_ids prev) (chains fs2))"
    using g'(4) sub2 p unfolding chains_ok_def by blast
  moreover have "set (fold bs_remove applied os) \<inter> \<Union> (set ` chains fs2) = {}"
    using g'(7) sub2 by (auto simp: set_fold_bs_remove)
  moreover have "\<forall>x \<in> set (fold bs_remove applied os). ?L x \<noteq> None"
    using inv by (auto simp: set_fold_bs_remove forks_inv_def)
  ultimately show ?thesis using g'(5) ne by (simp add: forks_placed_def)
qed

text \<open>A new block that no fork takes becomes an orphan.\<close>

lemma inbox_orphan:
  assumes "h \<in> set H" "forks_inv H L fs os i0" "L (block_identifier h) = None"
  shows "forks_inv H (L(block_identifier h \<mapsto> h)) fs (bs_insert (block_identifier h) os) i0"
proof -
  have "\<forall>c \<in> chains fs. block_identifier h \<notin> set c"
    using assms(2,3) linked_in_store by (fastforce simp: forks_inv_def chains_ok_def)
  with assms(2) chains_ok_store [of H L "chains fs" h] assms(1,3) show ?thesis
    by (auto simp: forks_inv_def set_insort_insert)
qed

section \<open>Confirming and pruning\<close>

lemma sorted_drop_below:
  assumes "sorted_wrt (\<lambda>x y. bid_index y < bid_index x) as" "x \<in> set (drop (Suc n) as)"
  shows "bid_index x < bid_index (as ! n)"
proof -
  from assms(2) obtain i where "i < length (drop (Suc n) as)" "x = drop (Suc n) as ! i"
    by (metis in_set_conv_nth)
  with sorted_wrt_nth_less [OF assms(1), of n "Suc n + i"] show ?thesis by simp
qed

text \<open>
  Pruning all forks and orphans at a block \<open>c\<close>, together with the stored blocks below it, keeps the
  invariant and the canonical fork, cut at that height.
\<close>

lemma prune_forks_inv:
  assumes wf: "wf_headers H" and inv: "forks_inv H L fs os i0" and ne: "[] \<notin> chains fs"
    and pf: "prune_forks c fs = (fs1, pruned, emptied)" and po: "prune_orphans c os = (os1, dropped)"
    and agree: "\<And>b. bid_index c \<le> bid_index b \<Longrightarrow> L' b = L b"
    and less: "\<And>b h. L' b = Some h \<Longrightarrow> L b = Some h"
    and canon: "bt_get fs i0 = Some seg" "bid_index c \<le> bid_index (hd (block_ids seg))"
  shows "forks_inv H L' (fold bt_remove emptied fs1) os1 i0 \<and>
     bt_get (fold bt_remove emptied fs1) i0 = Some (cut c seg) \<and> block_ids (cut c seg) \<noteq> [] \<and>
     prefix (block_ids (cut c seg)) (block_ids seg) \<and> [] \<notin> chains (fold bt_remove emptied fs1)"
proof -
  let ?k = "bid_index c" and ?C = "chains fs"
  define forks' where "forks' = fold bt_remove emptied fs1"
  have wff: "bt_wf fs" and ok: "chains_ok H L ?C" using inv by (auto simp: forks_inv_def)
  have segC: "block_ids seg \<in> ?C" using canon chains_get [OF wff] by blast
  then have sne: "block_ids seg \<noteq> []" using ne by auto
  have wf': "bt_wf forks'"
    using wff pf by (auto simp: forks'_def prune_forks_eq bt_wf_map_values intro!: bt_wf_fold_remove)
  note get' = pruned_forks_get [OF wff pf, folded forks'_def]
  have chains': "c' \<in> filter (\<lambda>b. ?k \<le> bid_index b) ` ?C \<and> c' \<noteq> []" if "c' \<in> chains forks'" for c'
  proof -
    from that obtain i f' where "bt_get forks' i = Some f'" "c' = block_ids f'"
      using chains_get [OF wf'] by blast
    with get' [of i] obtain f where f: "bt_get fs i = Some f" "c' = block_ids (cut c f)" "c' \<noteq> []"
      by (auto split: option.splits if_splits)
    then have "block_ids f \<in> ?C" using chains_get [OF wff] by blast
    with f(2,3) show ?thesis by auto
  qed
  have "chains_ok H L' (chains forks')"
    by (rule chains_ok_cut [OF wf ok agree less]) (use chains' in auto)
  moreover have seg': "bt_get forks' i0 = Some (cut c seg)" "block_ids (cut c seg) \<noteq> []"
  proof -
    show nonempty: "block_ids (cut c seg) \<noteq> []" using sne canon(2) by (auto simp: filter_empty_conv)
    then show "bt_get forks' i0 = Some (cut c seg)"
      unfolding get' by (simp add: canon del: block_ids_cut)
  qed
  moreover have "prefix (block_ids (cut c seg)) (block_ids seg)"
    using linked_cut(2) [OF wf ok segC agree] by (auto simp: prefix_def)
  moreover have "set os1 \<inter> \<Union> (set ` chains forks') = {}"
  proof -
    have "\<Union> (set ` chains forks') \<subseteq> \<Union> (set ` ?C)" using chains' by fastforce
    moreover have "set os1 \<subseteq> set os" using prune_orphans_set [OF po] by auto
    moreover have "set os \<inter> \<Union> (set ` ?C) = {}" using inv by (simp add: forks_inv_def)
    ultimately show ?thesis by blast
  qed
  moreover have "\<forall>x \<in> set os1. L' x \<noteq> None"
    using prune_orphans_set [OF po] inv by (auto simp: agree forks_inv_def)
  moreover have "[] \<notin> chains forks'" using chains' by blast
  ultimately show ?thesis using wf' by (simp add: forks_inv_def flip: forks'_def)
qed

text \<open>What pruning drops was stored.\<close>

lemma pruned_stored:
  assumes inv: "forks_inv H L fs os i0"
    and pf: "prune_forks c fs = (fs1, pruned, emptied)" and po: "prune_orphans c os = (os1, dropped)"
  shows "\<forall>x \<in> set (pruned @ dropped). L x \<noteq> None"
proof -
  have "L x \<noteq> None" if "x \<in> set pruned" for x
  proof -
    from that pf obtain i f where "(i, f) \<in> set fs" "x \<in> set (block_ids f)"
      by (auto simp: prune_forks_eq)
    with inv show ?thesis
      by (auto simp: forks_inv_def chains_ok_def chains_def dest!: linked_in_store)
  qed
  moreover have "set dropped \<subseteq> set os" using po by (auto simp: prune_orphans_def Let_def)
  ultimately show ?thesis using inv by (auto simp: forks_inv_def)
qed

end
