(* ===== verification/Fork_Scratch_Pad.thy ===== *)
theory Fork_Scratch_Pad
  imports Fork_Invariants
begin

text \<open>
  \<^verbatim>\<open>ForkScratchPad\<close> of \<^verbatim>\<open>components/observer/src/indexer/fork_scratch_pad.rs\<close>: the pool of Bitcoin
  block headers. It keeps every header it has seen and not yet confirmed, a map of competing forks,
  the identifiers of the headers no fork could take, and the key of the canonical fork. Feeding it
  a header may produce an event that tells a consumer which headers to roll back and to apply.
  Logging is not modelled; the tree-based header store compares whole identifiers.
\<close>

section \<open>State and operations\<close>

record fork_scratch_pad =
  canonical_fork_id :: nat
  orphans :: "block_identifier btree_set"
  forks :: fork_map
  headers_store :: "(block_identifier, block_header) btree_map"

definition CONFIRMED_SEGMENT_MINIMUM_LENGTH :: nat where
  "CONFIRMED_SEGMENT_MINIMUM_LENGTH = 7"

definition fork_scratch_pad_new :: fork_scratch_pad where
  "fork_scratch_pad_new =
     \<lparr>canonical_fork_id = 0, orphans = [], forks = bt_insert 0 chain_segment_new [],
      headers_store = []\<rparr>"

definition can_process_header :: "fork_scratch_pad \<Rightarrow> block_header \<Rightarrow> bool" where
  "can_process_header pad header =
     (if headers_store pad = [] then True
      else bt_get (headers_store pad) (parent_block_identifier header) \<noteq> None)"

text \<open>\<^verbatim>\<open>self.headers_store.get(id)\<close> in \<^verbatim>\<open>generate_block_chain_event\<close>, with its early return.\<close>

definition get_header ::
  "fork_scratch_pad \<Rightarrow> block_identifier \<Rightarrow> chain_segment_incompatibility + block_header" where
  "get_header pad block_id =
     (case bt_get (headers_store pad) block_id of Some header \<Rightarrow> Inr header | None \<Rightarrow> Inl Unknown)"

definition headers_event ::
  "fork_scratch_pad \<Rightarrow> block_identifier list \<Rightarrow> chain_segment_incompatibility + blockchain_event" where
  "headers_event pad ids =
     (case collect_results (get_header pad) ids of
        Inl e \<Rightarrow> Inl e
      | Inr hs \<Rightarrow>
          Inr (BlockchainUpdatedWithHeaders \<lparr>new_headers = hs, confirmed_headers = []\<rparr>))"

definition generate_block_chain_event ::
  "fork_scratch_pad \<Rightarrow> chain_segment \<Rightarrow> chain_segment \<Rightarrow>
   chain_segment_incompatibility + blockchain_event" where
  "generate_block_chain_event pad canonical_segment other_segment =
     (if seg_is_empty other_segment then headers_event pad (rev (block_ids canonical_segment))
      else case try_identify_divergence canonical_segment other_segment False of
          Inr divergence \<Rightarrow>
            if block_ids_to_rollback divergence = []
            then headers_event pad (block_ids_to_apply divergence)
            else (case collect_results (get_header pad) (block_ids_to_rollback divergence) of
                    Inl e \<Rightarrow> Inl e
                  | Inr rollback \<Rightarrow>
                      (case collect_results (get_header pad) (block_ids_to_apply divergence) of
                         Inl e \<Rightarrow> Inl e
                       | Inr apply \<Rightarrow>
                           Inr (BlockchainUpdatedWithReorg
                             \<lparr>headers_to_rollback = rollback, headers_to_apply = apply,
                              reorg_confirmed_headers = []\<rparr>)))
        | Inl _ \<Rightarrow> Inl ParentBlockUnknown)"

text \<open>
  The tip the event leads to and the confirmed headers it already carries; \<open>None\<close> is the early
  return on an event that applies nothing.
\<close>

fun event_tip :: "blockchain_event \<Rightarrow> (block_identifier \<times> block_header list) option" where
  "event_tip (BlockchainUpdatedWithHeaders e) =
     (if new_headers e = [] then None
      else Some (block_identifier (last (new_headers e)), confirmed_headers e))"
| "event_tip (BlockchainUpdatedWithReorg e) =
     (if headers_to_apply e = [] then None
      else Some (block_identifier (last (headers_to_apply e)), reorg_confirmed_headers e))"

fun set_confirmed :: "blockchain_event \<Rightarrow> block_header list \<Rightarrow> blockchain_event" where
  "set_confirmed (BlockchainUpdatedWithHeaders e) hs =
     BlockchainUpdatedWithHeaders (e\<lparr>confirmed_headers := hs\<rparr>)"
| "set_confirmed (BlockchainUpdatedWithReorg e) hs =
     BlockchainUpdatedWithReorg (e\<lparr>reorg_confirmed_headers := hs\<rparr>)"

text \<open>
  The loop that moves the confirmed headers out of the store; \<open>False\<close> is its early return on a
  header that is not there.
\<close>

fun take_confirmed ::
  "block_identifier list \<Rightarrow> (block_identifier, block_header) btree_map \<Rightarrow> block_header list \<Rightarrow>
   bool \<times> (block_identifier, block_header) btree_map \<times> block_header list" where
  "take_confirmed [] store confirmed = (True, store, confirmed)"
| "take_confirmed (b # bs) store confirmed =
     (case bt_get store b of
        None \<Rightarrow> (False, store, confirmed)
      | Some header \<Rightarrow> take_confirmed bs (bt_remove b store) (confirmed @ [header]))"

definition collect_and_prune_confirmed_blocks ::
  "fork_scratch_pad \<Rightarrow> blockchain_event \<Rightarrow> (blockchain_event \<times> fork_scratch_pad) outcome" where
  "collect_and_prune_confirmed_blocks pad chain_event =
     (case event_tip chain_event of
        None \<Rightarrow> Done (chain_event, pad)
      | Some (tip, confirmed_blocks) \<Rightarrow>
          bind_outcome (terminating (ancestor_loop (bt_get (headers_store pad)) tip []))
            (\<lambda>canonical_segment.
              if length canonical_segment < CONFIRMED_SEGMENT_MINIMUM_LENGTH
              then Done (chain_event, pad)
              else
                let cut_off = canonical_segment ! (CONFIRMED_SEGMENT_MINIMUM_LENGTH - 2);
                    (forks1, blocks_to_prune, forks_to_prune) = prune_forks cut_off (forks pad);
                    (orphans1, orphans_to_prune) = prune_orphans cut_off (orphans pad);
                    pad1 = pad\<lparr>forks := forks1, orphans := orphans1\<rparr>
                in case take_confirmed (drop 6 canonical_segment) (headers_store pad1)
                          confirmed_blocks of
                     (False, store, confirmed) \<Rightarrow>
                       Done (set_confirmed chain_event confirmed, pad1\<lparr>headers_store := store\<rparr>)
                   | (True, store, confirmed) \<Rightarrow>
                       Done (set_confirmed chain_event (rev confirmed),
                         pad1\<lparr>headers_store :=
                                fold bt_remove (blocks_to_prune @ orphans_to_prune) store,
                              forks := fold bt_remove forks_to_prune (forks pad1)\<rparr>)))"

text \<open>The selection loop: longest fork, the last one in key order among the longest.\<close>

fun select_loop :: "fork_map \<Rightarrow> nat \<Rightarrow> nat \<Rightarrow> nat" where
  "select_loop [] canonical_id highest_height = canonical_id"
| "select_loop ((i, fork) # rest) canonical_id highest_height =
     (if highest_height \<le> get_length fork then select_loop rest i (get_length fork)
      else select_loop rest canonical_id highest_height)"

definition select_canonical :: "fork_map \<Rightarrow> nat" where
  "select_canonical fs = select_loop fs 0 0"

text \<open>The key given to a new fork: the number of forks.\<close>

definition fork_count :: "fork_map \<Rightarrow> nat" where
  "fork_count fs = length fs"

text \<open>
  \<^verbatim>\<open>process_header\<close>, in three stages: everything up to the new set of forks
  (\<open>place_header\<close>: \<open>None\<close> when the header was seen before, found no canonical fork or was inboxed
  as an orphan), then the selection of the canonical fork and the event.
\<close>

definition place_header ::
  "fork_scratch_pad \<Rightarrow> block_header \<Rightarrow> chain_segment option \<times> fork_scratch_pad" where
  "place_header pad header =
     (let block_id = block_identifier header;
          pad1 = pad\<lparr>headers_store := bt_insert block_id header (headers_store pad)\<rparr>
      in if bt_get (headers_store pad) block_id \<noteq> None then (None, pad1)
         else case bt_get (forks pad1) (canonical_fork_id pad1) of
             None \<Rightarrow> (None, pad1)
           | Some previous_canonical_fork \<Rightarrow>
               (case append_to_forks fork_count header (forks pad1) of
                  None \<Rightarrow> (None, pad1\<lparr>orphans := bs_insert block_id (orphans pad1)\<rparr>)
                | Some (fork_id, forks1) \<Rightarrow>
                    (case process_orphans (bt_get (headers_store pad1)) bid_hash (orphans pad1)
                            fork_id forks1 of
                       (forks2, applied) \<Rightarrow>
                         (Some previous_canonical_fork,
                          pad1\<lparr>forks := forks2,
                               orphans := fold bs_remove applied (orphans pad1)\<rparr>))))"

definition emit_event ::
  "fork_scratch_pad \<Rightarrow> chain_segment \<Rightarrow> nat \<Rightarrow>
   ((string + blockchain_event option) \<times> fork_scratch_pad) outcome" where
  "emit_event pad previous_canonical_fork previous_canonical_fork_id =
     (let pad1 = pad\<lparr>canonical_fork_id := select_canonical (forks pad)\<rparr>
      in bind_outcome (expect (bt_get (forks pad1) (canonical_fork_id pad1)))
           (\<lambda>canonical_fork.
             if seg_eq canonical_fork previous_canonical_fork then Done (Inr None, pad1)
             else case generate_block_chain_event pad1 canonical_fork previous_canonical_fork of
                 Inl ParentBlockUnknown \<Rightarrow>
                   Done (Inr None, pad1\<lparr>canonical_fork_id := previous_canonical_fork_id\<rparr>)
               | Inl _ \<Rightarrow> Done (Inr None, pad1)
               | Inr chain_event \<Rightarrow>
                   bind_outcome (collect_and_prune_confirmed_blocks pad1 chain_event)
                     (\<lambda>(chain_event', pad2). Done (Inr (Some chain_event'), pad2))))"

definition process_header ::
  "fork_scratch_pad \<Rightarrow> block_header \<Rightarrow>
   ((string + blockchain_event option) \<times> fork_scratch_pad) outcome" where
  "process_header pad header =
     (case place_header pad header of
        (None, pad1) \<Rightarrow> Done (Inr None, pad1)
      | (Some previous_canonical_fork, pad1) \<Rightarrow>
          emit_event pad1 previous_canonical_fork (canonical_fork_id pad))"

section \<open>What a consumer does with an event\<close>

fun consume :: "blockchain_event option \<Rightarrow> block_identifier list \<Rightarrow> block_identifier list option" where
  "consume None held = Some held"
| "consume (Some (BlockchainUpdatedWithHeaders e)) held = push_all (new_headers e) held"
| "consume (Some (BlockchainUpdatedWithReorg e)) held =
     (case pop_all (headers_to_rollback e) held of
        None \<Rightarrow> None
      | Some held' \<Rightarrow> push_all (headers_to_apply e) held')"

lemma consume_set_confirmed [simp]:
  "consume (Some (set_confirmed e hs)) held = consume (Some e) held"
  by (cases e) (auto split: option.splits)

lemma collect_headers:
  assumes "collect_results (get_header pad) ids = Inr hs"
  shows "map (bt_get (headers_store pad)) ids = map Some hs"
  using assms unfolding collect_results_Inr_iff
proof (induction ids arbitrary: hs)
  case (Cons x ids)
  then show ?case by (cases hs) (auto simp: get_header_def split: option.splits)
qed simp

lemma collect_headers_total:
  assumes "\<And>b. b \<in> set ids \<Longrightarrow> bt_get (headers_store pad) b \<noteq> None"
  obtains hs where "collect_results (get_header pad) ids = Inr hs"
    and "map (bt_get (headers_store pad)) ids = map Some hs"
proof -
  have "\<exists>hs. collect_results (get_header pad) ids = Inr hs"
    by (rule collect_results_total) (use assms in \<open>auto simp: get_header_def split: option.splits\<close>)
  then obtain hs where "collect_results (get_header pad) ids = Inr hs" by blast
  with collect_headers [OF this] show thesis by (intro that) auto
qed

section \<open>The invariant of the pad\<close>

definition pad_inv :: "block_header list \<Rightarrow> fork_scratch_pad \<Rightarrow> bool" where
  "pad_inv H pad \<longleftrightarrow>
     forks_inv H (bt_get (headers_store pad)) (forks pad) (orphans pad) (canonical_fork_id pad)"

definition placed :: "block_header list \<Rightarrow> fork_scratch_pad \<Rightarrow> block_identifier list \<Rightarrow> bool" where
  "placed H pad p \<longleftrightarrow>
     forks_placed True H (bt_get (headers_store pad)) (forks pad) (orphans pad) p"

text \<open>The consumer holds the canonical fork, possibly above blocks the pad has already confirmed.\<close>

definition in_sync :: "fork_scratch_pad \<Rightarrow> block_identifier list \<Rightarrow> bool" where
  "in_sync pad held =
     (case bt_get (forks pad) (canonical_fork_id pad) of
        None \<Rightarrow> False
      | Some seg \<Rightarrow> prefix (block_ids seg) held \<and> (block_ids seg = [] \<longrightarrow> held = []))"

lemma fork_scratch_pad_new_inv: "pad_inv H fork_scratch_pad_new" "in_sync fork_scratch_pad_new []"
  by (simp_all add: pad_inv_def forks_inv_def in_sync_def fork_scratch_pad_new_def chain_segment_new_def
      chains_ok_def store_ok_def chains_def bt_wf_def)

lemma select_loop_mem:
  "select_loop fs i n = i \<or> select_loop fs i n \<in> fst ` set fs"
  by (induction fs arbitrary: i n) (auto split: if_splits, metis+)

lemma select_canonical_mem:
  assumes "fs \<noteq> []"
  shows "select_canonical fs \<in> fst ` set fs"
proof -
  obtain i f rest where fs: "fs = (i, f) # rest" using assms by (cases fs) auto
  with select_loop_mem [of rest i "get_length f"] show ?thesis by (auto simp: select_canonical_def)
qed

subsection \<open>Placing a header\<close>

lemma place_header_seen:
  assumes wf: "wf_headers H" and h: "h \<in> set H" and inv: "pad_inv H pad"
    and seen: "bt_get (headers_store pad) (block_identifier h) \<noteq> None"
  shows "pad_inv H (pad\<lparr>headers_store := bt_insert (block_identifier h) h (headers_store pad)\<rparr>)"
proof -
  let ?L = "bt_get (headers_store pad)"
  from seen obtain h' where h': "?L (block_identifier h) = Some h'" by auto
  with inv have hH: "h' \<in> set H" and hb: "block_identifier h' = block_identifier h"
    by (auto simp: pad_inv_def forks_inv_def chains_ok_def store_ok_def)
  have "h = h'" by (rule wf_headers_unique [OF wf h hH]) (simp add: hb)
  then have "bt_get (bt_insert (block_identifier h) h (headers_store pad)) = ?L"
    using h' by (auto simp: bt_get_insert)
  with inv show ?thesis by (simp add: pad_inv_def)
qed

lemma place_header_inv:
  assumes wf: "wf_headers H" and h: "h \<in> set H" and inv: "pad_inv H pad"
    and conn: "forks_connected (forks pad)"
    and ph: "place_header pad h = (res, pad')"
  shows "canonical_fork_id pad' = canonical_fork_id pad \<and>
     (case res of
        None \<Rightarrow> pad_inv H pad' \<and> forks pad' = forks pad
      | Some prev \<Rightarrow> bt_get (forks pad) (canonical_fork_id pad) = Some prev \<and> placed H pad' (block_ids prev))"
proof (cases "bt_get (headers_store pad) (block_identifier h) \<noteq> None")
  case True
  with ph place_header_seen [OF wf h inv True] show ?thesis by (auto simp: place_header_def Let_def)
next
  case new: False
  let ?store = "bt_insert (block_identifier h) h (headers_store pad)"
  have L': "bt_get ?store = (bt_get (headers_store pad))(block_identifier h \<mapsto> h)"
    by (auto simp: bt_get_insert)
  from inv obtain prev where prev: "bt_get (forks pad) (canonical_fork_id pad) = Some prev"
    by (auto simp: pad_inv_def forks_inv_def)
  show ?thesis
  proof (cases "append_to_forks fork_count h (forks pad)")
    case None
    with ph new prev have "res = None"
      "pad' = pad\<lparr>headers_store := ?store, orphans := bs_insert (block_identifier h) (orphans pad)\<rparr>"
      by (auto simp: place_header_def Let_def)
    with inv inbox_orphan [OF h] new L' show ?thesis by (simp add: pad_inv_def)
  next
    case (Some r)
    obtain k fs1 where r: "r = (k, fs1)" by (cases r)
    obtain fs2 applied where po:
      "process_orphans (bt_get ?store) bid_hash (orphans pad) k fs1 = (fs2, applied)" by fastforce
    from ph new prev Some r po have "res = Some prev"
      and "pad' = pad\<lparr>headers_store := ?store, forks := fs2,
                         orphans := fold bs_remove applied (orphans pad)\<rparr>"
      by (auto simp: place_header_def Let_def)
    with place_forks [OF wf h inv [unfolded pad_inv_def] _ _ prev Some [unfolded r] po [unfolded L'], of True]
      conn new prev L'
    show ?thesis by (simp add: placed_def)
  qed
qed

subsection \<open>Confirming and pruning\<close>

lemma take_confirmed_all:
  assumes "distinct bs" "\<And>b. b \<in> set bs \<Longrightarrow> bt_get store b \<noteq> None"
  shows "\<exists>hs. take_confirmed bs store acc = (True, fold bt_remove bs store, acc @ hs) \<and>
     map (bt_get store) bs = map Some hs"
  using assms
proof (induction bs arbitrary: store acc)
  case (Cons b bs)
  then obtain h where h: "bt_get store b = Some h" by fastforce
  have "bt_get (bt_remove b store) x \<noteq> None" if "x \<in> set bs" for x
    using Cons.prems that by (auto simp: bt_get_remove)
  with Cons.IH [of "bt_remove b store" "acc @ [h]"] Cons.prems(1) obtain hs where
    *: "take_confirmed bs (bt_remove b store) (acc @ [h]) =
         (True, fold bt_remove bs (bt_remove b store), (acc @ [h]) @ hs)"
    "map (bt_get (bt_remove b store)) bs = map Some hs"
    by auto
  have "map (bt_get (bt_remove b store)) bs = map (bt_get store) bs"
    using Cons.prems(1) by (auto simp: bt_get_remove)
  with * h show ?case by (intro exI [of _ "h # hs"]) simp
qed simp

text \<open>
  Pruning at a confirmed block keeps the invariant and the canonical fork, cut at that height; the
  event changes in its confirmed headers only.
\<close>

lemma collect_and_prune_inv:
  assumes wf: "wf_headers H" and pl: "placed H pad p"
    and canon: "bt_get (forks pad) (canonical_fork_id pad) = Some seg"
    and tip: "\<forall>t hs. event_tip ev = Some (t, hs) \<longrightarrow> t = hd (block_ids seg)"
  shows "\<exists>ev' pad'. collect_and_prune_confirmed_blocks pad ev = Done (ev', pad') \<and>
     pad_inv H pad' \<and> (\<exists>hs. ev' = ev \<or> ev' = set_confirmed ev hs) \<and>
     canonical_fork_id pad' = canonical_fork_id pad \<and>
     (\<exists>seg'. bt_get (forks pad') (canonical_fork_id pad) = Some seg' \<and>
        block_ids seg' \<noteq> [] \<and> prefix (block_ids seg') (block_ids seg))"
proof -
  let ?L = "bt_get (headers_store pad)" and ?t = "hd (block_ids seg)"
  have inv: "forks_inv H ?L (forks pad) (orphans pad) (canonical_fork_id pad)"
    using forks_placed_inv pl canon by (simp add: placed_def)
  have nC: "[] \<notin> chains (forks pad)" using pl by (simp add: placed_def forks_placed_def)
  have segC: "block_ids seg \<in> chains (forks pad)"
    using canon chains_get inv by (auto simp: forks_inv_def)
  with nC have ne: "block_ids seg \<noteq> []" by auto
  show ?thesis
  proof (cases "event_tip ev")
    case None
    with inv canon ne show ?thesis by (auto simp: collect_and_prune_confirmed_blocks_def pad_inv_def)
  next
    case (Some tc)
    then obtain conf where et: "event_tip ev = Some (?t, conf)"
      using tip by (cases tc) auto
    have so: "store_ok H ?L" and "?L ?t \<noteq> None"
      using inv segC ne linked_in_store by (fastforce simp: forks_inv_def chains_ok_def)+
    with ancestor_loop_total [OF wf so, of ?t "[]"] obtain as where
      as: "ancestor_loop ?L ?t [] = Some as" "sorted_wrt (\<lambda>x y. bid_index y < bid_index x) as"
        "\<forall>x \<in> set as. ?L x \<noteq> None" "\<forall>x \<in> set as. bid_index x \<le> bid_index ?t"
      by auto
    show ?thesis
    proof (cases "length as < CONFIRMED_SEGMENT_MINIMUM_LENGTH")
      case True
      with et as(1) inv canon ne show ?thesis
        by (auto simp: collect_and_prune_confirmed_blocks_def pad_inv_def)
    next
      case False
      then have len: "6 < length as" by (simp add: CONFIRMED_SEGMENT_MINIMUM_LENGTH_def)
      let ?c = "as ! 5"
      obtain fs1 pruned emptied where pf: "prune_forks ?c (forks pad) = (fs1, pruned, emptied)"
        by (metis prod_cases3)
      obtain os1 dropped where po: "prune_orphans ?c (orphans pad) = (os1, dropped)" by fastforce
      have dist: "distinct as" using as(2) by (induction as) auto
      from take_confirmed_all [of "drop 6 as" "headers_store pad" conf] dist as(3) obtain hs where
        tc: "take_confirmed (drop 6 as) (headers_store pad) conf =
              (True, fold bt_remove (drop 6 as) (headers_store pad), conf @ hs)"
        using in_set_dropD by (metis distinct_drop)
      define store' where "store' = fold bt_remove (pruned @ dropped)
          (fold bt_remove (drop 6 as) (headers_store pad))"
      define pad' where "pad' = pad\<lparr>forks := fold bt_remove emptied fs1, orphans := os1, headers_store := store'\<rparr>"
      have run: "collect_and_prune_confirmed_blocks pad ev = Done (set_confirmed ev (rev (conf @ hs)), pad')"
        using et as(1) False pf po tc
        by (simp add: collect_and_prune_confirmed_blocks_def CONFIRMED_SEGMENT_MINIMUM_LENGTH_def
            pad'_def store'_def)
      have agree: "bt_get store' b = ?L b" if "bid_index ?c \<le> bid_index b" for b
        using that sorted_drop_below [OF as(2), of b 5] pruned_blocks_below [OF pf] prune_orphans_set [OF po]
        by (fastforce simp: store'_def bt_get_fold_remove)
      have less: "?L b = Some h" if "bt_get store' b = Some h" for b h
        using that by (auto simp: store'_def bt_get_fold_remove split: if_splits)
      have "bid_index ?c \<le> bid_index ?t" using as(4) len by auto
      from prune_forks_inv [OF wf inv nC pf po agree less canon this] run show ?thesis
        by (auto simp: pad'_def pad_inv_def)
    qed
  qed
qed

subsection \<open>Emitting the event\<close>

text \<open>An event that applies the blocks \<open>ids\<close> on top of \<open>below\<close>.\<close>

lemma headers_event_correct:
  assumes so: "store_ok H (bt_get (headers_store pad))"
    and lk: "linked (bt_get (headers_store pad)) (rev ids @ below)"
    and older: "below = [] \<Longrightarrow> older = []"
  shows "\<exists>ev. headers_event pad ids = Inr ev \<and>
     consume (Some ev) (below @ older) = Some (rev ids @ below @ older) \<and>
     (\<forall>t hs. event_tip ev = Some (t, hs) \<longrightarrow> t = hd (rev ids @ below))"
proof -
  have "\<And>b. b \<in> set ids \<Longrightarrow> bt_get (headers_store pad) b \<noteq> None"
    using linked_in_store [OF lk] by simp
  from collect_headers_total [OF this] obtain hs where
    hs: "collect_results (get_header pad) ids = Inr hs"
      "map (bt_get (headers_store pad)) ids = map Some hs"
    by blast
  with push_all_linked [OF so hs(2) lk older] last_stored [OF so hs(2), of below] show ?thesis
    by (auto simp: headers_event_def)
qed

lemma generate_block_chain_event_correct:
  assumes so: "store_ok H (bt_get (headers_store pad))"
    and lk: "linked (bt_get (headers_store pad)) (block_ids seg)"
      "linked (bt_get (headers_store pad)) (block_ids prev)"
    and coh: "coherent (block_ids seg) (block_ids prev)"
    and conn: "connected (block_ids seg) (block_ids prev)" and ne: "block_ids seg \<noteq> []"
    and held: "held = block_ids prev @ older" "block_ids prev = [] \<Longrightarrow> older = []"
  shows "\<exists>ev. generate_block_chain_event pad seg prev = Inr ev \<and>
     consume (Some ev) held = Some (block_ids seg @ older) \<and>
     (\<forall>t hs. event_tip ev = Some (t, hs) \<longrightarrow> t = hd (block_ids seg))"
proof (cases "block_ids prev = []")
  case True
  with headers_event_correct [OF so, of "rev (block_ids seg)" "[]" "[]"] lk(1) held show ?thesis
    by (simp add: generate_block_chain_event_def seg_is_empty_def)
next
  case False
  with conn ne have "\<not> (\<forall>x \<in> set (block_ids prev). \<forall>y \<in> set (block_ids seg). \<not> bid_eq y x)"
    by (auto simp: connected_def list_ex_iff)
  with try_identify_divergence_Inl_iff [of seg prev False] obtain d where
    d: "try_identify_divergence seg prev False = Inr d"
    by (cases "try_identify_divergence seg prev False") auto
  then obtain r r' rest rest' where
    s: "block_ids seg = rev (block_ids_to_apply d) @ r # rest"
      "block_ids prev = block_ids_to_rollback d @ r' # rest'" "bid_eq r r'"
    by (rule try_identify_divergence_rootE)
  from coherentD [OF coh s] have r: "r' # rest' = r # rest" by simp
  let ?ap = "block_ids_to_apply d" and ?rb = "block_ids_to_rollback d"
  from headers_event_correct [OF so, of ?ap "r # rest" older] lk(1) s(1) obtain ev where
    ev: "headers_event pad ?ap = Inr ev"
      "consume (Some ev) ((r # rest) @ older) = Some (rev ?ap @ (r # rest) @ older)"
      "\<forall>t hs. event_tip ev = Some (t, hs) \<longrightarrow> t = hd (rev ?ap @ r # rest)"
    by auto
  have gen: "generate_block_chain_event pad seg prev =
      (if ?rb = [] then headers_event pad ?ap
       else case collect_results (get_header pad) ?rb of
              Inl e \<Rightarrow> Inl e
            | Inr rollback \<Rightarrow>
                (case collect_results (get_header pad) ?ap of
                   Inl e \<Rightarrow> Inl e
                 | Inr apply \<Rightarrow> Inr (BlockchainUpdatedWithReorg
                     \<lparr>headers_to_rollback = rollback, headers_to_apply = apply,
                      reorg_confirmed_headers = []\<rparr>)))"
    using False d by (simp add: generate_block_chain_event_def seg_is_empty_def)
  show ?thesis
  proof (cases "?rb = []")
    case True
    with gen ev held s r show ?thesis by auto
  next
    case rb: False
    have "\<And>b. b \<in> set ?rb \<Longrightarrow> bt_get (headers_store pad) b \<noteq> None"
      using linked_in_store [OF lk(2)] s(2) by simp
    from collect_headers_total [OF this] obtain rhs where
      rhs: "collect_results (get_header pad) ?rb = Inr rhs"
        "map (bt_get (headers_store pad)) ?rb = map Some rhs" by blast
    from ev(1) obtain ahs where
      ahs: "collect_results (get_header pad) ?ap = Inr ahs"
        "ev = BlockchainUpdatedWithHeaders \<lparr>new_headers = ahs, confirmed_headers = []\<rparr>"
      by (auto simp: headers_event_def split: sum.splits)
    have "pop_all rhs held = Some ((r # rest) @ older)"
      using pop_all_ids [OF stored_identifiers [OF so rhs(2)]] held(1) s(2) r by simp
    with gen rb rhs(1) ahs ev(2,3) s(1) show ?thesis by auto
  qed
qed

lemma emit_event_sync:
  assumes wf: "wf_headers H" and pl: "placed H pad (block_ids prev)"
    and held: "prefix (block_ids prev) held" "block_ids prev = [] \<Longrightarrow> held = []"
  shows "\<exists>ev pad' held'. emit_event pad prev prev_id = Done (Inr ev, pad') \<and>
     consume ev held = Some held' \<and> pad_inv H pad' \<and> in_sync pad' held'"
proof -
  let ?L = "bt_get (headers_store pad)" and ?id = "select_canonical (forks pad)"
  let ?pad1 = "pad\<lparr>canonical_fork_id := ?id\<rparr>"
  have wff: "bt_wf (forks pad)" and ok: "chains_ok H ?L (insert (block_ids prev) (chains (forks pad)))"
    using pl by (auto simp: placed_def forks_placed_def)
  have "forks pad \<noteq> []" using pl by (simp add: placed_def forks_placed_def)
  from select_canonical_mem [OF this] obtain seg where seg: "bt_get (forks pad) ?id = Some seg"
    unfolding bt_get_key by blast
  then have segC: "block_ids seg \<in> chains (forks pad)" using chains_get [OF wff] by blast
  have lk: "linked ?L (block_ids seg)" "linked ?L (block_ids prev)" and so: "store_ok H ?L"
    and coh: "coherent (block_ids seg) (block_ids prev)"
    using ok segC by (auto simp: chains_ok_def)
  have ne: "block_ids seg \<noteq> []" and conn: "connected (block_ids seg) (block_ids prev)"
    using pl segC by (auto simp: placed_def forks_placed_def)
  have pl1: "placed H ?pad1 (block_ids prev)" using pl by (simp add: placed_def forks_placed_def)
  show ?thesis
  proof (cases "seg_eq seg prev")
    case True
    then have "block_ids seg = block_ids prev"
      using linked_list_all2_eq [OF wf so lk] by (simp add: seg_eq_def)
    moreover have "pad_inv H ?pad1" using pl seg ok by (auto simp: placed_def forks_placed_def pad_inv_def forks_inv_def chains_ok_def)
    ultimately show ?thesis
      using True seg held by (auto simp: emit_event_def Let_def in_sync_def)
  next
    case False
    from held obtain older where older: "held = block_ids prev @ older"
      "block_ids prev = [] \<Longrightarrow> older = []"
      by (auto simp: prefix_def)
    from generate_block_chain_event_correct [of H ?pad1 seg prev held older] so lk coh conn ne older
    obtain ev where ev: "generate_block_chain_event ?pad1 seg prev = Inr ev"
      "consume (Some ev) held = Some (block_ids seg @ older)"
      "\<forall>t hs. event_tip ev = Some (t, hs) \<longrightarrow> t = hd (block_ids seg)"
      by auto
    from collect_and_prune_inv [OF wf pl1, of seg ev] seg ev(3) obtain ev' pad' seg' where
      c: "collect_and_prune_confirmed_blocks ?pad1 ev = Done (ev', pad')" "pad_inv H pad'"
        "\<exists>hs. ev' = ev \<or> ev' = set_confirmed ev hs" "canonical_fork_id pad' = ?id"
        "bt_get (forks pad') ?id = Some seg'" "block_ids seg' \<noteq> []"
        "prefix (block_ids seg') (block_ids seg)"
      by auto
    have "emit_event pad prev prev_id = Done (Inr (Some ev'), pad')"
      using seg False ev(1) c(1) by (simp add: emit_event_def Let_def)
    moreover have "consume (Some ev') held = Some (block_ids seg @ older)" using c(3) ev(2) by auto
    moreover have "in_sync pad' (block_ids seg @ older)"
      using c(4-7) by (auto simp: in_sync_def prefix_def)
    ultimately show ?thesis using c(2) by blast
  qed
qed

section \<open>Runs\<close>

text \<open>Feed headers to the pad and every event to the consumer, which holds \<open>None\<close> once it is lost.\<close>

fun run_consumer ::
  "fork_scratch_pad \<Rightarrow> block_identifier list \<Rightarrow> block_header list \<Rightarrow>
   (block_identifier list option \<times> fork_scratch_pad) outcome" where
  "run_consumer pad held [] = Done (Some held, pad)"
| "run_consumer pad held (h # hs) =
     (case process_header pad h of
        Done (Inr ev, pad') \<Rightarrow>
          (case consume ev held of
             None \<Rightarrow> Done (None, pad')
           | Some held' \<Rightarrow> run_consumer pad' held' hs)
      | Done (Inl _, pad') \<Rightarrow> run_consumer pad' held hs
      | Panic \<Rightarrow> Panic
      | Diverge \<Rightarrow> Diverge)"

text \<open>Every two forks share a block, in each state a run goes through.\<close>

fun run_connected :: "fork_scratch_pad \<Rightarrow> block_header list \<Rightarrow> bool" where
  "run_connected pad [] = forks_connected (forks pad)"
| "run_connected pad (h # hs) =
     (forks_connected (forks pad) \<and>
      (case process_header pad h of
         Done (_, pad') \<Rightarrow> run_connected pad' hs
       | Panic \<Rightarrow> False
       | Diverge \<Rightarrow> False))"

lemma process_header_sync:
  assumes wf: "wf_headers H" "h \<in> set H" and inv: "pad_inv H pad" and sync: "in_sync pad held"
    and conn: "forks_connected (forks pad)"
  obtains ev pad' held' where "process_header pad h = Done (Inr ev, pad')"
    and "consume ev held = Some held'" and "pad_inv H pad'" and "in_sync pad' held'"
proof -
  obtain res pad1 where ph: "place_header pad h = (res, pad1)" by fastforce
  note pi = place_header_inv [OF wf inv conn ph]
  show thesis
  proof (cases res)
    case None
    with ph pi sync show thesis
      by (intro that [of None pad1 held]) (auto simp: process_header_def in_sync_def)
  next
    case (Some prev)
    with pi sync have "placed H pad1 (block_ids prev)" "prefix (block_ids prev) held"
      "block_ids prev = [] \<Longrightarrow> held = []"
      by (auto simp: in_sync_def)
    from emit_event_sync [OF wf(1) this, of "canonical_fork_id pad"] ph Some that show thesis
      by (auto simp: process_header_def)
  qed
qed

text \<open>
  C27. The events of the pool can be followed. Feed a fresh \<^verbatim>\<open>ForkScratchPad\<close> any sequence of headers
  of a blockchain (every block above its parent, a hash names one block), in any order, with any
  repetitions, forks and orphans: as long as no surviving fork has lost its common ancestor with
  another one to pruning, \<^verbatim>\<open>process_header\<close> returns without panic, error or divergence on every
  header, and a consumer that rolls back and applies exactly what the events say (checking that a
  rolled back block is its tip and an applied block's parent is its tip) never fails and ends up
  holding the blocks of the canonical fork at the top of its chain.
\<close>

theorem scratch_pad_consumer_follows:
  assumes "wf_headers H" and "set hs \<subseteq> set H" and "run_connected fork_scratch_pad_new hs"
  shows "\<exists>held pad seg. run_consumer fork_scratch_pad_new [] hs = Done (Some held, pad) \<and>
     bt_get (forks pad) (canonical_fork_id pad) = Some seg \<and> prefix (block_ids seg) held"
proof -
  have "\<exists>held' pad'. run_consumer pad held hs = Done (Some held', pad') \<and> pad_inv H pad' \<and> in_sync pad' held'"
    if "set hs \<subseteq> set H" "run_connected pad hs" "pad_inv H pad" "in_sync pad held" for pad held
    using that
  proof (induction hs arbitrary: pad held)
    case (Cons h hs)
    from Cons.prems have h: "h \<in> set H" and conn: "forks_connected (forks pad)" by auto
    obtain ev pad' held' where "process_header pad h = Done (Inr ev, pad')"
      "consume ev held = Some held'" "pad_inv H pad'" "in_sync pad' held'"
      by (rule process_header_sync [OF assms(1) h Cons.prems(3,4) conn])
    with Cons.IH [of pad' held'] Cons.prems show ?case by auto
  qed simp
  from this [OF assms(2,3) fork_scratch_pad_new_inv] show ?thesis
    by (auto simp: in_sync_def split: option.splits)
qed

text \<open>Headers for concrete runs: the block named \<open>c\<close> at height \<open>i\<close>, child of the block named \<open>p\<close>.\<close>

definition header_at :: "nat \<Rightarrow> char \<Rightarrow> char \<Rightarrow> block_header" where
  "header_at i c p =
     \<lparr>block_identifier = BlockIdentifier (of_nat i) [c, char_of (48 + i)],
      parent_block_identifier = BlockIdentifier (of_nat (i - 1)) [p, char_of (47 + i)]\<rparr>"

theorem scratch_pad_consumer_follows_witness:
  "\<exists>held pad seg. run_consumer fork_scratch_pad_new []
       [header_at 1 CHR ''a'' CHR ''a'', header_at 2 CHR ''a'' CHR ''a'',
        header_at 3 CHR ''b'' CHR ''b'', header_at 2 CHR ''b'' CHR ''a''] = Done (Some held, pad) \<and>
     bt_get (forks pad) (canonical_fork_id pad) = Some seg \<and> prefix (block_ids seg) held"
proof (rule scratch_pad_consumer_follows
    [of "[header_at 1 CHR ''a'' CHR ''a'', header_at 2 CHR ''a'' CHR ''a'',
          header_at 3 CHR ''b'' CHR ''b'', header_at 2 CHR ''b'' CHR ''a'']"])
  show "wf_headers [header_at 1 CHR ''a'' CHR ''a'', header_at 2 CHR ''a'' CHR ''a'',
      header_at 3 CHR ''b'' CHR ''b'', header_at 2 CHR ''b'' CHR ''a'']"
    by code_simp
  show "run_connected fork_scratch_pad_new [header_at 1 CHR ''a'' CHR ''a'',
      header_at 2 CHR ''a'' CHR ''a'', header_at 3 CHR ''b'' CHR ''b'', header_at 2 CHR ''b'' CHR ''a'']"
    by code_simp
qed simp

section \<open>Safety of one step\<close>

lemma collect_and_prune_no_panic: "collect_and_prune_confirmed_blocks pad ev \<noteq> Panic"
  by (auto simp: collect_and_prune_confirmed_blocks_def bind_outcome_Panic_iff Let_def
      split: option.splits prod.splits bool.splits)

lemma append_to_forks_nonempty: "append_to_forks n b fs = Some (k, fs') \<Longrightarrow> fs' \<noteq> []"
  by (auto simp: append_to_forks_def Let_def elim!: append_to_first_SomeE split: option.splits)

lemma process_orphans_nonempty:
  "process_orphans lookup key os k fs = (fs', applied) \<Longrightarrow> fs \<noteq> [] \<Longrightarrow> fs' \<noteq> []"
  by (auto simp: process_orphans_def split: option.splits prod.splits)

lemma place_header_forks_nonempty:
  "place_header pad header = (Some prev, pad1) \<Longrightarrow> forks pad1 \<noteq> []"
  by (auto simp: place_header_def Let_def split: option.splits prod.splits if_splits
      dest!: process_orphans_nonempty append_to_forks_nonempty)

lemma emit_event_no_panic:
  assumes "forks pad \<noteq> []"
  shows "emit_event pad prev i \<noteq> Panic"
proof -
  from select_canonical_mem [OF assms]
  obtain seg where seg: "bt_get (forks pad) (select_canonical (forks pad)) = Some seg"
    unfolding bt_get_key by blast
  then show ?thesis
    using collect_and_prune_no_panic
    by (auto simp: emit_event_def Let_def bind_outcome_Panic_iff
        split: sum.splits chain_segment_incompatibility.splits)
qed

lemma process_header_no_panic: "process_header pad header \<noteq> Panic"
  using emit_event_no_panic [OF place_header_forks_nonempty]
  by (auto simp: process_header_def split: prod.splits option.splits)

lemma collect_and_prune_no_diverge:
  assumes "wf_headers H" "store_ok H (bt_get (headers_store pad))"
  shows "collect_and_prune_confirmed_blocks pad ev \<noteq> Diverge"
proof (cases "event_tip ev")
  case (Some tc)
  obtain t c where tc: "tc = (t, c)" by (cases tc)
  from ancestor_loop_total [OF assms, of t "[]"] obtain as where
    "ancestor_loop (bt_get (headers_store pad)) t [] = Some as" by auto
  with Some tc show ?thesis
    by (auto simp: collect_and_prune_confirmed_blocks_def Let_def split: prod.splits bool.splits)
qed (simp add: collect_and_prune_confirmed_blocks_def)

lemma emit_event_no_diverge:
  assumes "wf_headers H" "store_ok H (bt_get (headers_store pad))"
  shows "emit_event pad prev i \<noteq> Diverge"
proof -
  have "store_ok H (bt_get (headers_store (pad\<lparr>canonical_fork_id := select_canonical (forks pad)\<rparr>)))"
    using assms(2) by simp
  from collect_and_prune_no_diverge [OF assms(1) this] show ?thesis
    by (auto simp: emit_event_def Let_def bind_outcome_Diverge_iff
        split: sum.splits chain_segment_incompatibility.splits)
qed

text \<open>
  \<^verbatim>\<open>ForkScratchPad::process_header\<close> never panics, whatever the state of the pad and whatever the
  header: the \<^verbatim>\<open>unwrap\<close> on the selected fork and the indexing of the canonical segment are safe.
\<close>

theorem process_header_never_panics: "process_header pad header \<noteq> Panic"
  by (rule process_header_no_panic)

text \<open>
  C28. \<^verbatim>\<open>ForkScratchPad::process_header\<close> terminates on the headers of a blockchain: when the stored
  headers and the new one are blocks above their parents, the search for the canonical ancestors
  ends and the call returns.
\<close>

theorem process_header_terminates:
  assumes "wf_headers H" and "header \<in> set H" and "store_ok H (bt_get (headers_store pad))"
  shows "returns (process_header pad header)"
proof -
  have so: "store_ok H (bt_get (headers_store (snd (place_header pad header))))"
    using assms(2,3)
    by (auto simp: place_header_def Let_def store_ok_def bt_get_insert split: option.splits prod.splits)
  have "process_header pad header \<noteq> Diverge"
    using emit_event_no_diverge [OF assms(1) so]
    by (auto simp: process_header_def split: prod.splits option.splits)
  with process_header_no_panic [of pad header] show ?thesis
    by (cases "process_header pad header") auto
qed

theorem process_header_terminates_witness:
  "returns (process_header fork_scratch_pad_new (header_at 1 CHR ''a'' CHR ''a''))"
proof (rule process_header_terminates [of "[header_at 1 CHR ''a'' CHR ''a'']"])
  show "wf_headers [header_at 1 CHR ''a'' CHR ''a'']" by code_simp
qed (simp_all add: store_ok_def fork_scratch_pad_new_def)

definition not_better :: "nat \<times> chain_segment \<Rightarrow> nat \<times> chain_segment \<Rightarrow> bool" where
  "not_better x y \<longleftrightarrow> get_length (snd x) < get_length (snd y) \<or>
     get_length (snd x) = get_length (snd y) \<and> fst x \<le> fst y"

lemma not_better_trans: "not_better x y \<Longrightarrow> not_better y z \<Longrightarrow> not_better x z"
  by (auto simp: not_better_def)

lemma select_loop_best:
  assumes "bt_wf ((k, s) # fs)"
  obtains seg where "(select_loop fs k (get_length s), seg) \<in> set ((k, s) # fs)"
    and "\<forall>x \<in> set ((k, s) # fs). not_better x (select_loop fs k (get_length s), seg)"
  using assms
proof (induction fs arbitrary: k s thesis)
  case Nil
  then show ?case by (auto simp: not_better_def)
next
  case (Cons p fs)
  obtain j f where p: "p = (j, f)" by (cases p)
  have wf: "bt_wf ((j, f) # fs)" "bt_wf ((k, s) # fs)" "k < j"
    using Cons.prems(2) by (auto simp: p bt_wf_Cons)
  show ?case
  proof (cases "get_length s \<le> get_length f")
    case True
    obtain seg where seg: "(select_loop fs j (get_length f), seg) \<in> set ((j, f) # fs)"
      "\<forall>x \<in> set ((j, f) # fs). not_better x (select_loop fs j (get_length f), seg)"
      by (rule Cons.IH [OF _ wf(1)])
    have "not_better (k, s) (j, f)" using True wf(3) by (auto simp: not_better_def)
    with seg(2) have "not_better (k, s) (select_loop fs j (get_length f), seg)"
      using not_better_trans by (metis list.set_intros(1))
    with True seg show ?thesis by (intro Cons.prems(1) [of seg]) (simp_all add: p)
  next
    case False
    obtain seg where seg: "(select_loop fs k (get_length s), seg) \<in> set ((k, s) # fs)"
      "\<forall>x \<in> set ((k, s) # fs). not_better x (select_loop fs k (get_length s), seg)"
      by (rule Cons.IH [OF _ wf(2)])
    have "not_better (j, f) (k, s)" using False by (auto simp: not_better_def)
    with seg(2) have "not_better (j, f) (select_loop fs k (get_length s), seg)"
      using not_better_trans by (metis list.set_intros(1))
    with False seg show ?thesis by (intro Cons.prems(1) [of seg]) (auto simp: p)
  qed
qed

text \<open>
  C29. The canonical fork the pool selects is a longest fork, and among the longest ones the one with
  the greatest key.
\<close>

theorem select_canonical_longest:
  assumes "bt_wf fs" and "fs \<noteq> []"
  shows "\<exists>seg. bt_get fs (select_canonical fs) = Some seg \<and>
     (\<forall>i f. bt_get fs i = Some f \<longrightarrow>
        get_length f < get_length seg \<or> get_length f = get_length seg \<and> i \<le> select_canonical fs)"
proof -
  obtain k s rest where fs: "fs = (k, s) # rest" using assms(2) by (cases fs) auto
  have eq: "select_canonical fs = select_loop rest k (get_length s)"
    by (simp add: select_canonical_def fs)
  obtain seg where "(select_canonical fs, seg) \<in> set fs"
    "\<forall>x \<in> set fs. not_better x (select_canonical fs, seg)"
    unfolding eq by (rule select_loop_best [OF assms(1) [unfolded fs]]) (simp add: fs)
  then show ?thesis
    unfolding bt_get_in_set [OF assms(1)] by (force simp: not_better_def)
qed

theorem select_canonical_longest_witness:
  "select_canonical [(0, \<lparr>block_ids = [BlockIdentifier 1 ''a'']\<rparr>), (2, \<lparr>block_ids = [BlockIdentifier 1 ''b'']\<rparr>)] = 2 \<and>
   (\<exists>seg. bt_get [(0, \<lparr>block_ids = [BlockIdentifier 1 ''a'']\<rparr>), (2, \<lparr>block_ids = [BlockIdentifier 1 ''b'']\<rparr>)]
      (select_canonical [(0, \<lparr>block_ids = [BlockIdentifier 1 ''a'']\<rparr>), (2, \<lparr>block_ids = [BlockIdentifier 1 ''b'']\<rparr>)])
      = Some seg)"
  using select_canonical_longest
    [of "[(0, \<lparr>block_ids = [BlockIdentifier 1 ''a'']\<rparr>), (2, \<lparr>block_ids = [BlockIdentifier 1 ''b'']\<rparr>)]"]
  by (auto simp: bt_wf_def select_canonical_def get_length_def)

section \<open>Where the pool loses blocks\<close>

text \<open>
  Three runs, each over the headers of one blockchain. In the first a second block arrives at
  height 8 once fork 0 has been pruned away; in the second a fork that lost its common ancestor with
  the canonical one to pruning outgrows it for a while; in the third two siblings wait for their
  parent.
\<close>

definition overwrite_run :: "block_header list" where
  "overwrite_run =
     [header_at 1 CHR ''a'' CHR ''a'', header_at 2 CHR ''a'' CHR ''a'', header_at 2 CHR ''b'' CHR ''a'',
      header_at 3 CHR ''b'' CHR ''b'', header_at 4 CHR ''b'' CHR ''b'', header_at 5 CHR ''b'' CHR ''b'',
      header_at 6 CHR ''b'' CHR ''b'', header_at 7 CHR ''b'' CHR ''b'', header_at 8 CHR ''b'' CHR ''b'',
      header_at 8 CHR ''c'' CHR ''b'']"

definition detached_run :: "block_header list" where
  "detached_run =
     map (\<lambda>i. header_at i CHR ''a'' CHR ''a'') [1, 2, 3] @ [header_at 4 CHR ''b'' CHR ''a''] @
     map (\<lambda>i. header_at i CHR ''b'' CHR ''b'') [5, 6, 7, 8] @
     map (\<lambda>i. header_at i CHR ''a'' CHR ''a'') [4, 5, 6, 7, 8, 9] @
     map (\<lambda>i. header_at i CHR ''b'' CHR ''b'') [9, 10, 11] @
     map (\<lambda>i. header_at i CHR ''a'' CHR ''a'') [10, 11]"

definition sibling_run :: "block_header list" where
  "sibling_run =
     [header_at 1 CHR ''a'' CHR ''a'', header_at 2 CHR ''a'' CHR ''a'',
      header_at 4 CHR ''b'' CHR ''b'', header_at 4 CHR ''c'' CHR ''b'', header_at 3 CHR ''b'' CHR ''a'']"

text \<open>A header the pool holds but cannot use: stored, on no fork, and not waiting as an orphan.\<close>

definition lost_header :: "fork_scratch_pad \<Rightarrow> block_header \<Rightarrow> bool" where
  "lost_header pad h =
     (bt_get (headers_store pad) (block_identifier h) = Some h \<and>
      list_all (\<lambda>f. block_identifier h \<notin> set (block_ids (snd f))) (forks pad) \<and>
      block_identifier h \<notin> set (orphans pad))"


text \<open>
  The connectedness asked by C5 is needed: when the fork with the most blocks shares none with the
  canonical one, \<^verbatim>\<open>process_header\<close> goes back to the canonical fork without an event, although that
  fork has just grown. In a run over one blockchain a consumer never hears of the block at height 10
  and cannot apply the one at height 11 when the pool announces it.
\<close>

theorem scratch_pad_detached_fork_loses_event:
  "wf_headers detached_run \<and>
   (case run_consumer fork_scratch_pad_new [] detached_run of
      Done (held, pad) \<Rightarrow> held = None \<and> \<not> forks_connected (forks pad)
    | _ \<Rightarrow> False)"
  by code_simp

text \<open>
  A recovered orphan may be dropped. Two siblings wait for their parent; when it arrives the
  first is appended, the second makes a fork that the pool does not register, and yet it is taken off
  the orphans: it stays stored, on no fork and not an orphan.
\<close>

theorem scratch_pad_drops_recovered_orphan:
  "wf_headers sibling_run \<and>
   (case run_consumer fork_scratch_pad_new [] sibling_run of
      Done (_, pad) \<Rightarrow> lost_header pad (header_at 4 CHR ''b'' CHR ''b'')
    | _ \<Rightarrow> False)"
  by code_simp

end
