(* ===== verification/Stacks_Types.thy ===== *)
theory Stacks_Types
  imports Block_Types
begin

text \<open>
  The Stacks half of \<^verbatim>\<open>components/observer/src/types\<close>: contract interfaces
  (\<^verbatim>\<open>contract_interface.rs\<close>), transaction events (\<^verbatim>\<open>events.rs\<close>), and blocks, microblocks,
  transactions, operations and chain events (\<^verbatim>\<open>rosetta.rs\<close>) and signer messages
  (\<^verbatim>\<open>signers.rs\<close>). Rust field names are unique only
  within a struct, so each record prefixes its fields. Serialisation attributes are left out.
\<close>

section \<open>Contract interfaces\<close>

datatype contract_interface_atom_type =
    AtomNone
  | AtomInt128
  | AtomUint128
  | AtomBool
  | AtomPrincipal
  | AtomBuffer u32
  | AtomStringUtf8 u32
  | AtomStringAscii u32
  | AtomTuple "(string \<times> contract_interface_atom_type) list"
  | AtomOptional contract_interface_atom_type
  | AtomResponse contract_interface_atom_type contract_interface_atom_type
  | AtomList contract_interface_atom_type u32
  | AtomTraitReference

datatype contract_interface_function_access = PrivateFunction | PublicFunction | ReadOnlyFunction

datatype contract_interface_variable_access = ConstantAccess | VariableAccess

record contract_interface_function_arg =
  arg_name :: string
  arg_type_f :: contract_interface_atom_type

record contract_interface_function =
  fun_name :: string
  fun_access :: contract_interface_function_access
  fun_args :: "contract_interface_function_arg list"
  fun_outputs :: contract_interface_atom_type

record contract_interface_variable =
  var_name :: string
  var_type_f :: contract_interface_atom_type
  var_access :: contract_interface_variable_access

record contract_interface_map =
  map_name :: string
  map_key :: contract_interface_atom_type
  map_value :: contract_interface_atom_type

record contract_interface_non_fungible_tokens =
  nft_name :: string
  nft_type_f :: contract_interface_atom_type

record contract_interface =
  ci_functions :: "contract_interface_function list"
  ci_variables :: "contract_interface_variable list"
  ci_maps :: "contract_interface_map list"
  ci_fungible_tokens :: "string list"
  ci_non_fungible_tokens :: "contract_interface_non_fungible_tokens list"
  ci_epoch :: string
  ci_clarity_version :: string

section \<open>Transaction events\<close>

record stx_transfer_event_data =
  stx_transfer_sender :: string
  stx_transfer_recipient :: string
  stx_transfer_amount :: string

record stx_mint_event_data =
  stx_mint_recipient :: string
  stx_mint_amount :: string

record stx_lock_event_data =
  stx_locked_amount :: string
  stx_unlock_height :: string
  stx_locked_address :: string

record stx_burn_event_data =
  stx_burn_sender :: string
  stx_burn_amount :: string

record nft_transfer_event_data =
  nft_transfer_asset_class_identifier :: string
  nft_transfer_hex_asset_identifier :: string
  nft_transfer_sender :: string
  nft_transfer_recipient :: string

record nft_mint_event_data =
  nft_mint_asset_class_identifier :: string
  nft_mint_hex_asset_identifier :: string
  nft_mint_recipient :: string

record nft_burn_event_data =
  nft_burn_asset_class_identifier :: string
  nft_burn_hex_asset_identifier :: string
  nft_burn_sender :: string

record ft_transfer_event_data =
  ft_transfer_asset_class_identifier :: string
  ft_transfer_sender :: string
  ft_transfer_recipient :: string
  ft_transfer_amount :: string

record ft_mint_event_data =
  ft_mint_asset_class_identifier :: string
  ft_mint_recipient :: string
  ft_mint_amount :: string

record ft_burn_event_data =
  ft_burn_asset_class_identifier :: string
  ft_burn_sender :: string
  ft_burn_amount :: string

record data_var_set_event_data =
  var_set_contract_identifier :: string
  var_set_var :: string
  var_set_hex_new_value :: string

record data_map_insert_event_data =
  map_insert_contract_identifier :: string
  map_insert_map :: string
  map_insert_hex_inserted_key :: string
  map_insert_hex_inserted_value :: string

record data_map_update_event_data =
  map_update_contract_identifier :: string
  map_update_map :: string
  map_update_hex_key :: string
  map_update_hex_new_value :: string

record data_map_delete_event_data =
  map_delete_contract_identifier :: string
  map_delete_map :: string
  map_delete_hex_deleted_key :: string

record smart_contract_event_data =
  contract_event_contract_identifier :: string
  contract_event_topic :: string
  contract_event_hex_value :: string

datatype stacks_transaction_event_payload =
    STXTransferEvent stx_transfer_event_data
  | STXMintEvent stx_mint_event_data
  | STXLockEvent stx_lock_event_data
  | STXBurnEvent stx_burn_event_data
  | NFTTransferEvent nft_transfer_event_data
  | NFTMintEvent nft_mint_event_data
  | NFTBurnEvent nft_burn_event_data
  | FTTransferEvent ft_transfer_event_data
  | FTMintEvent ft_mint_event_data
  | FTBurnEvent ft_burn_event_data
  | DataVarSetEvent data_var_set_event_data
  | DataMapInsertEvent data_map_insert_event_data
  | DataMapUpdateEvent data_map_update_event_data
  | DataMapDeleteEvent data_map_delete_event_data
  | SmartContractEvent smart_contract_event_data

text \<open>The position is the event's index in the block.\<close>

record stacks_transaction_event =
  event_payload :: stacks_transaction_event_payload
  event_position :: u32

section \<open>Operations\<close>

datatype currency_standard = Sip09 | Sip10 | NoStandard

record currency_metadata =
  asset_class_identifier :: string
  asset_identifier :: "string option"
  standard :: currency_standard

record currency =
  symbol :: string
  decimals :: u32
  currency_meta :: "currency_metadata option"

record amount =
  amount_value :: u128
  amount_currency :: currency

datatype sub_account = LiquidBalanceForStorage | Locked

record account_identifier =
  account_address :: string
  account_sub_account :: "sub_account option"

datatype operation_status_kind = Success

record operation_identifier =
  op_index :: u32
  op_network_index :: "i64 option"

datatype operation_type = Credit | Debit | Lock

datatype curve_type = Edwards25519 | Secp256k1

record public_key =
  hex_bytes :: "string option"
  pk_curve_type :: curve_type

record operation_metadata =
  opm_public_key :: "public_key option"
  opm_code :: "string option"
  opm_method_name :: "string option"
  opm_args :: "string option"

record operation =
  operation_identifier :: operation_identifier
  related_operations :: "operation_identifier list option"
  operation_type :: operation_type
  operation_status :: "operation_status_kind option"
  operation_account :: account_identifier
  operation_amount :: "amount option"
  operation_meta :: "operation_metadata option"

section \<open>Transactions\<close>

record stack_stx_data =
  stack_locked_amount :: string
  stack_unlock_height :: string
  stack_stacking_address :: string

record delegate_stack_stx_data =
  delegate_stacking_address :: string
  delegate_amount :: string
  delegate_to :: string
  delegate_pox_address :: "string option"
  delegate_unlock_height :: "string option"

datatype bitcoin_op_data = StackSTX stack_stx_data | DelegateStackSTX delegate_stack_stx_data

record stacks_contract_call_data =
  call_contract_identifier :: string
  call_method :: string
  call_args :: "string list"

record stacks_contract_deployment_data =
  deploy_contract_identifier :: string
  deploy_code :: string

datatype stacks_transaction_kind =
    ContractCall stacks_contract_call_data
  | ContractDeployment stacks_contract_deployment_data
  | NativeTokenTransfer
  | Coinbase
  | TenureChange
  | BitcoinOp bitcoin_op_data
  | Unsupported

text \<open>The structs \<^verbatim>\<open>AnchorBlockPosition\<close> and \<^verbatim>\<open>MicroBlockPosition\<close> are the arguments.\<close>

datatype stacks_transaction_position = AnchorBlock nat | MicroBlock block_identifier nat

record stacks_transaction_execution_cost =
  cost_write_length :: u64
  cost_write_count :: u64
  cost_read_length :: u64
  cost_read_count :: u64
  cost_runtime :: u64

record stacks_transaction_receipt =
  mutated_contracts_radius :: "string set"
  mutated_assets_radius :: "string set"
  contract_calls_stack :: "string set"
  receipt_events :: "stacks_transaction_event list"

definition stacks_transaction_receipt_new ::
  "string set \<Rightarrow> string set \<Rightarrow> stacks_transaction_event list \<Rightarrow> stacks_transaction_receipt" where
  "stacks_transaction_receipt_new contracts assets evs =
     \<lparr>mutated_contracts_radius = contracts, mutated_assets_radius = assets,
      contract_calls_stack = {}, receipt_events = evs\<rparr>"

record stacks_transaction_metadata =
  tx_success :: bool
  tx_raw_tx :: string
  tx_result :: string
  tx_sender :: string
  tx_nonce :: u64
  tx_fee :: u64
  tx_kind :: stacks_transaction_kind
  tx_receipt :: stacks_transaction_receipt
  tx_description :: string
  tx_sponsor :: "string option"
  tx_execution_cost :: "stacks_transaction_execution_cost option"
  tx_position :: stacks_transaction_position
  tx_proof :: "string option"
  tx_contract_abi :: "contract_interface option"

record transaction_identifier =
  txid_hash :: string

record stacks_transaction_data =
  transaction_identifier :: transaction_identifier
  operations :: "operation list"
  tx_metadata :: stacks_transaction_metadata

section \<open>Blocks and microblocks\<close>

record stacks_block_metadata_reward_set_signer =
  rs_signing_key :: string
  rs_weight :: u32
  rs_stacked_amt :: string

record stacks_block_metadata_reward_set =
  rs_pox_ustx_threshold :: "string option"
  rs_rewarded_addresses :: "string list"
  rs_signers :: "stacks_block_metadata_reward_set_signer list option"

record stacks_block_metadata =
  bitcoin_anchor_block_identifier :: block_identifier
  pox_cycle_index :: u32
  pox_cycle_position :: u32
  pox_cycle_length :: u32
  confirm_microblock_identifier :: "block_identifier option"
  stacks_block_hash :: string
  block_time :: "u64 option"
  signer_bitvec :: "string option"
  signer_signature :: "string list option"
  signer_public_keys :: "string list option"
  cycle_number :: "u64 option"
  reward_set :: "stacks_block_metadata_reward_set option"
  tenure_height :: "u64 option"

record stacks_block_data =
  sb_block_identifier :: block_identifier
  sb_parent_block_identifier :: block_identifier
  sb_timestamp :: i64
  sb_transactions :: "stacks_transaction_data list"
  sb_metadata :: stacks_block_metadata

text \<open>The struct \<^verbatim>\<open>StacksMicroblockMetadata\<close> has the single field \<open>mb_anchor_block_identifier\<close>.\<close>

record stacks_microblock_data =
  mb_block_identifier :: block_identifier
  mb_parent_block_identifier :: block_identifier
  mb_timestamp :: i64
  mb_transactions :: "stacks_transaction_data list"
  mb_anchor_block_identifier :: block_identifier

text \<open>\<^verbatim>\<open>AbstractBlock::get_header\<close>, at its two Stacks instances.\<close>

definition sb_get_header :: "stacks_block_data \<Rightarrow> block_header" where
  "sb_get_header b =
     \<lparr>block_identifier = sb_block_identifier b, parent_block_identifier = sb_parent_block_identifier b\<rparr>"

definition mb_get_header :: "stacks_microblock_data \<Rightarrow> block_header" where
  "mb_get_header m =
     \<lparr>block_identifier = mb_block_identifier m, parent_block_identifier = mb_parent_block_identifier m\<rparr>"

section \<open>Signer messages\<close>

text \<open>
  The structs \<^verbatim>\<open>SignerMessageMetadata\<close>, \<^verbatim>\<open>BlockPushedData\<close> and \<^verbatim>\<open>MockProposalData\<close> of
  \<^verbatim>\<open>signers.rs\<close> have a single field, which stands for them.
\<close>

record nakamoto_block_header_data =
  nh_version :: u8
  nh_chain_length :: u64
  nh_burn_spent :: u64
  nh_consensus_hash :: string
  nh_parent_block_id :: string
  nh_tx_merkle_root :: string
  nh_state_index_root :: string
  nh_timestamp :: u64
  nh_miner_signature :: string
  nh_signer_signature :: "string list"
  nh_pox_treatment :: string

record nakamoto_block_data =
  nb_header :: nakamoto_block_header_data
  nb_block_hash :: string
  nb_index_block_hash :: string
  nb_transactions :: "stacks_transaction_data list"

record block_proposal_data =
  bp_block :: nakamoto_block_data
  bp_burn_height :: u64
  bp_reward_cycle :: u64

record block_accepted_response =
  accepted_signer_signature_hash :: string
  accepted_signature :: string
  accepted_server_version :: string

datatype block_validation_failed_code =
    BadBlockHash
  | BadTransaction
  | InvalidBlock
  | ChainstateError
  | UnknownParent
  | NonCanonicalTenure
  | NoSuchTenure
  | InvalidTransactionReplay
  | InvalidParentBlock
  | InvalidTimestamp
  | NetworkChainMismatch
  | NotFoundError
  | ProblematicTransaction

datatype block_reject_reason_code =
    ValidationFailed block_validation_failed_code
  | ConnectivityIssues
  | RejectedInPriorRound
  | NoSortitionView
  | SortitionViewMismatch
  | TestingDirective

record block_rejected_response =
  rejected_reason :: string
  rejected_reason_code :: block_reject_reason_code
  rejected_signer_signature_hash :: string
  rejected_chain_id :: u32
  rejected_signature :: string
  rejected_server_version :: string

datatype block_response_data = Accepted block_accepted_response | Rejected block_rejected_response

record peer_info_data =
  peer_burn_block_height :: u64
  peer_stacks_tip_consensus_hash :: string
  peer_stacks_tip :: string
  peer_stacks_tip_height :: u64
  peer_pox_consensus :: string
  peer_server_version :: string
  peer_network_id :: u32
  peer_index_block_hash :: string

record mock_signature_data =
  mock_peer_info :: peer_info_data
  mock_server_version :: string
  mock_signature :: string
  mock_pubkey :: string

record mock_block_data =
  mock_block_peer_info :: peer_info_data
  mock_signatures :: "mock_signature_data list"

datatype stacks_signer_message =
    BlockProposal block_proposal_data
  | BlockResponse block_response_data
  | BlockPushed nakamoto_block_data
  | MockSignature mock_signature_data
  | MockProposal peer_info_data
  | MockBlock mock_block_data

record stacks_stacker_db_chunk =
  chunk_contract :: string
  chunk_sig :: string
  chunk_pubkey :: string
  chunk_message :: stacks_signer_message

text \<open>\<^verbatim>\<open>StacksNonConsensusEventPayloadData\<close> has the single variant \<^verbatim>\<open>SignerMessage\<close>.\<close>

record stacks_non_consensus_event_data =
  nce_payload :: stacks_stacker_db_chunk
  nce_received_at_ms :: u64
  nce_received_at_block :: block_identifier

section \<open>Chain events\<close>

record stacks_block_update =
  upd_block :: stacks_block_data
  parent_microblocks_to_rollback :: "stacks_microblock_data list"
  parent_microblocks_to_apply :: "stacks_microblock_data list"

definition stacks_block_update_new :: "stacks_block_data \<Rightarrow> stacks_block_update" where
  "stacks_block_update_new b =
     \<lparr>upd_block = b, parent_microblocks_to_rollback = [], parent_microblocks_to_apply = []\<rparr>"

record stacks_chain_updated_with_blocks_data =
  new_blocks :: "stacks_block_update list"
  new_confirmed_blocks :: "stacks_block_data list"

record stacks_chain_updated_with_reorg_data =
  blocks_to_rollback :: "stacks_block_update list"
  blocks_to_apply :: "stacks_block_update list"
  reorg_confirmed_blocks :: "stacks_block_data list"

record stacks_chain_updated_with_microblocks_reorg_data =
  microblocks_to_rollback :: "stacks_microblock_data list"
  microblocks_to_apply :: "stacks_microblock_data list"

text \<open>
  \<^verbatim>\<open>StacksChainUpdatedWithMicroblocksData\<close> has the single field \<^verbatim>\<open>new_microblocks\<close>. So has
  \<^verbatim>\<open>StacksChainUpdatedWithNonConsensusEventsData\<close>.
\<close>

datatype stacks_chain_event =
    ChainUpdatedWithBlocks stacks_chain_updated_with_blocks_data
  | ChainUpdatedWithReorg stacks_chain_updated_with_reorg_data
  | ChainUpdatedWithMicroblocks "stacks_microblock_data list"
  | ChainUpdatedWithMicroblocksReorg stacks_chain_updated_with_microblocks_reorg_data
  | ChainUpdatedWithNonConsensusEvents "stacks_non_consensus_event_data list"

fun get_confirmed_blocks :: "stacks_chain_event \<Rightarrow> stacks_block_data list" where
  "get_confirmed_blocks (ChainUpdatedWithBlocks event) = new_confirmed_blocks event"
| "get_confirmed_blocks (ChainUpdatedWithReorg event) = reorg_confirmed_blocks event"
| "get_confirmed_blocks _ = []"

definition last_opt :: "'a list \<Rightarrow> 'a option" where
  "last_opt xs = (if xs = [] then None else Some (last xs))"

definition first_opt :: "'a list \<Rightarrow> 'a option" where
  "first_opt xs = (case xs of [] \<Rightarrow> None | x # _ \<Rightarrow> Some x)"

fun get_latest_block_identifier :: "stacks_chain_event \<Rightarrow> block_identifier option" where
  "get_latest_block_identifier (ChainUpdatedWithBlocks event) =
     map_option (\<lambda>b. sb_block_identifier (upd_block b)) (last_opt (new_blocks event))"
| "get_latest_block_identifier (ChainUpdatedWithReorg event) =
     map_option (\<lambda>b. sb_block_identifier (upd_block b)) (last_opt (blocks_to_apply event))"
| "get_latest_block_identifier (ChainUpdatedWithMicroblocks mbs) =
     map_option mb_anchor_block_identifier (first_opt mbs)"
| "get_latest_block_identifier (ChainUpdatedWithMicroblocksReorg event) =
     map_option mb_anchor_block_identifier (first_opt (microblocks_to_apply event))"
| "get_latest_block_identifier (ChainUpdatedWithNonConsensusEvents _) = None"

lemma last_opt_snoc [simp]: "last_opt (xs @ [x]) = Some x"
  by (simp add: last_opt_def)

lemma last_opt_None_iff [simp]: "last_opt xs = None \<longleftrightarrow> xs = []"
  by (simp add: last_opt_def)

lemma block_identifier_sb_get_header [simp]:
  "block_identifier (sb_get_header b) = sb_block_identifier b"
  "parent_block_identifier (sb_get_header b) = sb_parent_block_identifier b"
  by (simp_all add: sb_get_header_def)

lemma block_identifier_mb_get_header [simp]:
  "block_identifier (mb_get_header m) = mb_block_identifier m"
  "parent_block_identifier (mb_get_header m) = mb_parent_block_identifier m"
  by (simp_all add: mb_get_header_def)

end
