(* ===== verification/Stacks_Block_Pool.thy ===== *)
theory Stacks_Block_Pool
  imports Fork_Scratch_Pad Stacks_Types "HOL-Library.Product_Lexorder"
begin

text \<open>
  \<^verbatim>\<open>StacksBlockPool\<close> of \<^verbatim>\<open>components/observer/src/indexer/stacks/blocks_pool.rs\<close>: the pool of Stacks
  blocks and microblocks. Like the Bitcoin pool it keeps competing forks and orphans; it also keeps,
  per anchor block, the competing trails of microblocks (\<open>micro_forks\<close>) and which of them is
  canonical. The hash-based containers compare identifiers by hash (\<^verbatim>\<open>impl PartialEq for
  BlockIdentifier\<close>), so their keys are hashes here. Logging is not modelled.

  Every operation passes the pool explicitly. \<open>Panic\<close> is an index out of range, a failed
  \<^verbatim>\<open>expect\<close>/\<^verbatim>\<open>unwrap\<close>/\<^verbatim>\<open>assert_eq!\<close> or \<^verbatim>\<open>unreachable!()\<close>; \<open>Diverge\<close> is a search for ancestors
  that runs in a cycle.
\<close>

section \<open>State\<close>

record stacks_block_pool =
  sp_canonical_fork_id :: nat
  highest_competing_fork_height_delta :: "u16 option"
  sp_orphans :: "block_identifier btree_set"
  block_store :: "(string, stacks_block_data) hash_map"
  sp_forks :: fork_map
  microblock_store :: "(string \<times> string, stacks_microblock_data) hash_map"
  micro_forks :: "(string, chain_segment list) hash_map"
  micro_orphans :: "(block_identifier \<times> block_identifier) btree_set"
  canonical_micro_fork_id :: "(string, nat) hash_map"

definition stacks_block_pool_new :: stacks_block_pool where
  "stacks_block_pool_new =
     \<lparr>sp_canonical_fork_id = 0, highest_competing_fork_height_delta = None, sp_orphans = [],
      block_store = [], sp_forks = bt_insert 0 chain_segment_new [], microblock_store = [],
      micro_forks = [], micro_orphans = [], canonical_micro_fork_id = []\<rparr>"

definition get_canonical_fork_chain_tip :: "stacks_block_pool \<Rightarrow> block_identifier option outcome" where
  "get_canonical_fork_chain_tip pool =
     (case bt_get (sp_forks pool) (sp_canonical_fork_id pool) of
        Some fork \<Rightarrow> bind_outcome (get_tip fork) (\<lambda>tip. Done (Some tip))
      | None \<Rightarrow> Done None)"

abbreviation get_block :: "stacks_block_pool \<Rightarrow> block_identifier \<Rightarrow> stacks_block_data option" where
  "get_block pool block_id \<equiv> hm_get (block_store pool) (bid_hash block_id)"

abbreviation get_microblock ::
  "stacks_block_pool \<Rightarrow> block_identifier \<Rightarrow> block_identifier \<Rightarrow> stacks_microblock_data option" where
  "get_microblock pool anchor block_id \<equiv>
     hm_get (microblock_store pool) (bid_hash anchor, bid_hash block_id)"

text \<open>Indexing a vector panics out of range.\<close>

definition vec_index :: "'a list \<Rightarrow> nat \<Rightarrow> 'a outcome" where
  "vec_index xs i = (if i < length xs then Done (xs ! i) else Panic)"

section \<open>Microblock trails\<close>

text \<open>\<^verbatim>\<open>self.microblock_store.get(..)\<close> with the early return of \<^verbatim>\<open>generate_microblock_chain_event\<close>.\<close>

definition find_microblock ::
  "stacks_block_pool \<Rightarrow> block_identifier \<Rightarrow> block_identifier \<Rightarrow>
   chain_segment_incompatibility + stacks_microblock_data" where
  "find_microblock pool anchor block_id =
     (case get_microblock pool anchor block_id of Some m \<Rightarrow> Inr m | None \<Rightarrow> Inl BlockNotFound)"

definition microblocks_event ::
  "stacks_block_pool \<Rightarrow> block_identifier \<Rightarrow> block_identifier list \<Rightarrow>
   chain_segment_incompatibility + stacks_chain_event option" where
  "microblocks_event pool anchor ids =
     (case collect_results (find_microblock pool anchor) ids of
        Inl e \<Rightarrow> Inl e
      | Inr ms \<Rightarrow> Inr (Some (ChainUpdatedWithMicroblocks ms)))"

text \<open>
  The branch without roll back reads \<^verbatim>\<open>new_canonical_segment.block_ids[i]\<close> for \<open>i\<close> below the number of
  blocks to apply, that is, a prefix of the segment; the index is in range because the blocks to
  apply are a part of the segment (lemma \<open>to_apply_in_range\<close>).
\<close>

definition generate_microblock_chain_event ::
  "stacks_block_pool \<Rightarrow> block_identifier \<Rightarrow> chain_segment \<Rightarrow> chain_segment option \<Rightarrow>
   chain_segment_incompatibility + stacks_chain_event option" where
  "generate_microblock_chain_event pool anchor new_segment previous_segment =
     (case (case previous_segment of
              Some previous \<Rightarrow> if seg_is_empty previous then None else Some previous
            | None \<Rightarrow> None) of
        None \<Rightarrow> microblocks_event pool anchor (rev (block_ids new_segment))
      | Some previous \<Rightarrow>
          if seg_eq new_segment previous then Inr None
          else case try_identify_divergence new_segment previous True of
              Inl _ \<Rightarrow> Inl ParentBlockUnknown
            | Inr divergence \<Rightarrow>
                if block_ids_to_rollback divergence = []
                then microblocks_event pool anchor
                       (take (length (block_ids_to_apply divergence)) (block_ids new_segment))
                else (case collect_results (find_microblock pool anchor)
                             (block_ids_to_rollback divergence) of
                        Inl e \<Rightarrow> Inl e
                      | Inr rollback \<Rightarrow>
                          (case collect_results (find_microblock pool anchor)
                                  (block_ids_to_apply divergence) of
                             Inl e \<Rightarrow> Inl e
                           | Inr apply \<Rightarrow>
                               Inr (Some (ChainUpdatedWithMicroblocksReorg
                                 \<lparr>microblocks_to_rollback = rollback,
                                  microblocks_to_apply = apply\<rparr>)))))"

text \<open>The trail oldest first, up to the first microblock that is not in the store.\<close>

fun microblocks_data_loop ::
  "stacks_block_pool \<Rightarrow> block_identifier \<Rightarrow> block_identifier list \<Rightarrow> stacks_microblock_data list" where
  "microblocks_data_loop pool anchor [] = []"
| "microblocks_data_loop pool anchor (block_id # rest) =
     (case get_microblock pool anchor block_id of
        Some m \<Rightarrow> m # microblocks_data_loop pool anchor rest
      | None \<Rightarrow> [])"

definition get_microblocks_data ::
  "stacks_block_pool \<Rightarrow> block_identifier \<Rightarrow> chain_segment \<Rightarrow> stacks_microblock_data list" where
  "get_microblocks_data pool anchor segment = microblocks_data_loop pool anchor (rev (block_ids segment))"

definition get_confirmed_parent_microblocks ::
  "stacks_block_pool \<Rightarrow> stacks_block_data \<Rightarrow> stacks_microblock_data list outcome" where
  "get_confirmed_parent_microblocks pool block =
     (let parent = sb_parent_block_identifier block
      in case hm_get (micro_forks pool) (bid_hash parent) of
           None \<Rightarrow> Done []
         | Some microforks \<Rightarrow>
             (case hm_get (canonical_micro_fork_id pool) (bid_hash parent) of
                None \<Rightarrow> Done []
              | Some fork_id \<Rightarrow> bind_outcome (vec_index microforks fork_id)
                             (\<lambda>segment. Done (get_microblocks_data pool parent segment))))"

text \<open>
  The loop of \<^verbatim>\<open>confirm_microblocks_for_block\<close> over the trails of the parent (there are \<open>count\<close>),
  from number \<open>i\<close>: it overwrites the canonical trail of the parent on its way, up to the first trail
  that contains the confirmed microblock.
\<close>

fun confirm_loop ::
  "string \<Rightarrow> block_identifier \<Rightarrow> nat \<Rightarrow> nat \<Rightarrow> chain_segment list \<Rightarrow> (string, nat) hash_map \<Rightarrow>
   (chain_segment \<times> nat) option \<times> (string, nat) hash_map" where
  "confirm_loop parent last_microblock count i [] ids = (None, ids)"
| "confirm_loop parent last_microblock count i (microfork # rest) ids =
     (let ids' = hm_insert parent i ids
      in if list_ex (\<lambda>b. bid_eq b last_microblock) (block_ids microfork)
         then (case keep_blocks_from_oldest_to_block_identifier microfork last_microblock of
                 ((_, mutated), confirmed) \<Rightarrow> (Some (confirmed, if mutated then count else i), ids'))
         else confirm_loop parent last_microblock count (Suc i) rest ids')"

definition confirm_microblocks_for_block ::
  "stacks_block_pool \<Rightarrow> stacks_block_data \<Rightarrow> bool \<Rightarrow>
   ((chain_segment_incompatibility +
      stacks_chain_event option \<times> stacks_microblock_data list option) \<times> stacks_block_pool) outcome"
  where
  "confirm_microblocks_for_block pool block diff_enabled =
     (let parent = sb_parent_block_identifier block
      in case (confirm_microblock_identifier (sb_metadata block),
               hm_get (micro_forks pool) (bid_hash parent)) of
           (Some last_microblock, Some microforks) \<Rightarrow>
             bind_outcome
               (case hm_get (canonical_micro_fork_id pool) (bid_hash parent) of
                  None \<Rightarrow> Done None
                | Some fork_id \<Rightarrow> bind_outcome (vec_index microforks fork_id) (\<lambda>segment. Done (Some segment)))
               (\<lambda>previous_canonical_segment.
                 case confirm_loop (bid_hash parent) last_microblock (length microforks) 0 microforks
                        (canonical_micro_fork_id pool) of
                   (None, ids) \<Rightarrow> Done (Inr (None, None), pool\<lparr>canonical_micro_fork_id := ids\<rparr>)
                 | (Some (new_canonical_segment, microfork_id), ids) \<Rightarrow>
                     let pool1 = pool\<lparr>canonical_micro_fork_id := ids\<rparr>
                     in case (if diff_enabled
                              then (case generate_microblock_chain_event pool1 parent
                                           new_canonical_segment previous_canonical_segment of
                                      Inl e \<Rightarrow> Inl e
                                    | Inr chain_event \<Rightarrow> Inr (chain_event, None))
                              else Inr (None, Some (get_microblocks_data pool1 parent
                                                      new_canonical_segment))) of
                          Inl e \<Rightarrow> Done (Inl e, pool1)
                        | Inr result \<Rightarrow>
                            Done (Inr result,
                              pool1\<lparr>canonical_micro_fork_id :=
                                      hm_insert (bid_hash parent) microfork_id ids,
                                    micro_forks :=
                                      hm_insert (bid_hash parent) (microforks @ [new_canonical_segment])
                                        (micro_forks pool)\<rparr>))
         | _ \<Rightarrow> Done (Inr (None, None), pool))"

section \<open>Chain events\<close>

text \<open>\<^verbatim>\<open>self.block_store.get(..)\<close> with the early return of \<^verbatim>\<open>generate_block_chain_event\<close>.\<close>

definition find_block ::
  "stacks_block_pool \<Rightarrow> block_identifier \<Rightarrow> chain_segment_incompatibility + stacks_block_data" where
  "find_block pool block_id =
     (case get_block pool block_id of Some b \<Rightarrow> Inr b | None \<Rightarrow> Inl BlockNotFound)"

text \<open>A fallible step for every element in turn, the pool threaded through, up to the first error.\<close>

fun traverse ::
  "('s \<Rightarrow> 'a \<Rightarrow> (('e + 'b) \<times> 's) outcome) \<Rightarrow> 's \<Rightarrow> 'a list \<Rightarrow> (('e + 'b list) \<times> 's) outcome" where
  "traverse f s [] = Done (Inr [], s)"
| "traverse f s (x # xs) =
     bind_outcome (f s x)
       (\<lambda>(r, s1). case r of
          Inl e \<Rightarrow> Done (Inl e, s1)
        | Inr y \<Rightarrow> bind_outcome (traverse f s1 xs)
            (\<lambda>(r', s2). Done ((case r' of Inl e \<Rightarrow> Inl e | Inr ys \<Rightarrow> Inr (y # ys)), s2)))"

text \<open>The microblocks of a difference of trails, moved into the update of a block.\<close>

fun update_with_microblocks :: "stacks_block_data \<Rightarrow> stacks_chain_event \<Rightarrow> stacks_block_update outcome" where
  "update_with_microblocks block (ChainUpdatedWithMicroblocks ms) =
     Done ((stacks_block_update_new block)\<lparr>parent_microblocks_to_apply := ms\<rparr>)"
| "update_with_microblocks block (ChainUpdatedWithMicroblocksReorg data) =
     Done ((stacks_block_update_new block)
       \<lparr>parent_microblocks_to_apply := microblocks_to_apply data,
        parent_microblocks_to_rollback := microblocks_to_rollback data\<rparr>)"
| "update_with_microblocks block _ = Panic"

text \<open>
  The update of a block of an event that rolls nothing back. With \<^verbatim>\<open>diff_enabled\<close> the second
  component of a confirmation is always \<^verbatim>\<open>None\<close>, so the two patterns of the source coincide.
\<close>

definition new_block_update ::
  "stacks_block_pool \<Rightarrow> block_identifier \<Rightarrow>
   ((chain_segment_incompatibility + stacks_block_update) \<times> stacks_block_pool) outcome" where
  "new_block_update pool block_id =
     (case find_block pool block_id of
        Inl e \<Rightarrow> Done (Inl e, pool)
      | Inr block \<Rightarrow>
          bind_outcome (confirm_microblocks_for_block pool block True)
            (\<lambda>(r, pool1). case r of
               Inl e \<Rightarrow> Done (Inl e, pool1)
             | Inr (Some chain_event, _) \<Rightarrow>
                 bind_outcome (update_with_microblocks block chain_event)
                   (\<lambda>update. Done (Inr update, pool1))
             | Inr (None, _) \<Rightarrow> Done (Inr (stacks_block_update_new block), pool1)))"

definition rollback_update ::
  "stacks_block_pool \<Rightarrow> block_identifier \<Rightarrow>
   ((chain_segment_incompatibility + stacks_block_update) \<times> stacks_block_pool) outcome" where
  "rollback_update pool block_id =
     (case find_block pool block_id of
        Inl e \<Rightarrow> Done (Inl e, pool)
      | Inr block \<Rightarrow>
          bind_outcome (get_confirmed_parent_microblocks pool block)
            (\<lambda>ms. Done (Inr ((stacks_block_update_new block)\<lparr>parent_microblocks_to_rollback := ms\<rparr>), pool)))"

definition apply_update ::
  "stacks_block_pool \<Rightarrow> block_identifier \<Rightarrow>
   ((chain_segment_incompatibility + stacks_block_update) \<times> stacks_block_pool) outcome" where
  "apply_update pool block_id =
     (case find_block pool block_id of
        Inl e \<Rightarrow> Done (Inl e, pool)
      | Inr block \<Rightarrow>
          bind_outcome (confirm_microblocks_for_block pool block False)
            (\<lambda>(r, pool1). case r of
               Inl e \<Rightarrow> Done (Inl e, pool1)
             | Inr (_, Some ms) \<Rightarrow>
                 Done (Inr ((stacks_block_update_new block)\<lparr>parent_microblocks_to_apply := ms\<rparr>), pool1)
             | Inr (_, None) \<Rightarrow> Done (Inr (stacks_block_update_new block), pool1)))"

definition blocks_event ::
  "stacks_block_pool \<Rightarrow> block_identifier list \<Rightarrow>
   ((chain_segment_incompatibility + stacks_chain_event) \<times> stacks_block_pool) outcome" where
  "blocks_event pool ids =
     bind_outcome (traverse new_block_update pool ids)
       (\<lambda>(r, pool1). Done
          (case r of
             Inl e \<Rightarrow> Inl e
           | Inr updates \<Rightarrow>
               Inr (ChainUpdatedWithBlocks \<lparr>new_blocks = updates, new_confirmed_blocks = []\<rparr>), pool1))"

definition sp_generate_block_chain_event ::
  "stacks_block_pool \<Rightarrow> chain_segment \<Rightarrow> chain_segment \<Rightarrow>
   ((chain_segment_incompatibility + stacks_chain_event) \<times> stacks_block_pool) outcome" where
  "sp_generate_block_chain_event pool canonical_segment other_segment =
     (if seg_is_empty other_segment then blocks_event pool (rev (block_ids canonical_segment))
      else case try_identify_divergence canonical_segment other_segment False of
          Inl _ \<Rightarrow> Done (Inl ParentBlockUnknown, pool)
        | Inr divergence \<Rightarrow>
            if block_ids_to_rollback divergence = []
            then blocks_event pool (block_ids_to_apply divergence)
            else bind_outcome (traverse rollback_update pool (block_ids_to_rollback divergence))
              (\<lambda>(r, pool1). case r of
                 Inl e \<Rightarrow> Done (Inl e, pool1)
               | Inr rollback \<Rightarrow>
                   bind_outcome (traverse apply_update pool1 (block_ids_to_apply divergence))
                     (\<lambda>(r', pool2). Done
                       (case r' of
                          Inl e \<Rightarrow> Inl e
                        | Inr apply \<Rightarrow>
                            Inr (ChainUpdatedWithReorg
                              \<lparr>blocks_to_rollback = rollback, blocks_to_apply = apply,
                               reorg_confirmed_blocks = []\<rparr>), pool2))))"

section \<open>Confirming and pruning blocks\<close>

text \<open>The tip the event leads to and the confirmed blocks it carries; \<open>None\<close> is an early return.\<close>

fun sp_event_tip :: "stacks_chain_event \<Rightarrow> (block_identifier \<times> stacks_block_data list) option" where
  "sp_event_tip (ChainUpdatedWithBlocks event) =
     map_option (\<lambda>tip. (sb_block_identifier (upd_block tip), new_confirmed_blocks event))
       (last_opt (new_blocks event))"
| "sp_event_tip (ChainUpdatedWithReorg event) =
     map_option (\<lambda>tip. (sb_block_identifier (upd_block tip), reorg_confirmed_blocks event))
       (last_opt (blocks_to_apply event))"
| "sp_event_tip _ = None"

fun sp_set_confirmed :: "stacks_chain_event \<Rightarrow> stacks_block_data list \<Rightarrow> stacks_chain_event" where
  "sp_set_confirmed (ChainUpdatedWithBlocks event) bs =
     ChainUpdatedWithBlocks (event\<lparr>new_confirmed_blocks := bs\<rparr>)"
| "sp_set_confirmed (ChainUpdatedWithReorg event) bs =
     ChainUpdatedWithReorg (event\<lparr>reorg_confirmed_blocks := bs\<rparr>)"
| "sp_set_confirmed event bs = event"

fun sp_take_confirmed ::
  "block_identifier list \<Rightarrow> (string, stacks_block_data) hash_map \<Rightarrow> stacks_block_data list \<Rightarrow>
   bool \<times> (string, stacks_block_data) hash_map \<times> stacks_block_data list" where
  "sp_take_confirmed [] store confirmed = (True, store, confirmed)"
| "sp_take_confirmed (b # bs) store confirmed =
     (case hm_get store (bid_hash b) of
        None \<Rightarrow> (False, store, confirmed)
      | Some block \<Rightarrow> sp_take_confirmed bs (hm_remove (bid_hash b) store) (confirmed @ [block]))"

definition sp_collect_and_prune_confirmed_blocks ::
  "stacks_block_pool \<Rightarrow> stacks_chain_event \<Rightarrow> (stacks_chain_event \<times> stacks_block_pool) outcome" where
  "sp_collect_and_prune_confirmed_blocks pool chain_event =
     (case sp_event_tip chain_event of
        None \<Rightarrow> Done (chain_event, pool)
      | Some (tip, confirmed_blocks) \<Rightarrow>
          bind_outcome
            (terminating (ancestor_loop (\<lambda>i. map_option sb_get_header (get_block pool i)) tip []))
            (\<lambda>canonical_segment.
              if length canonical_segment < CONFIRMED_SEGMENT_MINIMUM_LENGTH
              then Done (chain_event, pool)
              else
                let cut_off = canonical_segment ! (CONFIRMED_SEGMENT_MINIMUM_LENGTH - 2);
                    (forks1, fork_blocks, forks_to_prune) = prune_forks cut_off (sp_forks pool);
                    (orphans1, orphan_blocks) = prune_orphans cut_off (sp_orphans pool);
                    blocks_to_prune = map bid_hash (fork_blocks @ orphan_blocks);
                    pool1 = pool\<lparr>sp_forks := forks1, sp_orphans := orphans1\<rparr>
                in case sp_take_confirmed (rev (drop 6 canonical_segment)) (block_store pool1)
                          confirmed_blocks of
                     (False, store, confirmed) \<Rightarrow>
                       Done (sp_set_confirmed chain_event confirmed, pool1\<lparr>block_store := store\<rparr>)
                   | (True, store, confirmed) \<Rightarrow>
                       Done (sp_set_confirmed chain_event confirmed,
                         pool1\<lparr>block_store := fold hm_remove blocks_to_prune store,
                               micro_forks := fold hm_remove blocks_to_prune (micro_forks pool1),
                               canonical_micro_fork_id :=
                                 fold hm_remove blocks_to_prune (canonical_micro_fork_id pool1),
                               sp_forks := fold bt_remove forks_to_prune (sp_forks pool1)\<rparr>)))"

section \<open>Processing a block\<close>

text \<open>The key of a new fork: one above the last key.\<close>

definition next_fork_id :: "fork_map \<Rightarrow> nat" where
  "next_fork_id fs = (case rev fs of [] \<Rightarrow> 0 | (fork_id, _) # _ \<Rightarrow> fork_id + 1)"

text \<open>
  The selection loop. It carries the fork selected so far, its height, the highest Bitcoin height,
  and the heights of all the tips.
\<close>

definition tip_bitcoin_height :: "stacks_block_pool \<Rightarrow> block_identifier \<Rightarrow> u64" where
  "tip_bitcoin_height pool tip =
     (case get_block pool tip of
        Some b \<Rightarrow> bid_index (bitcoin_anchor_block_identifier (sb_metadata b))
      | None \<Rightarrow> 0)"

fun sp_select_loop ::
  "stacks_block_pool \<Rightarrow> fork_map \<Rightarrow> nat \<Rightarrow> u64 \<Rightarrow> u64 \<Rightarrow> u64 list \<Rightarrow> (nat \<times> u64 list) outcome" where
  "sp_select_loop pool [] canonical_id highest_height highest_bitcoin_height heights =
     Done (canonical_id, heights)"
| "sp_select_loop pool ((fork_id, fork) # rest) canonical_id highest_height highest_bitcoin_height heights =
     bind_outcome (get_tip fork)
       (\<lambda>tip.
         let bitcoin_height = tip_bitcoin_height pool tip;
             tip_height = bid_index tip;
             heights' = heights @ [tip_height]
         in if highest_bitcoin_height < bitcoin_height \<or>
               bitcoin_height = highest_bitcoin_height \<and> canonical_id < fork_id
            then if highest_height \<le> tip_height
                 then sp_select_loop pool rest fork_id tip_height bitcoin_height heights'
                 else sp_select_loop pool rest canonical_id highest_height bitcoin_height heights'
            else sp_select_loop pool rest canonical_id highest_height highest_bitcoin_height heights')"

text \<open>The distance between the two highest tips, which has to fit a \<^verbatim>\<open>u16\<close>.\<close>

definition competing_fork_height_delta :: "u64 list \<Rightarrow> string + u16 option" where
  "competing_fork_height_delta heights =
     (let sorted_heights = sort heights; n = length heights
      in if 1 < n
         then let t = sorted_heights ! (n - 1) - sorted_heights ! (n - 2)
              in if t \<le> 65535 then Inr (Some (ucast t))
                 else Inl ''unable to retrieve competing fork height: out of range integral type conversion attempted''
         else Inr None)"

definition place_block ::
  "stacks_block_pool \<Rightarrow> stacks_block_data \<Rightarrow>
   (string + chain_segment option) \<times> stacks_block_pool" where
  "place_block pool block =
     (let block_id = sb_block_identifier block;
          pool1 = pool\<lparr>block_store := hm_insert (bid_hash block_id) block (block_store pool)\<rparr>
      in if get_block pool block_id \<noteq> None then (Inr None, pool1)
         else case bt_get (sp_forks pool1) (sp_canonical_fork_id pool1) of
             None \<Rightarrow> (Inl ''unable to retrieve previous stacks fork'', pool1)
           | Some previous_canonical_fork \<Rightarrow>
               (case append_to_forks next_fork_id (sb_get_header block) (sp_forks pool1) of
                  None \<Rightarrow> (Inr None, pool1\<lparr>sp_orphans := bs_insert block_id (sp_orphans pool1)\<rparr>)
                | Some (fork_id, forks1) \<Rightarrow>
                    (case process_orphans (\<lambda>i. map_option sb_get_header (get_block pool1 i)) bid_hash
                            (sp_orphans pool1) fork_id forks1 of
                       (forks2, applied) \<Rightarrow>
                         (Inr (Some previous_canonical_fork),
                          pool1\<lparr>sp_forks := forks2,
                                sp_orphans := fold bs_remove applied (sp_orphans pool1)\<rparr>))))"

text \<open>From the selection of the canonical fork on. An error of the delta leaves the former fork selected.\<close>

definition sp_emit_event ::
  "stacks_block_pool \<Rightarrow> chain_segment \<Rightarrow> nat \<Rightarrow>
   ((string + stacks_chain_event option) \<times> stacks_block_pool) outcome" where
  "sp_emit_event pool previous_canonical_fork previous_canonical_fork_id =
     bind_outcome (sp_select_loop pool (sp_forks pool) 0 0 0 [])
       (\<lambda>(fork_id, heights).
         case competing_fork_height_delta heights of
           Inl e \<Rightarrow> Done (Inl e, pool)
         | Inr delta \<Rightarrow>
             let pool1 = pool\<lparr>highest_competing_fork_height_delta := delta,
                              sp_canonical_fork_id := fork_id\<rparr>
             in bind_outcome (expect (bt_get (sp_forks pool1) fork_id))
                 (\<lambda>canonical_fork.
                   if seg_eq canonical_fork previous_canonical_fork then Done (Inr None, pool1)
                   else bind_outcome
                     (sp_generate_block_chain_event pool1 canonical_fork previous_canonical_fork)
                     (\<lambda>(r, pool2). case r of
                        Inl ParentBlockUnknown \<Rightarrow>
                          Done (Inr None, pool2\<lparr>sp_canonical_fork_id := previous_canonical_fork_id\<rparr>)
                      | Inl _ \<Rightarrow> Done (Inr None, pool2)
                      | Inr chain_event \<Rightarrow>
                          if (case delta of None \<Rightarrow> True | Some e \<Rightarrow> 6 < e)
                          then bind_outcome (sp_collect_and_prune_confirmed_blocks pool2 chain_event)
                                 (\<lambda>(chain_event', pool3). Done (Inr (Some chain_event'), pool3))
                          else Done (Inr (Some chain_event), pool2))))"

definition process_block ::
  "stacks_block_pool \<Rightarrow> stacks_block_data \<Rightarrow>
   ((string + stacks_chain_event option) \<times> stacks_block_pool) outcome" where
  "process_block pool block =
     (case place_block pool block of
        (Inl e, pool1) \<Rightarrow> Done (Inl e, pool1)
      | (Inr None, pool1) \<Rightarrow> Done (Inr None, pool1)
      | (Inr (Some previous_canonical_fork), pool1) \<Rightarrow>
          sp_emit_event pool1 previous_canonical_fork (sp_canonical_fork_id pool))"

text \<open>Seeding ignores the results and skips blocks that are already stored.\<close>

fun seed_block_pool :: "stacks_block_pool \<Rightarrow> stacks_block_data list \<Rightarrow> stacks_block_pool outcome" where
  "seed_block_pool pool [] = Done pool"
| "seed_block_pool pool (block # blocks) =
     (if get_block pool (sb_block_identifier block) \<noteq> None then seed_block_pool pool blocks
      else bind_outcome (process_block pool block) (\<lambda>(_, pool1). seed_block_pool pool1 blocks))"

section \<open>Processing microblocks\<close>

text \<open>Offer a microblock to the trails of its anchor: the trail that took it, and the trails after it.\<close>

definition append_to_micro_forks ::
  "block_header \<Rightarrow> chain_segment list \<Rightarrow> (nat \<times> chain_segment list) option" where
  "append_to_micro_forks block microforks =
     (case append_to_first block (enumerate 0 microforks) of
        None \<Rightarrow> None
      | Some (i, None, microforks1) \<Rightarrow> Some (i, map snd microforks1)
      | Some (i, Some new_micro_fork, microforks1) \<Rightarrow>
          Some (length microforks1, map snd microforks1 @ [new_micro_fork]))"

text \<open>The trail that receives a microblock, if any: a microblock of sequence 0 starts a new one.\<close>

definition place_microblock ::
  "stacks_microblock_data \<Rightarrow> chain_segment list option \<Rightarrow> (nat \<times> chain_segment list) option" where
  "place_microblock microblock microforks =
     (if bid_index (mb_block_identifier microblock) = 0 then
        let fork = append_block_identifier (mb_block_identifier microblock) chain_segment_new;
            existing = (case microforks of Some fs \<Rightarrow> fs | None \<Rightarrow> [])
        in Some (length existing, existing @ [fork])
      else case microforks of
          Some fs \<Rightarrow> append_to_micro_forks (mb_get_header microblock) fs
        | None \<Rightarrow> None)"

text \<open>
  What the loop over the microblocks of \<^verbatim>\<open>process_microblocks\<close> carries besides the pool: the last
  canonical trail seen, the anchors whose trails changed, and the last anchor found in the store.
\<close>

record micro_progress =
  previous_canonical_micro_fork :: "chain_segment option"
  micro_forks_updated :: "string list"
  anchor_block_updated :: "block_identifier option"

definition process_microblock ::
  "stacks_block_pool \<Rightarrow> micro_progress \<Rightarrow> stacks_microblock_data \<Rightarrow>
   (stacks_block_pool \<times> micro_progress) outcome" where
  "process_microblock pool progress microblock0 =
     (let (microblock, progress1) =
            (case get_block pool (mb_anchor_block_identifier microblock0) of
               Some block \<Rightarrow>
                 (microblock0\<lparr>mb_anchor_block_identifier := sb_block_identifier block\<rparr>,
                  progress\<lparr>anchor_block_updated := Some (sb_block_identifier block)\<rparr>)
             | None \<Rightarrow> (microblock0, progress));
          anchor = bid_hash (mb_anchor_block_identifier microblock);
          micro_id = mb_block_identifier microblock;
          pool1 = pool\<lparr>microblock_store :=
                         hm_insert (anchor, bid_hash micro_id) microblock (microblock_store pool)\<rparr>
      in bind_outcome
           (case (hm_get (micro_forks pool1) anchor, hm_get (canonical_micro_fork_id pool1) anchor) of
              (Some microforks, Some fork_id) \<Rightarrow>
                bind_outcome (vec_index microforks fork_id)
                  (\<lambda>fork. Done (progress1\<lparr>previous_canonical_micro_fork := Some fork\<rparr>))
            | _ \<Rightarrow> Done progress1)
           (\<lambda>progress2.
             case place_microblock microblock (hm_get (micro_forks pool1) anchor) of
               None \<Rightarrow>
                 Done (pool1\<lparr>micro_orphans :=
                               bs_insert (mb_anchor_block_identifier microblock, micro_id)
                                 (micro_orphans pool1)\<rparr>, progress2)
             | Some (i, microforks) \<Rightarrow>
                 (case orphan_loop
                         (\<lambda>(a, b). map_option mb_get_header (get_microblock pool1 a b))
                         (\<lambda>(a, b). (bid_hash a, bid_hash b)) (micro_orphans pool1)
                         (microforks ! i) [] of
                    (fork, applied) \<Rightarrow>
                      Done (pool1\<lparr>micro_forks :=
                                    hm_insert anchor (microforks[i := fork]) (micro_forks pool1),
                                  micro_orphans := fold bs_remove applied (micro_orphans pool1)\<rparr>,
                            progress2\<lparr>micro_forks_updated :=
                                        List.insert anchor (micro_forks_updated progress2)\<rparr>))))"

fun process_microblocks_loop ::
  "stacks_block_pool \<Rightarrow> micro_progress \<Rightarrow> stacks_microblock_data list \<Rightarrow>
   (stacks_block_pool \<times> micro_progress) outcome" where
  "process_microblocks_loop pool progress [] = Done (pool, progress)"
| "process_microblocks_loop pool progress (microblock # rest) =
     bind_outcome (process_microblock pool progress microblock)
       (\<lambda>(pool1, progress1). process_microblocks_loop pool1 progress1 rest)"

definition process_microblocks ::
  "stacks_block_pool \<Rightarrow> stacks_microblock_data list \<Rightarrow>
   ((string + stacks_chain_event option) \<times> stacks_block_pool) outcome" where
  "process_microblocks pool microblocks =
     (if block_store pool = [] then Done (Inr None, pool)
      else bind_outcome
        (process_microblocks_loop pool
           \<lparr>previous_canonical_micro_fork = None, micro_forks_updated = [], anchor_block_updated = None\<rparr>
           microblocks)
        (\<lambda>(pool1, progress).
          if micro_forks_updated progress = [] then Done (Inr None, pool1)
          else case anchor_block_updated progress of
              None \<Rightarrow> Done (Inr None, pool1)
            | Some anchor \<Rightarrow>
                if length (micro_forks_updated progress) \<noteq> 1 then Panic
                else bind_outcome (expect (hm_get (micro_forks pool1) (bid_hash anchor)))
                  (\<lambda>microforks.
                    let fork_id = select_canonical (enumerate 0 microforks);
                        pool2 = pool1\<lparr>canonical_micro_fork_id :=
                                  hm_insert (bid_hash anchor) fork_id (canonical_micro_fork_id pool1)\<rparr>
                    in bind_outcome (vec_index microforks fork_id)
                         (\<lambda>canonical_micro_fork.
                           case generate_microblock_chain_event pool2 anchor canonical_micro_fork
                                  (previous_canonical_micro_fork progress) of
                             Inr chain_event \<Rightarrow> Done (Inr chain_event, pool2)
                           | Inl _ \<Rightarrow> Done (Inr None, pool2)))))"
end
