(* ===== verification/Stacks_Pool_Invariants.thy ===== *)
theory Stacks_Pool_Invariants
  imports Stacks_Block_Pool
begin

text \<open>
  What the Stacks pool guarantees: the invariant of its forks (an instance of \<open>forks_inv\<close>), of its
  block store and of its microblock trails, that every operation keeps it, and that a consumer of
  the emitted events follows the canonical fork.
\<close>

section \<open>The key of a new fork\<close>

lemma next_fork_id_greater:
  assumes "bt_wf fs" "(i, f) \<in> set fs"
  shows "i < next_fork_id fs"
proof -
  from assms(2) have "fs \<noteq> []" by auto
  then obtain pre k g where fs: "fs = pre @ [(k, g)]" by (metis prod.exhaust rev_exhaust)
  have "\<forall>p \<in> set pre. fst p < k"
    using assms(1) unfolding fs bt_wf_def by (auto simp: sorted_wrt_append)
  with assms(2) show ?thesis by (auto simp: fs next_fork_id_def)
qed

interpretation stacks_forks: fork_allocator next_fork_id
proof
  fix fs :: fork_map
  assume wf: "bt_wf fs"
  show "bt_get fs (next_fork_id fs) = None"
    by (rule bt.greater_than_last_fresh [OF wf]) (use next_fork_id_greater [OF wf] in auto)
qed

section \<open>Selecting the canonical fork\<close>

lemma sp_select_loop_total:
  assumes "\<forall>p \<in> set fs. block_ids (snd p) \<noteq> []"
  shows "\<exists>k. sp_select_loop pool fs c hh hb hs =
       Done (k, hs @ map (\<lambda>p. bid_index (hd (block_ids (snd p)))) fs) \<and> (k = c \<or> k \<in> fst ` set fs)"
  using assms
proof (induction fs arbitrary: c hh hb hs)
  case (Cons p fs)
  obtain i f where p: "p = (i, f)" by (cases p)
  from Cons.prems p obtain t ids where f: "block_ids f = t # ids" by (cases "block_ids f") auto
  have tip: "get_tip f = Done t" by (simp add: get_tip_def f)
  have step: "\<exists>k. sp_select_loop pool fs c' hh' hb' (hs @ [bid_index t]) =
       Done (k, hs @ map (\<lambda>p. bid_index (hd (block_ids (snd p)))) (p # fs)) \<and> (k = c' \<or> k \<in> fst ` set fs)"
    for c' hh' hb'
    using Cons.IH [of c' hh' hb' "hs @ [bid_index t]"] Cons.prems p f by simp
  let ?b = "tip_bitcoin_height pool t"
  from step [of i "bid_index t" ?b] step [of c hh ?b] step [of c hh hb] show ?case
    unfolding p sp_select_loop.simps tip bind_outcome.simps Let_def
    by (simp only: split: if_splits) (force simp del: sp_select_loop.simps)
qed simp

lemma sp_select_mem:
  assumes "fs \<noteq> []" "\<forall>p \<in> set fs. block_ids (snd p) \<noteq> []"
  shows "\<exists>k. sp_select_loop pool fs 0 0 0 [] =
       Done (k, map (\<lambda>p. bid_index (hd (block_ids (snd p)))) fs) \<and> k \<in> fst ` set fs"
proof -
  obtain i f rest where fs: "fs = (i, f) # rest" using assms(1) by (cases fs) auto
  from assms(2) fs obtain t ids where f: "block_ids f = t # ids" by (cases "block_ids f") auto
  have tip: "get_tip f = Done t" by (simp add: get_tip_def f)
  have rest: "\<exists>k. sp_select_loop pool rest c' hh' hb' [bid_index t] =
       Done (k, map (\<lambda>p. bid_index (hd (block_ids (snd p)))) fs) \<and> (k = c' \<or> k \<in> fst ` set rest)"
    for c' hh' hb'
    using sp_select_loop_total [of rest pool c' hh' hb' "[bid_index t]"] assms(2) fs f by auto
  let ?b = "tip_bitcoin_height pool t"
  have first: "sp_select_loop pool fs 0 0 0 [] = sp_select_loop pool rest i hh' hb' [bid_index t] \<Longrightarrow> ?thesis"
    for hh' hb'
    using rest [of i hh' hb'] fs by auto
  show ?thesis
  proof (cases "0 < ?b \<or> ?b = 0 \<and> 0 < i")
    case True
    then have "sp_select_loop pool fs 0 0 0 [] = sp_select_loop pool rest i (bid_index t) ?b [bid_index t]"
      by (simp add: fs tip Let_def)
    then show ?thesis by (rule first)
  next
    case False
    moreover have "0 < ?b \<or> ?b = 0" by (cases "?b = 0") (auto simp: word_gt_0)
    ultimately have "i = 0" by auto
    with False have "sp_select_loop pool fs 0 0 0 [] = sp_select_loop pool rest i 0 0 [bid_index t]"
      by (simp add: fs tip Let_def)
    then show ?thesis by (rule first)
  qed
qed

text \<open>The heights of the tips are close enough for their distance to fit a \<^verbatim>\<open>u16\<close>.\<close>

definition within_span :: "u64 \<Rightarrow> u64 \<Rightarrow> bool" where
  "within_span lo h = (lo \<le> h \<and> unat h - unat lo \<le> 65535)"

lemma competing_fork_height_delta_in_span:
  assumes "\<forall>h \<in> set hs. within_span lo h"
  shows "\<exists>d. competing_fork_height_delta hs = Inr d"
proof (cases "1 < length hs")
  case True
  let ?s = "sort hs" and ?n = "length hs"
  have "?s ! (?n - 1) \<in> set hs" "?s ! (?n - 2) \<in> set hs"
    using True nth_mem [of "?n - 1" ?s] nth_mem [of "?n - 2" ?s] by auto
  with assms have "within_span lo (?s ! (?n - 1))" "within_span lo (?s ! (?n - 2))" by auto
  moreover have "?s ! (?n - 2) \<le> ?s ! (?n - 1)" using True by (intro sorted_nth_mono) auto
  ultimately have "unat (?s ! (?n - 1) - ?s ! (?n - 2)) \<le> 65535"
    unfolding within_span_def word_le_nat_alt by (simp add: unat_sub word_le_nat_alt) linarith
  then have "?s ! (?n - 1) - ?s ! (?n - 2) \<le> 65535" by (simp add: word_le_nat_alt)
  then show ?thesis by (auto simp: competing_fork_height_delta_def Let_def)
qed (simp add: competing_fork_height_delta_def Let_def)

section \<open>Microblock trails\<close>

text \<open>
  A microblock extends the trail of its parent's anchor block. For a microblock of sequence 0 the
  standardised parent is the microblock itself.
\<close>

definition wf_microblocks :: "stacks_microblock_data list \<Rightarrow> bool" where
  "wf_microblocks M =
     list_all (\<lambda>m. list_all (\<lambda>m'.
       bid_eq (mb_parent_block_identifier m) (mb_block_identifier m') \<longrightarrow>
       bid_eq (mb_anchor_block_identifier m) (mb_anchor_block_identifier m')) M) M"

definition same_microblock :: "stacks_microblock_data \<Rightarrow> stacks_microblock_data \<Rightarrow> bool" where
  "same_microblock m m' \<longleftrightarrow>
     mb_block_identifier m = mb_block_identifier m' \<and>
     mb_parent_block_identifier m = mb_parent_block_identifier m' \<and>
     bid_eq (mb_anchor_block_identifier m) (mb_anchor_block_identifier m')"

text \<open>Every microblock of a trail is stored under the anchor of the trail.\<close>

definition trail_ok :: "stacks_microblock_data list \<Rightarrow> stacks_block_pool \<Rightarrow> string \<Rightarrow> chain_segment \<Rightarrow> bool" where
  "trail_ok M pool a seg \<longleftrightarrow> block_ids seg \<noteq> [] \<and>
     (\<forall>b \<in> set (block_ids seg). hm_get (microblock_store pool) (a, bid_hash b) \<noteq> None \<and>
        (\<exists>m \<in> set M. mb_block_identifier m = b \<and> bid_hash (mb_anchor_block_identifier m) = a))"

definition micro_inv :: "stacks_microblock_data list \<Rightarrow> stacks_block_pool \<Rightarrow> bool" where
  "micro_inv M pool \<longleftrightarrow>
     (\<forall>a i. hm_get (canonical_micro_fork_id pool) a = Some i \<longrightarrow>
        (\<exists>fs. hm_get (micro_forks pool) a = Some fs \<and> i < length fs)) \<and>
     (\<forall>a fs seg. hm_get (micro_forks pool) a = Some fs \<longrightarrow> seg \<in> set fs \<longrightarrow> trail_ok M pool a seg) \<and>
     (\<forall>a k m. hm_get (microblock_store pool) (a, k) = Some m \<longrightarrow>
        bid_hash (mb_anchor_block_identifier m) = a \<and> bid_hash (mb_block_identifier m) = k \<and>
        (\<exists>m' \<in> set M. same_microblock m m'))"

lemma micro_invD:
  assumes "micro_inv M pool"
  shows micro_inv_index: "hm_get (canonical_micro_fork_id pool) a = Some i \<Longrightarrow>
          hm_get (micro_forks pool) a = Some fs \<Longrightarrow> i < length fs"
    and micro_inv_index_fork: "hm_get (canonical_micro_fork_id pool) a = Some i \<Longrightarrow>
          \<exists>fs. hm_get (micro_forks pool) a = Some fs"
    and micro_inv_trail: "hm_get (micro_forks pool) a = Some fs \<Longrightarrow> seg \<in> set fs \<Longrightarrow> trail_ok M pool a seg"
    and micro_inv_store: "hm_get (microblock_store pool) (a, k) = Some m \<Longrightarrow>
          bid_hash (mb_anchor_block_identifier m) = a \<and> bid_hash (mb_block_identifier m) = k \<and>
          (\<exists>m' \<in> set M. same_microblock m m')"
  using assms unfolding micro_inv_def by (metis option.inject)+

lemma to_apply_in_range:
  assumes "try_identify_divergence seg prev r = Inr d"
  shows "length (block_ids_to_apply d) \<le> length (block_ids seg)"
    and "set (block_ids_to_apply d) \<subseteq> set (block_ids seg)"
    and "set (block_ids_to_rollback d) \<subseteq> set (block_ids prev)"
proof -
  have "length (block_ids_to_apply d) \<le> length (block_ids seg) \<and>
      set (block_ids_to_apply d) \<subseteq> set (block_ids seg) \<and> set (block_ids_to_rollback d) \<subseteq> set (block_ids prev)"
    using assms by (cases rule: try_identify_divergence_InrE) auto
  then show "length (block_ids_to_apply d) \<le> length (block_ids seg)"
    "set (block_ids_to_apply d) \<subseteq> set (block_ids seg)" "set (block_ids_to_rollback d) \<subseteq> set (block_ids prev)"
    by auto
qed

lemma generate_microblock_chain_event_total:
  assumes new: "\<forall>b \<in> set (block_ids seg). get_microblock pool anchor b \<noteq> None"
    and prev: "\<forall>p. prev = Some p \<longrightarrow> (\<forall>b \<in> set (block_ids p). get_microblock pool anchor b \<noteq> None)"
  shows "\<exists>ev. generate_microblock_chain_event pool anchor seg prev = Inr ev \<and>
     (\<forall>e block. ev = Some e \<longrightarrow> (\<exists>u. update_with_microblocks block e = Done u \<and> upd_block u = block))"
proof -
  have found: "\<exists>ms. collect_results (find_microblock pool anchor) ids = Inr ms"
    if "\<forall>b \<in> set ids. get_microblock pool anchor b \<noteq> None" for ids
    by (rule collect_results_total) (use that in \<open>auto simp: find_microblock_def split: option.splits\<close>)
  have event: "\<exists>ev. microblocks_event pool anchor ids = Inr (Some ev) \<and>
      (\<forall>block. \<exists>u. update_with_microblocks block ev = Done u \<and> upd_block u = block)"
    if "\<forall>b \<in> set ids. get_microblock pool anchor b \<noteq> None" for ids
    using found [OF that] by (auto simp: microblocks_event_def stacks_block_update_new_def)
  show ?thesis
  proof (cases "\<exists>p. prev = Some p \<and> \<not> seg_is_empty p")
    case False
    with event [of "rev (block_ids seg)"] new show ?thesis
      by (auto simp: generate_microblock_chain_event_def split: option.splits)
  next
    case True
    then obtain p where p: "prev = Some p" "\<not> seg_is_empty p" by blast
    show ?thesis
    proof (cases "seg_eq seg p")
      case True
      with p show ?thesis by (simp add: generate_microblock_chain_event_def)
    next
      case False
      obtain d where d: "try_identify_divergence seg p True = Inr d"
        using try_identify_divergence_Inl_iff [of seg p True]
        by (cases "try_identify_divergence seg p True") auto
      note r = to_apply_in_range [OF d]
      from found [of "block_ids_to_rollback d"] found [of "block_ids_to_apply d"] r new prev p
      obtain rb ap where "collect_results (find_microblock pool anchor) (block_ids_to_rollback d) = Inr rb"
        "collect_results (find_microblock pool anchor) (block_ids_to_apply d) = Inr ap" by blast
      moreover have "\<forall>b \<in> set (take (length (block_ids_to_apply d)) (block_ids seg)).
          get_microblock pool anchor b \<noteq> None"
        using new in_set_takeD by fast
      from event [OF this] obtain ev where
        "microblocks_event pool anchor (take (length (block_ids_to_apply d)) (block_ids seg)) = Inr (Some ev)"
        "\<forall>block. \<exists>u. update_with_microblocks block ev = Done u \<and> upd_block u = block" by blast
      ultimately show ?thesis using p False d
        by (auto simp: generate_microblock_chain_event_def stacks_block_update_new_def)
    qed
  qed
qed

lemma micro_inv_frame [simp]:
  "micro_inv M (pool\<lparr>block_store := bs\<rparr>) = micro_inv M pool"
  "micro_inv M (pool\<lparr>sp_forks := fs\<rparr>) = micro_inv M pool"
  "micro_inv M (pool\<lparr>sp_orphans := os\<rparr>) = micro_inv M pool"
  "micro_inv M (pool\<lparr>sp_canonical_fork_id := i\<rparr>) = micro_inv M pool"
  "micro_inv M (pool\<lparr>highest_competing_fork_height_delta := d\<rparr>) = micro_inv M pool"
  "micro_inv M (pool\<lparr>micro_orphans := mos\<rparr>) = micro_inv M pool"
  by (simp_all add: micro_inv_def trail_ok_def)

lemma trail_ok_frame [simp]:
  "trail_ok M (pool\<lparr>micro_forks := mf\<rparr>) a seg = trail_ok M pool a seg"
  "trail_ok M (pool\<lparr>canonical_micro_fork_id := ci\<rparr>) a seg = trail_ok M pool a seg"
  "trail_ok M (pool\<lparr>micro_orphans := mos\<rparr>) a seg = trail_ok M pool a seg"
  by (simp_all add: trail_ok_def)

lemma confirm_loop_spec:
  assumes "confirm_loop a lm n i fs ids = (r, ids')"
  shows "(\<forall>x. x \<noteq> a \<longrightarrow> hm_get ids' x = hm_get ids x) \<and>
     (hm_get ids' a = hm_get ids a \<or> (\<exists>j. j < i + length fs \<and> hm_get ids' a = Some j)) \<and>
     (\<forall>seg k. r = Some (seg, k) \<longrightarrow> (k = n \<or> k < i + length fs) \<and> block_ids seg \<noteq> [] \<and>
        (\<exists>f \<in> set fs. set (block_ids seg) \<subseteq> set (block_ids f)))"
  using assms
proof (induction fs arbitrary: i ids)
  case (Cons f fs)
  show ?case
  proof (cases "list_ex (\<lambda>b. bid_eq b lm) (block_ids f)")
    case True
    obtain found m seg where kb: "keep_blocks_from_oldest_to_block_identifier f lm = ((found, m), seg)"
      by (metis prod.collapse)
    then have seg: "block_ids seg = dropWhile (\<lambda>x. \<not> bid_eq x lm) (block_ids f)"
      by (auto simp: seg_simps)
    have ne: "block_ids seg \<noteq> []" using True by (auto simp: list_ex_iff seg)
    have sub: "set (block_ids seg) \<subseteq> set (block_ids f)" unfolding seg using set_dropWhileD by fast
    from Cons.prems True kb have ids': "ids' = hm_insert a i ids"
      and r: "r = Some (seg, if m then n else i)"
      by (simp_all add: Let_def)
    from r ne sub show ?thesis unfolding ids' by auto
  next
    case False
    with Cons.prems have "confirm_loop a lm n (Suc i) fs (hm_insert a i ids) = (r, ids')" by simp
    from Cons.IH [OF this] show ?thesis by auto
  qed
qed simp

lemma trail_ok_subset:
  "trail_ok M pool a f \<Longrightarrow> set (block_ids seg) \<subseteq> set (block_ids f) \<Longrightarrow> block_ids seg \<noteq> [] \<Longrightarrow>
   trail_ok M pool a seg"
  by (auto simp: trail_ok_def)

text \<open>Confirming the microblocks of a block succeeds, changes the trails only and keeps their invariant.\<close>

definition confirmed_only :: "stacks_block_pool \<Rightarrow> stacks_block_pool \<Rightarrow> bool" where
  "confirmed_only pool pool' \<longleftrightarrow>
     (\<exists>mf ci. pool' = pool\<lparr>micro_forks := mf, canonical_micro_fork_id := ci\<rparr>)"

lemma confirmed_only_refl [simp]: "confirmed_only pool pool"
  unfolding confirmed_only_def
  by (intro exI [of _ "micro_forks pool"] exI [of _ "canonical_micro_fork_id pool"]) simp

lemma confirmed_only_trans:
  assumes "confirmed_only p q" "confirmed_only q r"
  shows "confirmed_only p r"
proof -
  from assms obtain mf ci mf' ci' where "q = p\<lparr>micro_forks := mf, canonical_micro_fork_id := ci\<rparr>"
    and "r = q\<lparr>micro_forks := mf', canonical_micro_fork_id := ci'\<rparr>"
    by (auto simp: confirmed_only_def)
  then show ?thesis unfolding confirmed_only_def by (intro exI [of _ mf'] exI [of _ ci']) simp
qed

lemma confirmed_only_fields:
  assumes "confirmed_only p q"
  shows "block_store q = block_store p" "sp_forks q = sp_forks p" "sp_orphans q = sp_orphans p"
    "sp_canonical_fork_id q = sp_canonical_fork_id p"
  using assms by (auto simp: confirmed_only_def)

lemma confirm_previous:
  assumes "micro_inv M pool" "hm_get (micro_forks pool) a = Some microforks"
  shows "\<exists>prev. (case hm_get (canonical_micro_fork_id pool) a of
        None \<Rightarrow> Done None
      | Some fork_id \<Rightarrow> bind_outcome (vec_index microforks fork_id) (\<lambda>segment. Done (Some segment))) = Done prev \<and>
     (\<forall>p. prev = Some p \<longrightarrow> trail_ok M pool a p)"
  using micro_inv_index [OF assms(1) _ assms(2)] micro_inv_trail [OF assms]
  by (auto simp: vec_index_def split: option.splits)

lemma micro_inv_confirm:
  assumes inv: "micro_inv M pool" and a: "hm_get (micro_forks pool) a = Some fs"
    and other: "\<forall>x. x \<noteq> a \<longrightarrow> hm_get ids x = hm_get (canonical_micro_fork_id pool) x"
    and here: "hm_get ids a = hm_get (canonical_micro_fork_id pool) a \<or> (\<exists>j. j < length fs \<and> hm_get ids a = Some j)"
  shows "micro_inv M (pool\<lparr>canonical_micro_fork_id := ids\<rparr>)"
    and "trail_ok M pool a seg \<Longrightarrow> k \<le> length fs \<Longrightarrow>
      micro_inv M (pool\<lparr>canonical_micro_fork_id := hm_insert a k ids,
                        micro_forks := hm_insert a (fs @ [seg]) (micro_forks pool)\<rparr>)"
proof -
  have idx: "\<exists>gs. hm_get (micro_forks pool) x = Some gs \<and> i < length gs" if "hm_get ids x = Some i" for x i
  proof (cases "x = a")
    case True
    with here that a micro_inv_index [OF inv _ a] show ?thesis by auto
  next
    case False
    with that other inv show ?thesis by (simp add: micro_inv_def)
  qed
  then show "micro_inv M (pool\<lparr>canonical_micro_fork_id := ids\<rparr>)" using inv by (simp add: micro_inv_def)
  show "micro_inv M (pool\<lparr>canonical_micro_fork_id := hm_insert a k ids,
                        micro_forks := hm_insert a (fs @ [seg]) (micro_forks pool)\<rparr>)"
    if seg: "trail_ok M pool a seg" "k \<le> length fs"
  proof -
    have tr: "trail_ok M pool x g" if "hm_get (hm_insert a (fs @ [seg]) (micro_forks pool)) x = Some gs" "g \<in> set gs" for x gs g
      using that seg(1) micro_inv_trail [OF inv] a by (auto split: if_splits)
    have "\<exists>gs. hm_get (hm_insert a (fs @ [seg]) (micro_forks pool)) x = Some gs \<and> i < length gs"
      if "hm_get (hm_insert a k ids) x = Some i" for x i
      using that idx seg(2) by (auto split: if_splits)
    with tr show ?thesis using micro_inv_store [OF inv] unfolding micro_inv_def by auto
  qed
qed

lemma confirm_microblocks_total:
  assumes inv: "micro_inv M pool"
  shows "\<exists>r pool'. confirm_microblocks_for_block pool block diff = Done (Inr r, pool') \<and>
     micro_inv M pool' \<and> confirmed_only pool pool' \<and>
     (\<forall>e b. fst r = Some e \<longrightarrow> (\<exists>u. update_with_microblocks b e = Done u \<and> upd_block u = b))"
proof -
  let ?p = "sb_parent_block_identifier block"
  show ?thesis
  proof (cases "confirm_microblock_identifier (sb_metadata block) = None \<or>
      hm_get (micro_forks pool) (bid_hash ?p) = None")
    case True
    with inv show ?thesis by (auto simp: confirm_microblocks_for_block_def Let_def split: option.splits)
  next
    case False
    then obtain lm fs where lm: "confirm_microblock_identifier (sb_metadata block) = Some lm"
      and fs: "hm_get (micro_forks pool) (bid_hash ?p) = Some fs" by auto
    from confirm_previous [OF inv fs] obtain prev where
      prev: "(case hm_get (canonical_micro_fork_id pool) (bid_hash ?p) of
        None \<Rightarrow> Done None
      | Some fork_id \<Rightarrow> bind_outcome (vec_index fs fork_id) (\<lambda>segment. Done (Some segment))) = Done prev"
      "\<forall>p. prev = Some p \<longrightarrow> trail_ok M pool (bid_hash ?p) p" by blast
    obtain r ids where cl: "confirm_loop (bid_hash ?p) lm (length fs) 0 fs (canonical_micro_fork_id pool) = (r, ids)"
      by fastforce
    note spec = confirm_loop_spec [OF cl, simplified]
    from spec have other: "\<forall>x. x \<noteq> bid_hash ?p \<longrightarrow> hm_get ids x = hm_get (canonical_micro_fork_id pool) x"
      and here: "hm_get ids (bid_hash ?p) = hm_get (canonical_micro_fork_id pool) (bid_hash ?p) \<or>
        (\<exists>j. j < length fs \<and> hm_get ids (bid_hash ?p) = Some j)" by auto
    note mi = micro_inv_confirm [OF inv fs other here]
    define pool1 where "pool1 = pool\<lparr>canonical_micro_fork_id := ids\<rparr>"
    have co: "confirmed_only pool (pool\<lparr>canonical_micro_fork_id := i, micro_forks := m\<rparr>)" for i m
      unfolding confirmed_only_def by (intro exI [of _ m] exI [of _ i]) simp
    have co1: "confirmed_only pool pool1"
      unfolding confirmed_only_def pool1_def by (intro exI [of _ "micro_forks pool"] exI [of _ ids]) simp
    show ?thesis
    proof (cases r)
      case None
      with lm fs prev(1) cl mi(1) co1 show ?thesis
        by (auto simp: confirm_microblocks_for_block_def pool1_def)
    next
      case (Some sk)
      obtain seg k where sk: "sk = (seg, k)" by (cases sk)
      with spec Some obtain f where f: "f \<in> set fs" "set (block_ids seg) \<subseteq> set (block_ids f)"
        and ne: "block_ids seg \<noteq> []" and k: "k \<le> length fs" by auto
      have seg: "trail_ok M pool (bid_hash ?p) seg"
        by (rule trail_ok_subset [OF micro_inv_trail [OF inv fs f(1)] f(2) ne])
      have "\<forall>b \<in> set (block_ids seg). get_microblock pool1 ?p b \<noteq> None"
        "\<forall>p. prev = Some p \<longrightarrow> (\<forall>b \<in> set (block_ids p). get_microblock pool1 ?p b \<noteq> None)"
        using seg prev(2) by (auto simp: pool1_def trail_ok_def)
      from generate_microblock_chain_event_total [OF this] obtain ev where
        ev: "generate_microblock_chain_event pool1 ?p seg prev = Inr ev"
        "\<forall>e block. ev = Some e \<longrightarrow> (\<exists>u. update_with_microblocks block e = Done u \<and> upd_block u = block)"
        by blast
      from mi(2) [OF seg k] co lm fs prev(1) cl Some sk ev show ?thesis
        by (cases diff) (auto simp: confirm_microblocks_for_block_def pool1_def Let_def)
    qed
  qed
qed

lemma get_confirmed_parent_microblocks_total:
  assumes "micro_inv M pool"
  shows "\<exists>ms. get_confirmed_parent_microblocks pool block = Done ms"
  using micro_inv_index [OF assms]
  by (auto simp: get_confirmed_parent_microblocks_def Let_def vec_index_def split: option.splits)

section \<open>Block updates\<close>

text \<open>
  Whatever the microblocks, an update carries the stored block, and building it changes the trails
  only.
\<close>

lemma update_total:
  assumes inv: "micro_inv M pool" and b: "get_block pool i = Some b"
  shows new_block_update_total: "\<exists>u pool'. new_block_update pool i = Done (Inr u, pool') \<and>
      upd_block u = b \<and> micro_inv M pool' \<and> confirmed_only pool pool'"
    and rollback_update_total: "\<exists>u pool'. rollback_update pool i = Done (Inr u, pool') \<and>
      upd_block u = b \<and> micro_inv M pool' \<and> confirmed_only pool pool'"
    and apply_update_total: "\<exists>u pool'. apply_update pool i = Done (Inr u, pool') \<and>
      upd_block u = b \<and> micro_inv M pool' \<and> confirmed_only pool pool'"
proof -
  have fb: "find_block pool i = Inr b" using b by (simp add: find_block_def)
  from confirm_microblocks_total [OF inv, of b True] obtain e ms pool' where
    "confirm_microblocks_for_block pool b True = Done (Inr (e, ms), pool')" "micro_inv M pool'"
    "confirmed_only pool pool'"
    "\<forall>x b. e = Some x \<longrightarrow> (\<exists>u. update_with_microblocks b x = Done u \<and> upd_block u = b)" by auto
  with fb show "\<exists>u pool'. new_block_update pool i = Done (Inr u, pool') \<and>
      upd_block u = b \<and> micro_inv M pool' \<and> confirmed_only pool pool'"
    by (cases e) (auto simp: new_block_update_def stacks_block_update_new_def bind_outcome_Done_iff)
  from get_confirmed_parent_microblocks_total [OF inv, of b] fb inv
  show "\<exists>u pool'. rollback_update pool i = Done (Inr u, pool') \<and>
      upd_block u = b \<and> micro_inv M pool' \<and> confirmed_only pool pool'"
    by (auto simp: rollback_update_def stacks_block_update_new_def)
  from confirm_microblocks_total [OF inv, of b False] obtain e ms pool' where
    "confirm_microblocks_for_block pool b False = Done (Inr (e, ms), pool')" "micro_inv M pool'"
    "confirmed_only pool pool'" by auto
  with fb show "\<exists>u pool'. apply_update pool i = Done (Inr u, pool') \<and>
      upd_block u = b \<and> micro_inv M pool' \<and> confirmed_only pool pool'"
    by (cases ms) (auto simp: apply_update_def stacks_block_update_new_def)
qed

lemma traverse_updates:
  assumes f: "\<And>pool i b. micro_inv M pool \<Longrightarrow> get_block pool i = Some b \<Longrightarrow>
      \<exists>u pool'. f pool i = Done (Inr u, pool') \<and> upd_block u = b \<and> micro_inv M pool' \<and> confirmed_only pool pool'"
    and inv: "micro_inv M pool" and ids: "\<forall>i \<in> set ids. get_block pool i \<noteq> None"
  shows "\<exists>us pool'. traverse f pool ids = Done (Inr us, pool') \<and>
     map Some (map upd_block us) = map (get_block pool) ids \<and> micro_inv M pool' \<and> confirmed_only pool pool'"
  using inv ids
proof (induction ids arbitrary: pool)
  case (Cons i ids)
  then obtain b where b: "get_block pool i = Some b" by auto
  from f [OF Cons.prems(1) b] obtain u pool1 where
    u: "f pool i = Done (Inr u, pool1)" "upd_block u = b" "micro_inv M pool1" "confirmed_only pool pool1"
    by blast
  have st: "block_store pool1 = block_store pool" by (rule confirmed_only_fields [OF u(4)])
  from Cons.IH [OF u(3)] Cons.prems(2) st obtain us pool' where
    "traverse f pool1 ids = Done (Inr us, pool')" "map Some (map upd_block us) = map (get_block pool) ids"
    "micro_inv M pool'" "confirmed_only pool1 pool'" by auto
  with u b confirmed_only_trans show ?case by (intro exI [of _ "u # us"]) auto
qed simp

lemma traverse_total:
  assumes "micro_inv M pool" and "\<forall>i \<in> set ids. get_block pool i \<noteq> None"
  shows traverse_new: "\<exists>us pool'. traverse new_block_update pool ids = Done (Inr us, pool') \<and>
      map Some (map upd_block us) = map (get_block pool) ids \<and> micro_inv M pool' \<and> confirmed_only pool pool'"
    and traverse_rollback: "\<exists>us pool'. traverse rollback_update pool ids = Done (Inr us, pool') \<and>
      map Some (map upd_block us) = map (get_block pool) ids \<and> micro_inv M pool' \<and> confirmed_only pool pool'"
    and traverse_apply: "\<exists>us pool'. traverse apply_update pool ids = Done (Inr us, pool') \<and>
      map Some (map upd_block us) = map (get_block pool) ids \<and> micro_inv M pool' \<and> confirmed_only pool pool'"
    by (rule traverse_updates [OF _ assms], erule (1) update_total)+

end
