(* ===== verification/Stacks_Pool_Correct.thy ===== *)
theory Stacks_Pool_Correct
  imports Stacks_Pool_Invariants
begin

text \<open>
  The Stacks pool as a whole: its invariant, that processing blocks and microblocks keeps it and
  returns, and that a consumer of the block events holds the canonical fork.
\<close>

section \<open>The hash-based block store\<close>

text \<open>
  The store is keyed by hash; \<open>sp_lookup\<close> is the part of it that answers whole identifiers. The two
  agree on the blocks of the world and on their parents.
\<close>

definition sp_lookup :: "stacks_block_pool \<Rightarrow> block_identifier \<Rightarrow> block_header option" where
  "sp_lookup pool b =
     (case get_block pool b of
        Some block \<Rightarrow> if sb_block_identifier block = b then Some (sb_get_header block) else None
      | None \<Rightarrow> None)"

definition store_inv :: "block_header list \<Rightarrow> stacks_block_pool \<Rightarrow> bool" where
  "store_inv H pool \<longleftrightarrow>
     (\<forall>k b. hm_get (block_store pool) k = Some b \<longrightarrow>
        bid_hash (sb_block_identifier b) = k \<and> sb_get_header b \<in> set H)"

abbreviation raw_lookup :: "stacks_block_pool \<Rightarrow> block_identifier \<Rightarrow> block_header option" where
  "raw_lookup pool \<equiv> \<lambda>i. map_option sb_get_header (get_block pool i)"

lemma sp_lookup_Some_iff:
  "sp_lookup pool b = Some h \<longleftrightarrow>
     (\<exists>block. get_block pool b = Some block \<and> sb_block_identifier block = b \<and> h = sb_get_header block)"
  by (auto simp: sp_lookup_def split: option.splits)

lemma sp_lookup_cong: "block_store q = block_store p \<Longrightarrow> sp_lookup q = sp_lookup p"
  by (rule ext) (simp add: sp_lookup_def)

lemma store_inv_ok: "store_inv H pool \<Longrightarrow> store_ok H (sp_lookup pool)"
  by (auto simp: store_inv_def store_ok_def sp_lookup_Some_iff)

lemma raw_lookup_eq:
  assumes wf: "wf_headers H" and inv: "store_inv H pool"
    and b: "(\<exists>h \<in> set H. b = block_identifier h) \<or> (\<exists>h \<in> set H. b = parent_block_identifier h)"
  shows "raw_lookup pool b = sp_lookup pool b"
proof (cases "get_block pool b")
  case (Some block)
  with inv have block: "bid_hash (sb_block_identifier block) = bid_hash b" "sb_get_header block \<in> set H"
    by (auto simp: store_inv_def)
  from b have "sb_block_identifier block = b"
  proof
    assume "\<exists>h \<in> set H. b = block_identifier h"
    then obtain h where "h \<in> set H" "b = block_identifier h" by blast
    with wf_headers_unique [OF wf block(2), of h] block(1) show ?thesis by (auto simp: bid_eq_def)
  next
    assume "\<exists>h \<in> set H. b = parent_block_identifier h"
    then obtain h where "h \<in> set H" "b = parent_block_identifier h" by blast
    with wf_headers_parent [OF wf _ block(2), of h] block(1) show ?thesis by (auto simp: bid_eq_def)
  qed
  with Some show ?thesis by (simp add: sp_lookup_def)
qed (simp add: sp_lookup_def)

lemma sp_lookup_insert_new:
  assumes "get_block pool (sb_block_identifier block) = None"
  shows "sp_lookup (pool\<lparr>block_store := hm_insert (bid_hash (sb_block_identifier block)) block (block_store pool)\<rparr>) =
     (sp_lookup pool)(sb_block_identifier block \<mapsto> sb_get_header block)"
  using assms by (auto simp: sp_lookup_def split: option.splits)

lemma sp_lookup_insert_seen:
  assumes wf: "wf_headers H" and inv: "store_inv H pool" and h: "sb_get_header block \<in> set H"
    and seen: "get_block pool (sb_block_identifier block) = Some old"
  shows "sp_lookup (pool\<lparr>block_store := hm_insert (bid_hash (sb_block_identifier block)) block (block_store pool)\<rparr>) =
     sp_lookup pool"
proof -
  have old: "bid_hash (sb_block_identifier old) = bid_hash (sb_block_identifier block)" "sb_get_header old \<in> set H"
    using inv seen by (auto simp: store_inv_def)
  have eq: "sb_get_header old = sb_get_header block"
    by (rule wf_headers_unique [OF wf old(2) h]) (simp add: bid_eq_def old(1))
  then have "sb_block_identifier old = sb_block_identifier block"
    by (metis block_identifier_sb_get_header(1))
  with eq seen show ?thesis by (auto simp: sp_lookup_def split: option.splits)
qed

lemma store_inv_insert:
  "store_inv H pool \<Longrightarrow> sb_get_header block \<in> set H \<Longrightarrow>
   store_inv H (pool\<lparr>block_store := hm_insert (bid_hash (sb_block_identifier block)) block (block_store pool)\<rparr>)"
  by (auto simp: store_inv_def)

text \<open>The generic steps only look at the orphans and at the ancestors of the tip.\<close>

lemma orphan_pass_cong:
  "\<forall>x \<in> set os. L x = L' x \<Longrightarrow> orphan_pass L key os seg applied p = orphan_pass L' key os seg applied p"
  by (induction os arbitrary: seg applied p) (simp_all split: option.splits prod.splits)

lemma orphan_loop_cong:
  assumes "\<forall>x \<in> set os. L x = L' x"
  shows "orphan_loop L key os seg applied = orphan_loop L' key os seg applied"
  using assms
proof (induction L key os seg applied rule: orphan_loop.induct)
  case (1 L key os seg applied)
  obtain s1 ap1 pr where pass: "orphan_pass L key os seg applied False = (s1, ap1, pr)"
    by (metis prod_cases3)
  with orphan_pass_cong [OF "1.prems"] have pass': "orphan_pass L' key os seg applied False = (s1, ap1, pr)"
    by metis
  from pass pass' "1.IH" [OF pass [symmetric] refl] "1.prems" show ?case
    by (simp add: orphan_loop.simps [of _ key os seg applied])
qed

lemma process_orphans_cong:
  "\<forall>x \<in> set os. L x = L' x \<Longrightarrow> process_orphans L key os k fs = process_orphans L' key os k fs"
  by (auto simp: process_orphans_def orphan_loop_cong [of os L L'] split: option.splits)

lemma ancestor_loop_cong:
  assumes wf: "wf_headers H" and so: "store_ok H L" and p: "\<forall>h \<in> set H. L' (parent_block_identifier h) = L (parent_block_identifier h)"
    and b: "L' b = L b"
  shows "ancestor_loop L' b acc = ancestor_loop L b acc"
  using b
proof (induction "unat (bid_index b)" arbitrary: b acc rule: less_induct)
  case less
  show ?case
  proof (cases "L b")
    case None
    with less.prems show ?thesis by (simp add: ancestor_loop.simps)
  next
    case (Some h)
    with so have h: "h \<in> set H" "block_identifier h = b" by (auto simp: store_ok_def)
    then have "bid_index (parent_block_identifier h) < bid_index b" using wf_headers_height [OF wf] by blast
    then have "unat (bid_index (parent_block_identifier h)) < unat (bid_index b)" by (simp add: word_less_nat_alt)
    from less.hyps [OF this] p h(1) Some less.prems show ?thesis
      by (simp add: ancestor_loop.simps [of L b] ancestor_loop.simps [of L' b])
  qed
qed

section \<open>The invariant\<close>

definition pool_inv ::
  "block_header list \<Rightarrow> stacks_microblock_data list \<Rightarrow> stacks_block_pool \<Rightarrow> bool" where
  "pool_inv H M pool \<longleftrightarrow>
     forks_inv H (sp_lookup pool) (sp_forks pool) (sp_orphans pool) (sp_canonical_fork_id pool) \<and>
     store_inv H pool \<and> micro_inv M pool"

lemma stacks_block_pool_new_inv: "pool_inv H M stacks_block_pool_new"
  by (simp add: pool_inv_def forks_inv_def stacks_block_pool_new_def chain_segment_new_def chains_ok_def
      store_ok_def chains_def bt_wf_def sp_lookup_def store_inv_def micro_inv_def trail_ok_def)

definition pool_placed ::
  "bool \<Rightarrow> block_header list \<Rightarrow> stacks_microblock_data list \<Rightarrow> stacks_block_pool \<Rightarrow>
   block_identifier list \<Rightarrow> bool" where
  "pool_placed q H M pool p \<longleftrightarrow>
     forks_placed q H (sp_lookup pool) (sp_forks pool) (sp_orphans pool) p \<and>
     bt_get (sp_forks pool) (sp_canonical_fork_id pool) \<noteq> None \<and> store_inv H pool \<and> micro_inv M pool"

lemma append_to_forks_keys:
  assumes "append_to_forks next_id b fs = Some (k, fs')" "bt_wf fs" "bt_get fs i \<noteq> None"
  shows "bt_get fs' i \<noteq> None"
proof -
  obtain j f g where "fst ` set fs \<subseteq> fst ` set fs'" and "grown b f g"
    and "block_ids f = [] \<longrightarrow> k = j"
    by (rule append_to_forks_SomeE [OF assms(1,2)])
  moreover have "i \<in> fst ` set fs" using assms(3) by (simp only: bt_get_key simp_thms)
  ultimately have "i \<in> fst ` set fs'" by (rule_tac subsetD)
  then show ?thesis by (simp only: bt_get_key simp_thms)
qed

lemma process_orphans_keys:
  "process_orphans L key os k fs = (fs', applied) \<Longrightarrow> bt_get fs i \<noteq> None \<Longrightarrow> bt_get fs' i \<noteq> None"
  by (auto simp: process_orphans_def bt_get_insert split: option.splits prod.splits)

lemma store_inv_frame [simp]:
  "store_inv H (pool\<lparr>sp_forks := fs\<rparr>) = store_inv H pool"
  "store_inv H (pool\<lparr>sp_orphans := os\<rparr>) = store_inv H pool"
  "store_inv H (pool\<lparr>sp_canonical_fork_id := i\<rparr>) = store_inv H pool"
  "store_inv H (pool\<lparr>highest_competing_fork_height_delta := d\<rparr>) = store_inv H pool"
  by (simp_all add: store_inv_def)

lemma sp_lookup_frame [simp]:
  "sp_lookup (pool\<lparr>sp_forks := fs\<rparr>) = sp_lookup pool"
  "sp_lookup (pool\<lparr>sp_orphans := os\<rparr>) = sp_lookup pool"
  "sp_lookup (pool\<lparr>sp_canonical_fork_id := i\<rparr>) = sp_lookup pool"
  "sp_lookup (pool\<lparr>highest_competing_fork_height_delta := d\<rparr>) = sp_lookup pool"
  by (rule sp_lookup_cong, simp)+

section \<open>Placing a block\<close>

lemma place_block_inv:
  assumes wf: "wf_headers H" and h: "sb_get_header block \<in> set H" and inv: "pool_inv H M pool"
    and conn: "q \<longrightarrow> forks_connected (sp_forks pool)"
    and pb: "place_block pool block = (res, pool')"
  shows "sp_canonical_fork_id pool' = sp_canonical_fork_id pool \<and>
     (case res of
        Inl e \<Rightarrow> False
      | Inr None \<Rightarrow> pool_inv H M pool' \<and> sp_forks pool' = sp_forks pool
      | Inr (Some prev) \<Rightarrow> bt_get (sp_forks pool) (sp_canonical_fork_id pool) = Some prev \<and>
          pool_placed q H M pool' (block_ids prev))"
proof -
  let ?b = "sb_block_identifier block"
  define pool1 where "pool1 = pool\<lparr>block_store := hm_insert (bid_hash ?b) block (block_store pool)\<rparr>"
  have fi: "forks_inv H (sp_lookup pool) (sp_forks pool) (sp_orphans pool) (sp_canonical_fork_id pool)"
    and si: "store_inv H pool" and mi: "micro_inv M pool"
    using inv by (auto simp: pool_inv_def)
  have si1: "store_inv H pool1" and mi1: "micro_inv M pool1"
    using store_inv_insert [OF si h] mi by (auto simp: pool1_def)
  show ?thesis
  proof (cases "get_block pool ?b")
    case (Some old)
    then have "sp_lookup pool1 = sp_lookup pool"
      using sp_lookup_insert_seen [OF wf si h] by (simp add: pool1_def)
    with Some pb fi si1 mi1 show ?thesis
      by (auto simp: place_block_def Let_def pool_inv_def pool1_def)
  next
    case None
    then have L1: "sp_lookup pool1 = (sp_lookup pool)(?b \<mapsto> sb_get_header block)"
      using sp_lookup_insert_new by (simp add: pool1_def)
    have new: "sp_lookup pool (block_identifier (sb_get_header block)) = None"
      using None by (simp add: sp_lookup_def)
    from fi obtain prev where prev: "bt_get (sp_forks pool) (sp_canonical_fork_id pool) = Some prev"
      by (auto simp: forks_inv_def)
    show ?thesis
    proof (cases "append_to_forks next_fork_id (sb_get_header block) (sp_forks pool)")
      case none: None
      have "forks_inv H (sp_lookup pool1) (sp_forks pool) (bs_insert ?b (sp_orphans pool)) (sp_canonical_fork_id pool)"
        using inbox_orphan [OF h fi new] L1 by simp
      with none None pb prev si1 mi1 show ?thesis
        by (auto simp: place_block_def Let_def pool_inv_def pool1_def)
    next
      case (Some r)
      obtain k fs1 where r: "r = (k, fs1)" by (cases r)
      have raw: "\<forall>x \<in> set (sp_orphans pool). raw_lookup pool1 x = sp_lookup pool1 x"
      proof
        fix x assume "x \<in> set (sp_orphans pool)"
        then obtain h' where "sp_lookup pool x = Some h'" using fi by (auto simp: forks_inv_def)
        then have "h' \<in> set H" "x = block_identifier h'"
          using store_inv_ok [OF si] by (auto simp: store_ok_def)
        with raw_lookup_eq [OF wf si1] show "raw_lookup pool1 x = sp_lookup pool1 x" by blast
      qed
      obtain fs2 applied where po:
        "process_orphans (raw_lookup pool1) bid_hash (sp_orphans pool) k fs1 = (fs2, applied)" by fastforce
      then have po': "process_orphans ((sp_lookup pool)(block_identifier (sb_get_header block) \<mapsto> sb_get_header block))
          bid_hash (sp_orphans pool) k fs1 = (fs2, applied)"
        unfolding process_orphans_cong [OF raw] L1 by (simp only: block_identifier_sb_get_header)
      have "forks_placed q H (sp_lookup pool1) fs2 (fold bs_remove applied (sp_orphans pool)) (block_ids prev)"
        using place_forks [OF wf h fi conn new prev Some [unfolded r] po'] L1 by simp
      moreover have "bt_get fs2 (sp_canonical_fork_id pool) \<noteq> None"
        using process_orphans_keys [OF po append_to_forks_keys [OF Some [unfolded r]]] fi
        by (auto simp: forks_inv_def)
      ultimately show ?thesis using None pb prev Some r po si1 mi1
        by (auto simp: place_block_def Let_def pool_placed_def pool1_def)
    qed
  qed
qed

section \<open>Generating the event\<close>

text \<open>The headers a consumer of blocks sees in an event.\<close>

fun event_headers :: "stacks_chain_event \<Rightarrow> blockchain_event option" where
  "event_headers (ChainUpdatedWithBlocks e) =
     Some (BlockchainUpdatedWithHeaders
       \<lparr>new_headers = map (\<lambda>u. sb_get_header (upd_block u)) (new_blocks e),
        confirmed_headers = map sb_get_header (new_confirmed_blocks e)\<rparr>)"
| "event_headers (ChainUpdatedWithReorg e) =
     Some (BlockchainUpdatedWithReorg
       \<lparr>headers_to_rollback = map (\<lambda>u. sb_get_header (upd_block u)) (blocks_to_rollback e),
        headers_to_apply = map (\<lambda>u. sb_get_header (upd_block u)) (blocks_to_apply e),
        reorg_confirmed_headers = map sb_get_header (reorg_confirmed_blocks e)\<rparr>)"
| "event_headers _ = None"

definition sp_consume ::
  "stacks_chain_event option \<Rightarrow> block_identifier list \<Rightarrow> block_identifier list option" where
  "sp_consume ev held = (case ev of None \<Rightarrow> Some held | Some e \<Rightarrow> consume (event_headers e) held)"

lemma sp_consume_simps [simp]:
  "sp_consume None held = Some held"
  "sp_consume (Some (ChainUpdatedWithBlocks e)) held =
     push_all (map (\<lambda>u. sb_get_header (upd_block u)) (new_blocks e)) held"
  "sp_consume (Some (ChainUpdatedWithReorg r)) held =
     (case pop_all (map (\<lambda>u. sb_get_header (upd_block u)) (blocks_to_rollback r)) held of
        None \<Rightarrow> None
      | Some held' \<Rightarrow> push_all (map (\<lambda>u. sb_get_header (upd_block u)) (blocks_to_apply r)) held')"
  by (simp_all add: sp_consume_def split: option.split)

lemma sp_consume_set_confirmed [simp]:
  "sp_consume (Some (sp_set_confirmed e bs)) held = sp_consume (Some e) held"
  by (cases e) (simp_all add: sp_consume_def split: option.split)

text \<open>Blocks fetched by hash are the blocks the strict lookup knows.\<close>

lemma fetched_headers:
  assumes "map Some blocks = map (get_block pool) ids" "\<forall>b \<in> set ids. sp_lookup pool b \<noteq> None"
  shows "map (sp_lookup pool) ids = map Some (map sb_get_header blocks)"
  using assms
proof (induction ids arbitrary: blocks)
  case (Cons i ids)
  then obtain b bs where "blocks = b # bs" "get_block pool i = Some b" "map Some bs = map (get_block pool) ids"
    by (cases blocks) auto
  with Cons show ?case by (auto simp: sp_lookup_def split: if_splits)
qed simp

lemma sp_lookup_get_block: "sp_lookup pool b \<noteq> None \<Longrightarrow> get_block pool b \<noteq> None"
  by (auto simp: sp_lookup_def split: option.splits)

text \<open>An event that applies the blocks \<open>ids\<close> on top of \<open>below\<close>.\<close>

lemma applied_blocks:
  assumes so: "store_ok H (sp_lookup pool)" and lk: "linked (sp_lookup pool) (rev ids @ below)"
    and us: "map Some (map upd_block us) = map (get_block pool) ids"
  shows "\<forall>older. (below = [] \<longrightarrow> older = []) \<longrightarrow>
      push_all (map (\<lambda>u. sb_get_header (upd_block u)) us) (below @ older) = Some (rev ids @ below @ older)"
    and "us \<noteq> [] \<Longrightarrow> sb_block_identifier (upd_block (last us)) = hd (rev ids @ below)"
proof -
  have in_store: "\<forall>b \<in> set ids. sp_lookup pool b \<noteq> None" using linked_in_store [OF lk] by simp
  note hs = fetched_headers [OF us in_store]
  have eq: "map (\<lambda>u. sb_get_header (upd_block u)) us = map sb_get_header (map upd_block us)" by simp
  show "\<forall>older. (below = [] \<longrightarrow> older = []) \<longrightarrow>
      push_all (map (\<lambda>u. sb_get_header (upd_block u)) us) (below @ older) = Some (rev ids @ below @ older)"
    unfolding eq using push_all_linked [OF so hs lk] by blast
  show "sb_block_identifier (upd_block (last us)) = hd (rev ids @ below)" if "us \<noteq> []"
    using last_stored [OF so hs, of below] that by (simp add: last_map)
qed

lemma blocks_event_correct:
  assumes so: "store_ok H (sp_lookup pool)" and lk: "linked (sp_lookup pool) (rev ids @ below)"
    and mi: "micro_inv M pool"
  shows "\<exists>ev pool'. blocks_event pool ids = Done (Inr ev, pool') \<and> micro_inv M pool' \<and> confirmed_only pool pool' \<and>
     (\<forall>older. (below = [] \<longrightarrow> older = []) \<longrightarrow> sp_consume (Some ev) (below @ older) = Some (rev ids @ below @ older)) \<and>
     (\<forall>t bs. sp_event_tip ev = Some (t, bs) \<longrightarrow> t = hd (rev ids @ below))"
proof -
  have "\<forall>i \<in> set ids. get_block pool i \<noteq> None"
    using linked_in_store [OF lk] sp_lookup_get_block by (metis in_set_conv_decomp set_rev Un_iff set_append)
  from traverse_new [OF mi this] obtain us pool' where
    us: "traverse new_block_update pool ids = Done (Inr us, pool')"
      "map Some (map upd_block us) = map (get_block pool) ids" "micro_inv M pool'" "confirmed_only pool pool'"
    by blast
  with applied_blocks [OF so lk us(2)] show ?thesis
    by (auto simp: blocks_event_def last_opt_def split: if_splits)
qed

text \<open>
  The event between two chains of the store. It is missing only when the chains share no block;
  otherwise a consumer of the old chain reaches the new one.
\<close>

lemma sp_generate_total:
  assumes so: "store_ok H (sp_lookup pool)" and mi: "micro_inv M pool"
    and lk: "linked (sp_lookup pool) (block_ids seg)" "linked (sp_lookup pool) (block_ids prev)"
    and coh: "coherent (block_ids seg) (block_ids prev)" and ne: "block_ids seg \<noteq> []"
  shows "\<exists>r pool'. sp_generate_block_chain_event pool seg prev = Done (r, pool') \<and>
     micro_inv M pool' \<and> confirmed_only pool pool' \<and>
     (case r of
        Inl e \<Rightarrow> e = ParentBlockUnknown \<and> \<not> connected (block_ids seg) (block_ids prev)
      | Inr ev \<Rightarrow>
          (\<forall>older. (block_ids prev = [] \<longrightarrow> older = []) \<longrightarrow>
             sp_consume (Some ev) (block_ids prev @ older) = Some (block_ids seg @ older)) \<and>
          (\<forall>t bs. sp_event_tip ev = Some (t, bs) \<longrightarrow> t = hd (block_ids seg)))"
proof (cases "block_ids prev = []")
  case True
  with blocks_event_correct [OF so _ mi, of "rev (block_ids seg)" "[]"] lk(1) show ?thesis
    by (fastforce simp: sp_generate_block_chain_event_def seg_is_empty_def)
next
  case False
  show ?thesis
  proof (cases "try_identify_divergence seg prev False")
    case (Inl e)
    then have "\<not> connected (block_ids seg) (block_ids prev)"
      using try_identify_divergence_Inl_iff [of seg prev False e] ne False
      by (auto simp: connected_def list_ex_iff)
    with Inl False mi show ?thesis
      by (auto simp: sp_generate_block_chain_event_def seg_is_empty_def)
  next
    case (Inr d)
    then obtain r r' rest rest' where
      s: "block_ids seg = rev (block_ids_to_apply d) @ r # rest"
        "block_ids prev = block_ids_to_rollback d @ r' # rest'" "bid_eq r r'"
      by (rule try_identify_divergence_rootE)
    from coherentD [OF coh s] have r: "r' # rest' = r # rest" by simp
    let ?ap = "block_ids_to_apply d" and ?rb = "block_ids_to_rollback d"
    have lka: "linked (sp_lookup pool) (rev ?ap @ r # rest)" using lk(1) s(1) by simp
    show ?thesis
    proof (cases "?rb = []")
      case True
      have gen: "sp_generate_block_chain_event pool seg prev = blocks_event pool ?ap"
        using False Inr True by (simp add: sp_generate_block_chain_event_def seg_is_empty_def)
      from blocks_event_correct [OF so lka mi] s r True show ?thesis unfolding gen by fastforce
    next
      case rb: False
      have in_rb: "\<forall>i \<in> set ?rb. sp_lookup pool i \<noteq> None" and in_ap: "\<forall>i \<in> set ?ap. sp_lookup pool i \<noteq> None"
        using linked_in_store [OF lk(2)] linked_in_store [OF lka] s(2) by simp_all
      then have found: "\<forall>i \<in> set ?rb. get_block pool i \<noteq> None" "\<forall>i \<in> set ?ap. get_block pool i \<noteq> None"
        using sp_lookup_get_block by blast+
      from traverse_rollback [OF mi found(1)] obtain rus pool1 where
        rus: "traverse rollback_update pool ?rb = Done (Inr rus, pool1)"
          "map Some (map upd_block rus) = map (get_block pool) ?rb" "micro_inv M pool1" "confirmed_only pool pool1"
        by blast
      have st1: "block_store pool1 = block_store pool" by (rule confirmed_only_fields [OF rus(4)])
      from traverse_apply [OF rus(3)] found(2) st1 obtain aus pool2 where
        aus: "traverse apply_update pool1 ?ap = Done (Inr aus, pool2)"
          "map Some (map upd_block aus) = map (get_block pool) ?ap" "micro_inv M pool2" "confirmed_only pool1 pool2"
        by metis
      have gen: "sp_generate_block_chain_event pool seg prev =
          Done (Inr (ChainUpdatedWithReorg \<lparr>blocks_to_rollback = rus, blocks_to_apply = aus,
                       reorg_confirmed_blocks = []\<rparr>), pool2)"
        using False Inr rb rus(1) aus(1) by (simp add: sp_generate_block_chain_event_def seg_is_empty_def)
      have "map block_identifier (map sb_get_header (map upd_block rus)) = ?rb"
        by (rule stored_identifiers [OF so fetched_headers [OF rus(2) in_rb]])
      then have rids: "map block_identifier (map (\<lambda>u. sb_get_header (upd_block u)) rus) = ?rb"
        by (simp add: comp_def)
      have pop: "pop_all (map (\<lambda>u. sb_get_header (upd_block u)) rus) (block_ids prev @ older) = Some ((r # rest) @ older)"
        for older
        using pop_all_ids [OF rids, of "(r # rest) @ older"] s(2) r by simp
      note ap = applied_blocks [OF so lka aus(2)]
      have "micro_inv M pool2 \<and> confirmed_only pool pool2"
        using aus rus confirmed_only_trans by blast
      moreover have "sp_consume (Some (ChainUpdatedWithReorg \<lparr>blocks_to_rollback = rus, blocks_to_apply = aus,
                       reorg_confirmed_blocks = []\<rparr>)) (block_ids prev @ older) = Some (block_ids seg @ older)" for older
        using pop [of older] ap(1) s(1) by simp
      ultimately show ?thesis using gen ap(2) s(1)
        by (auto simp: last_opt_def split: if_splits)
    qed
  qed
qed

section \<open>Confirming and pruning\<close>

lemma sp_take_confirmed_all:
  assumes "distinct (map bid_hash bs)" "\<And>b. b \<in> set bs \<Longrightarrow> hm_get store (bid_hash b) \<noteq> None"
  shows "\<exists>cs. sp_take_confirmed bs store acc = (True, fold hm_remove (map bid_hash bs) store, acc @ cs) \<and>
     map Some cs = map (\<lambda>b. hm_get store (bid_hash b)) bs"
  using assms
proof (induction bs arbitrary: store acc)
  case (Cons b bs)
  then obtain c where c: "hm_get store (bid_hash b) = Some c" by fastforce
  have "hm_get (hm_remove (bid_hash b) store) (bid_hash x) \<noteq> None" if "x \<in> set bs" for x
  proof -
    have "bid_hash x \<noteq> bid_hash b" using Cons.prems(1) that by (auto simp: image_iff)
    with Cons.prems(2) [of x] that show ?thesis by simp
  qed
  with Cons.IH [of "hm_remove (bid_hash b) store" "acc @ [c]"] Cons.prems(1) obtain cs where
    *: "sp_take_confirmed bs (hm_remove (bid_hash b) store) (acc @ [c]) =
         (True, fold hm_remove (map bid_hash bs) (hm_remove (bid_hash b) store), (acc @ [c]) @ cs)"
    "map Some cs = map (\<lambda>x. hm_get (hm_remove (bid_hash b) store) (bid_hash x)) bs"
    by auto
  have "map (\<lambda>x. hm_get (hm_remove (bid_hash b) store) (bid_hash x)) bs = map (\<lambda>x. hm_get store (bid_hash x)) bs"
    using Cons.prems(1) by (intro map_cong refl) (auto simp: image_iff)
  with * c show ?case by (intro exI [of _ "c # cs"]) simp
qed simp

text \<open>Removing stored blocks by hash removes exactly these blocks.\<close>

lemma sp_lookup_remove:
  assumes wf: "wf_headers H" and inv: "store_inv H pool" and xs: "\<forall>x \<in> set xs. sp_lookup pool x \<noteq> None"
    and st: "block_store pool' = fold hm_remove (map bid_hash xs) (block_store pool)"
  shows "sp_lookup pool' b = (if b \<in> set xs then None else sp_lookup pool b)" and "store_inv H pool'"
proof -
  have get: "get_block pool' b = (if bid_hash b \<in> bid_hash ` set xs then None else get_block pool b)" for b
    by (simp add: st hm_get_fold_remove)
  show "sp_lookup pool' b = (if b \<in> set xs then None else sp_lookup pool b)"
  proof (cases "sp_lookup pool b")
    case None
    then show ?thesis by (auto simp: sp_lookup_def get split: option.splits if_splits)
  next
    case (Some h)
    have "b \<in> set xs" if "bid_hash b \<in> bid_hash ` set xs"
    proof -
      from that obtain x where x: "x \<in> set xs" "bid_eq b x" by (auto simp: bid_eq_def)
      with store_ok_bid_eq [OF wf store_inv_ok [OF inv], of b x] xs Some show ?thesis by auto
    qed
    with Some show ?thesis by (auto simp: sp_lookup_def get split: option.splits if_splits)
  qed
  show "store_inv H pool'"
    using inv by (auto simp: store_inv_def st hm_get_fold_remove split: if_splits)
qed

lemma micro_inv_prune:
  assumes "micro_inv M pool"
  shows "micro_inv M (pool\<lparr>micro_forks := fold hm_remove ks (micro_forks pool),
     canonical_micro_fork_id := fold hm_remove ks (canonical_micro_fork_id pool)\<rparr>)"
  using assms unfolding micro_inv_def by (auto simp: hm_get_fold_remove)

lemma sp_collect_and_prune_inv:
  assumes wf: "wf_headers H" and pl: "forks_placed q H (sp_lookup pool) (sp_forks pool) (sp_orphans pool) p"
    and si: "store_inv H pool" and mi: "micro_inv M pool"
    and canon: "bt_get (sp_forks pool) (sp_canonical_fork_id pool) = Some seg"
    and tip: "\<forall>t bs. sp_event_tip ev = Some (t, bs) \<longrightarrow> t = hd (block_ids seg)"
  shows "\<exists>ev' pool'. sp_collect_and_prune_confirmed_blocks pool ev = Done (ev', pool') \<and>
     pool_inv H M pool' \<and> (\<exists>bs. ev' = ev \<or> ev' = sp_set_confirmed ev bs) \<and>
     sp_canonical_fork_id pool' = sp_canonical_fork_id pool \<and>
     (\<exists>seg'. bt_get (sp_forks pool') (sp_canonical_fork_id pool) = Some seg' \<and>
        block_ids seg' \<noteq> [] \<and> prefix (block_ids seg') (block_ids seg))"
proof -
  let ?L = "sp_lookup pool" and ?t = "hd (block_ids seg)"
  have inv: "forks_inv H ?L (sp_forks pool) (sp_orphans pool) (sp_canonical_fork_id pool)"
    using forks_placed_inv pl canon by simp
  have nC: "[] \<notin> chains (sp_forks pool)" using pl by (simp add: forks_placed_def)
  have segC: "block_ids seg \<in> chains (sp_forks pool)"
    using canon chains_get inv by (auto simp: forks_inv_def)
  with nC have ne: "block_ids seg \<noteq> []" by auto
  have so: "store_ok H ?L" by (rule store_inv_ok [OF si])
  have keep: "pool_inv H M pool" using inv si mi by (simp add: pool_inv_def)
  show ?thesis
  proof (cases "sp_event_tip ev")
    case None
    with keep canon ne show ?thesis by (auto simp: sp_collect_and_prune_confirmed_blocks_def)
  next
    case (Some tc)
    then obtain conf where et: "sp_event_tip ev = Some (?t, conf)" using tip by (cases tc) auto
    have Lt: "?L ?t \<noteq> None"
      using inv segC ne linked_in_store by (fastforce simp: forks_inv_def chains_ok_def)
    then have "\<exists>h \<in> set H. ?t = block_identifier h" using so unfolding store_ok_def by (metis not_Some_eq)
    then have "ancestor_loop (raw_lookup pool) ?t [] = ancestor_loop ?L ?t []"
      using raw_lookup_eq [OF wf si] by (intro ancestor_loop_cong [OF wf so]) blast+
    with ancestor_loop_total [OF wf so, of ?t "[]"] Lt obtain as where
      as: "ancestor_loop (raw_lookup pool) ?t [] = Some as" "sorted_wrt (\<lambda>x y. bid_index y < bid_index x) as"
        "\<forall>x \<in> set as. ?L x \<noteq> None" "\<forall>x \<in> set as. bid_index x \<le> bid_index ?t"
      by auto
    show ?thesis
    proof (cases "length as < CONFIRMED_SEGMENT_MINIMUM_LENGTH")
      case True
      with et as(1) keep canon ne show ?thesis by (auto simp: sp_collect_and_prune_confirmed_blocks_def)
    next
      case False
      then have len: "6 < length as" by (simp add: CONFIRMED_SEGMENT_MINIMUM_LENGTH_def)
      let ?c = "as ! 5" and ?old = "rev (drop 6 as)"
      obtain fs1 pruned emptied where pf: "prune_forks ?c (sp_forks pool) = (fs1, pruned, emptied)"
        by (metis prod_cases3)
      obtain os1 dropped where po: "prune_orphans ?c (sp_orphans pool) = (os1, dropped)" by fastforce
      have olds: "\<forall>x \<in> set ?old. ?L x \<noteq> None" using as(3) in_set_dropD by fastforce
      have dist: "distinct (map bid_hash ?old)"
      proof -
        have "distinct as" using as(2) by (induction as) auto
        then have d: "distinct ?old" by simp
        have "inj_on bid_hash (set ?old)"
          using store_ok_bid_eq [OF wf so] olds by (auto simp: inj_on_def bid_eq_def)
        with d show ?thesis by (simp add: distinct_map)
      qed
      have "hm_get (block_store pool) (bid_hash x) \<noteq> None" if "x \<in> set ?old" for x
        using olds that sp_lookup_get_block by blast
      from sp_take_confirmed_all [OF dist this, of conf] obtain cs where
        tc: "sp_take_confirmed ?old (block_store pool) conf =
              (True, fold hm_remove (map bid_hash ?old) (block_store pool), conf @ cs)" by auto
      define ks where "ks = map bid_hash (pruned @ dropped)"
      define pool' where "pool' = pool
        \<lparr>sp_forks := fold bt_remove emptied fs1, sp_orphans := os1,
         block_store := fold hm_remove ks (fold hm_remove (map bid_hash ?old) (block_store pool)),
         micro_forks := fold hm_remove ks (micro_forks pool),
         canonical_micro_fork_id := fold hm_remove ks (canonical_micro_fork_id pool)\<rparr>"
      have run: "sp_collect_and_prune_confirmed_blocks pool ev = Done (sp_set_confirmed ev (conf @ cs), pool')"
        using et as(1) False pf po tc
        by (simp add: sp_collect_and_prune_confirmed_blocks_def CONFIRMED_SEGMENT_MINIMUM_LENGTH_def
            pool'_def ks_def)
      have pr: "\<forall>x \<in> set (pruned @ dropped). ?L x \<noteq> None"
        by (rule pruned_stored [OF inv pf po])
      have st: "block_store pool' = fold hm_remove (map bid_hash (?old @ pruned @ dropped)) (block_store pool)"
        by (simp add: pool'_def ks_def)
      have L': "sp_lookup pool' b = (if b \<in> set (?old @ pruned @ dropped) then None else ?L b)" for b
        by (rule sp_lookup_remove(1) [OF wf si _ st]) (use olds pr in auto)
      have si': "store_inv H pool'"
        by (rule sp_lookup_remove(2) [OF wf si _ st]) (use olds pr in auto)
      have agree: "sp_lookup pool' b = ?L b" if "bid_index ?c \<le> bid_index b" for b
        using that sorted_drop_below [OF as(2), of b 5] pruned_blocks_below [OF pf] prune_orphans_set [OF po]
        by (fastforce simp: L')
      have less: "?L b = Some h" if "sp_lookup pool' b = Some h" for b h
        using that by (simp add: L' split: if_splits)
      have "micro_inv M pool'" using micro_inv_prune [OF mi, of ks] by (simp add: pool'_def micro_inv_def trail_ok_def)
      moreover have "bid_index ?c \<le> bid_index ?t" using as(4) len by auto
      note pi = prune_forks_inv [OF wf inv nC pf po agree less canon this]
      moreover have "sp_forks pool' = fold bt_remove emptied fs1" "sp_orphans pool' = os1"
        "sp_canonical_fork_id pool' = sp_canonical_fork_id pool" by (simp_all add: pool'_def)
      ultimately show ?thesis using run si' unfolding pool_inv_def by auto
    qed
  qed
qed

section \<open>Emitting the event\<close>

definition sp_in_sync :: "stacks_block_pool \<Rightarrow> block_identifier list \<Rightarrow> bool" where
  "sp_in_sync pool held =
     (case bt_get (sp_forks pool) (sp_canonical_fork_id pool) of
        None \<Rightarrow> False
      | Some seg \<Rightarrow> prefix (block_ids seg) held \<and> (block_ids seg = [] \<longrightarrow> held = []))"

text \<open>All the blocks of the world are within a span of heights whose width fits a \<^verbatim>\<open>u16\<close>.\<close>

definition headers_within :: "u64 \<Rightarrow> block_header list \<Rightarrow> bool" where
  "headers_within lo H = list_all (\<lambda>h. within_span lo (bid_index (block_identifier h))) H"

text \<open>What a consumer in sync with the former canonical fork \<open>p\<close> experiences.\<close>

definition followed ::
  "block_identifier list \<Rightarrow> stacks_chain_event option \<Rightarrow> stacks_block_pool \<Rightarrow> bool" where
  "followed p ev pool' \<longleftrightarrow>
     (\<forall>held. prefix p held \<and> (p = [] \<longrightarrow> held = []) \<longrightarrow>
        (\<exists>held'. sp_consume ev held = Some held' \<and> sp_in_sync pool' held'))"

lemma tips_within_span:
  assumes "headers_within lo H" "forks_placed q H (sp_lookup pool) fs os p"
    and "h \<in> set (map (\<lambda>p. bid_index (hd (block_ids (snd p)))) fs)"
  shows "within_span lo h"
proof -
  from assms(3) obtain i f where f: "(i, f) \<in> set fs" "h = bid_index (hd (block_ids f))" by auto
  then have fC: "block_ids f \<in> chains fs" by (force simp: chains_def)
  with assms(2) have "linked (sp_lookup pool) (block_ids f)" "block_ids f \<noteq> []"
    by (auto simp: forks_placed_def chains_ok_def)
  then have "sp_lookup pool (hd (block_ids f)) \<noteq> None" by (intro linked_in_store) auto
  with assms(2) obtain h' where "h' \<in> set H" "block_identifier h' = hd (block_ids f)"
    by (auto simp: forks_placed_def chains_ok_def store_ok_def)
  with assms(1) f(2) show ?thesis by (auto simp: headers_within_def list_all_iff)
qed

lemma canonical_fork_event:
  assumes wf: "wf_headers H" and pl: "pool_placed q H M pool (block_ids prev)"
    and seg: "bt_get (sp_forks pool) (sp_canonical_fork_id pool) = Some seg"
    and old: "bt_get (sp_forks pool) prev_id \<noteq> None" and different: "\<not> seg_eq seg prev"
  shows "\<exists>ev pool'.
     bind_outcome (sp_generate_block_chain_event pool seg prev)
       (\<lambda>(r, pool2). case r of
          Inl ParentBlockUnknown \<Rightarrow> Done (Inr None, pool2\<lparr>sp_canonical_fork_id := prev_id\<rparr>)
        | Inl _ \<Rightarrow> Done (Inr None, pool2)
        | Inr chain_event \<Rightarrow>
            if prune
            then bind_outcome (sp_collect_and_prune_confirmed_blocks pool2 chain_event)
                   (\<lambda>(chain_event', pool3). Done (Inr (Some chain_event'), pool3))
            else Done (Inr (Some chain_event), pool2)) = Done (Inr ev, pool') \<and>
     pool_inv H M pool' \<and> (q \<longrightarrow> followed (block_ids prev) ev pool')"
proof -
  let ?L = "sp_lookup pool"
  have fp: "forks_placed q H ?L (sp_forks pool) (sp_orphans pool) (block_ids prev)"
    and si: "store_inv H pool" and mi: "micro_inv M pool" using pl by (auto simp: pool_placed_def)
  have segC: "block_ids seg \<in> chains (sp_forks pool)"
    using seg fp chains_get by (auto simp: forks_placed_def)
  with fp have ok: "linked ?L (block_ids seg)" "linked ?L (block_ids prev)" "store_ok H ?L"
    "coherent (block_ids seg) (block_ids prev)" "block_ids seg \<noteq> []"
    by (auto simp: forks_placed_def chains_ok_def)
  from sp_generate_total [OF ok(3) mi ok(1,2,4,5)] obtain r pool2 where
    gen: "sp_generate_block_chain_event pool seg prev = Done (r, pool2)" "micro_inv M pool2" "confirmed_only pool pool2"
    and res: "case r of
        Inl e \<Rightarrow> e = ParentBlockUnknown \<and> \<not> connected (block_ids seg) (block_ids prev)
      | Inr ev \<Rightarrow>
          (\<forall>older. (block_ids prev = [] \<longrightarrow> older = []) \<longrightarrow>
             sp_consume (Some ev) (block_ids prev @ older) = Some (block_ids seg @ older)) \<and>
          (\<forall>t bs. sp_event_tip ev = Some (t, bs) \<longrightarrow> t = hd (block_ids seg))"
    by blast
  note same = confirmed_only_fields [OF gen(3)]
  have L2: "sp_lookup pool2 = ?L" by (rule sp_lookup_cong [OF same(1)])
  have si2: "store_inv H pool2" using si same(1) by (simp add: store_inv_def)
  show ?thesis
  proof (cases r)
    case (Inl e)
    with res have e: "e = ParentBlockUnknown" "\<not> connected (block_ids seg) (block_ids prev)" by auto
    then have "\<not> q" using fp segC by (auto simp: forks_placed_def)
    moreover have "pool_inv H M (pool2\<lparr>sp_canonical_fork_id := prev_id\<rparr>)"
      using forks_placed_inv [OF fp old] gen(2) si2 L2 same by (simp add: pool_inv_def)
    ultimately show ?thesis using gen(1) Inl e by simp
  next
    case (Inr ev)
    with res have cons: "sp_consume (Some ev) (block_ids prev @ older) = Some (block_ids seg @ older)"
      if "block_ids prev = [] \<longrightarrow> older = []" for older
      using that by simp
    have fol: "followed (block_ids prev) (Some ev') pool'"
      if "ev' = ev \<or> (\<exists>bs. ev' = sp_set_confirmed ev bs)"
        "bt_get (sp_forks pool') (sp_canonical_fork_id pool') = Some seg'" "block_ids seg' \<noteq> []"
        "prefix (block_ids seg') (block_ids seg)" for ev' pool' seg'
      unfolding followed_def
    proof (intro allI impI)
      fix held assume "prefix (block_ids prev) held \<and> (block_ids prev = [] \<longrightarrow> held = [])"
      then obtain older where held: "held = block_ids prev @ older" "block_ids prev = [] \<longrightarrow> older = []"
        by (auto simp: prefix_def)
      have "sp_consume (Some ev') held = Some (block_ids seg @ older)"
        using that(1) cons [OF held(2)] by (auto simp: held(1))
      moreover have "sp_in_sync pool' (block_ids seg @ older)" using that by (auto simp: sp_in_sync_def)
      ultimately show "\<exists>held'. sp_consume (Some ev') held = Some held' \<and> sp_in_sync pool' held'" by blast
    qed
    show ?thesis
    proof (cases prune)
      case True
      have "forks_placed q H (sp_lookup pool2) (sp_forks pool2) (sp_orphans pool2) (block_ids prev)"
        "bt_get (sp_forks pool2) (sp_canonical_fork_id pool2) = Some seg"
        "\<forall>t bs. sp_event_tip ev = Some (t, bs) \<longrightarrow> t = hd (block_ids seg)"
        using fp L2 same seg res Inr by auto
      from sp_collect_and_prune_inv [OF wf this(1) si2 gen(2) this(2,3)] obtain ev' pool' seg' where
        c: "sp_collect_and_prune_confirmed_blocks pool2 ev = Done (ev', pool')" "pool_inv H M pool'"
          "\<exists>bs. ev' = ev \<or> ev' = sp_set_confirmed ev bs" "sp_canonical_fork_id pool' = sp_canonical_fork_id pool2"
          "bt_get (sp_forks pool') (sp_canonical_fork_id pool2) = Some seg'" "block_ids seg' \<noteq> []"
          "prefix (block_ids seg') (block_ids seg)"
        by blast
      from fol [of ev' pool' seg'] c gen(1) Inr True show ?thesis by auto
    next
      case False
      have "pool_inv H M pool2"
        using forks_placed_inv [OF fp] seg gen(2) si2 L2 same by (simp add: pool_inv_def)
      moreover have "followed (block_ids prev) (Some ev) pool2"
        by (rule fol [of ev pool2 seg]) (use same seg ok(5) in auto)
      ultimately show ?thesis using gen(1) Inr False by simp
    qed
  qed
qed

lemma sp_emit_event_inv:
  assumes wf: "wf_headers H" and pl: "pool_placed q H M pool (block_ids prev)"
  shows "\<exists>r pool'. sp_emit_event pool prev (sp_canonical_fork_id pool) = Done (r, pool') \<and> pool_inv H M pool' \<and>
     (headers_within lo H \<longrightarrow> (\<exists>ev. r = Inr ev \<and> (q \<longrightarrow> followed (block_ids prev) ev pool')))"
proof -
  have fp: "forks_placed q H (sp_lookup pool) (sp_forks pool) (sp_orphans pool) (block_ids prev)"
    and old: "bt_get (sp_forks pool) (sp_canonical_fork_id pool) \<noteq> None"
    and si: "store_inv H pool" and mi: "micro_inv M pool"
    using pl by (auto simp: pool_placed_def)
  have "sp_forks pool \<noteq> []" "\<forall>p \<in> set (sp_forks pool). block_ids (snd p) \<noteq> []"
    using fp by (auto simp: forks_placed_def chains_def image_iff)
  from sp_select_mem [OF this, of pool] obtain k where
    sel: "sp_select_loop pool (sp_forks pool) 0 0 0 [] =
       Done (k, map (\<lambda>p. bid_index (hd (block_ids (snd p)))) (sp_forks pool))"
    and "k \<in> fst ` set (sp_forks pool)" by blast
  then obtain seg where seg: "bt_get (sp_forks pool) k = Some seg" unfolding bt_get_key by blast
  let ?hs = "map (\<lambda>p. bid_index (hd (block_ids (snd p)))) (sp_forks pool)"
  show ?thesis
  proof (cases "competing_fork_height_delta ?hs")
    case (Inl e)
    have "\<not> headers_within lo H"
    proof
      assume "headers_within lo H"
      then have "\<forall>h \<in> set ?hs. within_span lo h" using tips_within_span [OF _ fp] by blast
      with competing_fork_height_delta_in_span [of ?hs lo] Inl show False by auto
    qed
    moreover have "pool_inv H M pool" using forks_placed_inv [OF fp old] si mi by (simp add: pool_inv_def)
    ultimately show ?thesis using sel Inl by (simp add: sp_emit_event_def)
  next
    case (Inr delta)
    define pool1 where "pool1 = pool\<lparr>highest_competing_fork_height_delta := delta, sp_canonical_fork_id := k\<rparr>"
    have pl1: "pool_placed q H M pool1 (block_ids prev)" using pl seg by (simp add: pool_placed_def pool1_def)
    have seg1: "bt_get (sp_forks pool1) (sp_canonical_fork_id pool1) = Some seg"
      and old1: "bt_get (sp_forks pool1) (sp_canonical_fork_id pool) \<noteq> None"
      using seg old by (simp_all add: pool1_def)
    show ?thesis
    proof (cases "seg_eq seg prev")
      case True
      have ok: "store_ok H (sp_lookup pool)" "linked (sp_lookup pool) (block_ids seg)"
        "linked (sp_lookup pool) (block_ids prev)"
        using fp seg chains_get [of "sp_forks pool" "block_ids seg"] by (auto simp: forks_placed_def chains_ok_def)
      then have "block_ids seg = block_ids prev"
        using linked_list_all2_eq [OF wf] True by (simp add: seg_eq_def)
      then have "followed (block_ids prev) None pool1"
        using seg1 by (auto simp: followed_def sp_in_sync_def)
      moreover have "pool_inv H M pool1"
        using forks_placed_inv [OF fp] seg si mi by (simp add: pool_inv_def pool1_def)
      moreover have "sp_emit_event pool prev (sp_canonical_fork_id pool) = Done (Inr None, pool1)"
        using sel Inr seg True by (simp add: sp_emit_event_def pool1_def Let_def)
      ultimately show ?thesis by blast
    next
      case False
      from canonical_fork_event [OF wf pl1 seg1 old1 False,
          of "case delta of None \<Rightarrow> True | Some e \<Rightarrow> 6 < e"] sel Inr seg False
      show ?thesis unfolding sp_emit_event_def pool1_def by (simp add: Let_def) blast
    qed
  qed
qed

lemma process_block_inv:
  assumes wf: "wf_headers H" and h: "sb_get_header block \<in> set H" and inv: "pool_inv H M pool"
  shows "\<exists>r pool'. process_block pool block = Done (r, pool') \<and> pool_inv H M pool' \<and>
     (headers_within lo H \<longrightarrow>
        (\<exists>ev. r = Inr ev \<and>
           (forks_connected (sp_forks pool) \<longrightarrow> sp_in_sync pool held \<longrightarrow>
              (\<exists>held'. sp_consume ev held = Some held' \<and> sp_in_sync pool' held'))))"
proof -
  obtain res pool1 where pb: "place_block pool block = (res, pool1)" by fastforce
  note pi = place_block_inv [OF wf h inv _ pb, of "forks_connected (sp_forks pool)"]
  show ?thesis
  proof (cases res)
    case (Inl e)
    with pi show ?thesis by simp
  next
    case (Inr p)
    show ?thesis
    proof (cases p)
      case None
      with Inr pb pi show ?thesis by (auto simp: process_block_def sp_in_sync_def)
    next
      case (Some prev)
      with Inr pi have pl: "pool_placed (forks_connected (sp_forks pool)) H M pool1 (block_ids prev)"
        and c: "sp_canonical_fork_id pool1 = sp_canonical_fork_id pool"
        and prev: "bt_get (sp_forks pool) (sp_canonical_fork_id pool) = Some prev" by auto
      have "process_block pool block = sp_emit_event pool1 prev (sp_canonical_fork_id pool1)"
        using pb Inr Some c by (simp add: process_block_def)
      moreover from sp_emit_event_inv [OF wf pl, of lo] obtain r pool' where
        "sp_emit_event pool1 prev (sp_canonical_fork_id pool1) = Done (r, pool')" "pool_inv H M pool'"
        "headers_within lo H \<longrightarrow> (\<exists>ev. r = Inr ev \<and>
           (forks_connected (sp_forks pool) \<longrightarrow> followed (block_ids prev) ev pool'))" by blast
      ultimately show ?thesis using prev by (auto simp: followed_def sp_in_sync_def)
    qed
  qed
qed

end
