(* ===== verification/Stacks_Pool_Runs.thy ===== *)
theory Stacks_Pool_Runs
  imports Stacks_Pool_Correct
begin

text \<open>
  Runs of the Stacks pool over blocks and microblock trails in any order: the invariant under
  \<^verbatim>\<open>process_microblocks\<close>, the properties of whole runs, and concrete runs that show where the pool
  does not do what it means to.
\<close>

section \<open>Processing a microblock\<close>

lemma enumerate_map_snd [simp]: "map snd (enumerate n xs) = xs"
  by (simp add: enumerate_eq_zip)

lemma trail_ok_grown:
  assumes "trail_ok M pool a f" "grown (mb_get_header m) f g"
    and "hm_get (microblock_store pool) (a, bid_hash (mb_block_identifier m)) \<noteq> None"
    and "\<exists>m' \<in> set M. mb_block_identifier m' = mb_block_identifier m \<and> bid_hash (mb_anchor_block_identifier m') = a"
  shows "trail_ok M pool a g"
proof -
  have "set (block_ids g) \<subseteq> insert (mb_block_identifier m) (set (block_ids f))" "block_ids g \<noteq> []"
    using grown_members [OF assms(2)] grown_nonempty [OF assms(2)] by simp_all
  with assms show ?thesis unfolding trail_ok_def by blast
qed

lemma append_to_micro_forks_ok:
  assumes "append_to_micro_forks (mb_get_header m) fs = Some (i, fs')"
    and "\<forall>f \<in> set fs. trail_ok M pool a f"
    and "hm_get (microblock_store pool) (a, bid_hash (mb_block_identifier m)) \<noteq> None"
    and "\<exists>m' \<in> set M. mb_block_identifier m' = mb_block_identifier m \<and> bid_hash (mb_anchor_block_identifier m') = a"
  shows "i < length fs' \<and> length fs \<le> length fs' \<and> (\<forall>f \<in> set fs'. trail_ok M pool a f)"
proof -
  from assms(1) obtain j nf fs1 where j: "append_to_first (mb_get_header m) (enumerate 0 fs) = Some (j, nf, fs1)"
    by (auto simp: append_to_micro_forks_def split: option.splits)
  obtain pre f post f' where fs: "enumerate 0 fs = pre @ (j, f) # post" "fs1 = pre @ (j, f') # post"
    and ta: "try_append_block f (mb_get_header m) = ((True, nf), f')"
    by (rule append_to_first_SomeE [OF j])
  have snd_fs: "fs = map snd pre @ f # map snd post"
    using arg_cong [OF fs(1), of "map snd"] by simp
  have len: "length fs1 = length fs" using fs(2) arg_cong [OF snd_fs, of length] by simp
  have "(j, f) \<in> set (enumerate 0 fs)" using fs(1) by simp
  then have jl: "j < length fs" by (simp add: in_set_enumerate_eq)
  have f: "trail_ok M pool a f" using assms(2) snd_fs by auto
  note g = try_append_grown [OF ta]
  note ok = trail_ok_grown [OF f g assms(3,4)]
  have rest: "\<forall>x \<in> set (map snd pre) \<union> set (map snd post). trail_ok M pool a x"
    using assms(2) unfolding snd_fs by auto
  show ?thesis
  proof (cases nf)
    case None
    with assms(1) j have "i = j" "fs' = map snd fs1" by (auto simp: append_to_micro_forks_def)
    with None ok rest jl len fs(2) show ?thesis by auto
  next
    case (Some h)
    with assms(1) j have "i = length fs1" "fs' = map snd fs1 @ [h]" by (auto simp: append_to_micro_forks_def)
    moreover have "f' = f" using try_append_forked_unchanged ta Some by blast
    ultimately show ?thesis using Some ok rest len fs(2) f by auto
  qed
qed

lemma place_microblock_ok:
  assumes "place_microblock m mfs = Some (i, fs')"
    and "\<forall>fs. mfs = Some fs \<longrightarrow> (\<forall>f \<in> set fs. trail_ok M pool a f)"
    and "hm_get (microblock_store pool) (a, bid_hash (mb_block_identifier m)) \<noteq> None"
    and "\<exists>m' \<in> set M. mb_block_identifier m' = mb_block_identifier m \<and> bid_hash (mb_anchor_block_identifier m') = a"
  shows "i < length fs' \<and> (\<forall>fs. mfs = Some fs \<longrightarrow> length fs \<le> length fs') \<and> (\<forall>f \<in> set fs'. trail_ok M pool a f)"
proof (cases "bid_index (mb_block_identifier m) = 0")
  case True
  have "trail_ok M pool a (append_block_identifier (mb_block_identifier m) chain_segment_new)"
    using assms(3,4) by (simp add: trail_ok_def chain_segment_new_def)
  with assms(1,2) True show ?thesis
    by (auto simp: place_microblock_def Let_def split: option.splits)
next
  case False
  with assms(1) obtain fs where "mfs = Some fs" "append_to_micro_forks (mb_get_header m) fs = Some (i, fs')"
    by (auto simp: place_microblock_def split: option.splits)
  with append_to_micro_forks_ok [OF this(2) _ assms(3,4)] assms(2) show ?thesis by auto
qed

text \<open>An orphan that extends a trail belongs to the anchor of the trail.\<close>

lemma micro_orphan_step:
  assumes wf: "wf_microblocks M" and inv: "micro_inv M pool" and seg: "trail_ok M pool a seg"
    and x: "map_option mb_get_header (get_microblock pool (fst x) (snd x)) = Some b"
    and ta: "try_append_block seg b = ((ok, nf), seg')"
  shows "trail_ok M pool a seg'"
  using ta
proof (cases rule: try_append_block_cases)
  case extended
  from x obtain m where m: "get_microblock pool (fst x) (snd x) = Some m" and b: "b = mb_get_header m" by auto
  from micro_inv_store [OF inv m] obtain m' where
    key: "bid_hash (mb_anchor_block_identifier m) = bid_hash (fst x)" "bid_hash (mb_block_identifier m) = bid_hash (snd x)"
    and m': "m' \<in> set M" "same_microblock m m'" by blast
  have g: "grown b seg seg'" using try_append_grown ta extended by fastforce
  obtain t rest where t: "block_ids seg = t # rest" using seg by (cases "block_ids seg") (auto simp: trail_ok_def)
  with extended have "t = parent_block_identifier b" by (auto simp: can_append_Inr_iff split: list.splits)
  with b have "t = mb_parent_block_identifier m" by simp
  moreover from seg t obtain m3 where "m3 \<in> set M" "mb_block_identifier m3 = t"
    "bid_hash (mb_anchor_block_identifier m3) = a" by (auto simp: trail_ok_def)
  ultimately have "bid_hash (mb_anchor_block_identifier m') = a"
    using wf m' by (auto simp: wf_microblocks_def list_all_iff same_microblock_def bid_eq_def)
  with m' key(1) have a: "bid_hash (fst x) = a" by (auto simp: same_microblock_def bid_eq_def)
  show ?thesis
  proof (rule trail_ok_grown [OF seg g [unfolded b]])
    show "hm_get (microblock_store pool) (a, bid_hash (mb_block_identifier m)) \<noteq> None" using m key(2) a by simp
    show "\<exists>m' \<in> set M. mb_block_identifier m' = mb_block_identifier m \<and> bid_hash (mb_anchor_block_identifier m') = a"
      using m' \<open>bid_hash (mb_anchor_block_identifier m') = a\<close> by (auto simp: same_microblock_def)
  qed
next
  case forked
  with seg show ?thesis by simp
next
  case rejected
  with seg show ?thesis by simp
qed

text \<open>
  The progress of a trail whose anchor block has hash \<open>a\<close>: at most the trails of \<open>a\<close> were updated,
  and then they exist.
\<close>

definition progress_ok :: "string \<Rightarrow> stacks_block_pool \<Rightarrow> micro_progress \<Rightarrow> bool" where
  "progress_ok a pool progress \<longleftrightarrow>
     (micro_forks_updated progress = [] \<or>
      micro_forks_updated progress = [a] \<and> (\<exists>fs. hm_get (micro_forks pool) a = Some fs \<and> fs \<noteq> [])) \<and>
     (\<forall>x. anchor_block_updated progress = Some x \<longrightarrow> bid_hash x = a)"

lemma micro_inv_store_microblock:
  assumes inv: "micro_inv M pool" and m: "m \<in> set M" "same_microblock m' m"
  shows "micro_inv M (pool\<lparr>microblock_store :=
     hm_insert (bid_hash (mb_anchor_block_identifier m'), bid_hash (mb_block_identifier m')) m' (microblock_store pool)\<rparr>)"
proof -
  let ?p = "pool\<lparr>microblock_store :=
     hm_insert (bid_hash (mb_anchor_block_identifier m'), bid_hash (mb_block_identifier m')) m' (microblock_store pool)\<rparr>"
  have tr: "trail_ok M ?p a seg" if "trail_ok M pool a seg" for a seg
    using that by (auto simp: trail_ok_def)
  have st: "bid_hash (mb_anchor_block_identifier x) = a \<and> bid_hash (mb_block_identifier x) = k \<and>
      (\<exists>y \<in> set M. same_microblock x y)" if "hm_get (microblock_store ?p) (a, k) = Some x" for a k x
    using that m micro_inv_store [OF inv] by (auto split: if_splits)
  show ?thesis
    unfolding micro_inv_def
  proof (intro conjI)
    show "\<forall>a k x. hm_get (microblock_store ?p) (a, k) = Some x \<longrightarrow> bid_hash (mb_anchor_block_identifier x) = a \<and>
        bid_hash (mb_block_identifier x) = k \<and> (\<exists>y \<in> set M. same_microblock x y)"
      using st by blast
  qed (use inv tr in \<open>auto simp: micro_inv_def\<close>)
qed

lemma micro_inv_update_forks:
  assumes inv: "micro_inv M pool" and longer: "\<forall>fs0. hm_get (micro_forks pool) a = Some fs0 \<longrightarrow> length fs0 \<le> length fs"
    and ok: "\<forall>f \<in> set fs. trail_ok M pool a f"
  shows "micro_inv M (pool\<lparr>micro_forks := hm_insert a fs (micro_forks pool)\<rparr>)"
proof -
  have "\<exists>gs. hm_get (hm_insert a fs (micro_forks pool)) x = Some gs \<and> i < length gs"
    if "hm_get (canonical_micro_fork_id pool) x = Some i" for x i
    using that micro_inv_index_fork [OF inv that] micro_inv_index [OF inv that] longer by fastforce
  moreover have "trail_ok M pool x g"
    if "hm_get (hm_insert a fs (micro_forks pool)) x = Some gs" "g \<in> set gs" for x gs g
    using that ok micro_inv_trail [OF inv] by (auto split: if_splits)
  ultimately show ?thesis using micro_inv_store [OF inv] unfolding micro_inv_def by auto
qed

lemma process_microblock_inv:
  assumes wf: "wf_microblocks M" and m: "m \<in> set M" "bid_hash (mb_anchor_block_identifier m) = a"
    and inv: "pool_inv H M pool" and pr: "progress_ok a pool progress"
  shows "\<exists>pool' progress'. process_microblock pool progress m = Done (pool', progress') \<and>
     pool_inv H M pool' \<and> progress_ok a pool' progress' \<and>
     sp_forks pool' = sp_forks pool \<and> sp_canonical_fork_id pool' = sp_canonical_fork_id pool"
proof -
  have si: "store_inv H pool" and mi: "micro_inv M pool" using inv by (auto simp: pool_inv_def)
  define m' where "m' = (case get_block pool (mb_anchor_block_identifier m) of
      Some block \<Rightarrow> m\<lparr>mb_anchor_block_identifier := sb_block_identifier block\<rparr> | None \<Rightarrow> m)"
  define pr1 where "pr1 = (case get_block pool (mb_anchor_block_identifier m) of
      Some block \<Rightarrow> progress\<lparr>anchor_block_updated := Some (sb_block_identifier block)\<rparr> | None \<Rightarrow> progress)"
  have m': "same_microblock m' m" "bid_hash (mb_anchor_block_identifier m') = a"
    and pr1: "progress_ok a pool pr1"
    using si m(2) pr
    by (auto simp: m'_def pr1_def same_microblock_def store_inv_def bid_eq_def progress_ok_def split: option.splits)
  let ?b = "mb_block_identifier m'"
  define pool1 where "pool1 = pool\<lparr>microblock_store := hm_insert (a, bid_hash ?b) m' (microblock_store pool)\<rparr>"
  have mi1: "micro_inv M pool1"
    using micro_inv_store_microblock [OF mi m(1) m'(1)] m'(2) by (simp add: pool1_def)
  have keep: "pool_inv H M pool'" if "micro_inv M pool'" "sp_forks pool' = sp_forks pool"
      "sp_orphans pool' = sp_orphans pool" "block_store pool' = block_store pool"
      "sp_canonical_fork_id pool' = sp_canonical_fork_id pool" for pool'
    using that inv sp_lookup_cong [OF that(4)] by (simp add: pool_inv_def store_inv_def)
  have "\<exists>pr2. (case (hm_get (micro_forks pool1) a, hm_get (canonical_micro_fork_id pool1) a) of
      (Some microforks, Some fork_id) \<Rightarrow>
        bind_outcome (vec_index microforks fork_id) (\<lambda>fork. Done (pr1\<lparr>previous_canonical_micro_fork := Some fork\<rparr>))
    | _ \<Rightarrow> Done pr1) = Done pr2 \<and> progress_ok a pool pr2"
    using micro_inv_index [OF mi1, of a] pr1
    by (auto simp: vec_index_def progress_ok_def split: option.splits)
  then obtain pr2 where pr2: "(case (hm_get (micro_forks pool1) a, hm_get (canonical_micro_fork_id pool1) a) of
      (Some microforks, Some fork_id) \<Rightarrow>
        bind_outcome (vec_index microforks fork_id) (\<lambda>fork. Done (pr1\<lparr>previous_canonical_micro_fork := Some fork\<rparr>))
    | _ \<Rightarrow> Done pr1) = Done pr2" "progress_ok a pool pr2" by blast
  have unfold: "process_microblock pool progress m =
      (case place_microblock m' (hm_get (micro_forks pool1) a) of
         None \<Rightarrow> Done (pool1\<lparr>micro_orphans := bs_insert (mb_anchor_block_identifier m', ?b) (micro_orphans pool1)\<rparr>, pr2)
       | Some (i, microforks) \<Rightarrow>
           (case orphan_loop (\<lambda>(a, b). map_option mb_get_header (get_microblock pool1 a b))
                   (\<lambda>(a, b). (bid_hash a, bid_hash b)) (micro_orphans pool1) (microforks ! i) [] of
              (fork, applied) \<Rightarrow>
                Done (pool1\<lparr>micro_forks := hm_insert a (microforks[i := fork]) (micro_forks pool1),
                            micro_orphans := fold bs_remove applied (micro_orphans pool1)\<rparr>,
                      pr2\<lparr>micro_forks_updated := List.insert a (micro_forks_updated pr2)\<rparr>)))"
  proof -
    have eq: "(case get_block pool (mb_anchor_block_identifier m) of
          Some block \<Rightarrow> (m\<lparr>mb_anchor_block_identifier := sb_block_identifier block\<rparr>,
             progress\<lparr>anchor_block_updated := Some (sb_block_identifier block)\<rparr>)
        | None \<Rightarrow> (m, progress)) = (m', pr1)"
      by (simp add: m'_def pr1_def split: option.splits)
    show ?thesis
      unfolding process_microblock_def eq Let_def prod.case m'(2) pool1_def [symmetric] pr2(1) [unfolded prod.case]
        bind_outcome.simps ..
  qed
  show ?thesis
  proof (cases "place_microblock m' (hm_get (micro_forks pool1) a)")
    case None
    have "pool_inv H M (pool1\<lparr>micro_orphans := bs_insert (mb_anchor_block_identifier m', ?b) (micro_orphans pool1)\<rparr>)"
      by (rule keep) (use mi1 in \<open>simp_all add: pool1_def\<close>)
    with None unfold pr2(2) show ?thesis by (simp add: pool1_def progress_ok_def)
  next
    case (Some r)
    obtain i fs where r: "r = (i, fs)" by (cases r)
    have stored: "hm_get (microblock_store pool1) (a, bid_hash ?b) \<noteq> None" by (simp add: pool1_def)
    have inM: "\<exists>y \<in> set M. mb_block_identifier y = ?b \<and> bid_hash (mb_anchor_block_identifier y) = a"
      using m m'(1) by (auto simp: same_microblock_def)
    have old: "\<forall>fs. hm_get (micro_forks pool1) a = Some fs \<longrightarrow> (\<forall>f \<in> set fs. trail_ok M pool1 a f)"
      using micro_inv_trail [OF mi1] by blast
    note pm = place_microblock_ok [OF Some [unfolded r] old stored inM]
    obtain fork applied where ol: "orphan_loop (\<lambda>(a, b). map_option mb_get_header (get_microblock pool1 a b))
        (\<lambda>(a, b). (bid_hash a, bid_hash b)) (micro_orphans pool1) (fs ! i) [] = (fork, applied)" by fastforce
    have fork: "trail_ok M pool1 a fork"
    proof (rule orphan_loop_invariant [where P = "\<lambda>s _. trail_ok M pool1 a s", OF _ _ ol])
      show "trail_ok M pool1 a (fs ! i)" using pm by simp
    next
      fix x b s ap ok nf s'
      assume "trail_ok M pool1 a s" "(case x of (a, b) \<Rightarrow> map_option mb_get_header (get_microblock pool1 a b)) = Some b"
        "try_append_block s b = ((ok, nf), s')"
      then show "trail_ok M pool1 a s'" using micro_orphan_step [OF wf mi1, of a s x b] by (cases x) auto
    qed
    have "\<forall>f \<in> set (fs[i := fork]). trail_ok M pool1 a f"
      using fork pm set_update_subset_insert [of fs i fork] by auto
    then have mi2: "micro_inv M (pool1\<lparr>micro_forks := hm_insert a (fs[i := fork]) (micro_forks pool1)\<rparr>)"
      using micro_inv_update_forks [OF mi1, of a "fs[i := fork]"] pm by simp
    have "pool_inv H M (pool1\<lparr>micro_forks := hm_insert a (fs[i := fork]) (micro_forks pool1),
        micro_orphans := fold bs_remove applied (micro_orphans pool1)\<rparr>)"
      by (rule keep) (use mi2 in \<open>simp_all add: pool1_def\<close>)
    moreover have "fs \<noteq> []" using pm by auto
    ultimately show ?thesis using Some r unfold ol pr2(2) by (auto simp: pool1_def progress_ok_def)
  qed
qed

lemma process_microblocks_loop_inv:
  assumes wf: "wf_microblocks M" and ms: "set ms \<subseteq> set M" "\<forall>m \<in> set ms. bid_hash (mb_anchor_block_identifier m) = a"
    and inv: "pool_inv H M pool" and pr: "progress_ok a pool progress"
  shows "\<exists>pool' progress'. process_microblocks_loop pool progress ms = Done (pool', progress') \<and>
     pool_inv H M pool' \<and> progress_ok a pool' progress' \<and>
     sp_forks pool' = sp_forks pool \<and> sp_canonical_fork_id pool' = sp_canonical_fork_id pool"
  using ms inv pr
proof (induction ms arbitrary: pool progress)
  case (Cons m ms)
  from Cons.prems process_microblock_inv [OF wf, of m a H pool progress] obtain pool1 progress1 where
    s: "process_microblock pool progress m = Done (pool1, progress1)" "pool_inv H M pool1"
      "progress_ok a pool1 progress1" "sp_forks pool1 = sp_forks pool"
      "sp_canonical_fork_id pool1 = sp_canonical_fork_id pool" by auto
  from Cons.IH [OF _ _ s(2,3)] Cons.prems s show ?case by auto
qed simp

definition same_anchor :: "stacks_microblock_data list \<Rightarrow> bool" where
  "same_anchor ms =
     (case ms of
        [] \<Rightarrow> True
      | m # _ \<Rightarrow> list_all (\<lambda>m'. bid_eq (mb_anchor_block_identifier m') (mb_anchor_block_identifier m)) ms)"

lemma process_microblocks_inv:
  assumes wf: "wf_microblocks M" and ms: "set ms \<subseteq> set M" "same_anchor ms" and inv: "pool_inv H M pool"
  shows "\<exists>ev pool'. process_microblocks pool ms = Done (Inr ev, pool') \<and> pool_inv H M pool' \<and>
     sp_forks pool' = sp_forks pool \<and> sp_canonical_fork_id pool' = sp_canonical_fork_id pool \<and>
     sp_consume ev held = Some held"
proof (cases "block_store pool = []")
  case True
  with inv show ?thesis by (simp add: process_microblocks_def)
next
  case False
  obtain a where a: "\<forall>m \<in> set ms. bid_hash (mb_anchor_block_identifier m) = a"
    using ms(2) by (cases ms) (auto simp: same_anchor_def list_all_iff bid_eq_def)
  let ?p0 = "\<lparr>previous_canonical_micro_fork = None, micro_forks_updated = [], anchor_block_updated = None\<rparr>"
  have "progress_ok a pool ?p0" by (simp add: progress_ok_def)
  from process_microblocks_loop_inv [OF wf ms(1) a inv this] obtain pool1 pr where
    lp: "process_microblocks_loop pool ?p0 ms = Done (pool1, pr)" "pool_inv H M pool1" "progress_ok a pool1 pr"
      "sp_forks pool1 = sp_forks pool" "sp_canonical_fork_id pool1 = sp_canonical_fork_id pool" by blast
  show ?thesis
  proof (cases "micro_forks_updated pr = [] \<or> anchor_block_updated pr = None")
    case True
    with False lp show ?thesis by (auto simp: process_microblocks_def split: option.splits)
  next
    case upd: False
    with lp(3) obtain anchor fs where anchor: "anchor_block_updated pr = Some anchor" "bid_hash anchor = a"
      and fs: "micro_forks_updated pr = [a]" "hm_get (micro_forks pool1) a = Some fs" "fs \<noteq> []"
      by (auto simp: progress_ok_def)
    let ?k = "select_canonical (enumerate 0 fs)"
    have "enumerate 0 fs \<noteq> []" using fs(3) by (cases fs) auto
    then have "?k \<in> fst ` set (enumerate 0 fs)" by (rule select_canonical_mem)
    then have k: "?k < length fs" by (auto simp: in_set_enumerate_eq)
    define pool2 where "pool2 = pool1\<lparr>canonical_micro_fork_id := hm_insert a ?k (canonical_micro_fork_id pool1)\<rparr>"
    have mi: "micro_inv M pool1" using lp(2) by (simp add: pool_inv_def)
    have mi2: "micro_inv M pool2"
      unfolding pool2_def
      by (rule micro_inv_confirm(1) [OF mi fs(2)]) (use k in auto)
    have inv2: "pool_inv H M pool2"
      using lp(2) mi2 sp_lookup_cong [of pool2 pool1] by (simp add: pool_inv_def pool2_def store_inv_def)
    have run: "process_microblocks pool ms =
        (case generate_microblock_chain_event pool2 anchor (fs ! ?k) (previous_canonical_micro_fork pr) of
           Inr chain_event \<Rightarrow> Done (Inr chain_event, pool2) | Inl _ \<Rightarrow> Done (Inr None, pool2))"
      using False lp(1) anchor fs k
      by (simp add: process_microblocks_def pool2_def vec_index_def Let_def split: sum.split)
    have ev: "sp_consume ev held = Some held"
      if "generate_microblock_chain_event pool2 anchor (fs ! ?k) (previous_canonical_micro_fork pr) = Inr ev" for ev
      using that
      by (auto simp: generate_microblock_chain_event_def microblocks_event_def sp_consume_def
          split: option.splits sum.splits if_splits)
    show ?thesis
      using run ev inv2 lp(4,5)
      by (cases "generate_microblock_chain_event pool2 anchor (fs ! ?k) (previous_canonical_micro_fork pr)")
        (auto simp: pool2_def)
  qed
qed

section \<open>Reachable pools\<close>

text \<open>
  What the pool is fed: blocks, and trails of microblocks. \<open>H\<close> and \<open>M\<close> are the headers and the
  microblocks of the world.
\<close>

datatype pool_input = NewBlockInput stacks_block_data | NewMicroblocksInput "stacks_microblock_data list"

fun pool_step ::
  "stacks_block_pool \<Rightarrow> pool_input \<Rightarrow> ((string + stacks_chain_event option) \<times> stacks_block_pool) outcome" where
  "pool_step pool (NewBlockInput block) = process_block pool block"
| "pool_step pool (NewMicroblocksInput ms) = process_microblocks pool ms"

fun admissible :: "block_header list \<Rightarrow> stacks_microblock_data list \<Rightarrow> pool_input \<Rightarrow> bool" where
  "admissible H M (NewBlockInput block) = list_ex (\<lambda>h. h = sb_get_header block) H"
| "admissible H M (NewMicroblocksInput ms) = (list_all (\<lambda>m. list_ex (\<lambda>m'. m' = m) M) ms \<and> same_anchor ms)"

inductive pool_reachable ::
  "block_header list \<Rightarrow> stacks_microblock_data list \<Rightarrow> stacks_block_pool \<Rightarrow> bool" for H M where
  initial: "pool_reachable H M stacks_block_pool_new"
| step: "pool_reachable H M pool \<Longrightarrow> admissible H M input \<Longrightarrow>
    pool_step pool input = Done (r, pool') \<Longrightarrow> pool_reachable H M pool'"

lemma pool_step_inv:
  assumes "wf_headers H" "wf_microblocks M" "pool_inv H M pool" "admissible H M input"
  shows "\<exists>r pool'. pool_step pool input = Done (r, pool') \<and> pool_inv H M pool' \<and>
     (headers_within lo H \<longrightarrow>
        (\<exists>ev. r = Inr ev \<and>
           (forks_connected (sp_forks pool) \<longrightarrow> sp_in_sync pool held \<longrightarrow>
              (\<exists>held'. sp_consume ev held = Some held' \<and> sp_in_sync pool' held'))))"
proof (cases input)
  case (NewBlockInput block)
  with process_block_inv [OF assms(1) _ assms(3), of block lo held] assms(4) show ?thesis
    by (auto simp: list_ex_iff)
next
  case (NewMicroblocksInput ms)
  with assms(4) have "set ms \<subseteq> set M" "same_anchor ms" by (auto simp: list_all_iff list_ex_iff)
  from process_microblocks_inv [OF assms(2) this assms(3), of held] NewMicroblocksInput show ?thesis
    by (auto simp: sp_in_sync_def)
qed

lemma pool_reachable_inv:
  assumes "wf_headers H" "wf_microblocks M" "pool_reachable H M pool"
  shows "pool_inv H M pool"
  using assms(3)
proof (induction rule: pool_reachable.induct)
  case initial
  show ?case by (rule stacks_block_pool_new_inv)
next
  case (step pool input r pool')
  with pool_step_inv [OF assms(1,2), of pool input] show ?case by auto
qed

text \<open>Concrete inputs: a block at height \<open>i\<close> named \<open>c\<close> on the block named \<open>p\<close>, anchored in Bitcoin block \<open>n\<close>.\<close>

definition named :: "nat \<Rightarrow> char \<Rightarrow> block_identifier" where
  "named i c = BlockIdentifier (of_nat i) [c]"

definition block_at :: "nat \<Rightarrow> char \<Rightarrow> char \<Rightarrow> nat \<Rightarrow> stacks_block_data" where
  "block_at i c p n =
     \<lparr>sb_block_identifier = named i c, sb_parent_block_identifier = named (i - 1) p, sb_timestamp = 0,
      sb_transactions = [],
      sb_metadata =
        \<lparr>bitcoin_anchor_block_identifier = BlockIdentifier (of_nat n) [], pox_cycle_index = 0,
         pox_cycle_position = 0, pox_cycle_length = 0, confirm_microblock_identifier = None,
         stacks_block_hash = [c], block_time = None, signer_bitvec = None, signer_signature = None,
         signer_public_keys = None, cycle_number = None, reward_set = None, tenure_height = None\<rparr>\<rparr>"

text \<open>The microblock of sequence \<open>i\<close> named \<open>c\<close> after \<open>p\<close>, on the anchor block named \<open>a\<close>.\<close>

definition microblock_at :: "nat \<Rightarrow> char \<Rightarrow> char \<Rightarrow> char \<Rightarrow> stacks_microblock_data" where
  "microblock_at i c p a =
     \<lparr>mb_block_identifier = named i c, mb_parent_block_identifier = named (i - 1) p, mb_timestamp = 0,
      mb_transactions = [], mb_anchor_block_identifier = BlockIdentifier 0 [a]\<rparr>"

fun sp_run_consumer ::
  "stacks_block_pool \<Rightarrow> block_identifier list \<Rightarrow> pool_input list \<Rightarrow>
   (block_identifier list option \<times> stacks_block_pool) outcome" where
  "sp_run_consumer pool held [] = Done (Some held, pool)"
| "sp_run_consumer pool held (input # inputs) =
     (case pool_step pool input of
        Done (Inr ev, pool') \<Rightarrow>
          (case sp_consume ev held of
             None \<Rightarrow> Done (None, pool')
           | Some held' \<Rightarrow> sp_run_consumer pool' held' inputs)
      | Done (Inl _, pool') \<Rightarrow> sp_run_consumer pool' held inputs
      | Panic \<Rightarrow> Panic
      | Diverge \<Rightarrow> Diverge)"

fun sp_run_connected :: "stacks_block_pool \<Rightarrow> pool_input list \<Rightarrow> bool" where
  "sp_run_connected pool [] = forks_connected (sp_forks pool)"
| "sp_run_connected pool (input # inputs) =
     (forks_connected (sp_forks pool) \<and>
      (case pool_step pool input of
         Done (_, pool') \<Rightarrow> sp_run_connected pool' inputs
       | Panic \<Rightarrow> False
       | Diverge \<Rightarrow> False))"

section \<open>Properties\<close>

text \<open>
  C1. The block events of the Stacks pool can be followed. Feed a fresh \<^verbatim>\<open>StacksBlockPool\<close> blocks and
  microblock trails of a blockchain in any order (every block above its parent, a hash names one
  block, heights within a span of 65535, a microblock on the anchor of its parent, one anchor per
  trail): as long as every two forks share a block, each call returns without panic, error or
  divergence, and a consumer that rolls back and applies exactly the blocks the events list never
  fails and ends up with the canonical fork at the top of its chain.
\<close>

theorem stacks_pool_consumer_follows:
  assumes "wf_headers H" and "wf_microblocks M" and "headers_within lo H"
    and "list_all (admissible H M) inputs" and "sp_run_connected stacks_block_pool_new inputs"
  shows "\<exists>held pool seg. sp_run_consumer stacks_block_pool_new [] inputs = Done (Some held, pool) \<and>
     bt_get (sp_forks pool) (sp_canonical_fork_id pool) = Some seg \<and> prefix (block_ids seg) held"
proof -
  have "\<exists>held' pool'. sp_run_consumer pool held inputs = Done (Some held', pool') \<and> sp_in_sync pool' held'"
    if "list_all (admissible H M) inputs" "sp_run_connected pool inputs" "pool_inv H M pool" "sp_in_sync pool held"
    for pool held
    using that
  proof (induction inputs arbitrary: pool held)
    case (Cons i inputs)
    from pool_step_inv [OF assms(1,2) Cons.prems(3), of i lo held] Cons.prems assms(3)
    obtain ev pool' held' where "pool_step pool i = Done (Inr ev, pool')" "pool_inv H M pool'"
      "sp_consume ev held = Some held'" "sp_in_sync pool' held'" by auto
    with Cons.IH [of pool' held'] Cons.prems show ?case by auto
  qed simp
  moreover have "sp_in_sync stacks_block_pool_new []"
    by (simp add: sp_in_sync_def stacks_block_pool_new_def chain_segment_new_def)
  ultimately obtain held pool where
    "sp_run_consumer stacks_block_pool_new [] inputs = Done (Some held, pool)" "sp_in_sync pool held"
    using stacks_block_pool_new_inv assms(4,5) by blast
  then show ?thesis by (auto simp: sp_in_sync_def split: option.splits)
qed

definition sample_inputs :: "pool_input list" where
  "sample_inputs =
     [NewBlockInput (block_at 1 CHR ''a'' CHR ''g'' 1), NewBlockInput (block_at 2 CHR ''b'' CHR ''a'' 2),
      NewMicroblocksInput [microblock_at 0 CHR ''m'' CHR ''m'' CHR ''b'', microblock_at 1 CHR ''n'' CHR ''m'' CHR ''b''],
      NewBlockInput (block_at 2 CHR ''c'' CHR ''a'' 2), NewBlockInput (block_at 3 CHR ''d'' CHR ''c'' 3)]"

definition sample_headers :: "block_header list" where
  "sample_headers = map sb_get_header
     [block_at 1 CHR ''a'' CHR ''g'' 1, block_at 2 CHR ''b'' CHR ''a'' 2,
      block_at 2 CHR ''c'' CHR ''a'' 2, block_at 3 CHR ''d'' CHR ''c'' 3]"

definition sample_microblocks :: "stacks_microblock_data list" where
  "sample_microblocks =
     [microblock_at 0 CHR ''m'' CHR ''m'' CHR ''b'', microblock_at 1 CHR ''n'' CHR ''m'' CHR ''b'']"

lemma sample_world_1: "wf_headers sample_headers"
  by code_simp

lemma sample_world_2: "wf_microblocks sample_microblocks"
  by (simp add: wf_microblocks_def sample_microblocks_def microblock_at_def named_def bid_eq_def)

lemma sample_world_3: "headers_within 0 sample_headers"
  by (simp add: headers_within_def within_span_def sample_headers_def block_at_def named_def sb_get_header_def)

lemma sample_world_4: "list_all (admissible sample_headers sample_microblocks) sample_inputs"
  by code_simp

lemma sample_world_5: "sp_run_connected stacks_block_pool_new sample_inputs"
  by code_simp

lemmas sample_world = sample_world_1 sample_world_2 sample_world_3 sample_world_4 sample_world_5

theorem stacks_pool_consumer_follows_witness:
  "\<exists>held pool seg. sp_run_consumer stacks_block_pool_new [] sample_inputs = Done (Some held, pool) \<and>
     bt_get (sp_forks pool) (sp_canonical_fork_id pool) = Some seg \<and> prefix (block_ids seg) held"
  by (rule stacks_pool_consumer_follows [OF sample_world])

text \<open>
  C10. No call on a reachable Stacks pool panics, fails to index a microblock trail or runs forever:
  from every pool that blocks and microblock trails of a blockchain lead to, \<^verbatim>\<open>process_block\<close> and
  \<^verbatim>\<open>process_microblocks\<close> return on the next block or trail, connected forks or not.
\<close>

theorem stacks_pool_returns:
  assumes "wf_headers H" and "wf_microblocks M" and "pool_reachable H M pool" and "admissible H M input"
  shows "returns (pool_step pool input)"
  using pool_step_inv [OF assms(1,2) pool_reachable_inv [OF assms(1,2,3)] assms(4), of 0 "[]"]
  unfolding returns_iff by blast

theorem stacks_pool_returns_witness:
  "returns (pool_step stacks_block_pool_new (NewBlockInput (block_at 1 CHR ''a'' CHR ''g'' 1)))"
  by (rule stacks_pool_returns [OF sample_world(1,2) pool_reachable.initial]) code_simp



text \<open>
  The distance between the two highest forks, which decides whether blocks are confirmed: with
  fewer than two forks there is none; otherwise it is the exact difference of the two highest tips
  when that fits a \<^verbatim>\<open>u16\<close>, and \<^verbatim>\<open>process_block\<close> fails exactly when it does not.
\<close>

theorem competing_fork_height_delta_exact:
  "case competing_fork_height_delta heights of
     Inr None \<Rightarrow> length heights \<le> 1
   | Inr (Some delta) \<Rightarrow> 1 < length heights \<and>
       unat delta = unat (rev (sort heights) ! 0) - unat (rev (sort heights) ! 1)
   | Inl _ \<Rightarrow> 1 < length heights \<and>
       65535 < unat (rev (sort heights) ! 0) - unat (rev (sort heights) ! 1)"
proof (cases "1 < length heights")
  case True
  let ?s = "sort heights" and ?n = "length heights"
  let ?t = "?s ! (?n - 1) - ?s ! (?n - 2)"
  have "?s ! (?n - 2) \<le> ?s ! (?n - 1)" using True by (intro sorted_nth_mono) auto
  then have u: "unat ?t = unat (?s ! (?n - 1)) - unat (?s ! (?n - 2))" by (simp add: unat_sub)
  have r: "rev ?s ! 0 = ?s ! (?n - 1)" "rev ?s ! 1 = ?s ! (?n - 2)"
  proof -
    have "heights \<noteq> []" using True by auto
    then show "rev ?s ! 0 = ?s ! (?n - 1)" using rev_nth [of 0 ?s] by simp
    show "rev ?s ! 1 = ?s ! (?n - 2)" using True rev_nth [of 1 ?s] by (simp add: numeral_2_eq_2)
  qed
  have le: "?t \<le> 65535 \<longleftrightarrow> unat ?t \<le> 65535" by (simp add: word_le_nat_alt)
  have uc: "unat (ucast ?t :: u16) = unat ?t" if "unat ?t \<le> 65535"
    using that by (simp add: unsigned_ucast_eq take_bit_nat_eq_self)
  show ?thesis
  proof (cases "?t \<le> 65535")
    case fits: True
    then have "competing_fork_height_delta heights = Inr (Some (ucast ?t))"
      using True by (simp add: competing_fork_height_delta_def Let_def)
    with True uc u r fits le show ?thesis by simp
  next
    case False
    then have "\<exists>e. competing_fork_height_delta heights = Inl e"
      using True by (simp add: competing_fork_height_delta_def Let_def)
    with True u r False le show ?thesis by auto
  qed
qed (simp add: competing_fork_height_delta_def Let_def)

lemma sorted_wrt_rev_drop:
  "sorted_wrt (\<lambda>x y. bid_index y < bid_index x) as \<Longrightarrow> sorted_wrt (\<lambda>x y. bid_index x < bid_index y) (rev (drop n as))"
  by (simp add: sorted_wrt_rev sorted_wrt_drop)

lemma descending_depth:
  assumes "sorted_wrt (\<lambda>x y. bid_index y < bid_index x) as" "n < length as"
  shows "unat (bid_index (as ! n)) + n \<le> unat (bid_index (as ! 0))"
  using assms(2)
proof (induction n)
  case (Suc n)
  have "bid_index (as ! Suc n) < bid_index (as ! n)" using sorted_wrt_nth_less [OF assms(1), of n "Suc n"] Suc.prems by simp
  with Suc show ?case by (simp add: word_less_nat_alt)
qed simp

lemma get_confirmed_set_confirmed:
  "sp_event_tip e = Some tc \<Longrightarrow> get_confirmed_blocks (sp_set_confirmed e bs) = bs"
  "sp_event_tip e = Some (t, bs) \<Longrightarrow> get_confirmed_blocks e = bs"
  by (cases e; auto)+

text \<open>The ancestors of a stored tip, by hash and by identifier.\<close>

lemma stored_ancestors:
  assumes wf: "wf_headers H" and si: "store_inv H pool" and tip: "sp_lookup pool tip \<noteq> None"
  obtains as where "ancestor_loop (raw_lookup pool) tip [] = Some as"
    and "sorted_wrt (\<lambda>x y. bid_index y < bid_index x) as" and "\<forall>x \<in> set as. sp_lookup pool x \<noteq> None"
    and "as \<noteq> []" and "as ! 0 = tip"
proof -
  note so = store_inv_ok [OF si]
  from tip so have "\<exists>h \<in> set H. tip = block_identifier h" unfolding store_ok_def by (metis not_Some_eq)
  then have "ancestor_loop (raw_lookup pool) tip [] = ancestor_loop (sp_lookup pool) tip []"
    using raw_lookup_eq [OF wf si] by (intro ancestor_loop_cong [OF wf so]) blast+
  with ancestor_loop_total [OF wf so, of tip "[]"] tip obtain as where
    "ancestor_loop (raw_lookup pool) tip [] = Some as" "sorted_wrt (\<lambda>x y. bid_index y < bid_index x) as"
    "\<forall>x \<in> set as. sp_lookup pool x \<noteq> None" "as \<noteq> []" "hd as = tip" by auto
  then show thesis by (intro that) (auto simp: hd_conv_nth)
qed

text \<open>
  The blocks \<^verbatim>\<open>collect_and_prune_confirmed_blocks\<close> puts into an event are confirmed in order: they
  come out of the store oldest first, strictly by height, at least six below the tip of the event,
  and are no longer stored afterwards.
\<close>

theorem confirmed_blocks_in_order:
  assumes "wf_headers H" and "store_inv H pool" and "sp_lookup pool tip \<noteq> None"
    and "sp_event_tip event = Some (tip, [])"
    and "sp_collect_and_prune_confirmed_blocks pool event = Done (event', pool')"
  shows "sorted_wrt (\<lambda>b c. bid_index (sb_block_identifier b) < bid_index (sb_block_identifier c))
      (get_confirmed_blocks event') \<and>
    list_all (\<lambda>b. unat (bid_index (sb_block_identifier b)) + 6 \<le> unat (bid_index tip) \<and>
      get_block pool (sb_block_identifier b) = Some b \<and> get_block pool' (sb_block_identifier b) = None)
      (get_confirmed_blocks event')"
proof -
  obtain as where as: "ancestor_loop (raw_lookup pool) tip [] = Some as"
      "sorted_wrt (\<lambda>x y. bid_index y < bid_index x) as" "\<forall>x \<in> set as. sp_lookup pool x \<noteq> None"
      "as \<noteq> []" "as ! 0 = tip"
    by (rule stored_ancestors [OF assms(1-3)])
  show ?thesis
  proof (cases "length as < CONFIRMED_SEGMENT_MINIMUM_LENGTH")
    case True
    with assms(4,5) as(1) get_confirmed_set_confirmed(2) [OF assms(4)] show ?thesis
      by (auto simp: sp_collect_and_prune_confirmed_blocks_def)
  next
    case False
    note so = store_inv_ok [OF assms(2)]
    let ?old = "rev (drop 6 as)"
    obtain fs1 pruned emptied where pf: "prune_forks (as ! 5) (sp_forks pool) = (fs1, pruned, emptied)"
      by (metis prod_cases3)
    obtain os1 dropped where po: "prune_orphans (as ! 5) (sp_orphans pool) = (os1, dropped)" by fastforce
    have olds: "\<forall>x \<in> set ?old. sp_lookup pool x \<noteq> None" using as(3) in_set_dropD by fastforce
    have "distinct as" using as(2) by (induction as) auto
    moreover have "inj_on bid_hash (set ?old)"
      using store_ok_bid_eq [OF assms(1) so] olds by (auto simp: inj_on_def bid_eq_def)
    ultimately have dist: "distinct (map bid_hash ?old)" by (simp add: distinct_map)
    have "hm_get (block_store pool) (bid_hash x) \<noteq> None" if "x \<in> set ?old" for x
      using olds that sp_lookup_get_block by blast
    from sp_take_confirmed_all [OF dist this, of "[]"] obtain cs where
      tc: "sp_take_confirmed ?old (block_store pool) [] =
            (True, fold hm_remove (map bid_hash ?old) (block_store pool), cs)"
      and cs: "map Some cs = map (get_block pool) ?old" by auto
    have ids: "map sb_block_identifier cs = ?old"
      using stored_identifiers [OF so fetched_headers [OF cs olds]] by (simp add: comp_def)
    have ev: "event' = sp_set_confirmed event cs"
      and store: "block_store pool' = fold hm_remove (map bid_hash (pruned @ dropped))
            (fold hm_remove (map bid_hash ?old) (block_store pool))"
      using assms(4,5) as(1) False pf po tc
      by (auto simp: sp_collect_and_prune_confirmed_blocks_def CONFIRMED_SEGMENT_MINIMUM_LENGTH_def)
    have conf: "get_confirmed_blocks event' = cs" unfolding ev by (rule get_confirmed_set_confirmed(1) [OF assms(4)])
    have "sorted_wrt (\<lambda>x y. bid_index x < bid_index y) (map sb_block_identifier cs)"
      unfolding ids by (rule sorted_wrt_rev_drop [OF as(2)])
    then have "sorted_wrt (\<lambda>b c. bid_index (sb_block_identifier b) < bid_index (sb_block_identifier c)) cs"
      by (simp add: sorted_wrt_map)
    moreover have "unat (bid_index (sb_block_identifier b)) + 6 \<le> unat (bid_index tip) \<and>
      get_block pool (sb_block_identifier b) = Some b \<and> get_block pool' (sb_block_identifier b) = None"
      if b: "b \<in> set cs" for b
    proof (intro conjI)
      have m: "sb_block_identifier b \<in> set ?old" using b ids by (metis imageI image_set)
      then obtain i where i: "i < length (drop 6 as)" "sb_block_identifier b = drop 6 as ! i"
        by (metis in_set_conv_nth set_rev)
      then have "6 + i < length as" by simp
      with descending_depth [OF as(2), of "6 + i"] as(5) i
      show "unat (bid_index (sb_block_identifier b)) + 6 \<le> unat (bid_index tip)" by simp
      show "get_block pool' (sb_block_identifier b) = None" using m by (simp add: store hm_get_fold_remove)
      from b obtain n where n: "n < length cs" "cs ! n = b" by (metis in_set_conv_nth)
      then have "get_block pool (?old ! n) = Some b" using cs by (metis length_map nth_map)
      moreover have "?old ! n = sb_block_identifier b" using n ids by (metis nth_map)
      ultimately show "get_block pool (sb_block_identifier b) = Some b" by simp
    qed
    ultimately show ?thesis unfolding conf list_all_iff by blast
  qed
qed

definition seven_blocks :: "stacks_block_data list" where
  "seven_blocks =
     [block_at 1 CHR ''a'' CHR ''z'' 1, block_at 2 CHR ''b'' CHR ''a'' 1, block_at 3 CHR ''c'' CHR ''b'' 1,
      block_at 4 CHR ''d'' CHR ''c'' 1, block_at 5 CHR ''e'' CHR ''d'' 1, block_at 6 CHR ''f'' CHR ''e'' 1,
      block_at 7 CHR ''g'' CHR ''f'' 1]"

definition seven_pool :: stacks_block_pool where
  "seven_pool = stacks_block_pool_new
     \<lparr>block_store := map (\<lambda>b. (bid_hash (sb_block_identifier b), b)) seven_blocks,
      sp_forks := [(0, \<lparr>block_ids = rev (map sb_block_identifier seven_blocks)\<rparr>)]\<rparr>"

definition seven_event :: stacks_chain_event where
  "seven_event = ChainUpdatedWithBlocks
     \<lparr>new_blocks = [stacks_block_update_new (block_at 7 CHR ''g'' CHR ''f'' 1)], new_confirmed_blocks = []\<rparr>"

lemma seven_pool_ok:
  "wf_headers (map sb_get_header seven_blocks)" "store_inv (map sb_get_header seven_blocks) seven_pool"
  "sp_lookup seven_pool (named 7 CHR ''g'') \<noteq> None" "sp_event_tip seven_event = Some (named 7 CHR ''g'', [])"
  "returns (sp_collect_and_prune_confirmed_blocks seven_pool seven_event)"
proof -
  show "store_inv (map sb_get_header seven_blocks) seven_pool"
    by (auto simp: store_inv_def seven_pool_def seven_blocks_def block_at_def named_def split: if_splits)
qed code_simp+

theorem confirmed_blocks_in_order_witness:
  "\<exists>event pool. sp_collect_and_prune_confirmed_blocks seven_pool seven_event = Done (event, pool) \<and>
     sorted_wrt (\<lambda>b c. bid_index (sb_block_identifier b) < bid_index (sb_block_identifier c))
       (get_confirmed_blocks event) \<and>
     list_all (\<lambda>b. unat (bid_index (sb_block_identifier b)) + 6 \<le> unat (bid_index (named 7 CHR ''g'')) \<and>
       get_block seven_pool (sb_block_identifier b) = Some b \<and> get_block pool (sb_block_identifier b) = None)
       (get_confirmed_blocks event)"
proof -
  obtain event pool where c: "sp_collect_and_prune_confirmed_blocks seven_pool seven_event = Done (event, pool)"
    using seven_pool_ok(5) by (auto simp: returns_iff)
  with confirmed_blocks_in_order [OF seven_pool_ok(1-4) c] show ?thesis by blast
qed

section \<open>Where the pool departs from its intent\<close>

text \<open>
  The fork selected as canonical need not be on the highest Bitcoin block: a fork whose tip is
  anchored in Bitcoin block 3 loses against a fork anchored in block 2 that is longer, although the
  comment in \<^verbatim>\<open>process_block\<close> says that the canonical tip must belong to the Bitcoin fork with the
  highest tip.
\<close>

theorem stacks_pool_selects_lower_bitcoin_height:
  "case sp_run_consumer stacks_block_pool_new []
       [NewBlockInput (block_at 1 CHR ''a'' CHR ''g'' 1), NewBlockInput (block_at 2 CHR ''b'' CHR ''a'' 2),
        NewBlockInput (block_at 3 CHR ''c'' CHR ''b'' 2), NewBlockInput (block_at 2 CHR ''d'' CHR ''a'' 3)] of
     Done (_, pool) \<Rightarrow>
       sp_canonical_fork_id pool = 0 \<and>
       map (\<lambda>(i, f). (i, tip_bitcoin_height pool (hd (block_ids f)))) (sp_forks pool) = [(0, 2), (1, 3)]
   | Panic \<Rightarrow> False
   | Diverge \<Rightarrow> False"
  by code_simp

text \<open>
  A trail that grows by two microblocks in one message loses one: \<^verbatim>\<open>process_microblocks\<close> reads the
  trail it compares with again for every microblock, after the earlier ones were appended, so the
  event announces the last microblock only and its parent is never announced.
\<close>

theorem microblock_extension_loses_microblock:
  "case process_block stacks_block_pool_new (block_at 1 CHR ''a'' CHR ''g'' 1) of
     Done (_, pool1) \<Rightarrow>
       (case process_microblocks pool1 [microblock_at 0 CHR ''m'' CHR ''m'' CHR ''a'', microblock_at 1 CHR ''n'' CHR ''m'' CHR ''a''] of
          Done (Inr (Some (ChainUpdatedWithMicroblocks ms)), pool2) \<Rightarrow>
            map mb_block_identifier ms = [named 0 CHR ''m'', named 1 CHR ''n''] \<and>
            (case process_microblocks pool2 [microblock_at 2 CHR ''o'' CHR ''n'' CHR ''a'', microblock_at 3 CHR ''p'' CHR ''o'' CHR ''a''] of
               Done (Inr (Some (ChainUpdatedWithMicroblocks ms')), _) \<Rightarrow>
                 map mb_block_identifier ms' = [named 3 CHR ''p'']
             | _ \<Rightarrow> False)
        | _ \<Rightarrow> False)
   | _ \<Rightarrow> False"
  by code_simp

text \<open>
  When the difference of two trails is announced as an extension, the microblocks come newest
  first: the event lists the new microblocks in the order of the segment (tip first), whereas the
  first announcement of a trail lists them oldest first.
\<close>

theorem microblock_extension_newest_first:
  assumes "block_ids segment = extension @ block_ids previous" and "block_ids previous \<noteq> []"
    and "extension \<noteq> []"
    and "list_all (\<lambda>b. bid_hash b \<notin> bid_hash ` set (block_ids previous)) extension"
    and "microblocks_event pool anchor extension = Inr (Some (event :: stacks_chain_event))"
  shows "generate_microblock_chain_event pool anchor segment (Some previous) = Inr (Some event)"
proof -
  obtain t rest where t: "block_ids previous = t # rest" using assms(2) by (cases "block_ids previous") auto
  have no: "\<forall>x \<in> set extension. \<not> bid_eq x t" using assms(4) t by (auto simp: list_all_iff bid_eq_def)
  have "divergence_loop (block_ids segment) (block_ids previous) [] [] = (Some t, [], extension)"
    using no by (simp add: assms(1) t scan_segment_eq takeWhile_append2 dropWhile_append2)
  then have d: "try_identify_divergence segment previous True =
      Inr \<lparr>block_ids_to_apply = rev extension, block_ids_to_rollback = []\<rparr>"
    by (simp add: try_identify_divergence_def)
  have "\<not> seg_eq segment previous"
    using assms(1,3) by (auto simp: seg_eq_def dest: list_all2_lengthD)
  with d assms(1,2,5) show ?thesis
    by (simp add: generate_microblock_chain_event_def seg_is_empty_def)
qed

definition two_trail_pool :: stacks_block_pool where
  "two_trail_pool = stacks_block_pool_new\<lparr>microblock_store :=
     map (\<lambda>m. ((bid_hash (mb_anchor_block_identifier m), bid_hash (mb_block_identifier m)), m))
       [microblock_at 0 CHR ''m'' CHR ''m'' CHR ''a'', microblock_at 1 CHR ''n'' CHR ''m'' CHR ''a'',
        microblock_at 2 CHR ''o'' CHR ''n'' CHR ''a'']\<rparr>"

theorem microblock_extension_newest_first_witness:
  "generate_microblock_chain_event two_trail_pool (named 1 CHR ''a'')
      \<lparr>block_ids = [named 2 CHR ''o'', named 1 CHR ''n'', named 0 CHR ''m'']\<rparr>
      (Some \<lparr>block_ids = [named 0 CHR ''m'']\<rparr>) =
     Inr (Some (ChainUpdatedWithMicroblocks
       [microblock_at 2 CHR ''o'' CHR ''n'' CHR ''a'', microblock_at 1 CHR ''n'' CHR ''m'' CHR ''a'']))"
  by (rule microblock_extension_newest_first [where extension = "[named 2 CHR ''o'', named 1 CHR ''n'']"])
    code_simp+

text \<open>
  Confirming microblocks moves the canonical trail even when it confirms nothing: if no trail of
  the parent block contains the confirmed microblock, no event is produced, but the last trail has
  become the canonical one of the parent block.
\<close>

theorem confirm_unknown_microblock_moves_canonical_trail:
  assumes "confirm_microblock_identifier (sb_metadata block) = Some last_microblock"
    and "hm_get (micro_forks pool) (bid_hash (sb_parent_block_identifier block)) = Some microforks"
    and "microforks \<noteq> []"
    and "list_all (\<lambda>f. list_all (\<lambda>b. \<not> bid_eq b last_microblock) (block_ids f)) microforks"
    and "confirm_microblocks_for_block pool block diff_enabled = Done (r, pool')"
  shows "r = Inr (None, None) \<and>
     hm_get (canonical_micro_fork_id pool') (bid_hash (sb_parent_block_identifier block)) =
       Some (length microforks - 1)"
proof -
  let ?p = "bid_hash (sb_parent_block_identifier block)"
  have loop: "fs \<noteq> [] \<Longrightarrow> list_all (\<lambda>f. list_all (\<lambda>b. \<not> bid_eq b last_microblock) (block_ids f)) fs \<Longrightarrow>
      \<exists>ids'. confirm_loop ?p last_microblock n i fs ids = (None, ids') \<and> hm_get ids' ?p = Some (i + length fs - 1)"
    for n i fs ids
  proof (induction fs arbitrary: i ids)
    case (Cons f fs)
    then have no: "\<not> list_ex (\<lambda>b. bid_eq b last_microblock) (block_ids f)"
      by (auto simp: list_all_iff list_ex_iff)
    show ?case
    proof (cases "fs = []")
      case True
      with no show ?thesis by simp
    next
      case False
      with Cons.IH [of "Suc i" "hm_insert ?p i ids"] Cons.prems no show ?thesis by auto
    qed
  qed simp
  from loop [OF assms(3,4), of "length microforks" 0 "canonical_micro_fork_id pool"] assms(1,2,5) show ?thesis
    by (auto simp: confirm_microblocks_for_block_def Let_def bind_outcome_Done_iff)
qed

theorem confirm_unknown_microblock_moves_canonical_trail_witness:
  "let block = (block_at 2 CHR ''b'' CHR ''a'' 1)
         \<lparr>sb_metadata := (sb_metadata (block_at 2 CHR ''b'' CHR ''a'' 1))
            \<lparr>confirm_microblock_identifier := Some (named 0 CHR ''x'')\<rparr>\<rparr>;
       pool = stacks_block_pool_new
         \<lparr>micro_forks := [(''a'', [\<lparr>block_ids = [named 0 CHR ''m'']\<rparr>, \<lparr>block_ids = [named 0 CHR ''n'']\<rparr>])],
          canonical_micro_fork_id := [(''a'', 0)]\<rparr>
   in \<exists>r pool'. confirm_microblocks_for_block pool block True = Done (r, pool') \<and> r = Inr (None, None) \<and>
        hm_get (canonical_micro_fork_id pool') ''a'' = Some 1"
proof -
  let ?block = "(block_at 2 CHR ''b'' CHR ''a'' 1)
         \<lparr>sb_metadata := (sb_metadata (block_at 2 CHR ''b'' CHR ''a'' 1))
            \<lparr>confirm_microblock_identifier := Some (named 0 CHR ''x'')\<rparr>\<rparr>"
  let ?pool = "stacks_block_pool_new
         \<lparr>micro_forks := [(''a'', [\<lparr>block_ids = [named 0 CHR ''m'']\<rparr>, \<lparr>block_ids = [named 0 CHR ''n'']\<rparr>])],
          canonical_micro_fork_id := [(''a'', 0)]\<rparr>"
  have "returns (confirm_microblocks_for_block ?pool ?block True)" by code_simp
  then obtain r pool' where c: "confirm_microblocks_for_block ?pool ?block True = Done (r, pool')"
    by (auto simp: returns_iff)
  from confirm_unknown_microblock_moves_canonical_trail
    [OF _ _ _ _ c, of "named 0 CHR ''x''" "[\<lparr>block_ids = [named 0 CHR ''m'']\<rparr>, \<lparr>block_ids = [named 0 CHR ''n'']\<rparr>]"] c
  show ?thesis by (simp add: block_at_def named_def bid_eq_def)
qed

end
