(* ===== verification/Stacks_Receipt.thy ===== *)
theory Stacks_Receipt
  imports Stacks_Types
begin

text \<open>
  \<^verbatim>\<open>get_standardized_stacks_receipt\<close> of \<^verbatim>\<open>components/observer/src/indexer/stacks/mod.rs\<close>: the events of a
  transaction as a receipt (which contracts and assets were touched) and a list of Rosetta operations
  (who was credited and debited). Amounts arrive as decimal strings; an amount that does not parse
  panics, as the \<^verbatim>\<open>expect\<close> calls of the source do. The arguments \<^verbatim>\<open>_txid\<close> and \<^verbatim>\<open>node_url\<close>, which the
  source does not use, are left out.
\<close>

section \<open>Numbers in strings\<close>

text \<open>\<^verbatim>\<open>str::parse::<u128>\<close>.\<close>

definition parse_u128 :: "string \<Rightarrow> u128 option" where
  "parse_u128 s =
     (case parse_unsigned s of
        None \<Rightarrow> None
      | Some n \<Rightarrow> if n < 2 ^ 128 then Some (word_of_int n) else None)"

section \<open>Currencies\<close>

record asset_class_cache =
  cache_symbol :: string
  cache_decimals :: u8

definition get_stacks_currency :: currency where
  "get_stacks_currency = \<lparr>symbol = ''STX'', decimals = 6, currency_meta = None\<rparr>"

definition fungible_currency :: "string \<Rightarrow> asset_class_cache \<Rightarrow> currency" where
  "fungible_currency asset_class_id entry =
     \<lparr>symbol = cache_symbol entry, decimals = ucast (cache_decimals entry),
      currency_meta = Some \<lparr>asset_class_identifier = asset_class_id, asset_identifier = None, standard = Sip10\<rparr>\<rparr>"

definition get_standardized_fungible_currency_from_asset_class_id ::
  "string \<Rightarrow> (string, asset_class_cache) hash_map \<Rightarrow> currency \<times> (string, asset_class_cache) hash_map" where
  "get_standardized_fungible_currency_from_asset_class_id asset_class_id cache =
     (case hm_get cache asset_class_id of
        None \<Rightarrow>
          let entry = \<lparr>cache_symbol = ''TOKEN'', cache_decimals = 6\<rparr>
          in (fungible_currency asset_class_id entry, hm_insert asset_class_id entry cache)
      | Some entry \<Rightarrow> (fungible_currency asset_class_id entry, cache))"

definition get_standardized_non_fungible_currency_from_asset_class_id :: "string \<Rightarrow> string \<Rightarrow> currency" where
  "get_standardized_non_fungible_currency_from_asset_class_id asset_class_id asset_id =
     \<lparr>symbol = asset_class_id, decimals = 0,
      currency_meta = Some \<lparr>asset_class_identifier = asset_class_id, asset_identifier = Some asset_id,
        standard = Sip09\<rparr>\<rparr>"

text \<open>The part of an asset class identifier before the first \<^verbatim>\<open>::\<close>, or all of it.\<close>

fun before_separator :: "string \<Rightarrow> string" where
  "before_separator [] = []"
| "before_separator [c] = [c]"
| "before_separator (c # d # rest) =
     (if c = CHR '':'' \<and> d = CHR '':'' then [] else c # before_separator (d # rest))"

definition get_mutated_ids :: "string \<Rightarrow> string \<times> string" where
  "get_mutated_ids asset_class_id = (asset_class_id, before_separator asset_class_id)"

section \<open>Operations\<close>

text \<open>What the loop over the events carries.\<close>

record receipt_state =
  rcp_contracts :: "string set"
  rcp_assets :: "string set"
  rcp_operations :: "operation list"
  rcp_operation_id :: u32
  rcp_cache :: "(string, asset_class_cache) hash_map"

definition operation_at ::
  "u32 \<Rightarrow> u32 option \<Rightarrow> operation_type \<Rightarrow> string \<Rightarrow> u128 \<Rightarrow> currency \<Rightarrow> operation" where
  "operation_at i related ty account v c =
     \<lparr>operation_identifier = \<lparr>op_index = i, op_network_index = None\<rparr>,
      related_operations = map_option (\<lambda>j. [\<lparr>op_index = j, op_network_index = None\<rparr>]) related,
      operation_type = ty, operation_status = Some Success,
      operation_account = \<lparr>account_address = account, account_sub_account = None\<rparr>,
      operation_amount = Some \<lparr>amount_value = v, amount_currency = c\<rparr>, operation_meta = None\<rparr>"

text \<open>A single operation, and the debit and credit of a transfer, which refer to each other.\<close>

definition push_single :: "operation_type \<Rightarrow> string \<Rightarrow> u128 \<Rightarrow> currency \<Rightarrow> receipt_state \<Rightarrow> receipt_state" where
  "push_single ty account v c s =
     s\<lparr>rcp_operations := rcp_operations s @ [operation_at (rcp_operation_id s) None ty account v c],
       rcp_operation_id := rcp_operation_id s + 1\<rparr>"

definition push_transfer :: "string \<Rightarrow> string \<Rightarrow> u128 \<Rightarrow> currency \<Rightarrow> receipt_state \<Rightarrow> receipt_state" where
  "push_transfer from to v c s =
     (let i = rcp_operation_id s
      in s\<lparr>rcp_operations := rcp_operations s @
             [operation_at i (Some (i + 1)) Debit from v c,
              operation_at (i + 1) (Some (i + 1 - 1)) Credit to v c],
           rcp_operation_id := i + 1 + 1\<rparr>)"

definition touch_asset :: "string \<Rightarrow> receipt_state \<Rightarrow> receipt_state" where
  "touch_asset asset_class_id s =
     (case get_mutated_ids asset_class_id of
        (asset_class, contract) \<Rightarrow>
          s\<lparr>rcp_assets := insert asset_class (rcp_assets s),
            rcp_contracts := insert contract (rcp_contracts s)\<rparr>)"

definition with_fungible ::
  "string \<Rightarrow> (currency \<Rightarrow> receipt_state \<Rightarrow> receipt_state outcome) \<Rightarrow> receipt_state \<Rightarrow> receipt_state outcome" where
  "with_fungible asset_class_id k s =
     (let s1 = touch_asset asset_class_id s
      in case get_standardized_fungible_currency_from_asset_class_id asset_class_id (rcp_cache s1) of
           (c, cache) \<Rightarrow> k c (s1\<lparr>rcp_cache := cache\<rparr>))"

definition with_amount :: "string \<Rightarrow> (u128 \<Rightarrow> receipt_state) \<Rightarrow> receipt_state outcome" where
  "with_amount amt k = bind_outcome (expect (parse_u128 amt)) (\<lambda>v. Done (k v))"

fun standardize_event :: "stacks_transaction_event_payload \<Rightarrow> receipt_state \<Rightarrow> receipt_state outcome" where
  "standardize_event (STXMintEvent d) s =
     with_amount (stx_mint_amount d) (\<lambda>v. push_single Credit (stx_mint_recipient d) v get_stacks_currency s)"
| "standardize_event (STXLockEvent d) s =
     with_amount (stx_locked_amount d) (\<lambda>v. push_single Lock (stx_locked_address d) v get_stacks_currency s)"
| "standardize_event (STXBurnEvent d) s =
     with_amount (stx_burn_amount d) (\<lambda>v. push_single Debit (stx_burn_sender d) v get_stacks_currency s)"
| "standardize_event (STXTransferEvent d) s =
     with_amount (stx_transfer_amount d)
       (\<lambda>v. push_transfer (stx_transfer_sender d) (stx_transfer_recipient d) v get_stacks_currency s)"
| "standardize_event (NFTMintEvent d) s =
     Done (push_single Credit (nft_mint_recipient d) 1
       (get_standardized_non_fungible_currency_from_asset_class_id
          (nft_mint_asset_class_identifier d) (nft_mint_hex_asset_identifier d))
       (touch_asset (nft_mint_asset_class_identifier d) s))"
| "standardize_event (NFTBurnEvent d) s =
     Done (push_single Debit (nft_burn_sender d) 1
       (get_standardized_non_fungible_currency_from_asset_class_id
          (nft_burn_asset_class_identifier d) (nft_burn_hex_asset_identifier d))
       (touch_asset (nft_burn_asset_class_identifier d) s))"
| "standardize_event (NFTTransferEvent d) s =
     Done (push_transfer (nft_transfer_sender d) (nft_transfer_recipient d) 1
       (get_standardized_non_fungible_currency_from_asset_class_id
          (nft_transfer_asset_class_identifier d) (nft_transfer_hex_asset_identifier d))
       (touch_asset (nft_transfer_asset_class_identifier d) s))"
| "standardize_event (FTMintEvent d) s =
     with_fungible (ft_mint_asset_class_identifier d)
       (\<lambda>c s1. with_amount (ft_mint_amount d) (\<lambda>v. push_single Credit (ft_mint_recipient d) v c s1)) s"
| "standardize_event (FTBurnEvent d) s =
     with_fungible (ft_burn_asset_class_identifier d)
       (\<lambda>c s1. with_amount (ft_burn_amount d) (\<lambda>v. push_single Debit (ft_burn_sender d) v c s1)) s"
| "standardize_event (FTTransferEvent d) s =
     with_fungible (ft_transfer_asset_class_identifier d)
       (\<lambda>c s1. with_amount (ft_transfer_amount d)
          (\<lambda>v. push_transfer (ft_transfer_sender d) (ft_transfer_recipient d) v c s1)) s"
| "standardize_event (DataVarSetEvent d) s = Done s"
| "standardize_event (DataMapInsertEvent d) s = Done s"
| "standardize_event (DataMapUpdateEvent d) s = Done s"
| "standardize_event (DataMapDeleteEvent d) s = Done s"
| "standardize_event (SmartContractEvent d) s =
     Done (s\<lparr>rcp_contracts := insert (contract_event_contract_identifier d) (rcp_contracts s)\<rparr>)"

fun receipt_loop :: "stacks_transaction_event list \<Rightarrow> receipt_state \<Rightarrow> receipt_state outcome" where
  "receipt_loop [] s = Done s"
| "receipt_loop (e # es) s =
     bind_outcome (standardize_event (event_payload e) s) (\<lambda>s1. receipt_loop es s1)"

definition receipt_start :: "(string, asset_class_cache) hash_map \<Rightarrow> receipt_state" where
  "receipt_start cache =
     \<lparr>rcp_contracts = {}, rcp_assets = {}, rcp_operations = [], rcp_operation_id = 0, rcp_cache = cache\<rparr>"

definition get_standardized_stacks_receipt ::
  "stacks_transaction_event list \<Rightarrow> (string, asset_class_cache) hash_map \<Rightarrow> bool \<Rightarrow>
   ((stacks_transaction_receipt \<times> operation list) \<times> (string, asset_class_cache) hash_map) outcome" where
  "get_standardized_stacks_receipt evs cache include_operations =
     bind_outcome
       (if include_operations then receipt_loop evs (receipt_start cache) else Done (receipt_start cache))
       (\<lambda>s. Done ((stacks_transaction_receipt_new (rcp_contracts s) (rcp_assets s) evs, rcp_operations s),
                  rcp_cache s))"

section \<open>What an event means\<close>

text \<open>
  The specification: the asset an operation is about, how an event changes the supply of an asset,
  the assets and contracts it touches, and the amount strings it depends on.
\<close>

definition asset_key :: "currency \<Rightarrow> (string \<times> string option) option" where
  "asset_key c = map_option (\<lambda>m. (asset_class_identifier m, asset_identifier m)) (currency_meta c)"

definition net_of :: "(string \<times> string option) option \<Rightarrow> operation \<Rightarrow> int" where
  "net_of k op =
     (case operation_amount op of
        None \<Rightarrow> 0
      | Some a \<Rightarrow>
          if asset_key (amount_currency a) \<noteq> k then 0
          else case operation_type op of
              Credit \<Rightarrow> uint (amount_value a)
            | Debit \<Rightarrow> - uint (amount_value a)
            | Lock \<Rightarrow> 0)"

definition net :: "(string \<times> string option) option \<Rightarrow> operation list \<Rightarrow> int" where
  "net k ops = sum_list (map (net_of k) ops)"

definition amount_of :: "string \<Rightarrow> int" where
  "amount_of amt = (case parse_u128 amt of Some v \<Rightarrow> uint v | None \<Rightarrow> 0)"

fun supply_change :: "(string \<times> string option) option \<Rightarrow> stacks_transaction_event_payload \<Rightarrow> int" where
  "supply_change k (STXMintEvent d) = (if k = None then amount_of (stx_mint_amount d) else 0)"
| "supply_change k (STXBurnEvent d) = (if k = None then - amount_of (stx_burn_amount d) else 0)"
| "supply_change k (NFTMintEvent d) =
     (if k = Some (nft_mint_asset_class_identifier d, Some (nft_mint_hex_asset_identifier d)) then 1 else 0)"
| "supply_change k (NFTBurnEvent d) =
     (if k = Some (nft_burn_asset_class_identifier d, Some (nft_burn_hex_asset_identifier d)) then -1 else 0)"
| "supply_change k (FTMintEvent d) =
     (if k = Some (ft_mint_asset_class_identifier d, None) then amount_of (ft_mint_amount d) else 0)"
| "supply_change k (FTBurnEvent d) =
     (if k = Some (ft_burn_asset_class_identifier d, None) then - amount_of (ft_burn_amount d) else 0)"
| "supply_change k _ = 0"

fun event_asset :: "stacks_transaction_event_payload \<Rightarrow> string option" where
  "event_asset (NFTTransferEvent d) = Some (nft_transfer_asset_class_identifier d)"
| "event_asset (NFTMintEvent d) = Some (nft_mint_asset_class_identifier d)"
| "event_asset (NFTBurnEvent d) = Some (nft_burn_asset_class_identifier d)"
| "event_asset (FTTransferEvent d) = Some (ft_transfer_asset_class_identifier d)"
| "event_asset (FTMintEvent d) = Some (ft_mint_asset_class_identifier d)"
| "event_asset (FTBurnEvent d) = Some (ft_burn_asset_class_identifier d)"
| "event_asset _ = None"

fun event_contract :: "stacks_transaction_event_payload \<Rightarrow> string option" where
  "event_contract (SmartContractEvent d) = Some (contract_event_contract_identifier d)"
| "event_contract e = map_option before_separator (event_asset e)"

fun event_amount :: "stacks_transaction_event_payload \<Rightarrow> string option" where
  "event_amount (STXTransferEvent d) = Some (stx_transfer_amount d)"
| "event_amount (STXMintEvent d) = Some (stx_mint_amount d)"
| "event_amount (STXLockEvent d) = Some (stx_locked_amount d)"
| "event_amount (STXBurnEvent d) = Some (stx_burn_amount d)"
| "event_amount (FTTransferEvent d) = Some (ft_transfer_amount d)"
| "event_amount (FTMintEvent d) = Some (ft_mint_amount d)"
| "event_amount (FTBurnEvent d) = Some (ft_burn_amount d)"
| "event_amount _ = None"

text \<open>
  Operations numbered from \<open>i\<close>, where a debit that refers to another operation is followed by the
  credit of the same amount, and the two refer to each other.
\<close>

fun well_paired :: "u32 \<Rightarrow> operation list \<Rightarrow> bool" where
  "well_paired i [] = True"
| "well_paired i (op # ops) =
     (op_index (operation_identifier op) = i \<and>
      (case related_operations op of
         None \<Rightarrow> well_paired (i + 1) ops
       | Some related \<Rightarrow>
           map op_index related = [i + 1] \<and> operation_type op = Debit \<and>
           (case ops of
              [] \<Rightarrow> False
            | op2 # ops2 \<Rightarrow>
                op_index (operation_identifier op2) = i + 1 \<and>
                map_option (map op_index) (related_operations op2) = Some [i] \<and>
                operation_type op2 = Credit \<and> operation_amount op2 = operation_amount op \<and>
                well_paired (i + 2) ops2)))"

section \<open>The loop\<close>

lemma net_append [simp]: "net k (xs @ ys) = net k xs + net k ys"
  by (simp add: net_def)

lemma net_simps [simp]:
  "net k [] = 0"
  "net k [operation_at i r ty a v c] =
     (if asset_key c = k then (case ty of Credit \<Rightarrow> uint v | Debit \<Rightarrow> - uint v | Lock \<Rightarrow> 0) else 0)"
  "net k [operation_at i r Debit a v c, operation_at j r' Credit b v c] = 0"
  by (simp_all add: net_def net_of_def operation_at_def split: operation_type.split)

lemma well_paired_simps [simp]:
  "well_paired i (operation_at i None ty a v c # rest) = well_paired (i + 1) rest"
  "well_paired i (operation_at i (Some (i + 1)) Debit a v c # operation_at (i + 1) (Some i) Credit b v c # rest) =
     well_paired (i + 2) rest"
  by (simp_all add: operation_at_def)

lemma asset_key_simps [simp]:
  "asset_key get_stacks_currency = None"
  "asset_key (fungible_currency a e) = Some (a, None)"
  "asset_key (get_standardized_non_fungible_currency_from_asset_class_id a i) = Some (a, Some i)"
  by (simp_all add: asset_key_def get_stacks_currency_def fungible_currency_def
      get_standardized_non_fungible_currency_from_asset_class_id_def)

lemma fungible_currency_cached:
  "\<exists>e cache'. get_standardized_fungible_currency_from_asset_class_id a cache = (fungible_currency a e, cache')"
  by (auto simp: get_standardized_fungible_currency_from_asset_class_id_def Let_def split: option.splits)

lemma with_fungible_Done:
  "with_fungible a k s = Done s' \<longleftrightarrow>
     (\<exists>e cache. get_standardized_fungible_currency_from_asset_class_id a (rcp_cache s) = (fungible_currency a e, cache) \<and>
        k (fungible_currency a e) ((touch_asset a s)\<lparr>rcp_cache := cache\<rparr>) = Done s')"
  using fungible_currency_cached [of a "rcp_cache s"]
  by (auto simp: with_fungible_def Let_def touch_asset_def get_mutated_ids_def)

lemma with_amount_Done:
  "with_amount amt k = Done s' \<longleftrightarrow> (\<exists>v. parse_u128 amt = Some v \<and> s' = k v)"
  by (auto simp: with_amount_def bind_outcome_Done_iff expect_def split: option.splits)

declare well_paired.simps(2) [simp del]

text \<open>What one event adds to the state of the loop.\<close>

definition adds :: "operation list \<Rightarrow> stacks_transaction_event_payload \<Rightarrow> receipt_state \<Rightarrow> receipt_state \<Rightarrow> bool" where
  "adds new e s s' \<longleftrightarrow>
     rcp_operations s' = rcp_operations s @ new \<and> (\<forall>k. net k new = supply_change k e) \<and>
     rcp_operation_id s' = rcp_operation_id s + of_nat (length new) \<and>
     (\<forall>rest. well_paired (rcp_operation_id s + of_nat (length new)) rest \<longrightarrow>
        well_paired (rcp_operation_id s) (new @ rest)) \<and>
     rcp_assets s' = rcp_assets s \<union> set_option (event_asset e) \<and>
     rcp_contracts s' = rcp_contracts s \<union> set_option (event_contract e)"

lemma adds_single:
  "(\<forall>k. (if asset_key c = k then (case ty of Credit \<Rightarrow> uint v | Debit \<Rightarrow> - uint v | Lock \<Rightarrow> 0) else 0) = supply_change k e) \<Longrightarrow>
   rcp_operations s1 = rcp_operations s \<Longrightarrow> rcp_operation_id s1 = rcp_operation_id s \<Longrightarrow>
   rcp_assets s1 = rcp_assets s \<union> set_option (event_asset e) \<Longrightarrow>
   rcp_contracts s1 = rcp_contracts s \<union> set_option (event_contract e) \<Longrightarrow>
   \<exists>new. adds new e s (push_single ty a v c s1)"
  by (rule exI [of _ "[operation_at (rcp_operation_id s) None ty a v c]"])
    (simp add: adds_def push_single_def)

lemma adds_transfer:
  "(\<forall>k. supply_change k e = 0) \<Longrightarrow> rcp_operations s1 = rcp_operations s \<Longrightarrow> rcp_operation_id s1 = rcp_operation_id s \<Longrightarrow>
   rcp_assets s1 = rcp_assets s \<union> set_option (event_asset e) \<Longrightarrow>
   rcp_contracts s1 = rcp_contracts s \<union> set_option (event_contract e) \<Longrightarrow>
   \<exists>new. adds new e s (push_transfer a b v c s1)"
  by (rule exI [of _ "[operation_at (rcp_operation_id s) (Some (rcp_operation_id s + 1)) Debit a v c,
          operation_at (rcp_operation_id s + 1) (Some (rcp_operation_id s)) Credit b v c]"])
    (simp add: adds_def push_transfer_def Let_def)

lemma touch_asset_simps [simp]:
  "rcp_assets (touch_asset a s) = insert a (rcp_assets s)"
  "rcp_contracts (touch_asset a s) = insert (before_separator a) (rcp_contracts s)"
  "rcp_operations (touch_asset a s) = rcp_operations s"
  "rcp_operation_id (touch_asset a s) = rcp_operation_id s"
  by (simp_all add: touch_asset_def get_mutated_ids_def)

lemma adds_data [simp]:
  "\<exists>new. adds new (DataVarSetEvent d1) s s"
  "\<exists>new. adds new (DataMapInsertEvent d2) s s"
  "\<exists>new. adds new (DataMapUpdateEvent d3) s s"
  "\<exists>new. adds new (DataMapDeleteEvent d4) s s"
  "\<exists>new. adds new (SmartContractEvent d5) s
     (s\<lparr>rcp_contracts := insert (contract_event_contract_identifier d5) (rcp_contracts s)\<rparr>)"
  by (rule exI [of _ "[]"], simp add: adds_def)+

lemma standardize_event_adds:
  assumes "standardize_event e s = Done s'"
  shows "\<exists>new. adds new e s s'"
  using assms
  by (cases e)
    (auto simp: with_amount_Done with_fungible_Done amount_of_def intro!: adds_single adds_transfer)

lemma receipt_loop_Done:
  assumes "receipt_loop es s = Done s'"
  shows "\<exists>new. rcp_operations s' = rcp_operations s @ new \<and>
     (\<forall>k. net k new = sum_list (map (\<lambda>e. supply_change k (event_payload e)) es)) \<and>
     well_paired (rcp_operation_id s) new \<and>
     rcp_assets s' = rcp_assets s \<union> (\<Union>e \<in> set es. set_option (event_asset (event_payload e))) \<and>
     rcp_contracts s' = rcp_contracts s \<union> (\<Union>e \<in> set es. set_option (event_contract (event_payload e)))"
  using assms
proof (induction es arbitrary: s)
  case Nil
  then show ?case by (intro exI [of _ "[]"]) simp
next
  case (Cons e es)
  from Cons.prems obtain s1 where e: "standardize_event (event_payload e) s = Done s1" and l: "receipt_loop es s1 = Done s'"
    by (auto simp: bind_outcome_Done_iff)
  from standardize_event_adds [OF e] obtain new where new: "adds new (event_payload e) s s1" by blast
  from Cons.IH [OF l] obtain rest where
    "rcp_operations s' = rcp_operations s1 @ rest" "\<forall>k. net k rest = sum_list (map (\<lambda>e. supply_change k (event_payload e)) es)"
    "well_paired (rcp_operation_id s1) rest"
    "rcp_assets s' = rcp_assets s1 \<union> (\<Union>e \<in> set es. set_option (event_asset (event_payload e)))"
    "rcp_contracts s' = rcp_contracts s1 \<union> (\<Union>e \<in> set es. set_option (event_contract (event_payload e)))"
    by blast
  with new show ?case by (intro exI [of _ "new @ rest"]) (auto simp: adds_def)
qed

lemma returns_bind_Done [simp]: "returns (bind_outcome m (\<lambda>s. Done (f s))) = returns m"
  by (cases m) simp_all

lemma standardize_event_returns:
  "returns (standardize_event e s) \<longleftrightarrow> (case event_amount e of None \<Rightarrow> True | Some amt \<Rightarrow> parse_u128 amt \<noteq> None)"
  using fungible_currency_cached
  by (cases e)
    (auto simp: with_amount_def with_fungible_def Let_def expect_def touch_asset_def get_mutated_ids_def
      split: option.splits prod.splits)

lemma receipt_loop_returns:
  "returns (receipt_loop es s) \<longleftrightarrow>
     list_all (\<lambda>e. case event_amount (event_payload e) of None \<Rightarrow> True | Some amt \<Rightarrow> parse_u128 amt \<noteq> None) es"
proof (induction es arbitrary: s)
  case (Cons e es)
  show ?case
  proof (cases "standardize_event (event_payload e) s")
    case (Done s1)
    with standardize_event_returns [of "event_payload e" s] Cons.IH [of s1] show ?thesis by simp
  qed (use standardize_event_returns [of "event_payload e" s] in auto)
qed simp

section \<open>Properties\<close>

text \<open>
  C32. The operations of a transaction conserve every asset: for STX and for each fungible or
  non-fungible asset, the credits minus the debits that \<^verbatim>\<open>get_standardized_stacks_receipt\<close> lists are
  exactly what the transaction's events mint minus what they burn; transfers and locks change
  nothing.
\<close>

theorem receipt_conserves_assets:
  assumes "get_standardized_stacks_receipt evs cache True = Done ((receipt, ops), cache')"
  shows "net asset ops = sum_list (map (\<lambda>e. supply_change asset (event_payload e)) evs)"
proof -
  from assms obtain s where s: "receipt_loop evs (receipt_start cache) = Done s" "ops = rcp_operations s"
    by (auto simp: get_standardized_stacks_receipt_def bind_outcome_Done_iff)
  with receipt_loop_Done [OF s(1)] show ?thesis by (auto simp: receipt_start_def)
qed

definition sample_events :: "stacks_transaction_event list" where
  "sample_events =
     [\<lparr>event_payload = STXMintEvent \<lparr>stx_mint_recipient = ''A'', stx_mint_amount = ''25''\<rparr>, event_position = 0\<rparr>,
      \<lparr>event_payload = STXTransferEvent
         \<lparr>stx_transfer_sender = ''A'', stx_transfer_recipient = ''B'', stx_transfer_amount = ''7''\<rparr>, event_position = 1\<rparr>,
      \<lparr>event_payload = FTBurnEvent
         \<lparr>ft_burn_asset_class_identifier = ''S.t::t'', ft_burn_sender = ''B'', ft_burn_amount = ''+3''\<rparr>, event_position = 2\<rparr>]"

lemma sample_receipt: "returns (get_standardized_stacks_receipt sample_events [] True)"
proof -
  have "returns (receipt_loop sample_events (receipt_start []))"
    unfolding receipt_loop_returns
    by (simp add: sample_events_def parse_u128_def parse_unsigned_def digit_value_def)
  then show ?thesis by (auto simp: get_standardized_stacks_receipt_def returns_iff)
qed

theorem receipt_conserves_assets_witness:
  "\<exists>receipt ops cache. get_standardized_stacks_receipt sample_events [] True = Done ((receipt, ops), cache) \<and>
     net None ops = 25 \<and> net (Some (''S.t::t'', None)) ops = -3"
proof -
  from sample_receipt obtain receipt ops cache where
    r: "get_standardized_stacks_receipt sample_events [] True = Done ((receipt, ops), cache)"
    by (auto simp: returns_iff)
  from receipt_conserves_assets [OF r, of None] receipt_conserves_assets [OF r, of "Some (''S.t::t'', None)"] r
  show ?thesis by (simp add: sample_events_def amount_of_def parse_u128_def parse_unsigned_def digit_value_def)
qed

text \<open>
  The operations are numbered \<open>0, 1, 2, \<dots>\<close> in order, and every transfer is a debit immediately
  followed by a credit of the same amount, each naming the other as its related operation.
\<close>

theorem receipt_operations_well_paired:
  assumes "get_standardized_stacks_receipt evs cache True = Done ((receipt, ops), cache')"
  shows "well_paired 0 ops"
proof -
  from assms obtain s where s: "receipt_loop evs (receipt_start cache) = Done s" "ops = rcp_operations s"
    by (auto simp: get_standardized_stacks_receipt_def bind_outcome_Done_iff)
  with receipt_loop_Done [OF s(1)] show ?thesis by (auto simp: receipt_start_def)
qed

theorem receipt_operations_well_paired_witness:
  "\<exists>receipt ops cache. get_standardized_stacks_receipt sample_events [] True = Done ((receipt, ops), cache) \<and>
     well_paired 0 ops"
proof -
  from sample_receipt obtain receipt ops cache where
    r: "get_standardized_stacks_receipt sample_events [] True = Done ((receipt, ops), cache)"
    by (auto simp: returns_iff)
  from receipt_operations_well_paired [OF r] r show ?thesis by blast
qed

text \<open>
  The receipt names exactly the assets and contracts the events touch (a token event touches its
  asset class and the contract before the \<^verbatim>\<open>::\<close>, a contract event its contract; STX and data events
  touch none), and keeps the events as they are.
\<close>

theorem receipt_radius_exact:
  assumes "get_standardized_stacks_receipt evs cache True = Done ((receipt, ops), cache')"
  shows "mutated_assets_radius receipt = (\<Union>e \<in> set evs. set_option (event_asset (event_payload e))) \<and>
     mutated_contracts_radius receipt = (\<Union>e \<in> set evs. set_option (event_contract (event_payload e))) \<and>
     receipt_events receipt = evs"
proof -
  from assms obtain s where s: "receipt_loop evs (receipt_start cache) = Done s"
    "receipt = stacks_transaction_receipt_new (rcp_contracts s) (rcp_assets s) evs"
    by (auto simp: get_standardized_stacks_receipt_def bind_outcome_Done_iff)
  with receipt_loop_Done [OF s(1)] show ?thesis
    by (auto simp: receipt_start_def stacks_transaction_receipt_new_def)
qed

theorem receipt_radius_exact_witness:
  "\<exists>receipt ops cache. get_standardized_stacks_receipt sample_events [] True = Done ((receipt, ops), cache) \<and>
     mutated_assets_radius receipt = {''S.t::t''} \<and> mutated_contracts_radius receipt = {''S.t''}"
proof -
  from sample_receipt obtain receipt ops cache where
    r: "get_standardized_stacks_receipt sample_events [] True = Done ((receipt, ops), cache)"
    by (auto simp: returns_iff)
  from receipt_radius_exact [OF r] r show ?thesis by (simp add: sample_events_def)
qed

text \<open>
  C33. Standardizing a receipt panics exactly when an amount is malformed: it returns if and only if
  every amount of an STX or fungible token event is a decimal number below \<open>2 ^ 128\<close>; without
  operations it always returns.
\<close>

theorem receipt_returns_iff:
  "returns (get_standardized_stacks_receipt evs cache include_operations) \<longleftrightarrow>
     (if include_operations
      then list_all (\<lambda>e. case event_amount (event_payload e) of None \<Rightarrow> True | Some amt \<Rightarrow> parse_u128 amt \<noteq> None) evs
      else True)"
  by (simp add: get_standardized_stacks_receipt_def receipt_loop_returns)

text \<open>
  The debit of a transfer names a later operation as related, whatever the transfer: its related
  index is one above its own.
\<close>

theorem transfer_debit_refers_forward:
  "case get_standardized_stacks_receipt
       [\<lparr>event_payload = STXTransferEvent
           \<lparr>stx_transfer_sender = from, stx_transfer_recipient = to, stx_transfer_amount = ''7''\<rparr>, event_position = 0\<rparr>]
       cache True of
     Done ((_, debit # _), _) \<Rightarrow>
       op_index (operation_identifier debit) = 0 \<and>
       map_option (map op_index) (related_operations debit) = Some [1]
   | _ \<Rightarrow> False"
  by (simp add: get_standardized_stacks_receipt_def with_amount_def parse_u128_def parse_unsigned_def digit_value_def expect_def
      push_transfer_def receipt_start_def operation_at_def Let_def)

end
