(* ===== verification/Stacks_Standardize.thy ===== *)
theory Stacks_Standardize
  imports Stacks_Receipt "HOL-Library.Product_Lexorder" "HOL-Library.Multiset"
begin

text \<open>
  The standardization of what a Stacks node posts, from \<^verbatim>\<open>components/observer/src/indexer/stacks/mod.rs\<close>
  and \<^verbatim>\<open>hooks/types.rs\<close>: node messages (\<open>new_block\<close>, \<open>new_microblock_trail\<close>) into the blocks and
  microblocks of \<open>Stacks_Types\<close>.

  Third-party code is a parameter, the record \<open>stacks_lib\<close>: serde's JSON decoders, the hex codec, the
  consensus decoders of clarity and stackslib, and public key recovery. The foreign types
  \<open>clarity_value\<close> and \<open>stacks_transaction\<close> have the constructors that the sources match on; parts the
  sources only print enter as their printed text. Unsigned arithmetic wraps, as in a release build.
\<close>

section \<open>Reward cycles\<close>

record pox_config =
  first_burnchain_block_height :: u64
  prepare_phase_len :: u64
  reward_phase_len :: u64
  rewarded_addresses_per_block :: nat

definition mainnet_default :: pox_config where
  "mainnet_default =
     \<lparr>first_burnchain_block_height = 666050, prepare_phase_len = 100, reward_phase_len = 2000,
      rewarded_addresses_per_block = 2\<rparr>"

definition testnet_default :: pox_config where
  "testnet_default =
     \<lparr>first_burnchain_block_height = 2000000, prepare_phase_len = 50, reward_phase_len = 1000,
      rewarded_addresses_per_block = 2\<rparr>"

definition devnet_default :: pox_config where
  "devnet_default =
     \<lparr>first_burnchain_block_height = 100, prepare_phase_len = 5, reward_phase_len = 15,
      rewarded_addresses_per_block = 2\<rparr>"

definition get_pox_cycle_len :: "pox_config \<Rightarrow> u64" where
  "get_pox_cycle_len cfg = prepare_phase_len cfg + reward_phase_len cfg"

text \<open>Division by zero panics.\<close>

definition get_pox_cycle_id :: "pox_config \<Rightarrow> u64 \<Rightarrow> u64 outcome" where
  "get_pox_cycle_id cfg block_height =
     (if get_pox_cycle_len cfg = 0 then Panic
      else Done (saturating_sub block_height (first_burnchain_block_height cfg) div get_pox_cycle_len cfg))"

definition get_pos_in_pox_cycle :: "pox_config \<Rightarrow> u64 \<Rightarrow> u64 outcome" where
  "get_pos_in_pox_cycle cfg block_height =
     (if get_pox_cycle_len cfg = 0 then Panic
      else Done (saturating_sub block_height (first_burnchain_block_height cfg) mod get_pox_cycle_len cfg))"

definition get_burn_address :: "pox_config \<Rightarrow> string" where
  "get_burn_address cfg =
     (if first_burnchain_block_height cfg = 666050 then ''1111111111111111111114oLvT2''
      else if first_burnchain_block_height cfg = 2000000 then ''burn-address-regtest''
      else ''burn-address'')"

section \<open>Messages of a node\<close>

record 'j new_event =
  ev_txid :: string
  ev_committed :: bool
  ev_event_index :: u32
  ev_event_type :: string
  ev_stx_transfer :: "'j option"
  ev_stx_mint :: "'j option"
  ev_stx_burn :: "'j option"
  ev_stx_lock :: "'j option"
  ev_nft_transfer :: "'j option"
  ev_nft_mint :: "'j option"
  ev_nft_burn :: "'j option"
  ev_ft_transfer :: "'j option"
  ev_ft_mint :: "'j option"
  ev_ft_burn :: "'j option"
  ev_data_var_set :: "'j option"
  ev_data_map_insert :: "'j option"
  ev_data_map_update :: "'j option"
  ev_data_map_delete :: "'j option"
  ev_contract :: "'j option"

record new_transaction =
  nt_txid :: string
  nt_tx_index :: nat
  nt_status :: string
  nt_raw_result :: string
  nt_raw_tx :: string
  nt_execution_cost :: "stacks_transaction_execution_cost option"
  nt_contract_interface :: "contract_interface option"
  nt_contract_abi :: "contract_interface option"

record new_microblock_transaction =
  nmt_txid :: string
  nmt_tx_index :: nat
  nmt_status :: string
  nmt_raw_result :: string
  nmt_raw_tx :: string
  nmt_execution_cost :: "stacks_transaction_execution_cost option"
  nmt_microblock_sequence :: nat
  nmt_microblock_hash :: string
  nmt_microblock_parent_hash :: string
  nmt_contract_abi :: "contract_interface option"

record reward_set_signer =
  nrs_signing_key :: string
  nrs_weight :: u32
  nrs_stacked_amt :: string

record new_reward_set =
  nrs_pox_ustx_threshold :: "string option"
  nrs_rewarded_addresses :: "string list"
  nrs_signers :: "reward_set_signer list option"

record matured_miner_reward =
  mmr_from_index_consensus_hash :: string
  mmr_from_stacks_block_hash :: string
  mmr_recipient :: string
  mmr_coinbase_amount :: string
  mmr_tx_fees_anchored :: string
  mmr_tx_fees_streamed_confirmed :: string
  mmr_tx_fees_streamed_produced :: string

record 'j new_block =
  nb_height :: u64
  nb_hash :: string
  nb_index_hash :: string
  nb_burn_block_height :: u64
  nb_burn_block_hash :: string
  nb_parent_block_hash :: string
  nb_parent_index_block_hash :: string
  nb_parent_microblock :: "string option"
  nb_parent_microblock_sequence :: "u64 option"
  nb_parent_burn_block_hash :: string
  nb_parent_burn_block_height :: u64
  nb_parent_burn_block_timestamp :: i64
  nb_txs :: "new_transaction list"
  nb_events :: "'j new_event list"
  nb_matured_miner_rewards :: "matured_miner_reward list"
  nb_tenure_height :: "u64 option"
  nb_block_time :: "u64 option"
  nb_signer_bitvec :: "string option"
  nb_signer_signature_hash :: "string option"
  nb_signer_signature :: "string list option"
  nb_cycle_number :: "u64 option"
  nb_reward_set :: "new_reward_set option"

record new_block_header =
  nbh_block_height :: u64
  nbh_index_block_hash :: "string option"
  nbh_parent_index_block_hash :: "string option"

record 'j new_microblock_trail =
  trail_parent_index_block_hash :: string
  trail_burn_block_hash :: string
  trail_burn_block_height :: u64
  trail_burn_block_timestamp :: i64
  trail_transactions :: "new_microblock_transaction list"
  trail_events :: "'j new_event list"

section \<open>Third-party code\<close>

datatype clarity_value =
    CVResponse bool clarity_value
  | CVTuple "(string \<times> clarity_value) list"
  | CVPrincipal string
  | CVUInt u128
  | CVOptional "clarity_value option"
  | CVOther string

record spending_condition =
  cond_tx_fee :: u64
  cond_nonce :: u64
  cond_address_mainnet :: string
  cond_address_testnet :: string

datatype transaction_auth = Standard spending_condition | Sponsored spending_condition spending_condition

datatype transaction_payload =
    TokenTransfer string u64
  | ContractCallPayload string string string "string list"
  | SmartContract string string
  | CoinbasePayload
  | TenureChangePayload
  | PoisonMicroblock

record stacks_transaction =
  st_auth :: transaction_auth
  st_is_mainnet :: bool
  st_origin_address :: string
  st_payload :: transaction_payload

text \<open>\<^verbatim>\<open>MessageSignature\<close> has 65 bytes: the recovery id and the compact signature.\<close>

type_synonym message_signature = "u8 \<times> u8 list"

text \<open>
  The functions of serde (\<open>dec_\<close> from JSON, \<open>parse_\<close> and \<open>dec_block_header\<close> from text), of the hex
  crate, of clarity and stackslib, and of secp256k1; \<open>debug_events\<close> is the derived \<^verbatim>\<open>Debug\<close>
  text of events.
\<close>

record 'j stacks_lib =
  hex_decode :: "string \<Rightarrow> string + u8 list"
  hex_encode :: "u8 list \<Rightarrow> string"
  decode_clarity_value :: "u8 list \<Rightarrow> clarity_value option"
  show_clarity_value :: "clarity_value \<Rightarrow> string"
  decode_transaction :: "u8 list \<Rightarrow> string + stacks_transaction"
  debug_events :: "'j new_event list \<Rightarrow> string"
  parse_signature :: "string \<Rightarrow> string + message_signature"
  recovery_id_from_i32 :: "int \<Rightarrow> string + int"
  signature_from_compact :: "u8 list \<Rightarrow> int \<Rightarrow> string + u8 list"
  message_from_digest :: "u8 list \<Rightarrow> string + u8 list"
  recover_ecdsa :: "u8 list \<Rightarrow> u8 list \<Rightarrow> string + u8 list"
  dec_stx_transfer :: "'j \<Rightarrow> string + stx_transfer_event_data"
  dec_stx_mint :: "'j \<Rightarrow> string + stx_mint_event_data"
  dec_stx_burn :: "'j \<Rightarrow> string + stx_burn_event_data"
  dec_stx_lock :: "'j \<Rightarrow> string + stx_lock_event_data"
  dec_nft_transfer :: "'j \<Rightarrow> string + nft_transfer_event_data"
  dec_nft_mint :: "'j \<Rightarrow> string + nft_mint_event_data"
  dec_nft_burn :: "'j \<Rightarrow> string + nft_burn_event_data"
  dec_ft_transfer :: "'j \<Rightarrow> string + ft_transfer_event_data"
  dec_ft_mint :: "'j \<Rightarrow> string + ft_mint_event_data"
  dec_ft_burn :: "'j \<Rightarrow> string + ft_burn_event_data"
  dec_data_var_set :: "'j \<Rightarrow> string + data_var_set_event_data"
  dec_data_map_insert :: "'j \<Rightarrow> string + data_map_insert_event_data"
  dec_data_map_update :: "'j \<Rightarrow> string + data_map_update_event_data"
  dec_data_map_delete :: "'j \<Rightarrow> string + data_map_delete_event_data"
  dec_contract :: "'j \<Rightarrow> string + smart_contract_event_data"
  dec_block_header :: "string \<Rightarrow> string + new_block_header"
  dec_block :: "'j \<Rightarrow> string + 'j new_block"
  dec_trail :: "'j \<Rightarrow> string + 'j new_microblock_trail"
  parse_block :: "string \<Rightarrow> string + 'j new_block"
  parse_trail :: "string \<Rightarrow> string + 'j new_microblock_trail"

text \<open>The parts of the chain context that standardization reads and updates.\<close>

record stacks_chain_context =
  asset_class_map :: "(string, asset_class_cache) hash_map"
  pox_config :: pox_config

section \<open>Events\<close>

text \<open>
  \<^verbatim>\<open>NewEvent::into_observer_event\<close>: the first payload that is present decides; a payload that does
  not decode panics.
\<close>

definition decoded_event ::
  "'j new_event \<Rightarrow> ('d \<Rightarrow> stacks_transaction_event_payload) \<Rightarrow> string + 'd \<Rightarrow> stacks_transaction_event fallible" where
  "decoded_event ev wrap r =
     (case r of
        Inl e \<Rightarrow> Panic
      | Inr data \<Rightarrow> Done (Inr \<lparr>event_payload = wrap data, event_position = ev_event_index ev\<rparr>))"

fun first_some :: "'a option list \<Rightarrow> 'a option" where
  "first_some [] = None"
| "first_some (Some x # xs) = Some x"
| "first_some (None # xs) = first_some xs"

definition into_observer_event :: "'j stacks_lib \<Rightarrow> 'j new_event \<Rightarrow> stacks_transaction_event fallible" where
  "into_observer_event lib ev =
     (case first_some
        [map_option (\<lambda>d. decoded_event ev STXMintEvent (dec_stx_mint lib d)) (ev_stx_mint ev),
         map_option (\<lambda>d. decoded_event ev STXLockEvent (dec_stx_lock lib d)) (ev_stx_lock ev),
         map_option (\<lambda>d. decoded_event ev STXBurnEvent (dec_stx_burn lib d)) (ev_stx_burn ev),
         map_option (\<lambda>d. decoded_event ev STXTransferEvent (dec_stx_transfer lib d)) (ev_stx_transfer ev),
         map_option (\<lambda>d. decoded_event ev NFTMintEvent (dec_nft_mint lib d)) (ev_nft_mint ev),
         map_option (\<lambda>d. decoded_event ev NFTBurnEvent (dec_nft_burn lib d)) (ev_nft_burn ev),
         map_option (\<lambda>d. decoded_event ev NFTTransferEvent (dec_nft_transfer lib d)) (ev_nft_transfer ev),
         map_option (\<lambda>d. decoded_event ev FTMintEvent (dec_ft_mint lib d)) (ev_ft_mint ev),
         map_option (\<lambda>d. decoded_event ev FTBurnEvent (dec_ft_burn lib d)) (ev_ft_burn ev),
         map_option (\<lambda>d. decoded_event ev FTTransferEvent (dec_ft_transfer lib d)) (ev_ft_transfer ev),
         map_option (\<lambda>d. decoded_event ev DataVarSetEvent (dec_data_var_set lib d)) (ev_data_var_set ev),
         map_option (\<lambda>d. decoded_event ev DataMapInsertEvent (dec_data_map_insert lib d)) (ev_data_map_insert ev),
         map_option (\<lambda>d. decoded_event ev DataMapUpdateEvent (dec_data_map_update lib d)) (ev_data_map_update ev),
         map_option (\<lambda>d. decoded_event ev DataMapDeleteEvent (dec_data_map_delete lib d)) (ev_data_map_delete ev),
         map_option (\<lambda>d. decoded_event ev SmartContractEvent (dec_contract lib d)) (ev_contract ev)] of
        Some r \<Rightarrow> r
      | None \<Rightarrow> Done (Inl ''unable to support event type''))"

text \<open>The events of a message, by transaction.\<close>

fun group_events ::
  "'j new_event list \<Rightarrow> (string, 'j new_event list) hash_map \<Rightarrow> (string, 'j new_event list) hash_map" where
  "group_events [] m = m"
| "group_events (ev # evs) m =
     group_events evs
       (hm_insert (ev_txid ev)
          (case hm_get m (ev_txid ev) of Some es \<Rightarrow> es @ [ev] | None \<Rightarrow> [ev]) m)"

definition take_events ::
  "string \<Rightarrow> (string, 'j new_event list) hash_map \<Rightarrow> 'j new_event list \<times> (string, 'j new_event list) hash_map" where
  "take_events t m = (case hm_get m t of Some es \<Rightarrow> es | None \<Rightarrow> [], hm_remove t m)"

section \<open>Descriptions\<close>

definition try_decode_clarity_value :: "'j stacks_lib \<Rightarrow> string \<Rightarrow> clarity_value option" where
  "try_decode_clarity_value lib hex_value =
     (case strip_prefix ''0x'' hex_value of
        None \<Rightarrow> None
      | Some v \<Rightarrow> (case hex_decode lib v of Inl e \<Rightarrow> None | Inr bytes \<Rightarrow> decode_clarity_value lib bytes))"

definition get_value_description :: "'j stacks_lib \<Rightarrow> string \<Rightarrow> string" where
  "get_value_description lib raw_value =
     (case strip_prefix ''0x'' raw_value of
        None \<Rightarrow> raw_value
      | Some v \<Rightarrow>
          (case hex_decode lib v of
             Inl e \<Rightarrow> v
           | Inr bytes \<Rightarrow>
               (case decode_clarity_value lib bytes of
                  Some value \<Rightarrow> show_clarity_value lib value
                | None \<Rightarrow> v)))"

text \<open>Description, kind, fee, nonce, sender and sponsor.\<close>

type_synonym tx_info = "string \<times> stacks_transaction_kind \<times> u64 \<times> u64 \<times> string \<times> string option"

definition ustx :: string where
  "ustx = [CHR '' '', CHR 0xC2, CHR 0xB5] @ ''STX ''"

definition unlock_height_of :: "clarity_value option \<Rightarrow> string option" where
  "unlock_height_of v = (case v of Some (CVUInt n) \<Rightarrow> Some (show_nat (unat n)) | _ \<Rightarrow> None)"

text \<open>The delegation a contract event announces, when it has the expected shape.\<close>

definition delegate_stack_op :: "'j stacks_lib \<Rightarrow> smart_contract_event_data \<Rightarrow> tx_info option" where
  "delegate_stack_op lib data =
     (case try_decode_clarity_value lib (contract_event_hex_value data) of
        Some (CVResponse committed (CVTuple outter)) \<Rightarrow>
          if committed then
            (case map_of outter ''data'' of
               Some (CVTuple inner) \<Rightarrow>
                 (case (map_of outter ''stacker'', map_of inner ''amount-ustx'', map_of inner ''delegate-to'',
                        map_of inner ''pox-addr'', map_of inner ''unlock-burn-height'') of
                    (Some (CVPrincipal stacking_address), Some (CVUInt amount_ustx), Some (CVPrincipal delegate),
                     Some (CVOptional pox_addr), Some (CVOptional unlock_burn_height)) \<Rightarrow>
                      Some (''stacked: '' @ show_nat (unat amount_ustx) @ ustx @ ''delegated to '' @ delegate @
                              '' through Bitcoin transaction'',
                            BitcoinOp (DelegateStackSTX
                              \<lparr>delegate_stacking_address = stacking_address,
                               delegate_amount = show_nat (unat amount_ustx),
                               delegate_to = delegate, delegate_pox_address = None,
                               delegate_unlock_height = unlock_height_of unlock_burn_height\<rparr>),
                            0, 0, [], None)
                  | _ \<Rightarrow> None)
             | _ \<Rightarrow> None)
          else None
      | _ \<Rightarrow> None)"

text \<open>The loop over the events of a transaction that was operated through Bitcoin.\<close>

fun describe_bitcoin_op :: "'j stacks_lib \<Rightarrow> string \<Rightarrow> 'j new_event list \<Rightarrow> 'j new_event list \<Rightarrow> string + tx_info" where
  "describe_bitcoin_op lib raw_tx tx_events [] =
     Inl (''unable to parse transaction '' @ raw_tx @ '' with events '' @ debug_events lib tx_events)"
| "describe_bitcoin_op lib raw_tx tx_events (ev # evs) =
     (case ev_stx_transfer ev of
        Some d \<Rightarrow>
          (case dec_stx_transfer lib d of
             Inl e \<Rightarrow> Inl (''unable to decode event_data '' @ e)
           | Inr data \<Rightarrow>
               Inr (''transfered: '' @ stx_transfer_amount data @ ustx @ ''from '' @ stx_transfer_sender data @
                      '' to '' @ stx_transfer_recipient data @ '' through Bitcoin transaction'',
                    NativeTokenTransfer, 0, 0, stx_transfer_sender data, None))
      | None \<Rightarrow>
      case ev_stx_lock ev of
        Some d \<Rightarrow>
          (case dec_stx_lock lib d of
             Inl e \<Rightarrow> Inl (''unable to decode event_data '' @ e)
           | Inr data \<Rightarrow>
               Inr (''stacked: '' @ stx_locked_amount data @ ustx @ ''by '' @ stx_locked_address data @
                      '' through Bitcoin transaction'',
                    BitcoinOp (StackSTX
                      \<lparr>stack_locked_amount = stx_locked_amount data,
                       stack_unlock_height = stx_unlock_height data,
                       stack_stacking_address = stx_locked_address data\<rparr>),
                    0, 0, stx_locked_address data, None))
      | None \<Rightarrow>
      case ev_contract ev of
        Some d \<Rightarrow>
          (case dec_contract lib d of
             Inl e \<Rightarrow> Inl (''unable to decode event_data '' @ e)
           | Inr data \<Rightarrow>
               (case delegate_stack_op lib data of
                  Some info \<Rightarrow> Inr info
                | None \<Rightarrow> describe_bitcoin_op lib raw_tx tx_events evs))
      | None \<Rightarrow> Inr (''unsupported transaction'', Unsupported, 0, 0, [], None))"

definition address_of :: "stacks_transaction \<Rightarrow> spending_condition \<Rightarrow> string" where
  "address_of tx c = (if st_is_mainnet tx then cond_address_mainnet c else cond_address_testnet c)"

definition describe_auth :: "stacks_transaction \<Rightarrow> u64 \<times> u64 \<times> string \<times> string option" where
  "describe_auth tx =
     (case st_auth tx of
        Standard conditions \<Rightarrow>
          (cond_tx_fee conditions, cond_nonce conditions, address_of tx conditions, None)
      | Sponsored sender_conditions sponsor_conditions \<Rightarrow>
          (cond_tx_fee sponsor_conditions, cond_nonce sender_conditions, address_of tx sender_conditions,
           Some (address_of tx sponsor_conditions)))"

definition describe_payload :: "stacks_transaction \<Rightarrow> string \<times> stacks_transaction_kind" where
  "describe_payload tx =
     (case st_payload tx of
        TokenTransfer addr amount \<Rightarrow>
          (''transfered: '' @ show_nat (unat amount) @ ustx @ ''from '' @ st_origin_address tx @ '' to '' @ addr,
           NativeTokenTransfer)
      | ContractCallPayload address contract_name function_name formatted_args \<Rightarrow>
          (''invoked: '' @ address @ ''.'' @ contract_name @ ''::'' @ function_name @ ''('' @
             join_with '', '' formatted_args @ '')'',
           ContractCall
             \<lparr>call_contract_identifier = address @ ''.'' @ contract_name,
              call_method = function_name, call_args = formatted_args\<rparr>)
      | SmartContract name code_body \<Rightarrow>
          (''deployed: '' @ st_origin_address tx @ ''.'' @ name,
           ContractDeployment
             \<lparr>deploy_contract_identifier = st_origin_address tx @ ''.'' @ name, deploy_code = code_body\<rparr>)
      | CoinbasePayload \<Rightarrow> (''coinbase'', Coinbase)
      | TenureChangePayload \<Rightarrow> (''tenure change'', TenureChange)
      | PoisonMicroblock \<Rightarrow> (''other'', Unsupported))"

definition get_tx_description :: "'j stacks_lib \<Rightarrow> string \<Rightarrow> 'j new_event list \<Rightarrow> string + tx_info" where
  "get_tx_description lib raw_tx tx_events =
     (case strip_prefix ''0x'' raw_tx of
        None \<Rightarrow> Inl ''unable to read txid''
      | Some raw \<Rightarrow>
          (case hex_decode lib raw of
             Inl e \<Rightarrow> Inl (''unable to read txid '' @ e)
           | Inr tx_bytes \<Rightarrow>
               if tx_bytes = [0] then
                 (if tx_events = [] then Inl (''received block with transaction '' @ [CHR 0x27] @ ''0x00'' @ [CHR 0x27] @ '' and no events'')
                  else describe_bitcoin_op lib raw tx_events tx_events)
               else
                 (case decode_transaction lib tx_bytes of
                    Inl e \<Rightarrow> Inl (''unable to consensus decode transaction '' @ e)
                  | Inr tx \<Rightarrow>
                      (case (describe_auth tx, describe_payload tx) of
                         ((fee, nonce, sender, sponsor), (description, tx_type)) \<Rightarrow>
                           Inr (description, tx_type, fee, nonce, sender, sponsor)))))"

section \<open>Blocks\<close>

text \<open>
  The loop over the transactions of a block. The cache of asset classes is part of the chain context
  and keeps what was added before an error.
\<close>

definition block_transaction ::
  "'j stacks_lib \<Rightarrow> new_transaction \<Rightarrow> tx_info \<Rightarrow> stacks_transaction_receipt \<Rightarrow> operation list \<Rightarrow> stacks_transaction_data" where
  "block_transaction lib tx info receipt ops =
     (case info of
        (description, tx_type, fee, nonce, sender, sponsor) \<Rightarrow>
          \<lparr>transaction_identifier = \<lparr>txid_hash = nt_txid tx\<rparr>,
           operations = ops,
           tx_metadata =
             \<lparr>tx_success = (nt_status tx = ''success''),
              tx_raw_tx = nt_raw_tx tx,
              tx_result = get_value_description lib (nt_raw_result tx),
              tx_sender = sender, tx_nonce = nonce, tx_fee = fee, tx_kind = tx_type, tx_receipt = receipt,
              tx_description = description, tx_sponsor = sponsor,
              tx_execution_cost = nt_execution_cost tx,
              tx_position = AnchorBlock (nt_tx_index tx),
              tx_proof = None,
              tx_contract_abi =
                (case nt_contract_interface tx of Some i \<Rightarrow> Some i | None \<Rightarrow> nt_contract_abi tx)\<rparr>\<rparr>)"

fun block_transactions ::
  "'j stacks_lib \<Rightarrow> u64 \<Rightarrow> new_transaction list \<Rightarrow> (string, 'j new_event list) hash_map \<Rightarrow>
   (string, asset_class_cache) hash_map \<Rightarrow> stacks_transaction_data list \<Rightarrow>
   ((string + stacks_transaction_data list) \<times> (string, asset_class_cache) hash_map) outcome" where
  "block_transactions lib height [] events cache acc = Done (Inr acc, cache)"
| "block_transactions lib height (tx # txs) events cache acc =
     (case take_events (nt_txid tx) events of
        (tx_events, events1) \<Rightarrow>
          (case get_tx_description lib (nt_raw_tx tx) tx_events of
             Inl e \<Rightarrow>
               if nt_status tx = ''abort_by_response'' then block_transactions lib height txs events1 cache acc
               else Done (Inl (''unable to standardize block #'' @ show_nat (unat height) @ '' ('' @ e @ '')''), cache)
           | Inr info \<Rightarrow>
               bind_outcome (collect_fallible (into_observer_event lib) tx_events)
                 (\<lambda>r. case r of
                    Inl e \<Rightarrow> Done (Inl e, cache)
                  | Inr evs \<Rightarrow>
                      bind_outcome (get_standardized_stacks_receipt evs cache True)
                        (\<lambda>((receipt, ops), cache1).
                           block_transactions lib height txs events1 cache1
                             (acc @ [block_transaction lib tx info receipt ops])))))"

definition zero_hash :: string where
  "zero_hash = ''0x'' @ replicate 64 (CHR ''0'')"

definition confirmed_microblock :: "'j new_block \<Rightarrow> block_identifier option" where
  "confirmed_microblock block =
     (case (nb_parent_microblock block, nb_parent_microblock_sequence block) of
        (Some hash, Some sequence) \<Rightarrow>
          if hash \<noteq> zero_hash then Some (BlockIdentifier sequence hash) else None
      | _ \<Rightarrow> None)"

text \<open>The public key that signed a digest, with the texts of its four errors.\<close>

definition recover_with ::
  "'j stacks_lib \<Rightarrow> string \<Rightarrow> u8 \<Rightarrow> u8 list \<Rightarrow> u8 list \<Rightarrow> string + u8 list" where
  "recover_with lib failure rec_id sig digest =
     (case map_error (\<lambda>e. ''invalid recovery id: '' @ e) (recovery_id_from_i32 lib (uint rec_id)) of
        Inl e \<Rightarrow> Inl e
      | Inr recovery_id \<Rightarrow>
          (case map_error (\<lambda>e. ''invalid signature: '' @ e) (signature_from_compact lib sig recovery_id) of
             Inl e \<Rightarrow> Inl e
           | Inr signature \<Rightarrow>
               (case map_error (\<lambda>e. ''invalid digest message: '' @ e) (message_from_digest lib digest) of
                  Inl e \<Rightarrow> Inl e
                | Inr message \<Rightarrow> map_error (\<lambda>e. failure @ e) (recover_ecdsa lib message signature))))"

definition get_signer_pubkey_from_message_hash ::
  "'j stacks_lib \<Rightarrow> u8 list \<Rightarrow> message_signature \<Rightarrow> string + u8 list" where
  "get_signer_pubkey_from_message_hash lib message_hash signature =
     (case signature of
        (rec_id, sig) \<Rightarrow> recover_with lib ''unable to recover pubkey: '' rec_id sig message_hash)"

definition signer_public_key :: "'j stacks_lib \<Rightarrow> u8 list \<Rightarrow> string \<Rightarrow> string + string" where
  "signer_public_key lib signer_sig_hash sig_hex =
     (case map_error (\<lambda>e. ''unable to parse signer signature message: '' @ e) (parse_signature lib sig_hex) of
        Inl e \<Rightarrow> Inl e
      | Inr sig_msg \<Rightarrow>
          (case map_error (\<lambda>e. ''unable to recover signer sig pubkey: '' @ e)
                  (get_signer_pubkey_from_message_hash lib signer_sig_hash sig_msg) of
             Inl e \<Rightarrow> Inl e
           | Inr pubkey \<Rightarrow> Inr (''0x'' @ hex_encode lib pubkey)))"

definition signer_hash :: "'j stacks_lib \<Rightarrow> string option \<Rightarrow> u8 list option outcome" where
  "signer_hash lib h =
     (case h of
        None \<Rightarrow> Done None
      | Some hash \<Rightarrow>
          bind_outcome (slice_from 2 hash)
            (\<lambda>hex. case hex_decode lib hex of Inl e \<Rightarrow> Panic | Inr bytes \<Rightarrow> Done (Some bytes)))"

definition signer_keys :: "'j stacks_lib \<Rightarrow> u8 list option \<Rightarrow> string list option \<Rightarrow> string + string list option" where
  "signer_keys lib h sigs =
     (case (h, sigs) of
        (Some signer_sig_hash, Some signatures) \<Rightarrow>
          (case collect_results (signer_public_key lib signer_sig_hash) signatures of
             Inl e \<Rightarrow> Inl e
           | Inr keys \<Rightarrow> Inr (Some keys))
      | _ \<Rightarrow> Inr None)"

definition standard_reward_set :: "new_reward_set \<Rightarrow> stacks_block_metadata_reward_set" where
  "standard_reward_set r =
     \<lparr>rs_pox_ustx_threshold = nrs_pox_ustx_threshold r,
      rs_rewarded_addresses = nrs_rewarded_addresses r,
      rs_signers =
        map_option (map (\<lambda>signer. \<lparr>rs_signing_key = nrs_signing_key signer, rs_weight = nrs_weight signer,
                                   rs_stacked_amt = nrs_stacked_amt signer\<rparr>)) (nrs_signers r)\<rparr>"

text \<open>
  The reward cycle of a block: the Bitcoin blocks since one past the first, divided by the length of
  a cycle. A length of zero panics at the division, one above 32 bits at the last conversion; an
  index above 32 bits becomes 0.
\<close>

definition cycle_blocks :: "pox_config \<Rightarrow> u64 \<Rightarrow> u64" where
  "cycle_blocks cfg burn_height = saturating_sub burn_height (1 + first_burnchain_block_height cfg)"

definition u32_or_zero :: "u64 \<Rightarrow> u32" where
  "u32_or_zero n = (if n \<le> 4294967295 then ucast n else 0)"

definition block_metadata ::
  "'j new_block \<Rightarrow> pox_config \<Rightarrow> string list option \<Rightarrow> stacks_block_metadata" where
  "block_metadata block cfg keys =
     \<lparr>bitcoin_anchor_block_identifier = BlockIdentifier (nb_burn_block_height block) (nb_burn_block_hash block),
      pox_cycle_index = u32_or_zero (cycle_blocks cfg (nb_burn_block_height block) div get_pox_cycle_len cfg),
      pox_cycle_position = ucast (cycle_blocks cfg (nb_burn_block_height block) mod get_pox_cycle_len cfg),
      pox_cycle_length = ucast (get_pox_cycle_len cfg),
      confirm_microblock_identifier = confirmed_microblock block,
      stacks_block_hash = nb_hash block,
      block_time = nb_block_time block,
      signer_bitvec = nb_signer_bitvec block,
      signer_signature = nb_signer_signature block,
      signer_public_keys = keys,
      cycle_number = nb_cycle_number block,
      reward_set = map_option standard_reward_set (nb_reward_set block),
      tenure_height = nb_tenure_height block\<rparr>"

definition parent_height :: "u64 \<Rightarrow> u64" where
  "parent_height height = (if height = 0 then 0 else height - 1)"

definition standard_block ::
  "'j new_block \<Rightarrow> pox_config \<Rightarrow> stacks_transaction_data list \<Rightarrow> string list option \<Rightarrow> stacks_block_data" where
  "standard_block block cfg txs keys =
     \<lparr>sb_block_identifier = BlockIdentifier (nb_height block) (nb_index_hash block),
      sb_parent_block_identifier =
        BlockIdentifier (parent_height (nb_height block)) (nb_parent_index_block_hash block),
      sb_timestamp = nb_parent_burn_block_timestamp block,
      sb_transactions = txs,
      sb_metadata = block_metadata block cfg keys\<rparr>"

definition standardize_stacks_block ::
  "'j stacks_lib \<Rightarrow> 'j new_block \<Rightarrow> stacks_chain_context \<Rightarrow>
   ((string + stacks_block_data) \<times> stacks_chain_context) outcome" where
  "standardize_stacks_block lib block chain_ctx =
     (let cfg = pox_config chain_ctx
      in if get_pox_cycle_len cfg = 0 then Panic
         else bind_outcome
           (block_transactions lib (nb_height block) (nb_txs block) (group_events (nb_events block) [])
              (asset_class_map chain_ctx) [])
           (\<lambda>(r, cache). case r of
              Inl e \<Rightarrow> Done (Inl e, chain_ctx\<lparr>asset_class_map := cache\<rparr>)
            | Inr txs \<Rightarrow>
                bind_outcome (signer_hash lib (nb_signer_signature_hash block))
                  (\<lambda>hash.
                     if 4294967295 < get_pox_cycle_len cfg then Panic
                     else case signer_keys lib hash (nb_signer_signature block) of
                         Inl e \<Rightarrow> Done (Inl e, chain_ctx\<lparr>asset_class_map := cache\<rparr>)
                       | Inr keys \<Rightarrow>
                           Done (Inr (standard_block block cfg txs keys), chain_ctx\<lparr>asset_class_map := cache\<rparr>))))"

text \<open> The two entry points that decode first: from text and from JSON.\<close>

definition standardize_stacks_serialized_block ::
  "'j stacks_lib \<Rightarrow> string \<Rightarrow> stacks_chain_context \<Rightarrow>
   ((string + stacks_block_data) \<times> stacks_chain_context) outcome" where
  "standardize_stacks_serialized_block lib serialized_block chain_ctx =
     (case parse_block lib serialized_block of
        Inl e \<Rightarrow> Done (Inl (''unable to parse stacks block_header '' @ e), chain_ctx)
      | Inr block \<Rightarrow> standardize_stacks_block lib block chain_ctx)"

definition standardize_stacks_marshalled_block ::
  "'j stacks_lib \<Rightarrow> 'j \<Rightarrow> stacks_chain_context \<Rightarrow>
   ((string + stacks_block_data) \<times> stacks_chain_context) outcome" where
  "standardize_stacks_marshalled_block lib marshalled_block chain_ctx =
     (case dec_block lib marshalled_block of
        Inl e \<Rightarrow> Done (Inl (''unable to parse stacks block '' @ e), chain_ctx)
      | Inr block \<Rightarrow> standardize_stacks_block lib block chain_ctx)"

definition standardize_stacks_serialized_block_header ::
  "'j stacks_lib \<Rightarrow> string \<Rightarrow> string + (block_identifier \<times> block_identifier)" where
  "standardize_stacks_serialized_block_header lib serialized_block =
     (case dec_block_header lib serialized_block of
        Inl e \<Rightarrow> Inl (''unable to parse stacks block_header '' @ e)
      | Inr header \<Rightarrow>
          (case nbh_index_block_hash header of
             None \<Rightarrow> Inl ''unable to retrieve index_block_hash''
           | Some hash \<Rightarrow>
               (case nbh_parent_index_block_hash header of
                  None \<Rightarrow> Inl ''unable to retrieve parent_index_block_hash''
                | Some parent_hash \<Rightarrow>
                    Inr (BlockIdentifier (nbh_block_height header) hash,
                         BlockIdentifier (saturating_sub (nbh_block_height header) 1) parent_hash))))"

section \<open>Microblock trails\<close>

text \<open>The identifier of a microblock and of its parent; the first of a trail is its own parent.\<close>

definition microblock_identifiers :: "new_microblock_transaction \<Rightarrow> (block_identifier \<times> block_identifier) outcome" where
  "microblock_identifiers tx =
     bind_outcome (expect (if nmt_microblock_sequence tx < 2 ^ 64 then Some (of_nat (nmt_microblock_sequence tx) :: u64) else None))
       (\<lambda>index.
          let identifier = BlockIdentifier index (nmt_microblock_hash tx)
          in Done (identifier,
                   if 0 < nmt_microblock_sequence tx
                   then BlockIdentifier (saturating_sub index 1) (nmt_microblock_parent_hash tx)
                   else identifier))"

definition microblock_transaction ::
  "'j stacks_lib \<Rightarrow> new_microblock_transaction \<Rightarrow> block_identifier \<Rightarrow> tx_info \<Rightarrow> stacks_transaction_receipt \<Rightarrow>
   operation list \<Rightarrow> stacks_transaction_data" where
  "microblock_transaction lib tx identifier info receipt ops =
     (case info of
        (description, tx_type, fee, nonce, sender, sponsor) \<Rightarrow>
          \<lparr>transaction_identifier = \<lparr>txid_hash = nmt_txid tx\<rparr>,
           operations = ops,
           tx_metadata =
             \<lparr>tx_success = (nmt_status tx = ''success''),
              tx_raw_tx = nmt_raw_tx tx,
              tx_result = get_value_description lib (nmt_raw_result tx),
              tx_sender = sender, tx_nonce = nonce, tx_fee = fee, tx_kind = tx_type, tx_receipt = receipt,
              tx_description = description, tx_sponsor = sponsor,
              tx_execution_cost = nmt_execution_cost tx,
              tx_position = MicroBlock identifier (nmt_tx_index tx),
              tx_proof = None,
              tx_contract_abi = nmt_contract_abi tx\<rparr>\<rparr>)"

type_synonym microblocks_set = "(block_identifier \<times> block_identifier, stacks_transaction_data list) btree_map"

definition push_transaction ::
  "block_identifier \<times> block_identifier \<Rightarrow> stacks_transaction_data \<Rightarrow> microblocks_set \<Rightarrow> microblocks_set" where
  "push_transaction key tx m =
     bt_insert key (case bt_get m key of Some txs \<Rightarrow> txs @ [tx] | None \<Rightarrow> [tx]) m"

fun trail_loop ::
  "'j stacks_lib \<Rightarrow> new_microblock_transaction list \<Rightarrow> (string, 'j new_event list) hash_map \<Rightarrow>
   (string, asset_class_cache) hash_map \<Rightarrow> microblocks_set \<Rightarrow>
   ((string + microblocks_set) \<times> (string, asset_class_cache) hash_map) outcome" where
  "trail_loop lib [] events cache m = Done (Inr m, cache)"
| "trail_loop lib (tx # txs) events cache m =
     (case take_events (nmt_txid tx) events of
        (tx_events, events1) \<Rightarrow>
          (case get_tx_description lib (nmt_raw_tx tx) tx_events of
             Inl e \<Rightarrow> Panic
           | Inr info \<Rightarrow>
               bind_outcome (collect_fallible (into_observer_event lib) tx_events)
                 (\<lambda>r. case r of
                    Inl e \<Rightarrow> Done (Inl e, cache)
                  | Inr evs \<Rightarrow>
                      bind_outcome (get_standardized_stacks_receipt evs cache True)
                        (\<lambda>((receipt, ops), cache1).
                           bind_outcome (microblock_identifiers tx)
                             (\<lambda>(identifier, parent).
                                trail_loop lib txs events1 cache1
                                  (push_transaction (identifier, parent)
                                     (microblock_transaction lib tx identifier info receipt ops) m))))))"

definition trail_microblock ::
  "'j new_microblock_trail \<Rightarrow> (block_identifier \<times> block_identifier) \<times> stacks_transaction_data list \<Rightarrow>
   stacks_microblock_data" where
  "trail_microblock trail entry =
     (case entry of
        ((identifier, parent), txs) \<Rightarrow>
          \<lparr>mb_block_identifier = identifier, mb_parent_block_identifier = parent,
           mb_timestamp = trail_burn_block_timestamp trail, mb_transactions = txs,
           mb_anchor_block_identifier = BlockIdentifier 0 (trail_parent_index_block_hash trail)\<rparr>)"

text \<open>
  The final \<^verbatim>\<open>sort_by\<close> is stable and compares two identifiers the other way round; with the reversed
  order of identifiers it sorts by ascending height, then hash.
\<close>

definition identifier_key :: "block_identifier \<Rightarrow> u64 \<times> string" where
  "identifier_key i = (bid_index i, bid_hash i)"

definition sort_microblocks :: "stacks_microblock_data list \<Rightarrow> stacks_microblock_data list" where
  "sort_microblocks ms = sort_key (\<lambda>m. identifier_key (mb_block_identifier m)) ms"

definition standardize_stacks_microblock_trail ::
  "'j stacks_lib \<Rightarrow> 'j new_microblock_trail \<Rightarrow> stacks_chain_context \<Rightarrow>
   ((string + stacks_microblock_data list) \<times> stacks_chain_context) outcome" where
  "standardize_stacks_microblock_trail lib trail chain_ctx =
     bind_outcome
       (trail_loop lib (trail_transactions trail) (group_events (trail_events trail) []) (asset_class_map chain_ctx) [])
       (\<lambda>(r, cache).
          Done (case r of Inl e \<Rightarrow> Inl e | Inr m \<Rightarrow> Inr (sort_microblocks (map (trail_microblock trail) m)),
                chain_ctx\<lparr>asset_class_map := cache\<rparr>))"

definition standardize_stacks_serialized_microblock_trail ::
  "'j stacks_lib \<Rightarrow> string \<Rightarrow> stacks_chain_context \<Rightarrow>
   ((string + stacks_microblock_data list) \<times> stacks_chain_context) outcome" where
  "standardize_stacks_serialized_microblock_trail lib serialized chain_ctx =
     (case parse_trail lib serialized of
        Inl e \<Rightarrow> Done (Inl (''unable to parse microblock trail '' @ e), chain_ctx)
      | Inr trail \<Rightarrow> standardize_stacks_microblock_trail lib trail chain_ctx)"

definition standardize_stacks_marshalled_microblock_trail ::
  "'j stacks_lib \<Rightarrow> 'j \<Rightarrow> stacks_chain_context \<Rightarrow>
   ((string + stacks_microblock_data list) \<times> stacks_chain_context) outcome" where
  "standardize_stacks_marshalled_microblock_trail lib marshalled chain_ctx =
     (case dec_trail lib marshalled of
        Inl e \<Rightarrow> Done (Inl (''unable to parse microblock trail '' @ e), chain_ctx)
      | Inr trail \<Rightarrow> standardize_stacks_microblock_trail lib trail chain_ctx)"

end
