(* ===== verification/Stacks_Standardize_Correct.thy ===== *)
theory Stacks_Standardize_Correct
  imports Stacks_Standardize
begin

text \<open>
  What standardization guarantees: every transaction gets exactly its own events, in order; the
  operations of a block conserve every asset; the reward cycle of a block is a division with
  remainder; a header and the block it heads get the same identifiers; a microblock trail comes out
  in ascending order, with every transaction once and a single anchor.
\<close>

section \<open>Grouping events by transaction\<close>

definition events_of :: "(string, 'j new_event list) hash_map \<Rightarrow> string \<Rightarrow> 'j new_event list" where
  "events_of m t = (case hm_get m t of Some es \<Rightarrow> es | None \<Rightarrow> [])"

lemma events_of_group:
  "events_of (group_events evs m) t = events_of m t @ filter (\<lambda>e. ev_txid e = t) evs"
proof (induction evs arbitrary: m)
  case (Cons e evs)
  then show ?case by (auto simp: events_of_def split: option.split)
qed simp

lemma take_events_eq: "take_events t m = (events_of m t, hm_remove t m)"
  by (simp add: take_events_def events_of_def)

lemma events_of_remove: "events_of (hm_remove t m) t' = (if t' = t then [] else events_of m t')"
  by (simp add: events_of_def)

section \<open>Transactions of a block\<close>

definition describes :: "'j stacks_lib \<Rightarrow> ('t \<Rightarrow> 'j new_event list) \<Rightarrow> ('t \<Rightarrow> string) \<Rightarrow> 't \<Rightarrow> bool" where
  "describes lib evs raw tx = (case get_tx_description lib (raw tx) (evs tx) of Inl e \<Rightarrow> False | Inr info \<Rightarrow> True)"

lemma describes_iff: "describes lib evs raw tx \<longleftrightarrow> (\<exists>info. get_tx_description lib (raw tx) (evs tx) = Inr info)"
  by (auto simp: describes_def split: sum.split)

text \<open>The receipt of a transaction lists exactly these events, and its operations account for them.\<close>

definition receipt_of :: "'j stacks_lib \<Rightarrow> 'j new_event list \<Rightarrow> stacks_transaction_data \<Rightarrow> bool" where
  "receipt_of lib evs d \<longleftrightarrow>
     (let observed = receipt_events (tx_receipt (tx_metadata d))
      in collect_fallible (into_observer_event lib) evs = Done (Inr observed) \<and>
         (\<forall>k. net k (operations d) = sum_list (map (\<lambda>e. supply_change k (event_payload e)) observed)))"

definition standardizes_tx :: "'j stacks_lib \<Rightarrow> (string \<Rightarrow> 'j new_event list) \<Rightarrow> new_transaction \<Rightarrow> stacks_transaction_data \<Rightarrow> bool" where
  "standardizes_tx lib evs tx d \<longleftrightarrow>
     txid_hash (transaction_identifier d) = nt_txid tx \<and>
     tx_position (tx_metadata d) = AnchorBlock (nt_tx_index tx) \<and>
     receipt_of lib (evs (nt_txid tx)) d"

lemma receipt_returns:
  assumes "get_standardized_stacks_receipt evs cache True = Done ((receipt, ops), cache1)"
  shows "receipt_events receipt = evs \<and> (\<forall>k. net k ops = sum_list (map (\<lambda>e. supply_change k (event_payload e)) evs))"
proof -
  from assms obtain s where "receipt_loop evs (receipt_start cache) = Done s"
      "receipt = stacks_transaction_receipt_new (rcp_contracts s) (rcp_assets s) evs" "ops = rcp_operations s"
    by (auto simp: get_standardized_stacks_receipt_def bind_outcome_Done_iff)
  with receipt_loop_Done [of evs "receipt_start cache" s] show ?thesis
    by (auto simp: stacks_transaction_receipt_new_def receipt_start_def)
qed

lemma block_transaction_simps [simp]:
  "txid_hash (transaction_identifier (block_transaction lib tx info receipt ops)) = nt_txid tx"
  "operations (block_transaction lib tx info receipt ops) = ops"
  "tx_receipt (tx_metadata (block_transaction lib tx info receipt ops)) = receipt"
  "tx_position (tx_metadata (block_transaction lib tx info receipt ops)) = AnchorBlock (nt_tx_index tx)"
  by (simp_all add: block_transaction_def split: prod.split)

text \<open>One iteration of the loop: the transaction is skipped, or it is standardized.\<close>

lemma block_transactions_step:
  assumes "block_transactions lib h (tx # txs) m cache acc = Done (Inr res, cache')"
  obtains
    (skip) e where "get_tx_description lib (nt_raw_tx tx) (events_of m (nt_txid tx)) = Inl e"
      "nt_status tx = ''abort_by_response''"
      "block_transactions lib h txs (hm_remove (nt_txid tx) m) cache acc = Done (Inr res, cache')"
  | (push) info d cache1 where "get_tx_description lib (nt_raw_tx tx) (events_of m (nt_txid tx)) = Inr info"
      "standardizes_tx lib (events_of m) tx d"
      "block_transactions lib h txs (hm_remove (nt_txid tx) m) cache1 (acc @ [d]) = Done (Inr res, cache')"
proof (cases "get_tx_description lib (nt_raw_tx tx) (events_of m (nt_txid tx))")
  case (Inl e)
  with assms show ?thesis by (intro skip [of e]) (auto simp: take_events_eq split: if_splits)
next
  case (Inr info)
  with assms obtain evs receipt ops cache1 where
      evs: "collect_fallible (into_observer_event lib) (events_of m (nt_txid tx)) = Done (Inr evs)" and
      r: "get_standardized_stacks_receipt evs cache True = Done ((receipt, ops), cache1)" and
      rest: "block_transactions lib h txs (hm_remove (nt_txid tx) m) cache1
               (acc @ [block_transaction lib tx info receipt ops]) = Done (Inr res, cache')"
    by (auto simp: take_events_eq bind_case_sum_Done_iff) (auto simp: bind_outcome_Done_iff)
  show ?thesis
    using receipt_returns [OF r] evs
    by (intro push [OF Inr _ rest]) (simp add: standardizes_tx_def receipt_of_def Let_def)
qed

lemma block_transactions_Done:
  assumes "block_transactions lib h txs m cache acc = Done (Inr res, cache')"
    and "distinct (map nt_txid txs)"
  shows "\<exists>new. res = acc @ new \<and>
     list_all2 (standardizes_tx lib (events_of m))
       (filter (describes lib (\<lambda>tx. events_of m (nt_txid tx)) nt_raw_tx) txs) new \<and>
     list_all (\<lambda>tx. nt_status tx = ''abort_by_response'' \<or> describes lib (\<lambda>tx. events_of m (nt_txid tx)) nt_raw_tx tx) txs"
  using assms
proof (induction txs arbitrary: m cache acc)
  case (Cons tx txs)
  let ?m = "hm_remove (nt_txid tx) m"
  have same: "events_of ?m (nt_txid t) = events_of m (nt_txid t)" if "t \<in> set txs" for t
  proof -
    from Cons.prems(2) that have "nt_txid t \<noteq> nt_txid tx" by (metis distinct.simps(2) image_eqI list.simps(9) set_map)
    then show ?thesis by (simp add: events_of_remove)
  qed
  then have flt: "filter (describes lib (\<lambda>tx. events_of ?m (nt_txid tx)) nt_raw_tx) txs =
      filter (describes lib (\<lambda>tx. events_of m (nt_txid tx)) nt_raw_tx) txs"
    by (auto simp: describes_def intro: filter_cong)
  have all: "list_all (\<lambda>tx. nt_status tx = ''abort_by_response'' \<or> describes lib (\<lambda>tx. events_of ?m (nt_txid tx)) nt_raw_tx tx) txs \<Longrightarrow>
      list_all (\<lambda>tx. nt_status tx = ''abort_by_response'' \<or> describes lib (\<lambda>tx. events_of m (nt_txid tx)) nt_raw_tx tx) txs"
    using same by (simp add: list_all_iff describes_def)
  have rel: "list_all2 (standardizes_tx lib (events_of ?m)) ts new \<Longrightarrow> set ts \<subseteq> set txs \<Longrightarrow>
      list_all2 (standardizes_tx lib (events_of m)) ts new" for ts new
    by (erule list.rel_mono_strong) (use same in \<open>auto simp: standardizes_tx_def\<close>)
  from Cons.prems(1) show ?case
  proof (cases rule: block_transactions_step)
    case (skip e)
    from Cons.IH [OF skip(3)] Cons.prems(2) obtain new where new: "res = acc @ new"
        "list_all2 (standardizes_tx lib (events_of m)) (filter (describes lib (\<lambda>tx. events_of m (nt_txid tx)) nt_raw_tx) txs) new"
        "list_all (\<lambda>tx. nt_status tx = ''abort_by_response'' \<or> describes lib (\<lambda>tx. events_of m (nt_txid tx)) nt_raw_tx tx) txs"
      using rel all by (auto simp: flt)
    moreover from skip have "\<not> describes lib (\<lambda>tx. events_of m (nt_txid tx)) nt_raw_tx tx" by (simp add: describes_iff)
    ultimately show ?thesis using skip by simp
  next
    case (push info d cache1)
    from Cons.IH [OF push(3)] Cons.prems(2) obtain new where new: "res = acc @ d # new"
        "list_all2 (standardizes_tx lib (events_of m)) (filter (describes lib (\<lambda>tx. events_of m (nt_txid tx)) nt_raw_tx) txs) new"
        "list_all (\<lambda>tx. nt_status tx = ''abort_by_response'' \<or> describes lib (\<lambda>tx. events_of m (nt_txid tx)) nt_raw_tx tx) txs"
      using rel all by (auto simp: flt)
    moreover from push have "describes lib (\<lambda>tx. events_of m (nt_txid tx)) nt_raw_tx tx" by (simp add: describes_def)
    ultimately show ?thesis using push by (intro exI [of _ "d # new"]) simp
  qed
qed simp

section \<open>Blocks\<close>

lemma standardize_stacks_block_Ok:
  assumes "standardize_stacks_block lib block chain_ctx = Done (Inr b, chain_ctx')"
  obtains cache keys where "get_pox_cycle_len (pox_config chain_ctx) \<noteq> 0"
    "\<not> 4294967295 < get_pox_cycle_len (pox_config chain_ctx)"
    "block_transactions lib (nb_height block) (nb_txs block) (group_events (nb_events block) [])
       (asset_class_map chain_ctx) [] = Done (Inr (sb_transactions b), cache)"
    "b = standard_block block (pox_config chain_ctx) (sb_transactions b) keys"
    "chain_ctx' = chain_ctx\<lparr>asset_class_map := cache\<rparr>"
proof -
  let ?cfg = "pox_config chain_ctx"
  from assms have len: "get_pox_cycle_len ?cfg \<noteq> 0" by (auto simp: standardize_stacks_block_def Let_def)
  from assms len obtain r cache where
      t: "block_transactions lib (nb_height block) (nb_txs block) (group_events (nb_events block) [])
            (asset_class_map chain_ctx) [] = Done (r, cache)" and
      rest: "(case r of
           Inl e \<Rightarrow> Done (Inl e, chain_ctx\<lparr>asset_class_map := cache\<rparr>)
         | Inr txs \<Rightarrow>
             bind_outcome (signer_hash lib (nb_signer_signature_hash block))
               (\<lambda>hash.
                  if 4294967295 < get_pox_cycle_len ?cfg then Panic
                  else case signer_keys lib hash (nb_signer_signature block) of
                      Inl e \<Rightarrow> Done (Inl e, chain_ctx\<lparr>asset_class_map := cache\<rparr>)
                    | Inr keys \<Rightarrow>
                        Done (Inr (standard_block block ?cfg txs keys), chain_ctx\<lparr>asset_class_map := cache\<rparr>))) = Done (Inr b, chain_ctx')"
    by (auto simp: standardize_stacks_block_def Let_def bind_outcome_Done_iff)
  from rest obtain txs where r: "r = Inr txs" by (cases r) auto
  with rest obtain hash where small: "\<not> 4294967295 < get_pox_cycle_len ?cfg" and
      k: "(case signer_keys lib hash (nb_signer_signature block) of
             Inl e \<Rightarrow> Done (Inl e, chain_ctx\<lparr>asset_class_map := cache\<rparr>)
           | Inr keys \<Rightarrow> Done (Inr (standard_block block ?cfg txs keys), chain_ctx\<lparr>asset_class_map := cache\<rparr>))
          = Done (Inr b, chain_ctx')"
    by (auto simp: bind_outcome_Done_iff split: if_splits)
  from k obtain keys where "b = standard_block block ?cfg txs keys" "chain_ctx' = chain_ctx\<lparr>asset_class_map := cache\<rparr>"
    by (cases "signer_keys lib hash (nb_signer_signature block)") auto
  with t len small r show thesis by (intro that [of cache keys]) (simp_all add: standard_block_def)
qed

lemma unat_ucast_u32: "n \<le> (4294967295 :: u64) \<Longrightarrow> unat (ucast n :: u32) = unat n"
  by (simp add: unsigned_ucast_eq unsigned_take_bit_eq take_bit_nat_eq_self word_le_nat_alt)

lemma cycle_position:
  assumes "get_pox_cycle_len cfg \<noteq> 0" and "\<not> 4294967295 < get_pox_cycle_len cfg"
  shows "unat (ucast (n mod get_pox_cycle_len cfg) :: u32) = unat n mod unat (get_pox_cycle_len cfg)"
    and "unat (ucast (get_pox_cycle_len cfg) :: u32) = unat (get_pox_cycle_len cfg)"
proof -
  from assms have le: "get_pox_cycle_len cfg \<le> 4294967295" by simp
  have "n mod get_pox_cycle_len cfg \<le> get_pox_cycle_len cfg"
    using assms(1) by (simp add: word_le_nat_alt unat_mod unat_gt_0 less_imp_le)
  with le have "n mod get_pox_cycle_len cfg \<le> 4294967295" by simp
  then show "unat (ucast (n mod get_pox_cycle_len cfg) :: u32) = unat n mod unat (get_pox_cycle_len cfg)"
    by (simp add: unat_ucast_u32 unat_mod)
  from le show "unat (ucast (get_pox_cycle_len cfg) :: u32) = unat (get_pox_cycle_len cfg)"
    by (rule unat_ucast_u32)
qed

lemma block_standardizes:
  assumes "standardize_stacks_block lib block chain_ctx = Done (Inr b, chain_ctx')"
    and "distinct (map nt_txid (nb_txs block))"
  shows "list_all2 (standardizes_tx lib (\<lambda>t. filter (\<lambda>e. ev_txid e = t) (nb_events block)))
       (filter (describes lib (\<lambda>tx. filter (\<lambda>e. ev_txid e = nt_txid tx) (nb_events block)) nt_raw_tx) (nb_txs block))
       (sb_transactions b) \<and>
     list_all (\<lambda>tx. nt_status tx = ''abort_by_response'' \<or>
        describes lib (\<lambda>tx. filter (\<lambda>e. ev_txid e = nt_txid tx) (nb_events block)) nt_raw_tx tx) (nb_txs block)"
proof -
  let ?m = "group_events (nb_events block) []"
  have m: "events_of ?m = (\<lambda>t. filter (\<lambda>e. ev_txid e = t) (nb_events block))"
    by (rule ext) (simp add: events_of_group events_of_def [of "[]"])
  from assms(1) obtain cache where
    "block_transactions lib (nb_height block) (nb_txs block) ?m (asset_class_map chain_ctx) [] = Done (Inr (sb_transactions b), cache)"
    by (rule standardize_stacks_block_Ok)
  from block_transactions_Done [OF this assms(2)] show ?thesis by (simp add: m)
qed

section \<open>A sample node message\<close>

definition sample_event :: "string \<Rightarrow> u32 \<Rightarrow> stacks_transaction_event_payload new_event" where
  "sample_event t i =
     \<lparr>ev_txid = t, ev_committed = True, ev_event_index = i, ev_event_type = ''stx_mint_event'',
      ev_stx_transfer = None, ev_stx_mint = Some (STXMintEvent \<lparr>stx_mint_recipient = ''SP'', stx_mint_amount = ''5''\<rparr>),
      ev_stx_burn = None, ev_stx_lock = None, ev_nft_transfer = None, ev_nft_mint = None, ev_nft_burn = None,
      ev_ft_transfer = None, ev_ft_mint = None, ev_ft_burn = None, ev_data_var_set = None,
      ev_data_map_insert = None, ev_data_map_update = None, ev_data_map_delete = None, ev_contract = None\<rparr>"

definition sample_tx :: "string \<Rightarrow> nat \<Rightarrow> new_transaction" where
  "sample_tx t i =
     \<lparr>nt_txid = t, nt_tx_index = i, nt_status = ''success'', nt_raw_result = ''0x03'', nt_raw_tx = ''0x01'',
      nt_execution_cost = None, nt_contract_interface = None, nt_contract_abi = None\<rparr>"

definition sample_block :: "stacks_transaction_event_payload new_block" where
  "sample_block =
     \<lparr>nb_height = 7, nb_hash = ''h7'', nb_index_hash = ''b7'', nb_burn_block_height = 123,
      nb_burn_block_hash = ''k123'', nb_parent_block_hash = ''h6'', nb_parent_index_block_hash = ''b6'',
      nb_parent_microblock = None, nb_parent_microblock_sequence = None,
      nb_parent_burn_block_hash = ''k122'', nb_parent_burn_block_height = 122, nb_parent_burn_block_timestamp = 0,
      nb_txs = [sample_tx ''t1'' 0, sample_tx ''t2'' 1],
      nb_events = [sample_event ''t2'' 0, sample_event ''t1'' 1, sample_event ''t2'' 2],
      nb_matured_miner_rewards = [], nb_tenure_height = None, nb_block_time = None, nb_signer_bitvec = None,
      nb_signer_signature_hash = None, nb_signer_signature = None, nb_cycle_number = None, nb_reward_set = None\<rparr>"

definition sample_micro_tx :: "string \<Rightarrow> nat \<Rightarrow> string \<Rightarrow> string \<Rightarrow> new_microblock_transaction" where
  "sample_micro_tx t sequence hash parent =
     \<lparr>nmt_txid = t, nmt_tx_index = 0, nmt_status = ''success'', nmt_raw_result = ''0x03'', nmt_raw_tx = ''0x01'',
      nmt_execution_cost = None, nmt_microblock_sequence = sequence, nmt_microblock_hash = hash,
      nmt_microblock_parent_hash = parent, nmt_contract_abi = None\<rparr>"

definition sample_trail :: "stacks_transaction_event_payload new_microblock_trail" where
  "sample_trail =
     \<lparr>trail_parent_index_block_hash = ''b7'', trail_burn_block_hash = ''k123'', trail_burn_block_height = 123,
      trail_burn_block_timestamp = 0,
      trail_transactions =
        [sample_micro_tx ''t2'' 1 ''m1'' ''m0'', sample_micro_tx ''t1'' 0 ''m0'' ''b7'', sample_micro_tx ''t3'' 1 ''m1'' ''m0''],
      trail_events = [sample_event ''t3'' 0]\<rparr>"

text \<open>
  A stand-in for the third-party code in which a JSON value is a decoded payload: hex text is its
  bytes, every transaction is a coinbase.
\<close>

definition sample_lib :: "stacks_transaction_event_payload stacks_lib" where
  "sample_lib =
     \<lparr>hex_decode = (\<lambda>s. Inr (map (\<lambda>c. of_nat (of_char c)) s)), hex_encode = map (\<lambda>b. char_of (unat b)),
      decode_clarity_value = (\<lambda>_. None), show_clarity_value = (\<lambda>_. []),
      decode_transaction = (\<lambda>bytes.
        if bytes = [] then Inl ''empty''
        else Inr \<lparr>st_auth = Standard \<lparr>cond_tx_fee = 3, cond_nonce = 1, cond_address_mainnet = ''SP'', cond_address_testnet = ''ST''\<rparr>,
              st_is_mainnet = True, st_origin_address = ''SP'', st_payload = CoinbasePayload\<rparr>),
      debug_events = (\<lambda>_. []), parse_signature = (\<lambda>_. Inl ''bad''),
      recovery_id_from_i32 = Inr, signature_from_compact = (\<lambda>s _. Inr s), message_from_digest = Inr,
      recover_ecdsa = (\<lambda>m _. Inr m),
      dec_stx_transfer = (\<lambda>p. case p of STXTransferEvent d \<Rightarrow> Inr d | _ \<Rightarrow> Inl []),
      dec_stx_mint = (\<lambda>p. case p of STXMintEvent d \<Rightarrow> Inr d | _ \<Rightarrow> Inl []),
      dec_stx_burn = (\<lambda>p. case p of STXBurnEvent d \<Rightarrow> Inr d | _ \<Rightarrow> Inl []),
      dec_stx_lock = (\<lambda>p. case p of STXLockEvent d \<Rightarrow> Inr d | _ \<Rightarrow> Inl []),
      dec_nft_transfer = (\<lambda>p. case p of NFTTransferEvent d \<Rightarrow> Inr d | _ \<Rightarrow> Inl []),
      dec_nft_mint = (\<lambda>p. case p of NFTMintEvent d \<Rightarrow> Inr d | _ \<Rightarrow> Inl []),
      dec_nft_burn = (\<lambda>p. case p of NFTBurnEvent d \<Rightarrow> Inr d | _ \<Rightarrow> Inl []),
      dec_ft_transfer = (\<lambda>p. case p of FTTransferEvent d \<Rightarrow> Inr d | _ \<Rightarrow> Inl []),
      dec_ft_mint = (\<lambda>p. case p of FTMintEvent d \<Rightarrow> Inr d | _ \<Rightarrow> Inl []),
      dec_ft_burn = (\<lambda>p. case p of FTBurnEvent d \<Rightarrow> Inr d | _ \<Rightarrow> Inl []),
      dec_data_var_set = (\<lambda>p. case p of DataVarSetEvent d \<Rightarrow> Inr d | _ \<Rightarrow> Inl []),
      dec_data_map_insert = (\<lambda>p. case p of DataMapInsertEvent d \<Rightarrow> Inr d | _ \<Rightarrow> Inl []),
      dec_data_map_update = (\<lambda>p. case p of DataMapUpdateEvent d \<Rightarrow> Inr d | _ \<Rightarrow> Inl []),
      dec_data_map_delete = (\<lambda>p. case p of DataMapDeleteEvent d \<Rightarrow> Inr d | _ \<Rightarrow> Inl []),
      dec_contract = (\<lambda>p. case p of SmartContractEvent d \<Rightarrow> Inr d | _ \<Rightarrow> Inl []),
      dec_block_header = (\<lambda>_. Inr \<lparr>nbh_block_height = 7, nbh_index_block_hash = Some ''b7'', nbh_parent_index_block_hash = Some ''b6''\<rparr>),
      dec_block = (\<lambda>_. Inr sample_block), dec_trail = (\<lambda>_. Inr sample_trail),
      parse_block = (\<lambda>_. Inl ''no block''), parse_trail = (\<lambda>_. Inl ''no trail'')\<rparr>"

definition sample_context :: stacks_chain_context where
  "sample_context = \<lparr>asset_class_map = [], pox_config = devnet_default\<rparr>"

lemmas sample_block_defs =
  sample_block_def sample_tx_def sample_event_def sample_context_def devnet_default_def get_pox_cycle_len_def

lemma sample_parse: "parse_u128 ''5'' = Some 5"
  by (simp add: parse_u128_def parse_unsigned_def digit_value_def)

lemma sample_description:
  "get_tx_description sample_lib ''0x01'' evs = Inr (''coinbase'', Coinbase, 3, 1, ''SP'', None)"
  by (simp add: get_tx_description_def strip_prefix_def sample_lib_def describe_auth_def describe_payload_def address_of_def)

lemma sample_observed:
  "into_observer_event sample_lib (sample_event t i) =
     Done (Inr \<lparr>event_payload = STXMintEvent \<lparr>stx_mint_recipient = ''SP'', stx_mint_amount = ''5''\<rparr>, event_position = i\<rparr>)"
  by (simp add: into_observer_event_def decoded_event_def sample_event_def sample_lib_def)

lemma sample_event_txid [simp]: "ev_txid (sample_event t i) = t"
  by (simp add: sample_event_def)

lemma sample_standardizes:
  "\<exists>b ctx. standardize_stacks_block sample_lib sample_block sample_context = Done (Inr b, ctx)"
  by (simp add: standardize_stacks_block_def Let_def sample_block_def sample_context_def devnet_default_def
      get_pox_cycle_len_def take_events_def sample_tx_def sample_description sample_observed
      get_standardized_stacks_receipt_def receipt_start_def with_amount_def sample_parse signer_hash_def signer_keys_def
      sample_event_txid)

section \<open>Properties of blocks\<close>

text \<open>
  C34. When \<^verbatim>\<open>standardize_stacks_block\<close> accepts a block whose transaction ids differ, the transactions it
  returns are those whose raw transaction could be described, in order; each carries its id, its
  position and exactly the events of the message with its id, in their order, decoded. Only
  transactions with status \<^verbatim>\<open>abort_by_response\<close> are left out.
\<close>

theorem standardize_block_events_exact:
  assumes "standardize_stacks_block lib block chain_ctx = Done (Inr b, chain_ctx')"
    and "distinct (map nt_txid (nb_txs block))"
  shows "list_all2
       (\<lambda>tx d. txid_hash (transaction_identifier d) = nt_txid tx \<and>
          tx_position (tx_metadata d) = AnchorBlock (nt_tx_index tx) \<and>
          collect_fallible (into_observer_event lib) (filter (\<lambda>e. ev_txid e = nt_txid tx) (nb_events block)) =
            Done (Inr (receipt_events (tx_receipt (tx_metadata d)))))
       (filter (describes lib (\<lambda>tx. filter (\<lambda>e. ev_txid e = nt_txid tx) (nb_events block)) nt_raw_tx) (nb_txs block))
       (sb_transactions b) \<and>
     list_all (\<lambda>tx. nt_status tx = ''abort_by_response'' \<or>
        describes lib (\<lambda>tx. filter (\<lambda>e. ev_txid e = nt_txid tx) (nb_events block)) nt_raw_tx tx) (nb_txs block)"
  using block_standardizes [OF assms]
  by (auto simp: standardizes_tx_def receipt_of_def Let_def elim!: list_all2_mono)

theorem standardize_block_events_exact_witness:
  "\<exists>b ctx. standardize_stacks_block sample_lib sample_block sample_context = Done (Inr b, ctx) \<and>
     map (\<lambda>d. map event_position (receipt_events (tx_receipt (tx_metadata d)))) (sb_transactions b) = [[1], [0, 2]]"
proof -
  obtain b ctx where ok: "standardize_stacks_block sample_lib sample_block sample_context = Done (Inr b, ctx)"
    using sample_standardizes by blast
  have flip: "(x # xs = receipt_events r) = (receipt_events r = x # xs)" for x xs r by auto
  have "distinct (map nt_txid (nb_txs sample_block))" by (simp add: sample_block_def sample_tx_def)
  from standardize_block_events_exact [OF ok this] ok show ?thesis
    by (intro exI [of _ b] exI [of _ ctx])
      (auto simp: sample_block_def sample_tx_def describes_def sample_description sample_observed list_all2_Cons1 flip)
qed

text \<open>
  The operations of an accepted block conserve every asset: summed over its transactions, the
  credits minus the debits of STX and of each token are what the events of the receipts mint minus
  what they burn.
\<close>

theorem standardize_block_conserves_assets:
  assumes "standardize_stacks_block lib block chain_ctx = Done (Inr b, chain_ctx')"
    and "distinct (map nt_txid (nb_txs block))"
  shows "net k (concat (map operations (sb_transactions b))) =
     sum_list (map (\<lambda>e. supply_change k (event_payload e))
       (concat (map (\<lambda>d. receipt_events (tx_receipt (tx_metadata d))) (sb_transactions b))))"
proof -
  have "net k (concat (map operations ds)) =
      sum_list (map (\<lambda>e. supply_change k (event_payload e))
        (concat (map (\<lambda>d. receipt_events (tx_receipt (tx_metadata d))) ds)))"
    if "list_all2 (standardizes_tx lib evs) txs ds" for txs ds evs
    using that
    by (induction rule: list_all2_induct) (simp_all add: standardizes_tx_def receipt_of_def Let_def)
  with block_standardizes [OF assms] show ?thesis by blast
qed

theorem standardize_block_conserves_assets_witness:
  "\<exists>b ctx. standardize_stacks_block sample_lib sample_block sample_context = Done (Inr b, ctx) \<and>
     net None (concat (map operations (sb_transactions b))) =
     sum_list (map (\<lambda>e. supply_change None (event_payload e))
       (concat (map (\<lambda>d. receipt_events (tx_receipt (tx_metadata d))) (sb_transactions b))))"
proof -
  obtain b ctx where ok: "standardize_stacks_block sample_lib sample_block sample_context = Done (Inr b, ctx)"
    using sample_standardizes by blast
  have "distinct (map nt_txid (nb_txs sample_block))" by (simp add: sample_block_def sample_tx_def)
  from standardize_block_conserves_assets [OF ok this] ok show ?thesis by blast
qed

text \<open>
  The reward cycle of an accepted block: the length is positive, the position is below it, and when
  the index fits 32 bits, index times length plus position is the number of Bitcoin blocks since the
  one after the first, 0 before it.
\<close>

theorem pox_cycle_division:
  assumes "standardize_stacks_block lib block chain_ctx = Done (Inr b, chain_ctx')"
    and "first_burnchain_block_height (pox_config chain_ctx) < 18446744073709551615"
  shows "unat (pox_cycle_position (sb_metadata b)) < unat (pox_cycle_length (sb_metadata b)) \<and>
     unat (pox_cycle_length (sb_metadata b)) = unat (get_pox_cycle_len (pox_config chain_ctx)) \<and>
     (let n = unat (nb_burn_block_height block) - (unat (first_burnchain_block_height (pox_config chain_ctx)) + 1);
          len = unat (get_pox_cycle_len (pox_config chain_ctx))
      in if n div len < 2 ^ 32
         then unat (pox_cycle_index (sb_metadata b)) * len + unat (pox_cycle_position (sb_metadata b)) = n
         else pox_cycle_index (sb_metadata b) = 0)"
proof -
  let ?cfg = "pox_config chain_ctx"
  let ?n = "cycle_blocks ?cfg (nb_burn_block_height block)"
  from assms(1) obtain keys where len: "get_pox_cycle_len ?cfg \<noteq> 0" "\<not> 4294967295 < get_pox_cycle_len ?cfg" and
      b: "b = standard_block block ?cfg (sb_transactions b) keys"
    by (rule standardize_stacks_block_Ok)
  from b have m: "sb_metadata b = block_metadata block ?cfg keys"
    by (metis standard_block_def stacks_block_data.select_convs(5))
  from assms(2) have "unat (1 + first_burnchain_block_height ?cfg) = Suc (unat (first_burnchain_block_height ?cfg))"
    by (intro unatSuc) (auto simp: add_eq_0_iff)
  then have n: "unat ?n = unat (nb_burn_block_height block) - (unat (first_burnchain_block_height ?cfg) + 1)"
    by (simp add: cycle_blocks_def unat_saturating_sub)
  have pos: "unat (get_pox_cycle_len ?cfg) > 0" using len(1) by (simp add: unat_gt_0)
  have idx: "unat (u32_or_zero (?n div get_pox_cycle_len ?cfg)) =
      (if unat ?n div unat (get_pox_cycle_len ?cfg) < 2 ^ 32 then unat ?n div unat (get_pox_cycle_len ?cfg) else 0)"
    by (auto simp: u32_or_zero_def unat_ucast_u32 word_le_nat_alt unat_div)
  have zero: "w = 0" if "unat w = 0" for w :: u32 using that by (simp add: unat_eq_zero)
  show ?thesis
    using pos idx by (auto simp: m block_metadata_def cycle_position [OF len] Let_def n intro: zero)
qed

theorem pox_cycle_division_witness:
  "\<exists>b ctx. standardize_stacks_block sample_lib sample_block sample_context = Done (Inr b, ctx) \<and>
     unat (pox_cycle_index (sb_metadata b)) * 20 + unat (pox_cycle_position (sb_metadata b)) = 22"
proof -
  obtain b ctx where ok: "standardize_stacks_block sample_lib sample_block sample_context = Done (Inr b, ctx)"
    using sample_standardizes by blast
  have "first_burnchain_block_height (pox_config sample_context) < 18446744073709551615"
    by (simp add: sample_context_def devnet_default_def)
  from pox_cycle_division [OF ok this] ok show ?thesis
    by (intro exI [of _ b] exI [of _ ctx]) (simp add: sample_block_defs)
qed

text \<open>
  The two computations of a reward cycle disagree. \<^verbatim>\<open>PoxConfig::get_pox_cycle_id\<close>, which the Bitcoin
  indexer uses, counts from the first height; \<^verbatim>\<open>standardize_stacks_block\<close> counts from the height after
  it. With the parameters of a devnet, at Bitcoin height 120 the former is in cycle 1 and the latter
  still in cycle 0, for every block.
\<close>

theorem pox_cycle_disagreement:
  "get_pox_cycle_id devnet_default 120 = Done 1 \<and>
   pox_cycle_index (block_metadata (block\<lparr>nb_burn_block_height := 120\<rparr>) devnet_default keys) = 0 \<and>
   get_pos_in_pox_cycle devnet_default 120 = Done 0 \<and>
   pox_cycle_position (block_metadata (block\<lparr>nb_burn_block_height := 120\<rparr>) devnet_default keys) = 19"
  by (simp add: get_pox_cycle_id_def get_pos_in_pox_cycle_def get_pox_cycle_len_def devnet_default_def
      block_metadata_def cycle_blocks_def saturating_sub_def u32_or_zero_def)

text \<open>
  A block header read on its own and the block it heads get the same identifiers: when the header
  decoder finds the height and the two hashes of the block, then
  \<^verbatim>\<open>standardize_stacks_serialized_block_header\<close> returns the identifier and the parent identifier that
  \<^verbatim>\<open>standardize_stacks_block\<close> gives the block, the parent of block 0 included.
\<close>

theorem header_and_block_identifiers_agree:
  assumes "dec_block_header lib text =
      Inr \<lparr>nbh_block_height = nb_height block, nbh_index_block_hash = Some (nb_index_hash block),
           nbh_parent_index_block_hash = Some (nb_parent_index_block_hash block)\<rparr>"
    and "standardize_stacks_block lib block chain_ctx = Done (Inr b, chain_ctx')"
  shows "standardize_stacks_serialized_block_header lib text =
     Inr (sb_block_identifier b, sb_parent_block_identifier b)"
proof -
  from assms(2) obtain keys where "b = standard_block block (pox_config chain_ctx) (sb_transactions b) keys"
    by (rule standardize_stacks_block_Ok)
  then have "sb_block_identifier b = BlockIdentifier (nb_height block) (nb_index_hash block)"
    "sb_parent_block_identifier b = BlockIdentifier (parent_height (nb_height block)) (nb_parent_index_block_hash block)"
    by (metis standard_block_def stacks_block_data.select_convs(1), metis standard_block_def stacks_block_data.select_convs(2))
  moreover have "saturating_sub h 1 = parent_height h" for h :: u64
    by (simp add: saturating_sub_def parent_height_def word_le_nat_alt Suc_le_eq unat_gt_0)
  ultimately show ?thesis
    by (simp add: standardize_stacks_serialized_block_header_def assms(1))
qed

theorem header_and_block_identifiers_agree_witness:
  "\<exists>b ctx. standardize_stacks_block sample_lib sample_block sample_context = Done (Inr b, ctx) \<and>
     standardize_stacks_serialized_block_header sample_lib ''{}'' = Inr (sb_block_identifier b, sb_parent_block_identifier b)"
proof -
  obtain b ctx where ok: "standardize_stacks_block sample_lib sample_block sample_context = Done (Inr b, ctx)"
    using sample_standardizes by blast
  have "dec_block_header sample_lib ''{}'' =
      Inr \<lparr>nbh_block_height = nb_height sample_block, nbh_index_block_hash = Some (nb_index_hash sample_block),
           nbh_parent_index_block_hash = Some (nb_parent_index_block_hash sample_block)\<rparr>"
    by (simp add: sample_lib_def sample_block_def)
  from header_and_block_identifiers_agree [OF this ok] ok show ?thesis by blast
qed

section \<open>Microblock trails\<close>

definition txs_at :: "microblocks_set \<Rightarrow> block_identifier \<times> block_identifier \<Rightarrow> stacks_transaction_data list" where
  "txs_at m key = (case bt_get m key of Some txs \<Rightarrow> txs | None \<Rightarrow> [])"

definition tx_hash :: "stacks_transaction_data \<Rightarrow> string" where
  "tx_hash d = txid_hash (transaction_identifier d)"

definition trail_set_inv :: "microblocks_set \<Rightarrow> bool" where
  "trail_set_inv m \<longleftrightarrow> bt_wf m \<and> list_all (\<lambda>(key, txs). txs \<noteq> []) m"

lemma txs_at_push: "txs_at (push_transaction key tx m) key' = txs_at m key' @ (if key' = key then [tx] else [])"
  by (auto simp: push_transaction_def txs_at_def bt_get_insert split: option.split)

lemma list_all_bt_insert: "list_all P m \<Longrightarrow> P (k, v) \<Longrightarrow> list_all P (bt_insert k v m)"
  by (induction m) auto

lemma trail_set_inv_push: "trail_set_inv m \<Longrightarrow> trail_set_inv (push_transaction key tx m)"
  by (auto simp: trail_set_inv_def push_transaction_def bt_wf_insert list_all_bt_insert split: option.split)

lemma trail_loop_step:
  assumes "trail_loop lib (tx # txs) events cache m = Done (Inr m', cache')"
  obtains key d events1 cache1 where "microblock_identifiers tx = Done key" "tx_hash d = nmt_txid tx"
    "receipt_of lib (events_of events (nmt_txid tx)) d"
    "trail_loop lib txs events1 cache1 (push_transaction key d m) = Done (Inr m', cache')"
proof (cases "get_tx_description lib (nmt_raw_tx tx) (events_of events (nmt_txid tx))")
  case (Inl e)
  with assms show ?thesis by (simp add: take_events_eq)
next
  case (Inr info)
  with assms obtain evs receipt ops cache1 key where
      evs: "collect_fallible (into_observer_event lib) (events_of events (nmt_txid tx)) = Done (Inr evs)" and
      r: "get_standardized_stacks_receipt evs cache True = Done ((receipt, ops), cache1)" and
      key: "microblock_identifiers tx = Done key" and
      rest: "trail_loop lib txs (hm_remove (nmt_txid tx) events) cache1
               (push_transaction key (microblock_transaction lib tx (fst key) info receipt ops) m) = Done (Inr m', cache')"
    by (auto simp: take_events_eq bind_case_sum_Done_iff) (auto simp: bind_outcome_Done_iff)
  show ?thesis
    using receipt_returns [OF r] evs
    by (intro that [OF key _ _ rest])
      (simp_all add: tx_hash_def receipt_of_def microblock_transaction_def split: prod.split)
qed

lemma trail_loop_Done:
  assumes "trail_loop lib txs events cache m = Done (Inr m', cache')" and "trail_set_inv m"
  shows "trail_set_inv m'"
    and "map tx_hash (txs_at m' key) =
       map tx_hash (txs_at m key) @ map nmt_txid (filter (\<lambda>tx. microblock_identifiers tx = Done key) txs)"
    and "list_all (\<lambda>tx. \<exists>k. microblock_identifiers tx = Done k) txs"
  using assms
proof (induction txs arbitrary: events cache m)
  case (Cons tx txs)
  {
    case 1
    then show ?case by (blast elim: trail_loop_step intro: Cons.IH(1) trail_set_inv_push)
  next
    case 2
    from 2(1) show ?case
    proof (rule trail_loop_step)
      fix key' d events1 cache1
      assume "microblock_identifiers tx = Done key'" "tx_hash d = nmt_txid tx"
        and "trail_loop lib txs events1 cache1 (push_transaction key' d m) = Done (Inr m', cache')"
      with Cons.IH(2) trail_set_inv_push [OF 2(2)] show ?thesis by (simp add: txs_at_push)
    qed
  next
    case 3
    from 3(1) show ?case
    proof (rule trail_loop_step)
      fix key' d events1 cache1
      assume "microblock_identifiers tx = Done key'"
        and "trail_loop lib txs events1 cache1 (push_transaction key' d m) = Done (Inr m', cache')"
      with Cons.IH(3) trail_set_inv_push [OF 3(2)] show ?thesis by simp
    qed
  }
qed simp_all

definition mb_key :: "stacks_microblock_data \<Rightarrow> block_identifier \<times> block_identifier" where
  "mb_key m = (mb_block_identifier m, mb_parent_block_identifier m)"

lemma trail_microblock_simps [simp]:
  "mb_key (trail_microblock trail e) = fst e"
  "mb_transactions (trail_microblock trail e) = snd e"
  "mb_anchor_block_identifier (trail_microblock trail e) = BlockIdentifier 0 (trail_parent_index_block_hash trail)"
  by (simp_all add: mb_key_def trail_microblock_def split: prod.split)

lemma sort_microblocks_simps [simp]:
  "set (sort_microblocks ms) = set ms"
  "sorted (map (\<lambda>m. identifier_key (mb_block_identifier m)) (sort_microblocks ms))"
  by (simp_all add: sort_microblocks_def)

lemma distinct_map_sort_microblocks: "distinct (map f (sort_microblocks ms)) \<longleftrightarrow> distinct (map f ms)"
  by (rule mset_eq_imp_distinct_iff) (simp add: sort_microblocks_def)

lemma microblock_identifiers_Done:
  assumes "microblock_identifiers tx = Done (i, p)"
  shows "if bid_index i = 0 then p = i else bid_index p + 1 = bid_index i"
proof -
  from assms have seq: "nmt_microblock_sequence tx < 2 ^ 64"
    by (simp add: microblock_identifiers_def split: if_splits)
  let ?n = "of_nat (nmt_microblock_sequence tx) :: u64"
  from seq have "unat ?n = nmt_microblock_sequence tx" by (simp add: unat_of_nat)
  then have zero: "?n = 0 \<longleftrightarrow> nmt_microblock_sequence tx = 0" by (metis unat_eq_zero)
  have "saturating_sub ?n 1 + 1 = ?n" if "?n \<noteq> 0"
    using that by (simp add: saturating_sub_def word_le_nat_alt Suc_le_eq unat_gt_0)
  with assms seq zero show ?thesis by (auto simp: microblock_identifiers_def Let_def)
qed

lemma standardize_trail_Ok:
  assumes "standardize_stacks_microblock_trail lib trail chain_ctx = Done (Inr ms, chain_ctx')"
  obtains m where "ms = sort_microblocks (map (trail_microblock trail) m)" "trail_set_inv m"
    "\<forall>key. map tx_hash (txs_at m key) = map nmt_txid (filter (\<lambda>tx. microblock_identifiers tx = Done key) (trail_transactions trail))"
    "list_all (\<lambda>tx. \<exists>k. microblock_identifiers tx = Done k) (trail_transactions trail)"
proof -
  from assms obtain r cache where
      r: "trail_loop lib (trail_transactions trail) (group_events (trail_events trail) []) (asset_class_map chain_ctx) [] = Done (r, cache)"
      "(case r of Inl e \<Rightarrow> Inl e | Inr m \<Rightarrow> Inr (sort_microblocks (map (trail_microblock trail) m))) = Inr ms"
    by (auto simp: standardize_stacks_microblock_trail_def bind_outcome_Done_iff)
  then obtain m where
      l: "trail_loop lib (trail_transactions trail) (group_events (trail_events trail) []) (asset_class_map chain_ctx) [] = Done (Inr m, cache)"
      and ms: "ms = sort_microblocks (map (trail_microblock trail) m)"
    by (cases r) auto
  have "trail_set_inv []" by (simp add: trail_set_inv_def)
  note loop = trail_loop_Done [OF l this]
  show thesis using loop by (intro that [OF ms]) (simp_all add: txs_at_def [of "[]"])
qed

text \<open>
  A microblock trail comes out complete and in order. The microblocks ascend by sequence number,
  then hash; no two have the same identifier and parent; each holds exactly the transactions of the
  message that name it, in their order, and at least one; every transaction of the message names one
  of them. The first of a trail is its own parent, every other is one above its parent, and all have
  the same anchor.
\<close>

theorem microblock_trail_exact:
  assumes "standardize_stacks_microblock_trail lib trail chain_ctx = Done (Inr ms, chain_ctx')"
  shows "sorted (map (\<lambda>m. identifier_key (mb_block_identifier m)) ms) \<and>
    distinct (map mb_key ms) \<and>
    list_all (\<lambda>m. mb_transactions m \<noteq> [] \<and>
       map tx_hash (mb_transactions m) =
         map nmt_txid (filter (\<lambda>tx. microblock_identifiers tx = Done (mb_key m)) (trail_transactions trail)) \<and>
       (if bid_index (mb_block_identifier m) = 0 then mb_parent_block_identifier m = mb_block_identifier m
        else bid_index (mb_parent_block_identifier m) + 1 = bid_index (mb_block_identifier m)) \<and>
       mb_anchor_block_identifier m = BlockIdentifier 0 (trail_parent_index_block_hash trail)) ms \<and>
    list_all (\<lambda>tx. list_ex (\<lambda>m. microblock_identifiers tx = Done (mb_key m)) ms) (trail_transactions trail)"
proof -
  from assms obtain m where ms: "ms = sort_microblocks (map (trail_microblock trail) m)" and inv: "trail_set_inv m" and
      at: "\<forall>key. map tx_hash (txs_at m key) = map nmt_txid (filter (\<lambda>tx. microblock_identifiers tx = Done key) (trail_transactions trail))" and
      all: "list_all (\<lambda>tx. \<exists>k. microblock_identifiers tx = Done k) (trail_transactions trail)"
    by (rule standardize_trail_Ok)
  from inv have wf: "bt_wf m" and ne: "\<And>k txs. (k, txs) \<in> set m \<Longrightarrow> txs \<noteq> []"
    by (auto simp: trail_set_inv_def list_all_iff)
  have txs: "txs_at m k = txs" if "(k, txs) \<in> set m" for k txs
    using that bt_get_in_set [OF wf, of k txs] by (simp add: txs_at_def)
  have parent: "if bid_index i = 0 then p = i else bid_index p + 1 = bid_index i" if e: "((i, p), txs) \<in> set m" for i p txs
  proof -
    from at [rule_format, of "(i, p)"] txs [OF e] ne [OF e]
    have "filter (\<lambda>tx. microblock_identifiers tx = Done (i, p)) (trail_transactions trail) \<noteq> []" by auto
    then obtain tx where "microblock_identifiers tx = Done (i, p)" by (auto simp: filter_empty_conv)
    then show ?thesis by (rule microblock_identifiers_Done)
  qed
  have "\<exists>e \<in> set m. microblock_identifiers tx = Done (fst e)" if tx: "tx \<in> set (trail_transactions trail)" for tx
  proof -
    from all tx obtain k where k: "microblock_identifiers tx = Done k" by (auto simp: list_all_iff)
    with at [rule_format, of k] tx have "txs_at m k \<noteq> []" by (metis (mono_tags, lifting) filter_empty_conv map_is_Nil_conv)
    then obtain v where "bt_get m k = Some v" by (auto simp: txs_at_def split: option.splits)
    with k show ?thesis by (metis fst_conv map_of_SomeD)
  qed
  then have "list_all (\<lambda>tx. list_ex (\<lambda>m. microblock_identifiers tx = Done (mb_key m)) ms) (trail_transactions trail)"
    by (simp add: ms list_all_iff list_ex_iff)
  moreover have "distinct (map mb_key ms)"
    using bt_wf_distinct [OF wf] by (simp add: ms distinct_map_sort_microblocks comp_def)
  moreover have "mb_transactions x \<noteq> [] \<and>
      map tx_hash (mb_transactions x) =
         map nmt_txid (filter (\<lambda>tx. microblock_identifiers tx = Done (mb_key x)) (trail_transactions trail)) \<and>
      (if bid_index (mb_block_identifier x) = 0 then mb_parent_block_identifier x = mb_block_identifier x
       else bid_index (mb_parent_block_identifier x) + 1 = bid_index (mb_block_identifier x)) \<and>
      mb_anchor_block_identifier x = BlockIdentifier 0 (trail_parent_index_block_hash trail)"
    if "x \<in> set ms" for x
  proof -
    from that obtain i p ts where e: "((i, p), ts) \<in> set m" and x: "x = trail_microblock trail ((i, p), ts)"
      by (auto simp: ms)
    from txs [OF e] at [rule_format, of "(i, p)"] have "map tx_hash ts =
        map nmt_txid (filter (\<lambda>tx. microblock_identifiers tx = Done (i, p)) (trail_transactions trail))" by simp
    with ne [OF e] parent [OF e] show ?thesis by (simp add: x) (simp add: trail_microblock_def)
  qed
  ultimately show ?thesis by (simp add: list_all_iff) (simp add: ms)
qed

lemma sample_trail_standardizes:
  "\<exists>ms ctx. standardize_stacks_microblock_trail sample_lib sample_trail sample_context = Done (Inr ms, ctx)"
  by (simp add: standardize_stacks_microblock_trail_def sample_trail_def sample_micro_tx_def sample_context_def
      take_events_def sample_description sample_observed get_standardized_stacks_receipt_def receipt_start_def
      with_amount_def sample_parse microblock_identifiers_def Let_def)

theorem microblock_trail_exact_witness:
  "\<exists>ms ctx. standardize_stacks_microblock_trail sample_lib sample_trail sample_context = Done (Inr ms, ctx) \<and>
     sorted (map (\<lambda>m. identifier_key (mb_block_identifier m)) ms) \<and>
     list_ex (\<lambda>m. mb_key m = (BlockIdentifier 1 ''m1'', BlockIdentifier 0 ''m0'') \<and>
        map tx_hash (mb_transactions m) = [''t2'', ''t3'']) ms"
proof -
  obtain ms ctx where ok: "standardize_stacks_microblock_trail sample_lib sample_trail sample_context = Done (Inr ms, ctx)"
    using sample_trail_standardizes by blast
  note * = microblock_trail_exact [OF ok]
  have t: "trail_transactions sample_trail =
      [sample_micro_tx ''t2'' 1 ''m1'' ''m0'', sample_micro_tx ''t1'' 0 ''m0'' ''b7'', sample_micro_tx ''t3'' 1 ''m1'' ''m0'']"
    by (simp add: sample_trail_def)
  have ids: "microblock_identifiers (sample_micro_tx t (Suc 0) h p) = Done (BlockIdentifier 1 h, BlockIdentifier 0 p)"
      "microblock_identifiers (sample_micro_tx t 0 h p) = Done (BlockIdentifier 0 h, BlockIdentifier 0 h)"
      "nmt_txid (sample_micro_tx t n h p) = t" for t h p n
    by (simp_all add: microblock_identifiers_def sample_micro_tx_def Let_def saturating_sub_def)
  from * obtain m where m: "m \<in> set ms" "mb_key m = (BlockIdentifier 1 ''m1'', BlockIdentifier 0 ''m0'')"
    by (auto simp: t ids list_ex_iff)
  with * have "map tx_hash (mb_transactions m) = [''t2'', ''t3'']" by (auto simp: list_all_iff t ids)
  with * ok m show ?thesis by (auto simp: list_ex_iff)
qed

text \<open>
  A transaction that cannot be described is an error of a block, and skipped when the transaction was
  aborted, but a panic in a microblock trail, whatever its status.
\<close>

theorem undescribable_transaction:
  assumes "get_tx_description lib raw (filter (\<lambda>e. ev_txid e = t) evs) = Inl e"
  shows "(case block_transactions lib h [\<lparr>nt_txid = t, nt_tx_index = i, nt_status = status, nt_raw_result = res,
             nt_raw_tx = raw, nt_execution_cost = cost, nt_contract_interface = None, nt_contract_abi = abi\<rparr>]
             (group_events evs []) cache [] of
            Done (r, cache') \<Rightarrow> cache' = cache \<and>
              r = (if status = ''abort_by_response'' then Inr []
                   else Inl (''unable to standardize block #'' @ show_nat (unat h) @ '' ('' @ e @ '')''))
          | _ \<Rightarrow> False) \<and>
     trail_loop lib [\<lparr>nmt_txid = t, nmt_tx_index = i, nmt_status = status, nmt_raw_result = res, nmt_raw_tx = raw,
        nmt_execution_cost = cost, nmt_microblock_sequence = n, nmt_microblock_hash = mh,
        nmt_microblock_parent_hash = mp, nmt_contract_abi = abi\<rparr>] (group_events evs []) cache [] = Panic"
  using assms by (simp add: take_events_eq events_of_group events_of_def [of "[]"])

theorem undescribable_transaction_witness:
  "get_tx_description sample_lib ''zz'' (filter (\<lambda>e. ev_txid e = ''t'') []) = Inl ''unable to read txid'' \<and>
   trail_loop sample_lib [\<lparr>nmt_txid = ''t'', nmt_tx_index = 0, nmt_status = ''abort_by_response'', nmt_raw_result = [],
        nmt_raw_tx = ''zz'', nmt_execution_cost = None, nmt_microblock_sequence = 0, nmt_microblock_hash = ''m'',
        nmt_microblock_parent_hash = ''p'', nmt_contract_abi = None\<rparr>] (group_events [] []) [] [] = Panic"
proof -
  have d: "get_tx_description sample_lib ''zz'' (filter (\<lambda>e. ev_txid e = ''t'') []) = Inl ''unable to read txid''"
    by (simp add: get_tx_description_def strip_prefix_def)
  from undescribable_transaction [OF d, where h = 0 and i = 0 and status = "''abort_by_response''" and res = "[]" and
      cost = None and abi = None and cache = "[]" and n = 0 and mh = "''m''" and mp = "''p''"] d
  show ?thesis by (intro conjI) simp_all
qed

end
