(* ===== verification/Stacks_Signers.thy ===== *)
theory Stacks_Signers
  imports Stacks_Standardize_Correct
begin

text \<open>
  Signer messages, the part of \<^verbatim>\<open>components/observer/src/indexer/stacks/mod.rs\<close> under the feature
  \<^verbatim>\<open>stacks-signers\<close>, and the conversions of \<^verbatim>\<open>types/signers.rs\<close>: chunks of a StackerDB, decoded and
  attributed to the key that signed them.

  libsigner and stackslib are not part of the repository. Their message types have here the
  constructors and fields the sources read; hashes and signatures are their bytes. Decoding, SHA-512/256
  and the hexadecimal texts are parameters, in the record \<open>signer_lib\<close>.
\<close>

section \<open>Messages of a signer\<close>

datatype reject_code =
    RCValidationFailed block_validation_failed_code
  | RCNoSortitionView
  | RCConnectivityIssues string
  | RCRejectedInPriorRound
  | RCSortitionViewMismatch
  | RCTestingDirective

record nakamoto_header =
  nkh_version :: u8
  nkh_chain_length :: u64
  nkh_burn_spent :: u64
  nkh_consensus_hash :: "u8 list"
  nkh_parent_block_id :: "u8 list"
  nkh_tx_merkle_root :: "u8 list"
  nkh_state_index_root :: "u8 list"
  nkh_timestamp :: u64
  nkh_miner_signature :: "u8 list"
  nkh_signer_signature :: "u8 list list"
  nkh_pox_treatment :: "u8 list"

record peer_info =
  pi_burn_block_height :: u64
  pi_stacks_tip_consensus_hash :: "u8 list"
  pi_stacks_tip :: "u8 list"
  pi_stacks_tip_height :: u64
  pi_pox_consensus :: "u8 list"
  pi_server_version :: string
  pi_network_id :: u32

text \<open>A mock signature: peer info, the hash its proposal is signed over, version and signature.\<close>

record mock_signature_msg =
  ms_peer_info :: peer_info
  ms_proposal_hash :: "u8 list"
  ms_server_version :: string
  ms_signature :: message_signature

datatype signer_message =
    SMBlockProposal nakamoto_header u64 u64
  | SMBlockAccepted "u8 list" "u8 list" string
  | SMBlockRejected string reject_code "u8 list" u32 "u8 list" string
  | SMBlockPushed nakamoto_header
  | SMMockSignature mock_signature_msg
  | SMMockProposal peer_info
  | SMMockBlock peer_info "mock_signature_msg list"
  | SMOther

record new_signer_modified_slot =
  slot_sig :: string
  slot_data :: string
  slot_id :: u32
  slot_version :: u32

text \<open>The contract name stands for \<^verbatim>\<open>NewStackerDbChunksContractId\<close>; its issuer is not read.\<close>

record new_stacker_db_chunks =
  chunks_contract_name :: string
  chunks_modified_slots :: "new_signer_modified_slot list"

record 'j signer_lib =
  base_lib :: "'j stacks_lib"
  decode_signer_message :: "u8 list \<Rightarrow> string + signer_message"
  sha512_trunc256 :: "u8 list \<Rightarrow> u8 list"
  to_hex :: "u8 list \<Rightarrow> string"
  to_hex_lower :: "u8 list \<Rightarrow> string"
  dec_chunks :: "'j \<Rightarrow> string + new_stacker_db_chunks"

section \<open>Conversions\<close>

text \<open>
  The sources convert \<^verbatim>\<open>ValidateRejectCode\<close> constructor by constructor into the enumeration of the same
  names, so the two are one type here.
\<close>

fun block_reject_reason_code_from :: "reject_code \<Rightarrow> block_reject_reason_code" where
  "block_reject_reason_code_from (RCValidationFailed c) = ValidationFailed c"
| "block_reject_reason_code_from RCNoSortitionView = NoSortitionView"
| "block_reject_reason_code_from (RCConnectivityIssues _) = ConnectivityIssues"
| "block_reject_reason_code_from RCRejectedInPriorRound = RejectedInPriorRound"
| "block_reject_reason_code_from RCSortitionViewMismatch = SortitionViewMismatch"
| "block_reject_reason_code_from RCTestingDirective = TestingDirective"

definition hex0x :: "'j signer_lib \<Rightarrow> u8 list \<Rightarrow> string" where
  "hex0x lib bytes = ''0x'' @ to_hex lib bytes"

definition header_preimage :: "nakamoto_header \<Rightarrow> u8 list" where
  "header_preimage h =
     [nkh_version h] @ be_bytes 8 (nkh_chain_length h) @ be_bytes 8 (nkh_burn_spent h) @
     nkh_consensus_hash h @ nkh_parent_block_id h @ nkh_tx_merkle_root h @ nkh_state_index_root h @
     be_bytes 8 (nkh_timestamp h) @ nkh_miner_signature h @ nkh_pox_treatment h"

definition get_nakamoto_block_hash :: "'j signer_lib \<Rightarrow> nakamoto_header \<Rightarrow> string + string" where
  "get_nakamoto_block_hash lib h =
     Inr (''0x'' @ hex_encode (base_lib lib) (sha512_trunc256 lib (header_preimage h)))"

definition get_nakamoto_index_block_hash :: "'j signer_lib \<Rightarrow> string \<Rightarrow> u8 list \<Rightarrow> string fallible" where
  "get_nakamoto_index_block_hash lib block_hash consensus_hash =
     bind_outcome (slice_from 2 block_hash)
       (\<lambda>hex. case map_error (\<lambda>e. ''unable to decode block hash: '' @ e) (hex_decode (base_lib lib) hex) of
          Inl e \<Rightarrow> Done (Inl e)
        | Inr bytes \<Rightarrow>
            Done (Inr (''0x'' @ hex_encode (base_lib lib) (sha512_trunc256 lib (bytes @ consensus_hash)))))"

definition standardize_stacks_nakamoto_block :: "'j signer_lib \<Rightarrow> nakamoto_header \<Rightarrow> nakamoto_block_data fallible" where
  "standardize_stacks_nakamoto_block lib h =
     try_bind (Done (get_nakamoto_block_hash lib h))
       (\<lambda>block_hash. try_bind (get_nakamoto_index_block_hash lib block_hash (nkh_consensus_hash h))
          (\<lambda>index_block_hash. Done (Inr
             \<lparr>nb_header =
                \<lparr>nh_version = nkh_version h, nh_chain_length = nkh_chain_length h, nh_burn_spent = nkh_burn_spent h,
                 nh_consensus_hash = hex0x lib (nkh_consensus_hash h),
                 nh_parent_block_id = hex0x lib (nkh_parent_block_id h),
                 nh_tx_merkle_root = hex0x lib (nkh_tx_merkle_root h),
                 nh_state_index_root = hex0x lib (nkh_state_index_root h),
                 nh_timestamp = nkh_timestamp h,
                 nh_miner_signature = hex0x lib (nkh_miner_signature h),
                 nh_signer_signature = map (hex0x lib) (nkh_signer_signature h),
                 nh_pox_treatment = ''0x'' @ to_hex_lower lib (nkh_pox_treatment h)\<rparr>,
              nb_block_hash = block_hash, nb_index_block_hash = index_block_hash, nb_transactions = []\<rparr>)))"

definition standardize_stacks_signer_peer_info :: "'j signer_lib \<Rightarrow> peer_info \<Rightarrow> peer_info_data fallible" where
  "standardize_stacks_signer_peer_info lib p =
     (let block_hash = hex0x lib (pi_stacks_tip p)
      in try_bind (get_nakamoto_index_block_hash lib block_hash (pi_stacks_tip_consensus_hash p))
           (\<lambda>index_block_hash. Done (Inr
              \<lparr>peer_burn_block_height = pi_burn_block_height p,
               peer_stacks_tip_consensus_hash = hex0x lib (pi_stacks_tip_consensus_hash p),
               peer_stacks_tip = block_hash, peer_stacks_tip_height = pi_stacks_tip_height p,
               peer_pox_consensus = hex0x lib (pi_pox_consensus p),
               peer_server_version = pi_server_version p, peer_network_id = pi_network_id p,
               peer_index_block_hash = index_block_hash\<rparr>)))"

definition signature_bytes :: "message_signature \<Rightarrow> u8 list" where
  "signature_bytes s = fst s # snd s"

definition standardize_stacks_signer_mock_signature :: "'j signer_lib \<Rightarrow> mock_signature_msg \<Rightarrow> mock_signature_data fallible" where
  "standardize_stacks_signer_mock_signature lib s =
     try_bind (Done (get_signer_pubkey_from_message_hash (base_lib lib) (ms_proposal_hash s) (ms_signature s)))
       (\<lambda>pubkey. try_bind (standardize_stacks_signer_peer_info lib (ms_peer_info s))
          (\<lambda>info. Done (Inr
             \<lparr>mock_peer_info = info, mock_server_version = ms_server_version s,
              mock_signature = hex0x lib (signature_bytes (ms_signature s)),
              mock_pubkey = ''0x'' @ hex_encode (base_lib lib) pubkey\<rparr>)))"

section \<open>Chunks\<close>

definition slot_preimage :: "u32 \<Rightarrow> u32 \<Rightarrow> u8 list \<Rightarrow> u8 list" where
  "slot_preimage i version data_hash = be_bytes 4 i @ be_bytes 4 version @ data_hash"

text \<open>An empty signature panics: \<^verbatim>\<open>split_at(1)\<close> is out of range.\<close>

definition get_signer_pubkey_from_stackerdb_chunk_slot ::
  "'j signer_lib \<Rightarrow> new_signer_modified_slot \<Rightarrow> u8 list \<Rightarrow> string fallible" where
  "get_signer_pubkey_from_stackerdb_chunk_slot lib slot data_bytes =
     (let digest = sha512_trunc256 lib (slot_preimage (slot_id slot) (slot_version slot) (sha512_trunc256 lib data_bytes))
      in try_bind (Done (map_error (\<lambda>e. ''unable to decode signer slot sig: '' @ e) (hex_decode (base_lib lib) (slot_sig slot))))
           (\<lambda>sig_bytes. case sig_bytes of
              [] \<Rightarrow> Panic
            | rec_id # sig \<Rightarrow>
                Done (case recover_with (base_lib lib) ''unable to recover signer pubkey: '' rec_id sig digest of
                        Inl e \<Rightarrow> Inl e
                      | Inr pubkey \<Rightarrow> Inr (hex_encode (base_lib lib) pubkey))))"

text \<open>The message of a slot; \<open>None\<close> for a variant that is skipped.\<close>

definition standardize_signer_message :: "'j signer_lib \<Rightarrow> signer_message \<Rightarrow> stacks_signer_message option fallible" where
  "standardize_signer_message lib msg =
     (case msg of
        SMBlockProposal h burn_height reward_cycle \<Rightarrow>
          try_bind (standardize_stacks_nakamoto_block lib h)
            (\<lambda>b. Done (Inr (Some (BlockProposal \<lparr>bp_block = b, bp_burn_height = burn_height, bp_reward_cycle = reward_cycle\<rparr>))))
      | SMBlockAccepted sighash sig version \<Rightarrow>
          Done (Inr (Some (BlockResponse (Accepted
            \<lparr>accepted_signer_signature_hash = hex0x lib sighash, accepted_signature = hex0x lib sig,
             accepted_server_version = version\<rparr>))))
      | SMBlockRejected reason code sighash chain_id sig version \<Rightarrow>
          Done (Inr (Some (BlockResponse (Rejected
            \<lparr>rejected_reason = reason, rejected_reason_code = block_reject_reason_code_from code,
             rejected_signer_signature_hash = hex0x lib sighash, rejected_chain_id = chain_id,
             rejected_signature = hex0x lib sig, rejected_server_version = version\<rparr>))))
      | SMBlockPushed h \<Rightarrow>
          try_bind (standardize_stacks_nakamoto_block lib h) (\<lambda>b. Done (Inr (Some (BlockPushed b))))
      | SMMockSignature s \<Rightarrow>
          try_bind (standardize_stacks_signer_mock_signature lib s) (\<lambda>d. Done (Inr (Some (MockSignature d))))
      | SMMockProposal p \<Rightarrow>
          try_bind (standardize_stacks_signer_peer_info lib p) (\<lambda>d. Done (Inr (Some (MockProposal d))))
      | SMMockBlock p sigs \<Rightarrow>
          try_bind (standardize_stacks_signer_peer_info lib p)
            (\<lambda>d. try_bind (collect_fallible (standardize_stacks_signer_mock_signature lib) sigs)
               (\<lambda>ds. Done (Inr (Some (MockBlock \<lparr>mock_block_peer_info = d, mock_signatures = ds\<rparr>)))))
      | SMOther \<Rightarrow> Done (Inr None))"

definition standardize_slot :: "'j signer_lib \<Rightarrow> string \<Rightarrow> new_signer_modified_slot \<Rightarrow> stacks_stacker_db_chunk option fallible" where
  "standardize_slot lib contract_id slot =
     try_bind (Done (map_error (\<lambda>e. ''unable to decode signer slot hex data: '' @ e) (hex_decode (base_lib lib) (slot_data slot))))
       (\<lambda>data_bytes. try_bind (Done (map_error (\<lambda>e. ''unable to deserialize SignerMessage: '' @ e) (decode_signer_message lib data_bytes)))
          (\<lambda>signer_message. try_bind (standardize_signer_message lib signer_message)
             (\<lambda>message. case message of
                None \<Rightarrow> Done (Inr None)
              | Some msg \<Rightarrow>
                  try_bind (get_signer_pubkey_from_stackerdb_chunk_slot lib slot data_bytes)
                    (\<lambda>pubkey. Done (Inr (Some
                       \<lparr>chunk_contract = contract_id, chunk_sig = ''0x'' @ slot_sig slot,
                        chunk_pubkey = ''0x'' @ pubkey, chunk_message = msg\<rparr>))))))"

fun slots_loop ::
  "'j signer_lib \<Rightarrow> string \<Rightarrow> new_signer_modified_slot list \<Rightarrow> stacks_stacker_db_chunk list \<Rightarrow>
   stacks_stacker_db_chunk list fallible" where
  "slots_loop lib contract_id [] parsed = Done (Inr parsed)"
| "slots_loop lib contract_id (slot # slots) parsed =
     try_bind (standardize_slot lib contract_id slot)
       (\<lambda>c. slots_loop lib contract_id slots (case c of None \<Rightarrow> parsed | Some chunk \<Rightarrow> parsed @ [chunk]))"

definition standardize_stacks_stackerdb_chunks ::
  "'j signer_lib \<Rightarrow> new_stacker_db_chunks \<Rightarrow> stacks_stacker_db_chunk list fallible" where
  "standardize_stacks_stackerdb_chunks lib chunks =
     slots_loop lib (chunks_contract_name chunks) (chunks_modified_slots chunks) []"

definition standardize_stacks_marshalled_stackerdb_chunks ::
  "'j signer_lib \<Rightarrow> 'j \<Rightarrow> stacks_stacker_db_chunk list fallible" where
  "standardize_stacks_marshalled_stackerdb_chunks lib marshalled =
     (case map_error (\<lambda>e. ''unable to parse stackerdb chunks '' @ e) (dec_chunks lib marshalled) of
        Inl e \<Rightarrow> Done (Inl e)
      | Inr chunks \<Rightarrow> standardize_stacks_stackerdb_chunks lib chunks)"

section \<open>Correctness\<close>

text \<open>
  The digest a signer signs covers the slot: different slot ids, versions or data hashes give
  different inputs to the hash.
\<close>

theorem slot_preimage_inject:
  "slot_preimage i version data_hash = slot_preimage i' version' data_hash' \<longleftrightarrow>
     i = i' \<and> version = version' \<and> data_hash = data_hash'"
  by (auto simp: slot_preimage_def intro: be_bytes_inject [of 4])

text \<open>The loop over the slots is the collection of their standardizations, without the skipped ones.\<close>

definition present :: "'a option list \<Rightarrow> 'a list" where
  "present xs = List.map_filter (\<lambda>x. x) xs"

lemma present_simps [simp]: "present [] = []" "present (None # xs) = present xs" "present (Some x # xs) = x # present xs"
  by (simp_all add: present_def)

lemma try_bind_assoc: "try_bind (try_bind m f) g = try_bind m (\<lambda>x. try_bind (f x) g)"
proof (cases m)
  case (Done r)
  then show ?thesis by (cases r) simp_all
qed simp_all

lemma slots_loop_collect:
  "slots_loop lib c slots parsed =
     try_bind (collect_fallible (standardize_slot lib c) slots) (\<lambda>cs. Done (Inr (parsed @ present cs)))"
proof (induction slots arbitrary: parsed)
  case (Cons slot slots)
  have "try_bind (standardize_slot lib c slot)
      (\<lambda>x. slots_loop lib c slots (case x of None \<Rightarrow> parsed | Some chunk \<Rightarrow> parsed @ [chunk])) =
    try_bind (standardize_slot lib c slot)
      (\<lambda>x. try_bind (collect_fallible (standardize_slot lib c) slots) (\<lambda>cs. Done (Inr (parsed @ present (x # cs)))))"
    by (rule arg_cong [of _ _ "try_bind _"], rule ext) (simp add: Cons.IH split: option.split)
  then show ?case by (simp add: try_bind_assoc)
qed simp

text \<open>
  The chunks of a message are those of its slots, in order, without the slots whose message has a
  variant the observer does not expose; the first slot that fails or panics decides the result.
\<close>

theorem stackerdb_chunks_exact:
  "standardize_stacks_stackerdb_chunks lib chunks =
     try_bind (collect_fallible (standardize_slot lib (chunks_contract_name chunks)) (chunks_modified_slots chunks))
       (\<lambda>cs. Done (Inr (present cs)))"
  by (simp add: standardize_stacks_stackerdb_chunks_def slots_loop_collect)

section \<open>A sample library\<close>

text \<open>Lower case hexadecimal, two characters a byte.\<close>

definition nibble_char :: "nat \<Rightarrow> char" where
  "nibble_char n = char_of (if n < 10 then 48 + n else 87 + n)"

definition nibble_value :: "char \<Rightarrow> nat option" where
  "nibble_value c =
     (let n = of_char c in if 48 \<le> n \<and> n < 58 then Some (n - 48) else if 97 \<le> n \<and> n < 103 then Some (n - 87) else None)"

fun sample_encode :: "u8 list \<Rightarrow> string" where
  "sample_encode [] = []"
| "sample_encode (b # bs) = nibble_char (unat b div 16) # nibble_char (unat b mod 16) # sample_encode bs"

fun sample_decode :: "string \<Rightarrow> string + u8 list" where
  "sample_decode [] = Inr []"
| "sample_decode [c] = Inl ''Odd number of digits''"
| "sample_decode (c # d # rest) =
     (case (nibble_value c, nibble_value d) of
        (Some x, Some y) \<Rightarrow>
          (case sample_decode rest of Inl e \<Rightarrow> Inl e | Inr bs \<Rightarrow> Inr (of_nat (16 * x + y) # bs))
      | _ \<Rightarrow> Inl ''Invalid character'')"

lemma of_char_nibble: "n < 16 \<Longrightarrow> (of_char (nibble_char n) :: nat) = (if n < 10 then 48 + n else 87 + n)"
  by (simp add: nibble_char_def of_char_of)

lemma nibble_value_char: "n < 16 \<Longrightarrow> nibble_value (nibble_char n) = Some n"
  by (simp add: nibble_value_def of_char_nibble Let_def)

lemma byte_nibbles: "unat (b :: u8) div 16 < 16" "unat b mod 16 < 16"
proof -
  have "unat b < 2 ^ LENGTH(8)" by (rule unsigned_less)
  then show "unat b div 16 < 16" by simp
qed simp

lemma sample_decode_encode: "sample_decode (sample_encode bytes) = Inr bytes"
  by (induction bytes) (simp_all add: nibble_value_char byte_nibbles flip: of_nat_mult of_nat_add)

lemma sample_encode_ascii: "list_all (\<lambda>c. (of_char c :: nat) < 128) (sample_encode bytes)"
proof (induction bytes)
  case (Cons b bytes)
  from byte_nibbles [of b] have "(of_char (nibble_char (unat b div 16)) :: nat) < 128" "(of_char (nibble_char (unat b mod 16)) :: nat) < 128"
    by (auto simp: of_char_nibble)
  with Cons show ?case by simp
qed simp

definition sample_signer_lib :: "stacks_transaction_event_payload signer_lib" where
  "sample_signer_lib =
     \<lparr>base_lib = sample_lib\<lparr>hex_decode := sample_decode, hex_encode := sample_encode\<rparr>,
      decode_signer_message = (\<lambda>bytes. Inr (SMBlockAccepted bytes [1] ''v'')),
      sha512_trunc256 = (\<lambda>bytes. take 32 (bytes @ replicate 32 0)),
      to_hex = sample_encode, to_hex_lower = sample_encode, dec_chunks = (\<lambda>_. Inl ''no chunks'')\<rparr>"

lemma sample_signer_hex [simp]:
  "hex_decode (base_lib sample_signer_lib) = sample_decode"
  "hex_encode (base_lib sample_signer_lib) = sample_encode"
  "decode_signer_message sample_signer_lib bytes = Inr (SMBlockAccepted bytes [1] ''v'')"
  by (simp_all add: sample_signer_lib_def)

section \<open>Properties of slots and blocks\<close>

text \<open>
  A slot with a readable message and an empty signature panics, although the function returns a
  \<^verbatim>\<open>Result\<close>; every other slot with such a message returns.
\<close>

theorem empty_slot_signature_panics:
  assumes "hex_decode (base_lib lib) (slot_data slot) = Inr bytes"
    and "decode_signer_message lib bytes = Inr (SMBlockAccepted sighash sig version)"
  shows "standardize_slot lib contract_id slot = Panic \<longleftrightarrow> hex_decode (base_lib lib) (slot_sig slot) = Inr []"
proof (cases "hex_decode (base_lib lib) (slot_sig slot)")
  case (Inr sig_bytes)
  with assms show ?thesis
    by (cases sig_bytes)
      (auto simp: standardize_slot_def standardize_signer_message_def map_error_def Let_def
        get_signer_pubkey_from_stackerdb_chunk_slot_def split: sum.split)
qed (use assms in \<open>simp add: standardize_slot_def standardize_signer_message_def map_error_def Let_def
        get_signer_pubkey_from_stackerdb_chunk_slot_def\<close>)

theorem empty_slot_signature_panics_witness:
  "standardize_slot sample_signer_lib ''c'' \<lparr>slot_sig = [], slot_data = ''0a'', slot_id = 1, slot_version = 2\<rparr> = Panic \<and>
   standardize_slot sample_signer_lib ''c'' \<lparr>slot_sig = ''01'', slot_data = ''0a'', slot_id = 1, slot_version = 2\<rparr> \<noteq> Panic"
proof -
  have d: "hex_decode (base_lib sample_signer_lib) (slot_data \<lparr>slot_sig = s, slot_data = ''0a'', slot_id = 1, slot_version = 2\<rparr>) = Inr [10]" for s
    by (simp add: nibble_value_def)
  note * = empty_slot_signature_panics [OF d, of "[10]" "[1]" "''v''"]
  show ?thesis using * [of "''c''" "[]"] * [of "''c''" "''01''"] by (simp add: nibble_value_def)
qed

text \<open>
  When the hex codec decodes what it encodes, the index block hash of a Nakamoto block is the hash of
  its block hash, read as bytes, followed by its consensus hash; standardization of the block neither
  fails nor panics.
\<close>

theorem nakamoto_index_hash_composes:
  assumes "\<And>bytes. hex_decode (base_lib lib) (hex_encode (base_lib lib) bytes) = Inr bytes"
    and "\<And>bytes. list_all (\<lambda>c. (of_char c :: nat) < 128) (hex_encode (base_lib lib) bytes)"
  shows "\<exists>b. standardize_stacks_nakamoto_block lib h = Done (Inr b) \<and>
     nb_index_block_hash b =
       ''0x'' @ hex_encode (base_lib lib)
         (sha512_trunc256 lib (sha512_trunc256 lib (header_preimage h) @ nkh_consensus_hash h))"
proof -
  let ?hash = "hex_encode (base_lib lib) (sha512_trunc256 lib (header_preimage h))"
  have "slice_from 2 (''0x'' @ ?hash) = Done ?hash"
    using assms(2) [of "sha512_trunc256 lib (header_preimage h)"] by (auto simp: slice_from_def split: list.split)
  then show ?thesis
    by (simp add: standardize_stacks_nakamoto_block_def get_nakamoto_block_hash_def
        get_nakamoto_index_block_hash_def assms(1) map_error_def)
qed

definition sample_nakamoto_header :: nakamoto_header where
  "sample_nakamoto_header =
     \<lparr>nkh_version = 1, nkh_chain_length = 5, nkh_burn_spent = 0, nkh_consensus_hash = [7], nkh_parent_block_id = [],
      nkh_tx_merkle_root = [], nkh_state_index_root = [], nkh_timestamp = 0, nkh_miner_signature = [],
      nkh_signer_signature = [], nkh_pox_treatment = []\<rparr>"

theorem nakamoto_index_hash_composes_witness:
  "\<exists>b. standardize_stacks_nakamoto_block sample_signer_lib sample_nakamoto_header = Done (Inr b) \<and>
     nb_index_block_hash b = ''0x'' @ sample_encode (sha512_trunc256 sample_signer_lib
         (sha512_trunc256 sample_signer_lib (header_preimage sample_nakamoto_header) @ [7]))"
  using nakamoto_index_hash_composes [of sample_signer_lib sample_nakamoto_header] sample_decode_encode sample_encode_ascii
  by (simp add: sample_nakamoto_header_def)

end
