(* ===== verification/Indexer.thy ===== *)
theory Indexer
  imports Fork_Scratch_Pad Stacks_Pool_Runs Stacks_Signers
begin

text \<open>
  \<^verbatim>\<open>components/observer/src/indexer/mod.rs\<close>: the indexer owns the Bitcoin header pool, the Stacks block
  pool and the chain context, and routes what the nodes post to them. With it the network names of
  \<^verbatim>\<open>types/rosetta.rs\<close>. The empty struct \<^verbatim>\<open>BitcoinChainContext\<close> is left out.
\<close>

section \<open>Networks\<close>

datatype stacks_network = Simnet | Devnet | StacksTestnet | StacksMainnet

datatype bitcoin_network = Regtest | BitcoinTestnet | Signet | BitcoinMainnet

fun stacks_network_as_str :: "stacks_network \<Rightarrow> string" where
  "stacks_network_as_str Devnet = ''devnet''"
| "stacks_network_as_str StacksTestnet = ''testnet''"
| "stacks_network_as_str StacksMainnet = ''mainnet''"
| "stacks_network_as_str Simnet = ''simnet''"

definition quoted :: "string \<Rightarrow> string" where
  "quoted s = [CHR 0x27] @ s @ [CHR 0x27]"

definition stacks_network_try_from :: "string \<Rightarrow> string + stacks_network" where
  "stacks_network_try_from network =
     (if network = ''devnet'' then Inr Devnet
      else if network = ''testnet'' then Inr StacksTestnet
      else if network = ''mainnet'' then Inr StacksMainnet
      else if network = ''simnet'' then Inr Simnet
      else Inl (''network '' @ quoted network @ '' unsupported (mainnet, testnet, devnet, simnet)''))"

fun is_simnet :: "stacks_network \<Rightarrow> bool" where
  "is_simnet n = (n = Simnet)"

fun is_testnet :: "stacks_network \<Rightarrow> bool" where
  "is_testnet n = (n = StacksTestnet)"

fun is_devnet :: "stacks_network \<Rightarrow> bool" where
  "is_devnet n = (n = Devnet)"

fun is_mainnet :: "stacks_network \<Rightarrow> bool" where
  "is_mainnet n = (n = StacksMainnet)"

fun either_devnet_or_testnet :: "stacks_network \<Rightarrow> bool" where
  "either_devnet_or_testnet n = (n = Devnet \<or> n = StacksTestnet)"

fun either_testnet_or_mainnet :: "stacks_network \<Rightarrow> bool" where
  "either_testnet_or_mainnet n = (n = StacksMainnet \<or> n = StacksTestnet)"

fun get_networks :: "stacks_network \<Rightarrow> bitcoin_network \<times> stacks_network" where
  "get_networks Simnet = (Regtest, Simnet)"
| "get_networks Devnet = (BitcoinTestnet, Devnet)"
| "get_networks StacksTestnet = (BitcoinTestnet, StacksTestnet)"
| "get_networks StacksMainnet = (BitcoinMainnet, StacksMainnet)"

fun bitcoin_network_as_str :: "bitcoin_network \<Rightarrow> string" where
  "bitcoin_network_as_str Regtest = ''regtest''"
| "bitcoin_network_as_str BitcoinTestnet = ''testnet''"
| "bitcoin_network_as_str BitcoinMainnet = ''mainnet''"
| "bitcoin_network_as_str Signet = ''signet''"

definition bitcoin_network_try_from :: "string \<Rightarrow> string + bitcoin_network" where
  "bitcoin_network_try_from network =
     (if network = ''regtest'' then Inr Regtest
      else if network = ''testnet'' then Inr BitcoinTestnet
      else if network = ''mainnet'' then Inr BitcoinMainnet
      else if network = ''signet'' then Inr Signet
      else Inl (''network '' @ quoted network @ '' unsupported (mainnet, testnet, regtest, signet)''))"

section \<open>The indexer\<close>

record stacks_node_config =
  rpc_url :: string
  ingestion_port :: u16

record indexer_config =
  config_bitcoin_network :: bitcoin_network
  config_stacks_network :: stacks_network
  bitcoind_rpc_url :: string
  bitcoind_rpc_username :: string
  bitcoind_rpc_password :: string
  config_stacks_node :: stacks_node_config

definition stacks_chain_context_new :: "stacks_network \<Rightarrow> stacks_chain_context" where
  "stacks_chain_context_new network =
     \<lparr>asset_class_map = [],
      pox_config =
        (case network of
           StacksMainnet \<Rightarrow> mainnet_default
         | StacksTestnet \<Rightarrow> testnet_default
         | _ \<Rightarrow> devnet_default)\<rparr>"

record indexer =
  config :: indexer_config
  stacks_blocks_pool :: stacks_block_pool
  bitcoin_blocks_pool :: fork_scratch_pad
  stacks_context :: stacks_chain_context

definition indexer_new :: "indexer_config \<Rightarrow> indexer" where
  "indexer_new c =
     \<lparr>config = c, stacks_blocks_pool = stacks_block_pool_new, bitcoin_blocks_pool = fork_scratch_pad_new,
      stacks_context = stacks_chain_context_new (config_stacks_network c)\<rparr>"

definition seed_stacks_block_pool :: "indexer \<Rightarrow> stacks_block_data list \<Rightarrow> indexer outcome" where
  "seed_stacks_block_pool ix blocks =
     bind_outcome (seed_block_pool (stacks_blocks_pool ix) blocks) (\<lambda>pool. Done (ix\<lparr>stacks_blocks_pool := pool\<rparr>))"

definition handle_bitcoin_header ::
  "indexer \<Rightarrow> block_header \<Rightarrow> ((string + blockchain_event option) \<times> indexer) outcome" where
  "handle_bitcoin_header ix header =
     bind_outcome (process_header (bitcoin_blocks_pool ix) header)
       (\<lambda>(r, pad). Done (r, ix\<lparr>bitcoin_blocks_pool := pad\<rparr>))"

definition ix_standardize_stacks_marshalled_block ::
  "'j stacks_lib \<Rightarrow> indexer \<Rightarrow> 'j \<Rightarrow> ((string + stacks_block_data) \<times> indexer) outcome" where
  "ix_standardize_stacks_marshalled_block lib ix marshalled_block =
     bind_outcome (standardize_stacks_marshalled_block lib marshalled_block (stacks_context ix))
       (\<lambda>(r, ctx). Done (r, ix\<lparr>stacks_context := ctx\<rparr>))"

definition process_stacks_block ::
  "indexer \<Rightarrow> stacks_block_data \<Rightarrow> ((string + stacks_chain_event option) \<times> indexer) outcome" where
  "process_stacks_block ix block =
     bind_outcome (process_block (stacks_blocks_pool ix) block)
       (\<lambda>(r, pool). Done (r, ix\<lparr>stacks_blocks_pool := pool\<rparr>))"

text \<open>A trail is standardized, then processed; an error of the first step ends the call.\<close>

definition feed_trail ::
  "indexer \<Rightarrow> ((string + stacks_microblock_data list) \<times> stacks_chain_context) outcome \<Rightarrow>
   ((string + stacks_chain_event option) \<times> indexer) outcome" where
  "feed_trail ix standardized =
     bind_outcome standardized
       (\<lambda>(r, ctx). case r of
          Inl e \<Rightarrow> Done (Inl e, ix\<lparr>stacks_context := ctx\<rparr>)
        | Inr microblocks \<Rightarrow>
            bind_outcome (process_microblocks (stacks_blocks_pool ix) microblocks)
              (\<lambda>(ev, pool). Done (ev, ix\<lparr>stacks_context := ctx, stacks_blocks_pool := pool\<rparr>)))"

definition handle_stacks_serialized_microblock_trail ::
  "'j stacks_lib \<Rightarrow> indexer \<Rightarrow> string \<Rightarrow> ((string + stacks_chain_event option) \<times> indexer) outcome" where
  "handle_stacks_serialized_microblock_trail lib ix serialized =
     feed_trail ix (standardize_stacks_serialized_microblock_trail lib serialized (stacks_context ix))"

definition handle_stacks_marshalled_microblock_trail ::
  "'j stacks_lib \<Rightarrow> indexer \<Rightarrow> 'j \<Rightarrow> ((string + stacks_chain_event option) \<times> indexer) outcome" where
  "handle_stacks_marshalled_microblock_trail lib ix marshalled =
     feed_trail ix (standardize_stacks_marshalled_microblock_trail lib marshalled (stacks_context ix))"

definition get_pox_config :: "indexer \<Rightarrow> pox_config" where
  "get_pox_config ix = pox_config (stacks_context ix)"

text \<open>Milliseconds are cut to 64 bits, as the cast of the source does.\<close>

definition handle_stacks_marshalled_stackerdb_chunk ::
  "'j signer_lib \<Rightarrow> indexer \<Rightarrow> 'j \<Rightarrow> u128 \<Rightarrow> stacks_chain_event option fallible" where
  "handle_stacks_marshalled_stackerdb_chunk lib ix marshalled receipt_time_ms =
     bind_outcome (get_canonical_fork_chain_tip (stacks_blocks_pool ix))
       (\<lambda>tip. case tip of
          None \<Rightarrow> Done (Inl ''StackerDB chunk received with no canonical chain tip'')
        | Some chain_tip \<Rightarrow>
            try_bind (standardize_stacks_marshalled_stackerdb_chunks lib marshalled)
              (\<lambda>chunks. Done (Inr
                 (if chunks = [] then None
                  else Some (ChainUpdatedWithNonConsensusEvents
                    (map (\<lambda>chunk. \<lparr>nce_payload = chunk, nce_received_at_ms = ucast receipt_time_ms,
                                     nce_received_at_block = chain_tip\<rparr>) chunks))))))"

section \<open>Standardization meets the pools\<close>

lemma standardized_trail_same_anchor:
  assumes "standardize_stacks_microblock_trail lib trail ctx = Done (Inr ms, ctx')"
  shows "same_anchor ms"
proof -
  from assms obtain m where "ms = sort_microblocks (map (trail_microblock trail) m)" by (rule standardize_trail_Ok)
  then have "mb_anchor_block_identifier x = BlockIdentifier 0 (trail_parent_index_block_hash trail)" if "x \<in> set ms" for x
    using that by auto
  then show ?thesis by (auto simp: same_anchor_def list_all_iff split: list.split)
qed

lemma marshalled_trail_same_anchor:
  assumes "standardize_stacks_marshalled_microblock_trail lib j ctx = Done (Inr ms, ctx')"
  shows "same_anchor ms"
  using assms standardized_trail_same_anchor
  by (auto simp: standardize_stacks_marshalled_microblock_trail_def split: sum.splits)

lemma pool_step_reachable:
  assumes "wf_headers H" "wf_microblocks M" "pool_reachable H M pool" "admissible H M input"
  shows "\<exists>r pool'. pool_step pool input = Done (r, pool') \<and> pool_reachable H M pool'"
proof -
  from pool_step_inv [OF assms(1,2) pool_reachable_inv [OF assms(1-3)] assms(4), of 0 "[]"]
  obtain r pool' where "pool_step pool input = Done (r, pool')" by blast
  with pool_reachable.step [OF assms(3,4)] show ?thesis by blast
qed

lemma feed_trail_cases:
  "feed_trail ix (Done (Inl e, ctx)) = Done (Inl e, ix\<lparr>stacks_context := ctx\<rparr>)"
  "feed_trail ix (Done (Inr ms, ctx)) =
     bind_outcome (process_microblocks (stacks_blocks_pool ix) ms)
       (\<lambda>(ev, pool). Done (ev, ix\<lparr>stacks_context := ctx, stacks_blocks_pool := pool\<rparr>))"
  "feed_trail ix Panic = Panic" "feed_trail ix Diverge = Diverge"
  by (simp_all add: feed_trail_def)

text \<open>
  C35. Behind the indexer the pool never panics on a trail: from every reachable pool, when the standardized
  microblocks belong to the world, \<^verbatim>\<open>handle_stacks_marshalled_microblock_trail\<close> returns exactly when
  standardization does, and leaves a reachable pool, unchanged when standardization fails. That all
  microblocks of a trail have one anchor, on which the pool relies, is what standardization
  guarantees.
\<close>

theorem indexer_trail_safe:
  assumes "wf_headers H" and "wf_microblocks M" and "pool_reachable H M (stacks_blocks_pool ix)"
    and "case standardize_stacks_marshalled_microblock_trail lib j (stacks_context ix) of
           Done (Inr ms, ctx) \<Rightarrow> list_all (\<lambda>m. list_ex (\<lambda>m'. m' = m) M) ms | _ \<Rightarrow> True"
  shows "returns (handle_stacks_marshalled_microblock_trail lib ix j) =
      returns (standardize_stacks_marshalled_microblock_trail lib j (stacks_context ix)) \<and>
    (case handle_stacks_marshalled_microblock_trail lib ix j of
       Done (r, ix') \<Rightarrow> pool_reachable H M (stacks_blocks_pool ix') \<and> bitcoin_blocks_pool ix' = bitcoin_blocks_pool ix \<and>
         (case standardize_stacks_marshalled_microblock_trail lib j (stacks_context ix) of
            Done (Inl e, ctx) \<Rightarrow> r = Inl e \<and> stacks_blocks_pool ix' = stacks_blocks_pool ix | _ \<Rightarrow> True)
     | _ \<Rightarrow> True)"
proof (cases "standardize_stacks_marshalled_microblock_trail lib j (stacks_context ix)")
  case (Done p)
  obtain r ctx where p: "p = (r, ctx)" by (cases p)
  show ?thesis
  proof (cases r)
    case (Inl e)
    with assms(3) Done p show ?thesis by (simp add: handle_stacks_marshalled_microblock_trail_def feed_trail_cases)
  next
    case (Inr ms)
    with assms(4) Done p have "admissible H M (NewMicroblocksInput ms)"
      using marshalled_trail_same_anchor [of lib j "stacks_context ix" ms ctx] by simp
    from pool_step_reachable [OF assms(1-3) this] obtain ev pool where
      "process_microblocks (stacks_blocks_pool ix) ms = Done (ev, pool)" "pool_reachable H M pool" by auto
    with Done p Inr show ?thesis by (simp add: handle_stacks_marshalled_microblock_trail_def feed_trail_cases)
  qed
qed (simp_all add: handle_stacks_marshalled_microblock_trail_def feed_trail_cases)

definition sample_config :: indexer_config where
  "sample_config =
     \<lparr>config_bitcoin_network = Regtest, config_stacks_network = Devnet, bitcoind_rpc_url = [],
      bitcoind_rpc_username = [], bitcoind_rpc_password = [],
      config_stacks_node = \<lparr>rpc_url = [], ingestion_port = 0\<rparr>\<rparr>"

theorem indexer_trail_safe_witness:
  "returns (handle_stacks_marshalled_microblock_trail sample_lib (indexer_new sample_config) (STXMintEvent \<lparr>stx_mint_recipient = [], stx_mint_amount = []\<rparr>))"
proof -
  let ?ix = "indexer_new sample_config"
  let ?j = "STXMintEvent \<lparr>stx_mint_recipient = [], stx_mint_amount = []\<rparr>"
  have d: "dec_trail sample_lib ?j = Inr sample_trail" by (simp add: sample_lib_def)
  have ctx: "stacks_context ?ix = sample_context"
    by (simp add: indexer_new_def sample_config_def stacks_chain_context_new_def sample_context_def)
  obtain ms ctx' where ok: "standardize_stacks_marshalled_microblock_trail sample_lib ?j (stacks_context ?ix) = Done (Inr ms, ctx')"
    using sample_trail_standardizes by (auto simp: standardize_stacks_marshalled_microblock_trail_def d ctx)
  have wf: "wf_headers []" "wf_microblocks ms"
    using marshalled_trail_same_anchor [OF ok]
    by (auto simp: wf_headers_def wf_microblocks_def same_anchor_def list_all_iff bid_eq_def split: list.splits)
  have reach: "pool_reachable [] ms (stacks_blocks_pool ?ix)"
    by (simp add: indexer_new_def pool_reachable.initial)
  from indexer_trail_safe [OF wf reach, of sample_lib ?j] ok show ?thesis
    by (simp add: list_all_iff list_ex_iff)
qed

text \<open>
  A StackerDB chunk that arrives before the first block panics, whatever it holds: a new pool has an
  empty canonical fork, so reading its tip panics before the error for a missing tip can be returned.
\<close>

theorem stackerdb_chunk_before_first_block_panics:
  "handle_stacks_marshalled_stackerdb_chunk lib (indexer_new c) j ms = Panic"
  by (simp add: handle_stacks_marshalled_stackerdb_chunk_def indexer_new_def get_canonical_fork_chain_tip_def
      stacks_block_pool_new_def chain_segment_new_def get_tip_def)

text \<open>
  Network names round trip: a text is read as a network exactly when it is the name of that network,
  for Stacks and for Bitcoin, and every other text is an error.
\<close>

theorem network_names_roundtrip:
  "(stacks_network_try_from s = Inr n \<longleftrightarrow> s = stacks_network_as_str n) \<and>
   (bitcoin_network_try_from s = Inr b \<longleftrightarrow> s = bitcoin_network_as_str b)"
  by (cases n; cases b) (auto simp: stacks_network_try_from_def bitcoin_network_try_from_def)

end
