(* ===== verification/Nonce_Graph.thy ===== *)
theory Nonce_Graph
  imports Clarinet_Prelude
begin

text \<open>
  The graph part of \<^verbatim>\<open>check_nonce_dependencies\<close> in \<^verbatim>\<open>components/clarity-repl/src/repl/mempool.rs\<close>: the
  reservations of every account are linked in nonce order, and the number of transactions that can be
  visited with their prerequisites first is counted. Vectors are indexed by transaction; an index out
  of range panics, and so does a subtraction below zero. Both are shown not to happen, and the
  count to be complete exactly when an order exists.
\<close>

section \<open>The algorithm\<close>

text \<open>Adjacent reservations of one account.\<close>

fun link_account :: "nat list \<Rightarrow> nat list list \<times> nat list \<Rightarrow> (nat list list \<times> nat list) outcome" where
  "link_account (previous # next # rest) (dependents, prerequisites) =
     (if previous < length dependents \<and> next < length prerequisites
      then link_account (next # rest)
             (dependents[previous := dependents ! previous @ [next]],
              prerequisites[next := prerequisites ! next + 1])
      else Panic)"
| "link_account _ g = Done g"

fun link_accounts :: "nat list list \<Rightarrow> nat list list \<times> nat list \<Rightarrow> (nat list list \<times> nat list) outcome" where
  "link_accounts [] g = Done g"
| "link_accounts (account # accounts) g = bind_outcome (link_account account g) (link_accounts accounts)"

text \<open>The transactions without prerequisites, as a stack: the last one is popped first.\<close>

definition initially_ready :: "nat list \<Rightarrow> nat list" where
  "initially_ready prerequisites = rev (filter (\<lambda>i. prerequisites ! i = 0) [0..<length prerequisites])"

fun relax :: "nat list \<Rightarrow> nat list \<Rightarrow> nat list \<Rightarrow> (nat list \<times> nat list) outcome" where
  "relax [] prerequisites ready = Done (prerequisites, ready)"
| "relax (d # ds) prerequisites ready =
     (if d < length prerequisites \<and> 0 < prerequisites ! d
      then let p = prerequisites[d := prerequisites ! d - 1]
           in relax ds p (if p ! d = 0 then d # ready else ready)
      else Panic)"

lemma sum_list_decrement:
  assumes "d < length p" "0 < p ! d"
  shows "sum_list (p[d := p ! d - 1]) + 1 = (sum_list p :: nat)"
  using assms elem_le_sum_list [OF assms(1)] by (simp add: sum_list_update)

lemma relax_measure:
  "relax ds p r = Done (p', r') \<Longrightarrow> length r' + 2 * sum_list p' \<le> length r + 2 * sum_list p"
proof (induction ds p r rule: relax.induct)
  case (2 d ds p r)
  then have d: "d < length p" "0 < p ! d" by (auto split: if_splits)
  have "length r' + 2 * sum_list p' \<le> length r + 1 + 2 * sum_list (p[d := p ! d - 1])"
    using 2 d by (auto simp: Let_def split: if_splits)
  with sum_list_decrement [OF d] show ?case by linarith
qed simp

function visit :: "nat list list \<Rightarrow> nat list \<Rightarrow> nat list \<Rightarrow> nat \<Rightarrow> nat outcome" where
  "visit dependents prerequisites [] visited = Done visited"
| "visit dependents prerequisites (index # ready) visited =
     (if index < length dependents
      then (case relax (dependents ! index) prerequisites ready of
              Done (prerequisites1, ready1) \<Rightarrow> visit dependents prerequisites1 ready1 (visited + 1)
            | Panic \<Rightarrow> Panic
            | Diverge \<Rightarrow> Diverge)
      else Panic)"
  by pat_completeness auto

termination
proof (relation "measure (\<lambda>(dependents, prerequisites, ready, visited). length ready + 2 * sum_list prerequisites)", goal_cases)
  case (2 dependents prerequisites index ready visited p prerequisites1 ready1)
  then show ?case using relax_measure [of "dependents ! index" prerequisites ready prerequisites1 ready1] by auto
qed simp

definition count_schedulable :: "nat \<Rightarrow> nat list list \<Rightarrow> nat outcome" where
  "count_schedulable count accounts =
     bind_outcome (link_accounts accounts (replicate count [], replicate count 0))
       (\<lambda>(dependents, prerequisites). visit dependents prerequisites (initially_ready prerequisites) 0)"

section \<open>Links\<close>

definition edges :: "nat list list \<Rightarrow> (nat \<times> nat) list" where
  "edges accounts = concat (map (\<lambda>xs. zip xs (tl xs)) accounts)"

definition graph_of :: "nat \<Rightarrow> (nat \<times> nat) list \<Rightarrow> nat list list \<times> nat list \<Rightarrow> bool" where
  "graph_of n E g \<longleftrightarrow>
     length (fst g) = n \<and> length (snd g) = n \<and>
     (\<forall>u < n. fst g ! u = map snd (filter (\<lambda>e. fst e = u) E)) \<and>
     (\<forall>v < n. snd g ! v = count_list (map snd E) v)"

lemma graph_of_add:
  assumes "graph_of n E (deps, pre)" "u < n" "v < n"
  shows "graph_of n (E @ [(u, v)]) (deps[u := deps ! u @ [v]], pre[v := pre ! v + 1])"
  using assms by (auto simp: graph_of_def nth_list_update)

lemma link_account_graph:
  assumes "graph_of n E g" "set xs \<subseteq> {..<n}"
  shows "\<exists>g'. link_account xs g = Done g' \<and> graph_of n (E @ zip xs (tl xs)) g'"
  using assms
proof (induction xs g arbitrary: E rule: link_account.induct)
  case (1 u v rest deps pre)
  then have "u < n" "v < n" "length deps = n" "length pre = n" by (auto simp: graph_of_def)
  with 1(1) [OF _ graph_of_add [OF 1(2) \<open>u < n\<close> \<open>v < n\<close>]] 1(3) show ?case by simp
qed auto

lemma link_accounts_graph:
  assumes "graph_of n E g" "\<forall>xs \<in> set accounts. set xs \<subseteq> {..<n}"
  shows "\<exists>g'. link_accounts accounts g = Done g' \<and> graph_of n (E @ edges accounts) g'"
  using assms
proof (induction accounts arbitrary: g E)
  case (Cons xs accounts)
  from link_account_graph [OF Cons.prems(1), of xs] Cons.prems(2) obtain g1 where
    g1: "link_account xs g = Done g1" "graph_of n (E @ zip xs (tl xs)) g1" by auto
  from Cons.IH [OF g1(2)] Cons.prems(2) g1(1) show ?case by (auto simp: edges_def)
qed (simp add: edges_def)

section \<open>Visits\<close>

lemma relax_spec:
  assumes "\<forall>v \<in> set ds. v < length p" "\<forall>v < length p. count_list ds v \<le> p ! v"
    and "distinct r" "set r \<inter> set ds = {}"
  shows "\<exists>p' r'. relax ds p r = Done (p', r') \<and> length p' = length p \<and> distinct r' \<and>
     (\<forall>v < length p. p' ! v = p ! v - count_list ds v) \<and>
     set r' = set r \<union> {v \<in> set ds. p ! v = count_list ds v}"
  using assms
proof (induction ds arbitrary: p r)
  case (Cons d ds)
  let ?p = "p[d := p ! d - 1]"
  let ?r = "if ?p ! d = 0 then d # r else r"
  from Cons.prems have d: "d < length p" and le: "count_list (d # ds) d \<le> p ! d" by auto
  then have pos: "0 < p ! d" by simp
  have zero: "?p ! d = 0 \<Longrightarrow> d \<notin> set ds"
    using le d count_list_0_iff [of ds d] by simp
  have "\<exists>p' r'. relax ds ?p ?r = Done (p', r') \<and> length p' = length ?p \<and> distinct r' \<and>
     (\<forall>v < length ?p. p' ! v = ?p ! v - count_list ds v) \<and>
     set r' = set ?r \<union> {v \<in> set ds. ?p ! v = count_list ds v}"
  proof (rule Cons.IH)
    show "\<forall>v < length ?p. count_list ds v \<le> ?p ! v"
      using Cons.prems(2) d by (auto simp: nth_list_update dest: spec)
    show "distinct ?r" "set ?r \<inter> set ds = {}" using Cons.prems(3,4) zero by auto
  qed (use Cons.prems(1) in auto)
  then obtain p' r' where *: "relax ds ?p ?r = Done (p', r')" "length p' = length ?p" "distinct r'"
     "\<forall>v < length ?p. p' ! v = ?p ! v - count_list ds v"
     "set r' = set ?r \<union> {v \<in> set ds. ?p ! v = count_list ds v}" by blast
  have "set r' = set r \<union> {v \<in> set (d # ds). p ! v = count_list (d # ds) v}"
  proof (rule set_eqI)
    fix v
    show "v \<in> set r' \<longleftrightarrow> v \<in> set r \<union> {v \<in> set (d # ds). p ! v = count_list (d # ds) v}"
    proof (cases "v = d")
      case True
      have "d \<in> set ds \<or> count_list ds d = 0" by (cases "d \<in> set ds") simp_all
      with True d le pos zero show ?thesis by (cases "p ! d = 1") (auto simp: *(5))
    qed (auto simp: *(5) nth_list_update)
  qed
  with * d pos show ?case by (auto simp: Let_def nth_list_update)
qed auto

text \<open>
  The state of the search: \<open>seen\<close> are the visited nodes. What is left of the prerequisites of a node
  are the links from nodes not yet visited; the ready nodes are those without any.
\<close>

definition search_inv :: "nat \<Rightarrow> (nat \<times> nat) list \<Rightarrow> nat set \<Rightarrow> nat list \<Rightarrow> nat list \<Rightarrow> bool" where
  "search_inv n E seen pre ready \<longleftrightarrow>
     length pre = n \<and> seen \<subseteq> {..<n} \<and> distinct ready \<and>
     (\<forall>v < n. pre ! v = count_list (map snd (filter (\<lambda>e. fst e \<notin> seen) E)) v) \<and>
     set ready = {v. v < n \<and> v \<notin> seen \<and> pre ! v = 0} \<and>
     (\<forall>(u, v) \<in> set E. u < n \<and> v < n \<and> (v \<in> seen \<longrightarrow> u \<in> seen))"

lemma count_split:
  assumes "i \<notin> seen"
  shows "count_list (map snd (filter (\<lambda>e. fst e \<notin> seen) E)) v =
     count_list (map snd (filter (\<lambda>e. fst e \<notin> insert i seen) E)) v + count_list (map snd (filter (\<lambda>e. fst e = i) E)) v"
  using assms by (induction E) auto

lemma ready_node:
  assumes "search_inv n E seen pre (i # ready)"
  shows "i < n" "i \<notin> seen" "pre ! i = 0" "i \<notin> set ready" "(u, i) \<in> set E \<Longrightarrow> u \<in> seen"
proof -
  from assms have "i \<in> {v. v < n \<and> v \<notin> seen \<and> pre ! v = 0}" "i \<notin> set ready"
    by (simp_all add: search_inv_def) blast
  then show i: "i < n" "i \<notin> seen" "pre ! i = 0" "i \<notin> set ready" by auto
  assume e: "(u, i) \<in> set E"
  show "u \<in> seen"
  proof (rule ccontr)
    assume "u \<notin> seen"
    with e have "i \<in> set (map snd (filter (\<lambda>e. fst e \<notin> seen) E))" by force
    then have "count_list (map snd (filter (\<lambda>e. fst e \<notin> seen) E)) i \<noteq> 0" by (simp only: count_list_0_iff) simp
    with assms i(1,3) show False by (simp add: search_inv_def)
  qed
qed

lemma search_step:
  assumes g: "graph_of n E (deps, pre0)" and inv: "search_inv n E seen pre (i # ready)"
  shows "i < length deps \<and> i \<notin> seen \<and>
     (\<exists>pre' ready'. relax (deps ! i) pre ready = Done (pre', ready') \<and> search_inv n E (insert i seen) pre' ready')"
proof -
  let ?ds = "map snd (filter (\<lambda>e. fst e = i) E)"
  note i = ready_node(1-4) [OF inv]
  from inv have len: "length pre = n"
    and sub: "seen \<subseteq> {..<n}" and dist: "distinct ready"
    and pre: "\<forall>v < n. pre ! v = count_list (map snd (filter (\<lambda>e. fst e \<notin> seen) E)) v"
    and ready: "insert i (set ready) = {v. v < n \<and> v \<notin> seen \<and> pre ! v = 0}"
    and E: "\<forall>(u, v) \<in> set E. u < n \<and> v < n \<and> (v \<in> seen \<longrightarrow> u \<in> seen)"
    by (auto simp: search_inv_def)
  from g i have ds: "deps ! i = ?ds" "i < length deps" by (auto simp: graph_of_def)
  have le: "\<forall>v < length pre. count_list ?ds v \<le> pre ! v" by (simp add: pre len count_split [OF i(2), of E])
  have bound: "\<forall>v \<in> set ?ds. v < length pre" using E len by auto
  have free: "pre ! v \<noteq> 0" if "v \<in> set ?ds" for v
  proof -
    from that have "count_list ?ds v \<noteq> 0" by (simp add: count_list_0_iff)
    with le bound that show ?thesis by fastforce
  qed
  then have disj: "set ready \<inter> set ?ds = {}" using ready by blast
  from relax_spec [OF bound le dist disj] obtain pre' ready' where
    r: "relax ?ds pre ready = Done (pre', ready')" "length pre' = length pre" "distinct ready'"
      "\<forall>v < length pre. pre' ! v = pre ! v - count_list ?ds v"
      "set ready' = set ready \<union> {v \<in> set ?ds. pre ! v = count_list ?ds v}" by blast
  have pre'': "\<forall>v < n. pre' ! v = count_list (map snd (filter (\<lambda>e. fst e \<notin> insert i seen) E)) v"
    using r(4) len by (simp add: pre count_split [OF i(2), of E])
  have fresh: "v \<notin> seen" if "v \<in> set ?ds" for v
    using that E i(2) by auto
  have self: "i \<notin> set ?ds" using free i(3) by blast
  have "set ready' = {v. v < n \<and> v \<notin> insert i seen \<and> pre' ! v = 0}"
  proof (rule set_eqI)
    fix v
    show "v \<in> set ready' \<longleftrightarrow> v \<in> {v. v < n \<and> v \<notin> insert i seen \<and> pre' ! v = 0}"
    proof (cases "v \<in> set ?ds")
      case True
      then have v: "v < n" "v \<notin> insert i seen" "v \<notin> set ready"
        using bound [rule_format, OF True] fresh [OF True] self disj len by (simp_all only: insert_iff) blast+
      with True r(4) len have "v \<in> set ready' \<longleftrightarrow> pre ! v = count_list ?ds v" "pre' ! v = pre ! v - count_list ?ds v"
        by (auto simp: r(5))
      with v le len show ?thesis by auto
    next
      case False
      then have same: "v < n \<longrightarrow> pre' ! v = pre ! v" using r(4) len by simp
      have "v \<in> insert i (set ready) \<longleftrightarrow> v < n \<and> v \<notin> seen \<and> pre ! v = 0" by (simp add: ready)
      with False same i(4) show ?thesis by (auto simp: r(5))
    qed
  qed
  moreover have "\<forall>(u, v) \<in> set E. u < n \<and> v < n \<and> (v \<in> insert i seen \<longrightarrow> u \<in> insert i seen)"
    using E ready_node(5) [OF inv] by auto
  ultimately have "search_inv n E (insert i seen) pre' ready'"
    using r(2,3) len sub i(1) pre'' by (simp add: search_inv_def)
  with r(1) ds i(2) show ?thesis by auto
qed

text \<open>A ranking of the visited nodes along which every link to a visited node goes up.\<close>

definition ranked :: "(nat \<times> nat) list \<Rightarrow> nat set \<Rightarrow> (nat \<Rightarrow> nat) \<Rightarrow> bool" where
  "ranked E seen rank \<longleftrightarrow>
     (\<forall>u \<in> seen. rank u < card seen) \<and> (\<forall>(u, v) \<in> set E. v \<in> seen \<longrightarrow> rank u < rank v)"

lemma ranked_insert:
  assumes "ranked E seen rank" "finite seen" "i \<notin> seen"
    and "\<forall>(u, v) \<in> set E. v \<in> seen \<longrightarrow> u \<in> seen" "\<forall>(u, v) \<in> set E. v = i \<longrightarrow> u \<in> seen"
  shows "ranked E (insert i seen) (rank(i := card seen))"
proof -
  have "(rank(i := card seen)) u < (rank(i := card seen)) v" if e: "(u, v) \<in> set E" "v \<in> insert i seen" for u v
  proof (cases "v = i")
    case True
    with e assms(5) have "u \<in> seen" by auto
    with assms(1,3) True show ?thesis by (auto simp: ranked_def)
  next
    case False
    with e assms(4) have "u \<in> seen" "v \<in> seen" by auto
    with assms(1,3) e show ?thesis by (auto simp: ranked_def)
  qed
  moreover have "(rank(i := card seen)) u < card (insert i seen)" if "u \<in> insert i seen" for u
    using that assms(1-3) by (auto simp: ranked_def less_SucI)
  ultimately show ?thesis unfolding ranked_def by blast
qed

lemma visit_complete:
  assumes "graph_of n E (deps, pre0)" "search_inv n E seen pre ready" "card seen = visited" "ranked E seen rank"
  shows "\<exists>seen' pre' rank'. visit deps pre ready visited = Done (card seen') \<and> search_inv n E seen' pre' [] \<and> ranked E seen' rank'"
  using assms
proof (induction deps pre ready visited arbitrary: seen rank rule: visit.induct)
  case (1 deps pre visited)
  then show ?case by auto
next
  case (2 deps pre i ready visited)
  from search_step [OF 2(2,3)] obtain pre' ready' where
    s: "i < length deps" "i \<notin> seen" "relax (deps ! i) pre ready = Done (pre', ready')"
      "search_inv n E (insert i seen) pre' ready'" by blast
  have fin: "finite seen" using 2(3) finite_subset by (auto simp: search_inv_def)
  have "\<forall>(u, v) \<in> set E. v \<in> seen \<longrightarrow> u \<in> seen" using 2(3) by (auto simp: search_inv_def)
  moreover have "\<forall>(u, v) \<in> set E. v = i \<longrightarrow> u \<in> seen" using ready_node(5) [OF 2(3)] by auto
  ultimately have rk: "ranked E (insert i seen) (rank(i := card seen))"
    by (rule ranked_insert [OF 2(5) fin s(2)])
  have "card (insert i seen) = visited + 1" using 2(4) s(2) fin by simp
  from 2(1) [OF s(1,3) refl 2(2) s(4) this rk] s show ?case by simp
qed

lemma edges_bound:
  assumes "\<forall>xs \<in> set accounts. set xs \<subseteq> {..<n}" "(u, v) \<in> set (edges accounts)"
  shows "u < n \<and> v < n"
proof -
  from assms(2) obtain xs where xs: "xs \<in> set accounts" "(u, v) \<in> set (zip xs (tl xs))" by (auto simp: edges_def)
  then have "u \<in> set xs" "v \<in> set (tl xs)" by (auto dest: set_zip_leftD set_zip_rightD)
  then have "u \<in> set xs" "v \<in> set xs" by (cases xs; simp)+
  with assms(1) xs(1) show ?thesis by auto
qed

text \<open>
  The count is defined, and it is complete exactly when the nodes can be ranked so that every link
  goes up.
\<close>

lemma count_schedulable_iff:
  assumes "\<forall>xs \<in> set accounts. set xs \<subseteq> {..<n}"
  shows "\<exists>m. count_schedulable n accounts = Done m \<and>
     (m = n \<longleftrightarrow> (\<exists>rank :: nat \<Rightarrow> nat. \<forall>(u, v) \<in> set (edges accounts). rank u < rank v))"
proof -
  let ?E = "edges accounts"
  have "graph_of n [] (replicate n [], replicate n 0)" by (simp add: graph_of_def)
  from link_accounts_graph [OF this assms] obtain deps pre where
    l: "link_accounts accounts (replicate n [], replicate n 0) = Done (deps, pre)" and g: "graph_of n ?E (deps, pre)"
    by auto
  have bound: "\<And>u v. (u, v) \<in> set ?E \<Longrightarrow> u < n \<and> v < n" by (rule edges_bound [OF assms])
  have start: "search_inv n ?E {} pre (initially_ready pre)" "ranked ?E {} (\<lambda>_. 0)"
    using g bound by (auto simp: search_inv_def graph_of_def initially_ready_def ranked_def)
  from visit_complete [OF g start(1) _ start(2), of 0] obtain seen pre' rank where
    v: "visit deps pre (initially_ready pre) 0 = Done (card seen)" and inv: "search_inv n ?E seen pre' []"
      and rank: "ranked ?E seen rank" by auto
  from inv have sub: "seen \<subseteq> {..<n}" by (simp add: search_inv_def)
  have stuck: "\<exists>u. u < n \<and> u \<notin> seen \<and> (u, w) \<in> set ?E" if "w < n" "w \<notin> seen" for w
  proof -
    from inv that have "count_list (map snd (filter (\<lambda>e. fst e \<notin> seen) ?E)) w \<noteq> 0" by (auto simp: search_inv_def)
    then have "w \<in> set (map snd (filter (\<lambda>e. fst e \<notin> seen) ?E))" by (simp only: count_list_0_iff) simp
    with bound show ?thesis by force
  qed
  have all: "seen = {..<n}" if r: "\<forall>(u, v) \<in> set ?E. r u < (r v :: nat)" for r
  proof (rule ccontr)
    assume "seen \<noteq> {..<n}"
    with sub obtain w0 where "w0 < n \<and> w0 \<notin> seen" by auto
    then obtain w where w: "w < n \<and> w \<notin> seen" "\<And>x. x < n \<and> x \<notin> seen \<Longrightarrow> r w \<le> r x"
      using ex_has_least_nat [of "\<lambda>x. x < n \<and> x \<notin> seen" w0 r] by blast
    from stuck w(1) obtain u where "u < n \<and> u \<notin> seen" "(u, w) \<in> set ?E" by blast
    with w(2) [of u] r show False by fastforce
  qed
  have "card seen = n \<longleftrightarrow> seen = {..<n}"
    using sub by (metis card_lessThan card_subset_eq finite_lessThan)
  moreover have "\<forall>(u, v) \<in> set ?E. rank u < rank v" if "seen = {..<n}"
    using rank bound that by (auto simp: ranked_def)
  ultimately have "card seen = n \<longleftrightarrow> (\<exists>r :: nat \<Rightarrow> nat. \<forall>(u, v) \<in> set ?E. r u < r v)" using all by blast
  with l v show ?thesis by (simp add: count_schedulable_def)
qed

end
