(* ===== verification/Mempool.thy ===== *)
theory Mempool
  imports Nonce_Graph
begin

text \<open>
  The session-local mempool of \<^verbatim>\<open>components/clarity-repl/src/repl/mempool.rs\<close>, with the checks it calls
  from \<^verbatim>\<open>raw_transaction.rs\<close> (\<^verbatim>\<open>decode\<close>, \<^verbatim>\<open>check_raw_transaction\<close>): admission of signed transactions and the
  selection of the next one to mine.

  A signed transaction comes from a third-party crate; here it has the fields the sources read.
  Principals, contract identifiers and transaction ids are their texts. What the interpreter and
  third-party code answer (the codec, signature checks, the account database, the analysis database,
  the iteration order of a \<^verbatim>\<open>HashMap\<close>) is the record \<open>simnet_env\<close>.
\<close>

section \<open>Transactions\<close>

datatype signed_payload =
    PTokenTransfer string u8 u64
  | PContractCall u8 string string "string list"
  | PSmartContract string "nat option"
  | PCoinbase
  | PTenureChange
  | PPoisonMicroblock

text \<open>
  \<open>sx_sponsor\<close> is \<^verbatim>\<open>sponsor_address()\<close> with the nonce of the payer; without a sponsor the payer is the
  origin.
\<close>

record signed_transaction =
  sx_txid :: string
  sx_origin :: string
  sx_origin_nonce :: u64
  sx_sponsor :: "(string \<times> u64) option"
  sx_fee :: u64
  sx_len :: u64
  sx_chain_id :: u32
  sx_is_mainnet :: bool
  sx_post_conditions :: "string list"
  sx_payload :: signed_payload

definition payer_nonce :: "signed_transaction \<Rightarrow> u64" where
  "payer_nonce tx = (case sx_sponsor tx of Some (_, n) \<Rightarrow> n | None \<Rightarrow> sx_origin_nonce tx)"

text \<open>The accounts a transaction draws a nonce from: the origin, then the sponsor.\<close>

definition tx_nonces :: "signed_transaction \<Rightarrow> (string \<times> u64) list" where
  "tx_nonces tx =
     (sx_origin tx, sx_origin_nonce tx) # (case sx_sponsor tx of Some (p, n) \<Rightarrow> [(p, n)] | None \<Rightarrow> [])"

section \<open>Errors\<close>

datatype raw_transaction_error =
    TooLong
  | HexError string
  | CodecError string
  | TrailingBytes
  | UnsupportedAuthentication
  | SignatureError string
  | NetworkMismatch
  | PostConditionError string
  | VersionedDeployError string
  | UnsupportedPayload

datatype admission_message =
    StaticMessage string
  | ConnectionMessage string
  | TransactionMessage raw_transaction_error
  | DatabaseMessage string
  | ArgumentMessage string

datatype admission_data =
    NoData
  | MessageData admission_message
  | FundsData u128 u128
  | FeeData u64 u64
  | NonceData u64 u64 string bool "string option"
  | ContractData string

record admission_error =
  adm_reason :: string
  adm_data :: admission_data

datatype admission_result =
    AdmissionAccepted string
  | AdmissionRejected string string admission_data "string option"

definition admission_error_new :: "string \<Rightarrow> admission_error" where
  "admission_error_new reason = \<lparr>adm_reason = reason, adm_data = NoData\<rparr>"

definition admission_error_message :: "string \<Rightarrow> admission_message \<Rightarrow> admission_error" where
  "admission_error_message reason message = \<lparr>adm_reason = reason, adm_data = MessageData message\<rparr>"

section \<open>What the mempool relies on\<close>

record stx_snapshot =
  snap_can_transfer :: "u128 \<Rightarrow> string + bool"
  snap_available :: "string + u128"

record simnet_env =
  env_max_len :: nat
  env_hex_bytes :: "string \<Rightarrow> string + u8 list"
  env_deserialize :: "u8 list \<Rightarrow> string + signed_transaction \<times> u8 list"
  env_auth_supported :: "signed_transaction \<Rightarrow> bool"
  env_allows_high_s :: bool
  env_verify :: "bool \<Rightarrow> signed_transaction \<Rightarrow> string + unit"
  env_chain_id :: u32
  env_mainnet :: bool
  env_post_conditions :: "signed_transaction \<Rightarrow> string + unit"
  env_versioned_deploy :: "nat \<Rightarrow> string + unit"
  env_address_versions :: "bool \<Rightarrow> u8 list"
  env_connection :: "string + unit"
  env_nonce :: "string \<Rightarrow> string + u64"
  env_roll_back :: "string + unit"
  env_snapshot :: "string \<Rightarrow> string + stx_snapshot"
  env_function_type :: "string \<Rightarrow> string \<Rightarrow> string + string option"
  env_clarity_version :: "string \<Rightarrow> string + nat"
  env_check_args :: "string \<Rightarrow> string list \<Rightarrow> nat \<Rightarrow> string + unit"
  env_has_contract :: "string \<Rightarrow> bool"
  env_hash_order :: "(string \<times> (u64, nat) btree_map) list \<Rightarrow> (string \<times> (u64, nat) btree_map) list"

definition on_error :: "('a \<Rightarrow> 'e) \<Rightarrow> 'a + 'b \<Rightarrow> 'e + 'b" where
  "on_error f r = (case r of Inl e \<Rightarrow> Inl (f e) | Inr x \<Rightarrow> Inr x)"

definition ok_bind :: "'e + 'a \<Rightarrow> ('a \<Rightarrow> 'e + 'b) \<Rightarrow> 'e + 'b" where
  "ok_bind r f = (case r of Inl e \<Rightarrow> Inl e | Inr x \<Rightarrow> f x)"

section \<open>Decoding and static checks\<close>

definition decode :: "simnet_env \<Rightarrow> string \<Rightarrow> raw_transaction_error + signed_transaction" where
  "decode env raw_hex =
     (let hex = (case strip_prefix ''0x'' raw_hex of Some h \<Rightarrow> h | None \<Rightarrow> raw_hex)
      in if env_max_len env * 2 < length hex then Inl TooLong
         else ok_bind (on_error HexError (env_hex_bytes env hex))
           (\<lambda>bytes. ok_bind (on_error CodecError (env_deserialize env bytes))
              (\<lambda>(tx, input). if input \<noteq> [] then Inl TrailingBytes else Inr tx)))"

definition check_raw_transaction :: "simnet_env \<Rightarrow> signed_transaction \<Rightarrow> raw_transaction_error + unit" where
  "check_raw_transaction env tx =
     (if \<not> env_auth_supported env tx then Inl UnsupportedAuthentication
      else ok_bind (on_error SignatureError (env_verify env (env_allows_high_s env) tx))
        (\<lambda>_. if sx_chain_id tx \<noteq> env_chain_id env \<or> sx_is_mainnet tx \<noteq> env_mainnet env then Inl NetworkMismatch
         else ok_bind (on_error PostConditionError (env_post_conditions env tx))
           (\<lambda>_. ok_bind
              (case sx_payload tx of
                 PSmartContract _ (Some version) \<Rightarrow> on_error VersionedDeployError (env_versioned_deploy env version)
               | _ \<Rightarrow> Inr ())
              (\<lambda>_. case sx_payload tx of
                 PTokenTransfer _ _ _ \<Rightarrow> Inr ()
               | PContractCall _ _ _ _ \<Rightarrow> Inr ()
               | PSmartContract _ _ \<Rightarrow> Inr ()
               | _ \<Rightarrow> Inl UnsupportedPayload))))"

section \<open>Funds\<close>

definition database_error :: "string \<Rightarrow> admission_error" where
  "database_error e = admission_error_message ''ServerFailureDatabase'' (DatabaseMessage e)"

definition require_funds :: "simnet_env \<Rightarrow> string \<Rightarrow> u128 \<Rightarrow> admission_error + unit" where
  "require_funds env prin expected =
     ok_bind (on_error database_error (env_snapshot env prin))
       (\<lambda>balance. ok_bind (on_error database_error (snap_can_transfer balance expected))
          (\<lambda>can. if can then Inr ()
            else ok_bind (on_error database_error (snap_available balance))
              (\<lambda>actual. Inl \<lparr>adm_reason = ''NotEnoughFunds'', adm_data = FundsData expected actual\<rparr>)))"

section \<open>Nonce dependencies\<close>

text \<open>
  Whether a transaction has a stale nonce, with the nonces read so far; the loop stops at the first
  stale one.
\<close>

fun stale_nonces ::
  "simnet_env \<Rightarrow> (string \<times> u64) list \<Rightarrow> (string, u64) hash_map \<Rightarrow>
   admission_error + bool \<times> (string, u64) hash_map" where
  "stale_nonces env [] current_nonces = Inr (False, current_nonces)"
| "stale_nonces env ((prin, nonce) # rest) current_nonces =
     ok_bind
       (case hm_get current_nonces prin of
          Some current \<Rightarrow> Inr (current, current_nonces)
        | None \<Rightarrow>
            ok_bind (on_error database_error (env_nonce env prin))
              (\<lambda>current. Inr (current, hm_insert prin current current_nonces)))
       (\<lambda>(current, current_nonces1).
          if nonce < current then Inr (True, current_nonces1)
          else stale_nonces env rest current_nonces1)"

type_synonym reservations = "(string, (u64, nat) btree_map) hash_map"

definition reserve :: "nat \<Rightarrow> reservations \<Rightarrow> string \<times> u64 \<Rightarrow> reservations" where
  "reserve index m pn =
     (case pn of
        (prin, nonce) \<Rightarrow>
          hm_insert prin
            (bt_insert nonce index (case hm_get m prin of Some account \<Rightarrow> account | None \<Rightarrow> [])) m)"

fun collect_reservations ::
  "simnet_env \<Rightarrow> signed_transaction list \<Rightarrow> nat \<Rightarrow> (string, u64) hash_map \<Rightarrow> reservations \<Rightarrow>
   admission_error + reservations" where
  "collect_reservations env [] index current_nonces m = Inr m"
| "collect_reservations env (tx # txs) index current_nonces m =
     ok_bind (stale_nonces env (tx_nonces tx) current_nonces)
       (\<lambda>(stale, current_nonces1).
          collect_reservations env txs (index + 1) current_nonces1
            (if stale then m else foldl (reserve index) m (tx_nonces tx)))"

record pending_transaction =
  pt_txid :: string
  pt_tx :: signed_transaction

definition check_nonce_dependencies ::
  "simnet_env \<Rightarrow> pending_transaction list \<Rightarrow> signed_transaction \<Rightarrow> (admission_error + unit) outcome" where
  "check_nonce_dependencies env pending candidate =
     (if pending = [] then Done (Inr ())
      else let count = length pending + 1
        in case collect_reservations env (map pt_tx pending @ [candidate]) 0 [] [] of
             Inl e \<Rightarrow> Done (Inl e)
           | Inr m \<Rightarrow>
               bind_outcome (count_schedulable count (map (\<lambda>account. map snd (snd account)) (env_hash_order env m)))
                 (\<lambda>visited. Done
                    (if visited \<noteq> count
                     then Inl (admission_error_message ''ConflictingNonceInMempool''
                       (StaticMessage ''Transaction would create a circular nonce dependency''))
                     else Inr ())))"

section \<open>Admission\<close>

definition reserves :: "signed_transaction \<Rightarrow> string \<Rightarrow> u64 \<Rightarrow> bool" where
  "reserves queued prin actual \<longleftrightarrow>
     sx_origin_nonce queued = actual \<and> sx_origin queued = prin \<or>
     (case sx_sponsor queued of
        Some (address, nonce) \<Rightarrow> nonce = actual \<and> address = prin
      | None \<Rightarrow> False)"

text \<open>The check of one account, and of the sponsor before the origin.\<close>

definition check_account_nonce ::
  "simnet_env \<Rightarrow> pending_transaction list \<Rightarrow> string \<times> u64 \<times> bool \<Rightarrow> admission_error + unit" where
  "check_account_nonce env pending account =
     (case account of
        (prin, actual, is_origin) \<Rightarrow>
          ok_bind (on_error database_error (env_nonce env prin))
            (\<lambda>expected.
               if actual < expected \<or> actual = 18446744073709551615
               then Inl \<lparr>adm_reason = ''BadNonce'', adm_data = NonceData expected actual prin is_origin None\<rparr>
               else let maximum = (if unat expected + 26 < 2 ^ 64 then expected + 26 else 18446744073709551615)
                 in if maximum < actual
                    then Inl \<lparr>adm_reason = ''TooMuchChaining'',
                              adm_data = NonceData maximum actual prin is_origin
                                (Some ''Nonce would exceed chaining limit in mempool'')\<rparr>
                    else if list_ex (\<lambda>queued. reserves (pt_tx queued) prin actual) pending
                      then Inl (admission_error_new ''ConflictingNonceInMempool'')
                      else Inr ()))"

definition admission_accounts :: "signed_transaction \<Rightarrow> (string \<times> u64 \<times> bool) list" where
  "admission_accounts tx =
     (case sx_sponsor tx of Some (sponsor, nonce) \<Rightarrow> [(sponsor, nonce, False)] | None \<Rightarrow> []) @
     [(sx_origin tx, sx_origin_nonce tx, True)]"

fun check_account_nonces ::
  "simnet_env \<Rightarrow> pending_transaction list \<Rightarrow> (string \<times> u64 \<times> bool) list \<Rightarrow> admission_error + unit" where
  "check_account_nonces env pending [] = Inr ()"
| "check_account_nonces env pending (account # accounts) =
     ok_bind (check_account_nonce env pending account) (\<lambda>_. check_account_nonces env pending accounts)"

definition check_funds :: "simnet_env \<Rightarrow> signed_transaction \<Rightarrow> admission_error + unit" where
  "check_funds env tx =
     (let origin = sx_origin tx;
          payer = (case sx_sponsor tx of Some (p, _) \<Rightarrow> p | None \<Rightarrow> origin)
      in case sx_payload tx of
           PTokenTransfer recipient _ amount \<Rightarrow>
             if recipient = origin then Inl (admission_error_new ''TransferRecipientCannotEqualSender'')
             else if amount = 0 then Inl (admission_error_new ''TransferAmountMustBePositive'')
             else if sx_post_conditions tx \<noteq> []
               then Inl (admission_error_message ''ServerFailureOther''
                 (StaticMessage ''native transfers do not support post-conditions''))
             else if payer = origin then require_funds env origin (ucast amount + ucast (sx_fee tx))
             else ok_bind (require_funds env origin (ucast amount))
               (\<lambda>_. require_funds env payer (ucast (sx_fee tx)))
         | _ \<Rightarrow> require_funds env payer (ucast (sx_fee tx)))"

definition check_contract :: "simnet_env \<Rightarrow> signed_transaction \<Rightarrow> admission_error + unit" where
  "check_contract env tx =
     (case sx_payload tx of
        PContractCall _ contract function_name args \<Rightarrow>
          ok_bind (on_error (\<lambda>_. admission_error_new ''NoSuchContract'') (env_function_type env contract function_name))
            (\<lambda>f. case f of
               None \<Rightarrow> Inl (admission_error_new ''NoSuchPublicFunction'')
             | Some function \<Rightarrow>
                 ok_bind (on_error (\<lambda>_. admission_error_new ''NoSuchContract'') (env_clarity_version env contract))
                   (\<lambda>version. on_error (\<lambda>e. admission_error_message ''BadFunctionArgument'' (ArgumentMessage e))
                      (env_check_args env function args version)))
      | PSmartContract name _ \<Rightarrow>
          let contract = sx_origin tx @ ''.'' @ name
          in if env_has_contract env contract
             then Inl \<lparr>adm_reason = ''ContractAlreadyExists'', adm_data = ContractData contract\<rparr>
             else Inr ()
      | _ \<Rightarrow> Inr ())"

definition check_address_version :: "simnet_env \<Rightarrow> signed_transaction \<Rightarrow> admission_error + unit" where
  "check_address_version env tx =
     (case (case sx_payload tx of
              PTokenTransfer _ version _ \<Rightarrow> Some version
            | PContractCall version _ _ _ \<Rightarrow> Some version
            | _ \<Rightarrow> None) of
        Some version \<Rightarrow>
          if version \<notin> set (env_address_versions env (env_mainnet env))
          then Inl (admission_error_new ''BadAddressVersionByte'') else Inr ()
      | None \<Rightarrow> Inr ())"

definition check_payload_kind :: "signed_transaction \<Rightarrow> admission_error + unit" where
  "check_payload_kind tx =
     (case sx_payload tx of
        PCoinbase \<Rightarrow> Inl (admission_error_new ''NoCoinbaseViaMempool'')
      | PTenureChange \<Rightarrow> Inl (admission_error_new ''NoTenureChangeViaMempool'')
      | PPoisonMicroblock \<Rightarrow>
          Inl (admission_error_message ''ServerFailureOther''
            (StaticMessage ''PoisonMicroblock transactions not accepted via mempool''))
      | _ \<Rightarrow> Inr ())"

text \<open>The checks before the account database is read.\<close>

definition check_statically :: "simnet_env \<Rightarrow> signed_transaction \<Rightarrow> admission_error + unit" where
  "check_statically env tx =
     ok_bind (check_payload_kind tx)
       (\<lambda>_. ok_bind (on_error (\<lambda>e. admission_error_message ''SignatureValidation'' (TransactionMessage e))
               (check_raw_transaction env tx))
          (\<lambda>_. if sx_fee tx < sx_len tx
            then Inl \<lparr>adm_reason = ''FeeTooLow'', adm_data = FeeData (sx_len tx) (sx_fee tx)\<rparr>
            else ok_bind (check_address_version env tx)
              (\<lambda>_. ok_bind (on_error (\<lambda>e. admission_error_message ''ServerFailureDatabase'' (ConnectionMessage e))
                      (env_connection env))
                 (\<lambda>_. case sx_sponsor tx of
                    Some (sponsor, nonce) \<Rightarrow>
                      if sponsor = sx_origin tx \<and> sx_origin_nonce tx \<noteq> nonce
                      then Inl \<lparr>adm_reason = ''BadNonce'',
                                adm_data = NonceData (sx_origin_nonce tx) nonce (sx_origin tx) False
                                  (Some ''Self-sponsored transactions must use equal origin and sponsor nonces'')\<rparr>
                      else Inr ()
                  | None \<Rightarrow> Inr ()))))"

definition check_mempool_admission ::
  "simnet_env \<Rightarrow> signed_transaction \<Rightarrow> pending_transaction list \<Rightarrow> (admission_error + unit) outcome" where
  "check_mempool_admission env tx pending =
     (case ok_bind (check_statically env tx)
             (\<lambda>_. check_account_nonces env pending (admission_accounts tx)) of
        Inl e \<Rightarrow> Done (Inl e)
      | Inr _ \<Rightarrow>
          bind_outcome (check_nonce_dependencies env pending tx)
            (\<lambda>r. Done (ok_bind r (\<lambda>_. ok_bind (check_funds env tx) (\<lambda>_. check_contract env tx)))))"

section \<open>The queue\<close>

definition submit_transaction ::
  "simnet_env \<Rightarrow> string \<Rightarrow> pending_transaction list \<Rightarrow> (admission_result \<times> pending_transaction list) outcome" where
  "submit_transaction env raw_hex transactions =
     (case decode env raw_hex of
        Inl error \<Rightarrow>
          Done (AdmissionRejected ''transaction rejected'' ''Deserialization''
            (MessageData (TransactionMessage error)) None, transactions)
      | Inr tx \<Rightarrow>
          let txid = sx_txid tx
          in if list_ex (\<lambda>pending. pt_txid pending = txid) transactions
             then Done (AdmissionAccepted txid, transactions)
             else bind_outcome (check_mempool_admission env tx transactions)
               (\<lambda>r. Done (case r of
                  Inr _ \<Rightarrow> (AdmissionAccepted txid, transactions @ [\<lparr>pt_txid = txid, pt_tx = tx\<rparr>])
                | Inl error \<Rightarrow>
                    (AdmissionRejected ''transaction rejected'' (adm_reason error) (adm_data error) (Some txid),
                     transactions))))"

definition get_nonce :: "simnet_env \<Rightarrow> string \<Rightarrow> string + u64" where
  "get_nonce env prin =
     ok_bind (on_error (\<lambda>e. ''failed to roll back nonce read for '' @ prin @ '': '' @ e) (env_roll_back env))
       (\<lambda>_. on_error (\<lambda>e. ''failed to read nonce for '' @ prin @ '': '' @ e) (env_nonce env prin))"

fun selectable :: "simnet_env \<Rightarrow> (string \<times> u64) list \<Rightarrow> bool \<Rightarrow> bool" where
  "selectable env [] ready = ready"
| "selectable env ((prin, nonce) # rest) ready =
     (case get_nonce env prin of
        Inl e \<Rightarrow> True
      | Inr current \<Rightarrow>
          if nonce < current then True
          else if nonce = current then selectable env rest ready
          else selectable env rest False)"

fun take_first :: "('a \<Rightarrow> bool) \<Rightarrow> 'a list \<Rightarrow> 'a option \<times> 'a list" where
  "take_first P [] = (None, [])"
| "take_first P (x # xs) =
     (if P x then (Some x, xs) else case take_first P xs of (r, rest) \<Rightarrow> (r, x # rest))"

definition next_mempool_transaction ::
  "simnet_env \<Rightarrow> pending_transaction list \<Rightarrow> signed_transaction option \<times> pending_transaction list" where
  "next_mempool_transaction env transactions =
     (case take_first (\<lambda>pending. selectable env (tx_nonces (pt_tx pending)) True) transactions of
        (r, rest) \<Rightarrow> (map_option pt_tx r, rest))"

end
