(* ===== verification/Mempool_Correct.thy ===== *)
theory Mempool_Correct
  imports Mempool
begin

text \<open>
  What the mempool guarantees. A set of transactions is \<open>schedulable\<close> when its executable members
  can be ranked so that every account sees its nonces in ascending order; this does not mention
  indices, maps or the order of a \<^verbatim>\<open>HashMap\<close>. \<^verbatim>\<open>check_nonce_dependencies\<close> decides it, every reachable
  mempool is schedulable, and a schedulable mempool can always hand out a transaction unless an
  account waits for a nonce that nobody has submitted.
\<close>

section \<open>Specification\<close>

text \<open>A transaction is executable now or later: none of its nonces has been used.\<close>

definition executable :: "simnet_env \<Rightarrow> signed_transaction \<Rightarrow> bool" where
  "executable env tx =
     list_all (\<lambda>(p, n). case env_nonce env p of Inr c \<Rightarrow> c \<le> n | Inl _ \<Rightarrow> False) (tx_nonces tx)"

definition schedulable :: "simnet_env \<Rightarrow> signed_transaction set \<Rightarrow> bool" where
  "schedulable env T \<longleftrightarrow>
     (\<exists>rank :: signed_transaction \<Rightarrow> nat. \<forall>t t' p n n'.
        t \<in> T \<longrightarrow> t' \<in> T \<longrightarrow> executable env t \<longrightarrow> executable env t' \<longrightarrow>
        (p, n) \<in> set (tx_nonces t) \<longrightarrow> (p, n') \<in> set (tx_nonces t') \<longrightarrow> n < n' \<longrightarrow> rank t < rank t')"

definition unique_nonces :: "signed_transaction list \<Rightarrow> bool" where
  "unique_nonces L \<longleftrightarrow>
     (\<forall>i < length L. \<forall>j < length L. i \<noteq> j \<longrightarrow> set (tx_nonces (L ! i)) \<inter> set (tx_nonces (L ! j)) = {})"

definition fair_order :: "simnet_env \<Rightarrow> bool" where
  "fair_order env \<longleftrightarrow> (\<forall>m. set (env_hash_order env m) = set m)"

section \<open>Reservations\<close>

lemma ok_bind_Inr_iff: "ok_bind r f = Inr y \<longleftrightarrow> (\<exists>x. r = Inr x \<and> f x = Inr y)"
  by (cases r) (simp_all add: ok_bind_def)

lemma on_error_Inr_iff: "on_error f r = Inr x \<longleftrightarrow> r = Inr x"
  by (cases r) (simp_all add: on_error_def)

lemma ok_bind_simps [simp]: "ok_bind (Inr x) f = f x" "ok_bind (Inl e) f = Inl e"
  by (simp_all add: ok_bind_def)

definition cache_ok :: "simnet_env \<Rightarrow> (string, u64) hash_map \<Rightarrow> bool" where
  "cache_ok env cache \<longleftrightarrow> (\<forall>p c. hm_get cache p = Some c \<longrightarrow> env_nonce env p = Inr c)"

lemma stale_nonces_Inr:
  assumes "stale_nonces env ns cache = Inr (stale, cache')" "cache_ok env cache"
  shows "cache_ok env cache' \<and>
     (stale \<longleftrightarrow> \<not> list_all (\<lambda>(p, n). case env_nonce env p of Inr c \<Rightarrow> c \<le> n | Inl _ \<Rightarrow> False) ns)"
  using assms
proof (induction env ns cache rule: stale_nonces.induct)
  case (2 env p n rest cache)
  from 2(2) obtain c cache1 where
    c: "(case hm_get cache p of Some current \<Rightarrow> Inr (current, cache)
          | None \<Rightarrow> ok_bind (on_error database_error (env_nonce env p)) (\<lambda>current. Inr (current, hm_insert p current cache)))
        = Inr (c, cache1)" and
    r: "(if n < c then Inr (True, cache1) else stale_nonces env rest cache1) = Inr (stale, cache')"
    by (auto simp: ok_bind_Inr_iff)
  from c 2(3) have "env_nonce env p = Inr c \<and> cache_ok env cache1"
    by (auto simp: cache_ok_def ok_bind_Inr_iff on_error_Inr_iff split: option.splits if_splits)
  with r 2(1) [of c cache1] show ?case by (auto simp: not_le split: if_splits)
qed auto

definition reserved_at :: "reservations \<Rightarrow> string \<Rightarrow> u64 \<Rightarrow> nat option" where
  "reserved_at m p n = (case hm_get m p of Some account \<Rightarrow> bt_get account n | None \<Rightarrow> None)"

definition reservations_wf :: "reservations \<Rightarrow> bool" where
  "reservations_wf m \<longleftrightarrow> distinct (map fst m) \<and> (\<forall>p account. hm_get m p = Some account \<longrightarrow> bt_wf account)"

lemma reserve_at:
  "reserved_at (reserve i m (p, n)) p' n' = (if p' = p \<and> n' = n then Some i else reserved_at m p' n')"
  by (auto simp: reserve_def reserved_at_def bt_get_insert split: option.split)

lemma reserve_wf: "reservations_wf m \<Longrightarrow> reservations_wf (reserve i m pn)"
  by (cases pn) (auto simp: reservations_wf_def reserve_def distinct_update bt_wf_insert split: option.split)

lemma foldl_reserve_at:
  "reserved_at (foldl (reserve i) m ns) p n = (if (p, n) \<in> set ns then Some i else reserved_at m p n)"
proof (induction ns arbitrary: m)
  case (Cons pn ns)
  obtain q k where "pn = (q, k)" by (cases pn)
  with Cons.IH [of "reserve i m pn"] show ?case by (auto simp: reserve_at)
qed simp

lemma foldl_reserve_wf: "reservations_wf m \<Longrightarrow> reservations_wf (foldl (reserve i) m ns)"
  by (induction ns arbitrary: m) (simp_all add: reserve_wf)

lemma collect_reservations_Inr:
  assumes "collect_reservations env L k cache m = Inr m'" "cache_ok env cache" "reservations_wf m"
  shows "reservations_wf m'"
    and "reserved_at m' p n = Some i \<Longrightarrow>
       reserved_at m p n = Some i \<or> k \<le> i \<and> i < k + length L \<and> executable env (L ! (i - k)) \<and> (p, n) \<in> set (tx_nonces (L ! (i - k)))"
    and "j < length L \<Longrightarrow> executable env (L ! j) \<Longrightarrow> (p, n) \<in> set (tx_nonces (L ! j)) \<Longrightarrow> reserved_at m' p n \<noteq> None"
    and "reserved_at m p n \<noteq> None \<Longrightarrow> reserved_at m' p n \<noteq> None"
proof -
  have "reservations_wf m' \<and>
      (\<forall>p n i. reserved_at m' p n = Some i \<longrightarrow>
         reserved_at m p n = Some i \<or> k \<le> i \<and> i < k + length L \<and> executable env (L ! (i - k)) \<and> (p, n) \<in> set (tx_nonces (L ! (i - k)))) \<and>
      (\<forall>j p n. j < length L \<longrightarrow> executable env (L ! j) \<longrightarrow> (p, n) \<in> set (tx_nonces (L ! j)) \<longrightarrow> reserved_at m' p n \<noteq> None) \<and>
      (\<forall>p n. reserved_at m p n \<noteq> None \<longrightarrow> reserved_at m' p n \<noteq> None)"
    using assms
  proof (induction L arbitrary: k cache m)
    case (Cons tx L)
    from Cons.prems(1) obtain stale cache1 where
      s: "stale_nonces env (tx_nonces tx) cache = Inr (stale, cache1)" and
      c: "collect_reservations env L (k + 1) cache1 (if stale then m else foldl (reserve k) m (tx_nonces tx)) = Inr m'"
      by (auto simp: ok_bind_Inr_iff)
    let ?m = "if stale then m else foldl (reserve k) m (tx_nonces tx)"
    from stale_nonces_Inr [OF s Cons.prems(2)] have ok: "cache_ok env cache1" and st: "stale \<longleftrightarrow> \<not> executable env tx"
      by (auto simp: executable_def)
    have wf: "reservations_wf ?m" using Cons.prems(3) by (simp add: foldl_reserve_wf)
    note IH = Cons.IH [OF c ok wf]
    have at: "reserved_at ?m p n =
        (if executable env tx \<and> (p, n) \<in> set (tx_nonces tx) then Some k else reserved_at m p n)" for p n
      using st by (simp add: foldl_reserve_at)
    have old: "reserved_at m p n = Some i \<or> k \<le> i \<and> i < k + length (tx # L) \<and> executable env ((tx # L) ! (i - k)) \<and>
        (p, n) \<in> set (tx_nonces ((tx # L) ! (i - k)))" if r: "reserved_at m' p n = Some i" for p n i
    proof -
      from IH r consider "reserved_at ?m p n = Some i"
        | "k + 1 \<le> i" "i < k + 1 + length L" "executable env (L ! (i - (k + 1)))" "(p, n) \<in> set (tx_nonces (L ! (i - (k + 1))))"
        by blast
      then show ?thesis
      proof cases
        case 1
        then show ?thesis by (auto simp: at split: if_splits)
      next
        case 2
        then have "(tx # L) ! (i - k) = L ! (i - (k + 1))" by (simp add: nth_Cons' )
        with 2 show ?thesis by simp
      qed
    qed
    have new: "reserved_at m' p n \<noteq> None"
      if "j < length (tx # L)" "executable env ((tx # L) ! j)" "(p, n) \<in> set (tx_nonces ((tx # L) ! j))" for j p n
    proof (cases j)
      case 0
      with that at have "reserved_at ?m p n \<noteq> None" by simp
      with IH show ?thesis by blast
    next
      case (Suc l)
      with that IH show ?thesis by simp
    qed
    have "reserved_at m' p n \<noteq> None" if "reserved_at m p n \<noteq> None" for p n
    proof -
      from that at have "reserved_at ?m p n \<noteq> None" by simp
      with IH show ?thesis by blast
    qed
    with IH old new show ?case by blast
  qed simp
  then show "reservations_wf m'"
    and "reserved_at m' p n = Some i \<Longrightarrow>
       reserved_at m p n = Some i \<or> k \<le> i \<and> i < k + length L \<and> executable env (L ! (i - k)) \<and> (p, n) \<in> set (tx_nonces (L ! (i - k)))"
    and "j < length L \<Longrightarrow> executable env (L ! j) \<Longrightarrow> (p, n) \<in> set (tx_nonces (L ! j)) \<Longrightarrow> reserved_at m' p n \<noteq> None"
    and "reserved_at m p n \<noteq> None \<Longrightarrow> reserved_at m' p n \<noteq> None"
    by blast+
qed

text \<open>The collected reservations of transactions that share no nonce.\<close>

lemma collected:
  assumes "collect_reservations env L 0 [] [] = Inr m" "unique_nonces L"
  shows "reservations_wf m" and "reserved_at m p n = Some i \<longleftrightarrow>
     i < length L \<and> executable env (L ! i) \<and> (p, n) \<in> set (tx_nonces (L ! i))"
proof -
  have start: "cache_ok env []" "reservations_wf []" by (simp_all add: cache_ok_def reservations_wf_def)
  note c = collect_reservations_Inr [OF assms(1) start]
  show "reservations_wf m" by (rule c(1))
  have none: "reserved_at [] p n = None" by (simp add: reserved_at_def)
  show "reserved_at m p n = Some i \<longleftrightarrow> i < length L \<and> executable env (L ! i) \<and> (p, n) \<in> set (tx_nonces (L ! i))"
  proof
    assume "reserved_at m p n = Some i"
    from c(2) [OF this] none show "i < length L \<and> executable env (L ! i) \<and> (p, n) \<in> set (tx_nonces (L ! i))" by auto
  next
    assume i: "i < length L \<and> executable env (L ! i) \<and> (p, n) \<in> set (tx_nonces (L ! i))"
    with c(3) obtain j where j: "reserved_at m p n = Some j" by blast
    with c(2) [OF j] none have "j < length L" "(p, n) \<in> set (tx_nonces (L ! j))" by auto
    with i assms(2) have "j = i" by (auto simp: unique_nonces_def)
    with j show "reserved_at m p n = Some i" by simp
  qed
qed

section \<open>Rankings\<close>

lemma sorted_wrt_adjacent:
  fixes f :: "'a \<Rightarrow> nat"
  shows "(\<forall>(u, v) \<in> set (zip xs (tl xs)). f u < f v) \<longleftrightarrow> sorted_wrt (<) (map f xs)"
proof (induction xs)
  case (Cons x xs)
  show ?case
  proof (cases xs)
    case (Cons y ys)
    with Cons.IH show ?thesis by (auto intro: less_trans [of "f x" "f y"])
  qed simp
qed simp

lemma account_ranked:
  fixes f :: "nat \<Rightarrow> nat"
  assumes "bt_wf account"
  shows "sorted_wrt (<) (map f (map snd account)) \<longleftrightarrow>
     (\<forall>n i n' j. bt_get account n = Some i \<longrightarrow> bt_get account n' = Some j \<longrightarrow> n < n' \<longrightarrow> f i < f j)"
proof -
  have "sorted_wrt (<) (map f (map snd account)) \<longleftrightarrow>
      (\<forall>(n, i) \<in> set account. \<forall>(n', j) \<in> set account. n < n' \<longrightarrow> f i < f j)"
    using assms
  proof (induction account)
    case (Cons e account)
    obtain k l where e: "e = (k, l)" by (cases e)
    from Cons.prems have wf: "bt_wf account" and k: "\<forall>(n, i) \<in> set account. k < n"
      by (auto simp: e bt_wf_Cons)
    from k have k': "\<forall>(n, i) \<in> set account. \<not> n < k" by auto
    show ?case unfolding e using Cons.IH [OF wf] k k' by auto
  qed simp
  then show ?thesis using bt_get_in_set [OF assms] by auto
qed

lemma edges_ranked:
  fixes f :: "nat \<Rightarrow> nat"
  shows "(\<forall>(u, v) \<in> set (edges accounts). f u < f v) \<longleftrightarrow> (\<forall>xs \<in> set accounts. sorted_wrt (<) (map f xs))"
  by (simp add: edges_def flip: sorted_wrt_adjacent)

lemma reservations_ranked:
  fixes f :: "nat \<Rightarrow> nat"
  assumes "reservations_wf m" "fair_order env"
  shows "(\<forall>(u, v) \<in> set (edges (map (\<lambda>account. map snd (snd account)) (env_hash_order env m))). f u < f v) \<longleftrightarrow>
     (\<forall>p n i n' j. reserved_at m p n = Some i \<longrightarrow> reserved_at m p n' = Some j \<longrightarrow> n < n' \<longrightarrow> f i < f j)"
proof -
  from assms have dist: "distinct (map fst m)" and wf: "\<And>p a. (p, a) \<in> set m \<Longrightarrow> bt_wf a"
    by (auto simp: reservations_wf_def)
  have "(\<forall>(u, v) \<in> set (edges (map (\<lambda>account. map snd (snd account)) (env_hash_order env m))). f u < f v) \<longleftrightarrow>
      (\<forall>(p, a) \<in> set m. sorted_wrt (<) (map f (map snd a)))"
    using assms(2) by (auto simp: edges_ranked fair_order_def)
  also have "\<dots> \<longleftrightarrow> (\<forall>(p, a) \<in> set m. \<forall>n i n' j. bt_get a n = Some i \<longrightarrow> bt_get a n' = Some j \<longrightarrow> n < n' \<longrightarrow> f i < f j)"
    using account_ranked [OF wf] by (auto simp: split_beta)
  also have "\<dots> \<longleftrightarrow> (\<forall>p n i n' j. reserved_at m p n = Some i \<longrightarrow> reserved_at m p n' = Some j \<longrightarrow> n < n' \<longrightarrow> f i < f j)"
    using dist by (auto simp: reserved_at_def split: option.splits)
  finally show ?thesis .
qed

lemma reserved_bound:
  assumes "collect_reservations env L 0 [] [] = Inr m" "unique_nonces L" "fair_order env"
  shows "\<forall>xs \<in> set (map (\<lambda>account. map snd (snd account)) (env_hash_order env m)). set xs \<subseteq> {..<length L}"
proof -
  note c = collected [OF assms(1,2)]
  have "i < length L" if "(p, a) \<in> set m" "(n, i) \<in> set a" for p a n i
  proof -
    from c(1) that have "hm_get m p = Some a" "bt_wf a" by (auto simp: reservations_wf_def)
    with that have "reserved_at m p n = Some i" by (simp add: reserved_at_def bt_get_in_set)
    with c(2) show ?thesis by blast
  qed
  with assms(3) show ?thesis by (fastforce simp: fair_order_def)
qed

text \<open>Ranking indices is ranking transactions.\<close>

lemma schedulableI:
  fixes rank :: "signed_transaction \<Rightarrow> nat"
  assumes "\<And>t t' p n n'. t \<in> T \<Longrightarrow> t' \<in> T \<Longrightarrow> executable env t \<Longrightarrow> executable env t' \<Longrightarrow>
     (p, n) \<in> set (tx_nonces t) \<Longrightarrow> (p, n') \<in> set (tx_nonces t') \<Longrightarrow> n < n' \<Longrightarrow> rank t < rank t'"
  shows "schedulable env T"
  unfolding schedulable_def using assms by (intro exI [of _ rank]) blast

lemma schedulableE:
  assumes "schedulable env T"
  obtains rank :: "signed_transaction \<Rightarrow> nat" where
    "\<And>t t' p n n'. t \<in> T \<Longrightarrow> t' \<in> T \<Longrightarrow> executable env t \<Longrightarrow> executable env t' \<Longrightarrow>
       (p, n) \<in> set (tx_nonces t) \<Longrightarrow> (p, n') \<in> set (tx_nonces t') \<Longrightarrow> n < n' \<Longrightarrow> rank t < rank t'"
proof -
  from assms obtain rank :: "signed_transaction \<Rightarrow> nat" where
    "\<forall>t t' p n n'. t \<in> T \<longrightarrow> t' \<in> T \<longrightarrow> executable env t \<longrightarrow> executable env t' \<longrightarrow>
       (p, n) \<in> set (tx_nonces t) \<longrightarrow> (p, n') \<in> set (tx_nonces t') \<longrightarrow> n < n' \<longrightarrow> rank t < rank t'"
    unfolding schedulable_def ..
  then show thesis by (intro that [of rank]) blast
qed

definition holds_at :: "simnet_env \<Rightarrow> signed_transaction list \<Rightarrow> nat \<Rightarrow> string \<Rightarrow> u64 \<Rightarrow> bool" where
  "holds_at env L i p n \<longleftrightarrow> i < length L \<and> executable env (L ! i) \<and> (p, n) \<in> set (tx_nonces (L ! i))"

lemma rank_transactions:
  "(\<exists>f :: nat \<Rightarrow> nat. \<forall>p n i n' j. holds_at env L i p n \<longrightarrow> holds_at env L j p n' \<longrightarrow> n < n' \<longrightarrow> f i < f j) \<longleftrightarrow>
     schedulable env (set L)"
proof
  assume "schedulable env (set L)"
  then obtain rank :: "signed_transaction \<Rightarrow> nat" where
    rank: "\<And>t t' p n n'. t \<in> set L \<Longrightarrow> t' \<in> set L \<Longrightarrow> executable env t \<Longrightarrow> executable env t' \<Longrightarrow>
       (p, n) \<in> set (tx_nonces t) \<Longrightarrow> (p, n') \<in> set (tx_nonces t') \<Longrightarrow> n < n' \<Longrightarrow> rank t < rank t'"
    by (rule schedulableE) blast
  have "rank (L ! i) < rank (L ! j)" if "holds_at env L i p n" "holds_at env L j p n'" "n < n'" for p n i n' j
    using that by (intro rank [of "L ! i" "L ! j" p n n']) (auto simp: holds_at_def)
  then show "\<exists>f :: nat \<Rightarrow> nat. \<forall>p n i n' j. holds_at env L i p n \<longrightarrow> holds_at env L j p n' \<longrightarrow> n < n' \<longrightarrow> f i < f j"
    by (intro exI [of _ "\<lambda>i. rank (L ! i)"]) blast
next
  assume "\<exists>f :: nat \<Rightarrow> nat. \<forall>p n i n' j. holds_at env L i p n \<longrightarrow> holds_at env L j p n' \<longrightarrow> n < n' \<longrightarrow> f i < f j"
  then obtain f :: "nat \<Rightarrow> nat" where
    f: "\<And>p n i n' j. holds_at env L i p n \<Longrightarrow> holds_at env L j p n' \<Longrightarrow> n < n' \<Longrightarrow> f i < f j" by blast
  define at where "at t = (LEAST i. i < length L \<and> L ! i = t)" for t
  have at: "at t < length L \<and> L ! at t = t" if "t \<in> set L" for t
  proof -
    from that obtain i where "i < length L \<and> L ! i = t" by (auto simp: in_set_conv_nth)
    then show ?thesis unfolding at_def by (rule LeastI)
  qed
  show "schedulable env (set L)"
  proof (rule schedulableI [of _ _ "\<lambda>t. f (at t)"])
    fix t t' p n n'
    assume a: "t \<in> set L" "t' \<in> set L" "executable env t" "executable env t'"
      "(p, n) \<in> set (tx_nonces t)" "(p, n') \<in> set (tx_nonces t')" "n < n'"
    with at [OF a(1)] at [OF a(2)] have "holds_at env L (at t) p n" "holds_at env L (at t') p n'"
      by (simp_all add: holds_at_def)
    from f [OF this a(7)] show "f (at t) < f (at t')" .
  qed
qed

text \<open>
  The reservations can be read when every account has a nonce; then the check decides
  schedulability, without panicking.
\<close>

lemma check_nonce_dependencies_Inr:
  assumes "unique_nonces (map pt_tx pending @ [tx])" "fair_order env" "pending \<noteq> []"
  shows "\<exists>r. check_nonce_dependencies env pending tx = Done r \<and>
     (r = Inr () \<longleftrightarrow> (\<exists>m. collect_reservations env (map pt_tx pending @ [tx]) 0 [] [] = Inr m) \<and>
        schedulable env (set (map pt_tx pending @ [tx])))"
proof (cases "collect_reservations env (map pt_tx pending @ [tx]) 0 [] []")
  case (Inl e)
  with assms(3) show ?thesis by (simp add: check_nonce_dependencies_def Let_def)
next
  case (Inr m)
  let ?L = "map pt_tx pending @ [tx]"
  let ?accounts = "map (\<lambda>account. map snd (snd account)) (env_hash_order env m)"
  note c = collected [OF Inr assms(1)]
  from count_schedulable_iff [OF reserved_bound [OF Inr assms(1,2)]] obtain k where
    k: "count_schedulable (length ?L) ?accounts = Done k"
      "k = length ?L \<longleftrightarrow> (\<exists>f :: nat \<Rightarrow> nat. \<forall>(u, v) \<in> set (edges ?accounts). f u < f v)" by blast
  have "k = length ?L \<longleftrightarrow> schedulable env (set ?L)"
    unfolding k(2) reservations_ranked [OF c(1) assms(2)] c(2) rank_transactions [symmetric] holds_at_def ..
  with k(1) Inr assms(3) show ?thesis by (auto simp: check_nonce_dependencies_def Let_def)
qed

section \<open>The invariant of the queue\<close>

definition mempool_inv :: "simnet_env \<Rightarrow> pending_transaction list \<Rightarrow> bool" where
  "mempool_inv env P \<longleftrightarrow>
     list_all (\<lambda>x. pt_txid x = sx_txid (pt_tx x)) P \<and> distinct (map pt_txid P) \<and>
     unique_nonces (map pt_tx P) \<and> schedulable env (pt_tx ` set P)"

lemma reserves_iff: "reserves tx p n \<longleftrightarrow> (p, n) \<in> set (tx_nonces tx)"
  by (auto simp: reserves_def tx_nonces_def split: option.split)

lemma check_account_nonces_Inr:
  assumes "check_account_nonces env pending accounts = Inr ()" "(p, n, b) \<in> set accounts" "x \<in> set pending"
  shows "\<not> reserves (pt_tx x) p n"
  using assms
  by (induction accounts)
    (auto simp: ok_bind_Inr_iff check_account_nonce_def Let_def list_ex_iff split: if_splits)

lemma unique_nonces_snoc:
  assumes "unique_nonces L" "\<forall>t \<in> set L. set (tx_nonces t) \<inter> set (tx_nonces tx) = {}"
  shows "unique_nonces (L @ [tx])"
proof -
  have d: "set (tx_nonces (L ! i)) \<inter> set (tx_nonces tx) = {}" if "i < length L" for i
    using assms(2) that by simp
  show ?thesis
    unfolding unique_nonces_def
  proof (intro allI impI)
    fix i j
    assume "i < length (L @ [tx])" "j < length (L @ [tx])" "i \<noteq> j"
    then consider "i < length L" "j < length L" | "i < length L" "j = length L" | "i = length L" "j < length L"
      by (auto simp: less_Suc_eq)
    then show "set (tx_nonces ((L @ [tx]) ! i)) \<inter> set (tx_nonces ((L @ [tx]) ! j)) = {}"
      using assms(1) d \<open>i \<noteq> j\<close> by cases (auto simp: nth_append unique_nonces_def)
  qed
qed

lemma check_mempool_admission_cases:
  assumes "unique_nonces (map pt_tx P)" "fair_order env"
  shows "\<exists>r. check_mempool_admission env tx P = Done r \<and>
     (r = Inr () \<longrightarrow> unique_nonces (map pt_tx P @ [tx]) \<and>
        (if P = [] then schedulable env {tx} else schedulable env (set (map pt_tx P @ [tx]))))"
proof (cases "ok_bind (check_statically env tx) (\<lambda>_. check_account_nonces env P (admission_accounts tx))")
  case (Inl e)
  then show ?thesis by (simp add: check_mempool_admission_def)
next
  case (Inr u)
  then have st: "check_statically env tx = Inr ()" and
    acc: "check_account_nonces env P (admission_accounts tx) = Inr ()"
    by (auto simp: ok_bind_Inr_iff)
  have free: "\<not> reserves (pt_tx x) p n" if x: "x \<in> set P" and pn: "(p, n) \<in> set (tx_nonces tx)" for x p n
  proof -
    from pn obtain b where "(p, n, b) \<in> set (admission_accounts tx)"
      by (auto simp: tx_nonces_def admission_accounts_def split: option.splits)
    from check_account_nonces_Inr [OF acc this x] show ?thesis .
  qed
  have uniq: "unique_nonces (map pt_tx P @ [tx])"
    using free by (intro unique_nonces_snoc [OF assms(1)]) (auto simp: reserves_iff)
  show ?thesis
  proof (cases "P = []")
    case True
    have "schedulable env {tx}"
      using st by (intro schedulableI [of _ _ "\<lambda>_. 0"])
        (auto simp: check_statically_def ok_bind_Inr_iff tx_nonces_def split: option.splits if_splits)
    with True uniq Inr show ?thesis by (auto simp: check_mempool_admission_def check_nonce_dependencies_def)
  next
    case False
    from check_nonce_dependencies_Inr [OF uniq assms(2) False] obtain r where
      "check_nonce_dependencies env P tx = Done r" "r = Inr () \<longrightarrow> schedulable env (set (map pt_tx P @ [tx]))" by blast
    with False uniq Inr show ?thesis by (auto simp: check_mempool_admission_def ok_bind_Inr_iff)
  qed
qed

lemma submit_transaction_inv:
  assumes "mempool_inv env P" "fair_order env"
  shows "\<exists>r P'. submit_transaction env raw P = Done (r, P') \<and> mempool_inv env P'"
proof (cases "decode env raw")
  case (Inl e)
  with assms(1) show ?thesis by (simp add: submit_transaction_def)
next
  case (Inr tx)
  show ?thesis
  proof (cases "list_ex (\<lambda>pending. pt_txid pending = sx_txid tx) P")
    case True
    with Inr assms(1) show ?thesis by (simp add: submit_transaction_def)
  next
    case False
    from assms have "unique_nonces (map pt_tx P)" by (simp add: mempool_inv_def)
    from check_mempool_admission_cases [OF this assms(2), of tx] obtain r where
      r: "check_mempool_admission env tx P = Done r" "r = Inr () \<longrightarrow> unique_nonces (map pt_tx P @ [tx]) \<and>
        (if P = [] then schedulable env {tx} else schedulable env (set (map pt_tx P @ [tx])))" by blast
    have "mempool_inv env (P @ [\<lparr>pt_txid = sx_txid tx, pt_tx = tx\<rparr>])" if "r = Inr ()"
      using that r(2) assms(1) False
      by (auto simp: mempool_inv_def list_ex_iff insert_commute split: if_splits)
    with r(1) Inr False assms(1) show ?thesis
      by (cases r) (auto simp: submit_transaction_def Let_def)
  qed
qed

section \<open>Selection\<close>

lemma take_first_spec:
  "(case take_first Q xs of
      (None, rest) \<Rightarrow> rest = xs \<and> (\<forall>x \<in> set xs. \<not> Q x)
    | (Some x, rest) \<Rightarrow> \<exists>ys zs. xs = ys @ x # zs \<and> rest = ys @ zs \<and> Q x \<and> (\<forall>y \<in> set ys. \<not> Q y))"
proof (induction xs)
  case (Cons a xs)
  show ?case
  proof (cases "Q a")
    case True
    then show ?thesis by (auto intro: exI [of _ "[]"])
  next
    case False
    obtain r rest where t: "take_first Q xs = (r, rest)" by (cases "take_first Q xs")
    show ?thesis
    proof (cases r)
      case (Some x)
      with Cons.IH t obtain ys zs where "xs = ys @ x # zs" "rest = ys @ zs" "Q x" "\<forall>y \<in> set ys. \<not> Q y" by auto
      with Some False t show ?thesis by simp (intro exI [of _ "a # ys"] exI [of _ zs]; simp)
    qed (use Cons.IH t False in auto)
  qed
qed simp

lemma unique_nonces_remove:
  assumes "unique_nonces (xs @ y # zs)"
  shows "unique_nonces (xs @ zs)"
proof -
  have "set (tx_nonces ((xs @ zs) ! i)) \<inter> set (tx_nonces ((xs @ zs) ! j)) = {}"
    if "i < length (xs @ zs)" "j < length (xs @ zs)" "i \<noteq> j" for i j
  proof -
    let ?k = "\<lambda>i. if i < length xs then i else i + 1"
    have "(xs @ zs) ! i = (xs @ y # zs) ! ?k i" for i by (auto simp: nth_append)
    moreover have "?k i < length (xs @ y # zs)" "?k j < length (xs @ y # zs)" "?k i \<noteq> ?k j" using that by auto
    ultimately show ?thesis using assms by (simp add: unique_nonces_def)
  qed
  then show ?thesis by (simp add: unique_nonces_def)
qed

lemma schedulable_mono:
  assumes "schedulable env T" "T' \<subseteq> T" "\<And>t. t \<in> T' \<Longrightarrow> executable env' t \<Longrightarrow> executable env t"
  shows "schedulable env' T'"
  using assms(1)
proof (rule schedulableE)
  fix rank :: "signed_transaction \<Rightarrow> nat"
  assume r: "\<And>t t' p n n'. t \<in> T \<Longrightarrow> t' \<in> T \<Longrightarrow> executable env t \<Longrightarrow> executable env t' \<Longrightarrow>
       (p, n) \<in> set (tx_nonces t) \<Longrightarrow> (p, n') \<in> set (tx_nonces t') \<Longrightarrow> n < n' \<Longrightarrow> rank t < rank t'"
  show ?thesis by (rule schedulableI [of _ _ rank], rule r) (use assms(2,3) in auto)
qed

lemma next_mempool_transaction_inv:
  assumes "mempool_inv env P" "next_mempool_transaction env P = (r, P')"
  shows "mempool_inv env P'"
proof -
  let ?Q = "\<lambda>pending. selectable env (tx_nonces (pt_tx pending)) True"
  obtain x where t: "take_first ?Q P = (x, P')" using assms(2)
    by (cases "take_first ?Q P") (auto simp: next_mempool_transaction_def)
  show ?thesis
  proof (cases x)
    case None
    with take_first_spec [where Q = ?Q and xs = P] t assms(1) show ?thesis by simp
  next
    case (Some y)
    with take_first_spec [where Q = ?Q and xs = P] t obtain ys zs where P: "P = ys @ y # zs" "P' = ys @ zs" by auto
    have "schedulable env (pt_tx ` set P')"
      by (rule schedulable_mono [of env "pt_tx ` set P"]) (use assms(1) in \<open>auto simp: mempool_inv_def P\<close>)
    moreover have "unique_nonces (map pt_tx P')"
      using assms(1) unique_nonces_remove [of "map pt_tx ys" "pt_tx y" "map pt_tx zs"] by (simp add: mempool_inv_def P)
    ultimately show ?thesis using assms(1) by (auto simp: mempool_inv_def P)
  qed
qed

section \<open>Reachable mempools\<close>

text \<open>Mining never gives an account a smaller nonce.\<close>

definition nonces_advance :: "simnet_env \<Rightarrow> simnet_env \<Rightarrow> bool" where
  "nonces_advance env env' \<longleftrightarrow>
     (\<forall>p. case (env_nonce env p, env_nonce env' p) of (Inr a, Inr b) \<Rightarrow> a \<le> b | _ \<Rightarrow> False)"

inductive mempool_reachable :: "simnet_env \<Rightarrow> pending_transaction list \<Rightarrow> bool" where
  empty: "fair_order env \<Longrightarrow> mempool_reachable env []"
| submit: "mempool_reachable env P \<Longrightarrow> submit_transaction env raw P = Done (r, P') \<Longrightarrow> mempool_reachable env P'"
| select: "mempool_reachable env P \<Longrightarrow> next_mempool_transaction env P = (tx, P') \<Longrightarrow> mempool_reachable env P'"
| advance: "mempool_reachable env P \<Longrightarrow> fair_order env' \<Longrightarrow> nonces_advance env env' \<Longrightarrow> mempool_reachable env' P"

lemma executable_advance:
  assumes "nonces_advance env env'" "executable env' t"
  shows "executable env t"
proof -
  have "case env_nonce env p of Inr c \<Rightarrow> c \<le> n | Inl _ \<Rightarrow> False" if pn: "(p, n) \<in> set (tx_nonces t)" for p n
  proof -
    from assms(1) have a: "case (env_nonce env p, env_nonce env' p) of (Inr a, Inr b) \<Rightarrow> a \<le> b | _ \<Rightarrow> False"
      unfolding nonces_advance_def by blast
    from assms(2) pn have "case env_nonce env' p of Inr c \<Rightarrow> c \<le> n | Inl _ \<Rightarrow> False"
      by (auto simp: executable_def list_all_iff)
    with a show ?thesis by (auto split: sum.splits)
  qed
  then show ?thesis by (auto simp: executable_def list_all_iff)
qed

lemma mempool_reachable_inv:
  "mempool_reachable env P \<Longrightarrow> fair_order env \<and> mempool_inv env P"
proof (induction rule: mempool_reachable.induct)
  case (empty env)
  then show ?case by (simp add: mempool_inv_def unique_nonces_def schedulable_def)
next
  case (submit env P raw r P')
  with submit_transaction_inv [of env P raw] show ?case by auto
next
  case (select env P tx P')
  with next_mempool_transaction_inv [of env P tx P'] show ?case by blast
next
  case (advance env P env')
  have "schedulable env' (pt_tx ` set P)"
    using advance schedulable_mono [OF _ subset_refl executable_advance] by (auto simp: mempool_inv_def)
  with advance show ?case by (simp add: mempool_inv_def)
qed

text \<open>A transaction that is not selectable is executable and waits for a nonce.\<close>

lemma not_selectable:
  assumes "\<not> selectable env ns b"
  shows "list_all (\<lambda>(p, n). case env_nonce env p of Inr c \<Rightarrow> c \<le> n | Inl _ \<Rightarrow> False) ns \<and>
     (b \<longrightarrow> (\<exists>p n c. (p, n) \<in> set ns \<and> env_nonce env p = Inr c \<and> c < n))"
  using assms
proof (induction env ns b rule: selectable.induct)
  case (2 env p n rest b)
  from 2(3) obtain c where c: "get_nonce env p = Inr c" by (cases "get_nonce env p") auto
  then have e: "env_nonce env p = Inr c" by (auto simp: get_nonce_def ok_bind_Inr_iff on_error_Inr_iff)
  show ?case
  proof (cases "n = c")
    case True
    with 2(1) [OF c] 2(3) c e show ?thesis by auto
  next
    case False
    with 2(2) [OF c] 2(3) c e show ?thesis by (auto simp: not_less dest: le_neq_trans split: if_splits)
  qed
qed simp

lemma stuck_waits:
  assumes inv: "mempool_inv env P" and ne: "P \<noteq> []"
    and stuck: "\<And>x. x \<in> set P \<Longrightarrow> \<not> selectable env (tx_nonces (pt_tx x)) True"
  shows "\<exists>x \<in> set P. \<exists>p n c. (p, n) \<in> set (tx_nonces (pt_tx x)) \<and> env_nonce env p = Inr c \<and> c < n \<and>
     \<not> list_ex (\<lambda>y. reserves (pt_tx y) p c) P"
proof -
  let ?T = "pt_tx ` set P"
  have exe: "executable env t" and wait: "\<exists>p n c. (p, n) \<in> set (tx_nonces t) \<and> env_nonce env p = Inr c \<and> c < n"
    if "t \<in> ?T" for t
    using that not_selectable [OF stuck] by (auto simp: executable_def)
  from inv have "schedulable env ?T" by (simp add: mempool_inv_def)
  then obtain rank :: "signed_transaction \<Rightarrow> nat" where
    rank: "\<And>t t' p n n'. t \<in> ?T \<Longrightarrow> t' \<in> ?T \<Longrightarrow> executable env t \<Longrightarrow> executable env t' \<Longrightarrow>
       (p, n) \<in> set (tx_nonces t) \<Longrightarrow> (p, n') \<in> set (tx_nonces t') \<Longrightarrow> n < n' \<Longrightarrow> rank t < rank t'"
    by (rule schedulableE) blast
  from ne obtain t0 where "t0 \<in> ?T" by (cases P) auto
  then obtain t where t: "t \<in> ?T" "\<And>t'. t' \<in> ?T \<Longrightarrow> rank t \<le> rank t'"
    using ex_has_least_nat [of "\<lambda>t. t \<in> ?T" t0 rank] by blast
  from wait [OF t(1)] obtain p n c where w: "(p, n) \<in> set (tx_nonces t)" "env_nonce env p = Inr c" "c < n" by blast
  have "\<not> reserves t' p c" if t': "t' \<in> ?T" for t'
  proof
    assume "reserves t' p c"
    then have "rank t' < rank t"
      by (intro rank [OF t' t(1) exe [OF t'] exe [OF t(1)] _ w(1,3)]) (simp add: reserves_iff)
    with t(2) [OF t'] show False by simp
  qed
  then have "\<not> list_ex (\<lambda>y. reserves (pt_tx y) p c) P" by (simp add: list_ex_iff)
  moreover from t(1) obtain x where "x \<in> set P" "t = pt_tx x" by blast
  ultimately show ?thesis using w by blast
qed

lemma stale_nonces_total:
  "(\<And>p. \<exists>c. env_nonce env p = Inr c) \<Longrightarrow> \<exists>r. stale_nonces env ns cache = Inr r"
proof (induction env ns cache rule: stale_nonces.induct)
  case (2 env p n rest cache)
  obtain c where "env_nonce env p = Inr c" using 2(2) by blast
  with 2 show ?case by (cases "hm_get cache p") (auto simp: on_error_def)
qed auto

lemma collect_reservations_total:
  assumes "\<And>p. \<exists>c. env_nonce env p = Inr c"
  shows "\<exists>m'. collect_reservations env L k cache m = Inr m'"
proof (induction L arbitrary: k cache m)
  case (Cons tx L)
  from stale_nonces_total [OF assms] obtain s c where "stale_nonces env (tx_nonces tx) cache = Inr (s, c)" by fastforce
  with Cons.IH show ?case by simp
qed simp

lemma selectable_cases:
  "selectable env ns True \<Longrightarrow> list_all (\<lambda>(p, n). get_nonce env p = Inr n) ns \<or>
     list_ex (\<lambda>(p, n). case get_nonce env p of Inl _ \<Rightarrow> True | Inr c \<Rightarrow> n < c) ns"
  "selectable env ns False \<Longrightarrow> list_ex (\<lambda>(p, n). case get_nonce env p of Inl _ \<Rightarrow> True | Inr c \<Rightarrow> n < c) ns"
  by (induction ns) (auto split: sum.splits if_splits)

section \<open>A sample session\<close>

text \<open>Two transactions of one account, named by the letters \<open>a\<close> and \<open>b\<close>, with nonces 0 and 1.\<close>

definition sample_signed :: "u64 \<Rightarrow> signed_transaction" where
  "sample_signed n =
     \<lparr>sx_txid = (if n = 0 then ''t0'' else ''t1''), sx_origin = ''A'', sx_origin_nonce = n, sx_sponsor = None,
      sx_fee = 100, sx_len = 10, sx_chain_id = 1, sx_is_mainnet = False, sx_post_conditions = [],
      sx_payload = PSmartContract (if n = 0 then ''x'' else ''y'') None\<rparr>"

definition sample_env :: simnet_env where
  "sample_env =
     \<lparr>env_max_len = 100, env_hex_bytes = (\<lambda>s. Inr (map (\<lambda>c. if c = CHR ''a'' then 0 else 1) s)),
      env_deserialize = (\<lambda>bytes. case bytes of b # rest \<Rightarrow> Inr (sample_signed (if b = 0 then 0 else 1), rest) | [] \<Rightarrow> Inl ''short''),
      env_auth_supported = (\<lambda>_. True), env_allows_high_s = False, env_verify = (\<lambda>_ _. Inr ()),
      env_chain_id = 1, env_mainnet = False, env_post_conditions = (\<lambda>_. Inr ()), env_versioned_deploy = (\<lambda>_. Inr ()),
      env_address_versions = (\<lambda>_. []), env_connection = Inr (), env_nonce = (\<lambda>_. Inr 0), env_roll_back = Inr (),
      env_snapshot = (\<lambda>_. Inr \<lparr>snap_can_transfer = (\<lambda>_. Inr True), snap_available = Inr 1000\<rparr>),
      env_function_type = (\<lambda>_ _. Inr None), env_clarity_version = (\<lambda>_. Inr 1), env_check_args = (\<lambda>_ _ _. Inr ()),
      env_has_contract = (\<lambda>_. False), env_hash_order = (\<lambda>m. m)\<rparr>"

definition sample_pending :: "u64 \<Rightarrow> pending_transaction" where
  "sample_pending n = \<lparr>pt_txid = sx_txid (sample_signed n), pt_tx = sample_signed n\<rparr>"

lemmas admission_defs =
  submit_transaction_def decode_def strip_prefix_def on_error_def check_mempool_admission_def check_statically_def
  check_payload_kind_def check_raw_transaction_def check_address_version_def admission_accounts_def
  check_account_nonce_def check_funds_def require_funds_def check_contract_def

lemma sample_env_simps [simp]:
  "env_max_len sample_env = 100" "env_hex_bytes sample_env s = Inr (map (\<lambda>c. if c = CHR ''a'' then 0 else 1) s)"
  "env_deserialize sample_env [] = Inl ''short''"
  "env_deserialize sample_env (b # rest) = Inr (sample_signed (if b = 0 then 0 else 1), rest)"
  "env_auth_supported sample_env t" "env_verify sample_env v t = Inr ()" "env_chain_id sample_env = 1"
  "\<not> env_mainnet sample_env" "env_post_conditions sample_env t = Inr ()" "env_connection sample_env = Inr ()"
  "env_nonce sample_env p = Inr 0" "env_roll_back sample_env = Inr ()"
  "env_snapshot sample_env p = Inr \<lparr>snap_can_transfer = (\<lambda>_. Inr True), snap_available = Inr 1000\<rparr>"
  "\<not> env_has_contract sample_env c" "env_hash_order sample_env m = m"
  by (simp_all add: sample_env_def)

lemma sample_signed_simps [simp]:
  "sx_txid (sample_signed n) = (if n = 0 then ''t0'' else ''t1'')" "sx_origin (sample_signed n) = ''A''"
  "sx_origin_nonce (sample_signed n) = n" "sx_sponsor (sample_signed n) = None" "sx_fee (sample_signed n) = 100"
  "sx_len (sample_signed n) = 10" "sx_chain_id (sample_signed n) = 1" "\<not> sx_is_mainnet (sample_signed n)"
  "sx_payload (sample_signed n) = PSmartContract (if n = 0 then ''x'' else ''y'') None"
  "tx_nonces (sample_signed n) = [(''A'', n)]" "pt_txid (sample_pending n) = (if n = 0 then ''t0'' else ''t1'')"
  "pt_tx (sample_pending n) = sample_signed n" "reserves (sample_signed n) p k \<longleftrightarrow> p = ''A'' \<and> k = n"
  by (auto simp: sample_signed_def sample_pending_def tx_nonces_def reserves_def)

lemma sample_submit_1: "submit_transaction sample_env ''b'' [] = Done (AdmissionAccepted ''t1'', [sample_pending 1])"
  by (simp add: admission_defs check_nonce_dependencies_def Let_def sample_pending_def)

lemma sample_submit_2:
  "submit_transaction sample_env ''a'' [sample_pending 1] = Done (AdmissionAccepted ''t0'', [sample_pending 1, sample_pending 0])"
proof -
  have "check_nonce_dependencies sample_env [sample_pending 1] (sample_signed 0) = Done (Inr ())"
    by (simp add: check_nonce_dependencies_def reserve_def on_error_def Let_def count_schedulable_def
        initially_ready_def numeral_2_eq_2)
  then show ?thesis by (simp add: admission_defs Let_def)
qed

lemma sample_reachable: "mempool_reachable sample_env [sample_pending 1, sample_pending 0]"
proof -
  have "mempool_reachable sample_env []" by (rule mempool_reachable.empty) (simp add: fair_order_def)
  from mempool_reachable.submit [OF mempool_reachable.submit [OF this sample_submit_1] sample_submit_2] show ?thesis .
qed

section \<open>Properties\<close>

text \<open>
  C5. A mempool makes progress. In every mempool that submissions, selections and mining lead to, when no
  transaction waits for a nonce that is neither used nor queued, \<^verbatim>\<open>next_mempool_transaction\<close> hands out a
  transaction: the nonce dependencies among sponsors and origins never block each other.
\<close>

theorem mempool_progress:
  assumes "mempool_reachable env P" and "P \<noteq> []"
    and "list_all (\<lambda>x. list_all (\<lambda>(p, n). case env_nonce env p of
           Inl _ \<Rightarrow> True
         | Inr c \<Rightarrow> n \<le> c \<or> list_ex (\<lambda>y. reserves (pt_tx y) p c) P) (tx_nonces (pt_tx x))) P"
  shows "\<exists>tx P'. next_mempool_transaction env P = (Some tx, P') \<and> Suc (length P') = length P"
proof -
  let ?Q = "\<lambda>x. selectable env (tx_nonces (pt_tx x)) True"
  from assms(1) have inv: "mempool_inv env P" using mempool_reachable_inv by blast
  have "\<exists>x \<in> set P. ?Q x"
  proof (rule ccontr)
    assume "\<not> (\<exists>x \<in> set P. ?Q x)"
    then have "\<And>x. x \<in> set P \<Longrightarrow> \<not> ?Q x" by blast
    from stuck_waits [OF inv assms(2) this] obtain x p n c where
      w: "x \<in> set P" "(p, n) \<in> set (tx_nonces (pt_tx x))" "env_nonce env p = Inr c" "c < n"
        "\<not> list_ex (\<lambda>y. reserves (pt_tx y) p c) P" by blast
    with assms(3) show False by (fastforce simp: list_all_iff)
  qed
  with take_first_spec [where Q = ?Q and xs = P] show ?thesis
    by (auto simp: next_mempool_transaction_def split: prod.splits option.splits)
qed

theorem mempool_progress_witness:
  "\<exists>tx P'. next_mempool_transaction sample_env [sample_pending 1, sample_pending 0] = (Some tx, P') \<and> length P' = 1"
proof -
  have "list_all (\<lambda>x. list_all (\<lambda>(p, n). case env_nonce sample_env p of
           Inl _ \<Rightarrow> True
         | Inr c \<Rightarrow> n \<le> c \<or> list_ex (\<lambda>y. reserves (pt_tx y) p c) [sample_pending 1, sample_pending 0]) (tx_nonces (pt_tx x)))
       [sample_pending 1, sample_pending 0]"
    by simp
  from mempool_progress [OF sample_reachable _ this] show ?thesis by simp
qed

text \<open>
  C11. Every reachable mempool holds each transaction id once, no nonce of an account twice, and only
  transactions that can be ordered so that every account sees its nonces ascending; submitting
  a transaction to it returns.
\<close>

theorem mempool_invariant:
  assumes "mempool_reachable env P"
  shows "distinct (map pt_txid P) \<and> unique_nonces (map pt_tx P) \<and> schedulable env (set (map pt_tx P)) \<and>
     returns (submit_transaction env raw P)"
  using mempool_reachable_inv [OF assms] submit_transaction_inv [of env P raw]
  by (auto simp: mempool_inv_def returns_iff)

theorem mempool_invariant_witness:
  "distinct [''t1'', ''t0''] \<and> schedulable sample_env {sample_signed 1, sample_signed 0}"
  using mempool_invariant [OF sample_reachable] by (simp add: sample_pending_def)

text \<open>
  C12. \<^verbatim>\<open>check_nonce_dependencies\<close> decides schedulability: when the queue is not empty, its transactions and the
  candidate share no nonce and every account can be read, then for every iteration order of the hash
  map it accepts the candidate exactly when all can be ordered with ascending nonces, and
  otherwise reports a circular dependency.
\<close>

theorem nonce_dependencies_decide:
  assumes "\<And>p. \<exists>c. env_nonce env p = Inr c" and "fair_order env" and "pending \<noteq> []"
    and "unique_nonces (map pt_tx pending @ [tx])"
  shows "check_nonce_dependencies env pending tx =
     Done (if schedulable env (set (map pt_tx pending @ [tx])) then Inr ()
           else Inl (admission_error_message ''ConflictingNonceInMempool''
             (StaticMessage ''Transaction would create a circular nonce dependency'')))"
proof -
  from collect_reservations_total [OF assms(1)] obtain m where
    m: "collect_reservations env (map pt_tx pending @ [tx]) 0 [] [] = Inr m" by blast
  from check_nonce_dependencies_Inr [OF assms(4,2,3)] obtain r where
    r: "check_nonce_dependencies env pending tx = Done r" "r = Inr () \<longleftrightarrow> schedulable env (set (map pt_tx pending @ [tx]))"
    using m by blast
  from r(1) m assms(3) have "r = Inr () \<or> r = Inl (admission_error_message ''ConflictingNonceInMempool''
             (StaticMessage ''Transaction would create a circular nonce dependency''))"
    by (auto simp: check_nonce_dependencies_def Let_def bind_outcome_Done_iff split: if_splits)
  with r show ?thesis by auto
qed

text \<open>The sample accounts sponsor each other, so that each transaction waits for the other.\<close>

definition sponsored :: "string \<Rightarrow> u64 \<Rightarrow> string \<Rightarrow> u64 \<Rightarrow> signed_transaction" where
  "sponsored o1 n1 o2 n2 = (sample_signed 0)\<lparr>sx_origin := o1, sx_origin_nonce := n1, sx_sponsor := Some (o2, n2)\<rparr>"

theorem nonce_dependencies_decide_witness:
  "check_nonce_dependencies sample_env [\<lparr>pt_txid = ''t'', pt_tx = sponsored ''A'' 0 ''B'' 1\<rparr>] (sponsored ''B'' 0 ''A'' 1) =
     Done (Inl (admission_error_message ''ConflictingNonceInMempool''
             (StaticMessage ''Transaction would create a circular nonce dependency''))) \<and>
   \<not> schedulable sample_env {sponsored ''A'' 0 ''B'' 1, sponsored ''B'' 0 ''A'' 1}"
proof -
  let ?P = "[\<lparr>pt_txid = ''t'', pt_tx = sponsored ''A'' 0 ''B'' 1\<rparr>]"
  let ?tx = "sponsored ''B'' 0 ''A'' 1"
  have p: "\<exists>c. env_nonce sample_env p = Inr c" for p by simp
  have o: "fair_order sample_env" by (simp add: fair_order_def)
  have u: "unique_nonces (map pt_tx ?P @ [?tx])"
    by (auto simp: unique_nonces_def sponsored_def tx_nonces_def less_Suc_eq)
  have e: "check_nonce_dependencies sample_env ?P ?tx =
      Done (Inl (admission_error_message ''ConflictingNonceInMempool''
             (StaticMessage ''Transaction would create a circular nonce dependency'')))"
    by (simp add: check_nonce_dependencies_def sponsored_def tx_nonces_def on_error_def reserve_def Let_def
      count_schedulable_def initially_ready_def numeral_2_eq_2)
  have "schedulable sample_env (set (map pt_tx ?P @ [?tx])) = schedulable sample_env {sponsored ''A'' 0 ''B'' 1, ?tx}"
    by simp
  with nonce_dependencies_decide [OF p o _ u] e show ?thesis by (auto split: if_splits)
qed


end
