(* ===== verification/Simnet_Store.thy ===== *)
theory Simnet_Store
  imports Clarinet_Prelude "HOL-Library.Finite_Map"
begin

text \<open>
  \<^verbatim>\<open>ClarityDatastore\<close> of \<^verbatim>\<open>components/clarity-repl/src/repl/datastore.rs\<close>, the backing store of the
  simulated chain, with the HTTP client of \<^verbatim>\<open>remote_data/mod.rs\<close> and the file cache of
  \<^verbatim>\<open>remote_data/fs\<close>. A key has one value per block height; a read at a chain tip sees the latest
  value at or below its height. A simulated chain may start from a remote network: what
  is older than its first block is then fetched and cached.

  Hash tables are finite maps, the values of a key an ordered map from heights. The cells that
  \<^verbatim>\<open>ClarityDatastore\<close> and \<^verbatim>\<open>Datastore\<close> share (the current chain tip and the two remote caches) are
  kept here; operations of \<^verbatim>\<open>Datastore\<close> that read them take the store as an argument. Cloning
  is left out. The digest, the answers of the API and the decoders of other crates are the fields
  of \<open>simnet_lib\<close>; the iteration order of the journal's hash tables is one of them.
\<close>

section \<open>Data\<close>

type_synonym block_id = "u8 list"

datatype stacks_epoch_id =
    Epoch10 | Epoch20 | Epoch2_05 | Epoch21 | Epoch22 | Epoch23 | Epoch24 | Epoch25
  | Epoch30 | Epoch31 | Epoch32 | Epoch33 | Epoch34 | Epoch40 | Epoch41

fun epoch_rank :: "stacks_epoch_id \<Rightarrow> nat" where
  "epoch_rank Epoch10 = 0" | "epoch_rank Epoch20 = 1" | "epoch_rank Epoch2_05 = 2" | "epoch_rank Epoch21 = 3"
| "epoch_rank Epoch22 = 4" | "epoch_rank Epoch23 = 5" | "epoch_rank Epoch24 = 6" | "epoch_rank Epoch25 = 7"
| "epoch_rank Epoch30 = 8" | "epoch_rank Epoch31 = 9" | "epoch_rank Epoch32 = 10" | "epoch_rank Epoch33 = 11"
| "epoch_rank Epoch34 = 12" | "epoch_rank Epoch40 = 13" | "epoch_rank Epoch41 = 14"

lemma epoch_rank_inject: "epoch_rank e = epoch_rank e' \<Longrightarrow> e = e'"
  by (cases e; cases e'; simp)

text \<open>Epochs are ordered by age.\<close>

instantiation stacks_epoch_id :: linorder
begin

definition less_eq_stacks_epoch_id :: "stacks_epoch_id \<Rightarrow> stacks_epoch_id \<Rightarrow> bool" where
  "less_eq_stacks_epoch_id e e' \<longleftrightarrow> epoch_rank e \<le> epoch_rank e'"

definition less_stacks_epoch_id :: "stacks_epoch_id \<Rightarrow> stacks_epoch_id \<Rightarrow> bool" where
  "less_stacks_epoch_id e e' \<longleftrightarrow> epoch_rank e < epoch_rank e'"

instance
  by standard (auto simp: less_eq_stacks_epoch_id_def less_stacks_epoch_id_def epoch_rank_inject)

end

record remote_network_info =
  rni_api_url :: string
  rni_initial_height :: u32
  rni_network_id :: u32
  rni_is_mainnet :: bool
  rni_cache_location :: "string option"

record remote_block =
  rb_height :: u32
  rb_burn_block_height :: u32
  rb_tenure_height :: u32
  rb_block_time :: u64
  rb_burn_block_time :: u64
  rb_hash :: "u8 list"
  rb_index_block_hash :: block_id
  rb_burn_block_hash :: "u8 list"

record sortition =
  so_burn_block_hash :: "u8 list"
  so_burn_block_height :: u32
  so_consensus_hash :: "u8 list"
  so_sortition_id :: "u8 list"
  so_parent_sortition_id :: "u8 list"
  so_vrf_seed :: "u8 list option"

text \<open>Original values of the entries written since the journal was opened.\<close>

record write_journal =
  wj_data :: "(string \<times> u32, string option) hash_map"
  wj_metadata :: "(string \<times> string, string option) hash_map"

record clarity_datastore =
  cd_open_chain_tip :: block_id
  cd_current_chain_tip :: block_id
  cd_store :: "(string, (u32, string) btree_map) fmap"
  cd_metadata :: "(string \<times> string, string) fmap"
  cd_write_journal :: "write_journal option"
  cd_height_at_chain_tip :: "(block_id, u32) fmap"
  cd_chain_tip_at_height :: "(u32, block_id) fmap"
  cd_remote_network_info :: "remote_network_info option"
  cd_remote_block_info_cache :: "(block_id, remote_block) fmap"
  cd_remote_sortition_cache :: "(u8 list, sortition) fmap"
  cd_files :: "(string, string) fmap"
  cd_local_accounts :: "string list"

text \<open>A contract is its issuer and its name; its text form joins them with a dot.\<close>

type_synonym contract_id = "string \<times> string"

definition contract_string :: "contract_id \<Rightarrow> string" where
  "contract_string c = fst c @ ''.'' @ snd c"

section \<open>What the store relies on\<close>

record simnet_lib =
  lib_sha512_256 :: "u8 list \<Rightarrow> u8 list"
  lib_show_id :: "u8 list \<Rightarrow> string"
  lib_from_hex :: "string \<Rightarrow> u8 list option"
  lib_net_block :: "string \<Rightarrow> remote_block option"
  lib_net_sortitions :: "string \<Rightarrow> sortition list option"
  lib_net_burn_hash :: "string \<Rightarrow> string option"
  lib_net_data :: "string \<Rightarrow> string option"
  lib_trie_hash :: "string \<Rightarrow> string"
  lib_parse_principal :: "string \<Rightarrow> string option"
  lib_marfed_block_time :: "stacks_epoch_id \<Rightarrow> bool"
  lib_epoch_code :: "stacks_epoch_id \<Rightarrow> u32"
  lib_serialize_u32 :: "u32 \<Rightarrow> string"
  lib_burn_address :: "bool \<Rightarrow> string"
  lib_context_key :: string
  lib_source_key :: string
  lib_analysis_key :: string
  lib_context_error :: "string \<Rightarrow> string option"
  lib_rebuild_context :: "contract_id \<Rightarrow> string \<Rightarrow> string \<Rightarrow> string \<Rightarrow> string + string"
  lib_data_order :: "((string \<times> u32) \<times> string option) list \<Rightarrow> ((string \<times> u32) \<times> string option) list"
  lib_metadata_order :: "((string \<times> string) \<times> string option) list \<Rightarrow> ((string \<times> string) \<times> string option) list"

definition height_to_hashed_bytes :: "simnet_lib \<Rightarrow> u32 \<Rightarrow> u8 list" where
  "height_to_hashed_bytes lib height = lib_sha512_256 lib (be_bytes 4 height)"

section \<open>The API client\<close>

fun trim_start_0x :: "string \<Rightarrow> string" where
  "trim_start_0x (c # d # s) = (if c = CHR ''0'' \<and> d = CHR ''x'' then trim_start_0x s else c # d # s)"
| "trim_start_0x s = s"

definition fetch_burn_block_hash :: "simnet_lib \<Rightarrow> u32 \<Rightarrow> u8 list option" where
  "fetch_burn_block_hash lib burn_height =
     (case lib_net_burn_hash lib (''/extended/v2/burn-blocks/'' @ show_nat (unat burn_height)) of
        Some h \<Rightarrow> lib_from_hex lib (trim_start_0x h)
      | None \<Rightarrow> None)"

definition fallback_sortition :: "simnet_lib \<Rightarrow> u32 \<Rightarrow> sortition" where
  "fallback_sortition lib height =
     (let burn_block_hash = (case fetch_burn_block_hash lib height of
            Some h \<Rightarrow> h
          | None \<Rightarrow> be_bytes 4 height @ replicate 28 0)
      in \<lparr>so_burn_block_hash = burn_block_hash, so_burn_block_height = height,
          so_consensus_hash = take 20 burn_block_hash, so_sortition_id = burn_block_hash,
          so_parent_sortition_id = replicate 32 0, so_vrf_seed = None\<rparr>)"

definition fetch_sortition :: "simnet_lib \<Rightarrow> u32 \<Rightarrow> sortition" where
  "fetch_sortition lib height =
     (case lib_net_sortitions lib (''/v3/sortitions/burn_height/'' @ show_nat (unat height)) of
        Some (s # _) \<Rightarrow> s
      | _ \<Rightarrow> fallback_sortition lib height)"

definition client_fetch_block :: "simnet_lib \<Rightarrow> string \<Rightarrow> remote_block outcome" where
  "client_fetch_block lib url = expect (lib_net_block lib url)"

definition fetch_clarity_data :: "simnet_lib \<Rightarrow> string \<Rightarrow> string option" where
  "fetch_clarity_data lib path = map_option trim_start_0x (lib_net_data lib path)"

section \<open>Remote blocks\<close>

definition blocks_url :: "string" where
  "blocks_url = ''/extended/v2/blocks/''"

definition fetch_block :: "simnet_lib \<Rightarrow> string \<Rightarrow> clarity_datastore \<Rightarrow> (remote_block \<times> clarity_datastore) outcome" where
  "fetch_block lib url cd =
     bind_outcome (client_fetch_block lib url)
       (\<lambda>block.
          let cd1 = cd\<lparr>cd_remote_block_info_cache :=
                        fmupd (rb_index_block_hash block) block (cd_remote_block_info_cache cd),
                      cd_height_at_chain_tip :=
                        fmupd (rb_index_block_hash block) (rb_height block) (cd_height_at_chain_tip cd),
                      cd_chain_tip_at_height :=
                        fmupd (rb_height block) (rb_index_block_hash block) (cd_chain_tip_at_height cd)\<rparr>
          in Done (block,
               case fmlookup (cd_remote_sortition_cache cd1) (rb_burn_block_hash block) of
                 Some _ \<Rightarrow> cd1
               | None \<Rightarrow>
                   cd1\<lparr>cd_remote_sortition_cache :=
                         fmupd (rb_burn_block_hash block) (fetch_sortition lib (rb_burn_block_height block))
                           (cd_remote_sortition_cache cd1)\<rparr>))"

definition get_remote_block_info_from_hash ::
  "simnet_lib \<Rightarrow> block_id \<Rightarrow> clarity_datastore \<Rightarrow> (remote_block \<times> clarity_datastore) outcome" where
  "get_remote_block_info_from_hash lib hash cd =
     (case fmlookup (cd_remote_block_info_cache cd) hash of
        Some cached \<Rightarrow> Done (cached, cd)
      | None \<Rightarrow> fetch_block lib (blocks_url @ lib_show_id lib hash) cd)"

definition get_remote_block_info_from_height ::
  "simnet_lib \<Rightarrow> u32 \<Rightarrow> clarity_datastore \<Rightarrow> (remote_block \<times> clarity_datastore) outcome" where
  "get_remote_block_info_from_height lib height cd =
     (case fmlookup (cd_chain_tip_at_height cd) height of
        Some hash \<Rightarrow> get_remote_block_info_from_hash lib hash cd
      | None \<Rightarrow> fetch_block lib (blocks_url @ show_nat (unat height)) cd)"

definition u32_max :: u32 where
  "u32_max = 4294967295"

definition get_current_block_height :: "simnet_lib \<Rightarrow> clarity_datastore \<Rightarrow> (u32 \<times> clarity_datastore) outcome" where
  "get_current_block_height lib cd =
     (case fmlookup (cd_height_at_chain_tip cd) (cd_current_chain_tip cd) of
        Some height \<Rightarrow> Done (height, cd)
      | None \<Rightarrow>
          (case cd_remote_network_info cd of
             Some info \<Rightarrow>
               bind_outcome (get_remote_block_info_from_hash lib (cd_current_chain_tip cd) cd)
                 (\<lambda>(block_info, cd1).
                    if rb_height block_info \<le> rni_initial_height info then Done (rb_height block_info, cd1)
                    else Done (u32_max, cd1))
           | None \<Rightarrow> Done (u32_max, cd)))"

definition get_open_chain_tip_height :: "clarity_datastore \<Rightarrow> u32" where
  "get_open_chain_tip_height cd =
     (case fmlookup (cd_height_at_chain_tip cd) (cd_open_chain_tip cd) of Some h \<Rightarrow> h | None \<Rightarrow> u32_max)"

definition get_remote_chaintip :: "simnet_lib \<Rightarrow> clarity_datastore \<Rightarrow> (string \<times> clarity_datastore) outcome" where
  "get_remote_chaintip lib cd =
     bind_outcome (expect (cd_remote_network_info cd))
       (\<lambda>info. bind_outcome (get_current_block_height lib cd)
          (\<lambda>(current, cd1).
             bind_outcome (get_remote_block_info_from_height lib (min current (rni_initial_height info)) cd1)
               (\<lambda>(block_info, cd2). Done (lib_show_id lib (rb_index_block_hash block_info), cd2))))"

section \<open>Journal and data\<close>

text \<open>A panic when a journal is open already, and when none is open at the end.\<close>

definition begin_write_journal :: "clarity_datastore \<Rightarrow> clarity_datastore outcome" where
  "begin_write_journal cd =
     (case cd_write_journal cd of
        None \<Rightarrow> Done (cd\<lparr>cd_write_journal := Some \<lparr>wj_data = [], wj_metadata = []\<rparr>\<rparr>)
      | Some _ \<Rightarrow> Panic)"

definition restore_data ::
  "(string, (u32, string) btree_map) fmap \<Rightarrow> (string \<times> u32) \<times> string option \<Rightarrow> (string, (u32, string) btree_map) fmap" where
  "restore_data store entry =
     (case entry of
        ((key, height), Some value) \<Rightarrow>
          fmupd key (bt_insert height value (case fmlookup store key of Some m \<Rightarrow> m | None \<Rightarrow> [])) store
      | ((key, height), None) \<Rightarrow>
          (case fmlookup store key of
             Some values \<Rightarrow>
               let values1 = bt_remove height values
               in if values1 = [] then fmdrop key store else fmupd key values1 store
           | None \<Rightarrow> store))"

record ('k, 'v) entry_undo =
  eu_key :: 'k
  eu_previous :: "'v option"

definition entry_capture :: "('k, 'v) fmap \<Rightarrow> 'k \<Rightarrow> ('k, 'v) entry_undo" where
  "entry_capture m key = \<lparr>eu_key = key, eu_previous = fmlookup m key\<rparr>"

definition entry_restore :: "('k, 'v) entry_undo \<Rightarrow> ('k, 'v) fmap \<Rightarrow> ('k, 'v) fmap" where
  "entry_restore undo m =
     (case eu_previous undo of Some value \<Rightarrow> fmupd (eu_key undo) value m | None \<Rightarrow> fmdrop (eu_key undo) m)"

definition finish_write_journal :: "simnet_lib \<Rightarrow> bool \<Rightarrow> clarity_datastore \<Rightarrow> clarity_datastore outcome" where
  "finish_write_journal lib included cd =
     bind_outcome (expect (cd_write_journal cd))
       (\<lambda>journal.
          let cd1 = cd\<lparr>cd_write_journal := None\<rparr>
          in if included then Done cd1
             else Done (cd1\<lparr>cd_store := foldl restore_data (cd_store cd1) (lib_data_order lib (wj_data journal)),
                            cd_metadata := foldl (\<lambda>m (key, previous). entry_restore \<lparr>eu_key = key, eu_previous = previous\<rparr> m)
                              (cd_metadata cd1) (lib_metadata_order lib (wj_metadata journal))\<rparr>))"

text \<open>\<^verbatim>\<open>entry(k).or_insert(v)\<close>: the first value for a key stays.\<close>

definition or_insert :: "'k \<Rightarrow> 'v \<Rightarrow> ('k, 'v) hash_map \<Rightarrow> ('k, 'v) hash_map" where
  "or_insert k v m = (case hm_get m k of Some _ \<Rightarrow> m | None \<Rightarrow> hm_insert k v m)"

definition put_at :: "u32 \<Rightarrow> string \<Rightarrow> string \<Rightarrow> clarity_datastore \<Rightarrow> clarity_datastore" where
  "put_at height key value cd =
     (let values = (case fmlookup (cd_store cd) key of Some m \<Rightarrow> m | None \<Rightarrow> []);
          previous = bt_get values height
      in cd\<lparr>cd_store := fmupd key (bt_insert height value values) (cd_store cd),
            cd_write_journal := map_option
              (\<lambda>journal. journal\<lparr>wj_data := or_insert (key, height) previous (wj_data journal)\<rparr>)
              (cd_write_journal cd)\<rparr>)"

definition put :: "simnet_lib \<Rightarrow> string \<Rightarrow> string \<Rightarrow> clarity_datastore \<Rightarrow> clarity_datastore outcome" where
  "put lib key value cd =
     bind_outcome (get_current_block_height lib cd) (\<lambda>(height, cd1). Done (put_at height key value cd1))"

fun put_all_data :: "simnet_lib \<Rightarrow> (string \<times> string) list \<Rightarrow> clarity_datastore \<Rightarrow> clarity_datastore outcome" where
  "put_all_data lib [] cd = Done cd"
| "put_all_data lib ((key, value) # items) cd = bind_outcome (put lib key value cd) (put_all_data lib items)"

definition fetch_clarity_marf_value ::
  "simnet_lib \<Rightarrow> string \<Rightarrow> clarity_datastore \<Rightarrow> (string option \<times> clarity_datastore) outcome" where
  "fetch_clarity_marf_value lib key cd =
     bind_outcome (get_remote_chaintip lib cd)
       (\<lambda>(tip, cd1).
          Done (fetch_clarity_data lib
                  (''/v2/clarity/marf/'' @ lib_trie_hash lib key @ ''?tip='' @ tip @ ''&proof=false''), cd1))"

text \<open>\<^verbatim>\<open>key.split("::")\<close>.\<close>

fun split_colons :: "string \<Rightarrow> string \<Rightarrow> string list" where
  "split_colons acc [] = [rev acc]"
| "split_colons acc [c] = [rev (c # acc)]"
| "split_colons acc (c # d # s) =
     (if c = CHR '':'' \<and> d = CHR '':'' then rev acc # split_colons [] s else split_colons (c # acc) (d # s))"

definition is_key_from_local_account :: "simnet_lib \<Rightarrow> string \<Rightarrow> clarity_datastore \<Rightarrow> bool outcome" where
  "is_key_from_local_account lib key cd =
     (case split_colons [] key of
        _ # part # _ \<Rightarrow>
          Done (case lib_parse_principal lib part of
            Some standard_principal \<Rightarrow> standard_principal \<in> set (cd_local_accounts cd)
          | None \<Rightarrow> False)
      | _ \<Rightarrow> Panic)"

text \<open>\<^verbatim>\<open>range(..=height).next_back()\<close>.\<close>

definition last_up_to :: "u32 \<Rightarrow> (u32, string) btree_map \<Rightarrow> (u32 \<times> string) option" where
  "last_up_to height m =
     (case filter (\<lambda>(h, _). h \<le> height) m of [] \<Rightarrow> None | e # es \<Rightarrow> Some (last (e # es)))"

definition fetch_and_keep ::
  "simnet_lib \<Rightarrow> string \<Rightarrow> clarity_datastore \<Rightarrow> (string option \<times> clarity_datastore) outcome" where
  "fetch_and_keep lib key cd =
     bind_outcome (fetch_clarity_marf_value lib key cd)
       (\<lambda>(data, cd1). case data of
          Some value \<Rightarrow> bind_outcome (put lib key value cd1) (\<lambda>cd2. Done (data, cd2))
        | None \<Rightarrow> Done (data, cd1))"

definition remote_or_local_data ::
  "simnet_lib \<Rightarrow> string \<Rightarrow> remote_network_info \<Rightarrow> u32 \<Rightarrow> clarity_datastore \<Rightarrow> (string option \<times> clarity_datastore) outcome" where
  "remote_or_local_data lib key info current_height cd =
     (let values = (case fmlookup (cd_store cd) key of Some m \<Rightarrow> m | None \<Rightarrow> [])
      in case bt_get values current_height of
           Some data \<Rightarrow> Done (Some data, cd)
         | None \<Rightarrow>
             (case last_up_to current_height values of
                Some (height, value) \<Rightarrow>
                  if rni_initial_height info < height then Done (Some value, cd)
                  else fetch_and_keep lib key cd
              | None \<Rightarrow> fetch_and_keep lib key cd))"

text \<open>Data of local accounts never comes from the remote network.\<close>

definition get_data :: "simnet_lib \<Rightarrow> string \<Rightarrow> clarity_datastore \<Rightarrow> (string option \<times> clarity_datastore) outcome" where
  "get_data lib key cd =
     bind_outcome (get_current_block_height lib cd)
       (\<lambda>(current_height, cd1).
          let local_read = Done (map_option snd
                (last_up_to current_height (case fmlookup (cd_store cd1) key of Some m \<Rightarrow> m | None \<Rightarrow> [])), cd1)
          in case cd_remote_network_info cd1 of
               Some info \<Rightarrow>
                 bind_outcome (is_key_from_local_account lib key cd1)
                   (\<lambda>is_local. if is_local then local_read
                      else remote_or_local_data lib key info current_height cd1)
             | None \<Rightarrow> local_read)"

definition has_entry :: "simnet_lib \<Rightarrow> string \<Rightarrow> clarity_datastore \<Rightarrow> (bool \<times> clarity_datastore) outcome" where
  "has_entry lib key cd =
     bind_outcome (get_data lib key cd) (\<lambda>(data, cd1). Done (data \<noteq> None, cd1))"

section \<open>Time travel\<close>

definition set_block_hash :: "simnet_lib \<Rightarrow> block_id \<Rightarrow> clarity_datastore \<Rightarrow> (block_id \<times> clarity_datastore) outcome" where
  "set_block_hash lib bhh cd =
     (let prior_tip = cd_open_chain_tip cd;
          move = (\<lambda>c. Done (prior_tip, c\<lparr>cd_current_chain_tip := bhh\<rparr>))
      in case cd_remote_network_info cd of
           None \<Rightarrow> move cd
         | Some _ \<Rightarrow>
             (case fmlookup (cd_height_at_chain_tip cd) bhh of
                Some _ \<Rightarrow> move cd
              | None \<Rightarrow>
                  bind_outcome (get_remote_block_info_from_hash lib bhh cd)
                    (\<lambda>(block_info, cd1). move
                       (cd1\<lparr>cd_height_at_chain_tip := fmupd bhh (rb_height block_info) (cd_height_at_chain_tip cd1),
                            cd_chain_tip_at_height := fmupd (rb_height block_info) bhh (cd_chain_tip_at_height cd1)\<rparr>))))"

definition get_block_at_height ::
  "simnet_lib \<Rightarrow> u32 \<Rightarrow> clarity_datastore \<Rightarrow> (block_id option \<times> clarity_datastore) outcome" where
  "get_block_at_height lib height cd =
     (let local_block = Done (fmlookup (cd_chain_tip_at_height cd) height, cd)
      in case cd_remote_network_info cd of
           Some info \<Rightarrow>
             if height \<le> rni_initial_height info
             then bind_outcome (get_remote_block_info_from_height lib height cd)
                    (\<lambda>(block_info, cd1). Done (Some (rb_index_block_hash block_info), cd1))
             else local_block
         | None \<Rightarrow> local_block)"

section \<open>Metadata\<close>

definition insert_metadata :: "contract_id \<Rightarrow> string \<Rightarrow> string \<Rightarrow> clarity_datastore \<Rightarrow> clarity_datastore" where
  "insert_metadata contract key value cd =
     (let k = (contract_string contract, key)
      in cd\<lparr>cd_write_journal := map_option
              (\<lambda>journal. journal\<lparr>wj_metadata := or_insert k (fmlookup (cd_metadata cd) k) (wj_metadata journal)\<rparr>)
              (cd_write_journal cd),
            cd_metadata := fmupd k value (cd_metadata cd)\<rparr>)"

text \<open>
  A piece of metadata from the file cache or the network, named by contract, key and chain tip:
  colons of the key become underscores in the file name.
\<close>

definition metadata_file :: "contract_id \<Rightarrow> string \<Rightarrow> string \<Rightarrow> string" where
  "metadata_file contract key tip =
     fst contract @ ''_'' @ snd contract @ ''_'' @ map (\<lambda>c. if c = CHR '':'' then CHR ''_'' else c) key @ ''_'' @ tip @ ''.json''"

definition write_file_to_cache :: "string \<Rightarrow> string \<Rightarrow> clarity_datastore \<Rightarrow> clarity_datastore" where
  "write_file_to_cache name content cd = cd\<lparr>cd_files := fmupd name content (cd_files cd)\<rparr>"

definition metadata_url :: "contract_id \<Rightarrow> string \<Rightarrow> string \<Rightarrow> string" where
  "metadata_url contract key tip =
     ''/v2/clarity/metadata/'' @ fst contract @ ''/'' @ snd contract @ ''/'' @ key @ ''?tip='' @ tip"

text \<open>
  \<^verbatim>\<open>fetch_clarity_metadata\<close>, with what becomes of the answer of the node as an argument: it is kept
  as it is, or turned into a context with the functions of the source.
\<close>

definition fetch_metadata_with ::
  "(string option \<Rightarrow> clarity_datastore \<Rightarrow> ((string + string option) \<times> clarity_datastore) outcome) \<Rightarrow>
   simnet_lib \<Rightarrow> contract_id \<Rightarrow> string \<Rightarrow> clarity_datastore \<Rightarrow> ((string + string option) \<times> clarity_datastore) outcome" where
  "fetch_metadata_with respond lib contract key cd =
     bind_outcome (get_remote_chaintip lib cd)
       (\<lambda>(tip, cd1).
          case fmlookup (cd_files cd1) (metadata_file contract key tip) of
            Some cached \<Rightarrow> Done (Inr (Some cached), cd1)
          | None \<Rightarrow>
              bind_outcome (respond (fetch_clarity_data lib (metadata_url contract key tip)) cd1)
                (\<lambda>(response, cd2). Done (response,
                   case response of
                     Inr (Some content) \<Rightarrow> write_file_to_cache (metadata_file contract key tip) content cd2
                   | _ \<Rightarrow> cd2)))"

definition get_metadata_with ::
  "(string option \<Rightarrow> clarity_datastore \<Rightarrow> ((string + string option) \<times> clarity_datastore) outcome) \<Rightarrow>
   simnet_lib \<Rightarrow> contract_id \<Rightarrow> string \<Rightarrow> clarity_datastore \<Rightarrow> ((string + string option) \<times> clarity_datastore) outcome" where
  "get_metadata_with respond lib contract key cd =
     (case fmlookup (cd_metadata cd) (contract_string contract, key) of
        Some metadata \<Rightarrow> Done (Inr (Some metadata), cd)
      | None \<Rightarrow>
          if cd_remote_network_info cd \<noteq> None \<and> fst contract \<notin> set (cd_local_accounts cd)
          then bind_outcome (fetch_metadata_with respond lib contract key cd)
                 (\<lambda>(data, cd1). Done (data,
                    case data of Inr (Some value) \<Rightarrow> insert_metadata contract key value cd1 | _ \<Rightarrow> cd1))
          else Done (Inr None, cd))"

definition keep_response ::
  "string option \<Rightarrow> clarity_datastore \<Rightarrow> ((string + string option) \<times> clarity_datastore) outcome" where
  "keep_response raw cd = Done (Inr raw, cd)"

text \<open>
  \<^verbatim>\<open>populate_context_functions\<close>: source and analysis are read the plain way, since their keys are not
  that of the context.
\<close>

definition populate_context_functions ::
  "simnet_lib \<Rightarrow> contract_id \<Rightarrow> string option \<Rightarrow> clarity_datastore \<Rightarrow>
   ((string + string option) \<times> clarity_datastore) outcome" where
  "populate_context_functions lib contract context_str cd =
     bind_outcome (get_metadata_with keep_response lib contract (lib_source_key lib) cd)
       (\<lambda>(source, cd1). case source of
          Inl e \<Rightarrow> Done (Inl e, cd1)
        | Inr None \<Rightarrow> Done (Inl (''No contract source found for contract: '' @ contract_string contract), cd1)
        | Inr (Some contract_src) \<Rightarrow>
            (case context_str of
               None \<Rightarrow> Done (Inl (''No contract context found for contract: '' @ contract_string contract), cd1)
             | Some context \<Rightarrow>
                 (case lib_context_error lib context of
                    Some e \<Rightarrow> Done (Inl (''Failed to parse contract context: '' @ e), cd1)
                  | None \<Rightarrow>
                      bind_outcome (get_metadata_with keep_response lib contract (lib_analysis_key lib) cd1)
                        (\<lambda>(analysis, cd2). case analysis of
                           Inl e \<Rightarrow> Done (Inl e, cd2)
                         | Inr None \<Rightarrow>
                             Done (Inl (''No analysis metadata found for contract: '' @ contract_string contract), cd2)
                         | Inr (Some a) \<Rightarrow>
                             Done (map_sum (\<lambda>e. e) Some (lib_rebuild_context lib contract contract_src context a), cd2)))))"

definition get_metadata ::
  "simnet_lib \<Rightarrow> contract_id \<Rightarrow> string \<Rightarrow> clarity_datastore \<Rightarrow> ((string + string option) \<times> clarity_datastore) outcome" where
  "get_metadata lib contract key cd =
     get_metadata_with (if key = lib_context_key lib then populate_context_functions lib contract else keep_response)
       lib contract key cd"

definition has_local_metadata :: "contract_id \<Rightarrow> clarity_datastore \<Rightarrow> bool" where
  "has_local_metadata contract cd \<longleftrightarrow>
     fBex (fmdom (cd_metadata cd)) (\<lambda>(owner, _). owner = contract_string contract)"

definition save_local_account :: "string list \<Rightarrow> clarity_datastore \<Rightarrow> clarity_datastore" where
  "save_local_account local_accounts cd = cd\<lparr>cd_local_accounts := local_accounts\<rparr>"

section \<open>A new store\<close>

definition store_at :: "block_id \<Rightarrow> u32 \<Rightarrow> clarity_datastore" where
  "store_at i height =
     \<lparr>cd_open_chain_tip = i, cd_current_chain_tip = i, cd_store = fmempty, cd_metadata = fmempty,
      cd_write_journal = None, cd_height_at_chain_tip = fmupd i height fmempty,
      cd_chain_tip_at_height = fmupd height i fmempty, cd_remote_network_info = None,
      cd_remote_block_info_cache = fmempty, cd_remote_sortition_cache = fmempty,
      cd_files = fmempty, cd_local_accounts = []\<rparr>"

definition clarity_datastore_new ::
  "simnet_lib \<Rightarrow> (string, string) fmap \<Rightarrow> remote_network_info option \<Rightarrow> clarity_datastore outcome" where
  "clarity_datastore_new lib files remote =
     (case remote of
        None \<Rightarrow> Done ((store_at (height_to_hashed_bytes lib 0) 0)\<lparr>cd_files := files\<rparr>)
      | Some info \<Rightarrow>
          bind_outcome (client_fetch_block lib (blocks_url @ show_nat (unat (rni_initial_height info))))
            (\<lambda>block. Done ((store_at (rb_index_block_hash block) (rni_initial_height info))
               \<lparr>cd_remote_network_info := Some info,
                cd_remote_block_info_cache := fmupd (rb_index_block_hash block) block fmempty,
                cd_remote_sortition_cache :=
                  fmupd (rb_burn_block_hash block) (fetch_sortition lib (rb_burn_block_height block)) fmempty,
                cd_files := files\<rparr>)))"

text \<open>The accesses of the virtual machine to its backing store.\<close>

datatype store_access =
    PutAllData "(string \<times> string) list"
  | GetData string
  | SetBlockHash block_id
  | GetBlockAtHeight u32
  | InsertMetadata contract_id string string
  | GetMetadata contract_id string

fun access_store :: "simnet_lib \<Rightarrow> store_access \<Rightarrow> clarity_datastore \<Rightarrow> clarity_datastore outcome" where
  "access_store lib (PutAllData items) cd = put_all_data lib items cd"
| "access_store lib (GetData key) cd = bind_outcome (get_data lib key cd) (\<lambda>(_, cd1). Done cd1)"
| "access_store lib (SetBlockHash bhh) cd = bind_outcome (set_block_hash lib bhh cd) (\<lambda>(_, cd1). Done cd1)"
| "access_store lib (GetBlockAtHeight height) cd = bind_outcome (get_block_at_height lib height cd) (\<lambda>(_, cd1). Done cd1)"
| "access_store lib (InsertMetadata contract key value) cd = Done (insert_metadata contract key value cd)"
| "access_store lib (GetMetadata contract key) cd = bind_outcome (get_metadata lib contract key cd) (\<lambda>(_, cd1). Done cd1)"

fun access_all :: "simnet_lib \<Rightarrow> store_access list \<Rightarrow> clarity_datastore \<Rightarrow> clarity_datastore outcome" where
  "access_all lib [] cd = Done cd"
| "access_all lib (a # rest) cd = bind_outcome (access_store lib a cd) (access_all lib rest)"

end
