(* ===== verification/Simnet_Chain.thy ===== *)
theory Simnet_Chain
  imports Simnet_Store
begin

text \<open>
  \<^verbatim>\<open>Datastore\<close> of \<^verbatim>\<open>components/clarity-repl/src/repl/datastore.rs\<close>: the tables of Stacks and burn blocks of the
  simulated chain, how they advance, what the virtual machine looks up in them (\<^verbatim>\<open>HeadersDB\<close> and
  \<^verbatim>\<open>BurnStateDB\<close>), and how a tentative block is undone. Then the callers of \<^verbatim>\<open>interpreter.rs\<close> and
  \<^verbatim>\<open>session.rs\<close> that advance the chain, and the one that mines a block only if a transaction is
  included. Heights and times wrap around as in a release build.
\<close>

section \<open>Data\<close>

record burn_block_hashes =
  bh_header_hash :: "u8 list"
  bh_consensus_hash :: "u8 list"
  bh_vrf_seed :: "u8 list"
  bh_sortition_id :: "u8 list"

record burn_block_info =
  bi_consensus_hash :: "u8 list"
  bi_vrf_seed :: "u8 list"
  bi_sortition_id :: "u8 list"
  bi_burn_block_time :: u64
  bi_burn_chain_height :: u32

record stacks_block_info =
  si_block_header_hash :: "u8 list"
  si_burn_block_header_hash :: "u8 list"
  si_stacks_block_time :: u64

record stacks_constants =
  sc_burn_start_height :: u32
  sc_pox_prepare_length :: u32
  sc_pox_reward_cycle_length :: u32
  sc_pox_rejection_fraction :: u64

definition stacks_constants_default :: stacks_constants where
  "stacks_constants_default =
     \<lparr>sc_burn_start_height = 0, sc_pox_prepare_length = 50, sc_pox_reward_cycle_length = 1050,
      sc_pox_rejection_fraction = 0\<rparr>"

record datastore =
  ds_genesis_id :: block_id
  ds_burn_chain_tip :: "u8 list"
  ds_burn_chain_height :: u32
  ds_tenure_height :: u32
  ds_burn_blocks :: "(u8 list, burn_block_info) fmap"
  ds_stacks_chain_height :: u32
  ds_stacks_blocks :: "(block_id, stacks_block_info) fmap"
  ds_sortition_lookup :: "(u8 list, u8 list) fmap"
  ds_tenure_height_at_stacks_height :: "(u32, u32) fmap"
  ds_stacks_height_at_tenure_height :: "(u32, u32) fmap"
  ds_consensus_hash_lookup :: "(u8 list, u8 list) fmap"
  ds_current_epoch :: stacks_epoch_id
  ds_current_epoch_start_height :: u32
  ds_constants :: stacks_constants
  ds_remote_network_info :: "remote_network_info option"
  ds_initial_burn_height :: u32

text \<open>The two stores of a session; most operations change both.\<close>

type_synonym simnet = "datastore \<times> clarity_datastore"

definition SECONDS_BETWEEN_BURN_BLOCKS :: u64 where
  "SECONDS_BETWEEN_BURN_BLOCKS = 600"

definition SECONDS_BETWEEN_STACKS_BLOCKS :: u64 where
  "SECONDS_BETWEEN_STACKS_BLOCKS = 10"

definition CLARITY_STORAGE_BLOCK_TIME_KEY :: string where
  "CLARITY_STORAGE_BLOCK_TIME_KEY = ''_stx-data::clarity_storage::block_time''"

text \<open>The hashes of a burn block are the digest of its height with a mark in the first byte.\<close>

definition burn_block_hashes_from_height :: "simnet_lib \<Rightarrow> u32 \<Rightarrow> burn_block_hashes" where
  "burn_block_hashes_from_height lib height =
     (let bytes = height_to_hashed_bytes lib height
      in \<lparr>bh_header_hash = bytes[0 := 2], bh_consensus_hash = take 20 (bytes[0 := 3]),
          bh_vrf_seed = bytes[0 := 4], bh_sortition_id = bytes\<rparr>)"

section \<open>Epochs by height\<close>

text \<open>The first height of every epoch, on mainnet and on testnet.\<close>

definition mainnet_epochs :: "(u32 \<times> stacks_epoch_id) list" where
  "mainnet_epochs =
     [(40607, Epoch20), (99113, Epoch2_05), (103900, Epoch21), (104359, Epoch22), (107055, Epoch23),
      (147290, Epoch24), (171833, Epoch25), (340555, Epoch30), (2401415, Epoch31), (4717214, Epoch32),
      (7442181, Epoch33), (8665568, Epoch34)]"

definition testnet_epochs :: "(u32 \<times> stacks_epoch_id) list" where
  "testnet_epochs =
     [(1, Epoch20), (1, Epoch2_05), (1, Epoch21), (1, Epoch22), (1, Epoch23), (1, Epoch24), (727, Epoch25),
      (730, Epoch30), (730, Epoch31), (731, Epoch32), (732, Epoch33), (2825, Epoch34)]"

text \<open>The chain of \<^verbatim>\<open>if height < ... else if ...\<close>, one pair of bound and epoch per branch.\<close>

fun first_epoch_above :: "(u32 \<times> stacks_epoch_id) list \<Rightarrow> u32 \<Rightarrow> stacks_epoch_id" where
  "first_epoch_above [] height = Epoch40"
| "first_epoch_above ((bound, epoch) # rest) height = (if height < bound then epoch else first_epoch_above rest height)"

definition epoch_for_mainnet_height :: "u32 \<Rightarrow> stacks_epoch_id" where
  "epoch_for_mainnet_height = first_epoch_above mainnet_epochs"

definition epoch_for_testnet_height :: "u32 \<Rightarrow> stacks_epoch_id" where
  "epoch_for_testnet_height = first_epoch_above testnet_epochs"

definition epoch_for_height :: "bool \<Rightarrow> u32 \<Rightarrow> stacks_epoch_id" where
  "epoch_for_height is_mainnet height =
     (if is_mainnet then epoch_for_mainnet_height height else epoch_for_testnet_height height)"

section \<open>New block tables\<close>

definition tables_at ::
  "block_id \<Rightarrow> u32 \<Rightarrow> u32 \<Rightarrow> u8 list \<Rightarrow> burn_block_info \<Rightarrow> stacks_block_info \<Rightarrow> stacks_epoch_id \<Rightarrow>
   stacks_constants \<Rightarrow> remote_network_info option \<Rightarrow> u32 \<Rightarrow> datastore" where
  "tables_at i height tenure burn_hash burn_block stacks_block epoch constants remote initial_burn =
     \<lparr>ds_genesis_id = i, ds_burn_chain_tip = burn_hash,
      ds_burn_chain_height = bi_burn_chain_height burn_block, ds_tenure_height = tenure,
      ds_burn_blocks = fmupd burn_hash burn_block fmempty,
      ds_stacks_chain_height = height, ds_stacks_blocks = fmupd i stacks_block fmempty,
      ds_sortition_lookup = fmupd (bi_sortition_id burn_block) burn_hash fmempty,
      ds_tenure_height_at_stacks_height = fmupd height tenure fmempty,
      ds_stacks_height_at_tenure_height = fmupd tenure height fmempty,
      ds_consensus_hash_lookup = fmupd (bi_consensus_hash burn_block) (bi_sortition_id burn_block) fmempty,
      ds_current_epoch = epoch, ds_current_epoch_start_height = height, ds_constants = constants,
      ds_remote_network_info = remote, ds_initial_burn_height = initial_burn\<rparr>"

definition local_datastore_new :: "simnet_lib \<Rightarrow> u64 \<Rightarrow> stacks_constants \<Rightarrow> datastore" where
  "local_datastore_new lib genesis_time constants =
     (let bytes = height_to_hashed_bytes lib 0;
          hashes = burn_block_hashes_from_height lib 0
      in tables_at bytes 0 0 (bh_header_hash hashes)
           \<lparr>bi_consensus_hash = bh_consensus_hash hashes, bi_vrf_seed = bh_vrf_seed hashes,
            bi_sortition_id = bh_sortition_id hashes, bi_burn_block_time = genesis_time, bi_burn_chain_height = 0\<rparr>
           \<lparr>si_block_header_hash = bytes, si_burn_block_header_hash = bh_header_hash hashes,
            si_stacks_block_time = genesis_time + SECONDS_BETWEEN_STACKS_BLOCKS\<rparr>
           Epoch2_05 constants None 0)"

definition new_with_remote_data ::
  "simnet_lib \<Rightarrow> remote_network_info \<Rightarrow> clarity_datastore \<Rightarrow> stacks_constants \<Rightarrow> datastore outcome" where
  "new_with_remote_data lib info cd constants =
     bind_outcome (expect (fmlookup (cd_height_at_chain_tip cd) (cd_current_chain_tip cd)))
       (\<lambda>height. bind_outcome (expect (fmlookup (cd_remote_block_info_cache cd) (cd_current_chain_tip cd)))
          (\<lambda>block. bind_outcome (expect (fmlookup (cd_remote_sortition_cache cd) (rb_burn_block_hash block)))
             (\<lambda>sortition. Done
                (tables_at (rb_index_block_hash block) height (rb_tenure_height block) (rb_burn_block_hash block)
                   \<lparr>bi_consensus_hash = so_consensus_hash sortition,
                    bi_vrf_seed = (case so_vrf_seed sortition of
                        Some v \<Rightarrow> v
                      | None \<Rightarrow> height_to_hashed_bytes lib (rb_burn_block_height block)),
                    bi_sortition_id = so_sortition_id sortition, bi_burn_block_time = rb_burn_block_time block,
                    bi_burn_chain_height = rb_burn_block_height block\<rparr>
                   \<lparr>si_block_header_hash = rb_hash block, si_burn_block_header_hash = rb_burn_block_hash block,
                    si_stacks_block_time = rb_block_time block\<rparr>
                   (epoch_for_height (rni_is_mainnet info) height) constants (Some info) (rb_burn_block_height block)))))"

definition datastore_new ::
  "simnet_lib \<Rightarrow> u64 \<Rightarrow> clarity_datastore \<Rightarrow> stacks_constants \<Rightarrow> datastore outcome" where
  "datastore_new lib now cd constants =
     (case cd_remote_network_info cd of
        Some info \<Rightarrow> new_with_remote_data lib info cd constants
      | None \<Rightarrow> Done (local_datastore_new lib now constants))"

section \<open>Advancing\<close>

definition get_tenure_for_burn_block_height :: "datastore \<Rightarrow> u32 \<Rightarrow> u32" where
  "get_tenure_for_burn_block_height ds height =
     (case fmlookup (ds_tenure_height_at_stacks_height ds) height of Some t \<Rightarrow> t | None \<Rightarrow> 0)"

definition get_current_tenure :: "datastore \<Rightarrow> u32" where
  "get_current_tenure ds = get_tenure_for_burn_block_height ds (ds_stacks_chain_height ds)"

definition build_next_stacks_block :: "simnet_lib \<Rightarrow> clarity_datastore \<Rightarrow> datastore \<Rightarrow> stacks_block_info outcome" where
  "build_next_stacks_block lib cd ds =
     bind_outcome (expect (fmlookup (ds_stacks_blocks ds) (cd_open_chain_tip cd)))
       (\<lambda>previous_stacks_block. bind_outcome (expect (fmlookup (ds_burn_blocks ds) (ds_burn_chain_tip ds)))
          (\<lambda>last_burn_block.
             let last_block_time = max (si_stacks_block_time previous_stacks_block) (bi_burn_block_time last_burn_block)
             in Done \<lparr>si_block_header_hash = (height_to_hashed_bytes lib (ds_stacks_chain_height ds))[0 := 1],
                      si_burn_block_header_hash = ds_burn_chain_tip ds,
                      si_stacks_block_time = last_block_time + SECONDS_BETWEEN_STACKS_BLOCKS\<rparr>))"

text \<open>\<^verbatim>\<open>entry(k).or_insert(v)\<close> on a table.\<close>

definition fm_or_insert :: "'k \<Rightarrow> 'v \<Rightarrow> ('k, 'v) fmap \<Rightarrow> ('k, 'v) fmap" where
  "fm_or_insert k v m = (case fmlookup m k of Some _ \<Rightarrow> m | None \<Rightarrow> fmupd k v m)"

text \<open>The time of the new block is stored before the chain tip moves to it.\<close>

definition advance_one_stacks_block :: "simnet_lib \<Rightarrow> simnet \<Rightarrow> simnet outcome" where
  "advance_one_stacks_block lib sim =
     (case sim of
        (ds, cd) \<Rightarrow>
          let height = ds_stacks_chain_height ds + 1;
              ds1 = ds\<lparr>ds_stacks_chain_height := height\<rparr>;
              i = height_to_hashed_bytes lib height
          in bind_outcome (build_next_stacks_block lib cd ds1)
               (\<lambda>block_info. bind_outcome
                  (if lib_marfed_block_time lib (ds_current_epoch ds1)
                   then put_all_data lib
                          [(CLARITY_STORAGE_BLOCK_TIME_KEY, show_nat (unat (si_stacks_block_time block_info)))] cd
                   else Done cd)
                  (\<lambda>cd1. Done
                     (ds1\<lparr>ds_stacks_blocks := fmupd i block_info (ds_stacks_blocks ds1),
                          ds_tenure_height_at_stacks_height :=
                            fmupd height (ds_tenure_height ds1) (ds_tenure_height_at_stacks_height ds1)\<rparr>,
                      cd1\<lparr>cd_height_at_chain_tip := fm_or_insert i height (cd_height_at_chain_tip cd1),
                          cd_chain_tip_at_height := fm_or_insert height i (cd_chain_tip_at_height cd1),
                          cd_open_chain_tip := i, cd_current_chain_tip := i\<rparr>))))"

fun repeat_advance :: "nat \<Rightarrow> (simnet \<Rightarrow> simnet outcome) \<Rightarrow> simnet \<Rightarrow> simnet outcome" where
  "repeat_advance 0 f sim = Done sim"
| "repeat_advance (Suc n) f sim = bind_outcome (f sim) (repeat_advance n f)"

definition advance_stacks_chain_tip :: "simnet_lib \<Rightarrow> u32 \<Rightarrow> simnet \<Rightarrow> simnet outcome" where
  "advance_stacks_chain_tip lib count = repeat_advance (unat count) (advance_one_stacks_block lib)"

definition next_burn_block_time :: "clarity_datastore \<Rightarrow> datastore \<Rightarrow> u64 outcome" where
  "next_burn_block_time cd ds =
     bind_outcome (expect (fmlookup (ds_stacks_blocks ds) (cd_open_chain_tip cd)))
       (\<lambda>last_stacks_block. bind_outcome (expect (fmlookup (ds_burn_blocks ds) (ds_burn_chain_tip ds)))
          (\<lambda>last_burn_block.
             let t = bi_burn_block_time last_burn_block + SECONDS_BETWEEN_BURN_BLOCKS
             in Done (if t < si_stacks_block_time last_stacks_block
                      then si_stacks_block_time last_stacks_block + SECONDS_BETWEEN_STACKS_BLOCKS else t)))"

definition add_burn_block :: "simnet_lib \<Rightarrow> u64 \<Rightarrow> datastore \<Rightarrow> datastore" where
  "add_burn_block lib time ds =
     (let next_height = ds_burn_chain_height ds + 1;
          hashes = burn_block_hashes_from_height lib next_height
      in ds\<lparr>ds_consensus_hash_lookup :=
              fmupd (bh_consensus_hash hashes) (bh_sortition_id hashes) (ds_consensus_hash_lookup ds),
            ds_sortition_lookup := fmupd (bh_sortition_id hashes) (bh_header_hash hashes) (ds_sortition_lookup ds),
            ds_burn_chain_tip := bh_header_hash hashes,
            ds_burn_blocks := fmupd (bh_header_hash hashes)
              \<lparr>bi_consensus_hash = bh_consensus_hash hashes, bi_vrf_seed = bh_vrf_seed hashes,
               bi_sortition_id = bh_sortition_id hashes, bi_burn_block_time = time,
               bi_burn_chain_height = next_height\<rparr> (ds_burn_blocks ds),
            ds_burn_chain_height := next_height,
            ds_tenure_height := ds_tenure_height ds + 1\<rparr>)"

definition advance_one_burn_block :: "simnet_lib \<Rightarrow> simnet \<Rightarrow> simnet outcome" where
  "advance_one_burn_block lib sim =
     (case sim of
        (ds, cd) \<Rightarrow>
          bind_outcome (next_burn_block_time cd ds)
            (\<lambda>time. bind_outcome (advance_stacks_chain_tip lib 1 (add_burn_block lib time ds, cd))
               (\<lambda>(ds1, cd1). Done
                  (ds1\<lparr>ds_stacks_height_at_tenure_height :=
                         fmupd (ds_tenure_height ds1) (ds_stacks_chain_height ds1)
                           (ds_stacks_height_at_tenure_height ds1)\<rparr>, cd1))))"

definition advance_burn_chain_tip :: "simnet_lib \<Rightarrow> u32 \<Rightarrow> simnet \<Rightarrow> simnet outcome" where
  "advance_burn_chain_tip lib count = repeat_advance (unat count) (advance_one_burn_block lib)"

text \<open>\<^verbatim>\<open>{:08x}\<close>.\<close>

definition hex_digit :: "nat \<Rightarrow> char" where
  "hex_digit d = ''0123456789abcdef'' ! d"

definition hex8 :: "u32 \<Rightarrow> string" where
  "hex8 w = map (\<lambda>i. hex_digit (unat w div 16 ^ i mod 16)) [7, 6, 5, 4, 3, 2, 1, 0]"

definition set_current_epoch :: "simnet_lib \<Rightarrow> stacks_epoch_id \<Rightarrow> simnet \<Rightarrow> simnet outcome" where
  "set_current_epoch lib epoch sim =
     (case sim of
        (ds, cd) \<Rightarrow>
          if epoch = ds_current_epoch ds then Done (ds, cd)
          else bind_outcome (put lib ''vm-epoch::epoch-version'' (hex8 (lib_epoch_code lib epoch)) cd)
            (\<lambda>cd1.
               let ds1 = ds\<lparr>ds_current_epoch := epoch, ds_current_epoch_start_height := ds_stacks_chain_height ds\<rparr>
               in if Epoch30 \<le> epoch then advance_burn_chain_tip lib 1 (ds1, cd1) else Done (ds1, cd1)))"

section \<open>Undoing a block\<close>

record burn_advance_undo =
  bu_tip :: "u8 list"
  bu_height :: u32
  bu_tenure :: u32
  bu_block :: "(u8 list, burn_block_info) entry_undo"
  bu_consensus :: "(u8 list, u8 list) entry_undo"
  bu_sortition :: "(u8 list, u8 list) entry_undo"
  bu_stacks_height :: "(u32, u32) entry_undo"

record block_advance_undo =
  un_open_tip :: block_id
  un_current_tip :: block_id
  un_height :: u32
  un_block :: "(block_id, stacks_block_info) entry_undo"
  un_tenure :: "(u32, u32) entry_undo"
  un_height_at_tip :: "(block_id, u32) entry_undo"
  un_tip_at_height :: "(u32, block_id) entry_undo"
  un_burn :: "burn_advance_undo option"

definition checkpoint_burn :: "simnet_lib \<Rightarrow> datastore \<Rightarrow> burn_advance_undo" where
  "checkpoint_burn lib ds =
     (let hashes = burn_block_hashes_from_height lib (ds_burn_chain_height ds + 1)
      in \<lparr>bu_tip = ds_burn_chain_tip ds, bu_height = ds_burn_chain_height ds, bu_tenure = ds_tenure_height ds,
          bu_block = entry_capture (ds_burn_blocks ds) (bh_header_hash hashes),
          bu_consensus = entry_capture (ds_consensus_hash_lookup ds) (bh_consensus_hash hashes),
          bu_sortition = entry_capture (ds_sortition_lookup ds) (bh_sortition_id hashes),
          bu_stacks_height = entry_capture (ds_stacks_height_at_tenure_height ds) (ds_tenure_height ds + 1)\<rparr>)"

definition checkpoint_next_block :: "simnet_lib \<Rightarrow> simnet \<Rightarrow> block_advance_undo" where
  "checkpoint_next_block lib sim =
     (case sim of
        (ds, cd) \<Rightarrow>
          let height = ds_stacks_chain_height ds + 1;
              tip = height_to_hashed_bytes lib height
          in \<lparr>un_open_tip = cd_open_chain_tip cd, un_current_tip = cd_current_chain_tip cd,
              un_height = ds_stacks_chain_height ds,
              un_block = entry_capture (ds_stacks_blocks ds) tip,
              un_tenure = entry_capture (ds_tenure_height_at_stacks_height ds) height,
              un_height_at_tip = entry_capture (cd_height_at_chain_tip cd) tip,
              un_tip_at_height = entry_capture (cd_chain_tip_at_height cd) height,
              un_burn = (if ds_current_epoch ds < Epoch30 then Some (checkpoint_burn lib ds) else None)\<rparr>)"

definition restore_burn :: "burn_advance_undo \<Rightarrow> datastore \<Rightarrow> datastore" where
  "restore_burn burn ds =
     ds\<lparr>ds_burn_blocks := entry_restore (bu_block burn) (ds_burn_blocks ds),
        ds_consensus_hash_lookup := entry_restore (bu_consensus burn) (ds_consensus_hash_lookup ds),
        ds_sortition_lookup := entry_restore (bu_sortition burn) (ds_sortition_lookup ds),
        ds_stacks_height_at_tenure_height := entry_restore (bu_stacks_height burn) (ds_stacks_height_at_tenure_height ds),
        ds_burn_chain_tip := bu_tip burn, ds_burn_chain_height := bu_height burn, ds_tenure_height := bu_tenure burn\<rparr>"

definition undo_restore :: "block_advance_undo \<Rightarrow> simnet \<Rightarrow> simnet" where
  "undo_restore undo sim =
     (case sim of
        (ds, cd) \<Rightarrow>
          let ds1 = ds\<lparr>ds_stacks_blocks := entry_restore (un_block undo) (ds_stacks_blocks ds),
                       ds_tenure_height_at_stacks_height :=
                         entry_restore (un_tenure undo) (ds_tenure_height_at_stacks_height ds)\<rparr>;
              ds2 = (case un_burn undo of Some burn \<Rightarrow> restore_burn burn ds1 | None \<Rightarrow> ds1)
          in (ds2\<lparr>ds_stacks_chain_height := un_height undo\<rparr>,
              cd\<lparr>cd_height_at_chain_tip := entry_restore (un_height_at_tip undo) (cd_height_at_chain_tip cd),
                 cd_chain_tip_at_height := entry_restore (un_tip_at_height undo) (cd_chain_tip_at_height cd),
                 cd_open_chain_tip := un_open_tip undo, cd_current_chain_tip := un_current_tip undo\<rparr>))"

section \<open>What the virtual machine looks up about Stacks blocks\<close>

definition get_stacks_block_header_hash_for_block :: "simnet \<Rightarrow> block_id \<Rightarrow> u8 list option" where
  "get_stacks_block_header_hash_for_block sim i =
     (case sim of
        (ds, cd) \<Rightarrow>
          (case fmlookup (ds_stacks_blocks ds) i of
             Some b \<Rightarrow> Some (si_block_header_hash b)
           | None \<Rightarrow> map_option rb_hash (fmlookup (cd_remote_block_info_cache cd) i)))"

definition get_burn_header_hash_for_block :: "simnet \<Rightarrow> block_id \<Rightarrow> u8 list option" where
  "get_burn_header_hash_for_block sim i =
     (case sim of
        (ds, cd) \<Rightarrow>
          (case fmlookup (ds_stacks_blocks ds) i of
             Some b \<Rightarrow> Some (si_burn_block_header_hash b)
           | None \<Rightarrow>
               if ds_remote_network_info ds \<noteq> None
               then map_option rb_burn_block_hash (fmlookup (cd_remote_block_info_cache cd) i) else None))"

definition get_consensus_hash_for_block :: "simnet \<Rightarrow> block_id \<Rightarrow> u8 list option" where
  "get_consensus_hash_for_block sim i =
     (case get_burn_header_hash_for_block sim i of
        None \<Rightarrow> None
      | Some bbh \<Rightarrow>
          (case fmlookup (ds_burn_blocks (fst sim)) bbh of
             Some b \<Rightarrow> Some (bi_consensus_hash b)
           | None \<Rightarrow>
               if ds_remote_network_info (fst sim) \<noteq> None
               then map_option so_consensus_hash (fmlookup (cd_remote_sortition_cache (snd sim)) bbh) else None))"

definition get_vrf_seed_for_block :: "simnet \<Rightarrow> block_id \<Rightarrow> u8 list option" where
  "get_vrf_seed_for_block sim i =
     (case get_burn_header_hash_for_block sim i of
        None \<Rightarrow> None
      | Some bbh \<Rightarrow>
          (case fmlookup (ds_burn_blocks (fst sim)) bbh of
             Some b \<Rightarrow> Some (bi_vrf_seed b)
           | None \<Rightarrow>
               if ds_remote_network_info (fst sim) \<noteq> None
               then Option.bind (fmlookup (cd_remote_sortition_cache (snd sim)) bbh) so_vrf_seed else None))"

definition get_stacks_block_time_for_block :: "simnet \<Rightarrow> block_id \<Rightarrow> u64 option" where
  "get_stacks_block_time_for_block sim i =
     (case fmlookup (ds_stacks_blocks (fst sim)) i of
        Some b \<Rightarrow> Some (si_stacks_block_time b)
      | None \<Rightarrow> map_option rb_block_time (fmlookup (cd_remote_block_info_cache (snd sim)) i))"

definition burn_block_of :: "simnet \<Rightarrow> block_id \<Rightarrow> burn_block_info option" where
  "burn_block_of sim i = Option.bind (get_burn_header_hash_for_block sim i) (fmlookup (ds_burn_blocks (fst sim)))"

definition get_burn_block_time_for_block :: "simnet \<Rightarrow> block_id \<Rightarrow> u64 option" where
  "get_burn_block_time_for_block sim i =
     (case burn_block_of sim i of
        Some b \<Rightarrow> Some (bi_burn_block_time b)
      | None \<Rightarrow>
          if ds_remote_network_info (fst sim) \<noteq> None
          then map_option rb_burn_block_time (fmlookup (cd_remote_block_info_cache (snd sim)) i) else None)"

definition get_burn_block_height_for_block :: "simnet \<Rightarrow> block_id \<Rightarrow> u32 option" where
  "get_burn_block_height_for_block sim i =
     (case burn_block_of sim i of
        Some b \<Rightarrow> Some (bi_burn_chain_height b)
      | None \<Rightarrow> map_option rb_burn_block_height (fmlookup (cd_remote_block_info_cache (snd sim)) i))"

definition get_stacks_height_for_tenure_height :: "datastore \<Rightarrow> u32 \<Rightarrow> u32 option" where
  "get_stacks_height_for_tenure_height ds tenure_height =
     (case fmlookup (ds_stacks_height_at_tenure_height ds) tenure_height of
        Some height \<Rightarrow> Some height
      | None \<Rightarrow> Some tenure_height)"

definition get_miner_address :: "simnet_lib \<Rightarrow> simnet \<Rightarrow> block_id \<Rightarrow> string option" where
  "get_miner_address lib sim i =
     (if get_burn_block_height_for_block sim i \<noteq> None
      then Some (lib_burn_address lib (i \<noteq> ds_genesis_id (fst sim))) else None)"

definition get_burnchain_tokens_spent_for_block :: "simnet \<Rightarrow> block_id \<Rightarrow> u128 option" where
  "get_burnchain_tokens_spent_for_block sim i =
     (if i = ds_genesis_id (fst sim) then Some 0
      else if get_burn_block_height_for_block sim i \<noteq> None then Some 2000 else None)"

definition get_burnchain_tokens_spent_for_winning_block :: "simnet \<Rightarrow> block_id \<Rightarrow> u128 option" where
  "get_burnchain_tokens_spent_for_winning_block sim i = (if i = ds_genesis_id (fst sim) then Some 0 else None)"

definition get_tokens_earned_for_block :: "simnet \<Rightarrow> block_id \<Rightarrow> u128 option" where
  "get_tokens_earned_for_block sim i =
     (if i = ds_genesis_id (fst sim) then Some 0
      else if get_burn_block_height_for_block sim i \<noteq> None then Some 5000 else None)"

section \<open>What it looks up about burn blocks\<close>

definition get_tip_burn_block_height :: "simnet \<Rightarrow> u32 option" where
  "get_tip_burn_block_height sim =
     (let tip = cd_current_chain_tip (snd sim)
      in if ds_current_epoch (fst sim) < Epoch30
         then (case get_burn_block_height_for_block sim tip of
                 Some height \<Rightarrow> Some height
               | None \<Rightarrow> map_option rb_burn_block_height (fmlookup (cd_remote_block_info_cache (snd sim)) tip))
         else Some (ds_burn_chain_height (fst sim)))"

definition get_tip_sortition_id :: "simnet \<Rightarrow> u8 list option" where
  "get_tip_sortition_id sim = map_option bi_sortition_id (burn_block_of sim (cd_current_chain_tip (snd sim)))"

definition get_burn_block_height :: "datastore \<Rightarrow> u8 list \<Rightarrow> u32 option" where
  "get_burn_block_height ds sortition_id =
     map_option bi_burn_chain_height
       (Option.bind (fmlookup (ds_sortition_lookup ds) sortition_id) (fmlookup (ds_burn_blocks ds)))"

definition get_burn_header_hash :: "simnet_lib \<Rightarrow> datastore \<Rightarrow> u32 \<Rightarrow> u8 list option" where
  "get_burn_header_hash lib ds burn_height =
     (if ds_burn_chain_height ds < burn_height then None
      else if ds_remote_network_info ds \<noteq> None \<and> burn_height \<le> ds_initial_burn_height ds
        then Some (so_burn_block_hash (fetch_sortition lib burn_height))
      else Some (bh_header_hash (burn_block_hashes_from_height lib burn_height)))"

definition get_sortition_id_from_consensus_hash :: "datastore \<Rightarrow> u8 list \<Rightarrow> u8 list option" where
  "get_sortition_id_from_consensus_hash ds consensus_hash = fmlookup (ds_consensus_hash_lookup ds) consensus_hash"

definition get_pox_payout_addrs :: "datastore \<Rightarrow> u32 \<Rightarrow> (string list \<times> u128) option" where
  "get_pox_payout_addrs ds height = (if height \<le> ds_burn_chain_height ds then Some ([], 0) else None)"

section \<open>Session\<close>

text \<open>The tenure is written through a database frame of its own.\<close>

definition set_tenure_height :: "simnet_lib \<Rightarrow> simnet \<Rightarrow> simnet outcome" where
  "set_tenure_height lib sim =
     (case sim of
        (ds, cd) \<Rightarrow>
          bind_outcome
            (put_all_data lib [(''_stx-data::tenure_height'', lib_serialize_u32 lib (get_current_tenure ds))] cd)
            (\<lambda>cd1. Done (ds, cd1)))"

definition interpreter_advance_burn_chain_tip :: "simnet_lib \<Rightarrow> u32 \<Rightarrow> simnet \<Rightarrow> (u32 \<times> simnet) outcome" where
  "interpreter_advance_burn_chain_tip lib count sim =
     bind_outcome (advance_burn_chain_tip lib count sim)
       (\<lambda>sim1. bind_outcome (set_tenure_height lib sim1) (\<lambda>sim2. Done (ds_burn_chain_height (fst sim1), sim2)))"

definition interpreter_advance_stacks_chain_tip ::
  "simnet_lib \<Rightarrow> u32 \<Rightarrow> simnet \<Rightarrow> ((string + u32) \<times> simnet) outcome" where
  "interpreter_advance_stacks_chain_tip lib count sim =
     (if ds_current_epoch (fst sim) < Epoch30
      then Done (Inl ''only burn chain height can be advanced in epoch lower than 3.0'', sim)
      else bind_outcome (advance_stacks_chain_tip lib count sim)
        (\<lambda>sim1. Done (Inr (ds_stacks_chain_height (fst sim1)), sim1)))"

definition advance_chain_tip :: "simnet_lib \<Rightarrow> u32 \<Rightarrow> simnet \<Rightarrow> (u32 \<times> simnet) outcome" where
  "advance_chain_tip lib count sim =
     (if ds_current_epoch (fst sim) < Epoch30
      then interpreter_advance_burn_chain_tip lib count sim
      else bind_outcome (interpreter_advance_stacks_chain_tip lib count sim)
        (\<lambda>(r, sim1). case r of Inr height \<Rightarrow> Done (height, sim1) | Inl _ \<Rightarrow> Panic))"

text \<open>
  A block is mined only if the transaction is included. Executing the transaction is the work of
  the virtual machine: it is given by the accesses to the backing store it makes on a store and by
  whether the transaction is included.
\<close>

definition execute_raw_transaction_in_next_block ::
  "simnet_lib \<Rightarrow> (simnet \<Rightarrow> store_access list \<times> bool) \<Rightarrow> simnet \<Rightarrow> (bool \<times> simnet) outcome" where
  "execute_raw_transaction_in_next_block lib execute sim =
     (let undo = checkpoint_next_block lib sim
      in bind_outcome (begin_write_journal (snd sim))
           (\<lambda>cd. bind_outcome (advance_chain_tip lib 1 (fst sim, cd))
              (\<lambda>(_, sim1). case execute sim1 of
                 (accesses, included) \<Rightarrow>
                   bind_outcome (access_all lib accesses (snd sim1))
                     (\<lambda>cd1. bind_outcome (finish_write_journal lib included cd1)
                        (\<lambda>cd2. let sim2 = (fst sim1, cd2)
                           in Done (included, if included then sim2 else undo_restore undo sim2))))))"

end
