(* ===== verification/Simnet_Undo.thy ===== *)
theory Simnet_Undo
  imports Simnet_Chain "HOL-Library.Multiset"
begin

text \<open>
  A block whose transaction is rejected leaves no trace. The journal holds the original value of
  every entry written since it was opened, whatever the virtual machine reads and writes
  (\<open>tentative\<close> is kept by every access), so that putting them back in any order gives the
  original store; the captured table entries give the original tables.
\<close>

section \<open>Stores as functions of key and height\<close>

lemma bt_ext:
  assumes "bt_wf m" "bt_wf m'" "\<And>k. bt_get m k = bt_get m' k"
  shows "m = m'"
proof -
  from assms(3) have eq: "map_of m = map_of m'" by (rule ext)
  have "map fst m = map fst m'"
  proof (rule strict_sorted_equal)
    show "sorted_wrt (<) (map fst m)" "sorted_wrt (<) (map fst m')" using assms(1,2) by (simp_all add: bt_wf_def)
    show "set (map fst m) = set (map fst m')" using arg_cong [OF eq, of dom] by (simp add: dom_map_of_conv_image_fst)
  qed
  moreover have "set m = set m'" using eq assms(1,2) by (simp add: map_of_inject_set bt_wf_distinct)
  ultimately show ?thesis using bt_wf_distinct [OF assms(1)] by (metis (mono_tags, lifting) distinct_map map_inj_on sup.idem)
qed

definition value_of :: "(string, (u32, string) btree_map) fmap \<Rightarrow> string \<Rightarrow> u32 \<Rightarrow> string option" where
  "value_of store key height = Option.bind (fmlookup store key) (\<lambda>m. bt_get m height)"

definition store_wf :: "(string, (u32, string) btree_map) fmap \<Rightarrow> bool" where
  "store_wf store \<longleftrightarrow> fmpred (\<lambda>_ m. bt_wf m \<and> m \<noteq> []) store"

lemma store_wf_get: "store_wf store \<Longrightarrow> fmlookup store key = Some m \<Longrightarrow> bt_wf m \<and> m \<noteq> []"
  by (auto simp: store_wf_def)

lemma store_wf_upd: "store_wf store \<Longrightarrow> bt_wf m \<Longrightarrow> m \<noteq> [] \<Longrightarrow> store_wf (fmupd key m store)"
  by (auto simp: store_wf_def)

lemma store_wf_drop: "store_wf store \<Longrightarrow> store_wf (fmdrop key store)"
  by (auto simp: store_wf_def)

lemma store_wf_empty [simp]: "store_wf fmempty"
  by (simp add: store_wf_def)

lemma bt_nonempty_get: "m \<noteq> [] \<Longrightarrow> \<exists>k. bt_get m k \<noteq> None"
  by (cases m) auto

lemma store_ext:
  assumes "store_wf a" "store_wf b" "\<And>k h. value_of a k h = value_of b k h"
  shows "a = b"
proof (rule fmap_ext)
  fix k
  show "fmlookup a k = fmlookup b k"
  proof (cases "fmlookup a k"; cases "fmlookup b k")
    fix m m'
    assume m: "fmlookup a k = Some m" "fmlookup b k = Some m'"
    then have "bt_get m h = bt_get m' h" for h using assms(3) [of k h] by (simp add: value_of_def)
    with m store_wf_get [OF assms(1)] store_wf_get [OF assms(2)] bt_ext [of m m'] show ?thesis by simp
  next
    fix m
    assume m: "fmlookup a k = Some m" "fmlookup b k = None"
    with store_wf_get [OF assms(1)] bt_nonempty_get obtain h where "bt_get m h \<noteq> None" by blast
    with m assms(3) [of k h] show ?thesis by (simp add: value_of_def)
  next
    fix m
    assume m: "fmlookup a k = None" "fmlookup b k = Some m"
    with store_wf_get [OF assms(2)] bt_nonempty_get obtain h where "bt_get m h \<noteq> None" by blast
    with m assms(3) [of k h] show ?thesis by (simp add: value_of_def)
  qed simp
qed

abbreviation values_at :: "(string, (u32, string) btree_map) fmap \<Rightarrow> string \<Rightarrow> (u32, string) btree_map" where
  "values_at store key \<equiv> (case fmlookup store key of Some m \<Rightarrow> m | None \<Rightarrow> [])"

lemma values_at_wf: "store_wf store \<Longrightarrow> bt_wf (values_at store key)"
  by (auto split: option.splits dest: store_wf_get)

lemma value_of_values_at: "value_of store key h = bt_get (values_at store key) h"
  by (simp add: value_of_def split: option.splits)

lemma value_of_upd:
  "value_of (fmupd key m store) k h = (if k = key then bt_get m h else value_of store k h)"
  by (simp add: value_of_def)

section \<open>Putting values back\<close>

lemma restore_data_value:
  "value_of (restore_data store ((key, height), previous)) k h =
     (if (k, h) = (key, height) then previous else value_of store k h)"
proof (cases previous)
  case (Some v)
  then show ?thesis
    by (simp add: restore_data_def value_of_upd bt_get_insert value_of_values_at [of store])
next
  case None
  show ?thesis
  proof (cases "fmlookup store key")
    case m: (Some m)
    have g: "bt_get (bt_remove height m) h = (if h = height then None else bt_get m h)"
      by (simp add: bt_get_remove)
    show ?thesis
    proof (cases "bt_remove height m = []")
      case True
      with g m None show ?thesis by (auto simp: restore_data_def value_of_def split: if_splits)
    qed (use m None in \<open>auto simp: restore_data_def value_of_def Let_def bt_get_remove\<close>)
  qed (use None in \<open>simp add: restore_data_def value_of_def\<close>)
qed

lemma restore_data_wf:
  assumes "store_wf store"
  shows "store_wf (restore_data store e)"
proof -
  obtain key height previous where e: "e = ((key, height), previous)" by (metis surj_pair)
  show ?thesis
  proof (cases previous)
    case (Some v)
    then show ?thesis using assms e by (simp add: restore_data_def store_wf_upd bt_wf_insert values_at_wf)
  next
    case None
    then show ?thesis using assms e store_wf_get [OF assms, of key]
      by (auto simp: restore_data_def Let_def store_wf_upd store_wf_drop bt_wf_remove split: option.splits)
  qed
qed

lemma foldl_restore_data:
  assumes "distinct (map fst es)" "store_wf store"
  shows "store_wf (foldl restore_data store es) \<and>
     value_of (foldl restore_data store es) k h =
       (case map_of es (k, h) of Some previous \<Rightarrow> previous | None \<Rightarrow> value_of store k h)"
  using assms
proof (induction es arbitrary: store)
  case (Cons e es)
  obtain key height previous where e: "e = ((key, height), previous)" by (metis surj_pair)
  from Cons.prems e have "map_of es (key, height) = None" by (simp add: map_of_eq_None_iff)
  with Cons e restore_data_wf [of store e] show ?case by (auto simp: restore_data_value split: option.splits)
qed simp

lemma entry_restore_lookup:
  "fmlookup (entry_restore \<lparr>eu_key = k, eu_previous = p\<rparr> m) k' = (if k' = k then p else fmlookup m k')"
  by (auto simp: entry_restore_def split: option.splits)

lemma foldl_entry_restore:
  assumes "distinct (map fst es)"
  shows "fmlookup (foldl (\<lambda>m (key, previous). entry_restore \<lparr>eu_key = key, eu_previous = previous\<rparr> m) m es) k =
     (case map_of es k of Some previous \<Rightarrow> previous | None \<Rightarrow> fmlookup m k)"
  using assms
proof (induction es arbitrary: m)
  case (Cons e es)
  obtain key previous where e: "e = (key, previous)" by (cases e)
  from Cons.prems e have "map_of es key = None" by (simp add: map_of_eq_None_iff)
  with Cons e show ?case by (auto simp: entry_restore_lookup split: option.splits)
qed simp

section \<open>Tentative writes\<close>

definition original :: "('k, 'v option) hash_map \<Rightarrow> ('k \<Rightarrow> 'v option) \<Rightarrow> ('k \<Rightarrow> 'v option) \<Rightarrow> bool" where
  "original journal before now \<longleftrightarrow>
     distinct (map fst journal) \<and>
     (\<forall>k. case hm_get journal k of Some previous \<Rightarrow> previous = before k | None \<Rightarrow> now k = before k)"

lemma original_or_insert:
  assumes "original journal before now" "\<And>k'. k' \<noteq> k \<Longrightarrow> now' k' = now k'"
  shows "original (or_insert k (now k) journal) before now'"
proof -
  have "case hm_get (or_insert k (now k) journal) k' of Some previous \<Rightarrow> previous = before k' | None \<Rightarrow> now' k' = before k'" for k'
  proof (cases "k' = k")
    case True
    with assms(1) show ?thesis
      by (cases "hm_get journal k") (auto simp: original_def or_insert_def split: option.splits dest: spec [of _ k])
  next
    case False
    have "hm_get (or_insert k (now k) journal) k' = hm_get journal k'"
      using False by (simp add: or_insert_def split: option.splits)
    moreover have "case hm_get journal k' of Some previous \<Rightarrow> previous = before k' | None \<Rightarrow> now k' = before k'"
      using assms(1) by (simp add: original_def)
    ultimately show ?thesis using assms(2) [OF False] by (simp split: option.splits)
  qed
  moreover have "distinct (map fst (or_insert k (now k) journal))"
    using assms(1) by (simp add: original_def or_insert_def distinct_update split: option.splits)
  ultimately show ?thesis by (simp add: original_def)
qed

lemma original_order:
  assumes "original journal before now" "mset journal' = mset journal"
  shows "distinct (map fst journal')"
    and "(case map_of journal' k of Some previous \<Rightarrow> previous | None \<Rightarrow> now k) = before k"
proof -
  have d: "distinct (map fst journal)" using assms(1) by (simp add: original_def)
  from assms(2) have m: "mset (map fst journal') = mset (map fst journal)" by simp
  then show d': "distinct (map fst journal')" using d by (metis mset_eq_imp_distinct_iff)
  have "map_of journal' = map_of journal"
    using map_of_inject_set [OF d' d] assms(2) by (metis mset_eq_setD)
  with assms(1) show "(case map_of journal' k of Some previous \<Rightarrow> previous | None \<Rightarrow> now k) = before k"
    by (auto simp: original_def split: option.splits dest: spec [of _ k])
qed

text \<open>What no access of the virtual machine changes: without remote network also tables, caches and files.\<close>

definition settled :: "clarity_datastore \<Rightarrow> clarity_datastore \<Rightarrow> bool" where
  "settled cd cd' \<longleftrightarrow>
     cd_remote_network_info cd' = cd_remote_network_info cd \<and> cd_local_accounts cd' = cd_local_accounts cd \<and>
     cd_open_chain_tip cd' = cd_open_chain_tip cd \<and>
     (cd_remote_network_info cd = None \<longrightarrow>
        cd_height_at_chain_tip cd' = cd_height_at_chain_tip cd \<and> cd_chain_tip_at_height cd' = cd_chain_tip_at_height cd \<and>
        cd_remote_block_info_cache cd' = cd_remote_block_info_cache cd \<and>
        cd_remote_sortition_cache cd' = cd_remote_sortition_cache cd \<and> cd_files cd' = cd_files cd)"

text \<open>
  The journal of \<open>cd\<close> leads back to the data and metadata of \<open>cd0\<close>.
\<close>

definition journaled :: "clarity_datastore \<Rightarrow> clarity_datastore \<Rightarrow> bool" where
  "journaled cd0 cd \<longleftrightarrow> store_wf (cd_store cd) \<and>
     (case cd_write_journal cd of
        Some j \<Rightarrow>
          original (wj_data j) (\<lambda>(k, h). value_of (cd_store cd0) k h) (\<lambda>(k, h). value_of (cd_store cd) k h) \<and>
          original (wj_metadata j) (fmlookup (cd_metadata cd0)) (fmlookup (cd_metadata cd))
      | None \<Rightarrow> False)"

definition same_data :: "clarity_datastore \<Rightarrow> clarity_datastore \<Rightarrow> bool" where
  "same_data cd cd' \<longleftrightarrow> cd_store cd' = cd_store cd \<and> cd_metadata cd' = cd_metadata cd \<and>
     cd_write_journal cd' = cd_write_journal cd"

lemma settled_refl [simp]: "settled cd cd"
  by (simp add: settled_def)

lemma settled_trans: "settled a b \<Longrightarrow> settled b c \<Longrightarrow> settled a c"
  by (auto simp: settled_def)

lemma same_data_refl [simp]: "same_data cd cd"
  by (simp add: same_data_def)

lemma same_data_trans: "same_data a b \<Longrightarrow> same_data b c \<Longrightarrow> same_data a c"
  by (simp add: same_data_def)

lemma journaled_same_data: "journaled cd0 cd \<Longrightarrow> same_data cd cd' \<Longrightarrow> journaled cd0 cd'"
  by (auto simp: journaled_def same_data_def split: option.splits)

lemma journaled_put_at:
  assumes "journaled cd0 cd"
  shows "journaled cd0 (put_at height key value cd)"
proof -
  from assms obtain j where j: "cd_write_journal cd = Some j"
    "original (wj_data j) (\<lambda>(k, h). value_of (cd_store cd0) k h) (\<lambda>(k, h). value_of (cd_store cd) k h)"
    "original (wj_metadata j) (fmlookup (cd_metadata cd0)) (fmlookup (cd_metadata cd))"
    by (auto simp: journaled_def split: option.splits)
  let ?store = "fmupd key (bt_insert height value (values_at (cd_store cd) key)) (cd_store cd)"
  have "original (or_insert (key, height) (value_of (cd_store cd) key height) (wj_data j))
      (\<lambda>(k, h). value_of (cd_store cd0) k h) (\<lambda>(k, h). value_of ?store k h)"
    using original_or_insert [OF j(2), of "(key, height)" "\<lambda>(k, h). value_of ?store k h"]
    by (auto simp: value_of_upd bt_get_insert value_of_values_at [of "cd_store cd" key] split: prod.splits)
  moreover have "store_wf ?store"
    using assms by (simp add: journaled_def store_wf_upd bt_wf_insert values_at_wf)
  ultimately show ?thesis using j
    by (simp add: put_at_def Let_def journaled_def value_of_values_at [of "cd_store cd" key height])
qed

lemma journaled_insert_metadata:
  assumes "journaled cd0 cd"
  shows "journaled cd0 (insert_metadata contract key value cd)"
proof -
  from assms obtain j where j: "cd_write_journal cd = Some j"
    "original (wj_metadata j) (fmlookup (cd_metadata cd0)) (fmlookup (cd_metadata cd))"
    by (auto simp: journaled_def split: option.splits)
  show ?thesis using assms j(1) original_or_insert [OF j(2), of "(contract_string contract, key)"
      "fmlookup (fmupd (contract_string contract, key) value (cd_metadata cd))"]
    by (simp add: insert_metadata_def Let_def journaled_def)
qed

section \<open>Every access keeps the journal\<close>

lemma fetch_block_calm:
  assumes "fetch_block lib url cd = Done (b, cd')" "cd_remote_network_info cd \<noteq> None"
  shows "settled cd cd' \<and> same_data cd cd'"
  using assms by (auto simp: fetch_block_def bind_outcome_Done_iff Let_def settled_def same_data_def split: option.splits)

lemma from_hash_calm:
  assumes "get_remote_block_info_from_hash lib hash cd = Done (b, cd')" "cd_remote_network_info cd \<noteq> None"
  shows "settled cd cd' \<and> same_data cd cd'"
  using assms fetch_block_calm
  by (auto simp: get_remote_block_info_from_hash_def split: option.splits)

lemma from_height_calm:
  assumes "get_remote_block_info_from_height lib height cd = Done (b, cd')" "cd_remote_network_info cd \<noteq> None"
  shows "settled cd cd' \<and> same_data cd cd'"
  using assms fetch_block_calm from_hash_calm
  by (auto simp: get_remote_block_info_from_height_def split: option.splits)

lemma current_height_calm:
  assumes "get_current_block_height lib cd = Done (h, cd')"
  shows "settled cd cd' \<and> same_data cd cd'"
  using assms from_hash_calm
  by (auto simp: get_current_block_height_def bind_outcome_Done_iff split: option.splits if_splits)

lemma remote_chaintip_calm:
  assumes "get_remote_chaintip lib cd = Done (t, cd')"
  shows "settled cd cd' \<and> same_data cd cd'"
proof -
  from assms obtain info h cd1 b where
    "cd_remote_network_info cd = Some info" and h: "get_current_block_height lib cd = Done (h, cd1)"
    and b: "get_remote_block_info_from_height lib (min h (rni_initial_height info)) cd1 = Done (b, cd')"
    by (auto simp: get_remote_chaintip_def bind_outcome_Done_iff expect_def split: option.splits prod.splits)
  moreover from current_height_calm [OF h] have c: "settled cd cd1" "same_data cd cd1" by auto
  ultimately have "cd_remote_network_info cd1 \<noteq> None" by (simp add: settled_def)
  from from_height_calm [OF b this] c show ?thesis using settled_trans same_data_trans by blast
qed

text \<open>The effect of an access: it keeps what is settled and every journal that covers the store.\<close>

definition journaling :: "clarity_datastore \<Rightarrow> clarity_datastore \<Rightarrow> bool" where
  "journaling cd cd' \<longleftrightarrow> settled cd cd' \<and> (\<forall>cd0. journaled cd0 cd \<longrightarrow> journaled cd0 cd') \<and>
     (store_wf (cd_store cd) \<longrightarrow> store_wf (cd_store cd'))"

lemma journaling_refl [simp]: "journaling cd cd"
  by (simp add: journaling_def)

lemma journaling_trans: "journaling a b \<Longrightarrow> journaling b c \<Longrightarrow> journaling a c"
  by (auto simp: journaling_def intro: settled_trans)

lemma calm_journaling: "settled cd cd' \<and> same_data cd cd' \<Longrightarrow> journaling cd cd'"
  by (auto simp: journaling_def same_data_def intro: journaled_same_data [unfolded same_data_def])

lemma put_at_journaling: "journaling cd (put_at height key value cd)"
  by (auto simp: journaling_def journaled_put_at)
    (simp_all add: settled_def put_at_def Let_def store_wf_upd bt_wf_insert values_at_wf)

lemma insert_metadata_journaling: "journaling cd (insert_metadata contract key value cd)"
  by (auto simp: journaling_def journaled_insert_metadata) (simp_all add: settled_def insert_metadata_def Let_def)

lemma put_journaling: "put lib key value cd = Done cd' \<Longrightarrow> journaling cd cd'"
  using journaling_trans [OF calm_journaling [OF current_height_calm] put_at_journaling]
  by (auto simp: put_def bind_outcome_Done_iff)

lemma put_all_data_journaling: "put_all_data lib items cd = Done cd' \<Longrightarrow> journaling cd cd'"
proof (induction items arbitrary: cd)
  case (Cons item items)
  obtain key v where "item = (key, v)" by (cases item)
  with Cons show ?case by (auto simp: bind_outcome_Done_iff intro: journaling_trans put_journaling)
qed simp

lemma fetch_and_keep_journaling:
  assumes "fetch_and_keep lib key cd = Done (r, cd')"
  shows "journaling cd cd'"
proof -
  from assms obtain t cd1 where t: "get_remote_chaintip lib cd = Done (t, cd1)"
    and "cd' = cd1 \<or> (\<exists>value. put lib key value cd1 = Done cd')"
    by (simp add: fetch_and_keep_def fetch_clarity_marf_value_def bind_outcome_Done_iff split: prod.splits option.splits) blast
  with calm_journaling [OF remote_chaintip_calm [OF t]] show ?thesis
    using put_journaling journaling_trans by blast
qed

text \<open>The same for computations with a result, composed along \<open>bind_outcome\<close>.\<close>

definition keeps_journal :: "('a \<times> clarity_datastore) outcome \<Rightarrow> clarity_datastore \<Rightarrow> bool" where
  "keeps_journal m cd \<longleftrightarrow> (\<forall>x cd'. m = Done (x, cd') \<longrightarrow> journaling cd cd')"

lemma keeps_journal_simps [simp]:
  "keeps_journal (Done (x, c)) cd \<longleftrightarrow> journaling cd c" "keeps_journal Panic cd" "keeps_journal Diverge cd"
  by (auto simp: keeps_journal_def)

lemma keeps_journal_bind:
  assumes "keeps_journal m cd" "\<And>x c. m = Done (x, c) \<Longrightarrow> journaling cd c \<Longrightarrow> keeps_journal (f (x, c)) cd"
  shows "keeps_journal (bind_outcome m f) cd"
  using assms by (cases m) (auto simp: keeps_journal_def)

lemma keeps_journal_later: "journaling cd c \<Longrightarrow> keeps_journal m c \<Longrightarrow> keeps_journal m cd"
  by (auto simp: keeps_journal_def intro: journaling_trans)

lemma keeps_journal_current_height: "keeps_journal (get_current_block_height lib cd) cd"
  by (simp add: keeps_journal_def calm_journaling current_height_calm)

lemma keeps_journal_chaintip: "keeps_journal (get_remote_chaintip lib cd) cd"
  by (simp add: keeps_journal_def calm_journaling remote_chaintip_calm)

lemma get_data_journaling: "keeps_journal (get_data lib key cd) cd"
proof -
  have "keeps_journal (remote_or_local_data lib key info h c) cd" if "journaling cd c" for info h c
    using that fetch_and_keep_journaling [of lib key c]
    by (auto simp: remote_or_local_data_def Let_def keeps_journal_def intro: journaling_trans
        split: option.splits if_splits)
  then show ?thesis unfolding get_data_def
    by (intro keeps_journal_bind keeps_journal_current_height)
      (auto simp: is_key_from_local_account_def Let_def split: option.splits list.splits)
qed

lemma set_block_hash_journaling:
  assumes "set_block_hash lib bhh cd = Done (r, cd')"
  shows "journaling cd cd'"
proof (cases "cd_remote_network_info cd = None \<or> fmlookup (cd_height_at_chain_tip cd) bhh \<noteq> None")
  case True
  with assms show ?thesis
    by (intro calm_journaling)
      (auto simp: set_block_hash_def Let_def settled_def same_data_def split: option.splits)
next
  case False
  with assms obtain b cd1 where b: "get_remote_block_info_from_hash lib bhh cd = Done (b, cd1)"
    and c: "cd' = cd1\<lparr>cd_height_at_chain_tip := fmupd bhh (rb_height b) (cd_height_at_chain_tip cd1),
                   cd_chain_tip_at_height := fmupd (rb_height b) bhh (cd_chain_tip_at_height cd1),
                   cd_current_chain_tip := bhh\<rparr>"
    by (auto simp: set_block_hash_def Let_def bind_outcome_Done_iff split: option.splits)
  from from_hash_calm [OF b] False have c1: "settled cd cd1" "same_data cd cd1" by auto
  moreover from this False have "cd_remote_network_info cd1 \<noteq> None" by (simp add: settled_def)
  then have "settled cd1 cd'" "same_data cd1 cd'" using c by (auto simp: settled_def same_data_def)
  ultimately show ?thesis using calm_journaling settled_trans same_data_trans by blast
qed

lemma get_block_at_height_journaling:
  assumes "get_block_at_height lib height cd = Done (r, cd')"
  shows "journaling cd cd'"
  using assms from_height_calm
  by (intro calm_journaling) (auto simp: get_block_at_height_def bind_outcome_Done_iff Let_def split: option.splits if_splits)

lemma write_file_journaling:
  assumes "journaling cd c" "cd_remote_network_info cd \<noteq> None"
  shows "journaling cd (write_file_to_cache name content c)"
proof -
  from assms have "cd_remote_network_info c \<noteq> None" by (simp add: journaling_def settled_def)
  then have "journaling c (write_file_to_cache name content c)"
    by (intro calm_journaling) (auto simp: settled_def same_data_def write_file_to_cache_def)
  with assms(1) show ?thesis by (rule journaling_trans)
qed

lemma fetch_metadata_with_journaling:
  assumes "\<And>raw c. keeps_journal (respond raw c) c" "cd_remote_network_info cd \<noteq> None"
  shows "keeps_journal (fetch_metadata_with respond lib contract key cd) cd"
  unfolding fetch_metadata_with_def
proof (intro keeps_journal_bind keeps_journal_chaintip, simp split: option.split, intro allI impI)
  fix tip c
  assume c: "journaling cd c"
  show "keeps_journal (bind_outcome (respond (fetch_clarity_data lib (metadata_url contract key tip)) c)
      (\<lambda>(response, cd2). Done (response,
         case response of Inr (Some content) \<Rightarrow> write_file_to_cache (metadata_file contract key tip) content cd2 | _ \<Rightarrow> cd2))) cd"
    using c assms(2)
    by (intro keeps_journal_bind keeps_journal_later [OF c assms(1)])
      (auto intro!: write_file_journaling split: sum.split option.split)
qed

lemma get_metadata_with_journaling:
  assumes "\<And>raw c. keeps_journal (respond raw c) c"
  shows "keeps_journal (get_metadata_with respond lib contract key cd) cd"
proof -
  have "keeps_journal (bind_outcome (fetch_metadata_with respond lib contract key cd)
      (\<lambda>(data, cd1). Done (data, case data of Inr (Some value) \<Rightarrow> insert_metadata contract key value cd1 | _ \<Rightarrow> cd1))) cd"
    if "cd_remote_network_info cd \<noteq> None"
    by (intro keeps_journal_bind fetch_metadata_with_journaling assms that)
      (auto intro: journaling_trans insert_metadata_journaling split: sum.split option.split)
  then show ?thesis by (simp add: get_metadata_with_def split: option.split)
qed

lemma keep_response_journaling: "keeps_journal (keep_response raw c) c"
  by (simp add: keep_response_def)

lemma populate_journaling: "keeps_journal (populate_context_functions lib contract raw cd) cd"
  unfolding populate_context_functions_def
proof (intro keeps_journal_bind get_metadata_with_journaling keep_response_journaling, simp split: sum.split option.split,
    intro allI impI)
  fix c ctx src
  assume c: "journaling cd c"
  show "keeps_journal (bind_outcome (get_metadata_with keep_response lib contract (lib_analysis_key lib) c)
      (\<lambda>(analysis, cd2). case analysis of
         Inl e \<Rightarrow> Done (Inl e, cd2)
       | Inr None \<Rightarrow> Done (Inl (''No analysis metadata found for contract: '' @ contract_string contract), cd2)
       | Inr (Some a) \<Rightarrow> Done (map_sum (\<lambda>e. e) Some (lib_rebuild_context lib contract src ctx a), cd2))) cd"
    by (intro keeps_journal_bind keeps_journal_later [OF c get_metadata_with_journaling] keep_response_journaling)
      (simp split: sum.split option.split)
qed

lemma get_metadata_journaling: "keeps_journal (get_metadata lib contract key cd) cd"
  unfolding get_metadata_def
  by (rule get_metadata_with_journaling) (simp add: populate_journaling keep_response_journaling)

lemma access_store_journaling: "access_store lib a cd = Done cd' \<Longrightarrow> journaling cd cd'"
  by (cases a)
    (use get_data_journaling get_metadata_journaling in
      \<open>auto simp: bind_outcome_Done_iff insert_metadata_journaling keeps_journal_def intro: put_all_data_journaling
        set_block_hash_journaling get_block_at_height_journaling\<close>)

lemma access_all_journaling: "access_all lib accesses cd = Done cd' \<Longrightarrow> journaling cd cd'"
  by (induction accesses arbitrary: cd) (auto simp: bind_outcome_Done_iff intro: journaling_trans access_store_journaling)

section \<open>The journal of a rejected block\<close>

definition journal_order :: "simnet_lib \<Rightarrow> bool" where
  "journal_order lib \<longleftrightarrow>
     (\<forall>xs. mset (lib_data_order lib xs) = mset xs) \<and> (\<forall>xs. mset (lib_metadata_order lib xs) = mset xs)"

lemma journaled_begin:
  assumes "store_wf (cd_store cd)" "begin_write_journal cd = Done cd'"
  shows "cd_write_journal cd = None \<and> cd' = cd\<lparr>cd_write_journal := Some \<lparr>wj_data = [], wj_metadata = []\<rparr>\<rparr> \<and> journaled cd cd'"
  using assms by (auto simp: begin_write_journal_def journaled_def original_def split: option.splits)

lemma finish_restores:
  assumes "journal_order lib" "store_wf (cd_store cd0)" "journaled cd0 cd"
  shows "finish_write_journal lib False cd =
     Done (cd\<lparr>cd_write_journal := None, cd_store := cd_store cd0, cd_metadata := cd_metadata cd0\<rparr>)"
proof -
  from assms(3) obtain j where j: "cd_write_journal cd = Some j" "store_wf (cd_store cd)"
    "original (wj_data j) (\<lambda>(k, h). value_of (cd_store cd0) k h) (\<lambda>(k, h). value_of (cd_store cd) k h)"
    "original (wj_metadata j) (fmlookup (cd_metadata cd0)) (fmlookup (cd_metadata cd))"
    by (auto simp: journaled_def split: option.splits)
  let ?d = "lib_data_order lib (wj_data j)" and ?m = "lib_metadata_order lib (wj_metadata j)"
  from assms(1) have d: "mset ?d = mset (wj_data j)" and m: "mset ?m = mset (wj_metadata j)"
    by (simp_all add: journal_order_def)
  note vd = foldl_restore_data [OF original_order(1) [OF j(3) d] j(2)]
  have "foldl restore_data (cd_store cd) ?d = cd_store cd0"
  proof (rule store_ext)
    show "value_of (foldl restore_data (cd_store cd) ?d) k h = value_of (cd_store cd0) k h" for k h
      using vd [of k h] original_order(2) [OF j(3) d, of "(k, h)"] by (auto split: option.splits)
  qed (use vd assms(2) in auto)
  moreover have "foldl (\<lambda>m (key, previous). entry_restore \<lparr>eu_key = key, eu_previous = previous\<rparr> m) (cd_metadata cd) ?m = cd_metadata cd0"
    by (rule fmap_ext) (simp add: foldl_entry_restore [OF original_order(1) [OF j(4) m]] original_order(2) [OF j(4) m])
  ultimately show ?thesis using j(1) by (simp add: finish_write_journal_def Let_def)
qed

section \<open>The tables of a rejected block\<close>

lemma entry_restore_capture:
  assumes "\<And>k'. k' \<noteq> k \<Longrightarrow> fmlookup m' k' = fmlookup m k'"
  shows "entry_restore (entry_capture m k) m' = m"
  by (rule fmap_ext) (use assms in \<open>auto simp: entry_capture_def entry_restore_lookup\<close>)

lemma entry_restore_upd [simp]: "entry_restore (entry_capture m k) (fmupd k v m) = m"
  by (rule entry_restore_capture) simp

lemma entry_restore_or_insert [simp]: "entry_restore (entry_capture m k) (fm_or_insert k v m) = m"
  by (rule entry_restore_capture) (simp add: fm_or_insert_def split: option.splits)

text \<open>What advancing by one Stacks block does to the two stores.\<close>

lemma advance_one_stacks_block_effect:
  assumes "advance_one_stacks_block lib (ds, cd) = Done (ds', cd')"
  obtains b cd1 where "journaling cd cd1"
    "ds' = ds\<lparr>ds_stacks_chain_height := ds_stacks_chain_height ds + 1,
        ds_stacks_blocks := fmupd (height_to_hashed_bytes lib (ds_stacks_chain_height ds + 1)) b (ds_stacks_blocks ds),
        ds_tenure_height_at_stacks_height :=
          fmupd (ds_stacks_chain_height ds + 1) (ds_tenure_height ds) (ds_tenure_height_at_stacks_height ds)\<rparr>"
    "cd' = cd1\<lparr>cd_height_at_chain_tip := fm_or_insert (height_to_hashed_bytes lib (ds_stacks_chain_height ds + 1))
          (ds_stacks_chain_height ds + 1) (cd_height_at_chain_tip cd1),
        cd_chain_tip_at_height := fm_or_insert (ds_stacks_chain_height ds + 1)
          (height_to_hashed_bytes lib (ds_stacks_chain_height ds + 1)) (cd_chain_tip_at_height cd1),
        cd_open_chain_tip := height_to_hashed_bytes lib (ds_stacks_chain_height ds + 1),
        cd_current_chain_tip := height_to_hashed_bytes lib (ds_stacks_chain_height ds + 1)\<rparr>"
proof -
  from assms obtain b cd1 where
    "(if lib_marfed_block_time lib (ds_current_epoch ds)
      then put_all_data lib [(CLARITY_STORAGE_BLOCK_TIME_KEY, show_nat (unat (si_stacks_block_time b)))] cd
      else Done cd) = Done cd1"
    and r: "(ds', cd') =
      (ds\<lparr>ds_stacks_chain_height := ds_stacks_chain_height ds + 1,
        ds_stacks_blocks := fmupd (height_to_hashed_bytes lib (ds_stacks_chain_height ds + 1)) b (ds_stacks_blocks ds),
        ds_tenure_height_at_stacks_height :=
          fmupd (ds_stacks_chain_height ds + 1) (ds_tenure_height ds) (ds_tenure_height_at_stacks_height ds)\<rparr>,
       cd1\<lparr>cd_height_at_chain_tip := fm_or_insert (height_to_hashed_bytes lib (ds_stacks_chain_height ds + 1))
          (ds_stacks_chain_height ds + 1) (cd_height_at_chain_tip cd1),
        cd_chain_tip_at_height := fm_or_insert (ds_stacks_chain_height ds + 1)
          (height_to_hashed_bytes lib (ds_stacks_chain_height ds + 1)) (cd_chain_tip_at_height cd1),
        cd_open_chain_tip := height_to_hashed_bytes lib (ds_stacks_chain_height ds + 1),
        cd_current_chain_tip := height_to_hashed_bytes lib (ds_stacks_chain_height ds + 1)\<rparr>)"
    by (simp add: advance_one_stacks_block_def Let_def bind_outcome_Done_iff del: put_all_data.simps) blast
  then have "journaling cd cd1" using put_all_data_journaling by (metis journaling_refl outcome.inject)
  with r that show thesis by blast
qed

text \<open>
  A store in the middle of a tentative block: the tables are those of the next block, data and
  metadata are covered by the journal.
\<close>

definition tentative :: "simnet_lib \<Rightarrow> simnet \<Rightarrow> simnet \<Rightarrow> bool" where
  "tentative lib sim sim' \<longleftrightarrow>
     fst (undo_restore (checkpoint_next_block lib sim) sim') = fst sim \<and>
     journaled (snd sim) (snd sim') \<and>
     cd_remote_network_info (snd sim') = cd_remote_network_info (snd sim) \<and>
     cd_local_accounts (snd sim') = cd_local_accounts (snd sim) \<and>
     (cd_remote_network_info (snd sim) = None \<longrightarrow>
        (let h = ds_stacks_chain_height (fst sim) + 1; i = height_to_hashed_bytes lib h
         in cd_height_at_chain_tip (snd sim') = fm_or_insert i h (cd_height_at_chain_tip (snd sim)) \<and>
            cd_chain_tip_at_height (snd sim') = fm_or_insert h i (cd_chain_tip_at_height (snd sim))) \<and>
        cd_remote_block_info_cache (snd sim') = cd_remote_block_info_cache (snd sim) \<and>
        cd_remote_sortition_cache (snd sim') = cd_remote_sortition_cache (snd sim) \<and>
        cd_files (snd sim') = cd_files (snd sim))"

lemma tentative_journaling:
  assumes "tentative lib sim (ds', cd1)" "journaling cd1 cd2"
  shows "tentative lib sim (ds', cd2)"
  using assms by (auto simp: tentative_def journaling_def settled_def undo_restore_def Let_def split: prod.splits)

lemma unat_one_u32 [simp]: "unat (1 :: u32) = 1"
  by simp

lemma advance_stacks_tentative:
  assumes "journaled cd cdj" "settled cd cdj" "\<not> ds_current_epoch ds < Epoch30"
    and "advance_one_stacks_block lib (ds, cdj) = Done (ds', cd')"
  shows "tentative lib (ds, cd) (ds', cd')"
  using assms(4)
proof (rule advance_one_stacks_block_effect)
  fix b cd1
  assume j: "journaling cdj cd1"
    and ds': "ds' = ds\<lparr>ds_stacks_chain_height := ds_stacks_chain_height ds + 1,
        ds_stacks_blocks := fmupd (height_to_hashed_bytes lib (ds_stacks_chain_height ds + 1)) b (ds_stacks_blocks ds),
        ds_tenure_height_at_stacks_height :=
          fmupd (ds_stacks_chain_height ds + 1) (ds_tenure_height ds) (ds_tenure_height_at_stacks_height ds)\<rparr>"
    and cd': "cd' = cd1\<lparr>cd_height_at_chain_tip := fm_or_insert (height_to_hashed_bytes lib (ds_stacks_chain_height ds + 1))
          (ds_stacks_chain_height ds + 1) (cd_height_at_chain_tip cd1),
        cd_chain_tip_at_height := fm_or_insert (ds_stacks_chain_height ds + 1)
          (height_to_hashed_bytes lib (ds_stacks_chain_height ds + 1)) (cd_chain_tip_at_height cd1),
        cd_open_chain_tip := height_to_hashed_bytes lib (ds_stacks_chain_height ds + 1),
        cd_current_chain_tip := height_to_hashed_bytes lib (ds_stacks_chain_height ds + 1)\<rparr>"
  have "fst (undo_restore (checkpoint_next_block lib (ds, cd)) (ds', cd')) = ds"
    using assms(3) unfolding ds' by (simp add: undo_restore_def checkpoint_next_block_def Let_def)
  moreover have "settled cd cd1" using j assms(2) settled_trans by (auto simp: journaling_def)
  moreover have "journaled cd cd1" using j assms(1) by (simp add: journaling_def)
  moreover have "same_data cd1 cd'" unfolding cd' by (simp add: same_data_def)
  ultimately show ?thesis unfolding tentative_def
    by (auto simp: cd' settled_def Let_def intro: journaled_same_data)
qed

lemma advance_burn_tentative:
  assumes "journaled cd cdj" "settled cd cdj" "ds_current_epoch ds < Epoch30"
    and "advance_one_burn_block lib (ds, cdj) = Done (ds', cd')"
  shows "tentative lib (ds, cd) (ds', cd')"
proof -
  from assms(4) obtain time ds1 where
    a: "advance_one_stacks_block lib (add_burn_block lib time ds, cdj) = Done (ds1, cd')"
    and ds': "ds' = ds1\<lparr>ds_stacks_height_at_tenure_height :=
      fmupd (ds_tenure_height ds1) (ds_stacks_chain_height ds1) (ds_stacks_height_at_tenure_height ds1)\<rparr>"
    by (auto simp: advance_one_burn_block_def advance_stacks_chain_tip_def bind_outcome_Done_iff)
  from a show ?thesis
  proof (rule advance_one_stacks_block_effect)
    let ?ds = "add_burn_block lib time ds"
    fix b cd1
    assume j: "journaling cdj cd1"
      and ds1: "ds1 = ?ds\<lparr>ds_stacks_chain_height := ds_stacks_chain_height ?ds + 1,
        ds_stacks_blocks := fmupd (height_to_hashed_bytes lib (ds_stacks_chain_height ?ds + 1)) b (ds_stacks_blocks ?ds),
        ds_tenure_height_at_stacks_height :=
          fmupd (ds_stacks_chain_height ?ds + 1) (ds_tenure_height ?ds) (ds_tenure_height_at_stacks_height ?ds)\<rparr>"
      and cd': "cd' = cd1\<lparr>cd_height_at_chain_tip := fm_or_insert (height_to_hashed_bytes lib (ds_stacks_chain_height ?ds + 1))
          (ds_stacks_chain_height ?ds + 1) (cd_height_at_chain_tip cd1),
        cd_chain_tip_at_height := fm_or_insert (ds_stacks_chain_height ?ds + 1)
          (height_to_hashed_bytes lib (ds_stacks_chain_height ?ds + 1)) (cd_chain_tip_at_height cd1),
        cd_open_chain_tip := height_to_hashed_bytes lib (ds_stacks_chain_height ?ds + 1),
        cd_current_chain_tip := height_to_hashed_bytes lib (ds_stacks_chain_height ?ds + 1)\<rparr>"
    have h: "ds_stacks_chain_height ?ds = ds_stacks_chain_height ds" by (simp add: add_burn_block_def Let_def)
    have "fst (undo_restore (checkpoint_next_block lib (ds, cd)) (ds', cd')) = ds"
      using assms(3) unfolding ds' ds1
      by (simp add: undo_restore_def checkpoint_next_block_def checkpoint_burn_def restore_burn_def add_burn_block_def Let_def)
    moreover have "settled cd cd1" using j assms(2) settled_trans by (auto simp: journaling_def)
    moreover have "journaled cd cd1" using j assms(1) by (simp add: journaling_def)
    moreover have "same_data cd1 cd'" unfolding cd' by (simp add: same_data_def)
    ultimately show ?thesis unfolding tentative_def
      by (auto simp: cd' h settled_def Let_def intro: journaled_same_data)
  qed
qed

lemma advance_chain_tip_tentative:
  assumes "journaled cd cdj" "settled cd cdj" "advance_chain_tip lib 1 (ds, cdj) = Done (n, sim1)"
  shows "tentative lib (ds, cd) sim1"
proof (cases "ds_current_epoch ds < Epoch30")
  case True
  with assms(3) obtain ds1 cd1 cd2 where a: "advance_one_burn_block lib (ds, cdj) = Done (ds1, cd1)"
    and p: "put_all_data lib [(''_stx-data::tenure_height'', lib_serialize_u32 lib (get_current_tenure ds1))] cd1 = Done cd2"
    and "sim1 = (ds1, cd2)"
    by (auto simp: advance_chain_tip_def interpreter_advance_burn_chain_tip_def advance_burn_chain_tip_def
        set_tenure_height_def bind_outcome_Done_iff simp del: put_all_data.simps)
  with tentative_journaling [OF advance_burn_tentative [OF assms(1,2) True a] put_all_data_journaling [OF p]]
  show ?thesis by simp
next
  case False
  with assms(3) have "advance_one_stacks_block lib (ds, cdj) = Done sim1"
    by (auto simp: advance_chain_tip_def interpreter_advance_stacks_chain_tip_def advance_stacks_chain_tip_def
        bind_outcome_Done_iff)
  with advance_stacks_tentative [OF assms(1,2) False, of lib] show ?thesis by (cases sim1) simp
qed

lemma execute_in_next_block_Done:
  assumes "execute_raw_transaction_in_next_block lib execute (ds, cd) = Done (included, sim')"
  obtains cdj n ds1 cd1 cd2 cd3 where "begin_write_journal cd = Done cdj"
    "advance_chain_tip lib 1 (ds, cdj) = Done (n, ds1, cd1)"
    "included = snd (execute (ds1, cd1))"
    "access_all lib (fst (execute (ds1, cd1))) cd1 = Done cd2"
    "finish_write_journal lib included cd2 = Done cd3"
    "sim' = (if included then (ds1, cd3) else undo_restore (checkpoint_next_block lib (ds, cd)) (ds1, cd3))"
  using assms
  by (auto simp: execute_raw_transaction_in_next_block_def Let_def bind_outcome_Done_iff case_prod_beta)

end
