(* ===== verification/Simnet_Chain_Correct.thy ===== *)
theory Simnet_Chain_Correct
  imports Simnet_Undo
begin

text \<open>
  The block tables implement two lists. The abstract chain is the list of the times of its burn
  blocks and the list of its Stacks blocks, each with the index of its burn block and its time;
  numbers are unbounded there. \<open>represents\<close> relates it to the tables, which are indexed by digests of
  heights and hold machine integers, and every operation that advances the chain is simulated.
  What the virtual machine looks up about blocks is then read off the lists.
\<close>

section \<open>The abstract chain\<close>

record chain =
  ch_burns :: "nat list"
  ch_blocks :: "(nat \<times> nat) list"

definition chain_new :: "nat \<Rightarrow> chain" where
  "chain_new now = \<lparr>ch_burns = [now], ch_blocks = [(0, now + 10)]\<rparr>"

definition chain_block :: "chain \<Rightarrow> chain" where
  "chain_block c = c\<lparr>ch_blocks := ch_blocks c @
     [(length (ch_burns c) - 1, max (snd (last (ch_blocks c))) (last (ch_burns c)) + 10)]\<rparr>"

definition chain_burn :: "chain \<Rightarrow> chain" where
  "chain_burn c = c\<lparr>ch_burns := ch_burns c @
     [if last (ch_burns c) + 600 < snd (last (ch_blocks c)) then snd (last (ch_blocks c)) + 10 else last (ch_burns c) + 600]\<rparr>"

text \<open>
  Times ascend, burn blocks precede the Stacks blocks that refer to them, every burn block has a
  Stacks block, and no time is more than 610 seconds per block past the start.
\<close>

definition chain_ok :: "nat \<Rightarrow> chain \<Rightarrow> bool" where
  "chain_ok now c \<longleftrightarrow>
     ch_burns c \<noteq> [] \<and> ch_blocks c \<noteq> [] \<and>
     sorted_wrt (<) (ch_burns c) \<and> sorted_wrt (<) (map snd (ch_blocks c)) \<and> sorted (map fst (ch_blocks c)) \<and>
     (\<forall>(k, t) \<in> set (ch_blocks c). k < length (ch_burns c) \<and> ch_burns c ! k < t) \<and>
     fst ` set (ch_blocks c) = {..<length (ch_burns c)} \<and> length (ch_burns c) \<le> length (ch_blocks c) \<and>
     (\<forall>t \<in> set (ch_burns c) \<union> snd ` set (ch_blocks c). t \<le> now + 610 * (length (ch_burns c) + length (ch_blocks c)))"

lemma last_max:
  fixes xs :: "nat list"
  assumes "sorted_wrt (<) xs" "x \<in> set xs"
  shows "x \<le> last xs"
  using assms
proof (induction xs)
  case (Cons y ys)
  then show ?case using last_in_set [of ys] by (cases "ys = []") (auto simp: less_imp_le)
qed simp

lemma sorted_wrt_snoc_last:
  fixes xs :: "nat list"
  assumes "sorted_wrt (<) xs" "last xs < x"
  shows "sorted_wrt (<) (xs @ [x])"
  using assms last_max [OF assms(1)] by (fastforce simp: sorted_wrt_append)

lemma chain_new_ok: "chain_ok now (chain_new now)"
  by (auto simp: chain_ok_def chain_new_def)

lemma chain_ok_last:
  assumes "chain_ok now c"
  shows "snd (last (ch_blocks c)) \<le> now + 610 * (length (ch_burns c) + length (ch_blocks c))"
    and "last (ch_burns c) \<le> now + 610 * (length (ch_burns c) + length (ch_blocks c))"
proof -
  have "last (ch_blocks c) \<in> set (ch_blocks c)" "last (ch_burns c) \<in> set (ch_burns c)"
    and b: "\<And>t. t \<in> set (ch_burns c) \<union> snd ` set (ch_blocks c) \<Longrightarrow> t \<le> now + 610 * (length (ch_burns c) + length (ch_blocks c))"
    using assms by (auto simp: chain_ok_def)
  then show "snd (last (ch_blocks c)) \<le> now + 610 * (length (ch_burns c) + length (ch_blocks c))"
    "last (ch_burns c) \<le> now + 610 * (length (ch_burns c) + length (ch_blocks c))" by blast+
qed

text \<open>A burn block comes with a Stacks block.\<close>

lemma chain_block_ok:
  assumes "chain_ok now c"
  shows "chain_ok now (chain_block c)"
proof -
  let ?t = "max (snd (last (ch_blocks c))) (last (ch_burns c)) + 10" and ?k = "length (ch_burns c) - 1"
  note ok = assms [unfolded chain_ok_def]
  have k: "?k < length (ch_burns c)" "ch_burns c ! ?k = last (ch_burns c)" using ok by (auto simp: last_conv_nth)
  have "sorted_wrt (<) (map snd (ch_blocks c) @ [?t])"
    using ok by (intro sorted_wrt_snoc_last) (auto simp: last_map)
  moreover have "sorted (map fst (ch_blocks c) @ [?k])" using ok by (fastforce simp: sorted_append)
  moreover from chain_ok_last [OF assms] have "?t \<le> now + 610 * (length (ch_burns c) + Suc (length (ch_blocks c)))" by simp
  moreover have "t \<le> now + 610 * (length (ch_burns c) + Suc (length (ch_blocks c)))"
    if "t \<in> set (ch_burns c) \<union> snd ` set (ch_blocks c)" for t
    using ok that by (meson add_le_mono1 dual_order.trans le_SucI mult_le_mono2 nat_add_left_cancel_le order_refl)
  moreover have "{..<length (ch_burns c)} = insert ?k {..<length (ch_burns c)}" using k(1) by auto
  ultimately show ?thesis using ok k by (auto simp: chain_ok_def chain_block_def)
qed

lemma chain_burn_block_ok:
  assumes "chain_ok now c"
  shows "chain_ok now (chain_block (chain_burn c))"
proof -
  let ?b = "if last (ch_burns c) + 600 < snd (last (ch_blocks c)) then snd (last (ch_blocks c)) + 10 else last (ch_burns c) + 600"
  let ?t = "max (snd (last (ch_blocks c))) ?b + 10" and ?k = "length (ch_burns c)"
  let ?M = "now + 610 * (length (ch_burns c) + length (ch_blocks c))"
  note ok = assms [unfolded chain_ok_def]
  have "sorted_wrt (<) (ch_burns c @ [?b])" using ok by (intro sorted_wrt_snoc_last) auto
  moreover have "sorted_wrt (<) (map snd (ch_blocks c) @ [?t])"
    using ok by (intro sorted_wrt_snoc_last) (auto simp: last_map)
  moreover have "sorted (map fst (ch_blocks c) @ [?k])" using ok by (fastforce simp: sorted_append)
  moreover from chain_ok_last [OF assms] have "?b \<le> ?M + 600" "?t \<le> ?M + 610" by auto
  moreover have "?M + 610 \<le> now + 610 * (Suc (length (ch_burns c)) + Suc (length (ch_blocks c)))" by simp
  moreover have "{..<Suc ?k} = insert ?k {..<?k}" by auto
  moreover have "t \<le> ?M" if "t \<in> set (ch_burns c) \<union> snd ` set (ch_blocks c)" for t using ok that by blast
  moreover have "k < Suc ?k \<and> (ch_burns c @ [?b]) ! k < t" if "(k, t) \<in> set (ch_blocks c)" for k t
    using ok that by (auto simp: nth_append)
  ultimately have "chain_ok now \<lparr>ch_burns = ch_burns c @ [?b], ch_blocks = ch_blocks c @ [(?k, ?t)]\<rparr>"
    using ok unfolding chain_ok_def by (intro conjI) (simp_all, fastforce+)
  moreover have "chain_block (chain_burn c) = \<lparr>ch_burns = ch_burns c @ [?b], ch_blocks = ch_blocks c @ [(?k, ?t)]\<rparr>"
    by (cases c) (simp add: chain_block_def chain_burn_def)
  ultimately show ?thesis by metis
qed

section \<open>Digests of heights\<close>

text \<open>Two heights never share the bytes that the identifiers keep of their digest.\<close>

definition distinct_hashes :: "simnet_lib \<Rightarrow> bool" where
  "distinct_hashes lib \<longleftrightarrow>
     inj (\<lambda>h. tl (take 20 (height_to_hashed_bytes lib h))) \<and> (\<forall>h. length (height_to_hashed_bytes lib h) = 32)"

abbreviation block_hash :: "simnet_lib \<Rightarrow> nat \<Rightarrow> u8 list" where
  "block_hash lib n \<equiv> height_to_hashed_bytes lib (of_nat n)"

abbreviation burn_hashes :: "simnet_lib \<Rightarrow> nat \<Rightarrow> burn_block_hashes" where
  "burn_hashes lib n \<equiv> burn_block_hashes_from_height lib (of_nat n)"

lemma unat_of_nat_u32 [simp]: "n < 2 ^ 32 \<Longrightarrow> unat (of_nat n :: u32) = n"
  by (simp add: unsigned_of_nat take_bit_nat_eq_self)

lemma of_nat_u32_inject: "n < 2 ^ 32 \<Longrightarrow> m < 2 ^ 32 \<Longrightarrow> (of_nat n :: u32) = of_nat m \<longleftrightarrow> n = m"
  by (metis unat_of_nat_u32)

lemma unat_of_nat_u64 [simp]: "n < 2 ^ 64 \<Longrightarrow> unat (of_nat n :: u64) = n"
  by (simp add: unsigned_of_nat take_bit_nat_eq_self)

lemma hash_tail_inject:
  "distinct_hashes lib \<Longrightarrow> tl (take 20 (height_to_hashed_bytes lib h)) = tl (take 20 (height_to_hashed_bytes lib h')) \<longleftrightarrow> h = h'"
  by (auto simp: distinct_hashes_def dest: injD)

lemma block_hash_inject:
  assumes "distinct_hashes lib" "n < 2 ^ 32" "m < 2 ^ 32"
  shows "block_hash lib n = block_hash lib m \<longleftrightarrow> n = m"
  using hash_tail_inject [OF assms(1), of "of_nat n" "of_nat m"] of_nat_u32_inject [OF assms(2,3)] by auto

lemma burn_hashes_inject:
  assumes "distinct_hashes lib" "n < 2 ^ 32" "m < 2 ^ 32"
  shows "bh_header_hash (burn_hashes lib n) = bh_header_hash (burn_hashes lib m) \<longleftrightarrow> n = m"
    and "bh_consensus_hash (burn_hashes lib n) = bh_consensus_hash (burn_hashes lib m) \<longleftrightarrow> n = m"
    and "bh_sortition_id (burn_hashes lib n) = bh_sortition_id (burn_hashes lib m) \<longleftrightarrow> n = m"
proof -
  have t: "tl (take 20 (xs[0 := x])) = tl (take 20 xs)" for xs :: "u8 list" and x by (cases xs) auto
  have i: "tl (take 20 (block_hash lib n)) = tl (take 20 (block_hash lib m)) \<longleftrightarrow> n = m"
    using hash_tail_inject [OF assms(1)] of_nat_u32_inject [OF assms(2,3)] by blast
  show "bh_header_hash (burn_hashes lib n) = bh_header_hash (burn_hashes lib m) \<longleftrightarrow> n = m"
    "bh_consensus_hash (burn_hashes lib n) = bh_consensus_hash (burn_hashes lib m) \<longleftrightarrow> n = m"
    "bh_sortition_id (burn_hashes lib n) = bh_sortition_id (burn_hashes lib m) \<longleftrightarrow> n = m"
    by (auto simp: burn_block_hashes_from_height_def Let_def) (metis i t)+
qed

section \<open>Tables of a chain\<close>

definition tables :: "simnet_lib \<Rightarrow> chain \<Rightarrow> simnet \<Rightarrow> bool" where
  "tables lib c sim \<longleftrightarrow>
     (case sim of
        (ds, cd) \<Rightarrow>
          ch_burns c \<noteq> [] \<and> ch_blocks c \<noteq> [] \<and> length (ch_burns c) \<le> 2 ^ 32 \<and> length (ch_blocks c) \<le> 2 ^ 32 \<and>
          (\<forall>(k, t) \<in> set (ch_blocks c). k < length (ch_burns c)) \<and>
          cd_remote_network_info cd = None \<and> ds_remote_network_info ds = None \<and> cd_remote_block_info_cache cd = fmempty \<and>
          store_wf (cd_store cd) \<and>
          ds_genesis_id ds = block_hash lib 0 \<and>
          ds_stacks_chain_height ds = of_nat (length (ch_blocks c) - 1) \<and>
          ds_burn_chain_height ds = of_nat (length (ch_burns c) - 1) \<and>
          ds_tenure_height ds = of_nat (length (ch_burns c) - 1) \<and>
          cd_open_chain_tip cd = block_hash lib (length (ch_blocks c) - 1) \<and>
          ds_burn_chain_tip ds = bh_header_hash (burn_hashes lib (length (ch_burns c) - 1)) \<and>
          (\<forall>n < 2 ^ 32.
             fmlookup (cd_height_at_chain_tip cd) (block_hash lib n) =
               (if n < length (ch_blocks c) then Some (of_nat n) else None) \<and>
             fmlookup (cd_chain_tip_at_height cd) (of_nat n) =
               (if n < length (ch_blocks c) then Some (block_hash lib n) else None)) \<and>
          (\<forall>n < length (ch_blocks c).
             fmlookup (ds_stacks_blocks ds) (block_hash lib n) =
               Some \<lparr>si_block_header_hash = (if n = 0 then block_hash lib 0 else (block_hash lib n)[0 := 1]),
                     si_burn_block_header_hash = bh_header_hash (burn_hashes lib (fst (ch_blocks c ! n))),
                     si_stacks_block_time = of_nat (snd (ch_blocks c ! n))\<rparr> \<and>
             fmlookup (ds_tenure_height_at_stacks_height ds) (of_nat n) = Some (of_nat (fst (ch_blocks c ! n)))) \<and>
          (\<forall>k < length (ch_burns c).
             fmlookup (ds_burn_blocks ds) (bh_header_hash (burn_hashes lib k)) =
               Some \<lparr>bi_consensus_hash = bh_consensus_hash (burn_hashes lib k), bi_vrf_seed = bh_vrf_seed (burn_hashes lib k),
                     bi_sortition_id = bh_sortition_id (burn_hashes lib k), bi_burn_block_time = of_nat (ch_burns c ! k),
                     bi_burn_chain_height = of_nat k\<rparr> \<and>
             fmlookup (ds_consensus_hash_lookup ds) (bh_consensus_hash (burn_hashes lib k)) = Some (bh_sortition_id (burn_hashes lib k)) \<and>
             fmlookup (ds_sortition_lookup ds) (bh_sortition_id (burn_hashes lib k)) = Some (bh_header_hash (burn_hashes lib k))))"

text \<open>The first block of every tenure.\<close>

definition tenures :: "chain \<Rightarrow> datastore \<Rightarrow> bool" where
  "tenures c ds \<longleftrightarrow>
     (\<forall>k < length (ch_burns c). \<exists>h < length (ch_blocks c).
        fmlookup (ds_stacks_height_at_tenure_height ds) (of_nat k) = Some (of_nat h) \<and>
        fst (ch_blocks c ! h) = k \<and> (\<forall>h' < h. fst (ch_blocks c ! h') < k))"

definition represents :: "simnet_lib \<Rightarrow> nat \<Rightarrow> chain \<Rightarrow> simnet \<Rightarrow> bool" where
  "represents lib now c sim \<longleftrightarrow> chain_ok now c \<and> tables lib c sim \<and> tenures c (fst sim)"

lemma tablesD:
  assumes "tables lib c (ds, cd)"
  shows "ch_burns c \<noteq> []" "ch_blocks c \<noteq> []" "length (ch_burns c) \<le> 2 ^ 32" "length (ch_blocks c) \<le> 2 ^ 32"
    "(k, t) \<in> set (ch_blocks c) \<Longrightarrow> k < length (ch_burns c)"
    "cd_remote_network_info cd = None" "ds_remote_network_info ds = None"
    "cd_remote_block_info_cache cd = fmempty" "store_wf (cd_store cd)" "ds_genesis_id ds = block_hash lib 0"
    "ds_stacks_chain_height ds = of_nat (length (ch_blocks c) - 1)"
    "ds_burn_chain_height ds = of_nat (length (ch_burns c) - 1)" "ds_tenure_height ds = of_nat (length (ch_burns c) - 1)"
    "cd_open_chain_tip cd = block_hash lib (length (ch_blocks c) - 1)"
    "ds_burn_chain_tip ds = bh_header_hash (burn_hashes lib (length (ch_burns c) - 1))"
    "n < 2 ^ 32 \<Longrightarrow> fmlookup (cd_height_at_chain_tip cd) (block_hash lib n) =
       (if n < length (ch_blocks c) then Some (of_nat n) else None)"
    "n < 2 ^ 32 \<Longrightarrow> fmlookup (cd_chain_tip_at_height cd) (of_nat n) =
       (if n < length (ch_blocks c) then Some (block_hash lib n) else None)"
    "n < length (ch_blocks c) \<Longrightarrow> fmlookup (ds_stacks_blocks ds) (block_hash lib n) =
       Some \<lparr>si_block_header_hash = (if n = 0 then block_hash lib 0 else (block_hash lib n)[0 := 1]),
             si_burn_block_header_hash = bh_header_hash (burn_hashes lib (fst (ch_blocks c ! n))),
             si_stacks_block_time = of_nat (snd (ch_blocks c ! n))\<rparr>"
    "n < length (ch_blocks c) \<Longrightarrow>
       fmlookup (ds_tenure_height_at_stacks_height ds) (of_nat n) = Some (of_nat (fst (ch_blocks c ! n)))"
    "k < length (ch_burns c) \<Longrightarrow> fmlookup (ds_burn_blocks ds) (bh_header_hash (burn_hashes lib k)) =
       Some \<lparr>bi_consensus_hash = bh_consensus_hash (burn_hashes lib k), bi_vrf_seed = bh_vrf_seed (burn_hashes lib k),
             bi_sortition_id = bh_sortition_id (burn_hashes lib k), bi_burn_block_time = of_nat (ch_burns c ! k),
             bi_burn_chain_height = of_nat k\<rparr>"
    "k < length (ch_burns c) \<Longrightarrow>
       fmlookup (ds_consensus_hash_lookup ds) (bh_consensus_hash (burn_hashes lib k)) = Some (bh_sortition_id (burn_hashes lib k))"
    "k < length (ch_burns c) \<Longrightarrow>
       fmlookup (ds_sortition_lookup ds) (bh_sortition_id (burn_hashes lib k)) = Some (bh_header_hash (burn_hashes lib k))"
  using assms unfolding tables_def by auto

lemma represents_new:
  assumes "distinct_hashes lib"
  shows "represents lib now (chain_new now)
     (local_datastore_new lib (of_nat now) constants, (store_at (height_to_hashed_bytes lib 0) 0)\<lparr>cd_files := files\<rparr>)"
  using assms chain_new_ok [of now] block_hash_inject [OF assms(1), of 0] of_nat_u32_inject [of 0]
  by (simp add: represents_def tables_def tenures_def chain_new_def local_datastore_new_def tables_at_def store_at_def Let_def
      burn_block_hashes_from_height_def SECONDS_BETWEEN_STACKS_BLOCKS_def add.commute)

lemma tables_settled:
  assumes "tables lib c (ds, cd)" "settled cd cd'" "store_wf (cd_store cd')"
  shows "tables lib c (ds, cd')"
  using assms unfolding tables_def settled_def by simp

lemma tables_journaling:
  assumes "tables lib c (ds, cd)" "journaling cd cd'"
  shows "tables lib c (ds, cd')"
  using tables_settled [OF assms(1)] tablesD(9) [OF assms(1)] assms(2) by (simp add: journaling_def)

section \<open>Advancing the tables\<close>

lemma of_nat_u64_less: "a < 2 ^ 64 \<Longrightarrow> b < 2 ^ 64 \<Longrightarrow> (of_nat a :: u64) < of_nat b \<longleftrightarrow> a < b"
  by (simp add: word_less_nat_alt)

lemma of_nat_u64_max: "a < 2 ^ 64 \<Longrightarrow> b < 2 ^ 64 \<Longrightarrow> max (of_nat a :: u64) (of_nat b) = of_nat (max a b)"
  by (simp add: max_def word_le_nat_alt)

lemma local_current_height:
  assumes "cd_remote_network_info cd = None"
  shows "\<exists>h. get_current_block_height lib cd = Done (h, cd)"
  using assms by (simp add: get_current_block_height_def split: option.split)

lemma local_put_all_data:
  assumes "cd_remote_network_info cd = None"
  shows "\<exists>cd'. put_all_data lib items cd = Done cd'"
  using assms
proof (induction items arbitrary: cd)
  case (Cons item items)
  obtain key v where item: "item = (key, v)" by (cases item)
  obtain h where h: "get_current_block_height lib cd = Done (h, cd)" using local_current_height [OF Cons.prems] by blast
  have "cd_remote_network_info (put_at h key v cd) = None" using Cons.prems by (simp add: put_at_def Let_def)
  from Cons.IH [OF this] show ?case using item h by (simp add: put_def)
qed simp

lemma fm_or_insert_new: "fmlookup m k = None \<Longrightarrow> fm_or_insert k v m = fmupd k v m"
  by (simp add: fm_or_insert_def)

lemma advance_stacks_tables:
  assumes lib: "distinct_hashes lib" and t: "tables lib c (ds, cd)" and n: "length (ch_blocks c) < 2 ^ 32"
    and times: "snd (last (ch_blocks c)) < 2 ^ 64" "last (ch_burns c) < 2 ^ 64"
  obtains ds' cd' where "advance_one_stacks_block lib (ds, cd) = Done (ds', cd')" "tables lib (chain_block c) (ds', cd')"
    "ds_stacks_height_at_tenure_height ds' = ds_stacks_height_at_tenure_height ds" "ds_current_epoch ds' = ds_current_epoch ds"
proof -
  let ?n = "length (ch_blocks c)"
  let ?t = "max (snd (last (ch_blocks c))) (last (ch_burns c)) + 10"
  note T = tablesD [OF t]
  have h: "ds_stacks_chain_height ds + 1 = of_nat ?n" using T(2,11) by (cases "ch_blocks c") simp_all
  define b where "b = \<lparr>si_block_header_hash = (block_hash lib ?n)[0 := 1], si_burn_block_header_hash = ds_burn_chain_tip ds,
    si_stacks_block_time = (of_nat ?t :: u64)\<rparr>"
  have build: "build_next_stacks_block lib cd (ds\<lparr>ds_stacks_chain_height := ds_stacks_chain_height ds + 1\<rparr>) = Done b"
    using T(1,2) T(14,15) T(18) [of "?n - 1"] T(20) [of "length (ch_burns c) - 1"] times
    by (simp add: build_next_stacks_block_def Let_def h b_def SECONDS_BETWEEN_STACKS_BLOCKS_def
        last_conv_nth of_nat_u64_max)
  obtain cd1 where put: "(if lib_marfed_block_time lib (ds_current_epoch ds)
      then put_all_data lib [(CLARITY_STORAGE_BLOCK_TIME_KEY, show_nat (unat (si_stacks_block_time b)))] cd
      else Done cd) = Done cd1"
    using local_put_all_data [OF T(6), of lib "[(CLARITY_STORAGE_BLOCK_TIME_KEY, show_nat (unat (si_stacks_block_time b)))]"]
    by (cases "lib_marfed_block_time lib (ds_current_epoch ds)") (auto simp del: put_all_data.simps)
  then have "journaling cd cd1" using put_all_data_journaling by (metis journaling_refl outcome.inject)
  from tablesD [OF tables_journaling [OF t this]] have T1:
    "cd_remote_network_info cd1 = None" "cd_remote_block_info_cache cd1 = fmempty" "store_wf (cd_store cd1)"
    "\<And>m. m < 2 ^ 32 \<Longrightarrow> fmlookup (cd_height_at_chain_tip cd1) (block_hash lib m) = (if m < ?n then Some (of_nat m) else None)"
    "\<And>m. m < 2 ^ 32 \<Longrightarrow> fmlookup (cd_chain_tip_at_height cd1) (of_nat m) = (if m < ?n then Some (block_hash lib m) else None)"
    by blast+
  define ds' where "ds' = ds\<lparr>ds_stacks_chain_height := of_nat ?n, ds_stacks_blocks := fmupd (block_hash lib ?n) b (ds_stacks_blocks ds),
    ds_tenure_height_at_stacks_height := fmupd (of_nat ?n) (ds_tenure_height ds) (ds_tenure_height_at_stacks_height ds)\<rparr>"
  define cd' where "cd' = cd1\<lparr>cd_height_at_chain_tip := fmupd (block_hash lib ?n) (of_nat ?n) (cd_height_at_chain_tip cd1),
    cd_chain_tip_at_height := fmupd (of_nat ?n) (block_hash lib ?n) (cd_chain_tip_at_height cd1),
    cd_open_chain_tip := block_hash lib ?n, cd_current_chain_tip := block_hash lib ?n\<rparr>"
  have a: "advance_one_stacks_block lib (ds, cd) = Done (ds', cd')"
    using build put n T1(4) [of ?n] T1(5) [of ?n]
    by (simp add: advance_one_stacks_block_def Let_def h ds'_def cd'_def fm_or_insert_new del: put_all_data.simps)
  have "tables lib (chain_block c) (ds', cd')"
    unfolding tables_def
    using T(1-5) T(7) T(10) T(12,13,15,20-22) T1(1-3) n
    by (auto simp: chain_block_def ds'_def cd'_def b_def nth_append T(18,19) T1(4,5) less_Suc_eq
        block_hash_inject [OF lib] of_nat_u32_inject)
  with a that show thesis by (simp add: ds'_def)
qed

lemma next_burn_block_time_tables:
  assumes "tables lib c (ds, cd)" "snd (last (ch_blocks c)) < 2 ^ 64" "last (ch_burns c) + 600 < 2 ^ 64"
  shows "next_burn_block_time cd ds = Done (of_nat (last (ch_burns (chain_burn c))))"
proof -
  note T = tablesD [OF assms(1)]
  have "(of_nat (last (ch_burns c)) :: u64) + 600 < of_nat (snd (last (ch_blocks c))) \<longleftrightarrow>
      last (ch_burns c) + 600 < snd (last (ch_blocks c))"
    using of_nat_u64_less [OF assms(3,2)] by simp
  then show ?thesis
    using T(1,2) T(14,15) T(18) [of "length (ch_blocks c) - 1"] T(20) [of "length (ch_burns c) - 1"]
    by (simp add: next_burn_block_time_def chain_burn_def Let_def SECONDS_BETWEEN_STACKS_BLOCKS_def
        SECONDS_BETWEEN_BURN_BLOCKS_def last_conv_nth)
qed

lemma add_burn_block_tables:
  assumes lib: "distinct_hashes lib" and t: "tables lib c (ds, cd)" and n: "length (ch_burns c) < 2 ^ 32"
  shows "tables lib (chain_burn c) (add_burn_block lib (of_nat (last (ch_burns (chain_burn c)))) ds, cd)"
proof -
  let ?n = "length (ch_burns c)"
  define time where "time = last (ch_burns (chain_burn c))"
  note T = tablesD [OF t]
  have h: "ds_burn_chain_height ds + 1 = of_nat ?n" "ds_tenure_height ds + 1 = of_nat ?n"
    using T(1,12,13) by (cases "ch_burns c"; simp)+
  have c: "ch_burns (chain_burn c) = ch_burns c @ [time]" "ch_blocks (chain_burn c) = ch_blocks c"
    by (simp_all add: chain_burn_def time_def)
  define ds' where "ds' = add_burn_block lib (of_nat time) ds"
  have ds': "ds' = ds\<lparr>ds_consensus_hash_lookup :=
              fmupd (bh_consensus_hash (burn_hashes lib ?n)) (bh_sortition_id (burn_hashes lib ?n)) (ds_consensus_hash_lookup ds),
            ds_sortition_lookup := fmupd (bh_sortition_id (burn_hashes lib ?n)) (bh_header_hash (burn_hashes lib ?n)) (ds_sortition_lookup ds),
            ds_burn_chain_tip := bh_header_hash (burn_hashes lib ?n),
            ds_burn_blocks := fmupd (bh_header_hash (burn_hashes lib ?n))
              \<lparr>bi_consensus_hash = bh_consensus_hash (burn_hashes lib ?n), bi_vrf_seed = bh_vrf_seed (burn_hashes lib ?n),
               bi_sortition_id = bh_sortition_id (burn_hashes lib ?n), bi_burn_block_time = of_nat time,
               bi_burn_chain_height = of_nat ?n\<rparr> (ds_burn_blocks ds),
            ds_burn_chain_height := of_nat ?n, ds_tenure_height := of_nat ?n\<rparr>"
    unfolding ds'_def add_burn_block_def Let_def h by simp
  have "tables lib (chain_burn c) (ds', cd)"
    unfolding tables_def c ds'
    using T(2,4-11,14) T(16-19) n
    by (auto simp: nth_append T(20-22) less_Suc_eq burn_hashes_inject [OF lib])
  then show ?thesis by (simp add: ds'_def time_def)
qed

text \<open>The bound on the times keeps them below \<open>2^64\<close>.\<close>

lemma chain_times_bounded:
  assumes "chain_ok now c" "now < 2 ^ 63" "length (ch_blocks c) \<le> 2 ^ 32"
  shows "snd (last (ch_blocks c)) + 610 < 2 ^ 64" "last (ch_burns c) + 610 < 2 ^ 64"
proof -
  have "length (ch_burns c) \<le> 2 ^ 32" using assms(1,3) by (simp add: chain_ok_def)
  then have "now + 610 * (length (ch_burns c) + length (ch_blocks c)) + 610 < 2 ^ 64" using assms(2,3) by simp
  with chain_ok_last [OF assms(1)] show "snd (last (ch_blocks c)) + 610 < 2 ^ 64" "last (ch_burns c) + 610 < 2 ^ 64" by linarith+
qed

lemma represents_block:
  assumes "distinct_hashes lib" "now < 2 ^ 63" "represents lib now c (ds, cd)" "length (ch_blocks c) < 2 ^ 32"
  obtains sim' where "advance_one_stacks_block lib (ds, cd) = Done sim'" "represents lib now (chain_block c) sim'"
    "ds_current_epoch (fst sim') = ds_current_epoch ds"
proof -
  from assms(3) have ok: "chain_ok now c" and t: "tables lib c (ds, cd)" and ten: "tenures c ds" by (simp_all add: represents_def)
  have "snd (last (ch_blocks c)) < 2 ^ 64" "last (ch_burns c) < 2 ^ 64"
    using chain_times_bounded [OF ok assms(2)] assms(4) by simp_all
  from advance_stacks_tables [OF assms(1) t assms(4) this] obtain ds' cd' where
    a: "advance_one_stacks_block lib (ds, cd) = Done (ds', cd')" "tables lib (chain_block c) (ds', cd')"
      "ds_stacks_height_at_tenure_height ds' = ds_stacks_height_at_tenure_height ds" "ds_current_epoch ds' = ds_current_epoch ds" .
  moreover have "tenures (chain_block c) ds'"
    unfolding tenures_def
  proof (intro allI impI)
    fix k
    assume "k < length (ch_burns (chain_block c))"
    then have "k < length (ch_burns c)" by (simp add: chain_block_def)
    with ten obtain h where "h < length (ch_blocks c)"
      "fmlookup (ds_stacks_height_at_tenure_height ds) (of_nat k) = Some (of_nat h)"
      "fst (ch_blocks c ! h) = k" "\<forall>h' < h. fst (ch_blocks c ! h') < k" unfolding tenures_def by blast
    then show "\<exists>h < length (ch_blocks (chain_block c)).
        fmlookup (ds_stacks_height_at_tenure_height ds') (of_nat k) = Some (of_nat h) \<and>
        fst (ch_blocks (chain_block c) ! h) = k \<and> (\<forall>h' < h. fst (ch_blocks (chain_block c) ! h') < k)"
      using a(3) by (intro exI [of _ h]) (simp add: chain_block_def nth_append)
  qed
  ultimately show thesis using that chain_block_ok [OF ok] by (simp add: represents_def)
qed

lemma represents_burn:
  assumes "distinct_hashes lib" "now < 2 ^ 63" "represents lib now c (ds, cd)" "length (ch_blocks c) < 2 ^ 32"
  obtains sim' where "advance_one_burn_block lib (ds, cd) = Done sim'" "represents lib now (chain_block (chain_burn c)) sim'"
    "ds_current_epoch (fst sim') = ds_current_epoch ds"
proof -
  let ?c = "chain_burn c" and ?k = "length (ch_burns c)" and ?h = "length (ch_blocks c)"
  from assms(3) have ok: "chain_ok now c" and t: "tables lib c (ds, cd)" and ten: "tenures c ds" by (simp_all add: represents_def)
  note b = chain_times_bounded [OF ok assms(2)]
  have n: "length (ch_burns c) < 2 ^ 32" using ok assms(4) by (simp add: chain_ok_def)
  have time: "next_burn_block_time cd ds = Done (of_nat (last (ch_burns ?c)))"
    using b assms(4) by (intro next_burn_block_time_tables [OF t]) simp_all
  have "snd (last (ch_blocks ?c)) < 2 ^ 64" "last (ch_burns ?c) < 2 ^ 64" "length (ch_blocks ?c) < 2 ^ 32"
    using b assms(4) by (simp_all add: chain_burn_def)
  from advance_stacks_tables [OF assms(1) add_burn_block_tables [OF assms(1) t n] this(3,1,2)] obtain ds' cd' where
    a: "advance_one_stacks_block lib (add_burn_block lib (of_nat (last (ch_burns ?c))) ds, cd) = Done (ds', cd')"
      "tables lib (chain_block ?c) (ds', cd')"
      "ds_stacks_height_at_tenure_height ds' = ds_stacks_height_at_tenure_height (add_burn_block lib (of_nat (last (ch_burns ?c))) ds)"
      "ds_current_epoch ds' = ds_current_epoch (add_burn_block lib (of_nat (last (ch_burns ?c))) ds)" .
  have s: "ds_stacks_height_at_tenure_height ds' = ds_stacks_height_at_tenure_height ds" "ds_current_epoch ds' = ds_current_epoch ds"
    using a(3,4) by (simp_all add: add_burn_block_def Let_def)
  have th: "ds_tenure_height ds' = of_nat ?k" "ds_stacks_chain_height ds' = of_nat ?h"
    using tablesD(11,13) [OF a(2)] by (simp_all add: chain_block_def chain_burn_def)
  let ?ds = "ds'\<lparr>ds_stacks_height_at_tenure_height := fmupd (of_nat ?k) (of_nat ?h) (ds_stacks_height_at_tenure_height ds')\<rparr>"
  have "tables lib (chain_block ?c) (?ds, cd')" using a(2) by (simp add: tables_def)
  moreover have "tenures (chain_block ?c) ?ds"
    unfolding tenures_def
  proof (intro allI impI)
    fix k
    assume k: "k < length (ch_burns (chain_block ?c))"
    have first: "fst (ch_blocks c ! h') < ?k" if "h' < ?h" for h'
      using ok that by (auto simp: chain_ok_def dest!: nth_mem split: prod.splits)
    show "\<exists>h < length (ch_blocks (chain_block ?c)).
        fmlookup (ds_stacks_height_at_tenure_height ?ds) (of_nat k) = Some (of_nat h) \<and>
        fst (ch_blocks (chain_block ?c) ! h) = k \<and> (\<forall>h' < h. fst (ch_blocks (chain_block ?c) ! h') < k)"
    proof (cases "k = ?k")
      case True
      then show ?thesis using first by (intro exI [of _ ?h]) (simp add: chain_block_def chain_burn_def nth_append)
    next
      case False
      with k have "k < ?k" by (simp add: chain_block_def chain_burn_def)
      with ten obtain h where "h < ?h"
        "fmlookup (ds_stacks_height_at_tenure_height ds) (of_nat k) = Some (of_nat h)"
        "fst (ch_blocks c ! h) = k" "\<forall>h' < h. fst (ch_blocks c ! h') < k" unfolding tenures_def by blast
      then show ?thesis using s(1) \<open>k < ?k\<close> n
        by (intro exI [of _ h]) (simp add: chain_block_def chain_burn_def nth_append of_nat_u32_inject)
    qed
  qed
  ultimately have "represents lib now (chain_block ?c) (?ds, cd')" using chain_burn_block_ok [OF ok] by (simp add: represents_def)
  moreover have "advance_one_burn_block lib (ds, cd) = Done (?ds, cd')"
    using time a(1) th by (simp add: advance_one_burn_block_def advance_stacks_chain_tip_def)
  ultimately show thesis using that s(2) by simp
qed

section \<open>Runs\<close>

abbreviation chain_tenure :: "chain \<Rightarrow> chain" where
  "chain_tenure c \<equiv> chain_block (chain_burn c)"

text \<open>
  The states of a session without remote network, with the chain they stand for: advancing, epochs,
  and any access of the virtual machine, inside and outside of a tentative block. A chain has at most
  \<open>2^32\<close> blocks, since a height is a 32-bit integer.
\<close>

inductive simnet_run :: "simnet_lib \<Rightarrow> nat \<Rightarrow> chain \<Rightarrow> simnet \<Rightarrow> bool" for lib now where
  new: "simnet_run lib now (chain_new now)
     (local_datastore_new lib (of_nat now) constants, (store_at (height_to_hashed_bytes lib 0) 0)\<lparr>cd_files := files\<rparr>)"
| stacks: "simnet_run lib now c sim \<Longrightarrow> length (ch_blocks c) + unat num \<le> 2 ^ 32 \<Longrightarrow>
     interpreter_advance_stacks_chain_tip lib num sim = Done (Inr n, sim') \<Longrightarrow>
     simnet_run lib now ((chain_block ^^ unat num) c) sim'"
| burn: "simnet_run lib now c sim \<Longrightarrow> length (ch_blocks c) + unat num \<le> 2 ^ 32 \<Longrightarrow>
     interpreter_advance_burn_chain_tip lib num sim = Done (n, sim') \<Longrightarrow>
     simnet_run lib now ((chain_tenure ^^ unat num) c) sim'"
| epoch: "simnet_run lib now c sim \<Longrightarrow> length (ch_blocks c) < 2 ^ 32 \<Longrightarrow> set_current_epoch lib e sim = Done sim' \<Longrightarrow>
     simnet_run lib now (if e \<noteq> ds_current_epoch (fst sim) \<and> Epoch30 \<le> e then chain_tenure c else c) sim'"
| access: "simnet_run lib now c (ds, cd) \<Longrightarrow> access_store lib a cd = Done cd' \<Longrightarrow> simnet_run lib now c (ds, cd')"
| open_journal: "simnet_run lib now c (ds, cd) \<Longrightarrow> begin_write_journal cd = Done cd' \<Longrightarrow> simnet_run lib now c (ds, cd')"
| close_journal: "simnet_run lib now c (ds, cd) \<Longrightarrow> finish_write_journal lib included cd = Done cd' \<Longrightarrow>
     simnet_run lib now c (ds, cd')"

lemma length_chain_block [simp]: "length (ch_blocks (chain_block c)) = Suc (length (ch_blocks c))"
  by (simp add: chain_block_def)

lemma length_chain_burn [simp]: "length (ch_blocks (chain_burn c)) = length (ch_blocks c)"
  by (simp add: chain_burn_def)

text \<open>A loop that advances by one block each time is the iterate of the abstract step.\<close>

lemma represents_repeat:
  assumes step: "\<And>c sim. represents lib now c sim \<Longrightarrow> length (ch_blocks c) < 2 ^ 32 \<Longrightarrow>
      \<exists>sim'. f sim = Done sim' \<and> represents lib now (g c) sim'"
    and len: "\<And>c. length (ch_blocks (g c)) = Suc (length (ch_blocks c))"
    and "represents lib now c sim" "length (ch_blocks c) + n \<le> 2 ^ 32"
  shows "\<exists>sim'. repeat_advance n f sim = Done sim' \<and> represents lib now ((g ^^ n) c) sim'"
  using assms(3,4)
proof (induction n arbitrary: c sim)
  case (Suc n)
  from Suc.prems step [of c sim] obtain sim1 where s: "f sim = Done sim1" "represents lib now (g c) sim1" by auto
  have "length (ch_blocks (g c)) + n \<le> 2 ^ 32" using Suc.prems(2) by (simp add: len)
  from Suc.IH [OF s(2) this] s(1) show ?case by (simp add: funpow_swap1)
qed auto

lemma represents_journaling:
  "represents lib now c (ds, cd) \<Longrightarrow> journaling cd cd' \<Longrightarrow> represents lib now c (ds, cd')"
  by (auto simp: represents_def intro: tables_journaling)

lemma represents_stacks:
  assumes "distinct_hashes lib" "now < 2 ^ 63" "represents lib now c sim" "length (ch_blocks c) + unat num \<le> 2 ^ 32"
  shows "\<exists>sim'. advance_stacks_chain_tip lib num sim = Done sim' \<and> represents lib now ((chain_block ^^ unat num) c) sim'"
  unfolding advance_stacks_chain_tip_def
proof (rule represents_repeat [OF _ _ assms(3,4)])
  show "\<exists>sim'. advance_one_stacks_block lib sim = Done sim' \<and> represents lib now (chain_block c) sim'"
    if "represents lib now c sim" "length (ch_blocks c) < 2 ^ 32" for c sim
    using that by (cases sim) (blast elim: represents_block [OF assms(1,2)])
qed simp

lemma represents_burns:
  assumes "distinct_hashes lib" "now < 2 ^ 63" "represents lib now c sim" "length (ch_blocks c) + unat num \<le> 2 ^ 32"
  shows "\<exists>sim'. advance_burn_chain_tip lib num sim = Done sim' \<and> represents lib now ((chain_tenure ^^ unat num) c) sim'"
  unfolding advance_burn_chain_tip_def
proof (rule represents_repeat [OF _ _ assms(3,4)])
  show "\<exists>sim'. advance_one_burn_block lib sim = Done sim' \<and> represents lib now (chain_tenure c) sim'"
    if "represents lib now c sim" "length (ch_blocks c) < 2 ^ 32" for c sim
    using that by (cases sim) (blast elim: represents_burn [OF assms(1,2)])
qed simp

lemma represents_set_tenure_height:
  assumes "represents lib now c sim"
  shows "\<exists>sim'. set_tenure_height lib sim = Done sim' \<and> represents lib now c sim'"
proof -
  obtain ds cd where sim: "sim = (ds, cd)" by (cases sim)
  with assms have "cd_remote_network_info cd = None" by (auto simp: represents_def dest: tablesD(6))
  from local_put_all_data [OF this] obtain cd' where
    p: "put_all_data lib [(''_stx-data::tenure_height'', lib_serialize_u32 lib (get_current_tenure ds))] cd = Done cd'" by blast
  from represents_journaling [OF _ put_all_data_journaling [OF p]] assms p sim show ?thesis
    by (auto simp: set_tenure_height_def simp del: put_all_data.simps)
qed

lemma represents_interpreter_burn:
  assumes "distinct_hashes lib" "now < 2 ^ 63" "represents lib now c sim" "length (ch_blocks c) + unat num \<le> 2 ^ 32"
  shows "\<exists>n sim'. interpreter_advance_burn_chain_tip lib num sim = Done (n, sim') \<and>
     represents lib now ((chain_tenure ^^ unat num) c) sim'"
  using represents_burns [OF assms] represents_set_tenure_height
  by (fastforce simp: interpreter_advance_burn_chain_tip_def)

lemma represents_epoch:
  assumes "distinct_hashes lib" "now < 2 ^ 63" "represents lib now c sim" "length (ch_blocks c) < 2 ^ 32"
  shows "\<exists>sim'. set_current_epoch lib e sim = Done sim' \<and>
     represents lib now (if e \<noteq> ds_current_epoch (fst sim) \<and> Epoch30 \<le> e then chain_tenure c else c) sim'"
proof -
  obtain ds cd where sim: "sim = (ds, cd)" by (cases sim)
  with assms(3) have "cd_remote_network_info cd = None" by (auto simp: represents_def dest: tablesD(6))
  from local_current_height [OF this, of lib] obtain cd1 where
    p: "put lib ''vm-epoch::epoch-version'' (hex8 (lib_epoch_code lib e)) cd = Done cd1" by (auto simp: put_def)
  let ?ds = "ds\<lparr>ds_current_epoch := e, ds_current_epoch_start_height := ds_stacks_chain_height ds\<rparr>"
  have "represents lib now c (?ds, cd)" using assms(3) sim by (simp add: represents_def tables_def tenures_def)
  then have "represents lib now c (?ds, cd1)" by (rule represents_journaling [OF _ put_journaling [OF p]])
  moreover have "length (ch_blocks c) + unat (1 :: u32) \<le> 2 ^ 32" using assms(4) by simp
  ultimately show ?thesis
    using represents_burns [OF assms(1,2), of c "(?ds, cd1)" 1] p assms(3) sim
    by (auto simp: set_current_epoch_def Let_def)
qed

lemma foldl_restore_data_wf: "store_wf store \<Longrightarrow> store_wf (foldl restore_data store es)"
  by (induction es arbitrary: store) (auto simp: restore_data_wf)

lemma represents_journal:
  assumes "represents lib now c (ds, cd)" "begin_write_journal cd = Done cd' \<or> finish_write_journal lib included cd = Done cd'"
  shows "represents lib now c (ds, cd')"
proof -
  from assms have wf: "store_wf (cd_store cd)" by (auto simp: represents_def dest: tablesD(9))
  then have "settled cd cd' \<and> store_wf (cd_store cd')"
    using assms(2) foldl_restore_data_wf [OF wf]
    by (auto simp: begin_write_journal_def finish_write_journal_def settled_def Let_def bind_outcome_Done_iff split: option.splits if_splits)
  with assms(1) show ?thesis by (auto simp: represents_def intro: tables_settled)
qed

lemma simnet_run_represents:
  assumes "distinct_hashes lib" "now < 2 ^ 63" "simnet_run lib now c sim"
  shows "represents lib now c sim"
  using assms(3)
proof induction
  case (new constants files)
  show ?case by (rule represents_new [OF assms(1)])
next
  case (stacks c sim num n sim')
  with represents_stacks [OF assms(1,2)] show ?case
    by (fastforce simp: interpreter_advance_stacks_chain_tip_def bind_outcome_Done_iff split: if_splits)
next
  case (burn c sim num n sim')
  with represents_interpreter_burn [OF assms(1,2) burn.IH burn.hyps(2)] show ?case by auto
next
  case (epoch c sim e sim')
  with represents_epoch [OF assms(1,2) epoch.IH epoch.hyps(2), of e] show ?case by auto
next
  case (access c ds cd a cd')
  with represents_journaling access_store_journaling show ?case by blast
next
  case (open_journal c ds cd cd')
  with represents_journal show ?case by blast
next
  case (close_journal c ds cd included cd')
  with represents_journal show ?case by blast
qed

text \<open>What a block of the chain looks like through the lookups of the virtual machine.\<close>

lemma block_lookups:
  assumes "represents lib now c (ds, cd)" "n < length (ch_blocks c)"
  shows "get_stacks_block_time_for_block (ds, cd) (block_hash lib n) = Some (of_nat (snd (ch_blocks c ! n)))"
    and "burn_block_of (ds, cd) (block_hash lib n) =
      Some \<lparr>bi_consensus_hash = bh_consensus_hash (burn_hashes lib (fst (ch_blocks c ! n))),
            bi_vrf_seed = bh_vrf_seed (burn_hashes lib (fst (ch_blocks c ! n))),
            bi_sortition_id = bh_sortition_id (burn_hashes lib (fst (ch_blocks c ! n))),
            bi_burn_block_time = of_nat (ch_burns c ! fst (ch_blocks c ! n)),
            bi_burn_chain_height = of_nat (fst (ch_blocks c ! n))\<rparr>"
    and "get_consensus_hash_for_block (ds, cd) (block_hash lib n) =
      Some (bh_consensus_hash (burn_hashes lib (fst (ch_blocks c ! n))))"
proof -
  from assms(1) have t: "tables lib c (ds, cd)" by (simp add: represents_def)
  have k: "fst (ch_blocks c ! n) < length (ch_burns c)"
    using tablesD(5) [OF t] nth_mem [OF assms(2)] by (metis prod.collapse)
  note T = tablesD(18) [OF t assms(2)] tablesD(20) [OF t k]
  then show "get_stacks_block_time_for_block (ds, cd) (block_hash lib n) = Some (of_nat (snd (ch_blocks c ! n)))"
    "burn_block_of (ds, cd) (block_hash lib n) =
      Some \<lparr>bi_consensus_hash = bh_consensus_hash (burn_hashes lib (fst (ch_blocks c ! n))),
            bi_vrf_seed = bh_vrf_seed (burn_hashes lib (fst (ch_blocks c ! n))),
            bi_sortition_id = bh_sortition_id (burn_hashes lib (fst (ch_blocks c ! n))),
            bi_burn_block_time = of_nat (ch_burns c ! fst (ch_blocks c ! n)),
            bi_burn_chain_height = of_nat (fst (ch_blocks c ! n))\<rparr>"
    "get_consensus_hash_for_block (ds, cd) (block_hash lib n) =
      Some (bh_consensus_hash (burn_hashes lib (fst (ch_blocks c ! n))))"
    by (simp_all add: get_stacks_block_time_for_block_def burn_block_of_def get_burn_header_hash_for_block_def
        get_consensus_hash_for_block_def)
qed

lemma represents_times:
  assumes "represents lib now c sim" "now < 2 ^ 63" "n < length (ch_blocks c)"
  shows "snd (ch_blocks c ! n) < 2 ^ 64" "ch_burns c ! fst (ch_blocks c ! n) < snd (ch_blocks c ! n)"
    "fst (ch_blocks c ! n) < length (ch_burns c)"
proof -
  from assms(1) have ok: "chain_ok now c" and l: "length (ch_blocks c) \<le> 2 ^ 32"
    by (auto simp: represents_def dest: tablesD(4) [of _ _ "fst sim" "snd sim", simplified])
  have "snd (ch_blocks c ! n) \<in> set (map snd (ch_blocks c))" using assms(3) by simp
  from last_max [OF _ this] ok assms(3) have "snd (ch_blocks c ! n) \<le> snd (last (ch_blocks c))"
    by (auto simp: chain_ok_def last_map)
  with chain_times_bounded [OF ok assms(2) l] show "snd (ch_blocks c ! n) < 2 ^ 64" by simp
  from ok nth_mem [OF assms(3)] show "ch_burns c ! fst (ch_blocks c ! n) < snd (ch_blocks c ! n)"
    "fst (ch_blocks c ! n) < length (ch_burns c)" by (auto simp: chain_ok_def split: prod.splits)
qed

lemma represents_tenure_bound:
  assumes "represents lib now c sim" "k < length (ch_burns c)"
  shows "k < 2 ^ 32"
  using assms by (cases sim) (auto simp: represents_def dest: tablesD(3))

lemma represents_advance:
  assumes "distinct_hashes lib" "now < 2 ^ 63" "represents lib now c sim" "length (ch_blocks c) + unat num \<le> 2 ^ 32"
  shows "\<exists>n ds' cd'. advance_chain_tip lib num sim = Done (n, ds', cd') \<and> cd_remote_network_info cd' = None"
proof -
  have "\<exists>n sim' c'. advance_chain_tip lib num sim = Done (n, sim') \<and> represents lib now c' sim'"
    using represents_interpreter_burn [OF assms] represents_stacks [OF assms]
    by (cases "ds_current_epoch (fst sim) < Epoch30")
      (force simp: advance_chain_tip_def interpreter_advance_stacks_chain_tip_def)+
  then show ?thesis by (force simp: represents_def dest: tablesD(6))
qed

text \<open>Without remote network no access of the virtual machine panics.\<close>

lemma local_access_returns:
  assumes "cd_remote_network_info cd = None"
  shows "returns (access_store lib a cd)"
proof -
  obtain h where h: "get_current_block_height lib cd = Done (h, cd)" using local_current_height [OF assms] by blast
  show ?thesis
  proof (cases a)
    case (PutAllData items)
    then show ?thesis using local_put_all_data [OF assms, of lib items] by auto
  qed (use assms h in \<open>auto simp: get_data_def set_block_hash_def get_block_at_height_def get_metadata_def
      get_metadata_with_def Let_def split: option.splits\<close>)
qed

lemma local_access_all_returns:
  assumes "cd_remote_network_info cd = None"
  shows "\<exists>cd'. access_all lib accesses cd = Done cd'"
  using assms
proof (induction accesses arbitrary: cd)
  case (Cons a accesses)
  from local_access_returns [OF Cons.prems, of lib a] obtain cd1 where a: "access_store lib a cd = Done cd1" by (auto simp: returns_iff)
  with access_store_journaling [OF a] Cons show ?case by (simp add: journaling_def settled_def)
qed simp

lemma represents_execute:
  assumes "distinct_hashes lib" "now < 2 ^ 63" "represents lib now c sim" "length (ch_blocks c) < 2 ^ 32"
    and "cd_write_journal (snd sim) = None"
  obtains sim1 sim' where "execute_raw_transaction_in_next_block lib execute sim = Done (snd (execute sim1), sim')"
proof -
  obtain ds cd where sim: "sim = (ds, cd)" by (cases sim)
  have wf: "store_wf (cd_store cd)" using assms(3) sim by (auto simp: represents_def dest: tablesD)
  have one: "length (ch_blocks c) + unat (1 :: u32) \<le> 2 ^ 32" using assms(4) by simp
  let ?cdj = "cd\<lparr>cd_write_journal := Some \<lparr>wj_data = [], wj_metadata = []\<rparr>\<rparr>"
  have b: "begin_write_journal cd = Done ?cdj" using assms(5) sim by (simp add: begin_write_journal_def)
  from represents_advance [OF assms(1,2) represents_journal [OF assms(3) [unfolded sim]] one] b obtain n ds1 cd1 where
    a: "advance_chain_tip lib 1 (ds, ?cdj) = Done (n, ds1, cd1)" and c1: "cd_remote_network_info cd1 = None" by fastforce
  have "journaled cd cd1"
    using advance_chain_tip_tentative [OF conjunct2 [OF conjunct2 [OF journaled_begin [OF wf b]]] _ a]
    by (simp add: tentative_def settled_def)
  moreover obtain cd2 where x: "access_all lib (fst (execute (ds1, cd1))) cd1 = Done cd2"
    using local_access_all_returns [OF c1] by blast
  ultimately have "cd_write_journal cd2 \<noteq> None"
    using access_all_journaling [OF x] by (auto simp: journaling_def journaled_def split: option.splits)
  then obtain cd3 where "finish_write_journal lib (snd (execute (ds1, cd1))) cd2 = Done cd3"
    by (cases "snd (execute (ds1, cd1))") (auto simp: finish_write_journal_def Let_def)
  with a b x sim have "\<exists>sim'. execute_raw_transaction_in_next_block lib execute sim = Done (snd (execute (ds1, cd1)), sim')"
    by (cases "execute (ds1, cd1)") (simp add: execute_raw_transaction_in_next_block_def Let_def)
  with that show thesis by blast
qed

section \<open>A sample session\<close>

definition sample_simnet_lib :: simnet_lib where
  "sample_simnet_lib =
     \<lparr>lib_sha512_256 = (\<lambda>bytes. 0 # bytes @ replicate 27 0), lib_show_id = (\<lambda>_. ''id''), lib_from_hex = (\<lambda>_. None),
      lib_net_block = (\<lambda>_. None), lib_net_sortitions = (\<lambda>_. None), lib_net_burn_hash = (\<lambda>_. None), lib_net_data = (\<lambda>_. None),
      lib_trie_hash = (\<lambda>k. k), lib_parse_principal = (\<lambda>_. None), lib_marfed_block_time = (\<lambda>e. Epoch33 \<le> e),
      lib_epoch_code = (\<lambda>_. 0), lib_serialize_u32 = (\<lambda>h. show_nat (unat h)), lib_burn_address = (\<lambda>_. ''burn''),
      lib_context_key = ''contract'', lib_source_key = ''contract-src'', lib_analysis_key = ''analysis'',
      lib_context_error = (\<lambda>_. None), lib_rebuild_context = (\<lambda>_ _ _ _. Inl ''none''),
      lib_data_order = rev, lib_metadata_order = rev\<rparr>"

lemma sample_distinct_hashes: "distinct_hashes sample_simnet_lib"
  unfolding distinct_hashes_def
proof
  show "inj (\<lambda>h. tl (take 20 (height_to_hashed_bytes sample_simnet_lib h)))"
    by (rule injI) (auto simp: sample_simnet_lib_def height_to_hashed_bytes_def intro: be_bytes_inject [of 4])
qed (simp add: sample_simnet_lib_def height_to_hashed_bytes_def)

abbreviation sample_chain :: chain where
  "sample_chain \<equiv> \<lparr>ch_burns = [0, 600], ch_blocks = [(0, 10), (1, 610)]\<rparr>"

definition sample_simnet :: simnet where
  "sample_simnet = (local_datastore_new sample_simnet_lib (of_nat 0) stacks_constants_default,
    (store_at (height_to_hashed_bytes sample_simnet_lib 0) 0)\<lparr>cd_files := fmempty\<rparr>)"

lemma sample_simnet_run: "simnet_run sample_simnet_lib 0 (chain_new 0) sample_simnet"
  unfolding sample_simnet_def by (rule simnet_run.new)

lemma sample_run: "\<exists>ds cd. simnet_run sample_simnet_lib 0 sample_chain (ds, cd)"
proof -
  let ?sim = sample_simnet
  note r = sample_simnet_run
  from simnet_run_represents [OF sample_distinct_hashes _ r] have "represents sample_simnet_lib 0 (chain_new 0) ?sim" by simp
  from represents_interpreter_burn [OF sample_distinct_hashes _ this, of 1] obtain n sim' where
    b: "interpreter_advance_burn_chain_tip sample_simnet_lib 1 ?sim = Done (n, sim')" by (auto simp: chain_new_def)
  have "(chain_tenure ^^ unat (1 :: u32)) (chain_new 0) = sample_chain"
    by (simp add: chain_new_def chain_block_def chain_burn_def)
  with simnet_run.burn [OF r _ b] have "simnet_run sample_simnet_lib 0 sample_chain sim'" by (simp add: chain_new_def)
  then show ?thesis by (cases sim') auto
qed

section \<open>Properties\<close>

text \<open>
  C2. A rejected transaction leaves no trace. When \<^verbatim>\<open>execute_raw_transaction_in_next_block\<close> ends with a
  transaction that is not included, whatever the execution read and wrote, the block tables are the ones
  before, and so are data, metadata, both chain tips and the absence of a journal. Without remote network
  the whole state is the one before; with one, only what was fetched may have been added to the caches.
  The journal's hash tables may be iterated in any order.
\<close>

theorem rejected_block_leaves_no_trace:
  assumes "journal_order lib" "store_wf (cd_store cd)"
    and "execute_raw_transaction_in_next_block lib execute (ds, cd) = Done (False, ds', cd')"
  shows "ds' = ds \<and> cd_store cd' = cd_store cd \<and> cd_metadata cd' = cd_metadata cd \<and>
     cd_write_journal cd' = None \<and> cd_write_journal cd = None \<and>
     cd_open_chain_tip cd' = cd_open_chain_tip cd \<and> cd_current_chain_tip cd' = cd_current_chain_tip cd \<and>
     (cd_remote_network_info cd = None \<longrightarrow> cd' = cd)"
proof -
  obtain cdj n ds1 cd1 accesses cd2 cd3 where
    b: "begin_write_journal cd = Done cdj" and a: "advance_chain_tip lib 1 (ds, cdj) = Done (n, ds1, cd1)"
    and x: "access_all lib accesses cd1 = Done cd2" and f: "finish_write_journal lib False cd2 = Done cd3"
    and r: "(ds', cd') = undo_restore (checkpoint_next_block lib (ds, cd)) (ds1, cd3)"
    by (rule execute_in_next_block_Done [OF assms(3)]) simp
  note j = journaled_begin [OF assms(2) b]
  then have "settled cd cdj" by (simp add: settled_def)
  with j advance_chain_tip_tentative [OF _ _ a] have "tentative lib (ds, cd) (ds1, cd1)" by blast
  from tentative_journaling [OF this access_all_journaling [OF x]] have t: "tentative lib (ds, cd) (ds1, cd2)" .
  then have "journaled cd cd2" by (simp add: tentative_def)
  from finish_restores [OF assms(1,2) this] f
  have cd3: "cd3 = cd2\<lparr>cd_write_journal := None, cd_store := cd_store cd, cd_metadata := cd_metadata cd\<rparr>" by simp
  from t have "fst (undo_restore (checkpoint_next_block lib (ds, cd)) (ds1, cd3)) = ds"
    by (simp add: tentative_def undo_restore_def Let_def)
  with r have "ds' = ds" by (metis fst_conv)
  moreover from r have cd': "cd' = cd3\<lparr>
      cd_height_at_chain_tip := entry_restore (un_height_at_tip (checkpoint_next_block lib (ds, cd))) (cd_height_at_chain_tip cd3),
      cd_chain_tip_at_height := entry_restore (un_tip_at_height (checkpoint_next_block lib (ds, cd))) (cd_chain_tip_at_height cd3),
      cd_open_chain_tip := cd_open_chain_tip cd, cd_current_chain_tip := cd_current_chain_tip cd\<rparr>"
    by (simp add: undo_restore_def checkpoint_next_block_def Let_def)
  moreover have "cd' = cd" if "cd_remote_network_info cd = None"
    using t that j unfolding cd' cd3
    by (simp add: tentative_def checkpoint_next_block_def Let_def)
  ultimately show ?thesis using j by (auto simp: cd3)
qed

theorem rejected_block_leaves_no_trace_witness:
  "\<exists>sim'. execute_raw_transaction_in_next_block sample_simnet_lib (\<lambda>_. ([PutAllData [(''k'', ''v'')]], False)) sample_simnet =
     Done (False, sim') \<and> sim' = sample_simnet"
proof -
  let ?x = "\<lambda>_ :: simnet. ([PutAllData [(''k'', ''v'')]], False)"
  from simnet_run_represents [OF sample_distinct_hashes _ sample_simnet_run]
  have "represents sample_simnet_lib 0 (chain_new 0) sample_simnet" by simp
  from represents_execute [OF sample_distinct_hashes _ this, of ?x] obtain ds' cd' where
    e: "execute_raw_transaction_in_next_block sample_simnet_lib ?x (fst sample_simnet, snd sample_simnet) = Done (False, ds', cd')"
    by (force simp: sample_simnet_def store_at_def chain_new_def)
  have "journal_order sample_simnet_lib" "store_wf (cd_store (snd sample_simnet))" "cd_remote_network_info (snd sample_simnet) = None"
    by (simp_all add: journal_order_def sample_simnet_lib_def sample_simnet_def store_at_def)
  with rejected_block_leaves_no_trace [OF _ _ e] e show ?thesis by simp
qed

text \<open>
  C4. The block tables refine the abstract chain. After every run of a session without remote network, the
  heights are the lengths of the two lists, the block at a height is found by its number and leads
  back to it, and time, burn height and burn time that the virtual machine looks up for it are the
  ones of the lists, at every height up to the tip; above there is no block.
\<close>

theorem simnet_refines_chain:
  assumes "distinct_hashes lib" "now < 2 ^ 63" "simnet_run lib now c (ds, cd)"
  shows "unat (ds_stacks_chain_height ds) = length (ch_blocks c) - 1 \<and>
     unat (ds_burn_chain_height ds) = length (ch_burns c) - 1 \<and>
     (\<forall>n < length (ch_blocks c).
        get_block_at_height lib (of_nat n) cd = Done (Some (block_hash lib n), cd) \<and>
        fmlookup (cd_height_at_chain_tip cd) (block_hash lib n) = Some (of_nat n) \<and>
        get_stacks_block_time_for_block (ds, cd) (block_hash lib n) = Some (of_nat (snd (ch_blocks c ! n))) \<and>
        get_burn_block_height_for_block (ds, cd) (block_hash lib n) = Some (of_nat (fst (ch_blocks c ! n))) \<and>
        get_burn_block_time_for_block (ds, cd) (block_hash lib n) = Some (of_nat (ch_burns c ! fst (ch_blocks c ! n)))) \<and>
     (\<forall>n < 2 ^ 32. length (ch_blocks c) \<le> n \<longrightarrow> get_block_at_height lib (of_nat n) cd = Done (None, cd))"
proof -
  from simnet_run_represents [OF assms] have r: "represents lib now c (ds, cd)" .
  then have t: "tables lib c (ds, cd)" by (simp add: represents_def)
  note T = tablesD [OF t]
  have "length (ch_blocks c) - 1 < 2 ^ 32" "length (ch_burns c) - 1 < 2 ^ 32"
    using T(1-4) by (auto simp: le_simps)
  then have "unat (ds_stacks_chain_height ds) = length (ch_blocks c) - 1" "unat (ds_burn_chain_height ds) = length (ch_burns c) - 1"
    unfolding T(11,12) by simp_all
  moreover have "n < 2 ^ 32" if "n < length (ch_blocks c)" for n using T(4) that by simp
  ultimately show ?thesis using T(6,16,17) block_lookups [OF r]
    by (auto simp: get_block_at_height_def get_burn_block_height_for_block_def get_burn_block_time_for_block_def)
qed

theorem simnet_refines_chain_witness:
  "\<exists>ds cd. simnet_run sample_simnet_lib 0 sample_chain (ds, cd) \<and> unat (ds_stacks_chain_height ds) = 1 \<and>
     get_stacks_block_time_for_block (ds, cd) (block_hash sample_simnet_lib 1) = Some 610"
proof -
  obtain ds cd where r: "simnet_run sample_simnet_lib 0 sample_chain (ds, cd)" using sample_run by blast
  from simnet_refines_chain [OF sample_distinct_hashes _ r]
  have "unat (ds_stacks_chain_height ds) = 1"
    "\<forall>n < 2. get_stacks_block_time_for_block (ds, cd) (block_hash sample_simnet_lib n) =
       Some (of_nat (snd (ch_blocks sample_chain ! n)))" by simp_all
  then have "get_stacks_block_time_for_block (ds, cd) (block_hash sample_simnet_lib 1) = Some 610" by (auto dest: spec [of _ 1])
  with r \<open>unat (ds_stacks_chain_height ds) = 1\<close> show ?thesis by blast
qed

text \<open>
  C15. Time moves forward. On every reachable chain the Stacks blocks have strictly ascending times, each
  later than its burn block, and burn heights never decrease; machine arithmetic does not interfere.
\<close>

theorem block_times_ascend:
  assumes "distinct_hashes lib" "now < 2 ^ 63" "simnet_run lib now c sim" "n < m" "m < length (ch_blocks c)"
  shows "\<exists>t t' b h h'.
     get_stacks_block_time_for_block sim (block_hash lib n) = Some t \<and>
     get_stacks_block_time_for_block sim (block_hash lib m) = Some t' \<and> t < t' \<and>
     get_burn_block_time_for_block sim (block_hash lib m) = Some b \<and> b < t' \<and>
     get_burn_block_height_for_block sim (block_hash lib n) = Some h \<and>
     get_burn_block_height_for_block sim (block_hash lib m) = Some h' \<and> h \<le> h'"
proof -
  obtain ds cd where sim: "sim = (ds, cd)" by (cases sim)
  from simnet_run_represents [OF assms(1-3)] sim have r: "represents lib now c (ds, cd)" by simp
  then have ok: "chain_ok now c" by (simp add: represents_def)
  have n: "n < length (ch_blocks c)" using assms(4,5) by simp
  note L = block_lookups [OF r n] block_lookups [OF r assms(5)]
  note B = represents_times [OF r assms(2) n] represents_times [OF r assms(2,5)]
  have "snd (ch_blocks c ! n) < snd (ch_blocks c ! m)"
    using ok assms(4,5) sorted_wrt_nth_less [of "(<)" "map snd (ch_blocks c)" n m] by (simp add: chain_ok_def)
  then have "(of_nat (snd (ch_blocks c ! n)) :: u64) < of_nat (snd (ch_blocks c ! m))" using B by (simp add: of_nat_u64_less)
  moreover have "(of_nat (ch_burns c ! fst (ch_blocks c ! m)) :: u64) < of_nat (snd (ch_blocks c ! m))"
    using B by (simp add: of_nat_u64_less)
  moreover have "fst (ch_blocks c ! n) \<le> fst (ch_blocks c ! m)"
    using ok assms(4,5) sorted_nth_mono [of "map fst (ch_blocks c)" n m] by (simp add: chain_ok_def)
  then have "(of_nat (fst (ch_blocks c ! n)) :: u32) \<le> of_nat (fst (ch_blocks c ! m))"
    using represents_tenure_bound [OF r] B(3,6) by (simp add: word_le_nat_alt)
  ultimately show ?thesis using L sim
    by (simp add: get_burn_block_height_for_block_def get_burn_block_time_for_block_def)
qed

theorem block_times_ascend_witness:
  "\<exists>sim t t'. simnet_run sample_simnet_lib 0 sample_chain sim \<and>
     get_stacks_block_time_for_block sim (block_hash sample_simnet_lib 0) = Some t \<and>
     get_stacks_block_time_for_block sim (block_hash sample_simnet_lib 1) = Some t' \<and> t < t'"
proof -
  obtain ds cd where r: "simnet_run sample_simnet_lib 0 sample_chain (ds, cd)" using sample_run by blast
  from block_times_ascend [OF sample_distinct_hashes _ r, of 0 1] r show ?thesis by simp blast
qed



text \<open>
  C23. A session without remote network never panics while heights fit in 32 bits: advancing the chain
  by any number of blocks, changing the epoch, every access of the virtual machine, and mining a block for
  a transaction, whatever its execution does, return.
\<close>

theorem simnet_never_panics:
  assumes "distinct_hashes lib" "now < 2 ^ 63" "simnet_run lib now c sim" "length (ch_blocks c) + unat num \<le> 2 ^ 32" "0 < num"
    and "cd_write_journal (snd sim) = None"
  shows "returns (advance_chain_tip lib num sim) \<and> returns (set_current_epoch lib e sim) \<and>
     returns (access_store lib a (snd sim)) \<and> returns (execute_raw_transaction_in_next_block lib execute sim)"
proof -
  from simnet_run_represents [OF assms(1-3)] have r: "represents lib now c sim" .
  have n: "length (ch_blocks c) < 2 ^ 32" using assms(4,5) by (simp add: word_less_nat_alt)
  have "cd_remote_network_info (snd sim) = None" using r by (cases sim) (auto simp: represents_def dest: tablesD)
  moreover have "returns (advance_chain_tip lib num sim)" using represents_advance [OF assms(1,2) r assms(4)] by (auto simp: returns_iff)
  moreover have "returns (set_current_epoch lib e sim)"
    using represents_epoch [OF assms(1,2) r n, of e] by (auto simp: returns_iff)
  ultimately show ?thesis
    using local_access_returns represents_execute [OF assms(1,2) r n assms(6), of execute] by (metis returns.simps(1))
qed

theorem simnet_never_panics_witness:
  "returns (execute_raw_transaction_in_next_block sample_simnet_lib (\<lambda>_. ([PutAllData [(''k'', ''v'')]], False)) sample_simnet)"
  using simnet_never_panics [OF sample_distinct_hashes _ sample_simnet_run, of 1]
  by (simp add: chain_new_def sample_simnet_def store_at_def)

end
