(* ===== verification/Simnet_History.thy ===== *)
theory Simnet_History
  imports Simnet_Chain_Correct
begin

text \<open>
  What reads of the store see. A store with values per height implements a log of writes: at
  a chain tip, the latest value of a key is the one of the highest block at or below the tip, and
  within a block the last one written. Writes may happen at any tip, in any order. The
  contract is the locale \<open>versioned_map\<close>, interpreted on the store; then the
  behaviour of time travel and of the stored block time.
\<close>

section \<open>The contract of a store with history\<close>

text \<open>The value that wins when a value of height \<open>h\<close> is written after \<open>old\<close> was the latest up to \<open>limit\<close>.\<close>

definition latest :: "'h::linorder \<Rightarrow> 'h \<Rightarrow> 'v \<Rightarrow> ('h \<times> 'v) option \<Rightarrow> ('h \<times> 'v) option" where
  "latest limit h v old =
     (if h \<le> limit \<and> (case old of None \<Rightarrow> True | Some (b, _) \<Rightarrow> b \<le> h) then Some (h, v) else old)"

fun read_log :: "'k \<Rightarrow> 'h::linorder \<Rightarrow> ('h \<times> 'k \<times> 'v) list \<Rightarrow> ('h \<times> 'v) option \<Rightarrow> ('h \<times> 'v) option" where
  "read_log k limit [] old = old"
| "read_log k limit ((h, k', v) # log) old = read_log k limit log (if k' = k then latest limit h v old else old)"

locale versioned_map =
  fixes lookup_at :: "'s \<Rightarrow> 'k \<Rightarrow> 'h::linorder \<Rightarrow> ('h \<times> 'v) option"
    and store_at_height :: "'h \<Rightarrow> 'k \<Rightarrow> 'v \<Rightarrow> 's \<Rightarrow> 's"
    and invar :: "'s \<Rightarrow> bool"
  assumes read_write: "invar s \<Longrightarrow> lookup_at (store_at_height h k v s) k' limit = (if k' = k then latest limit h v (lookup_at s k limit) else lookup_at s k' limit)"
    and invar_write: "invar s \<Longrightarrow> invar (store_at_height h k v s)"
begin

lemma read_writes:
  assumes "invar s"
  shows "lookup_at (foldl (\<lambda>s (h, k, v). store_at_height h k v s) s log) k limit = read_log k limit log (lookup_at s k limit)"
  using assms
proof (induction log arbitrary: s)
  case (Cons e log)
  obtain h k' v where "e = (h, k', v)" by (cases e)
  with Cons show ?case by (simp add: read_write invar_write)
qed simp

lemma later_write_invisible:
  assumes "invar s" "limit < h"
  shows "lookup_at (store_at_height h k v s) k' limit = lookup_at s k' limit"
  using assms by (auto simp: read_write latest_def)

lemma read_own_write: "invar s \<Longrightarrow> (case lookup_at s k h of None \<Rightarrow> True | Some (b, _) \<Rightarrow> b \<le> h) \<Longrightarrow> lookup_at (store_at_height h k v s) k h = Some (h, v)"
  by (simp add: read_write latest_def)

end

section \<open>The store keeps the contract\<close>

lemma last_up_to_Nil [simp]: "last_up_to h [] = None"
  by (simp add: last_up_to_def)

lemma last_up_to_Cons:
  "last_up_to h ((k, v) # m) =
     (if k \<le> h then (case last_up_to h m of Some e \<Rightarrow> Some e | None \<Rightarrow> Some (k, v)) else last_up_to h m)"
  by (simp add: last_up_to_def split: list.splits)

lemma last_up_to_key: "last_up_to h m = Some (b, v) \<Longrightarrow> (b, v) \<in> set m \<and> b \<le> h"
  by (induction m) (auto simp: last_up_to_Cons split: if_splits option.splits)

lemma last_up_to_above: "\<forall>k \<in> fst ` set m. h < k \<Longrightarrow> last_up_to h m = None"
  by (induction m) (auto simp: last_up_to_Cons)

lemma last_up_to_insert:
  "bt_wf m \<Longrightarrow> last_up_to limit (bt_insert h v m) = latest limit h v (last_up_to limit m)"
proof (induction m)
  case Nil
  then show ?case by (simp add: last_up_to_Cons latest_def)
next
  case (Cons e m)
  obtain k w where e: "e = (k, w)" by (cases e)
  from Cons.prems e have above: "\<forall>k' \<in> fst ` set m. k < k'" and wf: "bt_wf m" by (simp_all add: bt_wf_Cons)
  have key: "k < b" if "last_up_to limit m = Some (b, u)" for b u
    using last_up_to_key [OF that] above by force
  show ?case
  proof (cases "h < k")
    case True
    then show ?thesis using e key
      by (cases "last_up_to limit m") (auto simp: last_up_to_Cons latest_def dest: order.strict_trans)
  next
    case False
    then show ?thesis using e key Cons.IH [OF wf]
      by (cases "last_up_to limit m") (auto simp: last_up_to_Cons latest_def)
  qed
qed

interpretation store: versioned_map
  "\<lambda>store key limit. last_up_to limit (values_at store key)"
  "\<lambda>h key v store. fmupd key (bt_insert h v (values_at store key)) store" store_wf
  by unfold_locales (auto simp: last_up_to_insert values_at_wf store_wf_upd bt_wf_insert)

text \<open>The height of a chain tip; an unknown one counts as above every block.\<close>

definition height_of :: "clarity_datastore \<Rightarrow> block_id \<Rightarrow> u32" where
  "height_of cd tip = (case fmlookup (cd_height_at_chain_tip cd) tip of Some h \<Rightarrow> h | None \<Rightarrow> u32_max)"

lemma local_height:
  "cd_remote_network_info cd = None \<Longrightarrow> get_current_block_height lib cd = Done (height_of cd (cd_current_chain_tip cd), cd)"
  by (simp add: get_current_block_height_def height_of_def split: option.split)

lemma local_get_data:
  "cd_remote_network_info cd = None \<Longrightarrow> get_data lib key cd =
     Done (map_option snd (last_up_to (height_of cd (cd_current_chain_tip cd)) (values_at (cd_store cd) key)), cd)"
  by (simp add: get_data_def local_height)

definition write_at :: "block_id \<times> string \<times> string \<Rightarrow> store_access list" where
  "write_at w = (case w of (tip, key, v) \<Rightarrow> [SetBlockHash tip, PutAllData [(key, v)]])"

lemma access_write_at:
  assumes "cd_remote_network_info cd = None"
  shows "access_all lib (write_at (tip, key, v) @ rest) cd =
     access_all lib rest (put_at (height_of cd tip) key v (cd\<lparr>cd_current_chain_tip := tip\<rparr>))"
  using assms by (simp add: write_at_def set_block_hash_def put_def local_height height_of_def)

lemma put_at_simps [simp]:
  "cd_store (put_at h key v cd) = fmupd key (bt_insert h v (values_at (cd_store cd) key)) (cd_store cd)"
  "cd_height_at_chain_tip (put_at h key v cd) = cd_height_at_chain_tip cd"
  "cd_remote_network_info (put_at h key v cd) = cd_remote_network_info cd"
  "cd_current_chain_tip (put_at h key v cd) = cd_current_chain_tip cd"
  by (simp_all add: put_at_def Let_def)

lemma access_writes:
  assumes "cd_remote_network_info cd = None"
  shows "\<exists>cd'. access_all lib (concat (map write_at ws) @ [SetBlockHash tip]) cd = Done cd' \<and>
     cd_remote_network_info cd' = None \<and> cd_current_chain_tip cd' = tip \<and> (\<forall>t. height_of cd' t = height_of cd t) \<and>
     cd_store cd' = foldl (\<lambda>store (h, key, v). fmupd key (bt_insert h v (values_at store key)) store) (cd_store cd)
       (map (\<lambda>(t, key, v). (height_of cd t, key, v)) ws)"
  using assms
proof (induction ws arbitrary: cd)
  case Nil
  then show ?case by (simp add: set_block_hash_def height_of_def)
next
  case (Cons w ws)
  obtain t key v where w: "w = (t, key, v)" by (cases w)
  let ?cd = "put_at (height_of cd t) key v (cd\<lparr>cd_current_chain_tip := t\<rparr>)"
  have h: "height_of ?cd = height_of cd" by (simp add: height_of_def fun_eq_iff)
  from Cons.IH [of ?cd] Cons.prems show ?case by (simp add: w access_write_at h)
qed

text \<open>The store after an advance, in an epoch that keeps the block time in it.\<close>

lemma advance_stores_block_time:
  assumes "advance_one_stacks_block lib (ds, cd) = Done (ds', cd')" "cd_remote_network_info cd = None"
    and "lib_marfed_block_time lib (ds_current_epoch ds)"
  obtains b where "fmlookup (ds_stacks_blocks ds') (cd_open_chain_tip cd') = Some b"
    "cd_store cd' = fmupd CLARITY_STORAGE_BLOCK_TIME_KEY
       (bt_insert (height_of cd (cd_current_chain_tip cd)) (show_nat (unat (si_stacks_block_time b)))
         (values_at (cd_store cd) CLARITY_STORAGE_BLOCK_TIME_KEY)) (cd_store cd)"
  using assms
  by (auto simp: advance_one_stacks_block_def Let_def bind_outcome_Done_iff put_def local_height)

lemma advance_burn_moves_tip:
  assumes "advance_one_burn_block lib (ds, cd) = Done (ds', cd')"
  shows "cd_current_chain_tip cd' = cd_open_chain_tip cd' \<and> ds_current_epoch ds' = ds_current_epoch ds"
proof -
  from assms obtain time ds1 where a: "advance_one_stacks_block lib (add_burn_block lib time ds, cd) = Done (ds1, cd')"
    and e: "ds_current_epoch ds' = ds_current_epoch ds1"
    by (auto simp: advance_one_burn_block_def advance_stacks_chain_tip_def bind_outcome_Done_iff)
  show ?thesis by (rule advance_one_stacks_block_effect [OF a]) (simp add: e add_burn_block_def Let_def)
qed

section \<open>Properties\<close>

text \<open>
  C14. Reads see the history of the chain. Without remote network, after any writes at any chain tips, in any
  order, a read of a key at a tip returns the value of the highest block at or below the tip
  that has one, and within that block the last one written; what was in the store
  before counts as written first. Nothing written above the tip is seen.
\<close>

theorem reads_see_history:
  assumes "cd_remote_network_info cd = None" "store_wf (cd_store cd)"
  shows "\<exists>cd'. access_all lib (concat (map write_at ws) @ [SetBlockHash tip]) cd = Done cd' \<and>
     get_data lib key cd' =
       Done (map_option snd (read_log key (height_of cd tip) (map (\<lambda>(t, k, v). (height_of cd t, k, v)) ws)
         (last_up_to (height_of cd tip) (values_at (cd_store cd) key))), cd')"
  using access_writes [OF assms(1), of lib ws tip] store.read_writes [OF assms(2)] by (auto simp: local_get_data)

theorem reads_see_history_witness:
  "\<exists>cd'. access_all sample_simnet_lib (concat (map write_at [([1], ''k'', ''new''), ([0], ''k'', ''old'')]) @ [SetBlockHash [0]])
       ((store_at [0] 0)\<lparr>cd_height_at_chain_tip := fmupd [1] 1 (fmupd [0] 0 fmempty)\<rparr>) = Done cd' \<and>
     get_data sample_simnet_lib ''k'' cd' = Done (Some ''old'', cd')"
proof -
  let ?cd = "(store_at [0] 0)\<lparr>cd_height_at_chain_tip := fmupd [1] 1 (fmupd [0] 0 fmempty)\<rparr>"
  have "cd_remote_network_info ?cd = None" "store_wf (cd_store ?cd)" by (simp_all add: store_at_def)
  from reads_see_history [OF this, of sample_simnet_lib "[([1], ''k'', ''new''), ([0], ''k'', ''old'')]" "[0]" "''k''"]
  show ?thesis by (simp add: height_of_def store_at_def latest_def)
qed

text \<open>
  Leaving a nested time travel ends at the open tip. Moving to a tip and back with the returned tip
  ends at the open tip; so does moving to a tip, moving on to a second one and leaving that
  one: what the outer evaluation reads afterwards is read at the open tip, not at the tip it moved to.
\<close>

theorem nested_time_travel_ends_at_open_tip:
  assumes "cd_remote_network_info cd = None"
  shows "\<exists>prior_a prior_b last_tip cd1 cd2 cd3.
     set_block_hash lib a cd = Done (prior_a, cd1) \<and> cd_current_chain_tip cd1 = a \<and>
     set_block_hash lib b cd1 = Done (prior_b, cd2) \<and> cd_current_chain_tip cd2 = b \<and>
     set_block_hash lib prior_b cd2 = Done (last_tip, cd3) \<and> cd_current_chain_tip cd3 = cd_open_chain_tip cd \<and>
     get_data lib key cd3 =
       Done (map_option snd (last_up_to (height_of cd (cd_open_chain_tip cd)) (values_at (cd_store cd) key)), cd3)"
  using assms by (simp add: set_block_hash_def local_get_data height_of_def)

theorem nested_time_travel_ends_at_open_tip_witness:
  "\<exists>prior_a prior_b last_tip cd1 cd2 cd3.
     set_block_hash sample_simnet_lib [7] (store_at [0] 0) = Done (prior_a, cd1) \<and>
     set_block_hash sample_simnet_lib [8] cd1 = Done (prior_b, cd2) \<and>
     set_block_hash sample_simnet_lib prior_b cd2 = Done (last_tip, cd3) \<and> cd_current_chain_tip cd3 = [0]"
proof -
  have "cd_remote_network_info (store_at [0] 0) = None" "cd_open_chain_tip (store_at [0] 0) = [0]" by (simp_all add: store_at_def)
  with nested_time_travel_ends_at_open_tip [of "store_at [0] 0" sample_simnet_lib "[7]" "[8]"] show ?thesis by metis
qed

text \<open>
  In an epoch that keeps the block time in the store, advancing overwrites the time at the old tip with
  the time of the new block: after the advance, reading the stored block time at the old tip gives the
  time of the new block, which is later than the time the block tables hold for the old one.
\<close>

theorem stored_block_time_is_of_next_block:
  assumes "distinct_hashes lib" "now < 2 ^ 63" "simnet_run lib now c (ds, cd)" "length (ch_blocks c) < 2 ^ 32"
    and "lib_marfed_block_time lib (ds_current_epoch ds)" "cd_current_chain_tip cd = cd_open_chain_tip cd"
  shows "\<exists>ds' cd' p cd'' t t'.
     advance_stacks_chain_tip lib 1 (ds, cd) = Done (ds', cd') \<and>
     set_block_hash lib (cd_open_chain_tip cd) cd' = Done (p, cd'') \<and>
     get_data lib CLARITY_STORAGE_BLOCK_TIME_KEY cd'' = Done (Some (show_nat (unat t')), cd'') \<and>
     get_stacks_block_time_for_block (ds', cd'') (cd_open_chain_tip cd') = Some t' \<and>
     get_stacks_block_time_for_block (ds', cd'') (cd_open_chain_tip cd) = Some t \<and> t < t'"
proof -
  from simnet_run_represents [OF assms(1-3)] have r: "represents lib now c (ds, cd)" .
  then have t: "tables lib c (ds, cd)" by (simp add: represents_def)
  note T = tablesD [OF t]
  obtain ds' cd' where a: "advance_one_stacks_block lib (ds, cd) = Done (ds', cd')" and r': "represents lib now (chain_block c) (ds', cd')"
    using represents_block [OF assms(1,2) r assms(4)] by (metis surj_pair)
  then have t': "tables lib (chain_block c) (ds', cd')" by (simp add: represents_def)
  note T' = tablesD [OF t']
  obtain k where n: "length (ch_blocks c) = Suc k" using T(2) by (cases "ch_blocks c") simp_all
  have tip: "cd_open_chain_tip cd = block_hash lib k" "cd_open_chain_tip cd' = block_hash lib (Suc k)"
    using T(14) T'(14) n by (simp_all del: of_nat_Suc)
  have h: "height_of cd (cd_open_chain_tip cd) = of_nat k" "height_of cd' (cd_open_chain_tip cd) = of_nat k"
    using T(16) [of k] T'(16) [of k] n assms(4) by (simp_all add: height_of_def tip)
  obtain b where b: "fmlookup (ds_stacks_blocks ds') (cd_open_chain_tip cd') = Some b"
    "cd_store cd' = fmupd CLARITY_STORAGE_BLOCK_TIME_KEY
       (bt_insert (of_nat k) (show_nat (unat (si_stacks_block_time b)))
         (values_at (cd_store cd) CLARITY_STORAGE_BLOCK_TIME_KEY)) (cd_store cd)"
    by (rule advance_stores_block_time [OF a T(6) assms(5)]) (simp add: assms(6) h)
  let ?cd = "cd'\<lparr>cd_current_chain_tip := cd_open_chain_tip cd\<rparr>" and ?t = "si_stacks_block_time b"
  have "height_of ?cd (cd_open_chain_tip cd) = of_nat k" using h by (simp add: height_of_def)
  moreover have "last_up_to (of_nat k) (bt_insert (of_nat k) (show_nat (unat ?t))
      (values_at (cd_store cd) CLARITY_STORAGE_BLOCK_TIME_KEY)) = Some (of_nat k, show_nat (unat ?t))"
    using last_up_to_key [of "of_nat k" "values_at (cd_store cd) CLARITY_STORAGE_BLOCK_TIME_KEY"]
    by (auto simp: last_up_to_insert values_at_wf [OF T(9)] latest_def split: option.split)
  ultimately have "get_data lib CLARITY_STORAGE_BLOCK_TIME_KEY ?cd = Done (Some (show_nat (unat ?t)), ?cd)"
    using T'(6) b(2) by (simp add: local_get_data)
  moreover have "set_block_hash lib (cd_open_chain_tip cd) cd' = Done (cd_open_chain_tip cd', ?cd)"
    using T'(6) by (simp add: set_block_hash_def)
  moreover have "get_stacks_block_time_for_block (ds', ?cd) (cd_open_chain_tip cd') = Some ?t"
    using b(1) by (simp add: get_stacks_block_time_for_block_def)
  moreover have "get_stacks_block_time_for_block (ds', ?cd) (cd_open_chain_tip cd) = Some (of_nat (snd (ch_blocks c ! k)))"
    using T'(18) [of k] n by (simp add: get_stacks_block_time_for_block_def tip chain_block_def nth_append)
  moreover have "(of_nat (snd (ch_blocks c ! k)) :: u64) < ?t"
  proof -
    have "?t = of_nat (snd (ch_blocks (chain_block c) ! Suc k))" using b(1) T'(18) [of "Suc k"] by (simp add: tip n)
    moreover have "snd (ch_blocks c ! k) < snd (ch_blocks (chain_block c) ! Suc k)"
      using n T(2) by (simp add: chain_block_def last_conv_nth nth_append)
    ultimately show ?thesis
      using represents_times(1) [OF r' assms(2), of "Suc k"] represents_times(1) [OF r assms(2), of k] n
      by (simp add: of_nat_u64_less)
  qed
  moreover have "advance_stacks_chain_tip lib 1 (ds, cd) = Done (ds', cd')" using a by (simp add: advance_stacks_chain_tip_def)
  ultimately show ?thesis by blast
qed

theorem stored_block_time_is_of_next_block_witness:
  "\<exists>ds cd ds' cd' p cd'' t t'. simnet_run sample_simnet_lib 0 sample_chain (ds, cd) \<and>
     advance_stacks_chain_tip sample_simnet_lib 1 (ds, cd) = Done (ds', cd') \<and>
     set_block_hash sample_simnet_lib (cd_open_chain_tip cd) cd' = Done (p, cd'') \<and>
     get_data sample_simnet_lib CLARITY_STORAGE_BLOCK_TIME_KEY cd'' = Done (Some (show_nat (unat t')), cd'') \<and>
     get_stacks_block_time_for_block (ds', cd'') (cd_open_chain_tip cd) = Some t \<and> t < t'"
proof -
  let ?lib = sample_simnet_lib
  from simnet_run_represents [OF sample_distinct_hashes _ sample_simnet_run]
  have "represents ?lib 0 (chain_new 0) sample_simnet" by simp
  from represents_epoch [OF sample_distinct_hashes _ this, of Epoch33] obtain ds cd where
    e: "set_current_epoch ?lib Epoch33 sample_simnet = Done (ds, cd)" by (auto simp: chain_new_def)
  have new: "ds_current_epoch (fst sample_simnet) = Epoch2_05"
    by (simp add: sample_simnet_def local_datastore_new_def tables_at_def Let_def)
  have "(if Epoch33 \<noteq> ds_current_epoch (fst sample_simnet) \<and> Epoch30 \<le> Epoch33 then chain_tenure (chain_new 0) else chain_new 0) = sample_chain"
    by (simp add: new less_eq_stacks_epoch_id_def chain_new_def chain_block_def chain_burn_def)
  with simnet_run.epoch [OF sample_simnet_run _ e] have r: "simnet_run ?lib 0 sample_chain (ds, cd)" by (simp add: chain_new_def)
  obtain ds0 cd0 where s: "sample_simnet = (ds0, cd0)" by (cases sample_simnet)
  from e [unfolded s] new [unfolded s] obtain cd1 where "advance_one_burn_block ?lib
      (ds0\<lparr>ds_current_epoch := Epoch33, ds_current_epoch_start_height := ds_stacks_chain_height ds0\<rparr>, cd1) = Done (ds, cd)"
    by (auto simp: set_current_epoch_def advance_burn_chain_tip_def Let_def bind_outcome_Done_iff less_eq_stacks_epoch_id_def)
  from advance_burn_moves_tip [OF this] have t: "lib_marfed_block_time ?lib (ds_current_epoch ds)" "cd_current_chain_tip cd = cd_open_chain_tip cd"
    by (simp_all add: sample_simnet_lib_def)
  from stored_block_time_is_of_next_block [OF sample_distinct_hashes _ r _ t] r show ?thesis by simp blast
qed

end
