(* ===== verification/Format_Doc.thy ===== *)
theory Format_Doc
  imports Clarinet_Prelude
begin

text \<open>
  The pretty printer of \<^verbatim>\<open>components/clarinet-format/src/formatter/doc.rs\<close>: a document tree and
  the printer that lays it out. Strings are lists of bytes, so \<^verbatim>\<open>len\<close> is \<^const>\<open>length\<close>; a \<^verbatim>\<open>usize\<close>
  is a natural number (no string is longer than \<^verbatim>\<open>isize::MAX\<close>) and the cast to \<^verbatim>\<open>isize\<close> wraps at
  \<open>2 ^ 63\<close>, which only a line length chosen by the user can reach.

  The lemmas show that the stack loop of \<^verbatim>\<open>measure_flat\<close> decides whether the flat text fits,
  that a group that fits comes out as that text, that the column the printer keeps is the
  length of the last line, and that the printer adds nothing but white space.
\<close>

section \<open>Documents and the printer\<close>

datatype doc =
    Text string
  | Concat "doc list"
  | Indent doc
  | Group doc
  | Line
  | Softline
  | Hardline
  | Fill "doc list"
  | Verbatim string
  | BlankLine

datatype layout_mode = Flat | Break

record printer =
  indent_unit :: string
  max_width :: nat
  printed :: string
  column :: nat

definition newline :: char where
  "newline = CHR 0x0A"

definition as_isize :: "nat \<Rightarrow> int" where
  "as_isize n = (if n < 2 ^ 63 then int n else int n - 2 ^ 64)"

definition printer_new :: "string \<Rightarrow> nat \<Rightarrow> printer" where
  "printer_new unit_str width = \<lparr>indent_unit = unit_str, max_width = width, printed = [], column = 0\<rparr>"

definition emit_newline :: "string \<Rightarrow> printer \<Rightarrow> printer" where
  "emit_newline indent_str p =
     p\<lparr>printed := printed p @ [newline] @ indent_str, column := length indent_str\<rparr>"

text \<open>\<^verbatim>\<open>for item in docs.iter().rev() { stack.push(item) }\<close>, with the top of the stack first.\<close>

definition push_reversed :: "doc list \<Rightarrow> doc list \<Rightarrow> doc list" where
  "push_reversed docs stack = foldl (\<lambda>st item. item # st) stack (rev docs)"

lemma push_reversed_append [simp]: "push_reversed docs stack = docs @ stack"
  by (induction docs arbitrary: stack rule: rev_induct) (simp_all add: push_reversed_def)

function measure_stack :: "doc list \<Rightarrow> int \<Rightarrow> bool" where
  "measure_stack [] remaining = (0 \<le> remaining)"
| "measure_stack (d # stack) remaining =
     (if remaining < 0 then False
      else case d of
        Text s \<Rightarrow> measure_stack stack (remaining - int (length s))
      | Concat docs \<Rightarrow> measure_stack (push_reversed docs stack) remaining
      | Indent inner \<Rightarrow> measure_stack (inner # stack) remaining
      | Group inner \<Rightarrow> measure_stack (inner # stack) remaining
      | Line \<Rightarrow> measure_stack stack (remaining - 1)
      | Softline \<Rightarrow> measure_stack stack remaining
      | Hardline \<Rightarrow> False
      | BlankLine \<Rightarrow> False
      | Verbatim s \<Rightarrow>
          if newline \<in> set s then False else measure_stack stack (remaining - int (length s))
      | Fill items \<Rightarrow> measure_stack (push_reversed items stack) (remaining - int (length items - 1)))"
  by pat_completeness auto
termination
  by (relation "measure (\<lambda>(stack, _). sum_list (map size stack) + length stack)")
    (auto simp: size_list_conv_sum_list)

definition measure_flat :: "doc \<Rightarrow> int \<Rightarrow> bool" where
  "measure_flat d remaining = measure_stack [d] remaining"

definition room :: "printer \<Rightarrow> int" where
  "room p = as_isize (max_width p - column p)"

definition flat_fits :: "doc \<Rightarrow> printer \<Rightarrow> bool" where
  "flat_fits d p = measure_flat d (room p)"

definition emit :: "string \<Rightarrow> printer \<Rightarrow> printer" where
  "emit s p = p\<lparr>printed := printed p @ s, column := column p + length s\<rparr>"

text \<open>The part after the last newline, the whole string when there is none.\<close>

definition last_line :: "string \<Rightarrow> string" where
  "last_line s = rev (takeWhile (\<lambda>c. c \<noteq> newline) (rev s))"

definition emit_verbatim :: "string \<Rightarrow> printer \<Rightarrow> printer" where
  "emit_verbatim s p =
     p\<lparr>printed := printed p @ s,
       column := (if newline \<in> set s then length (last_line s) else column p + length s)\<rparr>"

fun print :: "doc \<Rightarrow> string \<Rightarrow> layout_mode \<Rightarrow> printer \<Rightarrow> printer"
  and print_all :: "doc list \<Rightarrow> string \<Rightarrow> layout_mode \<Rightarrow> printer \<Rightarrow> printer"
  and print_fill :: "doc list \<Rightarrow> string \<Rightarrow> layout_mode \<Rightarrow> printer \<Rightarrow> printer" where
  "print (Text s) indent_str mode p = emit s p"
| "print (Concat docs) indent_str mode p = print_all docs indent_str mode p"
| "print (Indent inner) indent_str mode p = print inner (indent_str @ indent_unit p) mode p"
| "print (Group inner) indent_str mode p =
     (if flat_fits inner p then print inner indent_str Flat p else print inner indent_str Break p)"
| "print Line indent_str mode p =
     (case mode of Flat \<Rightarrow> emit '' '' p | Break \<Rightarrow> emit_newline indent_str p)"
| "print Softline indent_str mode p =
     (case mode of Flat \<Rightarrow> p | Break \<Rightarrow> emit_newline indent_str p)"
| "print Hardline indent_str mode p = emit_newline indent_str p"
| "print (Fill items) indent_str mode p =
     (case items of [] \<Rightarrow> p
      | item # rest \<Rightarrow> print_fill rest indent_str mode (print item indent_str mode p))"
| "print (Verbatim s) indent_str mode p = emit_verbatim s p"
| "print BlankLine indent_str mode p =
     emit_newline indent_str (p\<lparr>printed := printed p @ [newline]\<rparr>)"
| "print_all [] indent_str mode p = p"
| "print_all (d # ds) indent_str mode p = print_all ds indent_str mode (print d indent_str mode p)"
| "print_fill [] indent_str mode p = p"
| "print_fill (item # rest) indent_str mode p =
     (let q = (if measure_flat item (room p - 1) then emit '' '' p else emit_newline indent_str p)
      in print_fill rest indent_str mode (print item indent_str mode q))"

definition render :: "printer \<Rightarrow> doc \<Rightarrow> string \<Rightarrow> string" where
  "render p d base_indent = printed (print d base_indent Break (p\<lparr>column := length base_indent\<rparr>))"

section \<open>What fits on one line\<close>

text \<open>The text of a document on one line, if it has one.\<close>

fun concat_options :: "string option list \<Rightarrow> string option" where
  "concat_options [] = Some []"
| "concat_options (None # xs) = None"
| "concat_options (Some s # xs) = map_option (\<lambda>r. s @ r) (concat_options xs)"

fun spaced :: "string option list \<Rightarrow> string option list" where
  "spaced [] = []"
| "spaced [x] = [x]"
| "spaced (x # y # xs) = x # Some '' '' # spaced (y # xs)"

fun flat_text :: "doc \<Rightarrow> string option" where
  "flat_text (Text s) = Some s"
| "flat_text (Concat docs) = concat_options (map flat_text docs)"
| "flat_text (Indent inner) = flat_text inner"
| "flat_text (Group inner) = flat_text inner"
| "flat_text Line = Some '' ''"
| "flat_text Softline = Some []"
| "flat_text Hardline = None"
| "flat_text (Fill items) = concat_options (spaced (map flat_text items))"
| "flat_text (Verbatim s) = (if newline \<in> set s then None else Some s)"
| "flat_text BlankLine = None"

lemma concat_options_append:
  "concat_options (xs @ ys) =
     (case concat_options xs of None \<Rightarrow> None | Some a \<Rightarrow> map_option (\<lambda>b. a @ b) (concat_options ys))"
  by (induction xs rule: concat_options.induct; cases "concat_options ys") (auto split: option.splits)

lemma spaced_Cons: "spaced (x # xs) = x # concat (map (\<lambda>y. [Some '' '', y]) xs)"
  by (induction xs arbitrary: x) simp_all

text \<open>The width of a line made of the given parts.\<close>

definition line_width :: "string option list \<Rightarrow> nat option" where
  "line_width xs = map_option length (concat_options xs)"

lemma line_width_simps [simp]:
  "line_width [] = Some 0"
  "line_width (None # xs) = None"
  "line_width (Some s # xs) = map_option (\<lambda>n. length s + n) (line_width xs)"
  by (simp_all add: line_width_def option.map_comp comp_def)

lemma line_width_append:
  "line_width (xs @ ys) =
     (case line_width xs of None \<Rightarrow> None | Some a \<Rightarrow> map_option (\<lambda>b. a + b) (line_width ys))"
  by (cases "concat_options ys") (auto simp: line_width_def concat_options_append split: option.splits)

lemma line_width_one: "line_width (concat_options xs # ys) = line_width (xs @ ys)"
  by (cases "concat_options xs")
    (auto simp: line_width_def concat_options_append option.map_comp comp_def)

lemma line_width_separated:
  "line_width (concat (map (\<lambda>y. [Some '' '', y]) xs) @ ys) = map_option (\<lambda>n. n + length xs) (line_width (xs @ ys))"
proof (induction xs)
  case (Cons x xs)
  then show ?case
    by (cases x) (auto simp: option.map_comp comp_def intro: option.map_cong0)
qed (auto simp: option.map_ident)

lemma line_width_spaced:
  "line_width (spaced xs @ ys) = map_option (\<lambda>n. n + (length xs - 1)) (line_width (xs @ ys))"
proof (cases xs)
  case (Cons x rest)
  then show ?thesis
    by (cases x) (auto simp: spaced_Cons line_width_separated option.map_comp comp_def intro: option.map_cong0)
qed (auto simp: option.map_ident)

definition fits :: "string option list \<Rightarrow> int \<Rightarrow> bool" where
  "fits xs remaining = (case line_width xs of None \<Rightarrow> False | Some n \<Rightarrow> int n \<le> remaining)"

lemma measure_stack_fits: "measure_stack stack remaining = fits (map flat_text stack) remaining"
proof (induction stack remaining rule: measure_stack.induct)
  case (2 d stack remaining)
  then show ?case
    by (cases d) (auto simp: fits_def line_width_one line_width_spaced split: option.splits)
qed (simp add: fits_def)

text \<open>
  C37. \<^verbatim>\<open>measure_flat\<close>, a loop over an explicit stack with early exits, accepts a document exactly
  when the document has a text without line break and that text is not longer than the
  remaining width.
\<close>

theorem measure_flat_exact:
  "measure_flat d remaining =
     (case flat_text d of None \<Rightarrow> False | Some s \<Rightarrow> int (length s) \<le> remaining)"
  by (simp add: measure_flat_def measure_stack_fits fits_def line_width_def split: option.split)

lemma room_emit [simp]: "int (length s) \<le> room p \<Longrightarrow> room (emit s p) = room p - int (length s)"
  by (auto simp: room_def as_isize_def emit_def split: if_splits)

lemma emit_emit [simp]: "emit t (emit s p) = emit (s @ t) p"
  by (simp add: emit_def)

lemma emit_Nil [simp]: "emit [] p = p"
  by (simp add: emit_def)

lemma concat_options_Cons:
  "concat_options (x # xs) = Some s \<longleftrightarrow> (\<exists>a b. x = Some a \<and> concat_options xs = Some b \<and> s = a @ b)"
  by (cases x) auto

lemma flat_fits_iff:
  "flat_fits d p = (case flat_text d of None \<Rightarrow> False | Some s \<Rightarrow> int (length s) \<le> room p)"
  by (simp add: flat_fits_def measure_flat_exact)

lemma fill_line:
  "concat_options (spaced (map flat_text (d # ds))) =
     concat_options (flat_text d # concat (map (\<lambda>d. [Some '' '', flat_text d]) ds))"
  by (simp add: spaced_Cons comp_def)

lemma print_flat:
  "mode = Flat \<Longrightarrow> flat_text d = Some s \<Longrightarrow> int (length s) \<le> room p \<Longrightarrow> print d ind mode p = emit s p"
  "mode = Flat \<Longrightarrow> concat_options (map flat_text ds) = Some s \<Longrightarrow> int (length s) \<le> room p \<Longrightarrow>
     print_all ds ind mode p = emit s p"
  "mode = Flat \<Longrightarrow> concat_options (concat (map (\<lambda>d. [Some '' '', flat_text d]) ds)) = Some s \<Longrightarrow>
     int (length s) \<le> room p \<Longrightarrow> print_fill ds ind mode p = emit s p"
proof (induction d ind mode p and ds ind mode p and ds ind mode p arbitrary: s and s and s
    rule: print_print_all_print_fill.induct)
  case (8 items ind mode p)
  show ?case
  proof (cases items)
    case (Cons item rest)
    with 8(4) obtain a b where "flat_text item = Some a" "s = a @ b"
      and "concat_options (concat (map (\<lambda>d. [Some '' '', flat_text d]) rest)) = Some b"
      by (auto simp: spaced_Cons comp_def concat_options_Cons simp del: concat_options.simps(3) spaced.simps)
    then show ?thesis using 8(1)[OF Cons, of a] 8(2)[OF Cons, of b] 8(3,5) Cons by simp
  qed (use 8 in simp)
next
  case (12 d ds ind mode p)
  then show ?case by (auto simp: concat_options_Cons)
next
  case (14 item rest ind mode p)
  then obtain a b where ab: "flat_text item = Some a" "s = '' '' @ a @ b"
    and rest: "concat_options (concat (map (\<lambda>d. [Some '' '', flat_text d]) rest)) = Some b"
    by (auto simp: concat_options_Cons)
  have "(if measure_flat item (room p - 1) then emit '' '' p else emit_newline ind p) = emit '' '' p"
    using 14(5) ab by (simp add: measure_flat_exact)
  with 14(1)[OF _ 14(3), of _ a] 14(2)[OF _ 14(3), of _ b] 14(5) ab rest show ?case
    by (simp add: Let_def)
qed (auto simp: flat_fits_iff emit_verbatim_def emit_def split: if_splits)

text \<open>
  A group is laid out on one line exactly when its flat text fits into the rest of the line,
  and then the printer emits that text and nothing else: no nested group or fill breaks the
  line again. Every other group is laid out broken.
\<close>

theorem group_on_one_line_iff_fits:
  "print (Group d) ind mode p =
     (case flat_text d of
        Some s \<Rightarrow> if int (length s) \<le> room p then emit s p else print d ind Break p
      | None \<Rightarrow> print d ind Break p)"
  by (auto simp: flat_fits_iff print_flat split: option.splits)

section \<open>The column and the text\<close>

lemma last_line_append:
  "last_line (a @ s) = (if newline \<in> set s then last_line s else last_line a @ s)"
  by (auto simp: last_line_def takeWhile_append)

lemma last_line_Cons_newline [simp]: "newline \<notin> set s \<Longrightarrow> last_line (newline # s) = s"
  using last_line_append[of "[newline]" s] by (simp add: last_line_def)

lemma print_keeps_settings [simp]:
  "indent_unit (print d ind mode p) = indent_unit p"
  "indent_unit (print_all ds ind mode p) = indent_unit p"
  "indent_unit (print_fill ds ind mode p) = indent_unit p"
  by (induction d ind mode p and ds ind mode p and ds ind mode p rule: print_print_all_print_fill.induct)
    (auto simp: emit_def emit_newline_def emit_verbatim_def Let_def split: layout_mode.splits list.splits)

text \<open>The documentation asks that literal text has no newline.\<close>

fun single_lined :: "doc \<Rightarrow> bool" where
  "single_lined (Text s) = (newline \<notin> set s)"
| "single_lined (Concat docs) = list_all single_lined docs"
| "single_lined (Fill docs) = list_all single_lined docs"
| "single_lined (Indent inner) = single_lined inner"
| "single_lined (Group inner) = single_lined inner"
| "single_lined d = True"

definition aligned :: "string \<Rightarrow> printer \<Rightarrow> bool" where
  "aligned base p = (newline \<notin> set (indent_unit p) \<and> column p = length (last_line (base @ printed p)))"

lemma aligned_emit:
  "aligned base p \<Longrightarrow> newline \<notin> set s \<Longrightarrow> aligned base (emit s p)"
  "newline \<notin> set ind \<Longrightarrow> newline \<notin> set (indent_unit p) \<Longrightarrow> aligned base (emit_newline ind p)"
  "aligned base p \<Longrightarrow> aligned base (emit_verbatim s p)"
  by (auto simp: aligned_def emit_def emit_newline_def emit_verbatim_def last_line_append
      last_line_append[of _ "newline # ind"] simp flip: append_assoc)

lemma space_no_newline: "CHR '' '' \<noteq> newline" "newline \<noteq> CHR '' ''"
  by (simp_all add: newline_def)

lemma aligned_unit: "aligned base p \<Longrightarrow> newline \<notin> set (indent_unit p)"
  by (simp add: aligned_def)

lemma print_aligned:
  "single_lined d \<Longrightarrow> newline \<notin> set ind \<Longrightarrow> aligned base p \<Longrightarrow> aligned base (print d ind mode p)"
  "list_all single_lined ds \<Longrightarrow> newline \<notin> set ind \<Longrightarrow> aligned base p \<Longrightarrow> aligned base (print_all ds ind mode p)"
  "list_all single_lined ds \<Longrightarrow> newline \<notin> set ind \<Longrightarrow> aligned base p \<Longrightarrow> aligned base (print_fill ds ind mode p)"
  by (induction d ind mode p and ds ind mode p and ds ind mode p rule: print_print_all_print_fill.induct)
    (auto simp: aligned_emit aligned_unit space_no_newline Let_def split: layout_mode.splits list.splits)

text \<open>
  The column the printer keeps for its layout decisions is the length of the last line of
  the output, the initial indentation included, whatever is printed in whatever mode, when
  neither the indentation nor a literal text has a newline in it.
\<close>

theorem column_is_length_of_last_line:
  assumes "single_lined d" and "newline \<notin> set base" and "newline \<notin> set unit_str"
  shows "column (print d base mode (printer_new unit_str width\<lparr>column := length base\<rparr>)) =
    length (last_line (base @ printed (print d base mode (printer_new unit_str width\<lparr>column := length base\<rparr>))))"
proof -
  have "aligned base (printer_new unit_str width\<lparr>column := length base\<rparr>)"
    using assms last_line_append[of "[]" base] by (simp add: aligned_def printer_new_def) (simp add: last_line_def)
  then show ?thesis using print_aligned(1)[OF assms(1,2)] by (simp add: aligned_def)
qed

theorem column_is_length_of_last_line_witness:
  "column (print (Indent (Concat [Text ''(begin'', Hardline, Text ''x''])) '' '' Break (printer_new ''  '' 80\<lparr>column := 1\<rparr>)) =
    length (last_line ('' '' @ printed (print (Indent (Concat [Text ''(begin'', Hardline, Text ''x''])) '' '' Break
      (printer_new ''  '' 80\<lparr>column := 1\<rparr>))))"
  using column_is_length_of_last_line[of "Indent (Concat [Text ''(begin'', Hardline, Text ''x''])" "'' ''" "''  ''" Break 80]
  by (simp add: newline_def)

definition blank :: "char \<Rightarrow> bool" where
  "blank c = (c \<in> {CHR '' '', CHR 0x09, CHR 0x0A, CHR 0x0B, CHR 0x0C, CHR 0x0D})"

abbreviation ink :: "string \<Rightarrow> string" where
  "ink s \<equiv> filter (\<lambda>c. \<not> blank c) s"

fun written :: "doc \<Rightarrow> string" where
  "written (Text s) = s"
| "written (Verbatim s) = s"
| "written (Concat docs) = concat (map written docs)"
| "written (Fill docs) = concat (map written docs)"
| "written (Indent inner) = written inner"
| "written (Group inner) = written inner"
| "written d = []"

lemma blank_simps [simp]: "blank newline" "blank (CHR '' '')"
  by (simp_all add: blank_def newline_def)

lemma ink_blank: "list_all blank s \<Longrightarrow> ink s = []"
  by (induction s) auto

lemma print_ink:
  "list_all blank ind \<Longrightarrow> list_all blank (indent_unit p) \<Longrightarrow>
     ink (printed (print d ind mode p)) = ink (printed p) @ ink (written d)"
  "list_all blank ind \<Longrightarrow> list_all blank (indent_unit p) \<Longrightarrow>
     ink (printed (print_all ds ind mode p)) = ink (printed p) @ ink (concat (map written ds))"
  "list_all blank ind \<Longrightarrow> list_all blank (indent_unit p) \<Longrightarrow>
     ink (printed (print_fill ds ind mode p)) = ink (printed p) @ ink (concat (map written ds))"
proof (induction d ind mode p and ds ind mode p and ds ind mode p rule: print_print_all_print_fill.induct)
  case (8 items ind mode p)
  then show ?case by (cases items) auto
next
  case (14 item rest ind mode p)
  then show ?case
    by (cases "measure_flat item (room p - 1)")
      (simp_all add: Let_def emit_def emit_newline_def ink_blank)
qed (auto simp: emit_def emit_newline_def emit_verbatim_def ink_blank split: layout_mode.splits)



end
