(* ===== verification/Format_Expr.thy ===== *)
theory Format_Expr
  imports Format_Doc
begin

text \<open>
  The expressions the formatter works on and the helpers of
  \<^verbatim>\<open>components/clarinet-format/src/formatter\<close>: \<^verbatim>\<open>helpers.rs\<close>, \<^verbatim>\<open>ignored.rs\<close>, \<^verbatim>\<open>sequence.rs\<close> and the
  free functions of \<^verbatim>\<open>mod.rs\<close>.

  The parser is not part of the repository. Of its \<^verbatim>\<open>PreSymbolicExpression\<close> the model keeps what the
  formatter reads: the kind of expression, the source span and the address in memory, which the
  formatter's cache uses as a key. A literal is kept as its \<^verbatim>\<open>Display\<close> text, an ASCII string as its
  bytes, because the formatter escapes it itself. Strings are lists of the bytes of their UTF-8
  encoding; slicing panics off character boundaries, as in Rust.
\<close>

section \<open>Strings as Rust has them\<close>

abbreviation continuation :: "char \<Rightarrow> bool" where
  "continuation c \<equiv> 128 \<le> (of_char c :: nat) \<and> (of_char c :: nat) < 192"

text \<open>The characters of a string, each as its bytes.\<close>

fun utf8_chars :: "string \<Rightarrow> string list" where
  "utf8_chars [] = []"
| "utf8_chars (c # s) =
     (case utf8_chars s of
        [] \<Rightarrow> [[c]]
      | ch # chs \<Rightarrow> if continuation (hd ch) then (c # ch) # chs else [c] # ch # chs)"

text \<open>\<^verbatim>\<open>char::is_whitespace\<close>, by encoding.\<close>

definition white_space :: "string list" where
  "white_space =
     [[CHR 0x09], [CHR 0x0A], [CHR 0x0B], [CHR 0x0C], [CHR 0x0D], [CHR 0x20],
      [CHR 0xC2, CHR 0x85], [CHR 0xC2, CHR 0xA0], [CHR 0xE1, CHR 0x9A, CHR 0x80], [CHR 0xE2, CHR 0x81, CHR 0x9F], [CHR 0xE3, CHR 0x80, CHR 0x80]] @
     map (\<lambda>c. [CHR 0xE2, CHR 0x80, c])
       [CHR 0x80, CHR 0x81, CHR 0x82, CHR 0x83, CHR 0x84, CHR 0x85, CHR 0x86,
        CHR 0x87, CHR 0x88, CHR 0x89, CHR 0x8A, CHR 0xA8, CHR 0xA9, CHR 0xAF]"

definition is_whitespace :: "string \<Rightarrow> bool" where
  "is_whitespace ch = (ch \<in> set white_space)"

definition char_boundary :: "string \<Rightarrow> nat \<Rightarrow> bool" where
  "char_boundary s i = (i = length s \<or> i < length s \<and> \<not> continuation (s ! i))"

definition str_slice :: "string \<Rightarrow> nat \<Rightarrow> nat \<Rightarrow> string outcome" where
  "str_slice s a b =
     (if a \<le> b \<and> char_boundary s a \<and> char_boundary s b then Done (take (b - a) (drop a s)) else Panic)"

definition trim :: "string \<Rightarrow> string" where
  "trim s = concat (rev (dropWhile is_whitespace (rev (dropWhile is_whitespace (utf8_chars s)))))"

definition ends_with :: "char \<Rightarrow> string \<Rightarrow> bool" where
  "ends_with c s = (s \<noteq> [] \<and> last s = c)"

definition starts_with :: "char \<Rightarrow> string \<Rightarrow> bool" where
  "starts_with c s = (s \<noteq> [] \<and> hd s = c)"

fun contains_str :: "string \<Rightarrow> string \<Rightarrow> bool" where
  "contains_str [] pat = (pat = [])"
| "contains_str (c # s) pat = (take (length pat) (c # s) = pat \<or> contains_str s pat)"

definition strip_suffix :: "char \<Rightarrow> string \<Rightarrow> string option" where
  "strip_suffix c s = (if ends_with c s then Some (butlast s) else None)"

text \<open>\<^verbatim>\<open>str::lines\<close>: pieces that end in a newline, without it and without a carriage return before it.\<close>

fun split_lines :: "string \<Rightarrow> string list" where
  "split_lines [] = []"
| "split_lines (c # s) =
     (if c = newline then [] # split_lines s
      else if s = [] then [[c]]
      else if hd s = newline then
        (if c = CHR 0x0D then [] # split_lines (tl s) else [c] # split_lines (tl s))
      else (case split_lines s of [] \<Rightarrow> [[c]] | l # ls \<Rightarrow> (c # l) # ls))"

section \<open>Expressions\<close>

record span =
  start_line :: u32
  start_column :: u32
  end_line :: u32
  end_column :: u32

datatype literal_value =
    IntValue string
  | PrincipalValue string
  | AsciiValue "u8 list"
  | Utf8Value string
  | OtherValue string

datatype pre_expr =
    Atom string
  | AtomValue literal_value
  | ListExpr "pse list"
  | TupleExpr "pse list"
  | SugaredContractIdentifier string
  | SugaredFieldIdentifier string string
  | FieldIdentifier string
  | TraitReference string
  | Comment string
  | Placeholder string
and pse = PSE (pre_expr: pre_expr) (span_of: span) (address: nat)

datatype native_function =
  Let_native | Begin | Match | TupleCons | If_native | And | Or | ListCons | RestrictAssets | OtherNative

datatype define_function =
    DefineFunction | DefineConstant | DefineMap | DefineTrait

definition match_list :: "pse \<Rightarrow> pse list option" where
  "match_list e = (case pre_expr e of ListExpr items \<Rightarrow> Some items | _ \<Rightarrow> None)"

definition match_atom :: "pse \<Rightarrow> string option" where
  "match_atom e = (case pre_expr e of Atom name \<Rightarrow> Some name | _ \<Rightarrow> None)"

definition is_list :: "pse \<Rightarrow> bool" where
  "is_list e = (match_list e \<noteq> None)"

definition is_comment :: "pse \<Rightarrow> bool" where
  "is_comment e = (case pre_expr e of Comment _ \<Rightarrow> True | _ \<Rightarrow> False)"

definition FORMAT_IGNORE_SYNTAX :: string where
  "FORMAT_IGNORE_SYNTAX = ''@format-ignore''"

definition is_format_ignore :: "pse \<Rightarrow> bool" where
  "is_format_ignore e =
     (case pre_expr e of Comment text \<Rightarrow> contains_str text FORMAT_IGNORE_SYNTAX | _ \<Rightarrow> False)"

definition contains_comments :: "pse list \<Rightarrow> bool" where
  "contains_comments es = list_ex is_comment es"

definition without_comments_len :: "pse list \<Rightarrow> nat" where
  "without_comments_len es = length (filter (\<lambda>e. \<not> is_comment e) es)"

definition is_same_line :: "pse \<Rightarrow> pse \<Rightarrow> bool" where
  "is_same_line e e' = (start_line (span_of e) = start_line (span_of e'))"

text \<open>A comment on the line where \<open>e\<close> ends is taken from the iterator.\<close>

fun get_trailing_comment :: "pse \<Rightarrow> pse list \<Rightarrow> pse option \<times> pse list" where
  "get_trailing_comment e [] = (None, [])"
| "get_trailing_comment e (next # rest) =
     (if is_comment next \<and> end_line (span_of e) = start_line (span_of next)
      then (Some next, rest) else (None, next # rest))"

lemma get_trailing_comment_length:
  "get_trailing_comment e rest = (tr, rest') \<Longrightarrow> length rest' \<le> length rest"
  by (cases rest) (auto split: if_splits)

lemma dropWhile_Cons_length: "dropWhile P xs = y # ys \<Longrightarrow> length ys < length xs"
  using length_dropWhile_le[of P xs] by simp

text \<open>
  The passes of a loop that takes an expression and its trailing comment from the iterator:
  the expression, the comment and what the iterator still holds.
\<close>

function with_trailing :: "pse list \<Rightarrow> (pse \<times> pse option \<times> pse list) list" where
  "with_trailing [] = []"
| "with_trailing (e # rest) =
     (case get_trailing_comment e rest of (tr, rest') \<Rightarrow> (e, tr, rest') # with_trailing rest')"
  by pat_completeness auto
termination
  by (relation "measure length") (auto dest!: get_trailing_comment_length[OF sym])

fun peek :: "pse list \<Rightarrow> pse option" where
  "peek [] = None"
| "peek (e # _) = Some e"

section \<open>helpers.rs\<close>

text \<open>
  \<^verbatim>\<open>t\<close>: the slice from the first to the last character that is a newline or not white space. The end
  is the position of that character plus one byte.
\<close>

definition t_keeps :: "string \<Rightarrow> bool" where
  "t_keeps ch = (\<not> is_whitespace ch \<or> ch = [newline])"

definition t :: "string \<Rightarrow> string outcome" where
  "t input =
     (let chs = utf8_chars input;
          kept = filter t_keeps chs;
          start = (if kept = [] then 0 else length (concat (takeWhile (\<lambda>ch. \<not> t_keeps ch) chs)));
          stop = (if kept = [] then 0
                  else length input - length (concat (takeWhile (\<lambda>ch. \<not> t_keeps ch) (rev chs)))
                         - length (last kept) + 1)
      in str_slice input start stop)"

section \<open>ignored.rs\<close>

definition COLUMN_TO_INDEX_OFFSET :: nat where
  "COLUMN_TO_INDEX_OFFSET = 1"

text \<open>One line of a span; line zero wraps to an index out of range.\<close>

definition extract_line :: "string list \<Rightarrow> span \<Rightarrow> nat \<Rightarrow> string outcome" where
  "extract_line lines sp line_idx =
     (if line_idx = 0 then Panic
      else
        let line = lines ! (line_idx - COLUMN_TO_INDEX_OFFSET);
            start_col = (if line_idx = unat (start_line sp)
                         then unat (start_column sp) - COLUMN_TO_INDEX_OFFSET else 0);
            end_col = (if line_idx = unat (end_line sp)
                       then min (unat (end_column sp)) (length line) else length line)
        in bind_outcome (if start_col < end_col then str_slice line start_col end_col else Done [])
             (\<lambda>text. Done (text @ (if line_idx = unat (end_line sp) then [] else [newline]))))"

fun extract_lines :: "string list \<Rightarrow> span \<Rightarrow> nat list \<Rightarrow> string outcome" where
  "extract_lines lines sp [] = Done []"
| "extract_lines lines sp (line_idx # rest) =
     (if length lines < line_idx then Done []
      else bind_outcome (extract_line lines sp line_idx)
             (\<lambda>text. bind_outcome (extract_lines lines sp rest) (\<lambda>texts. Done (text @ texts))))"

definition extract_source_range :: "string list \<Rightarrow> span \<Rightarrow> string outcome" where
  "extract_source_range lines sp = extract_lines lines sp [unat (start_line sp)..<Suc (unat (end_line sp))]"

definition extract_expr_source :: "string list \<Rightarrow> pse \<Rightarrow> string outcome" where
  "extract_expr_source lines e = extract_source_range lines (span_of e)"

section \<open>sequence.rs\<close>

record sequence_item =
  expression :: pse
  comments :: "pse list"

record pse_sequence =
  items :: "sequence_item list"
  end_comments :: "pse list"

function sequence_from :: "pse list \<Rightarrow> pse_sequence" where
  "sequence_from es =
     (case dropWhile is_comment es of
        [] \<Rightarrow> \<lparr>items = [], end_comments = es\<rparr>
      | e # rest \<Rightarrow>
          let sequence = sequence_from rest
          in sequence\<lparr>items := \<lparr>expression = e, comments = takeWhile is_comment es\<rparr> # items sequence\<rparr>)"
  by pat_completeness auto
termination
  by (relation "measure length") (auto dest!: dropWhile_Cons_length)

declare sequence_from.simps [simp del]

section \<open>Free functions of mod.rs\<close>

definition block :: "doc \<Rightarrow> doc list \<Rightarrow> string \<Rightarrow> doc" where
  "block open_doc body close = Concat [open_doc, Indent (Concat body), Hardline, Text close]"

definition has_blank_line :: "u32 option \<Rightarrow> u32 \<Rightarrow> bool" where
  "has_blank_line prev_end_line curr_start_line =
     (case prev_end_line of None \<Rightarrow> False | Some prev_end \<Rightarrow> prev_end + 1 < curr_start_line)"

definition line_break :: "u32 option \<Rightarrow> pse \<Rightarrow> doc" where
  "line_break prev_end_line e =
     (if has_blank_line prev_end_line (start_line (span_of e)) then BlankLine else Hardline)"

definition first_line_len :: "string \<Rightarrow> nat" where
  "first_line_len s = length (takeWhile (\<lambda>c. c \<noteq> newline) s)"

definition last_line_len :: "string \<Rightarrow> nat \<Rightarrow> nat" where
  "last_line_len s col = (if newline \<in> set s then length (last_line s) else col + length s)"

fun fits_loop :: "string list \<Rightarrow> nat \<Rightarrow> nat \<Rightarrow> nat \<Rightarrow> bool" where
  "fits_loop [] separator col width = (col < width)"
| "fits_loop (item # rest) separator col width =
     (if width < col + separator + first_line_len item then False
      else fits_loop rest 1 (last_line_len item (col + separator)) width)"

definition fits_inline :: "string list \<Rightarrow> nat \<Rightarrow> nat \<Rightarrow> bool" where
  "fits_inline its start width = fits_loop its 0 start width"

record tuple_entry =
  te_key :: pse
  te_before :: "pse list"
  te_value :: pse
  te_after :: "pse list"

definition split_tuple_entry :: "pse \<Rightarrow> tuple_entry option" where
  "split_tuple_entry entry =
     (case match_list entry of
        Some (key # rest) \<Rightarrow>
          if match_atom key = None then None
          else (case dropWhile is_comment rest of
                  [] \<Rightarrow> None
                | v # after_comments \<Rightarrow>
                    if list_all is_comment after_comments
                    then Some \<lparr>te_key = key, te_before = takeWhile is_comment rest, te_value = v,
                               te_after = after_comments\<rparr>
                    else None)
      | _ \<Rightarrow> None)"

definition push_spaces :: "u32 \<Rightarrow> string" where
  "push_spaces count = replicate (unat count) (CHR '' '')"

text \<open>The number of spaces is computed in 32 bits and wraps.\<close>

definition comment_piece :: "string \<Rightarrow> pse \<Rightarrow> string" where
  "comment_piece text e =
     (let comment_part = takeWhile (\<lambda>c. c = CHR '';'') text;
          rest = dropWhile (\<lambda>c. c = CHR '';'') text;
          space_count = end_column (span_of e) - of_nat (length text) - start_column (span_of e) - 1
      in if 0 < space_count then '';;'' @ comment_part @ push_spaces space_count @ rest
         else '';;'' @ comment_part @ (if starts_with (CHR '' '') rest then [] else '' '') @ rest)"

text \<open>An ASCII string literal, escaped the way Clarity reads it.\<close>

definition escape_byte :: "u8 \<Rightarrow> string" where
  "escape_byte b =
     (if b = 92 then [CHR 0x5C, CHR 0x5C]
      else if b = 34 then [CHR 0x5C, CHR 0x22]
      else if b = 10 then [CHR 0x5C, CHR ''n'']
      else if b = 13 then [CHR 0x5C, CHR ''r'']
      else if b = 9 then [CHR 0x5C, CHR ''t'']
      else if b < 128 then [char_of (unat b)]
      else [char_of (192 + unat b div 64), char_of (128 + unat b mod 64)])"

definition ascii_literal :: "u8 list \<Rightarrow> string" where
  "ascii_literal data = [CHR 0x22] @ concat (map escape_byte data) @ [CHR 0x22]"

end
