(* ===== verification/Format_Aggregator.thy ===== *)
theory Format_Aggregator
  imports Format_Expr
begin

text \<open>
  The formatter itself: \<^verbatim>\<open>Aggregator\<close> and \<^verbatim>\<open>ClarityFormatter\<close> of
  \<^verbatim>\<open>components/clarinet-format/src/formatter/mod.rs\<close>.

  The methods of \<^verbatim>\<open>Aggregator\<close> call each other recursively on parts of an expression. Each is a
  definition that takes the three entry points of the recursion as the record \<open>calls\<close>;
  \<open>aggregator_calls\<close> ties the knot for a given depth of nested calls and diverges beyond it. The
  depth is bounded by the nesting of the expression. The state is the cache, keyed by the
  address and length of a slice and the indentation, and the table of expressions marked with
  \<^verbatim>\<open>@format-ignore\<close>, keyed by their span.

  \<^verbatim>\<open>NativeFunctions::lookup_by_name\<close>, \<^verbatim>\<open>DefineFunctions::lookup_by_name\<close> and the parser are not part
  of the repository and are parameters. Loops over a peekable iterator that takes trailing
  comments run over the passes that \<open>with_trailing\<close> lists.
\<close>

section \<open>State and settings\<close>

record settings =
  indentation_str :: string
  max_line_length :: nat
  source :: "string option"
  source_lines :: "string list option"
  lookup_native :: "string \<Rightarrow> native_function option"
  lookup_define :: "string \<Rightarrow> define_function option"

record aggregator =
  fmt_cache :: "(nat \<times> nat \<times> string, string) hash_map"
  ignored_exprs :: "(span, string) hash_map"

type_synonym 'a fmt = "aggregator \<Rightarrow> ('a \<times> aggregator) outcome"

definition fmt_return :: "'a \<Rightarrow> 'a fmt" where
  "fmt_return x = (\<lambda>agg. Done (x, agg))"

definition bind_fmt :: "'a fmt \<Rightarrow> ('a \<Rightarrow> 'b fmt) \<Rightarrow> 'b fmt" where
  "bind_fmt m f = (\<lambda>agg. bind_outcome (m agg) (\<lambda>(x, agg'). f x agg'))"

definition fmt_outcome :: "'a outcome \<Rightarrow> 'a fmt" where
  "fmt_outcome r = (\<lambda>agg. bind_outcome r (\<lambda>x. Done (x, agg)))"

record calls =
  call_exprs :: "pse list \<Rightarrow> string \<Rightarrow> string fmt"
  call_display :: "pse \<Rightarrow> string \<Rightarrow> string fmt"
  call_preserve :: "pse \<Rightarrow> string \<Rightarrow> string fmt"

text \<open>\<^verbatim>\<open>exprs[i]\<close> and \<^verbatim>\<open>exprs[i..]\<close>.\<close>

definition nth_expr :: "pse list \<Rightarrow> nat \<Rightarrow> pse fmt" where
  "nth_expr es i = fmt_outcome (if i < length es then Done (es ! i) else Panic)"

definition exprs_from :: "pse list \<Rightarrow> nat \<Rightarrow> pse list fmt" where
  "exprs_from es i = fmt_outcome (if i \<le> length es then Done (drop i es) else Panic)"

text \<open>\<^verbatim>\<open>Indent::indented\<close>.\<close>

definition indented :: "settings \<Rightarrow> string \<Rightarrow> string" where
  "indented env indent = indent @ indentation_str env"

definition render_doc :: "settings \<Rightarrow> doc \<Rightarrow> string \<Rightarrow> string" where
  "render_doc env d indent = render (printer_new (indentation_str env) (max_line_length env)) d indent"

definition is_define_fn :: "settings \<Rightarrow> string \<Rightarrow> bool" where
  "is_define_fn env name = (lookup_define env name \<noteq> None)"

section \<open>Ignored expressions\<close>

definition cache_ignored_expression :: "settings \<Rightarrow> pse \<Rightarrow> unit fmt" where
  "cache_ignored_expression env next_expr =
     (case source_lines env of
        None \<Rightarrow> fmt_return ()
      | Some lines \<Rightarrow>
          bind_fmt (fmt_outcome (extract_expr_source lines next_expr))
            (\<lambda>text agg. Done ((), agg\<lparr>ignored_exprs := hm_insert (span_of next_expr) text (ignored_exprs agg)\<rparr>)))"

definition check_and_cache_ignored :: "settings \<Rightarrow> pse \<Rightarrow> pse option \<Rightarrow> unit fmt" where
  "check_and_cache_ignored env e next_expr =
     (case next_expr of
        Some next \<Rightarrow>
          if is_format_ignore e \<and> is_list next then cache_ignored_expression env next else fmt_return ()
      | None \<Rightarrow> fmt_return ())"

text \<open>What is appended to the result, the last line of it and what the iterator still holds.\<close>

definition emit_format_ignored ::
  "settings \<Rightarrow> calls \<Rightarrow> pse \<Rightarrow> pse list \<Rightarrow> string \<Rightarrow> (string \<times> u32 \<times> pse list) fmt" where
  "emit_format_ignored env c comment iter indent =
     (case (source_lines env, filter is_list (take 1 iter)) of
        (Some lines, [next_expr]) \<Rightarrow>
          (case get_trailing_comment next_expr (tl iter) of
             (trailing, rest) \<Rightarrow>
               let last_expr = (case trailing of Some x \<Rightarrow> x | None \<Rightarrow> next_expr);
                   range = (span_of last_expr)\<lparr>start_line := start_line (span_of comment),
                                               start_column := start_column (span_of comment)\<rparr>
               in bind_fmt (fmt_outcome (extract_source_range lines range))
                    (\<lambda>text. fmt_return (text @ (if rest = [] then [] else [newline]),
                                        end_line (span_of last_expr), rest)))
      | _ \<Rightarrow>
          bind_fmt (case source_lines env of
                      Some lines \<Rightarrow> fmt_outcome (extract_expr_source lines comment)
                    | None \<Rightarrow> call_display c comment indent)
            (\<lambda>text. fmt_return (text @ (if iter = [] then [] else [newline]),
                                end_line (span_of comment), iter)))"

section \<open>Documents for sequences of expressions\<close>

definition push_trailing_comment :: "calls \<Rightarrow> pse option \<Rightarrow> string \<Rightarrow> doc list fmt" where
  "push_trailing_comment c trailing indent =
     (case trailing of
        None \<Rightarrow> fmt_return []
      | Some comment \<Rightarrow>
          bind_fmt (call_display c comment indent) (\<lambda>text. fmt_return [Text '' '', Verbatim text]))"

definition spaced_comment :: "calls \<Rightarrow> pse \<Rightarrow> pse \<Rightarrow> string \<Rightarrow> string fmt" where
  "spaced_comment c item comment indent =
     bind_fmt (call_display c comment indent)
       (\<lambda>text. fmt_return
          (push_spaces (saturating_sub (start_column (span_of comment)) (end_column (span_of item) + 1)) @ text))"

fun lines_loop ::
  "settings \<Rightarrow> calls \<Rightarrow> string \<Rightarrow> bool \<Rightarrow> u32 option \<Rightarrow> (pse \<times> pse option \<times> pse list) list \<Rightarrow> doc list fmt" where
  "lines_loop env c indent keep_blank_lines prev_end_line [] = fmt_return []"
| "lines_loop env c indent keep_blank_lines prev_end_line ((e, trailing, iter) # passes) =
     bind_fmt (check_and_cache_ignored env e (peek iter)) (\<lambda>_.
     bind_fmt (call_exprs c [e] indent) (\<lambda>text.
     bind_fmt (push_trailing_comment c trailing indent) (\<lambda>comment_parts.
     bind_fmt (lines_loop env c indent keep_blank_lines
                 (if keep_blank_lines then Some (end_line (span_of e)) else prev_end_line) passes) (\<lambda>parts.
     fmt_return ([line_break prev_end_line e, Verbatim text] @ comment_parts @ parts)))))"

definition lines_doc :: "settings \<Rightarrow> calls \<Rightarrow> pse list \<Rightarrow> string \<Rightarrow> bool \<Rightarrow> doc list fmt" where
  "lines_doc env c es indent keep_blank_lines =
     lines_loop env c indent keep_blank_lines None (with_trailing es)"

fun body_loop :: "settings \<Rightarrow> calls \<Rightarrow> string \<Rightarrow> u32 option \<Rightarrow> pse list \<Rightarrow> doc list fmt" where
  "body_loop env c indent prev_end_line [] = fmt_return []"
| "body_loop env c indent prev_end_line (e # rest) =
     bind_fmt (check_and_cache_ignored env e (peek rest)) (\<lambda>_.
     bind_fmt (call_exprs c [e] indent) (\<lambda>text.
     bind_fmt (body_loop env c indent (Some (end_line (span_of e))) rest) (\<lambda>parts.
     fmt_return ([line_break prev_end_line e, Verbatim text] @ parts))))"

definition body_doc :: "settings \<Rightarrow> calls \<Rightarrow> pse list \<Rightarrow> string \<Rightarrow> doc fmt" where
  "body_doc env c body_exprs indent =
     bind_fmt (body_loop env c indent None body_exprs) (\<lambda>parts. fmt_return (Indent (Concat parts)))"

section \<open>Traits\<close>

fun comment_gap_loop :: "calls \<Rightarrow> string \<Rightarrow> pse option \<Rightarrow> pse list \<Rightarrow> doc list fmt" where
  "comment_gap_loop c indent previous [] = fmt_return []"
| "comment_gap_loop c indent previous (comment # rest) =
     bind_fmt
       (case previous of
          Some prev \<Rightarrow>
            if end_line (span_of prev) = start_line (span_of comment)
            then bind_fmt (spaced_comment c prev comment indent) (\<lambda>text. fmt_return [Verbatim text])
            else bind_fmt (call_display c comment indent) (\<lambda>text. fmt_return [Hardline, Verbatim text])
        | None \<Rightarrow> bind_fmt (call_display c comment indent) (\<lambda>text. fmt_return [Hardline, Verbatim text]))
       (\<lambda>parts. bind_fmt (comment_gap_loop c indent (Some comment) rest) (\<lambda>more. fmt_return (parts @ more)))"

definition comment_gap_doc :: "calls \<Rightarrow> pse list \<Rightarrow> pse option \<Rightarrow> string \<Rightarrow> doc fmt" where
  "comment_gap_doc c gap previous indent =
     bind_fmt (comment_gap_loop c indent previous gap) (\<lambda>parts. fmt_return (Concat parts))"

definition trait_item_prefix :: "calls \<Rightarrow> pse list \<Rightarrow> pse option \<Rightarrow> doc \<Rightarrow> string \<Rightarrow> doc fmt" where
  "trait_item_prefix c gap previous separator indent =
     (if gap = [] then fmt_return separator
      else bind_fmt (comment_gap_doc c gap previous indent) (\<lambda>d. fmt_return (Concat [d, Hardline])))"

fun trait_list_loop ::
  "calls \<Rightarrow> string \<Rightarrow> (nat \<Rightarrow> pse \<Rightarrow> string \<Rightarrow> doc fmt) \<Rightarrow> nat \<Rightarrow> doc \<Rightarrow> pse option \<Rightarrow>
     sequence_item list \<Rightarrow> (doc list \<times> pse option) fmt" where
  "trait_list_loop c nested item_doc index separator previous [] = fmt_return ([], previous)"
| "trait_list_loop c nested item_doc index separator previous (item # rest) =
     bind_fmt (trait_item_prefix c (comments item) previous separator nested) (\<lambda>prefix_doc.
     bind_fmt (item_doc index (expression item) nested) (\<lambda>d.
     bind_fmt (trait_list_loop c nested item_doc (Suc index) Hardline (Some (expression item)) rest)
       (\<lambda>(body, previous'). fmt_return ([prefix_doc, d] @ body, previous'))))"

definition trait_list_doc ::
  "settings \<Rightarrow> calls \<Rightarrow> pse list \<Rightarrow> string \<Rightarrow> doc \<Rightarrow> (nat \<Rightarrow> pse \<Rightarrow> string \<Rightarrow> doc fmt) \<Rightarrow> doc fmt" where
  "trait_list_doc env c es indent first_separator item_doc =
     (if es = [] then fmt_return (Text ''()'')
      else
        let nested = indented env indent; sequence = sequence_from es
        in bind_fmt (trait_list_loop c nested item_doc 0 first_separator None (items sequence))
             (\<lambda>(body, previous). bind_fmt (comment_gap_doc c (end_comments sequence) previous nested)
                (\<lambda>gap. fmt_return (block (Text ''('') (body @ [gap]) '')''))))"

definition trait_part_doc :: "calls \<Rightarrow> nat \<Rightarrow> pse \<Rightarrow> string \<Rightarrow> doc fmt" where
  "trait_part_doc c index item nested =
     bind_fmt
       (if index < 3 \<and> (case pre_expr item of TupleExpr _ \<Rightarrow> False | _ \<Rightarrow> True)
        then call_display c item nested else call_preserve c item nested)
       (\<lambda>text. fmt_return (Verbatim text))"

definition trait_method_doc :: "settings \<Rightarrow> calls \<Rightarrow> pse \<Rightarrow> string \<Rightarrow> doc fmt" where
  "trait_method_doc env c method_expr indent =
     (case match_list method_expr of
        None \<Rightarrow> bind_fmt (call_preserve c method_expr indent) (\<lambda>text. fmt_return (Verbatim text))
      | Some es \<Rightarrow> trait_list_doc env c es indent (Text []) (trait_part_doc c))"

definition preserve_expr :: "settings \<Rightarrow> calls \<Rightarrow> pse \<Rightarrow> string \<Rightarrow> string fmt" where
  "preserve_expr env c e indent =
     (case source_lines env of
        Some lines \<Rightarrow> fmt_outcome (extract_expr_source lines e)
      | None \<Rightarrow> call_preserve c e indent)"

definition trait_doc ::
  "settings \<Rightarrow> calls \<Rightarrow> pse_sequence \<Rightarrow> sequence_item \<Rightarrow> sequence_item \<Rightarrow> sequence_item \<Rightarrow> pse list \<Rightarrow>
     string \<Rightarrow> doc fmt" where
  "trait_doc env c sequence keyword name methods method_list indent =
     (let nested = indented env indent;
          empty_multiline = (method_list = [] \<and>
            end_line (span_of (expression name)) \<noteq> start_line (span_of (expression methods)));
          multiline_header = (empty_multiline \<or> comments name \<noteq> [] \<or> comments methods \<noteq> []);
          header_indent = (if multiline_header then nested else indent)
      in bind_fmt (trait_item_prefix c (comments name) (Some (expression keyword)) (Text '' '') header_indent) (\<lambda>d1.
         bind_fmt (call_display c (expression name) header_indent) (\<lambda>name_text.
         bind_fmt (trait_item_prefix c (comments methods) (Some (expression name))
                     (if empty_multiline then Hardline else Text '' '') header_indent) (\<lambda>d2.
         bind_fmt (trait_list_doc env c method_list header_indent Hardline
                     (\<lambda>_ method_expr inner. trait_method_doc env c method_expr inner)) (\<lambda>d3.
         bind_fmt (comment_gap_doc c (end_comments sequence) (Some (expression methods)) nested) (\<lambda>gap.
         let header = Concat [d1, Verbatim name_text, d2, d3]
         in fmt_return (Concat
              ([Text ''(define-trait'', if multiline_header then Indent header else header, Indent gap] @
               (if multiline_header \<or> end_comments sequence \<noteq> [] then [Hardline] else []) @
               [Text '')'']))))))))"

definition define_trait :: "settings \<Rightarrow> calls \<Rightarrow> pse \<Rightarrow> pse list \<Rightarrow> string \<Rightarrow> string fmt" where
  "define_trait env c e es indent =
     (let sequence = sequence_from es
      in case items sequence of
           [keyword, name, methods] \<Rightarrow>
             (case match_list (expression methods) of
                None \<Rightarrow> preserve_expr env c e indent
              | Some method_list \<Rightarrow>
                  bind_fmt (trait_doc env c sequence keyword name methods method_list indent)
                    (\<lambda>d. fmt_return (render_doc env d indent)))
         | _ \<Rightarrow> preserve_expr env c e indent)"

section \<open>Definitions, conditionals and blocks\<close>

text \<open>Expressions on one line, each after a space; the first one without it when \<open>bare_first\<close>.\<close>

fun inline_parts :: "settings \<Rightarrow> calls \<Rightarrow> string \<Rightarrow> bool \<Rightarrow> pse list \<Rightarrow> doc list fmt" where
  "inline_parts env c indent bare_first [] = fmt_return []"
| "inline_parts env c indent bare_first (e # rest) =
     bind_fmt (call_exprs c [e] indent) (\<lambda>text.
     bind_fmt (inline_parts env c indent False rest) (\<lambda>parts.
     fmt_return ((if bare_first then [] else [Text '' '']) @ [Verbatim text] @ parts)))"

definition format_constant :: "settings \<Rightarrow> calls \<Rightarrow> pse list \<Rightarrow> string \<Rightarrow> string fmt" where
  "format_constant env c es indent =
     bind_fmt (nth_expr es 0) (\<lambda>first.
     bind_fmt (call_display c first []) (\<lambda>func_type.
     if contains_comments (drop 1 es)
     then bind_fmt (lines_doc env c (drop 1 es) (indented env indent) False)
            (\<lambda>body. fmt_return (render_doc env (block (Text (''('' @ func_type)) body '')'') indent))
     else bind_fmt (inline_parts env c indent True (drop 1 es))
            (\<lambda>parts. fmt_return (render_doc env
               (Concat ([Text (''('' @ func_type @ '' '')] @ parts @ [Text '')''])) indent))))"

definition format_map :: "settings \<Rightarrow> calls \<Rightarrow> pse list \<Rightarrow> string \<Rightarrow> string fmt" where
  "format_map env c es indent =
     bind_fmt (nth_expr es 0) (\<lambda>first.
     bind_fmt (call_display c first []) (\<lambda>func_type.
     bind_fmt (nth_expr es 1) (\<lambda>name_expr.
     bind_fmt (call_exprs c [name_expr] indent) (\<lambda>name.
     bind_fmt (exprs_from es 2) (\<lambda>rest.
     bind_fmt (lines_doc env c rest (indented env indent) False) (\<lambda>body.
     fmt_return (render_doc env
       (block (Concat [Text (''('' @ func_type @ '' ''), Verbatim name]) body '')'') indent)))))))"

definition format_begin :: "settings \<Rightarrow> calls \<Rightarrow> pse list \<Rightarrow> string \<Rightarrow> string fmt" where
  "format_begin env c es indent =
     bind_fmt (exprs_from es 1) (\<lambda>rest.
     bind_fmt (lines_doc env c rest (indented env indent) True) (\<lambda>body.
     fmt_return (render_doc env (block (Text ''(begin'') body '')'') indent)))"

definition BOOLEAN_BREAK_LIMIT :: nat where
  "BOOLEAN_BREAK_LIMIT = 2"

fun booleans_fit_loop :: "settings \<Rightarrow> calls \<Rightarrow> string \<Rightarrow> nat \<Rightarrow> pse list \<Rightarrow> bool fmt" where
  "booleans_fit_loop env c indent flat_width [] = fmt_return True"
| "booleans_fit_loop env c indent flat_width (arg # rest) =
     bind_fmt (call_exprs c [arg] indent) (\<lambda>formatted.
       if newline \<in> set formatted then fmt_return False
       else if max_line_length env < flat_width + length formatted + 1 then fmt_return False
       else booleans_fit_loop env c indent (flat_width + length formatted + 1) rest)"

definition booleans_fit_on_one_line :: "settings \<Rightarrow> calls \<Rightarrow> string \<Rightarrow> pse list \<Rightarrow> string \<Rightarrow> bool fmt" where
  "booleans_fit_on_one_line env c func_type args indent =
     booleans_fit_loop env c indent (length indent + 1 + length func_type + 1) args"

definition format_booleans :: "settings \<Rightarrow> calls \<Rightarrow> pse list \<Rightarrow> string \<Rightarrow> string fmt" where
  "format_booleans env c es indent =
     bind_fmt (nth_expr es 0) (\<lambda>first.
     bind_fmt (call_display c first indent) (\<lambda>func_type.
     bind_fmt
       (if BOOLEAN_BREAK_LIMIT < without_comments_len (drop 1 es) \<or> contains_comments (drop 1 es)
        then fmt_return True
        else bind_fmt (booleans_fit_on_one_line env c func_type (drop 1 es) indent) (\<lambda>fit. fmt_return (\<not> fit)))
       (\<lambda>break_up.
          if break_up
          then bind_fmt (lines_doc env c (drop 1 es) (indented env indent) True)
                 (\<lambda>body. fmt_return (render_doc env (block (Text (''('' @ func_type)) body '')'') indent))
          else bind_fmt (inline_parts env c indent False (drop 1 es))
                 (\<lambda>parts. fmt_return (render_doc env
                    (Concat ([Text (''('' @ func_type)] @ parts @ [Text '')''])) indent)))))"

definition format_if :: "settings \<Rightarrow> calls \<Rightarrow> pse list \<Rightarrow> string \<Rightarrow> string fmt" where
  "format_if env c es indent =
     bind_fmt (nth_expr es 0) (\<lambda>opening.
     bind_fmt (call_display c opening indent) (\<lambda>func_type.
     bind_fmt (lines_doc env c (drop 1 es) (indented env indent) True) (\<lambda>body.
     let body' = (case body of [] \<Rightarrow> [] | first_break # parts \<Rightarrow> Text '' '' # parts)
     in fmt_return (render_doc env (block (Text (''('' @ func_type)) body' '')'') indent))))"

text \<open>Bindings and allowances: doubly indented lines, closed at a single indentation.\<close>

definition nested_list_doc :: "settings \<Rightarrow> calls \<Rightarrow> pse list \<Rightarrow> string \<Rightarrow> doc fmt" where
  "nested_list_doc env c es nested =
     bind_fmt (lines_doc env c es (indented env nested) False)
       (\<lambda>parts. fmt_return (Indent (Concat [Indent (Concat parts), Hardline, Text '')''])))"

definition format_let :: "settings \<Rightarrow> calls \<Rightarrow> pse list \<Rightarrow> string \<Rightarrow> string fmt" where
  "format_let env c es indent =
     (let nested = indented env indent
      in bind_fmt (nth_expr es 1) (\<lambda>bindings.
         bind_fmt
           (case match_list bindings of
              None \<Rightarrow> fmt_return []
            | Some [arg] \<Rightarrow>
                bind_fmt (call_exprs c [arg] nested) (\<lambda>text. fmt_return [Verbatim text, Text '')''])
            | Some args \<Rightarrow> bind_fmt (nested_list_doc env c args nested) (\<lambda>d. fmt_return [d]))
           (\<lambda>binding_parts.
         bind_fmt (body_doc env c (drop 2 es) nested) (\<lambda>body.
         fmt_return (render_doc env
           (Concat ([Text ''(let (''] @ binding_parts @ [body, Hardline, Text '')''])) indent)))))"

definition format_restrict_assets :: "settings \<Rightarrow> calls \<Rightarrow> pse list \<Rightarrow> string \<Rightarrow> string fmt" where
  "format_restrict_assets env c es indent =
     (let nested = indented env indent
      in bind_fmt (nth_expr es 1) (\<lambda>owner_expr.
         bind_fmt (call_exprs c [owner_expr] indent) (\<lambda>owner.
         bind_fmt
           (case drop 2 es of
              [] \<Rightarrow> fmt_return []
            | allowances_list # _ \<Rightarrow>
                (case match_list allowances_list of
                   None \<Rightarrow> fmt_return []
                 | Some [_] \<Rightarrow>
                     bind_fmt (call_exprs c [allowances_list] indent)
                       (\<lambda>text. fmt_return [Text '' '', Verbatim text])
                 | Some allowances \<Rightarrow>
                     bind_fmt (nested_list_doc env c allowances nested)
                       (\<lambda>d. fmt_return [Text '' ('', d])))
           (\<lambda>allowance_parts.
         bind_fmt (body_doc env c (drop 3 es) nested) (\<lambda>body.
         fmt_return (render_doc env
           (Concat ([Text ''(restrict-assets? '', Verbatim owner] @ allowance_parts @
                    [body, Hardline, Text '')''])) indent))))))"

text \<open>
  The passes of the loop over the branches of a match: the branch, its trailing comment, what
  the iterator peeks at, and for a binding the expression that follows with its trailing comment.
\<close>

function match_passes :: "pse list \<Rightarrow>
    (pse \<times> pse option \<times> pse option \<times> (pse \<times> pse option) option) list" where
  "match_passes [] = []"
| "match_passes (branch # rest) =
     (case get_trailing_comment branch rest of
        (trailing, iter) \<Rightarrow>
          (case iter of
             expr_part # iter' \<Rightarrow>
               if is_list branch then (branch, trailing, peek iter, None) # match_passes iter
               else (case get_trailing_comment expr_part iter' of
                       (expr_trailing, iter'') \<Rightarrow>
                         (branch, trailing, peek iter, Some (expr_part, expr_trailing)) # match_passes iter'')
           | [] \<Rightarrow> [(branch, trailing, None, None)]))"
  by pat_completeness auto
termination
  by (relation "measure length") (auto dest!: get_trailing_comment_length[OF sym])

fun match_loop :: "settings \<Rightarrow> calls \<Rightarrow> string \<Rightarrow> string \<Rightarrow>
    (pse \<times> pse option \<times> pse option \<times> (pse \<times> pse option) option) list \<Rightarrow> doc list fmt" where
  "match_loop env c indent nested [] = fmt_return []"
| "match_loop env c indent nested ((branch, trailing, next, binding) # passes) =
     bind_fmt (check_and_cache_ignored env branch next) (\<lambda>_.
     bind_fmt (call_exprs c [branch] nested) (\<lambda>text.
     bind_fmt
       (case binding of
          None \<Rightarrow> fmt_return []
        | Some (expr_part, expr_trailing) \<Rightarrow>
            bind_fmt (call_exprs c [expr_part] nested) (\<lambda>expr_text.
            bind_fmt (push_trailing_comment c expr_trailing indent) (\<lambda>comment_parts.
            fmt_return ([Text '' '', Verbatim expr_text] @ comment_parts))))
       (\<lambda>binding_parts.
     bind_fmt (push_trailing_comment c trailing indent) (\<lambda>comment_parts.
     bind_fmt (match_loop env c indent nested passes) (\<lambda>parts.
     fmt_return ([Hardline, Verbatim text] @ binding_parts @ comment_parts @ parts))))))"

definition format_match :: "settings \<Rightarrow> calls \<Rightarrow> pse list \<Rightarrow> string \<Rightarrow> string fmt" where
  "format_match env c es indent =
     (let nested = indented env indent
      in bind_fmt (nth_expr es 1) (\<lambda>value_expr.
         bind_fmt (call_exprs c [value_expr] indent) (\<lambda>match_value.
         bind_fmt (exprs_from es 2) (\<lambda>rest.
         bind_fmt
           (if contains_comments es then lines_doc env c rest nested False
            else match_loop env c indent nested (match_passes rest))
           (\<lambda>branch_parts. fmt_return (render_doc env
              (block (Concat [Text ''(match '', Verbatim match_value]) branch_parts '')'') indent))))))"

section \<open>Functions\<close>

fun args_loop ::
  "settings \<Rightarrow> calls \<Rightarrow> string \<Rightarrow> u32 \<Rightarrow> (pse \<times> pse option \<times> pse list) list \<Rightarrow> doc list fmt" where
  "args_loop env c args_indent prev_end_line [] = fmt_return []"
| "args_loop env c args_indent prev_end_line ((arg, trailing, iter) # passes) =
     bind_fmt (check_and_cache_ignored env arg (peek iter)) (\<lambda>_.
     bind_fmt (call_exprs c [arg] args_indent) (\<lambda>text.
     bind_fmt (push_trailing_comment c trailing []) (\<lambda>comment_parts.
     bind_fmt (args_loop env c args_indent
                 (end_line (span_of (case trailing of Some x \<Rightarrow> x | None \<Rightarrow> arg))) passes) (\<lambda>parts.
     fmt_return
       ((if prev_end_line = 0 \<or> is_list arg \<or> prev_end_line < start_line (span_of arg) then [Hardline] else []) @
        [Verbatim text] @ comment_parts @ parts)))))"

definition signature_parts :: "settings \<Rightarrow> calls \<Rightarrow> pse \<Rightarrow> pse list \<Rightarrow> doc list fmt" where
  "signature_parts env c name args =
     bind_fmt (call_display c name []) (\<lambda>name_text.
     case args of
       [arg] \<Rightarrow>
         bind_fmt (call_exprs c [arg] [])
           (\<lambda>text. fmt_return [Verbatim name_text, Text '' '', Verbatim text, Text '')''])
     | _ \<Rightarrow>
         bind_fmt (args_loop env c (indented env (indented env [])) 0 (with_trailing args))
           (\<lambda>arg_parts. fmt_return
              [Verbatim name_text, Indent (Indent (Concat arg_parts)),
               if args = [] then Text '')'' else Indent (Concat [Hardline, Text '')''])]))"

fun function_body_loop :: "settings \<Rightarrow> calls \<Rightarrow> string \<Rightarrow> pse list \<Rightarrow> doc list fmt" where
  "function_body_loop env c one_indent [] = fmt_return []"
| "function_body_loop env c one_indent (e # rest) =
     bind_fmt (check_and_cache_ignored env e (peek rest)) (\<lambda>_.
     bind_fmt (call_exprs c [e] one_indent) (\<lambda>text.
     bind_fmt (function_body_loop env c one_indent rest) (\<lambda>parts.
     fmt_return ([Hardline, Verbatim text] @ parts))))"

definition format_function :: "settings \<Rightarrow> calls \<Rightarrow> pse list \<Rightarrow> string fmt" where
  "format_function env c es =
     bind_fmt (nth_expr es 0) (\<lambda>first.
     bind_fmt (call_display c first []) (\<lambda>func_type.
     bind_fmt
       (case es of
          _ # def # _ \<Rightarrow>
            (case match_list def of
               Some (name # args) \<Rightarrow> signature_parts env c name args
             | _ \<Rightarrow> fmt_return [])
        | _ \<Rightarrow> fmt_return [])
       (\<lambda>signature.
     bind_fmt (function_body_loop env c (indented env []) (drop 2 es)) (\<lambda>body_parts.
     fmt_return (render_doc env
       (Concat ([Text (''('' @ func_type @ '' ('')] @ signature @
                [Indent (Concat body_parts), Hardline, Text '')'', Hardline])) [])))))"

section \<open>Lists\<close>

fun display_items :: "settings \<Rightarrow> calls \<Rightarrow> string \<Rightarrow> (pse \<times> pse option \<times> pse list) list \<Rightarrow> string list fmt" where
  "display_items env c indent [] = fmt_return []"
| "display_items env c indent ((item, trailing, iter) # passes) =
     bind_fmt (check_and_cache_ignored env item (peek iter)) (\<lambda>_.
     bind_fmt (call_exprs c [item] indent) (\<lambda>text.
     bind_fmt (case trailing of None \<Rightarrow> fmt_return [] | Some comment \<Rightarrow> spaced_comment c item comment indent) (\<lambda>suffix.
     bind_fmt (display_items env c indent passes) (\<lambda>texts.
     fmt_return ((text @ suffix) # texts)))))"

fun joined_parts :: "string list \<Rightarrow> doc list" where
  "joined_parts [] = []"
| "joined_parts [text] = [Verbatim text]"
| "joined_parts (text # texts) = [Verbatim text, Text '' ''] @ joined_parts texts"

definition display_list :: "settings \<Rightarrow> calls \<Rightarrow> pse list \<Rightarrow> string \<Rightarrow> string fmt" where
  "display_list env c es indent =
     bind_fmt (display_items env c indent (with_trailing es)) (\<lambda>texts.
     let should_break = (contains_comments es \<or> \<not> fits_inline texts (length indent + 1) (max_line_length env));
         d = (if should_break
              then block (Text ''('') (concat (map (\<lambda>text. [Hardline, Verbatim text]) texts)) '')''
              else Concat ([Text ''(''] @ joined_parts texts @ [Text '')'']))
     in fmt_return (render_doc env d indent))"

definition is_integer_expr :: "pse \<Rightarrow> bool" where
  "is_integer_expr e = (case pre_expr e of AtomValue (IntValue _) \<Rightarrow> True | _ \<Rightarrow> False)"

definition is_list_type_signature :: "pse list \<Rightarrow> bool" where
  "is_list_type_signature es =
     (3 \<le> length es \<and> match_atom (es ! 0) = Some ''list'' \<and> is_integer_expr (es ! 1) \<and> \<not> is_integer_expr (es ! 2))"

fun estimate_list_length :: "calls \<Rightarrow> pse list \<Rightarrow> nat \<Rightarrow> nat fmt" where
  "estimate_list_length c [] estimated_len = fmt_return (estimated_len + 1)"
| "estimate_list_length c (item # rest) estimated_len =
     bind_fmt (call_display c item []) (\<lambda>display. estimate_list_length c rest (estimated_len + (length display + 1)))"

record list_item =
  li_text :: string
  li_trailing_comment :: "string option"
  li_is_comment :: bool

definition optional_spaced_comment :: "calls \<Rightarrow> pse \<Rightarrow> pse option \<Rightarrow> string \<Rightarrow> string option fmt" where
  "optional_spaced_comment c item trailing indent =
     (case trailing of
        None \<Rightarrow> fmt_return None
      | Some comment \<Rightarrow> bind_fmt (spaced_comment c item comment indent) (\<lambda>text. fmt_return (Some text)))"

text \<open>\<open>size_first\<close> holds until the size of a type signature or an item has been read.\<close>

fun list_items :: "settings \<Rightarrow> calls \<Rightarrow> string \<Rightarrow> string \<Rightarrow> bool \<Rightarrow>
    (pse \<times> pse option \<times> pse list) list \<Rightarrow> (string option \<times> list_item list) fmt" where
  "list_items env c indent spacing size_first [] = fmt_return (None, [])"
| "list_items env c indent spacing size_first ((item, trailing, iter) # passes) =
     bind_fmt (check_and_cache_ignored env item (peek iter)) (\<lambda>_.
     if size_first
     then bind_fmt (call_display c item indent) (\<lambda>size_value.
          bind_fmt (optional_spaced_comment c item trailing indent) (\<lambda>comment.
          bind_fmt (list_items env c indent spacing False passes) (\<lambda>(_, its).
          let size_text = filter (\<lambda>ch. ch \<noteq> CHR 0x0D)
                (map (\<lambda>ch. if ch = newline then CHR '' '' else ch) (trim size_value))
          in fmt_return (Some (size_text @ (case comment of None \<Rightarrow> [] | Some text \<Rightarrow> text)), its))))
     else bind_fmt (call_exprs c [item] spacing) (\<lambda>text.
          bind_fmt (optional_spaced_comment c item trailing indent) (\<lambda>comment.
          bind_fmt (list_items env c indent spacing False passes) (\<lambda>(size_text, its).
          fmt_return (size_text,
            \<lparr>li_text = text, li_trailing_comment = comment, li_is_comment = is_comment item\<rparr> # its)))))"

text \<open>Greedy wrapping with one item of lookahead; \<open>first\<close> holds for the first item.\<close>

fun wrap_items :: "settings \<Rightarrow> nat \<Rightarrow> bool \<Rightarrow> nat \<Rightarrow> bool \<Rightarrow> list_item list \<Rightarrow> doc list" where
  "wrap_items env nested_len first col after_comment [] = []"
| "wrap_items env nested_len first col after_comment (item # rest) =
     (let next_len = (case rest of [] \<Rightarrow> 0 | n # _ \<Rightarrow> length (li_text n) + 1);
          would_exceed = (max_line_length env < col + 1 + length (li_text item) + next_len);
          wraps = (after_comment \<or> li_is_comment item \<or> newline \<in> set (li_text item) \<or> would_exceed);
          separator = (if first then [] else if wraps then [Hardline] else [Text '' '']);
          col1 = (if first then col else if wraps then nested_len else col + 1);
          col2 = last_line_len (li_text item) col1;
          comment_parts = (case li_trailing_comment item of None \<Rightarrow> [] | Some text \<Rightarrow> [Verbatim text]);
          col3 = col2 + (case li_trailing_comment item of None \<Rightarrow> 0 | Some text \<Rightarrow> length text)
      in separator @ [Verbatim (li_text item)] @ comment_parts @
         wrap_items env nested_len False col3 (li_is_comment item \<or> li_trailing_comment item \<noteq> None) rest)"

definition list_doc ::
  "settings \<Rightarrow> bool \<Rightarrow> bool \<Rightarrow> bool \<Rightarrow> nat \<Rightarrow> string option \<Rightarrow> list_item list \<Rightarrow> doc" where
  "list_doc env is_multiline is_list_cons is_list_type_sig nested_len type_sig_size its =
     (let head = Text (if is_list_cons then ''(list'' else ''('')
      in if \<not> is_multiline
         then Concat ([head] @ (if is_list_cons \<and> its \<noteq> [] then [Text '' ''] else []) @
                      joined_parts (map li_text its) @ [Text '')''])
         else if is_list_type_sig
         then block
                (Concat ([head] @ (case type_sig_size of None \<Rightarrow> [] | Some text \<Rightarrow> [Text '' '', Verbatim text])))
                (concat (map (\<lambda>item. [Hardline, Verbatim (li_text item)] @
                   (case li_trailing_comment item of None \<Rightarrow> [] | Some text \<Rightarrow> [Verbatim text])) its)) '')''
         else block (Concat [head]) (Hardline # wrap_items env nested_len True nested_len False its) '')'')"

definition format_list :: "settings \<Rightarrow> calls \<Rightarrow> pse list \<Rightarrow> string \<Rightarrow> string fmt" where
  "format_list env c es indent =
     (let nested = indented env indent; is_list_type_sig = is_list_type_signature es
      in bind_fmt (nth_expr es 0) (\<lambda>first.
         bind_fmt (call_display c first indent) (\<lambda>first_text.
         let is_list_cons = (first_text = ''list''); rest = drop (if is_list_cons then 1 else 0) es
         in bind_fmt
              (if contains_comments rest then fmt_return True
               else bind_fmt (estimate_list_length c rest (if is_list_cons then 6 else 1))
                      (\<lambda>estimated_len. fmt_return (max_line_length env < length indent + estimated_len)))
              (\<lambda>is_multiline.
                 bind_fmt (list_items env c indent (if is_multiline then nested else indent)
                             (is_multiline \<and> is_list_type_sig) (with_trailing rest))
                   (\<lambda>(type_sig_size, its). fmt_return (render_doc env
                      (list_doc env is_multiline is_list_cons is_list_type_sig (length nested) type_sig_size its)
                      indent))))))"

section \<open>Tuples\<close>

definition inline_entry :: "settings \<Rightarrow> calls \<Rightarrow> pse \<Rightarrow> pse list \<Rightarrow> string \<Rightarrow> string option fmt" where
  "inline_entry env c key val indent =
     (if is_comment key \<or> contains_comments val then fmt_return None
      else
        bind_fmt (call_exprs c val (indented env indent)) (\<lambda>fvalue.
        bind_fmt (call_display c key indent) (\<lambda>fkey.
        if newline \<in> set fvalue \<or> max_line_length env < length indent + length fkey + length fvalue + 8
        then fmt_return None
        else fmt_return (Some (render_doc env
               (Concat [Text ''{ '', Verbatim fkey, Text '': '', Verbatim fvalue, Text '' }'']) indent)))))"

fun entry_comments :: "settings \<Rightarrow> calls \<Rightarrow> pse \<Rightarrow> string \<Rightarrow> pse list \<Rightarrow> doc list fmt" where
  "entry_comments env c val nested [] = fmt_return []"
| "entry_comments env c val nested (comment # rest) =
     bind_fmt (check_and_cache_ignored env comment (case peek rest of Some next \<Rightarrow> Some next | None \<Rightarrow> Some val)) (\<lambda>_.
     bind_fmt (call_display c comment nested) (\<lambda>text.
     bind_fmt (entry_comments env c val nested rest) (\<lambda>parts.
     fmt_return ([Hardline, Verbatim text] @ parts))))"

definition entry_doc :: "settings \<Rightarrow> calls \<Rightarrow> string \<Rightarrow> pse list \<Rightarrow> pse \<Rightarrow> string \<Rightarrow> doc list fmt" where
  "entry_doc env c key gap val nested =
     bind_fmt (entry_comments env c val nested gap) (\<lambda>comment_parts.
     if comment_parts = []
     then bind_fmt (call_exprs c [val] nested)
            (\<lambda>fvalue. fmt_return [Hardline, Verbatim (key @ '': '' @ fvalue @ '','')])
     else bind_fmt (call_exprs c [val] (indented env nested))
            (\<lambda>fvalue. fmt_return [Hardline, Verbatim (key @ '':''),
               Indent (Concat (comment_parts @ [Hardline, Verbatim (fvalue @ '','')]))]))"

text \<open>
  The passes of the loop over a sugared tuple: a comment between entries, or a key with the
  comments after it, and when the iterator has one the value with its trailing comment and what
  the iterator peeks at after the key and after the value.
\<close>

datatype tuple_pass =
    BetweenEntries pse
  | KeyValue pse "pse option" "pse list" pse "pse option" "pse option"
  | KeyOnly pse "pse option"

function tuple_passes :: "pse list \<Rightarrow> tuple_pass list" where
  "tuple_passes [] = []"
| "tuple_passes (key # rest) =
     (if is_comment key then BetweenEntries key # tuple_passes rest
      else (case dropWhile is_comment rest of
              [] \<Rightarrow> [KeyOnly key (peek rest)]
            | val # rest1 \<Rightarrow>
                (case get_trailing_comment val rest1 of
                   (trailing, rest2) \<Rightarrow>
                     KeyValue key (peek rest) (takeWhile is_comment rest) val trailing (peek rest2)
                       # tuple_passes rest2)))"
  by pat_completeness auto
termination
  by (relation "measure length")
    (auto dest!: get_trailing_comment_length[OF sym] dropWhile_Cons_length)

fun tuple_loop :: "settings \<Rightarrow> calls \<Rightarrow> string \<Rightarrow> string \<Rightarrow> tuple_pass list \<Rightarrow> doc list fmt" where
  "tuple_loop env c indent nested [] = fmt_return []"
| "tuple_loop env c indent nested (BetweenEntries comment # passes) =
     bind_fmt (call_display c comment indent) (\<lambda>text.
     bind_fmt (tuple_loop env c indent nested passes) (\<lambda>parts.
     fmt_return ([Hardline, Verbatim text] @ parts)))"
| "tuple_loop env c indent nested (KeyValue key next gap val trailing next_value # passes) =
     bind_fmt (check_and_cache_ignored env key next) (\<lambda>_.
     bind_fmt (call_exprs c [key] nested) (\<lambda>key_str.
     bind_fmt (check_and_cache_ignored env val next_value) (\<lambda>_.
     bind_fmt (entry_doc env c key_str gap val nested) (\<lambda>entry.
     bind_fmt (push_trailing_comment c trailing nested) (\<lambda>comment_parts.
     bind_fmt (tuple_loop env c indent nested passes) (\<lambda>parts.
     fmt_return (entry @ comment_parts @ parts)))))))"
| "tuple_loop env c indent nested (KeyOnly key next # passes) =
     bind_fmt (check_and_cache_ignored env key next) (\<lambda>_.
     bind_fmt (call_exprs c [key] nested) (\<lambda>_.
     tuple_loop env c indent nested passes))"

definition format_key_value_sugar :: "settings \<Rightarrow> calls \<Rightarrow> pse list \<Rightarrow> string \<Rightarrow> string fmt" where
  "format_key_value_sugar env c es indent =
     bind_fmt (case es of [key, val] \<Rightarrow> inline_entry env c key [val] indent | _ \<Rightarrow> fmt_return None)
       (\<lambda>inline. case inline of
          Some text \<Rightarrow> fmt_return text
        | None \<Rightarrow>
            bind_fmt (tuple_loop env c indent (indented env indent) (tuple_passes es))
              (\<lambda>parts. fmt_return (render_doc env (block (Text ''{'') parts ''}'') indent)))"

text \<open>The passes over the entries of \<^verbatim>\<open>(tuple ...)\<close>; a comment takes no trailing comment.\<close>

function entry_passes :: "pse list \<Rightarrow> (pse \<times> pse option \<times> pse option) list" where
  "entry_passes [] = []"
| "entry_passes (arg # rest) =
     (if is_comment arg then (arg, None, None) # entry_passes rest
      else (case get_trailing_comment arg rest of
              (trailing, rest1) \<Rightarrow> (arg, trailing, peek rest1) # entry_passes rest1))"
  by pat_completeness auto
termination
  by (relation "measure length") (auto dest!: get_trailing_comment_length[OF sym])

fun after_comments :: "calls \<Rightarrow> string \<Rightarrow> pse \<Rightarrow> pse list \<Rightarrow> doc list fmt" where
  "after_comments c nested val [] = fmt_return []"
| "after_comments c nested val (comment # rest) =
     bind_fmt (call_display c comment nested) (\<lambda>text.
     bind_fmt (after_comments c nested val rest) (\<lambda>parts.
     fmt_return ([if start_line (span_of comment) = end_line (span_of val) then Text '' '' else Hardline,
                  Verbatim text] @ parts)))"

fun entries_loop :: "settings \<Rightarrow> calls \<Rightarrow> string \<Rightarrow> (pse \<times> pse option \<times> pse option) list \<Rightarrow> doc list option fmt" where
  "entries_loop env c nested [] = fmt_return (Some [])"
| "entries_loop env c nested ((arg, trailing, next) # passes) =
     (if is_comment arg
      then bind_fmt (call_display c arg nested) (\<lambda>text.
           bind_fmt (entries_loop env c nested passes) (\<lambda>parts.
           fmt_return (map_option (\<lambda>ps. [Hardline, Verbatim text] @ ps) parts)))
      else
        bind_fmt (check_and_cache_ignored env arg next) (\<lambda>_.
        case split_tuple_entry arg of
          None \<Rightarrow> fmt_return None
        | Some entry \<Rightarrow>
            bind_fmt (call_display c (te_key entry) nested) (\<lambda>fkey.
            bind_fmt (entry_doc env c fkey (te_before entry) (te_value entry) nested) (\<lambda>entry_parts.
            bind_fmt (after_comments c nested (te_value entry)
                        (te_after entry @ (case trailing of None \<Rightarrow> [] | Some x \<Rightarrow> [x]))) (\<lambda>comment_parts.
            bind_fmt (entries_loop env c nested passes) (\<lambda>parts.
            fmt_return (map_option (\<lambda>ps. entry_parts @ comment_parts @ ps) parts)))))))"

definition format_key_value :: "settings \<Rightarrow> calls \<Rightarrow> pse list \<Rightarrow> string \<Rightarrow> string option fmt" where
  "format_key_value env c es indent =
     (if \<not> list_all (\<lambda>entry. is_comment entry \<or> split_tuple_entry entry \<noteq> None) es then fmt_return None
      else
        bind_fmt
          (case es of
             [entry] \<Rightarrow>
               (case match_list entry of
                  Some (key # val) \<Rightarrow> inline_entry env c key val indent
                | _ \<Rightarrow> fmt_return None)
           | _ \<Rightarrow> fmt_return None)
          (\<lambda>inline. case inline of
             Some text \<Rightarrow> fmt_return (Some text)
           | None \<Rightarrow>
               bind_fmt (entries_loop env c (indented env indent) (entry_passes es))
                 (\<lambda>parts. fmt_return (map_option
                    (\<lambda>ps. render_doc env (block (Text ''{'') ps ''}'') indent) parts))))"

section \<open>Leaves and calls\<close>

fun preserve_items :: "calls \<Rightarrow> string \<Rightarrow> bool \<Rightarrow> bool \<Rightarrow> pse option \<Rightarrow> pse list \<Rightarrow> string fmt" where
  "preserve_items c indent tuple is_key previous [] = fmt_return []"
| "preserve_items c indent tuple is_key previous (item # rest) =
     bind_fmt (call_preserve c item indent) (\<lambda>text.
     bind_fmt (preserve_items c indent tuple (if is_comment item \<or> \<not> tuple then is_key else \<not> is_key) (Some item) rest)
       (\<lambda>texts. fmt_return
          ((case previous of None \<Rightarrow> [] | Some prev \<Rightarrow> if is_comment prev then [] else '' '') @ text @
           (if is_comment item then [newline] else if tuple then (if is_key then '':'' else '','') else []) @
           texts)))"

definition preserve_syntax :: "calls \<Rightarrow> pse \<Rightarrow> string \<Rightarrow> string fmt" where
  "preserve_syntax c e indent =
     (case pre_expr e of
        ListExpr its \<Rightarrow>
          bind_fmt (preserve_items c indent False True None its) (\<lambda>text. fmt_return (''('' @ text @ '')''))
      | TupleExpr its \<Rightarrow>
          bind_fmt (preserve_items c indent True True None its) (\<lambda>text. fmt_return (''{'' @ text @ ''}''))
      | _ \<Rightarrow> call_display c e indent)"

definition display_value :: "settings \<Rightarrow> pse \<Rightarrow> literal_value \<Rightarrow> string fmt" where
  "display_value env e val =
     (case val of
        PrincipalValue p \<Rightarrow> fmt_return ([CHR 0x27] @ p)
      | AsciiValue data \<Rightarrow> fmt_return (ascii_literal data)
      | Utf8Value text \<Rightarrow>
          (case source_lines env of
             None \<Rightarrow> fmt_return text
           | Some lines \<Rightarrow>
               bind_fmt (fmt_outcome (extract_expr_source lines e))
                 (\<lambda>extracted. fmt_return (if extracted = [] then text else extracted)))
      | IntValue text \<Rightarrow> fmt_return text
      | OtherValue text \<Rightarrow> fmt_return text)"

definition display_pse :: "settings \<Rightarrow> calls \<Rightarrow> pse \<Rightarrow> string \<Rightarrow> string fmt" where
  "display_pse env c e indent =
     (case pre_expr e of
        Atom name \<Rightarrow> fmt_outcome (t name)
      | AtomValue val \<Rightarrow> display_value env e val
      | ListExpr its \<Rightarrow> display_list env c its indent
      | TupleExpr its \<Rightarrow> format_key_value_sugar env c its indent
      | SugaredContractIdentifier name \<Rightarrow> fmt_return (''.'' @ name)
      | SugaredFieldIdentifier contract field \<Rightarrow> fmt_return (''.'' @ contract @ ''.'' @ field)
      | FieldIdentifier trait_id \<Rightarrow> fmt_return ([CHR 0x27] @ trait_id)
      | TraitReference name \<Rightarrow> fmt_return (''<'' @ name @ ''>'')
      | Comment text \<Rightarrow> fmt_return (if text = [] then '';;'' else comment_piece text e)
      | Placeholder text \<Rightarrow> fmt_return text)"

definition is_special_format :: "settings \<Rightarrow> string \<Rightarrow> bool" where
  "is_special_format env name =
     (case lookup_native env name of
        None \<Rightarrow> False
      | Some native \<Rightarrow> native \<in> {Let_native, Begin, Match, TupleCons, If_native})"

definition on_different_line :: "pse \<Rightarrow> pse \<Rightarrow> bool" where
  "on_different_line prev e =
     (is_comment e \<and> \<not> is_same_line prev e \<or> is_comment prev \<and> \<not> is_same_line prev e)"

fun inner_loop :: "settings \<Rightarrow> calls \<Rightarrow> string \<Rightarrow> pse option \<Rightarrow> nat \<Rightarrow> bool \<Rightarrow> bool \<Rightarrow> pse list \<Rightarrow> string fmt" where
  "inner_loop env c indent previous width prev_multiline prev_is_map [] = fmt_return []"
| "inner_loop env c indent previous width prev_multiline prev_is_map (e # rest) =
     (let base_indent = indented env indent
      in bind_fmt (check_and_cache_ignored env e (peek rest)) (\<lambda>_.
         bind_fmt (call_exprs c [e] (if previous = None then base_indent else indent)) (\<lambda>formatted.
         bind_fmt (fmt_outcome (t formatted)) (\<lambda>trimmed.
         bind_fmt
           (case previous of
              None \<Rightarrow> fmt_return ([], formatted, width)
            | Some prev \<Rightarrow>
                let is_map_opening = starts_with (CHR ''{'') trimmed
                in if on_different_line prev e
                      \<or> (prev_multiline \<and> \<not> (is_map_opening \<and> prev_is_map))
                      \<or> (\<not> is_map_opening \<and> max_line_length env < width + length trimmed + 1)
                   then bind_fmt (call_exprs c [e] base_indent)
                          (\<lambda>again. fmt_return ([newline] @ base_indent, again, length base_indent))
                   else fmt_return ('' '', formatted, width + 1))
           (\<lambda>(separator, formatted', width').
         bind_fmt (fmt_outcome (t formatted')) (\<lambda>text.
         bind_fmt (inner_loop env c indent (Some e) (last_line_len text width') (newline \<in> set text)
                     (starts_with (CHR ''{'') text) rest)
           (\<lambda>result. fmt_return (separator @ text @ result))))))))"

definition format_inner_content :: "settings \<Rightarrow> calls \<Rightarrow> pse list \<Rightarrow> string \<Rightarrow> string fmt" where
  "format_inner_content env c es indent =
     (if length es = 2 \<and> match_atom (es ! 0) \<noteq> None \<and> \<not> is_comment (es ! 1)
         \<and> \<not> is_special_format env (the (match_atom (es ! 0)))
      then bind_fmt (call_exprs c [es ! 0] indent) (\<lambda>fn_name.
           bind_fmt (call_exprs c [es ! 1] indent) (\<lambda>arg.
           fmt_return (''('' @ trim fn_name @ '' '' @ trim arg @ '')'')))
      else
        bind_fmt (inner_loop env c indent None (length indent) False False es) (\<lambda>result.
        let break_lines =
              (if es \<noteq> [] \<and> is_comment (last es) then True
               else if newline \<notin> set result then False
               else trim (last_line result) \<notin> {'')'', ''}''})
        in fmt_return (''('' @ result @ (if break_lines then [newline] @ indent else []) @ '')'')))"

definition format_list_call :: "settings \<Rightarrow> calls \<Rightarrow> pse \<Rightarrow> string \<Rightarrow> pse list \<Rightarrow> string \<Rightarrow> string fmt" where
  "format_list_call env c e atom_name es indent =
     (case lookup_native env atom_name of
        Some native \<Rightarrow>
          (case native of
             Let_native \<Rightarrow> format_let env c es indent
           | Begin \<Rightarrow> format_begin env c es indent
           | Match \<Rightarrow> format_match env c es indent
           | TupleCons \<Rightarrow>
               bind_fmt (exprs_from es 1) (\<lambda>args.
               bind_fmt (format_key_value env c args indent)
                 (\<lambda>formatted. case formatted of
                    Some text \<Rightarrow> fmt_return text
                  | None \<Rightarrow> preserve_expr env c e indent))
           | If_native \<Rightarrow> format_if env c es indent
           | And \<Rightarrow> format_booleans env c es indent
           | Or \<Rightarrow> format_booleans env c es indent
           | ListCons \<Rightarrow> format_list env c es indent
           | RestrictAssets \<Rightarrow> format_restrict_assets env c es indent
           | OtherNative \<Rightarrow> format_inner_content env c es indent)
      | None \<Rightarrow>
          (case lookup_define env atom_name of
             Some define \<Rightarrow>
               (case define of
                  DefineFunction \<Rightarrow> format_function env c es
                | DefineConstant \<Rightarrow> format_constant env c es indent
                | DefineMap \<Rightarrow> format_map env c es indent
                | DefineTrait \<Rightarrow> define_trait env c e es indent)
           | None \<Rightarrow> format_inner_content env c es indent))"

section \<open>Source expressions\<close>

definition format_expr :: "settings \<Rightarrow> calls \<Rightarrow> pse \<Rightarrow> string \<Rightarrow> (string \<times> bool) fmt" where
  "format_expr env c e indent =
     (case match_list e of
        Some (first # rest) \<Rightarrow>
          (case match_atom first of
             Some atom_name \<Rightarrow>
               bind_fmt (format_list_call env c e atom_name (first # rest) indent)
                 (\<lambda>text. fmt_return (text, is_define_fn env atom_name))
           | None \<Rightarrow> bind_fmt (call_display c e indent) (\<lambda>text. fmt_return (text, False)))
      | _ \<Rightarrow> bind_fmt (call_display c e indent) (\<lambda>text. fmt_return (text, False)))"

text \<open>At most one of the blank lines between two expressions is kept.\<close>

definition blank_line_before :: "u32 \<Rightarrow> pse \<Rightarrow> string" where
  "blank_line_before prev_end_line e =
     (let start = start_line (span_of e)
      in if 0 < prev_end_line \<and> 0 < start \<and> prev_end_line < start \<and> 0 < min (start - prev_end_line - 1) 1
         then [newline] else [])"

definition format_step ::
  "settings \<Rightarrow> calls \<Rightarrow> string \<Rightarrow> pse \<Rightarrow> pse option \<Rightarrow> pse list \<Rightarrow> u32 \<Rightarrow> string \<Rightarrow> string fmt" where
  "format_step env c indent e trailing iter prev_end_line result =
     (let result1 = result @ blank_line_before prev_end_line e
      in bind_fmt (format_expr env c e indent) (\<lambda>(formatted, is_define).
         let result2 = result1 @
               (if (trailing \<noteq> None \<or> is_list e) \<and> indent = [] \<and> ends_with (CHR '')'') result1 then [newline] else [])
         in case trailing of
              Some comment \<Rightarrow>
                bind_fmt (call_display c comment indent) (\<lambda>comment_text.
                fmt_return (result2 @
                  (case strip_suffix newline formatted of Some text \<Rightarrow> text | None \<Rightarrow> formatted) @
                  '' '' @ comment_text @ [newline]))
            | None \<Rightarrow>
                if is_define
                then fmt_return (result2 @ formatted @ (if ends_with newline formatted then [] else [newline]))
                else if is_list e
                then fmt_return (result2 @ formatted @
                       (case peek iter of None \<Rightarrow> []
                        | Some next \<Rightarrow> if is_same_line e next then '' '' else [newline]))
                else fmt_return (result2 @ formatted @
                       (case peek iter of None \<Rightarrow> []
                        | Some next \<Rightarrow> if \<not> is_same_line e next \<or> is_comment e then [newline] else '' ''))))"

declare bind_outcome_cong [fundef_cong]

lemma emit_format_ignored_length:
  "emit_format_ignored env c e iter indent agg = Done ((text, line, rest), agg') \<Longrightarrow> length rest \<le> length iter"
  by (auto simp: emit_format_ignored_def bind_fmt_def fmt_return_def Let_def bind_outcome_Done_iff
      split: option.splits list.splits prod.splits dest!: get_trailing_comment_length)

function exprs_loop ::
  "settings \<Rightarrow> calls \<Rightarrow> string \<Rightarrow> pse list \<Rightarrow> u32 \<Rightarrow> string \<Rightarrow> string fmt" where
  "exprs_loop env c indent [] prev_end_line result agg = Done (result, agg)"
| "exprs_loop env c indent (e # rest) prev_end_line result agg =
     (case get_trailing_comment e rest of
        (trailing, iter) \<Rightarrow>
          if is_format_ignore e
          then bind_outcome (emit_format_ignored env c e iter indent agg)
                 (\<lambda>((text, prev_end_line', iter'), agg'). exprs_loop env c indent iter' prev_end_line' (result @ text) agg')
          else bind_outcome (format_step env c indent e trailing iter prev_end_line result agg)
                 (\<lambda>(result', agg'). exprs_loop env c indent iter (end_line (span_of e)) result' agg'))"
  by pat_completeness auto
termination
  by (relation "measure (\<lambda>(env, c, indent, es, _). length es)")
    (auto dest!: get_trailing_comment_length[OF sym] emit_format_ignored_length)

definition cache_key :: "pse list \<Rightarrow> string \<Rightarrow> nat \<times> nat \<times> string" where
  "cache_key es indent = ((case es of [] \<Rightarrow> 0 | e # _ \<Rightarrow> address e), length es, indent)"

definition ignored_source :: "pse list \<Rightarrow> aggregator \<Rightarrow> string option" where
  "ignored_source es agg = (case es of [e] \<Rightarrow> hm_get (ignored_exprs agg) (span_of e) | _ \<Rightarrow> None)"

definition format_source_exprs :: "settings \<Rightarrow> calls \<Rightarrow> pse list \<Rightarrow> string \<Rightarrow> string fmt" where
  "format_source_exprs env c es indent agg =
     (case ignored_source es agg of
        Some text \<Rightarrow> Done (text, agg)
      | None \<Rightarrow>
          (case hm_get (fmt_cache agg) (cache_key es indent) of
             Some text \<Rightarrow> Done (text, agg)
           | None \<Rightarrow>
               bind_outcome (exprs_loop env c indent es 0 [] agg)
                 (\<lambda>(result, agg'). Done (result,
                    agg'\<lparr>fmt_cache := hm_insert (cache_key es indent) result (fmt_cache agg')\<rparr>))))"

primrec aggregator_calls :: "nat \<Rightarrow> settings \<Rightarrow> calls" where
  "aggregator_calls 0 env =
     \<lparr>call_exprs = \<lambda>_ _ _. Diverge, call_display = \<lambda>_ _ _. Diverge, call_preserve = \<lambda>_ _ _. Diverge\<rparr>"
| "aggregator_calls (Suc n) env =
     (let c = aggregator_calls n env
      in \<lparr>call_exprs = format_source_exprs env c, call_display = display_pse env c,
          call_preserve = preserve_syntax c\<rparr>)"

text \<open>Nesting of expressions. A level of nesting takes at most three nested calls.\<close>

fun depth :: "pse \<Rightarrow> nat" where
  "depth (PSE (ListExpr its) sp a) = Suc (fold max (map depth its) 0)"
| "depth (PSE (TupleExpr its) sp a) = Suc (fold max (map depth its) 0)"
| "depth (PSE _ sp a) = 0"

definition depth_of :: "pse list \<Rightarrow> nat" where
  "depth_of es = fold max (map depth es) 0"

definition all_calls :: "settings \<Rightarrow> pse list \<Rightarrow> calls" where
  "all_calls env es = aggregator_calls (3 * depth_of es + 4) env"

section \<open>Entry points\<close>

text \<open>The leading white space of the source, counted in characters and sliced in bytes.\<close>

definition leading_indent :: "string \<Rightarrow> string outcome" where
  "leading_indent src = str_slice src 0 (length (takeWhile is_whitespace (utf8_chars src)))"

definition generate :: "settings \<Rightarrow> pse list \<Rightarrow> string outcome" where
  "generate env exprs =
     bind_outcome
       (case source env of
          Some src \<Rightarrow> leading_indent src
        | None \<Rightarrow> Done (case exprs of [] \<Rightarrow> []
            | e # _ \<Rightarrow> push_spaces (saturating_sub (start_column (span_of e)) 1)))
       (\<lambda>indent. bind_outcome
          (format_source_exprs env (all_calls env exprs) exprs indent \<lparr>fmt_cache = [], ignored_exprs = []\<rparr>)
          (\<lambda>(formatted, _).
             Done (if source env = None \<and> indent \<noteq> [] \<and> length exprs = 1 \<and> starts_with (CHR ''('') formatted
                   then indent @ formatted else formatted)))"

datatype indentation = Space nat | Tab

fun show_indentation :: "indentation \<Rightarrow> string" where
  "show_indentation (Space n) = replicate n (CHR '' '')"
| "show_indentation Tab = [CHR 0x09]"

record formatter =
  fmt_indentation :: indentation
  fmt_max_line_length :: nat
  fmt_native :: "string \<Rightarrow> native_function option"
  fmt_define :: "string \<Rightarrow> define_function option"
  fmt_parse :: "string \<Rightarrow> string + pse list"

text \<open>\<^verbatim>\<open>Aggregator::new\<close>.\<close>

definition aggregator_new :: "formatter \<Rightarrow> string option \<Rightarrow> settings" where
  "aggregator_new f src =
     \<lparr>indentation_str = show_indentation (fmt_indentation f), max_line_length = fmt_max_line_length f,
      source = src, source_lines = map_option split_lines src,
      lookup_native = fmt_native f, lookup_define = fmt_define f\<rparr>"

abbreviation line_end :: "char \<Rightarrow> bool" where
  "line_end c \<equiv> c = newline \<or> c = CHR 0x0D"

definition format_file :: "formatter \<Rightarrow> string \<Rightarrow> string outcome" where
  "format_file f src =
     (let trimmed_source = dropWhile line_end src
      in case fmt_parse f trimmed_source of
           Inl _ \<Rightarrow> Panic
         | Inr exprs \<Rightarrow>
             bind_outcome (generate (aggregator_new f (Some trimmed_source)) exprs)
               (\<lambda>result. Done (rev (dropWhile line_end (rev result)) @ [newline])))"

definition format_ast :: "formatter \<Rightarrow> pse list \<Rightarrow> string outcome" where
  "format_ast f exprs = generate (aggregator_new f None) exprs"

definition format_section :: "formatter \<Rightarrow> string \<Rightarrow> (string + string) outcome" where
  "format_section f src =
     (case fmt_parse f src of
        Inl err \<Rightarrow> Done (Inl err)
      | Inr exprs \<Rightarrow>
          bind_outcome (leading_indent src)
            (\<lambda>leading_spaces. bind_outcome (generate (aggregator_new f (Some src)) exprs)
               (\<lambda>result. Done (Inr (leading_spaces @ result)))))"

end
