(* ===== verification/Format_Lex.thy ===== *)
theory Format_Lex
  imports Format_Aggregator
begin

text \<open>
  The tokens of Clarity text, as far as layout can change them: brackets, colons, words, string
  literals, and comments that run to the end of their line. White space and commas separate
  tokens; white space inside a comment does not count. The lemmas say how the tokens of two
  texts combine when the texts are written one after the other, and that the printer does not
  change the tokens of a document made of text and forced line breaks.
\<close>

named_theorems lex_intros \<open>how the tokens of a text arise from its parts\<close>

section \<open>Tokens\<close>

datatype lex_mode = Idle | Word string | Comm string | Quoted string | Escaped string

definition bracket :: "char \<Rightarrow> bool" where
  "bracket c = (c \<in> set ''(){}:'')"

definition separator :: "char \<Rightarrow> bool" where
  "separator c = (blank c \<or> c = CHR '','')"

fun pending :: "lex_mode \<Rightarrow> string list" where
  "pending Idle = []"
| "pending (Word w) = [w]"
| "pending (Comm w) = [w]"
| "pending (Quoted w) = [w]"
| "pending (Escaped w) = [w]"

text \<open>What a character completes, and the mode after it.\<close>

definition lex_char :: "char \<Rightarrow> lex_mode \<Rightarrow> string list \<times> lex_mode" where
  "lex_char c m =
     (if c = newline then (pending m, Idle)
      else case m of
        Comm w \<Rightarrow> ([], Comm (if blank c then w else w @ [c]))
      | Escaped w \<Rightarrow> ([], Quoted (w @ [c]))
      | Quoted w \<Rightarrow>
          if c = CHR 0x22 then ([w @ [c]], Idle)
          else ([], if c = CHR 0x5C then Escaped (w @ [c]) else Quoted (w @ [c]))
      | _ \<Rightarrow>
          if separator c then (pending m, Idle)
          else if bracket c then (pending m @ [[c]], Idle)
          else if c = CHR '';'' then (pending m, Comm [c])
          else ([], if c = CHR 0x22 then Quoted (concat (pending m) @ [c])
                    else Word (concat (pending m) @ [c])))"

fun lex_run :: "string \<Rightarrow> lex_mode \<Rightarrow> string list \<times> lex_mode" where
  "lex_run [] m = ([], m)"
| "lex_run (c # s) m =
     (case lex_char c m of (ts, m') \<Rightarrow> (case lex_run s m' of (ts', m'') \<Rightarrow> (ts @ ts', m'')))"

definition tokens :: "string \<Rightarrow> string list" where
  "tokens s = (case lex_run s Idle of (ts, m) \<Rightarrow> ts @ pending m)"

lemma lex_run_append:
  "lex_run (a @ b) m = (case lex_run a m of (ts, m') \<Rightarrow> (case lex_run b m' of (ts', m'') \<Rightarrow> (ts @ ts', m'')))"
  by (induction a arbitrary: m) (auto split: prod.splits)

definition ascii :: "string \<Rightarrow> bool" where
  "ascii s = list_all (\<lambda>c. of_char c < (128::nat)) s"

lemma ascii_simps [simp]:
  "ascii []" "ascii (c # s) \<longleftrightarrow> of_char c < (128::nat) \<and> ascii s"
  "ascii (s @ s') \<longleftrightarrow> ascii s \<and> ascii s'"
  by (auto simp: ascii_def)

text \<open>
  \<open>lexes s ts open\<close>: the text \<open>s\<close> has the tokens \<open>ts\<close>, ends in no string literal, and in a
  comment only when \<open>open\<close>.
\<close>

definition closed :: "lex_mode \<Rightarrow> bool \<Rightarrow> bool" where
  "closed m op = (case m of Comm _ \<Rightarrow> op | Quoted _ \<Rightarrow> False | Escaped _ \<Rightarrow> False | _ \<Rightarrow> True)"

definition lexes :: "string \<Rightarrow> string list \<Rightarrow> bool \<Rightarrow> bool" where
  "lexes s ts op = (ascii s \<and> (\<exists>us m. lex_run s Idle = (us, m) \<and> ts = us @ pending m \<and> closed m op))"

lemma lexes_tokens: "lexes s ts op \<Longrightarrow> tokens s = ts"
  by (auto simp: lexes_def tokens_def)

lemma closed_mono: "closed m op \<Longrightarrow> (op \<Longrightarrow> op') \<Longrightarrow> closed m op'"
  by (cases m) (auto simp: closed_def)

lemma lexes_open: "lexes s ts op \<Longrightarrow> (op \<Longrightarrow> op') \<Longrightarrow> lexes s ts op'"
  unfolding lexes_def using closed_mono by blast

lemma lexes_ascii: "lexes s ts op \<Longrightarrow> ascii s"
  by (simp add: lexes_def)

lemma lexes_Nil [simp]: "lexes [] ts op \<longleftrightarrow> ts = []"
  by (auto simp: lexes_def closed_def)

section \<open>Writing one text after another\<close>

lemma newline_ascii [simp]: "of_char newline < (128::nat)"
  by (simp add: newline_def)

lemma lex_newline [simp]: "lex_char newline m = (pending m, Idle)"
  by (simp add: lex_char_def)

lemma lex_separator:
  "separator c \<Longrightarrow> closed m False \<Longrightarrow> lex_char c m = (pending m, Idle)"
  by (cases m) (auto simp: lex_char_def closed_def)

lemma bracket_simps:
  "bracket c \<Longrightarrow> \<not> separator c" "bracket c \<Longrightarrow> c \<noteq> newline" "bracket c \<Longrightarrow> c \<noteq> CHR '';''"
  by (auto simp: bracket_def separator_def blank_def newline_def)

lemma lex_bracket:
  "bracket c \<Longrightarrow> closed m False \<Longrightarrow> lex_char c m = (pending m @ [[c]], Idle)"
  by (cases m) (auto simp: lex_char_def closed_def bracket_simps)

lemma lexes_newline [lex_intros]:
  "lexes a ts True \<Longrightarrow> lexes b ts' op \<Longrightarrow> lexes (a @ newline # b) (ts @ ts') op"
  by (auto simp: lexes_def lex_run_append split: prod.splits)

lemma lexes_separator [lex_intros]:
  "lexes a ts False \<Longrightarrow> lexes b ts' op \<Longrightarrow> separator c \<Longrightarrow> of_char c < (128::nat) \<Longrightarrow>
     lexes (a @ c # b) (ts @ ts') op"
  by (auto simp: lexes_def lex_run_append lex_separator split: prod.splits)

lemma lexes_bracket [lex_intros]:
  "lexes a ts False \<Longrightarrow> lexes b ts' op \<Longrightarrow> bracket c \<Longrightarrow> lexes (a @ c # b) (ts @ [c] # ts') op"
  by (auto simp: lexes_def lex_run_append lex_bracket bracket_def split: prod.splits)

lemma lexes_comment_after [lex_intros]:
  assumes "lexes a ts False" "lexes b ts' op" "starts_with (CHR '';'') b"
  shows "lexes (a @ b) (ts @ ts') op"
proof -
  obtain b' where b: "b = CHR '';'' # b'" using assms(3) by (cases b) (auto simp: starts_with_def)
  have "\<And>m. closed m False \<Longrightarrow> lex_char (CHR '';'') m = (pending m, Comm '';'')"
    by (auto simp: lex_char_def closed_def newline_def separator_def blank_def bracket_def split: lex_mode.splits)
  with assms(1,2) show ?thesis
    by (auto simp: b lexes_def lex_run_append closed_def split: prod.splits)
qed

lemma lexes_leading_blanks: "list_all blank w \<Longrightarrow> ascii w \<Longrightarrow> lexes (w @ s) ts op \<longleftrightarrow> lexes s ts op"
proof (induction w)
  case (Cons c w)
  have "lex_char c Idle = ([], Idle)"
    using Cons.prems by (auto simp: lex_char_def separator_def)
  with Cons show ?case by (auto simp: lexes_def split: prod.splits)
qed simp

text \<open>White space at the end does not change the tokens.\<close>

lemma lex_run_blanks:
  "list_all blank w \<Longrightarrow> closed m True \<Longrightarrow> lex_run w m = (us, m') \<Longrightarrow>
     us @ pending m' = pending m \<and> closed m' True \<and> (closed m op \<longrightarrow> closed m' op)"
proof (induction w arbitrary: m us)
  case (Cons c w)
  obtain vs n where c: "lex_char c m = (vs, n)" by force
  obtain us' where run: "lex_run w n = (us', m')" and us: "us = vs @ us'"
    using Cons.prems(3) c by (auto split: prod.splits)
  have n: "vs @ pending n = pending m \<and> closed n True \<and> (closed m op \<longrightarrow> closed n op)"
    using Cons.prems(1,2) c
    by (cases m) (auto simp: lex_char_def closed_def separator_def split: if_splits)
  then have "us' @ pending m' = pending n \<and> closed m' True \<and> (closed n op \<longrightarrow> closed m' op)"
    using Cons.IH[OF _ _ run] Cons.prems(1) by simp
  with n us show ?case by simp
qed simp

lemma lexes_trailing_blanks:
  assumes "lexes s ts op" "list_all blank w" "ascii w"
  shows "lexes (s @ w) ts op"
proof -
  obtain us m where s: "lex_run s Idle = (us, m)" "ts = us @ pending m" "closed m op" "ascii s"
    using assms(1) by (auto simp: lexes_def)
  obtain vs m' where w: "lex_run w m = (vs, m')" by force
  have "vs @ pending m' = pending m \<and> closed m' op"
    using lex_run_blanks[OF assms(2) _ w] closed_mono[OF s(3)] s(3) by blast
  with s w assms(3) show ?thesis by (auto simp: lexes_def lex_run_append)
qed

definition strip :: "string \<Rightarrow> string" where
  "strip s = rev (dropWhile blank (rev s))"

lemma strip_split: obtains w where "s = strip s @ w" "list_all blank w"
proof
  have "rev s = takeWhile blank (rev s) @ dropWhile blank (rev s)" by simp
  then show "s = strip s @ rev (takeWhile blank (rev s))"
    unfolding strip_def by (metis rev_append rev_rev_ident)
  show "list_all blank (rev (takeWhile blank (rev s)))"
    by (auto simp: list_all_iff dest: set_takeWhileD)
qed

lemma strip_simps [simp]:
  "list_all blank w \<Longrightarrow> strip (s @ w) = strip s"
  "list_all blank w \<Longrightarrow> strip w = []"
  "strip [] = []"
  "strip (s @ [newline]) = strip s"
  by (simp_all add: strip_def list_all_iff dropWhile_append)

lemma strip_end: "s = [] \<or> \<not> blank (last s) \<Longrightarrow> strip s = s"
  by (cases s rule: rev_cases) (auto simp: strip_def)

lemma strip_append_blanks: "\<not> list_all blank s \<Longrightarrow> strip (w @ s) = w @ strip s"
  by (auto simp: strip_def list_all_iff dropWhile_append1)

lemma ascii_strip: "ascii s \<Longrightarrow> ascii (strip s)"
  by (auto simp: ascii_def strip_def list_all_iff dest: set_dropWhileD)

text \<open>\<open>texts s ts open\<close>: \<open>s\<close> has the tokens \<open>ts\<close> also without the white space at its end.\<close>

definition texts :: "string \<Rightarrow> string list \<Rightarrow> bool \<Rightarrow> bool" where
  "texts s ts op = (ascii s \<and> lexes (strip s) ts op)"

lemma texts_ascii: "texts s ts op \<Longrightarrow> ascii s"
  by (simp add: texts_def)

lemma texts_lexes: "texts s ts op \<Longrightarrow> lexes s ts op"
  by (rule strip_split[of s]) (metis ascii_simps(3) lexes_trailing_blanks texts_def)

lemma texts_tokens: "texts s ts op \<Longrightarrow> tokens s = ts"
  using lexes_tokens texts_lexes by blast

lemma texts_open: "texts s ts op \<Longrightarrow> (op \<Longrightarrow> op') \<Longrightarrow> texts s ts op'"
  using lexes_open by (auto simp: texts_def)

lemma lexes_texts: "lexes s ts op \<Longrightarrow> s \<noteq> [] \<Longrightarrow> \<not> blank (last s) \<Longrightarrow> texts s ts op"
  by (simp add: texts_def strip_end lexes_ascii)

lemma texts_trim:
  assumes "list_all blank w" "list_all blank w'" "ascii w" "ascii w'"
  shows "texts (w @ s @ w') ts op \<longleftrightarrow> texts s ts op"
proof (cases "list_all blank s")
  case True
  with assms have "list_all blank (w @ s @ w')" by simp
  with True show ?thesis using assms by (simp add: texts_def)
next
  case False
  have "strip (w @ s @ w') = w @ strip s"
    using strip_simps(1)[OF assms(2), of "w @ s"] strip_append_blanks[OF False, of w] by simp
  with assms show ?thesis by (simp add: texts_def lexes_leading_blanks)
qed

section \<open>Trimming\<close>

lemma utf8_chars_ascii: "ascii s \<Longrightarrow> utf8_chars s = map (\<lambda>c. [c]) s"
  by (induction s) (auto split: list.splits)

lemma is_whitespace_char: "is_whitespace [c] \<longleftrightarrow> blank c"
  by (auto simp: is_whitespace_def white_space_def blank_def)

lemma char_boundary_ascii: "ascii s \<Longrightarrow> i \<le> length s \<Longrightarrow> char_boundary s i"
  by (auto simp: char_boundary_def ascii_def list_all_length not_le)

lemma str_slice_ascii: "ascii s \<Longrightarrow> a \<le> b \<Longrightarrow> b \<le> length s \<Longrightarrow> str_slice s a b = Done (take (b - a) (drop a s))"
  by (simp add: str_slice_def char_boundary_ascii)

lemma concat_singletons: "concat (map (\<lambda>c. [c]) s) = s"
  by (induction s) simp_all

lemma drop_ends:
  obtains w core w' where "s = w @ core @ w'" "rev (dropWhile P (rev (dropWhile P s))) = core"
    "list_all P w" "list_all P w'" "w = takeWhile P s" "core \<noteq> [] \<Longrightarrow> w' = rev (takeWhile P (rev s))"
proof
  let ?d = "dropWhile P s"
  show "rev (dropWhile P (rev ?d)) = rev (dropWhile P (rev ?d))" ..
  have "rev ?d = takeWhile P (rev ?d) @ dropWhile P (rev ?d)" by simp
  then have "?d = rev (dropWhile P (rev ?d)) @ rev (takeWhile P (rev ?d))" by (metis rev_append rev_rev_ident)
  then show "s = takeWhile P s @ rev (dropWhile P (rev ?d)) @ rev (takeWhile P (rev ?d))"
    by (metis takeWhile_dropWhile_id)
  show "list_all P (takeWhile P s)" "list_all P (rev (takeWhile P (rev ?d)))"
    by (auto simp: list_all_iff dest: set_takeWhileD)
  show "takeWhile P s = takeWhile P s" ..
  have s: "rev s = rev ?d @ rev (takeWhile P s)" by (metis rev_append takeWhile_dropWhile_id)
  assume "rev (dropWhile P (rev ?d)) \<noteq> []"
  then obtain x where "x \<in> set (rev ?d)" "\<not> P x" by auto
  then show "rev (takeWhile P (rev ?d)) = rev (takeWhile P (rev s))" by (simp add: s takeWhile_append1)
qed

lemma texts_trim_both:
  assumes "texts s ts op" shows "texts (trim s) ts op"
proof -
  have a: "ascii s" using assms by (rule texts_ascii)
  have "trim s = rev (dropWhile blank (rev (dropWhile blank s)))"
    by (simp add: trim_def utf8_chars_ascii[OF a] dropWhile_map rev_map comp_def is_whitespace_char
        concat_singletons)
  moreover obtain w core w' where "s = w @ core @ w'" "rev (dropWhile blank (rev (dropWhile blank s))) = core"
      "list_all blank w" "list_all blank w'"
    by (rule drop_ends)
  ultimately show ?thesis using assms a texts_trim[of w w' core ts op] by simp
qed

lemma t_ascii:
  assumes "ascii s"
  obtains w core w' where "t s = Done core" "s = w @ core @ w'" "list_all blank w" "list_all blank w'"
proof -
  let ?P = "\<lambda>c. blank c \<and> c \<noteq> newline"
  have keeps: "t_keeps [c] \<longleftrightarrow> \<not> ?P c" for c by (auto simp: t_keeps_def is_whitespace_char)
  obtain w core w' where d: "s = w @ core @ w'" "rev (dropWhile ?P (rev (dropWhile ?P s))) = core"
      "list_all ?P w" "list_all ?P w'" "w = takeWhile ?P s" "core \<noteq> [] \<Longrightarrow> w' = rev (takeWhile ?P (rev s))"
    using drop_ends[of s ?P] by blast
  have chs: "utf8_chars s = map (\<lambda>c. [c]) s" by (rule utf8_chars_ascii[OF assms])
  have "list_all blank w" "list_all blank w'" using d(3,4) by (auto simp: list_all_iff)
  moreover have "t s = Done core"
  proof -
    have f: "filter t_keeps (utf8_chars s) = map (\<lambda>c. [c]) (filter (\<lambda>c. \<not> ?P c) s)"
      by (simp add: chs filter_map comp_def keeps)
    have tw: "length (concat (takeWhile (\<lambda>ch. \<not> t_keeps ch) (utf8_chars s))) = length (takeWhile ?P s)"
      "length (concat (takeWhile (\<lambda>ch. \<not> t_keeps ch) (rev (utf8_chars s)))) = length (takeWhile ?P (rev s))"
      by (simp_all add: chs takeWhile_map comp_def keeps concat_singletons rev_map)
    show ?thesis
    proof (cases "core = []")
      case True
      then have "filter (\<lambda>c. \<not> ?P c) s = []" using d(1,3,4) by (auto simp: list_all_iff filter_empty_conv)
      then show ?thesis using True assms by (simp add: t_def f str_slice_ascii)
    next
      case False
      then have w': "w' = rev (takeWhile ?P (rev s))" using d(6) by blast
      have ne: "filter (\<lambda>c. \<not> ?P c) s \<noteq> []"
        using False d(2) by (auto simp: filter_empty_conv dest!: set_dropWhileD)
      have last1: "length (last (map (\<lambda>c. [c]) (filter (\<lambda>c. \<not> ?P c) s))) = 1" using ne by (simp add: last_map)
      have lens: "length (takeWhile ?P s) = length w" "length (takeWhile ?P (rev s)) = length w'"
        by (simp_all add: w' flip: d(5))
      have "t s = str_slice s (length w) (length s - length w' - 1 + 1)"
        unfolding t_def Let_def f tw lens last1 using ne by simp
      also have "length s - length w' - 1 + 1 = length w + length core"
        using d(1) False by (cases core) auto
      also have "str_slice s (length w) (length w + length core) = Done core"
        using assms by (subst str_slice_ascii) (simp_all add: d(1))
      finally show ?thesis .
    qed
  qed
  ultimately show thesis using that d(1) by blast
qed

lemma texts_t:
  assumes "texts s ts op" obtains s' where "t s = Done s'" "texts s' ts op"
proof -
  have a: "ascii s" using assms by (rule texts_ascii)
  obtain w core w' where d: "t s = Done core" "s = w @ core @ w'" "list_all blank w" "list_all blank w'"
    using t_ascii[OF a] by blast
  then show thesis using that assms a texts_trim[of w w' core ts op] by simp
qed

section \<open>The printer keeps the tokens\<close>

text \<open>The text of a document without indentation.\<close>

fun plain :: "doc \<Rightarrow> bool" where
  "plain (Text s) = True"
| "plain (Verbatim s) = True"
| "plain (Concat docs) = list_all plain docs"
| "plain (Indent inner) = plain inner"
| "plain Hardline = True"
| "plain BlankLine = True"
| "plain d = False"

fun flow :: "doc \<Rightarrow> string" where
  "flow (Text s) = s"
| "flow (Verbatim s) = s"
| "flow (Concat docs) = concat (map flow docs)"
| "flow (Indent inner) = flow inner"
| "flow Hardline = [newline]"
| "flow BlankLine = [newline, newline]"
| "flow d = []"

text \<open>\<open>relaid s f\<close>: \<open>s\<close> is \<open>f\<close> with white space after line breaks.\<close>

inductive relaid :: "string \<Rightarrow> string \<Rightarrow> bool" where
  relaid_Nil: "relaid [] []"
| relaid_char: "relaid s f \<Longrightarrow> relaid (c # s) (c # f)"
| relaid_break: "relaid s f \<Longrightarrow> list_all blank w \<Longrightarrow> ascii w \<Longrightarrow> relaid (newline # w @ s) (newline # f)"

lemma relaid_append: "relaid s f \<Longrightarrow> relaid s' f' \<Longrightarrow> relaid (s @ s') (f @ f')"
  by (induction rule: relaid.induct) (auto intro: relaid.intros)

lemma relaid_refl [simp]: "relaid s s"
  by (induction s) (auto intro: relaid.intros)

lemma lex_run_idle_blanks: "list_all blank w \<Longrightarrow> lex_run (w @ s) Idle = lex_run s Idle"
  by (induction w) (auto simp: lex_char_def separator_def split: prod.splits)

lemma relaid_lex: "relaid s f \<Longrightarrow> lex_run s m = lex_run f m"
  by (induction arbitrary: m rule: relaid.induct) (auto simp: lex_run_idle_blanks split: prod.splits)

lemma relaid_ascii: "relaid s f \<Longrightarrow> ascii s = ascii f"
  by (induction rule: relaid.induct) auto

lemma relaid_blank: "relaid s f \<Longrightarrow> list_all blank s = list_all blank f"
  by (induction rule: relaid.induct) auto

lemma strip_Cons: "strip (c # s) = (if list_all blank (c # s) then [] else if list_all blank s then [c] else c # strip s)"
  using strip_append_blanks[of s "[c]"] strip_simps(1)[of s "[c]"] by (auto simp: strip_end)

lemma relaid_strip: "relaid s f \<Longrightarrow> relaid (strip s) (strip f)"
proof (induction rule: relaid.induct)
  case (relaid_break s f w)
  then show ?case
    using relaid_blank[OF relaid_break.hyps(1)] strip_append_blanks[of s w]
    by (auto simp: strip_Cons intro: relaid.intros)
next
  case (relaid_char s f c)
  then show ?case using relaid_blank[OF relaid_char.hyps] by (auto simp: strip_Cons intro: relaid.intros)
qed (simp add: relaid_Nil)

lemma relaid_texts: "relaid s f \<Longrightarrow> texts s ts op = texts f ts op"
  using relaid_lex[OF relaid_strip] relaid_ascii[OF relaid_strip] relaid_ascii by (auto simp: texts_def lexes_def)

lemma print_relaid:
  "plain d \<Longrightarrow> list_all blank ind \<and> ascii ind \<and> list_all blank (indent_unit p) \<and> ascii (indent_unit p) \<Longrightarrow>
     \<exists>s. printed (print d ind mode p) = printed p @ s \<and> relaid s (flow d)"
  "list_all plain ds \<Longrightarrow> list_all blank ind \<and> ascii ind \<and> list_all blank (indent_unit p) \<and> ascii (indent_unit p) \<Longrightarrow>
     \<exists>s. printed (print_all ds ind mode p) = printed p @ s \<and> relaid s (concat (map flow ds))"
  "True"
proof (induction d ind mode p and ds ind mode p and ds ind mode p rule: print_print_all_print_fill.induct)
  case (7 ind mode p)
  then show ?case
    using relaid_break[OF relaid_Nil, of ind] by (auto simp: emit_newline_def)
next
  case (10 ind mode p)
  then show ?case
    using relaid_char[OF relaid_break[OF relaid_Nil, of ind], of newline] by (auto simp: emit_newline_def)
next
  case (12 d ds ind mode p)
  then obtain s s' where "printed (print d ind mode p) = printed p @ s" "relaid s (flow d)"
    "printed (print_all ds ind mode (print d ind mode p)) = (printed p @ s) @ s'"
    "relaid s' (concat (map flow ds))"
    by (metis list.pred_inject(2) print_keeps_settings(1))
  then show ?case by (auto intro: relaid_append)
qed (auto simp: emit_def emit_verbatim_def relaid_Nil)

lemma render_texts:
  assumes "plain d" "list_all blank indent" "ascii indent"
    and "list_all blank (indentation_str env)" "ascii (indentation_str env)"
  shows "texts (render_doc env d indent) ts op = texts (flow d) ts op"
proof -
  obtain s where "render_doc env d indent = s" "relaid s (flow d)"
    using print_relaid(1)[of d indent "printer_new (indentation_str env) (max_line_length env)\<lparr>column := length indent\<rparr>" Break]
      assms by (auto simp: render_doc_def render_def printer_new_def)
  then show ?thesis by (simp add: relaid_texts)
qed

section \<open>Words, literals and comments\<close>

definition word :: "string \<Rightarrow> bool" where
  "word s = (s \<noteq> [] \<and> ascii s \<and>
     list_all (\<lambda>c. \<not> separator c \<and> \<not> bracket c \<and> c \<noteq> CHR '';'' \<and> c \<noteq> CHR 0x22) s)"

lemma separator_newline [simp]: "separator newline" "separator (CHR '' '')" "separator (CHR '','')"
  by (simp_all add: separator_def)

lemma lex_run_word:
  "list_all (\<lambda>c. \<not> separator c \<and> \<not> bracket c \<and> c \<noteq> CHR '';'' \<and> c \<noteq> CHR 0x22) s \<Longrightarrow>
     lex_run s (Word w) = ([], Word (w @ s))"
  by (induction s arbitrary: w) (auto simp: lex_char_def)

lemma word_texts:
  assumes "word s" shows "texts s [s] False"
proof -
  obtain c r where s: "s = c # r" using assms by (cases s) (auto simp: word_def)
  have "lex_run s Idle = ([], Word s)"
    using assms lex_run_word[of r "[c]"] by (auto simp: s word_def lex_char_def)
  moreover have "\<not> blank (last s)" using assms by (auto simp: word_def list_all_iff separator_def s)
  ultimately show ?thesis using assms by (intro lexes_texts) (auto simp: lexes_def closed_def word_def)
qed

lemma lex_run_escapes:
  "list_all (\<lambda>b. b < 128) data \<Longrightarrow>
     lex_run (concat (map escape_byte data)) (Quoted w) = ([], Quoted (w @ concat (map escape_byte data))) \<and>
     ascii (concat (map escape_byte data))"
proof (induction data arbitrary: w)
  case (Cons b data)
  have esc: "lex_run (escape_byte b) (Quoted w) = ([], Quoted (w @ escape_byte b)) \<and> ascii (escape_byte b)" for w
  proof (cases "b \<in> {92, 34, 10, 13, 9}")
    case True
    then show ?thesis by (auto simp: escape_byte_def lex_char_def newline_def)
  next
    case False
    have b: "unat b < 128" using Cons.prems by (simp add: word_less_nat_alt)
    have "unat b \<noteq> 92" "unat b \<noteq> 34" "unat b \<noteq> 10"
      using False by (simp_all add: word_unat_eq_iff)
    then have "(char_of (unat b) :: char) \<noteq> CHR 0x5C" "(char_of (unat b) :: char) \<noteq> CHR 0x22"
        "(char_of (unat b) :: char) \<noteq> newline"
      using b by (auto simp: newline_def dest!: arg_cong[where f = "of_char :: char \<Rightarrow> nat"])
    then show ?thesis using False Cons.prems b by (simp add: escape_byte_def lex_char_def)
  qed
  then show ?case using Cons by (simp add: lex_run_append)
qed simp

text \<open>The escaped form of a string of ASCII bytes is one token.\<close>

lemma ascii_literal_texts:
  assumes "list_all (\<lambda>b. b < 128) data"
  shows "texts (ascii_literal data) [ascii_literal data] False"
proof -
  have "lex_run (ascii_literal data) Idle = ([ascii_literal data], Idle)"
    using lex_run_escapes[OF assms]
    by (simp add: ascii_literal_def lex_run_append lex_char_def newline_def separator_def blank_def bracket_def)
  then show ?thesis using lex_run_escapes[OF assms]
    by (intro lexes_texts) (auto simp: lexes_def closed_def ascii_literal_def blank_def)
qed

definition comment_token :: "string \<Rightarrow> string" where
  "comment_token text = ink ('';;'' @ text)"

lemma lex_run_comment: "newline \<notin> set s \<Longrightarrow> lex_run s (Comm w) = ([], Comm (w @ ink s))"
  by (induction s arbitrary: w) (auto simp: lex_char_def)

lemma comment_texts:
  assumes "newline \<notin> set s" "ascii s" "ink s = ink text"
  shows "texts ('';;'' @ s) [comment_token text] True"
proof -
  let ?s = "strip ('';;'' @ s)"
  obtain w where w: "'';;'' @ s = ?s @ w" "list_all blank w" by (rule strip_split)
  have "strip ('';;'' @ s) = '';;'' @ strip s"
    by (simp add: strip_Cons) (auto simp: blank_def)
  moreover have "newline \<notin> set (strip s)" "ink (strip s) = ink s"
    using assms(1) strip_split[of s] by (metis Un_iff set_append) (metis append_Nil2 filter_append ink_blank strip_split)
  ultimately show ?thesis
    using assms ascii_strip[OF assms(2)] lex_run_comment[of "strip s" "'';;''"]
    by (auto simp: texts_def lexes_def closed_def comment_token_def lex_char_def newline_def separator_def
        blank_def bracket_def)
qed

end
