(* ===== verification/Format_Readings.thy ===== *)
theory Format_Readings
  imports Format_Lex
begin

text \<open>
  What a formatted expression must read as. An expression has a reading for each way its text
  can be written: a list in parentheses, a sugared tuple in braces, and a list
  \<^verbatim>\<open>(tuple (key value) ...)\<close> whose entries are pairs also as a sugared tuple, which is the one
  rewriting the formatter does. Comments are tokens like any other.

  The second part is the contract of the formatter's recursion: \<open>gives\<close> is total correctness of a
  computation with respect to an invariant of the formatter's state.
\<close>

section \<open>Readings\<close>

definition seq :: "string list set \<Rightarrow> string list set \<Rightarrow> string list set" where
  "seq A B = {a @ b | a b. a \<in> A \<and> b \<in> B}"

lemma seqI: "a \<in> A \<Longrightarrow> b \<in> B \<Longrightarrow> a @ b \<in> seq A B"
  by (auto simp: seq_def)

lemma seq_simps [simp]: "seq {[]} A = A" "seq A {[]} = A" "seq (seq A B) C = seq A (seq B C)"
  by (auto simp: seq_def) (metis append.assoc)+

primrec cat :: "string list set list \<Rightarrow> string list set" where
  "cat [] = {[]}"
| "cat (A # As) = seq A (cat As)"

lemma cat_append [simp]: "cat (As @ Bs) = seq (cat As) (cat Bs)"
  by (induction As) simp_all

definition value_readings :: "settings \<Rightarrow> pse \<Rightarrow> literal_value \<Rightarrow> string list set" where
  "value_readings env e val =
     (case val of
        PrincipalValue p \<Rightarrow> {[[CHR 0x27] @ p]}
      | AsciiValue data \<Rightarrow> {[ascii_literal data]}
      | Utf8Value text \<Rightarrow>
          {[text]} \<union> {[raw] | raw lines. source_lines env = Some lines \<and> extract_expr_source lines e = Done raw}
      | IntValue text \<Rightarrow> {[text]}
      | OtherValue text \<Rightarrow> {[text]})"

definition leaf_readings :: "settings \<Rightarrow> pse \<Rightarrow> string list set" where
  "leaf_readings env e =
     (case pre_expr e of
        Atom name \<Rightarrow> {[name]}
      | AtomValue val \<Rightarrow> value_readings env e val
      | SugaredContractIdentifier name \<Rightarrow> {[''.'' @ name]}
      | SugaredFieldIdentifier contract field \<Rightarrow> {[''.'' @ contract @ ''.'' @ field]}
      | FieldIdentifier trait_id \<Rightarrow> {[[CHR 0x27] @ trait_id]}
      | TraitReference name \<Rightarrow> {[''<'' @ name @ ''>'']}
      | Comment text \<Rightarrow> {[comment_token text]}
      | Placeholder text \<Rightarrow> {[text]}
      | _ \<Rightarrow> {})"

text \<open>A call of \<^verbatim>\<open>tuple\<close> that can be written as a sugared tuple.\<close>

definition converts :: "settings \<Rightarrow> pse list \<Rightarrow> bool" where
  "converts env its =
     (case its of
        [] \<Rightarrow> False
      | first # entries \<Rightarrow>
          (case match_atom first of
             None \<Rightarrow> False
           | Some name \<Rightarrow> lookup_native env name = Some TupleCons \<and>
               list_all (\<lambda>entry. is_comment entry \<or> split_tuple_entry entry \<noteq> None) entries))"

lemma elem_size: "(e :: pse) \<in> set es \<Longrightarrow> size e < size_list size es"
  by (induction es) auto

lemma size_tl: "n < size_list f (tl xs) \<Longrightarrow> n < size_list f xs"
  by (cases xs) auto

function readings :: "settings \<Rightarrow> pse \<Rightarrow> string list set"
  and entry_readings :: "settings \<Rightarrow> pse \<Rightarrow> string list set"
  and sugar_readings :: "settings \<Rightarrow> bool \<Rightarrow> pse list \<Rightarrow> string list set" where
  "readings env (PSE x sp a) =
     (case x of
        ListExpr its \<Rightarrow>
          seq {[''('']} (seq (cat (map (readings env) its)) {['')'']}) \<union>
          (if converts env its
           then seq {[''{'']} (seq (cat (map (entry_readings env) (tl its))) {[''}'']}) else {})
      | TupleExpr its \<Rightarrow> seq {[''{'']} (seq (sugar_readings env True its) {[''}'']})
      | _ \<Rightarrow> leaf_readings env (PSE x sp a))"
| "entry_readings env (PSE x sp a) =
     (case x of
        ListExpr (key # rest) \<Rightarrow> seq (readings env key) (seq {['':'']} (cat (map (readings env) rest)))
      | _ \<Rightarrow> readings env (PSE x sp a))"
| "sugar_readings env is_key [] = {[]}"
| "sugar_readings env is_key (e # es) =
     seq (readings env e)
       (if is_comment e then sugar_readings env is_key es
        else if is_key then seq {['':'']} (sugar_readings env False es)
        else sugar_readings env True es)"
  by pat_completeness auto
termination
  by (relation "measure (\<lambda>x. case x of
      Inl (env, e) \<Rightarrow> 2 * size e | Inr (Inl (env, e)) \<Rightarrow> 2 * size e + 1
    | Inr (Inr (env, b, es)) \<Rightarrow> 2 * size_list size es)")
    (auto dest!: elem_size dest: size_tl simp: less_Suc_eq_le)

lemma readings_leaf:
  "match_list e = None \<Longrightarrow> (\<And>its. pre_expr e \<noteq> TupleExpr its) \<Longrightarrow> readings env e = leaf_readings env e"
  by (cases e; cases "pre_expr e") (auto simp: match_list_def)

lemma readings_list:
  "match_list e = Some its \<Longrightarrow>
     readings env e = seq {[''('']} (seq (cat (map (readings env) its)) {['')'']}) \<union>
       (if converts env its
        then seq {[''{'']} (seq (cat (map (entry_readings env) (tl its))) {[''}'']}) else {})"
  by (cases e) (auto simp: match_list_def split: pre_expr.splits)

lemma readings_tuple:
  "pre_expr e = TupleExpr its \<Longrightarrow>
     readings env e = seq {[''{'']} (seq (sugar_readings env True its) {[''}'']})"
  by (cases e) auto

definition all_readings :: "settings \<Rightarrow> pse list \<Rightarrow> string list set" where
  "all_readings env es = cat (map (readings env) es)"

lemma all_readings_simps [simp]:
  "all_readings env [] = {[]}"
  "all_readings env (e # es) = seq (readings env e) (all_readings env es)"
  "all_readings env (es @ es') = seq (all_readings env es) (all_readings env es')"
  by (simp_all add: all_readings_def)

lemma readings_atom: "match_atom e = Some name \<Longrightarrow> readings env e = {[name]}"
  by (cases e) (auto simp: match_atom_def leaf_readings_def split: pre_expr.splits)

section \<open>Texts of a reading\<close>

definition lexes_in :: "string \<Rightarrow> string list set \<Rightarrow> bool \<Rightarrow> bool" where
  "lexes_in s R op = (\<exists>ts\<in>R. lexes s ts op)"

definition texts_in :: "string \<Rightarrow> string list set \<Rightarrow> bool \<Rightarrow> bool" where
  "texts_in s R op = (\<exists>ts\<in>R. texts s ts op)"

lemma texts_in_lexes_in: "texts_in s R op \<Longrightarrow> lexes_in s R op"
  by (auto simp: texts_in_def lexes_in_def intro: texts_lexes)

lemma lexes_in_open: "lexes_in s R op \<Longrightarrow> (op \<Longrightarrow> op') \<Longrightarrow> lexes_in s R op'"
  by (auto simp: lexes_in_def intro: lexes_open)

lemma texts_in_open: "texts_in s R op \<Longrightarrow> (op \<Longrightarrow> op') \<Longrightarrow> texts_in s R op'"
  by (auto simp: texts_in_def intro: texts_open)

lemma lexes_in_Nil [simp]: "lexes_in [] R op \<longleftrightarrow> [] \<in> R"
  by (auto simp: lexes_in_def)

lemma lexes_in_mono: "lexes_in s R op \<Longrightarrow> R \<subseteq> R' \<Longrightarrow> lexes_in s R' op"
  by (auto simp: lexes_in_def)

lemma seq_absorb: "[] \<in> B \<Longrightarrow> A \<subseteq> seq A B" "[] \<in> A \<Longrightarrow> B \<subseteq> seq A B"
  by (force simp: seq_def)+

lemma lexes_in_newline: "lexes_in a A True \<Longrightarrow> lexes_in b B op \<Longrightarrow> lexes_in (a @ newline # b) (seq A B) op"
  by (auto simp: lexes_in_def intro!: bexI lexes_newline seqI)

lemma lexes_in_separator:
  "lexes_in a A False \<Longrightarrow> lexes_in b B op \<Longrightarrow> separator c \<Longrightarrow> of_char c < (128::nat) \<Longrightarrow>
     lexes_in (a @ c # b) (seq A B) op"
  by (auto simp: lexes_in_def intro!: bexI lexes_separator seqI)

lemma lexes_in_space: "lexes_in a A False \<Longrightarrow> lexes_in b B op \<Longrightarrow> lexes_in (a @ CHR '' '' # b) (seq A B) op"
  by (rule lexes_in_separator) simp_all

lemma lexes_in_bracket:
  "lexes_in a A False \<Longrightarrow> lexes_in b B op \<Longrightarrow> bracket c \<Longrightarrow> lexes_in (a @ c # b) (seq A (seq {[[c]]} B)) op"
  unfolding lexes_in_def
  by (metis append_Cons append_Nil lexes_bracket seqI singletonI)

lemma lexes_in_comment_after:
  "lexes_in a A False \<Longrightarrow> lexes_in b B op \<Longrightarrow> starts_with (CHR '';'') b \<Longrightarrow> lexes_in (a @ b) (seq A B) op"
  by (auto simp: lexes_in_def intro!: bexI lexes_comment_after seqI)

lemma lexes_in_trailing_blanks:
  "lexes_in s R op \<Longrightarrow> list_all blank w \<Longrightarrow> ascii w \<Longrightarrow> lexes_in (s @ w) R op"
  by (auto simp: lexes_in_def intro: lexes_trailing_blanks)

lemma lexes_in_leading_blanks: "list_all blank w \<Longrightarrow> ascii w \<Longrightarrow> lexes_in (w @ s) R op \<longleftrightarrow> lexes_in s R op"
  by (simp add: lexes_in_def lexes_leading_blanks)

lemma lexes_in_texts_in: "lexes_in s R op \<Longrightarrow> s \<noteq> [] \<Longrightarrow> \<not> blank (last s) \<Longrightarrow> texts_in s R op"
  by (auto simp: lexes_in_def texts_in_def intro: lexes_texts)

lemma bracket_chars [simp]:
  "bracket (CHR ''('')" "bracket (CHR '')'')" "bracket (CHR ''{'')" "bracket (CHR ''}'')" "bracket (CHR '':'')"
  by (simp_all add: bracket_def)

lemma bracket_nonblank: "bracket c \<Longrightarrow> \<not> blank c"
  by (auto simp: bracket_def blank_def)

text \<open>A text that is empty or starts on a new line, as the loops over expressions build them.\<close>

definition tails :: "string \<Rightarrow> string list set \<Rightarrow> bool" where
  "tails s R = (s = [] \<and> [] \<in> R \<or> (\<exists>s'. s = newline # s' \<and> lexes_in s' R True))"

lemma tails_Nil: "[] \<in> R \<Longrightarrow> tails [] R"
  by (simp add: tails_def)

lemma tails_line: "lexes_in s R True \<Longrightarrow> tails (newline # s) R"
  by (simp add: tails_def)

lemma lexes_in_tails: "lexes_in a A True \<Longrightarrow> tails s B \<Longrightarrow> lexes_in (a @ s) (seq A B) True"
  using lexes_in_mono[OF _ seq_absorb(1)] by (auto simp: tails_def intro: lexes_in_newline)

lemma tails_append: "tails a A \<Longrightarrow> tails b B \<Longrightarrow> tails (a @ b) (seq A B)"
proof (cases a)
  case (Cons c a')
  assume "tails a A" "tails b B"
  then have "lexes_in (a' @ b) (seq A B) True" "c = newline"
    using Cons lexes_in_tails by (auto simp: tails_def)
  with Cons show ?thesis by (auto intro: tails_line)
next
  case Nil
  assume "tails a A" "tails b B"
  then have "[] \<in> A" using Nil by (simp add: tails_def)
  then have "B \<subseteq> seq A B" by (rule seq_absorb)
  with \<open>tails b B\<close> Nil show ?thesis using lexes_in_mono by (auto simp: tails_def)
qed

lemma tails_close:
  assumes "lexes_in a A True" "tails s B" "bracket c"
  shows "texts_in (a @ s @ [newline, c]) (seq A (seq B {[[c]]})) op"
proof -
  have "lexes_in [c] {[[c]]} op" using lexes_in_bracket[of "[]" "{[]}" "[]" "{[]}" op c] assms(3) by simp
  with lexes_in_newline[OF lexes_in_tails[OF assms(1,2)] this]
  show ?thesis by (intro lexes_in_texts_in) (simp_all add: bracket_nonblank[OF assms(3)])
qed

lemma tails_open: "lexes_in s R True \<Longrightarrow> tails (newline # newline # s) R"
  using lexes_in_leading_blanks[of "[newline]" s R True] by (simp add: tails_def)

section \<open>Expressions as the parser delivers them\<close>

definition value_ok :: "literal_value \<Rightarrow> bool" where
  "value_ok val =
     (case val of
        PrincipalValue p \<Rightarrow> word ([CHR 0x27] @ p)
      | AsciiValue data \<Rightarrow> list_all (\<lambda>b. b < 128) data
      | Utf8Value text \<Rightarrow> texts text [text] False
      | IntValue text \<Rightarrow> word text
      | OtherValue text \<Rightarrow> texts text [text] False)"

text \<open>
  Siblings stand in source order, and what follows a comment stands on a later line, because a
  comment runs to the end of its line.
\<close>

fun siblings_ok :: "pse list \<Rightarrow> bool" where
  "siblings_ok (a # b # rest) =
     ((if is_comment a then start_line (span_of a) < start_line (span_of b)
       else end_line (span_of a) \<le> start_line (span_of b)) \<and> siblings_ok (b # rest))"
| "siblings_ok _ = True"

text \<open>Keys and values alternate in a sugared tuple.\<close>

fun pairs_ok :: "bool \<Rightarrow> pse list \<Rightarrow> bool" where
  "pairs_ok is_key [] = is_key"
| "pairs_ok is_key (e # es) = pairs_ok (if is_comment e then is_key else \<not> is_key) es"

text \<open>
  What the layouts of special forms rely on: \<^verbatim>\<open>let\<close> has a list of bindings right after it that is not
  a lone comment, \<^verbatim>\<open>match\<close> and \<^verbatim>\<open>define-map\<close> have an argument, a function has a signature with
  a name and with lists or comments as parameters, where the only parameter is no comment, and
  \<^verbatim>\<open>restrict-assets?\<close> has an owner and a list of allowances.
\<close>

definition signature_ok :: "pse \<Rightarrow> bool" where
  "signature_ok def =
     (case match_list def of
        Some (name # args) \<Rightarrow>
          match_atom name \<noteq> None \<and> list_all (\<lambda>a. is_list a \<or> is_comment a) args \<and>
          (length args = 1 \<longrightarrow> \<not> is_comment (hd args))
      | _ \<Rightarrow> False)"

definition bindings_ok :: "pse \<Rightarrow> bool" where
  "bindings_ok bindings =
     (case match_list bindings of
        None \<Rightarrow> False
      | Some args \<Rightarrow> length args = 1 \<longrightarrow> \<not> is_comment (hd args))"

definition form_ok :: "settings \<Rightarrow> string \<Rightarrow> pse list \<Rightarrow> bool" where
  "form_ok env name args =
     (case lookup_native env name of
        Some Let_native \<Rightarrow> args \<noteq> [] \<and> bindings_ok (hd args)
      | Some Match \<Rightarrow> args \<noteq> []
      | Some RestrictAssets \<Rightarrow>
          args \<noteq> [] \<and> \<not> is_comment (hd args) \<and> (tl args \<noteq> [] \<longrightarrow> is_list (args ! 1))
      | Some _ \<Rightarrow> True
      | None \<Rightarrow>
          (case lookup_define env name of
             Some DefineFunction \<Rightarrow> args \<noteq> [] \<and> signature_ok (hd args)
           | Some DefineMap \<Rightarrow> args \<noteq> []
           | _ \<Rightarrow> True))"

definition list_ok :: "settings \<Rightarrow> span \<Rightarrow> pse list \<Rightarrow> bool" where
  "list_ok env sp its =
     (siblings_ok its \<and>
      (its \<noteq> [] \<longrightarrow> (if is_comment (last its) then start_line (span_of (last its)) < end_line sp
                     else end_line (span_of (last its)) \<le> end_line sp)) \<and>
      (case its of
         [] \<Rightarrow> True
       | first # args \<Rightarrow> (case match_atom first of None \<Rightarrow> True | Some name \<Rightarrow> form_ok env name args)))"

definition expr_ok :: "settings \<Rightarrow> pse \<Rightarrow> bool" where
  "expr_ok env e =
     (case pre_expr e of
        Atom name \<Rightarrow> word name
      | AtomValue val \<Rightarrow> value_ok val
      | ListExpr its \<Rightarrow> list_ok env (span_of e) its
      | TupleExpr its \<Rightarrow> siblings_ok its \<and> pairs_ok True its
      | SugaredContractIdentifier name \<Rightarrow> word (''.'' @ name)
      | SugaredFieldIdentifier contract field \<Rightarrow> word (''.'' @ contract @ ''.'' @ field)
      | FieldIdentifier trait_id \<Rightarrow> word ([CHR 0x27] @ trait_id)
      | TraitReference name \<Rightarrow> word (''<'' @ name @ ''>'')
      | Comment text \<Rightarrow> newline \<notin> set text \<and> ascii text \<and> start_line (span_of e) = end_line (span_of e)
      | Placeholder text \<Rightarrow> word text)"

text \<open>The names the layouts write out instead of copying them.\<close>

definition names_ok :: "settings \<Rightarrow> bool" where
  "names_ok env =
     (\<forall>name. (lookup_native env name = Some Let_native \<longrightarrow> name = ''let'') \<and>
             (lookup_native env name = Some Begin \<longrightarrow> name = ''begin'') \<and>
             (lookup_native env name = Some Match \<longrightarrow> name = ''match'') \<and>
             (lookup_native env name = Some ListCons \<longrightarrow> name = ''list'') \<and>
             (lookup_native env name = Some RestrictAssets \<longrightarrow> name = ''restrict-assets?'') \<and>
             (lookup_define env name = Some DefineTrait \<longrightarrow> name = ''define-trait''))"

definition blanks :: "string \<Rightarrow> bool" where
  "blanks s = (list_all blank s \<and> ascii s)"

lemma blanks_simps [simp]: "blanks []" "blanks (a @ b) \<longleftrightarrow> blanks a \<and> blanks b"
  by (auto simp: blanks_def)

lemma comment_ok:
  "expr_ok env e \<Longrightarrow> is_comment e \<Longrightarrow> start_line (span_of e) = end_line (span_of e)"
  by (auto simp: expr_ok_def is_comment_def split: pre_expr.splits)

lemma siblings_ok_Cons: "siblings_ok (a # rest) \<Longrightarrow> siblings_ok rest"
  by (cases rest) auto

lemma siblings_ok_append: "siblings_ok (xs @ ys) \<Longrightarrow> siblings_ok xs \<and> siblings_ok ys"
proof (induction xs)
  case (Cons a xs)
  then show ?case using siblings_ok_Cons[of a ys] by (cases xs) auto
qed simp

lemma siblings_ok_drop: "siblings_ok xs \<Longrightarrow> siblings_ok (drop n xs)"
  by (metis append_take_drop_id siblings_ok_append)

lemma trailing_comment_cases:
  assumes "get_trailing_comment e rest = (trailing, iter)" "siblings_ok (e # rest)" "expr_ok env e"
  shows "(trailing = None \<and> iter = rest) \<or>
    (\<exists>c. trailing = Some c \<and> rest = c # iter \<and> is_comment c \<and> \<not> is_comment e \<and>
         end_line (span_of e) = start_line (span_of c))"
  using assms comment_ok[OF assms(3)] by (cases rest) (auto split: if_splits)

end
