(* ===== verification/Format_Calls.thy ===== *)
theory Format_Calls
  imports Format_Readings
begin

text \<open>
  The contract between the layouts and the recursion of the formatter, as the locale
  \<open>formatter_calls\<close>: formatting an expression that is part of the tree returns a text that reads as
  the expression, whatever the indentation, and keeps the invariant of the cache. Inside the
  locale, each layout is shown to return a text that reads as the form it lays out.
\<close>

section \<open>Total correctness of formatter computations\<close>

definition gives :: "(aggregator \<Rightarrow> bool) \<Rightarrow> 'a fmt \<Rightarrow> ('a \<Rightarrow> bool) \<Rightarrow> bool" where
  "gives I m P = (\<forall>agg. I agg \<longrightarrow> (\<exists>x agg'. m agg = Done (x, agg') \<and> I agg' \<and> P x))"

lemma givesD: "gives I m P \<Longrightarrow> I agg \<Longrightarrow> \<exists>x agg'. m agg = Done (x, agg') \<and> I agg' \<and> P x"
  by (simp add: gives_def)

lemma gives_return [simp, intro!]: "P x \<Longrightarrow> gives I (fmt_return x) P"
  by (simp add: gives_def fmt_return_def)

lemma gives_bind: "gives I m P \<Longrightarrow> (\<And>x. P x \<Longrightarrow> gives I (f x) Q) \<Longrightarrow> gives I (bind_fmt m f) Q"
  unfolding gives_def bind_fmt_def by (metis (mono_tags, lifting) bind_outcome.simps(1) case_prod_conv)

lemma gives_mono: "gives I m P \<Longrightarrow> (\<And>x. P x \<Longrightarrow> Q x) \<Longrightarrow> gives I m Q"
  unfolding gives_def by blast

lemma gives_outcome: "r = Done x \<Longrightarrow> P x \<Longrightarrow> gives I (fmt_outcome r) P"
  by (simp add: gives_def fmt_outcome_def)

lemma nth_expr_gives: "i < length es \<Longrightarrow> gives I (nth_expr es i) (\<lambda>e. e = es ! i)"
  by (simp add: nth_expr_def gives_outcome)

lemma exprs_from_gives: "i \<le> length es \<Longrightarrow> gives I (exprs_from es i) (\<lambda>r. r = drop i es)"
  by (simp add: exprs_from_def gives_outcome)

definition reads :: "settings \<Rightarrow> pse \<Rightarrow> string \<Rightarrow> bool" where
  "reads env e s = texts_in s (readings env e) (is_comment e)"

lemma reads_lexes: "reads env e s \<Longrightarrow> lexes_in s (readings env e) (is_comment e)"
  by (simp add: reads_def texts_in_lexes_in)

definition list_reading :: "settings \<Rightarrow> pse list \<Rightarrow> string list set" where
  "list_reading env es = seq {[''('']} (seq (all_readings env es) {['')'']})"

definition opt_list :: "'a option \<Rightarrow> 'a list" where
  "opt_list x = (case x of None \<Rightarrow> [] | Some y \<Rightarrow> [y])"

lemma opt_list_simps [simp]: "opt_list None = []" "opt_list (Some x) = [x]"
  by (simp_all add: opt_list_def)

section \<open>Documents of lines\<close>

abbreviation flows :: "doc list \<Rightarrow> string" where
  "flows ds \<equiv> concat (map flow ds)"

text \<open>The documents of the loops: nothing, or a line break and a text.\<close>

definition lines_in :: "doc list \<Rightarrow> string list set \<Rightarrow> bool" where
  "lines_in ds R = (list_all plain ds \<and>
     (ds = [] \<and> [] \<in> R \<or>
      (\<exists>brk parts. ds = brk # parts \<and> brk \<in> {Hardline, BlankLine} \<and> lexes_in (flows parts) R True)))"

lemma lines_in_plain: "lines_in ds R \<Longrightarrow> list_all plain ds"
  by (simp add: lines_in_def)

lemma lines_in_tails: "lines_in ds R \<Longrightarrow> tails (flows ds) R"
  using tails_open by (auto simp: lines_in_def intro: tails_line tails_Nil)

lemma lines_in_Nil: "[] \<in> R \<Longrightarrow> lines_in [] R"
  by (simp add: lines_in_def)

lemma line_break_cases: "line_break prev e \<in> {Hardline, BlankLine}"
  by (simp add: line_break_def)

lemma lines_in_Cons:
  assumes "brk \<in> {Hardline, BlankLine}" "list_all plain parts" "lexes_in (flows parts) A True" "lines_in ds B"
  shows "lines_in (brk # parts @ ds) (seq A B)"
  using assms lexes_in_tails[OF assms(3) lines_in_tails[OF assms(4)]]
  by (auto simp: lines_in_def)

lemma Hardline_Cons:
  "list_all plain parts \<Longrightarrow> lexes_in (flows parts) A True \<Longrightarrow> lines_in ds B \<Longrightarrow> lines_in (Hardline # parts @ ds) (seq A B)"
  by (rule lines_in_Cons) simp_all

lemma block_texts:
  assumes "plain op" "lexes_in (flow op) A True" "lines_in body B" "bracket cl"
    and "blanks indent" "blanks (indentation_str env)"
  shows "texts_in (render_doc env (block op body [cl]) indent) (seq A (seq B {[[cl]]})) False"
proof -
  have "texts_in (flow (block op body [cl])) (seq A (seq B {[[cl]]})) False"
    using tails_close[OF assms(2) lines_in_tails[OF assms(3)] assms(4), of False] by (simp add: block_def)
  moreover have "plain (block op body [cl])" using assms(1,3) by (simp add: block_def lines_in_plain)
  ultimately show ?thesis using assms(5,6) by (simp add: texts_in_def render_texts blanks_def)
qed

lemma doc_texts:
  assumes "plain d" "lexes_in (flow d) R False" "flow d \<noteq> []" "\<not> blank (last (flow d))"
    and "blanks indent" "blanks (indentation_str env)"
  shows "texts_in (render_doc env d indent) R False"
  using lexes_in_texts_in[OF assms(2-4)] assms(1,5,6) by (simp add: texts_in_def render_texts blanks_def)

lemma lexes_in_open_bracket: "bracket b \<Longrightarrow> lexes_in s A op \<Longrightarrow> lexes_in (b # s) (seq {[[b]]} A) op"
  using lexes_in_bracket[of "[]" "{[]}" s A op b] by simp

lemma lexes_in_close_bracket: "bracket b \<Longrightarrow> lexes_in s A False \<Longrightarrow> lexes_in (s @ [b]) (seq A {[[b]]}) op"
  using lexes_in_bracket[of s A "[]" "{[]}" op b] by simp

lemma lexes_in_word: "word w \<Longrightarrow> lexes_in w {[w]} op"
  using lexes_in_open[OF texts_in_lexes_in, of w "{[w]}" False op] word_texts by (simp add: texts_in_def)

lemma lexes_in_space_end: "lexes_in s A op \<Longrightarrow> lexes_in (s @ '' '') A op"
  by (rule lexes_in_trailing_blanks) simp_all

section \<open>The contract of the recursion\<close>

locale formatter_calls =
  fixes env :: settings and c :: calls and I :: "aggregator \<Rightarrow> bool" and child :: "pse \<Rightarrow> bool"
  assumes layout: "I agg \<Longrightarrow> blanks (indentation_str env) \<and> names_ok env"
    and child_ok: "child e \<Longrightarrow> expr_ok env e"
    and child_list: "child e \<Longrightarrow> match_list e = Some its \<Longrightarrow> x \<in> set its \<Longrightarrow> child x"
    and child_tuple: "child e \<Longrightarrow> pre_expr e = TupleExpr its \<Longrightarrow> x \<in> set its \<Longrightarrow> child x"
    and exprs: "child e \<Longrightarrow> blanks ind \<Longrightarrow> gives I (call_exprs c [e] ind) (reads env e)"
    and display: "child e \<Longrightarrow> blanks ind \<Longrightarrow>
      gives I (call_display c e ind) (\<lambda>s. reads env e s \<and> (is_comment e \<longrightarrow> starts_with (CHR '';'') s))"
    and display_exact: "child e \<Longrightarrow> blanks ind \<Longrightarrow> pre_expr e \<in> {Atom w, AtomValue (IntValue w)} \<Longrightarrow>
      gives I (call_display c e ind) (\<lambda>s. s = w)"
    and preserve: "child e \<Longrightarrow> blanks ind \<Longrightarrow> gives I (call_preserve c e ind) (reads env e)"
    and ignored: "child e \<Longrightarrow> gives I (cache_ignored_expression env e) (\<lambda>_. True)"
begin

lemma gives_layout:
  "(blanks (indentation_str env) \<Longrightarrow> names_ok env \<Longrightarrow> gives I m P) \<Longrightarrow> gives I m P"
  using layout by (auto simp: gives_def)

lemma check_ignored:
  "(\<And>n. next_expr = Some n \<Longrightarrow> child n) \<Longrightarrow> gives I (check_and_cache_ignored env e next_expr) (\<lambda>_. True)"
  by (auto simp: check_and_cache_ignored_def ignored split: option.split)

lemma peek_child: "list_all child es \<Longrightarrow> peek es = Some n \<Longrightarrow> child n"
  by (cases es) auto

lemma push_trailing:
  assumes "\<And>x. trailing = Some x \<Longrightarrow> child x \<and> is_comment x" "blanks ind"
  shows "gives I (push_trailing_comment c trailing ind) (\<lambda>ds. list_all plain ds \<and>
    (\<forall>a A. lexes_in a A (trailing = None) \<longrightarrow>
       lexes_in (a @ flows ds) (seq A (all_readings env (opt_list trailing))) True))"
proof (cases trailing)
  case (Some x)
  with assms have x: "child x" "is_comment x" by auto
  show ?thesis unfolding push_trailing_comment_def Some option.case
    by (rule gives_bind[OF display[OF x(1) assms(2)]])
      (use x in \<open>auto simp: Some reads_def dest!: texts_in_lexes_in intro: lexes_in_space\<close>)
qed (auto simp: push_trailing_comment_def intro: lexes_in_open)

lemma with_trailing_step:
  assumes "get_trailing_comment e rest = (trailing, iter)" "siblings_ok (e # rest)" "child e" "list_all child rest"
  shows "list_all child iter" "siblings_ok iter" "\<And>x. trailing = Some x \<Longrightarrow> child x \<and> is_comment x"
    and "rest = opt_list trailing @ iter" "is_comment e \<Longrightarrow> trailing = None"
proof -
  consider "trailing = None" "iter = rest"
    | x where "trailing = Some x" "rest = x # iter" "is_comment x" "\<not> is_comment e"
    using trailing_comment_cases[OF assms(1,2) child_ok[OF assms(3)]] by blast
  moreover have "siblings_ok rest" by (rule siblings_ok_Cons[OF assms(2)])
  ultimately have "list_all child iter \<and> siblings_ok iter \<and> (\<forall>x. trailing = Some x \<longrightarrow> child x \<and> is_comment x) \<and>
      rest = opt_list trailing @ iter \<and> (is_comment e \<longrightarrow> trailing = None)"
    by (cases; use assms(4) siblings_ok_Cons[of _ iter] in auto)
  then show "list_all child iter" "siblings_ok iter" "\<And>x. trailing = Some x \<Longrightarrow> child x \<and> is_comment x"
      "rest = opt_list trailing @ iter" "is_comment e \<Longrightarrow> trailing = None"
    by blast+
qed

lemma lines_loop_gives:
  "list_all child es \<Longrightarrow> siblings_ok es \<Longrightarrow> blanks ind \<Longrightarrow>
     gives I (lines_loop env c ind keep prev (with_trailing es)) (\<lambda>ds. lines_in ds (all_readings env es))"
proof (induction es arbitrary: prev rule: with_trailing.induct)
  case (2 e rest)
  obtain trailing iter where tr: "get_trailing_comment e rest = (trailing, iter)" by force
  have e: "child e" "list_all child rest" using 2 by auto
  note step = with_trailing_step[OF tr 2(3) e]
  have IH: "gives I (lines_loop env c ind keep p (with_trailing iter)) (\<lambda>ds. lines_in ds (all_readings env iter))" for p
    using 2(1)[OF tr[symmetric]] step 2(4) by blast
  show ?case unfolding with_trailing.simps tr prod.case lines_loop.simps
  proof (intro gives_bind[OF check_ignored] gives_bind[OF exprs[OF e(1) 2(4)]]
      gives_bind[OF push_trailing[OF step(3) 2(4)]] gives_bind[OF IH])
    fix tx comment_parts parts
    assume *: "reads env e tx" "list_all plain comment_parts \<and> (\<forall>a A. lexes_in a A (trailing = None) \<longrightarrow>
        lexes_in (a @ flows comment_parts) (seq A (all_readings env (opt_list trailing))) True)"
      "lines_in parts (all_readings env iter)"
    have "lexes_in (tx @ flows comment_parts) (seq (readings env e) (all_readings env (opt_list trailing))) True"
      using * reads_lexes[of env e tx] step(5) lexes_in_open by blast
    then have "lines_in (line_break prev e # (Verbatim tx # comment_parts) @ parts)
        (seq (seq (readings env e) (all_readings env (opt_list trailing))) (all_readings env iter))"
      using * by (intro lines_in_Cons line_break_cases) auto
    then show "gives I (fmt_return ([line_break prev e, Verbatim tx] @ comment_parts @ parts))
        (\<lambda>ds. lines_in ds (all_readings env (e # rest)))"
      by (simp add: step(4))
  qed (use step(1) peek_child in auto)
qed (simp add: lines_in_Nil)

lemma lines_doc_gives:
  "list_all child es \<Longrightarrow> siblings_ok es \<Longrightarrow> blanks ind \<Longrightarrow>
     gives I (lines_doc env c es ind keep) (\<lambda>ds. lines_in ds (all_readings env es))"
  unfolding lines_doc_def by (rule lines_loop_gives)

lemma body_loop_gives:
  "list_all child es \<Longrightarrow> blanks ind \<Longrightarrow>
     gives I (body_loop env c ind prev es) (\<lambda>ds. lines_in ds (all_readings env es))"
proof (induction es arbitrary: prev)
  case (Cons e rest)
  then have IH: "gives I (body_loop env c ind p rest) (\<lambda>ds. lines_in ds (all_readings env rest))" for p by simp
  have e: "child e" "list_all child rest" using Cons.prems by auto
  show ?case unfolding body_loop.simps
  proof (intro gives_bind[OF check_ignored] gives_bind[OF exprs[OF e(1) Cons.prems(2)]] gives_bind[OF IH])
    fix tx parts
    assume "reads env e tx" "lines_in parts (all_readings env rest)"
    then show "gives I (fmt_return ([line_break prev e, Verbatim tx] @ parts)) (\<lambda>ds. lines_in ds (all_readings env (e # rest)))"
      using lines_in_Cons[OF line_break_cases, of "[Verbatim tx]" "readings env e" parts "all_readings env rest" prev e]
      by (auto dest!: reads_lexes intro: lexes_in_open)
  qed (use e(2) peek_child in auto)
qed (simp add: lines_in_Nil)

lemma function_body_gives:
  "list_all child es \<Longrightarrow> blanks ind \<Longrightarrow>
     gives I (function_body_loop env c ind es) (\<lambda>ds. lines_in ds (all_readings env es))"
proof (induction es)
  case (Cons e rest)
  then have IH: "gives I (function_body_loop env c ind rest) (\<lambda>ds. lines_in ds (all_readings env rest))" by simp
  have e: "child e" "list_all child rest" using Cons.prems by auto
  show ?case unfolding function_body_loop.simps
  proof (intro gives_bind[OF check_ignored] gives_bind[OF exprs[OF e(1) Cons.prems(2)]] gives_bind[OF IH])
    fix tx parts
    assume "reads env e tx" "lines_in parts (all_readings env rest)"
    then show "gives I (fmt_return ([Hardline, Verbatim tx] @ parts)) (\<lambda>ds. lines_in ds (all_readings env (e # rest)))"
      using Hardline_Cons[of "[Verbatim tx]" "readings env e" parts "all_readings env rest"]
      by (auto dest!: reads_lexes intro: lexes_in_open)
  qed (use e(2) peek_child in auto)
qed (simp add: lines_in_Nil)

lemma body_doc_gives:
  assumes "list_all child es" "blanks ind"
  shows "gives I (body_doc env c es ind) (\<lambda>d. plain d \<and> tails (flow d) (all_readings env es))"
  unfolding body_doc_def
  by (rule gives_bind[OF body_loop_gives[OF assms]]) (auto dest: lines_in_plain lines_in_tails)

lemma inline_parts_gives:
  "list_all child es \<Longrightarrow> \<not> contains_comments es \<Longrightarrow> blanks ind \<Longrightarrow>
     gives I (inline_parts env c ind bare es) (\<lambda>ds. list_all plain ds \<and>
       (\<forall>a A. lexes_in a A False \<longrightarrow>
          lexes_in (a @ (if bare then '' '' else []) @ flows ds) (seq A (all_readings env es)) False))"
proof (induction es arbitrary: bare)
  case (Cons e rest)
  then have IH: "gives I (inline_parts env c ind False rest) (\<lambda>ds. list_all plain ds \<and>
      (\<forall>a A. lexes_in a A False \<longrightarrow> lexes_in (a @ flows ds) (seq A (all_readings env rest)) False))"
    using Cons.IH[of False] by (simp add: contains_comments_def)
  have e: "child e" "\<not> is_comment e" using Cons.prems by (auto simp: contains_comments_def)
  show ?case unfolding inline_parts.simps
  proof (intro gives_bind[OF exprs[OF e(1) Cons.prems(3)]] gives_bind[OF IH] gives_return conjI allI impI)
    fix tx parts a A
    assume *: "reads env e tx" "list_all plain parts \<and>
        (\<forall>a A. lexes_in a A False \<longrightarrow> lexes_in (a @ flows parts) (seq A (all_readings env rest)) False)"
      "lexes_in a A False"
    have "lexes_in (a @ CHR '' '' # tx) (seq A (readings env e)) False"
      using *(1,3) e(2) by (auto dest!: reads_lexes intro: lexes_in_space)
    then have "lexes_in ((a @ CHR '' '' # tx) @ flows parts) (seq (seq A (readings env e)) (all_readings env rest)) False"
      using *(2) by blast
    then show "lexes_in (a @ (if bare then '' '' else []) @ flows ((if bare then [] else [Text '' '']) @ [Verbatim tx] @ parts))
        (seq A (all_readings env (e # rest))) False" by simp
  qed auto
qed (auto intro: lexes_in_space_end)

section \<open>Layouts of forms\<close>

text \<open>The opening bracket and the name of a form.\<close>

lemma lexes_in_head:
  "reads env first tx \<Longrightarrow> \<not> is_comment first \<Longrightarrow> lexes_in (CHR ''('' # tx) (seq {[''('']} (readings env first)) op"
  using lexes_in_open[OF reads_lexes] by (intro lexes_in_open_bracket) auto

lemma atom_not_comment: "match_atom e = Some name \<Longrightarrow> \<not> is_comment e"
  by (auto simp: match_atom_def is_comment_def split: pre_expr.splits)

lemma form_parts:
  assumes "list_all child es" "siblings_ok es" "es = first # args" "match_atom first = Some name"
  shows "child first" "\<not> is_comment first" "list_all child args" "siblings_ok args" "drop 1 es = args"
    "es ! 0 = first" "0 < length es"
  using assms siblings_ok_Cons[of first args] atom_not_comment[of first] by auto

lemma lines_block:
  assumes "list_all child args" "siblings_ok args" "plain op" "lexes_in (flow op) A True" "blanks ind"
  shows "gives I (bind_fmt (lines_doc env c args (indented env ind) keep)
           (\<lambda>body. fmt_return (render_doc env (block op body '')'') ind)))
         (\<lambda>s. texts_in s (seq A (seq (all_readings env args) {['')'']})) False)"
proof (rule gives_layout)
  assume l: "blanks (indentation_str env)"
  with assms(5) have "blanks (indented env ind)" by (simp add: indented_def)
  from lines_doc_gives[OF assms(1,2) this] show ?thesis
    by (rule gives_bind) (use assms l in \<open>auto intro: block_texts\<close>)
qed

lemma inline_form:
  assumes "list_all child args" "\<not> contains_comments args" "lexes_in head A False" "blanks ind"
  shows "gives I (bind_fmt (inline_parts env c ind bare args)
           (\<lambda>parts. fmt_return (render_doc env
              (Concat ([Text (head @ (if bare then '' '' else []))] @ parts @ [Text '')''])) ind)))
         (\<lambda>s. texts_in s (seq A (seq (all_readings env args) {['')'']})) False)"
proof (rule gives_layout, rule gives_bind[OF inline_parts_gives[OF assms(1,2,4)]], rule gives_return)
  fix parts
  assume l: "blanks (indentation_str env)"
  assume parts: "list_all plain parts \<and> (\<forall>a A. lexes_in a A False \<longrightarrow>
    lexes_in (a @ (if bare then '' '' else []) @ flows parts) (seq A (all_readings env args)) False)"
  have "lexes_in ((head @ (if bare then '' '' else []) @ flows parts) @ '')'')
      (seq (seq A (all_readings env args)) {['')'']}) False"
    using parts assms(3) by (intro lexes_in_close_bracket) auto
  then show "texts_in (render_doc env (Concat ([Text (head @ (if bare then '' '' else []))] @ parts @ [Text '')''])) ind)
      (seq A (seq (all_readings env args) {['')'']})) False"
    using parts assms(4) l by (intro doc_texts) (auto simp: blank_def)
qed

text \<open>After the first expression of a form is displayed.\<close>

lemma gives_head:
  assumes "list_all child es" "siblings_ok es" "es = first # args" "match_atom first = Some name" "blanks ind"
    and "\<And>tx. (\<And>op. lexes_in (CHR ''('' # tx) (seq {[''('']} (readings env first)) op) \<Longrightarrow> gives I (f tx) P"
  shows "gives I (bind_fmt (nth_expr es 0) (\<lambda>first. bind_fmt (call_display c first ind) f)) P"
proof (intro gives_bind[OF nth_expr_gives])
  note parts = form_parts[OF assms(1-4)]
  show "0 < length es" by (rule parts)
  fix e assume "e = es ! 0"
  then have e: "e = first" by (simp add: parts)
  show "gives I (bind_fmt (call_display c e ind) f) P" unfolding e
    by (rule gives_bind[OF display[OF parts(1) assms(5)]], rule assms(6), rule lexes_in_head) (use parts(2) in auto)
qed

lemma format_constant_reads:
  assumes es: "list_all child es" "siblings_ok es" "es = first # args" "match_atom first = Some name" and ind: "blanks ind"
  shows "gives I (format_constant env c es ind) (\<lambda>s. texts_in s (list_reading env es) False)"
  unfolding format_constant_def
proof (rule gives_head[OF es])
  fix tx assume head: "\<And>op. lexes_in (CHR ''('' # tx) (seq {[''('']} (readings env first)) op"
  note parts = form_parts[OF es]
  show "gives I (if contains_comments (drop 1 es)
        then bind_fmt (lines_doc env c (drop 1 es) (indented env ind) False)
               (\<lambda>body. fmt_return (render_doc env (block (Text (''('' @ tx)) body '')'') ind))
        else bind_fmt (inline_parts env c ind True (drop 1 es))
               (\<lambda>parts. fmt_return (render_doc env (Concat ([Text (''('' @ tx @ '' '')] @ parts @ [Text '')''])) ind)))
      (\<lambda>s. texts_in s (list_reading env es) False)"
    using lines_block[OF parts(3,4), of "Text (''('' @ tx)" "seq {[''('']} (readings env first)" ind False] head ind
      inline_form[OF parts(3), of "''('' @ tx" "seq {[''('']} (readings env first)" ind True]
    by (auto simp: parts(5) es(3) list_reading_def)
qed simp

lemma format_begin_reads:
  assumes es: "list_all child es" "siblings_ok es" "es = first # args" "match_atom first = Some ''begin''" and ind: "blanks ind"
  shows "gives I (format_begin env c es ind) (\<lambda>s. texts_in s (list_reading env es) False)"
proof -
  note parts = form_parts[OF es]
  have head: "lexes_in ''(begin'' (seq {[''('']} (readings env first)) True"
    unfolding readings_atom[OF es(4)] by (rule lexes_in_open_bracket[of "CHR ''(''" "''begin''"])
      (auto intro: lexes_in_word simp: word_def separator_def blank_def bracket_def)
  show ?thesis unfolding format_begin_def
    by (rule gives_bind[OF exprs_from_gives])
      (use lines_block[OF parts(3,4), of "Text ''(begin''" "seq {[''('']} (readings env first)" ind True] head ind es(3) in \<open>auto simp: list_reading_def\<close>)
qed

lemma format_if_reads:
  assumes es: "list_all child es" "siblings_ok es" "es = first # args" "match_atom first = Some name" and ind: "blanks ind"
  shows "gives I (format_if env c es ind) (\<lambda>s. texts_in s (list_reading env es) False)"
  unfolding format_if_def
proof (rule gives_layout, rule gives_head[OF es ind])
  assume l: "blanks (indentation_str env)"
  fix tx assume head: "\<And>op. lexes_in (CHR ''('' # tx) (seq {[''('']} (readings env first)) op"
  note parts = form_parts[OF es]
  show "gives I (bind_fmt (lines_doc env c (drop 1 es) (indented env ind) True) (\<lambda>body.
      let body' = (case body of [] \<Rightarrow> [] | first_break # parts \<Rightarrow> Text '' '' # parts)
      in fmt_return (render_doc env (block (Text (''('' @ tx)) body' '')'') ind)))
      (\<lambda>s. texts_in s (list_reading env es) False)"
    unfolding parts(5) Let_def
  proof (rule gives_bind[OF lines_doc_gives[OF parts(3,4)]])
    fix body assume body: "lines_in body (all_readings env args)"
    let ?body = "case body of [] \<Rightarrow> [] | first_break # parts \<Rightarrow> Text '' '' # parts"
    have "lexes_in (CHR ''('' # tx @ flows ?body) (seq (seq {[''('']} (readings env first)) (all_readings env args)) True"
      using body lexes_in_space[OF head[of False], of _ "all_readings env args" True]
        lexes_in_mono[OF head[of True] seq_absorb(1)[of "all_readings env args"]]
      by (auto simp: lines_in_def split: list.splits)
    then have "texts_in (flow (block (Text (''('' @ tx)) ?body '')'')) (list_reading env es) False"
      using tails_close[of "CHR ''('' # tx @ flows ?body" "seq (seq {[''('']} (readings env first)) (all_readings env args)"
          "[]" "{[]}" "CHR '')''" False]
      by (simp add: block_def list_reading_def es(3) tails_Nil)
    moreover have "plain (block (Text (''('' @ tx)) ?body '')'')"
      using lines_in_plain[OF body] by (cases body) (simp_all add: block_def)
    ultimately show "gives I (fmt_return (render_doc env (block (Text (''('' @ tx)) ?body '')'') ind))
        (\<lambda>s. texts_in s (list_reading env es) False)"
      using ind l by (auto simp: texts_in_def render_texts blanks_def)
  qed (use ind l in \<open>simp add: indented_def\<close>)
qed

lemma format_map_reads:
  assumes es: "list_all child es" "siblings_ok es" "es = first # args" "match_atom first = Some name" and ind: "blanks ind"
    and args: "args \<noteq> []"
  shows "gives I (format_map env c es ind) (\<lambda>s. texts_in s (list_reading env es) False)"
  unfolding format_map_def
proof (rule gives_head[OF es])
  note parts = form_parts[OF es]
  obtain nm rest where nm: "args = nm # rest" using args by (cases args) auto
  then have children: "child nm" "list_all child rest" "siblings_ok rest"
    using parts(3,4) siblings_ok_Cons[of nm rest] by auto
  fix tx assume head: "\<And>op. lexes_in (CHR ''('' # tx) (seq {[''('']} (readings env first)) op"
  show "gives I (bind_fmt (nth_expr es 1) (\<lambda>name_expr. bind_fmt (call_exprs c [name_expr] ind) (\<lambda>name.
      bind_fmt (exprs_from es 2) (\<lambda>rest. bind_fmt (lines_doc env c rest (indented env ind) False) (\<lambda>body.
      fmt_return (render_doc env (block (Concat [Text (''('' @ tx @ '' ''), Verbatim name]) body '')'') ind))))))
      (\<lambda>s. texts_in s (list_reading env es) False)"
  proof (rule gives_bind[OF nth_expr_gives])
    fix e assume "e = es ! 1"
    then have e: "e = nm" by (simp add: es(3) nm)
    show "gives I (bind_fmt (call_exprs c [e] ind) (\<lambda>name.
      bind_fmt (exprs_from es 2) (\<lambda>rest. bind_fmt (lines_doc env c rest (indented env ind) False) (\<lambda>body.
      fmt_return (render_doc env (block (Concat [Text (''('' @ tx @ '' ''), Verbatim name]) body '')'') ind)))))
      (\<lambda>s. texts_in s (list_reading env es) False)"
      unfolding e
    proof (rule gives_bind[OF exprs[OF children(1) ind]], rule gives_bind[OF exprs_from_gives])
      fix name_text rest' assume name_text: "reads env nm name_text" and "rest' = drop 2 es"
      then have rest': "rest' = rest" by (simp add: es(3) nm)
      have "lexes_in ((CHR ''('' # tx) @ CHR '' '' # name_text)
          (seq (seq {[''('']} (readings env first)) (readings env nm)) True"
        using head[of False] lexes_in_open[OF reads_lexes[OF name_text]] by (intro lexes_in_space) auto
      then show "gives I (bind_fmt (lines_doc env c rest' (indented env ind) False) (\<lambda>body.
          fmt_return (render_doc env (block (Concat [Text (''('' @ tx @ '' ''), Verbatim name_text]) body '')'') ind)))
        (\<lambda>s. texts_in s (list_reading env es) False)"
        using lines_block[OF children(2,3), of "Concat [Text (''('' @ tx @ '' ''), Verbatim name_text]"
            "seq (seq {[''('']} (readings env first)) (readings env nm)" ind False] ind
        by (simp add: es(3) nm rest' list_reading_def)
    qed (simp add: es(3) nm)
  qed (simp add: es(3) nm)
qed simp

lemma booleans_fit_gives:
  "list_all child args \<Longrightarrow> blanks ind \<Longrightarrow> gives I (booleans_fit_loop env c ind w args) (\<lambda>_. True)"
proof (induction args arbitrary: w)
  case (Cons a args)
  then show ?case by (auto intro!: gives_bind[OF exprs])
qed simp

lemma format_booleans_reads:
  assumes es: "list_all child es" "siblings_ok es" "es = first # args" "match_atom first = Some name" and ind: "blanks ind"
  shows "gives I (format_booleans env c es ind) (\<lambda>s. texts_in s (list_reading env es) False)"
  unfolding format_booleans_def
proof (rule gives_head[OF es ind])
  note parts = form_parts[OF es]
  fix tx assume head: "\<And>op. lexes_in (CHR ''('' # tx) (seq {[''('']} (readings env first)) op"
  let ?decide = "if BOOLEAN_BREAK_LIMIT < without_comments_len args \<or> contains_comments args
      then fmt_return True
      else bind_fmt (booleans_fit_on_one_line env c tx args ind) (\<lambda>fit. fmt_return (\<not> fit))"
  have decide: "gives I ?decide (\<lambda>break_up. contains_comments args \<longrightarrow> break_up)"
    using parts(3) ind by (auto simp: booleans_fit_on_one_line_def intro!: gives_bind[OF booleans_fit_gives])
  show "gives I (bind_fmt
      (if BOOLEAN_BREAK_LIMIT < without_comments_len (drop 1 es) \<or> contains_comments (drop 1 es)
       then fmt_return True
       else bind_fmt (booleans_fit_on_one_line env c tx (drop 1 es) ind) (\<lambda>fit. fmt_return (\<not> fit)))
      (\<lambda>break_up. if break_up
         then bind_fmt (lines_doc env c (drop 1 es) (indented env ind) True)
                (\<lambda>body. fmt_return (render_doc env (block (Text (''('' @ tx)) body '')'') ind))
         else bind_fmt (inline_parts env c ind False (drop 1 es))
                (\<lambda>parts. fmt_return (render_doc env (Concat ([Text (''('' @ tx)] @ parts @ [Text '')''])) ind))))
      (\<lambda>s. texts_in s (list_reading env es) False)"
    unfolding parts(5)
    by (rule gives_bind[OF decide])
      (use lines_block[OF parts(3,4), of "Text (''('' @ tx)" "seq {[''('']} (readings env first)" ind True] head ind
        inline_form[OF parts(3), of "''('' @ tx" "seq {[''('']} (readings env first)" ind False] in
       \<open>auto simp: es(3) list_reading_def\<close>)
qed

lemma nested_list_gives:
  assumes "list_all child es" "siblings_ok es" "blanks ind"
  shows "gives I (nested_list_doc env c es ind) (\<lambda>d. plain d \<and>
    (\<forall>a A. lexes_in a A True \<longrightarrow> lexes_in (a @ flow d) (seq A (seq (all_readings env es) {['')'']})) False))"
proof (rule gives_layout)
  assume l: "blanks (indentation_str env)"
  show ?thesis unfolding nested_list_doc_def
  proof (rule gives_bind[OF lines_doc_gives[OF assms(1,2)]])
    fix ds assume ds: "lines_in ds (all_readings env es)"
    have "lexes_in (a @ flows ds @ [newline, CHR '')'']) (seq A (seq (all_readings env es) {['')'']})) False"
      if "lexes_in a A True" for a A
      using tails_close[OF that lines_in_tails[OF ds], of "CHR '')''" False] by (simp add: texts_in_lexes_in)
    then show "gives I (fmt_return (Indent (Concat [Indent (Concat ds), Hardline, Text '')'']))) (\<lambda>d. plain d \<and>
        (\<forall>a A. lexes_in a A True \<longrightarrow> lexes_in (a @ flow d) (seq A (seq (all_readings env es) {['')'']})) False))"
      using lines_in_plain[OF ds] by auto
  qed (use l assms(3) in \<open>simp add: indented_def\<close>)
qed

text \<open>A form that ends with a body of lines.\<close>

lemma body_close:
  assumes "plain d" "tails (flow d) B" "list_all plain pre" "lexes_in (flows pre) A True" "blanks ind" "blanks (indentation_str env)"
  shows "texts_in (render_doc env (Concat (pre @ [d, Hardline, Text '')''])) ind) (seq A (seq B {['')'']})) False"
proof -
  have "texts_in (flow (Concat (pre @ [d, Hardline, Text '')'']))) (seq A (seq B {['')'']})) False"
    using tails_close[OF assms(4,2), of "CHR '')''" False] by simp
  then show ?thesis using assms by (simp add: texts_in_def render_texts blanks_def)
qed

lemma lexes_in_open_list: "lexes_in a A False \<Longrightarrow> lexes_in (a @ '' ('') (seq A {[''('']}) op"
  using lexes_in_space[of a A "''(''" "{[''('']}" op] lexes_in_open_bracket[of "CHR ''(''" "[]" "{[]}" op] by simp

lemma let_bindings_gives:
  assumes "child bindings" "bindings_ok bindings" "blanks ind" "lexes_in a A False"
  shows "gives I
    (case match_list bindings of
       None \<Rightarrow> fmt_return []
     | Some [arg] \<Rightarrow> bind_fmt (call_exprs c [arg] ind) (\<lambda>text. fmt_return [Verbatim text, Text '')''])
     | Some args \<Rightarrow> bind_fmt (nested_list_doc env c args ind) (\<lambda>d. fmt_return [d]))
    (\<lambda>ds. list_all plain ds \<and> lexes_in (a @ '' ('' @ flows ds) (seq A (readings env bindings)) True)"
proof -
  obtain args where args: "match_list bindings = Some args" "length args = 1 \<Longrightarrow> \<not> is_comment (hd args)"
    using assms(2) by (auto simp: bindings_ok_def split: option.splits)
  have children: "list_all child args" using child_list[OF assms(1) args(1)] by (simp add: list_all_iff)
  have sib: "siblings_ok args"
    using child_ok[OF assms(1)] args(1) by (auto simp: expr_ok_def list_ok_def match_list_def split: pre_expr.splits)
  have sub: "seq A (list_reading env args) \<subseteq> seq A (readings env bindings)"
    by (auto simp: readings_list[OF args(1)] list_reading_def all_readings_def seq_def)
  note head = lexes_in_open_list[OF assms(4)]
  show ?thesis
  proof (cases "\<exists>arg. args = [arg]")
    case True
    then obtain arg where arg: "args = [arg]" by blast
    have "lexes_in (a @ '' ('' @ tx @ '')'') (seq A (readings env bindings)) True" if "reads env arg tx" for tx
    proof -
      have "lexes_in ((a @ '' '') @ CHR ''('' # tx) (seq A (seq {[''('']} (readings env arg))) False"
        using lexes_in_space_end[OF assms(4)] reads_lexes[OF that] args(2) arg by (intro lexes_in_bracket) auto
      then have "lexes_in (((a @ '' '') @ CHR ''('' # tx) @ '')'') (seq (seq A (seq {[''('']} (readings env arg))) {['')'']}) True"
        by (intro lexes_in_close_bracket) auto
      from lexes_in_mono[OF this] sub show ?thesis by (simp add: arg list_reading_def)
    qed
    then show ?thesis using exprs[of arg ind] children assms(3)
      by (auto simp: args(1) arg intro!: gives_bind[OF exprs])
  next
    case False
    have "gives I (bind_fmt (nested_list_doc env c args ind) (\<lambda>d. fmt_return [d]))
      (\<lambda>ds. list_all plain ds \<and> lexes_in (a @ '' ('' @ flows ds) (seq A (readings env bindings)) True)"
    proof (rule gives_bind[OF nested_list_gives[OF children sib assms(3)]])
      fix d assume d: "plain d \<and> (\<forall>a A. lexes_in a A True \<longrightarrow>
          lexes_in (a @ flow d) (seq A (seq (all_readings env args) {['')'']})) False)"
      then have "lexes_in ((a @ '' ('') @ flow d) (seq (seq A {[''('']}) (seq (all_readings env args) {['')'']})) True"
        using head lexes_in_open by blast
      from lexes_in_mono[OF this] sub d show "gives I (fmt_return [d])
          (\<lambda>ds. list_all plain ds \<and> lexes_in (a @ '' ('' @ flows ds) (seq A (readings env bindings)) True)"
        by (auto simp: list_reading_def)
    qed
    then show ?thesis using False by (auto simp: args(1) split: list.split)
  qed
qed

lemma literal_word: "word w \<Longrightarrow> match_atom first = Some w \<Longrightarrow>
    lexes_in (CHR ''('' # w) (seq {[''('']} (readings env first)) op"
  by (simp add: readings_atom lexes_in_open_bracket lexes_in_word)

lemma form_words:
  "word ''let''" "word ''match''" "word ''begin''" "word ''restrict-assets?''" "word ''define-trait''" "word ''list''"
  by (simp_all add: word_def separator_def blank_def bracket_def)

lemma form_second:
  assumes "list_all child es" "siblings_ok es" "es = first # args" "match_atom first = Some name" "args \<noteq> []"
  obtains second rest where "args = second # rest" "child second" "list_all child rest" "siblings_ok rest"
    "es ! 1 = second" "1 < length es" "drop 2 es = rest" "2 \<le> length es"
proof -
  obtain second rest where "args = second # rest" using assms(5) by (cases args) auto
  with that form_parts[OF assms(1-4)] siblings_ok_Cons[of second rest] assms(3) show thesis by auto
qed

lemma format_let_reads:
  assumes es: "list_all child es" "siblings_ok es" "es = first # args" "match_atom first = Some ''let''" and ind: "blanks ind"
    and args: "args \<noteq> []" "bindings_ok (hd args)"
  shows "gives I (format_let env c es ind) (\<lambda>s. texts_in s (list_reading env es) False)"
proof (rule gives_layout)
  assume l: "blanks (indentation_str env)"
  obtain bindings body where p: "args = bindings # body" "child bindings" "list_all child body"
      "es ! 1 = bindings" "1 < length es" "drop 2 es = body"
    using form_second[OF es args(1)] by metis
  have nested: "blanks (indented env ind)" using ind l by (simp add: indented_def)
  note head = literal_word[OF form_words(1) es(4), of False]
  show ?thesis unfolding format_let_def Let_def
  proof (rule gives_bind[OF nth_expr_gives[OF p(5)]])
    fix e assume "e = es ! 1"
    then have e: "e = bindings" using p(4) by simp
    have "bindings_ok bindings" using args(2) by (simp add: p)
    note binds = let_bindings_gives[OF p(2) this nested head]
    show "gives I (bind_fmt
       (case match_list e of
          None \<Rightarrow> fmt_return []
        | Some [arg] \<Rightarrow> bind_fmt (call_exprs c [arg] (indented env ind)) (\<lambda>text. fmt_return [Verbatim text, Text '')''])
        | Some args \<Rightarrow> bind_fmt (nested_list_doc env c args (indented env ind)) (\<lambda>d. fmt_return [d]))
       (\<lambda>binding_parts. bind_fmt (body_doc env c (drop 2 es) (indented env ind)) (\<lambda>body.
          fmt_return (render_doc env (Concat ([Text ''(let (''] @ binding_parts @ [body, Hardline, Text '')''])) ind))))
       (\<lambda>s. texts_in s (list_reading env es) False)"
      unfolding e p(6)
    proof (rule gives_bind[OF binds], rule gives_bind[OF body_doc_gives[OF p(3) nested]], rule gives_return)
      fix ds d
      assume "list_all plain ds \<and>
          lexes_in ((CHR ''('' # ''let'') @ '' ('' @ flows ds) (seq (seq {[''('']} (readings env first)) (readings env bindings)) True"
        and "plain d \<and> tails (flow d) (all_readings env body)"
      then show "texts_in (render_doc env (Concat ([Text ''(let (''] @ ds @ [d, Hardline, Text '')''])) ind) (list_reading env es) False"
        using body_close[of d "all_readings env body" "Text ''(let ('' # ds"
            "seq (seq {[''('']} (readings env first)) (readings env bindings)" ind] ind l
        by (simp add: es(3) p(1) list_reading_def)
    qed
  qed
qed

lemma allowances_gives:
  assumes "list_all child rest" "rest \<noteq> [] \<longrightarrow> is_list (hd rest)" "blanks ind" "blanks nested" "lexes_in a A False"
  shows "gives I
    (case rest of
       [] \<Rightarrow> fmt_return []
     | allowances_list # _ \<Rightarrow>
         (case match_list allowances_list of
            None \<Rightarrow> fmt_return []
          | Some [_] \<Rightarrow> bind_fmt (call_exprs c [allowances_list] ind) (\<lambda>text. fmt_return [Text '' '', Verbatim text])
          | Some allowances \<Rightarrow> bind_fmt (nested_list_doc env c allowances nested) (\<lambda>d. fmt_return [Text '' ('', d])))
    (\<lambda>ds. list_all plain ds \<and> lexes_in (a @ flows ds) (seq A (all_readings env (take 1 rest))) True)"
proof (cases rest)
  case (Cons al rest')
  obtain args where args: "match_list al = Some args" using assms(2) by (auto simp: Cons is_list_def)
  have al: "child al" using assms(1) by (simp add: Cons)
  have children: "list_all child args" using child_list[OF al args] by (simp add: list_all_iff)
  have sib: "siblings_ok args"
    using child_ok[OF al] args by (auto simp: expr_ok_def list_ok_def match_list_def split: pre_expr.splits)
  have sub: "seq A (list_reading env args) \<subseteq> seq A (readings env al)"
    by (auto simp: readings_list[OF args] list_reading_def all_readings_def seq_def)
  show ?thesis
  proof (cases "\<exists>arg. args = [arg]")
    case True
    have "lexes_in (a @ CHR '' '' # tx) (seq A (readings env al)) True" if "reads env al tx" for tx
      using lexes_in_space[OF assms(5) lexes_in_open[OF reads_lexes[OF that], of True]] by simp
    with True show ?thesis by (auto simp: Cons args intro!: gives_bind[OF exprs[OF al assms(3)]])
  next
    case False
    have "gives I (bind_fmt (nested_list_doc env c args nested) (\<lambda>d. fmt_return [Text '' ('', d]))
      (\<lambda>ds. list_all plain ds \<and> lexes_in (a @ flows ds) (seq A (readings env al)) True)"
    proof (rule gives_bind[OF nested_list_gives[OF children sib assms(4)]])
      fix d assume d: "plain d \<and> (\<forall>a A. lexes_in a A True \<longrightarrow>
          lexes_in (a @ flow d) (seq A (seq (all_readings env args) {['')'']})) False)"
      then have "lexes_in ((a @ '' ('') @ flow d) (seq (seq A {[''('']}) (seq (all_readings env args) {['')'']})) True"
        using lexes_in_open_list[OF assms(5)] lexes_in_open by blast
      from lexes_in_mono[OF this] sub d show "gives I (fmt_return [Text '' ('', d])
          (\<lambda>ds. list_all plain ds \<and> lexes_in (a @ flows ds) (seq A (readings env al)) True)"
        by (auto simp: list_reading_def)
    qed
    then show ?thesis using False by (auto simp: Cons args split: list.split)
  qed
qed (use assms(5) in \<open>auto intro: lexes_in_open\<close>)

lemma format_restrict_assets_reads:
  assumes es: "list_all child es" "siblings_ok es" "es = first # args" "match_atom first = Some ''restrict-assets?''"
    and ind: "blanks ind"
    and args: "args \<noteq> []" "\<not> is_comment (hd args)" "tl args \<noteq> [] \<longrightarrow> is_list (args ! 1)"
  shows "gives I (format_restrict_assets env c es ind) (\<lambda>s. texts_in s (list_reading env es) False)"
proof (rule gives_layout)
  assume l: "blanks (indentation_str env)"
  obtain owner rest where p: "args = owner # rest" "child owner" "list_all child rest"
      "es ! 1 = owner" "1 < length es" "drop 2 es = rest"
    using form_second[OF es args(1)] by metis
  have drop3: "drop 3 es = drop 1 rest" using es(3) p(1) by (simp add: numeral_3_eq_3)
  have rest: "rest \<noteq> [] \<longrightarrow> is_list (hd rest)" using args(3) by (cases rest) (auto simp: p(1))
  have body: "list_all child (drop 1 rest)" using p(3) by (simp add: list_all_iff in_set_dropD)
  have nested: "blanks (indented env ind)" using ind l by (simp add: indented_def)
  note head = literal_word[OF form_words(4) es(4), of False]
  show ?thesis unfolding format_restrict_assets_def Let_def p(6) drop3
  proof (rule gives_bind[OF nth_expr_gives[OF p(5)]])
    fix e assume "e = es ! 1"
    then have e: "e = owner" using p(4) by simp
    let ?allowances = "case rest of
       [] \<Rightarrow> fmt_return []
     | allowances_list # _ \<Rightarrow>
         (case match_list allowances_list of
            None \<Rightarrow> fmt_return []
          | Some [_] \<Rightarrow> bind_fmt (call_exprs c [allowances_list] ind) (\<lambda>text. fmt_return [Text '' '', Verbatim text])
          | Some allowances \<Rightarrow> bind_fmt (nested_list_doc env c allowances (indented env ind)) (\<lambda>d. fmt_return [Text '' ('', d]))"
    show "gives I (bind_fmt (call_exprs c [e] ind) (\<lambda>owner. bind_fmt ?allowances (\<lambda>allowance_parts.
        bind_fmt (body_doc env c (drop 1 rest) (indented env ind)) (\<lambda>body.
        fmt_return (render_doc env (Concat ([Text ''(restrict-assets? '', Verbatim owner] @ allowance_parts @
          [body, Hardline, Text '')''])) ind)))))
      (\<lambda>s. texts_in s (list_reading env es) False)"
      unfolding e
    proof (rule gives_bind[OF exprs[OF p(2) ind]])
      fix tx assume "reads env owner tx"
      then have tx: "lexes_in ((CHR ''('' # ''restrict-assets?'') @ CHR '' '' # tx)
          (seq (seq {[''('']} (readings env first)) (readings env owner)) False"
        using head args(2) by (intro lexes_in_space) (auto simp: p(1) dest: reads_lexes)
      show "gives I (bind_fmt ?allowances (\<lambda>allowance_parts.
          bind_fmt (body_doc env c (drop 1 rest) (indented env ind)) (\<lambda>body.
          fmt_return (render_doc env (Concat ([Text ''(restrict-assets? '', Verbatim tx] @ allowance_parts @
            [body, Hardline, Text '')''])) ind))))
        (\<lambda>s. texts_in s (list_reading env es) False)"
      proof (rule gives_bind[OF allowances_gives[OF p(3) rest ind nested tx]],
          rule gives_bind[OF body_doc_gives[OF body nested]], rule gives_return)
        fix ds d
        assume ds: "list_all plain ds \<and> lexes_in (((CHR ''('' # ''restrict-assets?'') @ CHR '' '' # tx) @ flows ds)
            (seq (seq (seq {[''('']} (readings env first)) (readings env owner)) (all_readings env (take 1 rest))) True"
          and d: "plain d \<and> tails (flow d) (all_readings env (drop 1 rest))"
        have "list_reading env es = seq (seq (seq (seq {[''('']} (readings env first)) (readings env owner))
            (all_readings env (take 1 rest))) (seq (all_readings env (drop 1 rest)) {['')'']})"
          by (cases rest) (simp_all add: es(3) p(1) list_reading_def)
        then show "texts_in (render_doc env (Concat ([Text ''(restrict-assets? '', Verbatim tx] @ ds @ [d, Hardline, Text '')''])) ind)
            (list_reading env es) False"
          using body_close[of d "all_readings env (drop 1 rest)" "[Text ''(restrict-assets? '', Verbatim tx] @ ds"
              "seq (seq (seq {[''('']} (readings env first)) (readings env owner)) (all_readings env (take 1 rest))" ind]
            ds d ind l
          by simp
      qed
    qed
  qed
qed

lemma match_loop_gives:
  "list_all child es \<Longrightarrow> \<not> contains_comments es \<Longrightarrow> blanks ind \<Longrightarrow> blanks nested \<Longrightarrow>
     gives I (match_loop env c ind nested (match_passes es)) (\<lambda>ds. lines_in ds (all_readings env es))"
proof (induction es rule: match_passes.induct)
  case (2 branch rest)
  have b: "child branch" "\<not> is_comment branch" "list_all child rest" "\<not> contains_comments rest"
    using "2.prems" by (auto simp: contains_comments_def)
  have tr: "get_trailing_comment branch rest = (None, rest)"
    using b(4) by (cases rest) (auto simp: contains_comments_def)
  have line: "gives I (bind_fmt (check_and_cache_ignored env branch n) (\<lambda>_.
      bind_fmt (call_exprs c [branch] nested) (\<lambda>tx. bind_fmt more (\<lambda>parts.
      bind_fmt (push_trailing_comment c None ind) (\<lambda>comment_parts.
      bind_fmt (match_loop env c ind nested passes) (\<lambda>ds.
      fmt_return ([Hardline, Verbatim tx] @ parts @ comment_parts @ ds)))))))
      (\<lambda>ds. lines_in ds (seq (readings env branch) (seq B C)))"
    if n: "\<And>x. n = Some x \<Longrightarrow> child x"
      and more: "gives I more (\<lambda>parts. list_all plain parts \<and>
        (\<forall>a A. lexes_in a A False \<longrightarrow> lexes_in (a @ flows parts) (seq A B) False))"
      and ds: "gives I (match_loop env c ind nested passes) (\<lambda>ds. lines_in ds C)"
    for n more passes B C
  proof (intro gives_bind[OF check_ignored[OF n]] gives_bind[OF exprs[OF b(1) "2.prems"(4)]] gives_bind[OF more]
      gives_bind[OF push_trailing[OF _ "2.prems"(3)]] gives_bind[OF ds])
    fix tx parts comment_parts ds'
    assume tx: "reads env branch tx" and parts: "list_all plain parts \<and>
        (\<forall>a A. lexes_in a A False \<longrightarrow> lexes_in (a @ flows parts) (seq A B) False)"
      and comment_parts: "list_all plain comment_parts \<and> (\<forall>a A. lexes_in a A (None = None) \<longrightarrow>
       lexes_in (a @ flows comment_parts) (seq A (all_readings env (opt_list None))) True)"
      and ds': "lines_in ds' C"
    have "lexes_in (tx @ flows parts) (seq (readings env branch) B) False"
      using tx b(2) parts reads_lexes by force
    then have "lexes_in ((tx @ flows parts) @ flows comment_parts) (seq (readings env branch) B) True"
      using comment_parts lexes_in_open by fastforce
    then have "lines_in (Hardline # (Verbatim tx # parts @ comment_parts) @ ds') (seq (seq (readings env branch) B) C)"
      using parts comment_parts ds' by (intro Hardline_Cons) auto
    then show "gives I (fmt_return ([Hardline, Verbatim tx] @ parts @ comment_parts @ ds'))
        (\<lambda>ds. lines_in ds (seq (readings env branch) (seq B C)))" by simp
  qed simp_all
  show ?case
  proof (cases rest)
    case Nil
    then show ?thesis using line[of None "fmt_return []" "{[]}" "[]" "{[]}"] by (simp add: lines_in_Nil)
  next
    case (Cons e rest')
    have e: "child e" "\<not> is_comment e" "list_all child rest'" "\<not> contains_comments rest'"
      using b(3,4) by (auto simp: Cons contains_comments_def)
    have tr': "get_trailing_comment e rest' = (None, rest')"
      using e(4) by (cases rest') (auto simp: contains_comments_def)
    have binding: "gives I (bind_fmt (call_exprs c [e] nested) (\<lambda>expr_text.
        bind_fmt (push_trailing_comment c None ind) (\<lambda>comment_parts.
        fmt_return ([Text '' '', Verbatim expr_text] @ comment_parts)))) (\<lambda>parts. list_all plain parts \<and>
        (\<forall>a A. lexes_in a A False \<longrightarrow> lexes_in (a @ flows parts) (seq A (readings env e)) False))"
      using e(1,2) "2.prems"(4) unfolding push_trailing_comment_def option.case
      by (auto intro!: gives_bind[OF exprs] gives_bind[OF gives_return[where P = "\<lambda>ds. ds = []"]]
          dest!: reads_lexes intro: lexes_in_space)
    show ?thesis
    proof (cases "is_list branch")
      case True
      then have "gives I (match_loop env c ind nested (match_passes rest)) (\<lambda>ds. lines_in ds (all_readings env rest))"
        using "2.IH"(1)[OF tr[symmetric] Cons] b "2.prems" by simp
      from line[OF _ _ this, of "peek rest" "fmt_return []" "{[]}"]
      have "gives I (match_loop env c ind nested ((branch, None, peek rest, None) # match_passes rest))
          (\<lambda>ds. lines_in ds (all_readings env (branch # rest)))"
        using b(3) peek_child by (simp del: match_passes.simps)
      moreover have "match_passes (branch # rest) = (branch, None, peek rest, None) # match_passes rest"
        unfolding match_passes.simps tr prod.case using True by (simp add: Cons del: match_passes.simps)
      ultimately show ?thesis by (simp only:)
    next
      case False
      then have "gives I (match_loop env c ind nested (match_passes rest')) (\<lambda>ds. lines_in ds (all_readings env rest'))"
        using "2.IH"(2)[OF tr[symmetric] Cons _ tr'[symmetric]] e "2.prems" by simp
      from line[OF _ binding this, of "peek rest"]
      have "gives I (match_loop env c ind nested ((branch, None, peek rest, Some (e, None)) # match_passes rest'))
          (\<lambda>ds. lines_in ds (all_readings env (branch # rest)))"
        using b(3) peek_child by (simp add: Cons del: match_passes.simps)
      moreover have "match_passes (branch # rest) = (branch, None, peek rest, Some (e, None)) # match_passes rest'"
        unfolding match_passes.simps tr prod.case using False by (simp add: Cons tr' del: match_passes.simps)
      ultimately show ?thesis by (simp only:)
    qed
  qed
qed (simp add: lines_in_Nil)

lemma format_match_reads:
  assumes es: "list_all child es" "siblings_ok es" "es = first # args" "match_atom first = Some ''match''" and ind: "blanks ind"
    and args: "args \<noteq> []"
  shows "gives I (format_match env c es ind) (\<lambda>s. texts_in s (list_reading env es) False)"
proof (rule gives_layout)
  assume l: "blanks (indentation_str env)"
  obtain val rest where p: "args = val # rest" "child val" "list_all child rest" "siblings_ok rest"
      "es ! 1 = val" "1 < length es" "drop 2 es = rest" "2 \<le> length es"
    using form_second[OF es args(1)] by metis
  have nested: "blanks (indented env ind)" using ind l by (simp add: indented_def)
  have branches: "gives I (if contains_comments es then lines_doc env c rest (indented env ind) False
        else match_loop env c ind (indented env ind) (match_passes rest)) (\<lambda>ds. lines_in ds (all_readings env rest))"
    using lines_doc_gives[OF p(3,4) nested] match_loop_gives[OF p(3) _ ind nested]
    by (auto simp: es(3) p(1) contains_comments_def)
  show ?thesis unfolding format_match_def Let_def
  proof (rule gives_bind[OF nth_expr_gives[OF p(6)]])
    fix e assume "e = es ! 1"
    then have e: "e = val" using p(5) by simp
    show "gives I (bind_fmt (call_exprs c [e] ind) (\<lambda>match_value. bind_fmt (exprs_from es 2) (\<lambda>rest.
        bind_fmt (if contains_comments es then lines_doc env c rest (indented env ind) False
          else match_loop env c ind (indented env ind) (match_passes rest))
        (\<lambda>branch_parts. fmt_return (render_doc env
           (block (Concat [Text ''(match '', Verbatim match_value]) branch_parts '')'') ind)))))
      (\<lambda>s. texts_in s (list_reading env es) False)"
      unfolding e
    proof (rule gives_bind[OF exprs[OF p(2) ind]], rule gives_bind[OF exprs_from_gives[OF p(8)]])
      fix tx rest' assume tx: "reads env val tx" and "rest' = drop 2 es"
      then have rest': "rest' = rest" by (simp add: p(7))
      have head: "lexes_in ((CHR ''('' # ''match'') @ CHR '' '' # tx) (seq (seq {[''('']} (readings env first)) (readings env val)) True"
        using literal_word[OF form_words(2) es(4), of False] lexes_in_open[OF reads_lexes[OF tx]] by (intro lexes_in_space) auto
      show "gives I (bind_fmt (if contains_comments es then lines_doc env c rest' (indented env ind) False
          else match_loop env c ind (indented env ind) (match_passes rest'))
        (\<lambda>branch_parts. fmt_return (render_doc env (block (Concat [Text ''(match '', Verbatim tx]) branch_parts '')'') ind)))
        (\<lambda>s. texts_in s (list_reading env es) False)"
        unfolding rest'
        by (rule gives_bind[OF branches])
          (use block_texts[of "Concat [Text ''(match '', Verbatim tx]" _ _ "all_readings env rest" "CHR '')''" ind] head ind l
            in \<open>force simp: es(3) p(1) list_reading_def\<close>)
    qed
  qed
qed

end

end
