(* ===== verification/Format_Layouts.thy ===== *)
theory Format_Layouts
  imports Format_Calls
begin

text \<open>
  The layouts of function definitions, lists, tuples, traits and calls, under the contract of the
  recursion.
\<close>

lemma texts_in_newline: "texts_in s R op \<Longrightarrow> texts_in (s @ [newline]) R op"
  using texts_trim[of "[]" "[newline]" s] by (auto simp: texts_in_def)

context formatter_calls begin

section \<open>Functions\<close>

lemma next_comment_later:
  assumes "get_trailing_comment e rest = (trailing, iter)" "siblings_ok (e # rest)" "child e" "list_all child rest"
    and "iter = h # iter'" "is_comment h"
  shows "end_line (span_of (case trailing of Some x \<Rightarrow> x | None \<Rightarrow> e)) < start_line (span_of h)"
proof -
  consider "trailing = None" "rest = h # iter'" "end_line (span_of e) \<noteq> start_line (span_of h)"
    | x where "trailing = Some x" "rest = x # h # iter'" "is_comment x" "child x"
    using assms(1,4,5,6) by (cases rest) (auto split: if_splits)
  then show ?thesis
  proof cases
    case 1
    then show ?thesis using assms(2) comment_ok[OF child_ok[OF assms(3)]] by (auto split: if_splits)
  next
    case 2
    then show ?thesis using assms(2) comment_ok[OF child_ok[OF 2(4)]] by auto
  qed
qed

lemma args_loop_gives:
  "list_all child es \<Longrightarrow> siblings_ok es \<Longrightarrow> list_all (\<lambda>a. is_list a \<or> is_comment a) es \<Longrightarrow> blanks ind \<Longrightarrow>
     (prev = 0 \<or> (\<forall>h es'. es = h # es' \<longrightarrow> is_comment h \<longrightarrow> prev < start_line (span_of h))) \<Longrightarrow>
     gives I (args_loop env c ind prev (with_trailing es)) (\<lambda>ds. lines_in ds (all_readings env es))"
proof (induction es arbitrary: prev rule: with_trailing.induct)
  case (2 e rest)
  obtain trailing iter where tr: "get_trailing_comment e rest = (trailing, iter)" by force
  have e: "child e" "list_all child rest" using 2 by auto
  note step = with_trailing_step[OF tr 2(3) e]
  let ?prev = "end_line (span_of (case trailing of Some x \<Rightarrow> x | None \<Rightarrow> e))"
  have IH: "gives I (args_loop env c ind ?prev (with_trailing iter)) (\<lambda>ds. lines_in ds (all_readings env iter))"
    using 2(1)[OF tr[symmetric] step(1,2) _ 2(5)] next_comment_later[OF tr 2(3) e] 2(4) step(4) by auto
  have brk: "prev = 0 \<or> is_list e \<or> prev < start_line (span_of e)" using 2(4,6) by auto
  have blank_nil: "blanks []" by simp
  show ?case unfolding with_trailing.simps tr prod.case args_loop.simps if_P[OF brk]
  proof (intro gives_bind[OF check_ignored] gives_bind[OF exprs[OF e(1) 2(5)]]
      gives_bind[OF push_trailing[OF step(3) blank_nil]] gives_bind[OF IH])
    fix tx comment_parts parts
    assume *: "reads env e tx" "list_all plain comment_parts \<and> (\<forall>a A. lexes_in a A (trailing = None) \<longrightarrow>
        lexes_in (a @ flows comment_parts) (seq A (all_readings env (opt_list trailing))) True)"
      "lines_in parts (all_readings env iter)"
    have "lexes_in (tx @ flows comment_parts) (seq (readings env e) (all_readings env (opt_list trailing))) True"
      using * reads_lexes[of env e tx] step(5) lexes_in_open by blast
    then have "lines_in (Hardline # (Verbatim tx # comment_parts) @ parts)
        (seq (seq (readings env e) (all_readings env (opt_list trailing))) (all_readings env iter))"
      using * by (intro Hardline_Cons) auto
    then show "gives I (fmt_return ([Hardline] @ [Verbatim tx] @ comment_parts @ parts))
        (\<lambda>ds. lines_in ds (all_readings env (e # rest)))"
      by (simp add: step(4))
  qed (use step(1) peek_child in auto)
qed (simp add: lines_in_Nil)

lemma list_parts:
  assumes "child e" "match_list e = Some its"
  shows "list_all child its" "siblings_ok its" "list_reading env its \<subseteq> readings env e" "\<not> is_comment e"
  using child_list[OF assms] child_ok[OF assms(1)] assms(2)
  by (auto simp: list_all_iff expr_ok_def list_ok_def match_list_def is_comment_def readings_list[OF assms(2)]
      list_reading_def all_readings_def split: pre_expr.splits)

lemma signature_gives:
  assumes "child def" "match_list def = Some (name # args)" "signature_ok def" "lexes_in a A False"
  shows "gives I (signature_parts env c name args) (\<lambda>ds. list_all plain ds \<and>
    lexes_in (a @ '' ('' @ flows ds) (seq A (readings env def)) True)"
proof (rule gives_layout)
  assume l: "blanks (indentation_str env)"
  note parts = list_parts[OF assms(1,2)]
  have nm: "child name" "\<not> is_comment name" and args: "list_all child args" "siblings_ok args"
    and sig: "list_all (\<lambda>a. is_list a \<or> is_comment a) args" "length args = 1 \<longrightarrow> \<not> is_comment (hd args)"
    using parts(1,2) siblings_ok_Cons[of name args] assms(2,3) atom_not_comment[of name]
    by (auto simp: signature_ok_def)
  have sub: "seq A (list_reading env (name # args)) \<subseteq> seq A (readings env def)"
    using parts(3) by (auto simp: seq_def)
  have blank_nil: "blanks []" by simp
  show ?thesis unfolding signature_parts_def
  proof (rule gives_bind[OF display[OF nm(1) blank_nil]])
    fix tx assume "reads env name tx \<and> (is_comment name \<longrightarrow> starts_with (CHR '';'') tx)"
    then have "lexes_in tx (readings env name) op" for op
      using lexes_in_open[OF reads_lexes] nm(2) by blast
    then have head: "lexes_in ((a @ '' '') @ CHR ''('' # tx) (seq A (seq {[''('']} (readings env name))) op" for op
      using lexes_in_space_end[OF assms(4)] by (intro lexes_in_bracket) auto
    let ?rest = "bind_fmt (args_loop env c (indented env (indented env [])) 0 (with_trailing args))
        (\<lambda>arg_parts. fmt_return [Verbatim tx, Indent (Indent (Concat arg_parts)),
           if args = [] then Text '')'' else Indent (Concat [Hardline, Text '')''])])"
    let ?post = "\<lambda>ds. list_all plain ds \<and> lexes_in (a @ '' ('' @ flows ds) (seq A (readings env def)) True"
    have rest: "gives I ?rest ?post"
    proof (cases "args = []")
      case True
      from lexes_in_mono[OF lexes_in_close_bracket[OF _ head[of False], of "CHR '')''" True]] sub True
      show ?thesis by (auto simp: list_reading_def intro!: gives_bind[where P = "\<lambda>ds. ds = []"])
    next
      case False
      show ?thesis
      proof (rule gives_bind[OF args_loop_gives[OF args sig(1)]])
        fix ds assume ds: "lines_in ds (all_readings env args)"
        have "lexes_in (((a @ '' '') @ CHR ''('' # tx) @ flows ds @ [newline, CHR '')''])
            (seq (seq A (seq {[''('']} (readings env name))) (seq (all_readings env args) {['')'']})) True"
          using texts_in_lexes_in[OF tails_close[OF head lines_in_tails[OF ds], of "CHR '')''" True]] by simp
        from lexes_in_mono[OF this] sub False
        show "gives I (fmt_return [Verbatim tx, Indent (Indent (Concat ds)),
             if args = [] then Text '')'' else Indent (Concat [Hardline, Text '')''])]) ?post"
          using lines_in_plain[OF ds] by (auto simp: list_reading_def)
      qed (use l in \<open>auto simp: indented_def\<close>)
    qed
    show "gives I (case args of
          [arg] \<Rightarrow> bind_fmt (call_exprs c [arg] []) (\<lambda>text. fmt_return [Verbatim tx, Text '' '', Verbatim text, Text '')''])
        | _ \<Rightarrow> ?rest) ?post"
    proof (cases "\<exists>arg. args = [arg]")
      case True
      then obtain arg where arg: "args = [arg]" by blast
      have "lexes_in (a @ '' ('' @ tx @ '' '' @ ax @ '')'') (seq A (readings env def)) True" if "reads env arg ax" for ax
      proof -
        have "lexes_in (((a @ '' '') @ CHR ''('' # tx) @ CHR '' '' # ax) (seq (seq A (seq {[''('']} (readings env name))) (readings env arg)) False"
          using head[of False] reads_lexes[OF that] sig(2) by (intro lexes_in_space) (auto simp: arg)
        from lexes_in_mono[OF lexes_in_close_bracket[OF _ this, of "CHR '')''" True]] sub show ?thesis
          by (simp add: arg list_reading_def)
      qed
      then show ?thesis using args(1) by (auto simp: arg intro!: gives_bind[OF exprs])
    next
      case False
      then show ?thesis using rest by (auto split: list.split)
    qed
  qed
qed

lemma format_function_reads:
  assumes es: "list_all child es" "siblings_ok es" "es = first # args" "match_atom first = Some name"
    and args: "args \<noteq> []" "signature_ok (hd args)"
  shows "gives I (format_function env c es) (\<lambda>s. texts_in s (list_reading env es) False)"
proof (rule gives_layout)
  assume l: "blanks (indentation_str env)"
  obtain def body where p: "args = def # body" "child def" "list_all child body" "drop 2 es = body"
    using form_second[OF es args(1)] by metis
  obtain nm as where d: "match_list def = Some (nm # as)"
    using args(2) by (auto simp: p(1) signature_ok_def split: option.splits list.splits)
  have sig: "signature_ok def" using args(2) by (simp add: p(1))
  have blank_nil: "blanks []" by simp
  show ?thesis unfolding format_function_def p(4)
  proof (rule gives_head[OF es blank_nil])
    fix tx assume head: "\<And>op. lexes_in (CHR ''('' # tx) (seq {[''('']} (readings env first)) op"
    have case_es: "(case es of _ # def # _ \<Rightarrow> (case match_list def of Some (name # args) \<Rightarrow> signature_parts env c name args
        | _ \<Rightarrow> fmt_return []) | _ \<Rightarrow> fmt_return []) = signature_parts env c nm as"
      by (simp add: es(3) p(1) d)
    show "gives I (bind_fmt (case es of _ # def # _ \<Rightarrow> (case match_list def of Some (name # args) \<Rightarrow> signature_parts env c name args
          | _ \<Rightarrow> fmt_return []) | _ \<Rightarrow> fmt_return [])
        (\<lambda>signature. bind_fmt (function_body_loop env c (indented env []) body) (\<lambda>body_parts.
          fmt_return (render_doc env (Concat ([Text (''('' @ tx @ '' ('')] @ signature @
            [Indent (Concat body_parts), Hardline, Text '')'', Hardline])) []))))
      (\<lambda>s. texts_in s (list_reading env es) False)"
      unfolding case_es
    proof (rule gives_bind[OF signature_gives[OF p(2) d sig head]], rule gives_bind[OF function_body_gives[OF p(3)]], rule_tac [2] gives_return)
      fix ds bs
      assume ds: "list_all plain ds \<and> lexes_in ((CHR ''('' # tx) @ '' ('' @ flows ds)
          (seq (seq {[''('']} (readings env first)) (readings env def)) True"
        and bs: "lines_in bs (all_readings env body)"
      let ?d = "Concat ([Text (''('' @ tx @ '' ('')] @ ds @ [Indent (Concat bs), Hardline, Text '')'', Hardline])"
      have "texts_in (((CHR ''('' # tx) @ '' ('' @ flows ds) @ flows bs @ [newline, CHR '')'']) (list_reading env es) False"
        using tails_close[OF conjunct2[OF ds] lines_in_tails[OF bs], of "CHR '')''" False]
        by (simp add: es(3) p(1) list_reading_def)
      from texts_in_newline[OF this] have "texts_in (flow ?d) (list_reading env es) False" by simp
      then show "texts_in (render_doc env ?d []) (list_reading env es) False"
        using ds lines_in_plain[OF bs] l by (simp add: texts_in_def render_texts blanks_def)
    qed (use l in \<open>simp add: indented_def\<close>)
  qed
qed

section \<open>Lists\<close>

text \<open>The passes over an iterator: what they take from it, and what is known about it.\<close>

definition pass_exprs :: "(pse \<times> pse option \<times> pse list) list \<Rightarrow> pse list" where
  "pass_exprs passes = concat (map (\<lambda>(e, trailing, _). e # opt_list trailing) passes)"

lemma pass_exprs_simps [simp]:
  "pass_exprs [] = []" "pass_exprs ((e, trailing, iter) # passes) = e # opt_list trailing @ pass_exprs passes"
  by (simp_all add: pass_exprs_def)

definition pass_ok :: "pse \<times> pse option \<times> pse list \<Rightarrow> bool" where
  "pass_ok p = (case p of (e, trailing, iter) \<Rightarrow>
     child e \<and> list_all child iter \<and> (\<forall>x. trailing = Some x \<longrightarrow> child x \<and> is_comment x \<and> \<not> is_comment e))"

lemma with_trailing_passes:
  "list_all child es \<Longrightarrow> siblings_ok es \<Longrightarrow> list_all pass_ok (with_trailing es) \<and> pass_exprs (with_trailing es) = es"
proof (induction es rule: with_trailing.induct)
  case (2 e rest)
  obtain trailing iter where tr: "get_trailing_comment e rest = (trailing, iter)" by force
  have e: "child e" "list_all child rest" using 2 by auto
  note step = with_trailing_step[OF tr 2(3) e]
  have "pass_ok (e, trailing, iter)" using step(1,3,5) e(1) by (auto simp: pass_ok_def)
  with 2(1)[OF tr[symmetric] step(1,2)] show ?case
    unfolding with_trailing.simps tr prod.case using step(4) by simp
qed simp

text \<open>A comment that can be written right after an expression.\<close>

definition attaches :: "pse \<Rightarrow> string \<Rightarrow> bool" where
  "attaches comment s = (\<forall>a A. lexes_in a A False \<longrightarrow> lexes_in (a @ s) (seq A (readings env comment)) True)"

lemma spaced_comment_gives:
  assumes "child x" "is_comment x" "blanks ind"
  shows "gives I (spaced_comment c item x ind) (attaches x)"
  unfolding spaced_comment_def
proof (rule gives_bind[OF display[OF assms(1,3)]], rule gives_return, unfold attaches_def, intro allI impI)
  fix tx a A n
  assume tx: "reads env x tx \<and> (is_comment x \<longrightarrow> starts_with (CHR '';'') tx)" and a: "lexes_in a A False"
  have "lexes_in (a @ push_spaces w) A False" for w
    by (rule lexes_in_trailing_blanks[OF a]) (auto simp: push_spaces_def ascii_def list_all_iff)
  from lexes_in_comment_after[OF this, of tx "readings env x" True] tx assms(2) reads_lexes[of env x tx]
  show "lexes_in (a @ push_spaces (saturating_sub (start_column (span_of x)) (end_column (span_of item) + 1)) @ tx)
      (seq A (readings env x)) True" by simp
qed

definition optional_attaches :: "pse option \<Rightarrow> string option \<Rightarrow> bool" where
  "optional_attaches trailing s =
     (case trailing of None \<Rightarrow> s = None | Some x \<Rightarrow> (\<exists>tx. s = Some tx \<and> attaches x tx))"

lemma optional_spaced_comment_gives:
  assumes "\<forall>x. trailing = Some x \<longrightarrow> child x \<and> is_comment x" "blanks ind"
  shows "gives I (optional_spaced_comment c item trailing ind) (optional_attaches trailing)"
proof (cases trailing)
  case (Some x)
  with assms spaced_comment_gives[of x ind item] show ?thesis
    by (auto simp: optional_spaced_comment_def optional_attaches_def intro!: gives_bind[OF spaced_comment_gives])
qed (simp add: optional_spaced_comment_def optional_attaches_def)

text \<open>An expression with its comment.\<close>

lemma optional_attached:
  assumes "reads env e tx" "optional_attaches trailing s" "\<forall>x. trailing = Some x \<longrightarrow> \<not> is_comment e"
  shows "lexes_in (tx @ (case s of None \<Rightarrow> [] | Some y \<Rightarrow> y)) (seq (readings env e) (all_readings env (opt_list trailing)))
    (is_comment e \<or> trailing \<noteq> None)"
  using assms reads_lexes[OF assms(1)] by (cases trailing) (auto simp: optional_attaches_def attaches_def)

lemma display_items_gives:
  "list_all pass_ok passes \<Longrightarrow> blanks ind \<Longrightarrow>
     gives I (display_items env c ind passes) (list_all2 (\<lambda>(e, trailing, _) s.
       lexes_in s (seq (readings env e) (all_readings env (opt_list trailing))) (is_comment e \<or> trailing \<noteq> None)) passes)"
proof (induction passes)
  case (Cons p passes)
  obtain e trailing iter where p: "p = (e, trailing, iter)" by (cases p)
  have ok: "child e" "list_all child iter" "\<forall>x. trailing = Some x \<longrightarrow> child x \<and> is_comment x \<and> \<not> is_comment e"
    using Cons.prems by (auto simp: p pass_ok_def)
  have suffix: "gives I (case trailing of None \<Rightarrow> fmt_return [] | Some comment \<Rightarrow> spaced_comment c e comment ind)
      (\<lambda>s. optional_attaches trailing (case trailing of None \<Rightarrow> None | Some _ \<Rightarrow> Some s) \<and> (trailing = None \<longrightarrow> s = []))"
    using ok(3) Cons.prems(2)
    by (cases trailing) (auto simp: optional_attaches_def intro: gives_mono[OF spaced_comment_gives])
  have IH: "gives I (display_items env c ind passes) (list_all2 (\<lambda>(e, trailing, _) s.
       lexes_in s (seq (readings env e) (all_readings env (opt_list trailing))) (is_comment e \<or> trailing \<noteq> None)) passes)"
    using Cons by simp
  show ?case unfolding p display_items.simps
  proof (intro gives_bind[OF check_ignored] gives_bind[OF exprs[OF ok(1) Cons.prems(2)]] gives_bind[OF suffix]
      gives_bind[OF IH] gives_return)
    fix tx sfx texts'
    assume *: "reads env e tx"
      "optional_attaches trailing (case trailing of None \<Rightarrow> None | Some _ \<Rightarrow> Some sfx) \<and> (trailing = None \<longrightarrow> sfx = [])"
      "list_all2 (\<lambda>(e, trailing, _) s. lexes_in s (seq (readings env e) (all_readings env (opt_list trailing)))
         (is_comment e \<or> trailing \<noteq> None)) passes texts'"
    have "lexes_in (tx @ sfx) (seq (readings env e) (all_readings env (opt_list trailing))) (is_comment e \<or> trailing \<noteq> None)"
      using optional_attached[OF *(1) conjunct1[OF *(2)]] ok(3) *(2) by (cases trailing) auto
    with *(3) show "list_all2 (\<lambda>(e, trailing, _) s. lexes_in s (seq (readings env e) (all_readings env (opt_list trailing)))
         (is_comment e \<or> trailing \<noteq> None)) ((e, trailing, iter) # passes) ((tx @ sfx) # texts')" by simp
  qed (use ok(2) peek_child in auto)
qed simp

lemma item_lines:
  "list_all2 (\<lambda>(e, trailing, _) s. lexes_in s (seq (readings env e) (all_readings env (opt_list trailing))) (Q e trailing)) passes ts \<Longrightarrow>
     lines_in (concat (map (\<lambda>text. [Hardline, Verbatim text]) ts)) (all_readings env (pass_exprs passes))"
proof (induction passes ts rule: list_all2_induct)
  case (Cons p passes s ts)
  then show ?case
    using Hardline_Cons[of "[Verbatim s]" _ "concat (map (\<lambda>text. [Hardline, Verbatim text]) ts)"]
      lexes_in_open[of s _ _ True] by (cases p) fastforce
qed (simp add: lines_in_Nil)

lemma flows_joined [simp]:
  "flows (joined_parts (s # ts)) = s @ (if ts = [] then [] else CHR '' '' # flows (joined_parts ts))"
  by (cases ts) simp_all

lemma joined_plain [simp]: "list_all plain (joined_parts ts)"
  by (induction ts rule: joined_parts.induct) simp_all

lemma item_joined:
  "list_all2 (\<lambda>(e, trailing, _) s. lexes_in s (seq (readings env e) (all_readings env (opt_list trailing)))
       (is_comment e \<or> trailing \<noteq> None)) passes ts \<Longrightarrow> list_all pass_ok passes \<Longrightarrow>
     \<not> contains_comments (pass_exprs passes) \<Longrightarrow>
     lexes_in (flows (joined_parts ts)) (all_readings env (pass_exprs passes)) False"
proof (induction passes ts rule: list_all2_induct)
  case (Cons p passes s ts)
  obtain e trailing iter where p: "p = (e, trailing, iter)" by (cases p)
  have n: "trailing = None" "\<not> is_comment e" "\<not> contains_comments (pass_exprs passes)"
    using Cons.prems by (auto simp: p pass_ok_def contains_comments_def) (cases trailing; auto)
  have "lexes_in s (readings env e) False" using Cons.hyps(1) n by (simp add: p)
  moreover have "lexes_in (flows (joined_parts ts)) (all_readings env (pass_exprs passes)) False"
    using Cons.IH Cons.prems(1) n(3) by simp
  ultimately show ?case using n Cons.hyps(2) by (auto simp: p intro: lexes_in_space)
qed simp

lemma display_list_reads:
  assumes "list_all child es" "siblings_ok es" "blanks ind"
  shows "gives I (display_list env c es ind) (\<lambda>s. texts_in s (list_reading env es) False)"
proof (rule gives_layout)
  assume l: "blanks (indentation_str env)"
  have passes: "list_all pass_ok (with_trailing es)" "pass_exprs (with_trailing es) = es"
    using with_trailing_passes[OF assms(1,2)] by auto
  have open_paren: "lexes_in ''('' {[''('']} True" using lexes_in_open_bracket[of "CHR ''(''" "[]" "{[]}" True] by simp
  show ?thesis unfolding display_list_def Let_def
  proof (rule gives_bind[OF display_items_gives[OF passes(1) assms(3)]], rule gives_return)
    fix ts assume ts: "list_all2 (\<lambda>(e, trailing, _) s.
       lexes_in s (seq (readings env e) (all_readings env (opt_list trailing))) (is_comment e \<or> trailing \<noteq> None)) (with_trailing es) ts"
    have "texts_in (render_doc env (block (Text ''('') (concat (map (\<lambda>text. [Hardline, Verbatim text]) ts)) '')'') ind)
        (list_reading env es) False"
      using block_texts[of "Text ''(''" "{[''('']}" _ "all_readings env es" "CHR '')''" ind] item_lines[OF ts] open_paren
        passes assms(3) l by (simp add: list_reading_def)
    moreover have "texts_in (render_doc env (Concat ([Text ''(''] @ joined_parts ts @ [Text '')''])) ind) (list_reading env es) False"
      if "\<not> contains_comments es"
    proof (rule doc_texts)
      have "lexes_in (flows (joined_parts ts)) (all_readings env es) False"
        using item_joined[OF ts passes(1)] that passes(2) by simp
      then have "lexes_in ((CHR ''('' # flows (joined_parts ts)) @ '')'') (list_reading env es) False"
        unfolding list_reading_def seq_simps(3)[symmetric]
        by (intro lexes_in_close_bracket lexes_in_open_bracket) auto
      then show "lexes_in (flow (Concat ([Text ''(''] @ joined_parts ts @ [Text '')'']))) (list_reading env es) False" by simp
    qed (use assms(3) l in \<open>auto simp: blank_def\<close>)
    ultimately show "texts_in (render_doc env
        (if contains_comments es \<or> \<not> fits_inline ts (length ind + 1) (max_line_length env)
         then block (Text ''('') (concat (map (\<lambda>text. [Hardline, Verbatim text]) ts)) '')''
         else Concat ([Text ''(''] @ joined_parts ts @ [Text '')''])) ind) (list_reading env es) False" by simp
  qed
qed

definition item_rel :: "pse \<times> pse option \<times> pse list \<Rightarrow> list_item \<Rightarrow> bool" where
  "item_rel p it = (case p of (e, trailing, _) \<Rightarrow>
     reads env e (li_text it) \<and> li_is_comment it = is_comment e \<and> optional_attaches trailing (li_trailing_comment it))"

lemma item_rel_pair [simp]:
  "item_rel (e, trailing, iter) it \<longleftrightarrow>
     reads env e (li_text it) \<and> li_is_comment it = is_comment e \<and> optional_attaches trailing (li_trailing_comment it)"
  by (simp add: item_rel_def)

abbreviation item_text :: "list_item \<Rightarrow> string" where
  "item_text it \<equiv> li_text it @ (case li_trailing_comment it of None \<Rightarrow> [] | Some s \<Rightarrow> s)"

lemma item_rel_lexes:
  assumes "item_rel (e, trailing, iter) it" "pass_ok (e, trailing, iter)"
  shows "lexes_in (item_text it) (seq (readings env e) (all_readings env (opt_list trailing)))
    (li_is_comment it \<or> li_trailing_comment it \<noteq> None)"
proof -
  have "lexes_in (item_text it) (seq (readings env e) (all_readings env (opt_list trailing))) (is_comment e \<or> trailing \<noteq> None)"
    using assms by (intro optional_attached) (auto simp: item_rel_def pass_ok_def)
  then show ?thesis using assms(1) by (auto simp: item_rel_def optional_attaches_def split: option.splits)
qed

lemma list_items_gives:
  "list_all pass_ok passes \<Longrightarrow> blanks ind \<Longrightarrow> blanks spacing \<Longrightarrow>
     gives I (list_items env c ind spacing False passes) (\<lambda>(sz, its). sz = None \<and> list_all2 item_rel passes its)"
proof (induction passes)
  case (Cons p passes)
  obtain e trailing iter where p: "p = (e, trailing, iter)" by (cases p)
  have ok: "child e" "list_all child iter" "\<forall>x. trailing = Some x \<longrightarrow> child x \<and> is_comment x"
    using Cons.prems by (auto simp: p pass_ok_def)
  have IH: "gives I (list_items env c ind spacing False passes) (\<lambda>(sz, its). sz = None \<and> list_all2 item_rel passes its)"
    using Cons by simp
  show ?case unfolding p list_items.simps if_False
    by (intro gives_bind[OF check_ignored] gives_bind[OF exprs[OF ok(1) Cons.prems(3)]]
        gives_bind[OF optional_spaced_comment_gives[OF ok(3) Cons.prems(2)]] gives_bind[OF IH])
      (use ok(2) peek_child in \<open>auto split: prod.splits\<close>)
qed simp

lemma word_trim: "word w \<Longrightarrow> trim w = w \<and> newline \<notin> set w \<and> CHR 0x0D \<notin> set w"
proof -
  assume w: "word w"
  then have n: "\<forall>ch\<in>set w. \<not> blank ch" by (auto simp: word_def separator_def list_all_iff)
  have "dropWhile is_whitespace (map (\<lambda>ch. [ch]) xs) = map (\<lambda>ch. [ch]) xs" if "\<forall>ch\<in>set xs. \<not> blank ch" for xs
    using that by (cases xs) (auto simp: is_whitespace_char)
  from this[OF n] this[of "rev w"] n have "trim w = w"
    using w by (simp add: trim_def utf8_chars_ascii word_def rev_map concat_singletons)
  moreover have "newline \<notin> set w" "CHR 0x0D \<notin> set w" using n by (auto simp: blank_def newline_def)
  ultimately show ?thesis by simp
qed

lemma sized_items_gives:
  assumes "list_all pass_ok ((e, trailing, iter) # passes)" "pre_expr e = AtomValue (IntValue w)" "blanks ind" "blanks spacing"
  shows "gives I (list_items env c ind spacing True ((e, trailing, iter) # passes)) (\<lambda>(sz, its).
    list_all2 item_rel passes its \<and>
    (\<exists>s. sz = Some s \<and> lexes_in s (seq (readings env e) (all_readings env (opt_list trailing))) True))"
proof -
  have ok: "child e" "list_all child iter" "\<forall>x. trailing = Some x \<longrightarrow> child x \<and> is_comment x"
    using assms(1) by (auto simp: pass_ok_def)
  have w: "word w" using child_ok[OF ok(1)] assms(2) by (simp add: expr_ok_def value_ok_def)
  have size_text: "filter (\<lambda>ch. ch \<noteq> CHR 0x0D) (map (\<lambda>ch. if ch = newline then CHR '' '' else ch) (trim w)) = w"
  proof -
    have "map (\<lambda>ch. if ch = newline then CHR '' '' else ch) w = w" using word_trim[OF w] by (intro map_idI) auto
    then show ?thesis using word_trim[OF w] by (auto simp: filter_id_conv)
  qed
  have r: "readings env e = {[w]}" using assms(2) by (cases e) (simp add: leaf_readings_def value_readings_def)
  have "reads env e w" using word_texts[OF w] assms(2)
    by (auto simp: reads_def texts_in_def r is_comment_def)
  then have attached: "lexes_in (w @ (case s of None \<Rightarrow> [] | Some y \<Rightarrow> y))
      (seq (readings env e) (all_readings env (opt_list trailing))) True" if "optional_attaches trailing s" for s
    using lexes_in_open[OF optional_attached[OF _ that]] assms(2) by (fastforce simp: is_comment_def)
  show ?thesis unfolding list_items.simps if_True Let_def
    by (intro gives_bind[OF check_ignored] gives_bind[OF display_exact[OF ok(1) assms(3)]]
        gives_bind[OF optional_spaced_comment_gives[OF ok(3) assms(3)]] gives_bind[OF list_items_gives])
      (use assms ok(2) peek_child size_text attached in \<open>auto split: prod.splits\<close>)
qed

lemma wrap_items_gives:
  "list_all2 item_rel passes its \<Longrightarrow> list_all pass_ok passes \<Longrightarrow>
     list_all plain (wrap_items env n first col ac its) \<and>
     (\<forall>a A. lexes_in a A ac \<longrightarrow> \<not> first \<longrightarrow>
        lexes_in (a @ flows (wrap_items env n first col ac its)) (seq A (all_readings env (pass_exprs passes))) True) \<and>
     (first \<longrightarrow> lexes_in (flows (wrap_items env n first col ac its)) (all_readings env (pass_exprs passes)) True)"
proof (induction passes its arbitrary: first col ac rule: list_all2_induct)
  case (Cons p passes it its)
  obtain e trailing iter where p: "p = (e, trailing, iter)" by (cases p)
  let ?open = "li_is_comment it \<or> li_trailing_comment it \<noteq> None"
  let ?R = "seq (readings env e) (all_readings env (opt_list trailing))"
  have it: "lexes_in (item_text it) ?R ?open"
    using item_rel_lexes[of e trailing iter it] Cons.hyps(1) Cons.prems by (simp add: p)
  have IH: "list_all plain (wrap_items env n False col' ?open its) \<and>
      (\<forall>a A. lexes_in a A ?open \<longrightarrow> lexes_in (a @ flows (wrap_items env n False col' ?open its))
         (seq A (all_readings env (pass_exprs passes))) True)" for col'
    using Cons.IH[of False col' ?open] Cons.prems by simp
  define wraps where "wraps = (ac \<or> li_is_comment it \<or> newline \<in> set (li_text it) \<or>
      max_line_length env < col + 1 + length (li_text it) + (case its of [] \<Rightarrow> 0 | n # _ \<Rightarrow> length (li_text n) + 1))"
  define sep where "sep = (if first then [] else if wraps then [Hardline] else [Text '' ''])"
  define cmt where "cmt = (case li_trailing_comment it of None \<Rightarrow> [] | Some s \<Rightarrow> [Verbatim s])"
  obtain col' where w: "wrap_items env n first col ac (it # its) =
      sep @ [Verbatim (li_text it)] @ cmt @ wrap_items env n False col' ?open its"
    unfolding wrap_items.simps Let_def wraps_def sep_def cmt_def by blast
  have flow_w: "flows (wrap_items env n first col ac (it # its)) =
      flows sep @ item_text it @ flows (wrap_items env n False col' ?open its)"
    unfolding w by (simp add: cmt_def split: option.split)
  have start: "lexes_in (a @ flows sep @ item_text it) (seq A ?R) ?open" if "lexes_in a A ac" "\<not> first" for a A
  proof (cases wraps)
    case True
    then show ?thesis using that lexes_in_newline[OF lexes_in_open[OF that(1)] it] by (simp add: sep_def)
  next
    case False
    then have "\<not> ac" by (simp add: wraps_def)
    with False that show ?thesis using lexes_in_space[OF _ it, of a A] by (simp add: sep_def)
  qed
  have "lexes_in (a @ flows (wrap_items env n first col ac (it # its))) (seq A (all_readings env (pass_exprs (p # passes)))) True"
    if "lexes_in a A ac" "\<not> first" for a A
    using conjunct2[OF IH[of col']] start[OF that] unfolding flow_w by (fastforce simp: p)
  moreover have "lexes_in (flows (wrap_items env n first col ac (it # its))) (all_readings env (pass_exprs (p # passes))) True" if first
    using conjunct2[OF IH[of col']] it that unfolding flow_w by (fastforce simp: p sep_def)
  moreover have "list_all plain (wrap_items env n first col ac (it # its))"
    using IH[of col'] unfolding w by (simp add: sep_def cmt_def split: option.split)
  ultimately show ?case by blast
qed (auto intro: lexes_in_open)


lemma estimate_gives:
  "list_all child es \<Longrightarrow> gives I (estimate_list_length c es n) (\<lambda>_. True)"
proof (induction es arbitrary: n)
  case (Cons e es)
  then show ?case by (auto intro!: gives_bind[OF display])
qed simp

lemma item_list:
  "list_all2 item_rel passes its \<Longrightarrow> list_all pass_ok passes \<Longrightarrow>
     list_all2 (\<lambda>(e, trailing, _) s. lexes_in s (seq (readings env e) (all_readings env (opt_list trailing)))
       (is_comment e \<or> trailing \<noteq> None)) passes (map item_text its)"
proof (induction passes its rule: list_all2_induct)
  case (Cons p passes it its)
  obtain e trailing iter where p: "p = (e, trailing, iter)" by (cases p)
  have "lexes_in (item_text it) (seq (readings env e) (all_readings env (opt_list trailing))) (is_comment e \<or> trailing \<noteq> None)"
    using Cons.hyps(1) Cons.prems by (intro optional_attached) (auto simp: p pass_ok_def)
  with Cons show ?case by (simp add: p)
qed simp

text \<open>Without comments the items have no attached comment.\<close>

lemma item_bare:
  "list_all2 item_rel passes its \<Longrightarrow> list_all pass_ok passes \<Longrightarrow> \<not> contains_comments (pass_exprs passes) \<Longrightarrow>
     map li_text its = map item_text its"
proof (induction passes its rule: list_all2_induct)
  case (Cons p passes it its)
  obtain e trailing iter where p: "p = (e, trailing, iter)" by (cases p)
  have "trailing = None" "\<not> contains_comments (pass_exprs passes)"
    using Cons.prems by (auto simp: p pass_ok_def contains_comments_def) (cases trailing; auto)
  with Cons show ?case by (auto simp: p optional_attaches_def)
qed simp

lemma flows_items:
  "flows (concat (map (\<lambda>item. [Hardline, Verbatim (li_text item)] @
      (case li_trailing_comment item of None \<Rightarrow> [] | Some text \<Rightarrow> [Verbatim text])) its)) =
    flows (concat (map (\<lambda>text. [Hardline, Verbatim text]) (map item_text its)))"
  by (induction its) (auto split: option.split)

lemma lines_in_items:
  "lines_in (concat (map (\<lambda>text. [Hardline, Verbatim text]) (map item_text its))) R \<Longrightarrow>
     lines_in (concat (map (\<lambda>item. [Hardline, Verbatim (li_text item)] @
       (case li_trailing_comment item of None \<Rightarrow> [] | Some text \<Rightarrow> [Verbatim text])) its)) R"
proof (cases its)
  case (Cons it its')
  assume "lines_in (concat (map (\<lambda>text. [Hardline, Verbatim text]) (map item_text its))) R"
  then have "lexes_in (item_text it @ flows (concat (map (\<lambda>text. [Hardline, Verbatim text]) (map item_text its')))) R True"
    by (simp add: Cons lines_in_def)
  moreover have "list_all plain (concat (map (\<lambda>item. [Hardline, Verbatim (li_text item)] @
       (case li_trailing_comment item of None \<Rightarrow> [] | Some text \<Rightarrow> [Verbatim text])) its))"
    by (auto simp: list_all_iff split: option.splits)
  ultimately show ?thesis
    unfolding flows_items[symmetric] by (auto simp: Cons lines_in_def split: option.splits)
qed simp

lemma list_doc_texts:
  assumes head: "\<And>op. lexes_in ''(list'' A op" and ind: "blanks ind" "blanks (indentation_str env)"
    and passes: "list_all pass_ok passes" "list_all2 item_rel passes its"
    and sz: "if multi \<and> sig then \<exists>s. sz = Some s \<and> lexes_in s B True else B = {[]}"
    and comments: "contains_comments (pass_exprs passes) \<longrightarrow> multi"
  shows "texts_in (render_doc env (list_doc env multi True sig n sz its) ind)
    (seq A (seq B (seq (all_readings env (pass_exprs passes)) {['')'']}))) False"
proof -
  let ?R = "all_readings env (pass_exprs passes)"
  consider "\<not> multi" | "multi" "sig" | "multi" "\<not> sig" by blast
  then show ?thesis
  proof cases
    case 1
    then have nc: "\<not> contains_comments (pass_exprs passes)" and B: "B = {[]}" using comments sz by auto
    have joined: "lexes_in (flows (joined_parts (map li_text its))) ?R False"
      using item_joined[OF item_list[OF passes(2,1)] passes(1) nc] unfolding item_bare[OF passes(2,1) nc] .
    have "lexes_in (''(list'' @ (if its = [] then [] else '' '') @ flows (joined_parts (map li_text its))) (seq A ?R) False"
    proof (cases "its = []")
      case True
      then show ?thesis using head[of False] passes(2) by simp
    next
      case False
      then show ?thesis using lexes_in_space[OF head[of False] joined] by simp
    qed
    from lexes_in_close_bracket[OF _ this, of "CHR '')''" False]
    have "lexes_in (flow (list_doc env multi True sig n sz its)) (seq A (seq B (seq ?R {['')'']}))) False"
      using 1 by (cases "its = []") (simp_all add: list_doc_def Let_def B)
    then show ?thesis using 1 ind by (intro doc_texts) (auto simp: list_doc_def Let_def blank_def)
  next
    case 2
    then obtain s where s: "sz = Some s" "lexes_in s B True" using sz by auto
    have hd: "lexes_in (''(list'' @ CHR '' '' # s) (seq A B) True" by (rule lexes_in_space[OF head s(2)])
    have "lines_in (concat (map (\<lambda>item. [Hardline, Verbatim (li_text item)] @
        (case li_trailing_comment item of None \<Rightarrow> [] | Some text \<Rightarrow> [Verbatim text])) its)) ?R"
      using item_lines[OF item_list[OF passes(2,1)]] by (rule lines_in_items)
    from block_texts[OF _ _ this, of "Concat [Text ''(list'', Text '' '', Verbatim s]" "seq A B" "CHR '')''" ind] hd ind
    show ?thesis using 2 s(1) by (simp add: list_doc_def Let_def)
  next
    case 3
    have "lines_in (Hardline # wrap_items env n True n False its) ?R"
      using wrap_items_gives[OF passes(2,1), of n True n False] by (auto simp: lines_in_def)
    from block_texts[OF _ _ this, of "Concat [Text ''(list'']" A "CHR '')''" ind] head ind sz 3
    show ?thesis by (simp add: list_doc_def Let_def)
  qed
qed

lemma format_list_items:
  assumes args: "list_all child args" "siblings_ok args" and ind: "blanks ind" "blanks (indentation_str env)"
    and head: "\<And>op. lexes_in ''(list'' A op" and sig: "sig \<longrightarrow> (\<exists>e rest w. args = e # rest \<and> pre_expr e = AtomValue (IntValue w))"
    and comments: "contains_comments args \<longrightarrow> multi" and spacing: "blanks spacing"
  shows "gives I (bind_fmt (list_items env c ind spacing (multi \<and> sig) (with_trailing args))
      (\<lambda>(sz, its). fmt_return (render_doc env (list_doc env multi True sig n sz its) ind)))
    (\<lambda>s. texts_in s (seq A (seq (all_readings env args) {['')'']})) False)"
proof -
  have passes: "list_all pass_ok (with_trailing args)" "pass_exprs (with_trailing args) = args"
    using with_trailing_passes[OF args] by auto
  show ?thesis
  proof (cases "multi \<and> sig")
    case True
    then obtain e rest w where e: "args = e # rest" "pre_expr e = AtomValue (IntValue w)" using sig by auto
    obtain trailing iter where tr: "get_trailing_comment e rest = (trailing, iter)" by force
    have wt: "with_trailing args = (e, trailing, iter) # with_trailing iter" by (simp add: e(1) tr)
    have args_eq: "args = e # opt_list trailing @ pass_exprs (with_trailing iter)" using passes(2) by (simp add: wt)
    have ok: "list_all pass_ok (with_trailing iter)" using passes(1) by (simp add: wt)
    have m: "(multi \<and> sig) = True" using True by simp
    have ok': "list_all pass_ok ((e, trailing, iter) # with_trailing iter)" using passes(1) by (simp add: wt)
    show ?thesis unfolding m wt
    proof (rule gives_bind[OF sized_items_gives[OF ok' e(2) ind(1) spacing]])
      fix r assume "case r of (sz, its) \<Rightarrow> list_all2 item_rel (with_trailing iter) its \<and>
        (\<exists>s. sz = Some s \<and> lexes_in s (seq (readings env e) (all_readings env (opt_list trailing))) True)"
      then obtain sz its where r: "r = (sz, its)" "list_all2 item_rel (with_trailing iter) its"
        "\<exists>s. sz = Some s \<and> lexes_in s (seq (readings env e) (all_readings env (opt_list trailing))) True" by (cases r) auto
      show "gives I (case r of (sz, its) \<Rightarrow> fmt_return (render_doc env (list_doc env multi True sig n sz its) ind))
          (\<lambda>s. texts_in s (seq A (seq (all_readings env args) {['')'']})) False)"
        using list_doc_texts[OF head ind ok r(2), of multi sig sz "seq (readings env e) (all_readings env (opt_list trailing))" n]
          True r(3) by (subst args_eq) (simp add: r(1))
    qed
  next
    case False
    have m: "(multi \<and> sig) = False" using False by simp
    show ?thesis unfolding m
    proof (rule gives_bind[OF list_items_gives[OF passes(1) ind(1) spacing]])
      fix r :: "string option \<times> list_item list"
      assume r: "case r of (sz, its) \<Rightarrow> sz = None \<and> list_all2 item_rel (with_trailing args) its"
      then obtain its where its: "r = (None, its)" "list_all2 item_rel (with_trailing args) its" by (cases r) auto
      show "gives I (case r of (sz, its) \<Rightarrow> fmt_return (render_doc env (list_doc env multi True sig n sz its) ind))
          (\<lambda>s. texts_in s (seq A (seq (all_readings env args) {['')'']})) False)"
        using list_doc_texts[OF head ind passes(1) its(2), of multi sig None "{[]}" n] False comments passes(2)
        by (simp add: its(1))
    qed
  qed
qed

lemma format_list_reads:
  assumes es: "list_all child es" "siblings_ok es" "es = first # args" "match_atom first = Some ''list''" and ind: "blanks ind"
  shows "gives I (format_list env c es ind) (\<lambda>s. texts_in s (list_reading env es) False)"
proof (rule gives_layout)
  assume l: "blanks (indentation_str env)"
  note parts = form_parts[OF es]
  have atom: "pre_expr first \<in> {Atom ''list'', AtomValue (IntValue ''list'')}"
    using es(4) by (auto simp: match_atom_def split: pre_expr.splits)
  have sig: "is_list_type_signature es \<longrightarrow> (\<exists>e rest w. args = e # rest \<and> pre_expr e = AtomValue (IntValue w))"
    using es(3) by (cases args) (auto simp: is_list_type_signature_def is_integer_expr_def split: pre_expr.splits literal_value.splits)
  have head: "lexes_in ''(list'' (seq {[''('']} (readings env first)) op" for op
    using literal_word[OF form_words(6) es(4)] by simp
  have multi: "gives I (if contains_comments args then fmt_return True
      else bind_fmt (estimate_list_length c args 6)
        (\<lambda>estimated_len. fmt_return (max_line_length env < length ind + estimated_len))) (\<lambda>m. contains_comments args \<longrightarrow> m)"
    using parts(3) by (auto intro!: gives_bind[OF estimate_gives])
  show ?thesis unfolding format_list_def Let_def
  proof (rule gives_bind[OF nth_expr_gives[OF parts(7)]])
    fix f assume "f = es ! 0"
    then have f: "f = first" by (simp add: parts(6))
    show "gives I (bind_fmt (call_display c f ind) (\<lambda>first_text.
        bind_fmt (if contains_comments (drop (if first_text = ''list'' then 1 else 0) es) then fmt_return True
          else bind_fmt (estimate_list_length c (drop (if first_text = ''list'' then 1 else 0) es) (if first_text = ''list'' then 6 else 1))
            (\<lambda>estimated_len. fmt_return (max_line_length env < length ind + estimated_len)))
        (\<lambda>is_multiline. bind_fmt (list_items env c ind (if is_multiline then indented env ind else ind)
            (is_multiline \<and> is_list_type_signature es) (with_trailing (drop (if first_text = ''list'' then 1 else 0) es)))
          (\<lambda>(type_sig_size, its). fmt_return (render_doc env
             (list_doc env is_multiline (first_text = ''list'') (is_list_type_signature es) (length (indented env ind)) type_sig_size its) ind)))))
      (\<lambda>s. texts_in s (list_reading env es) False)"
      unfolding f
    proof (rule gives_bind[OF display_exact[OF parts(1) ind atom]])
      fix first_text assume "first_text = ''list''"
      then have ft: "(first_text = ''list'') = True" by simp
      show "gives I (bind_fmt (if contains_comments (drop (if first_text = ''list'' then 1 else 0) es) then fmt_return True
          else bind_fmt (estimate_list_length c (drop (if first_text = ''list'' then 1 else 0) es) (if first_text = ''list'' then 6 else 1))
            (\<lambda>estimated_len. fmt_return (max_line_length env < length ind + estimated_len)))
        (\<lambda>is_multiline. bind_fmt (list_items env c ind (if is_multiline then indented env ind else ind)
            (is_multiline \<and> is_list_type_signature es) (with_trailing (drop (if first_text = ''list'' then 1 else 0) es)))
          (\<lambda>(type_sig_size, its). fmt_return (render_doc env
             (list_doc env is_multiline (first_text = ''list'') (is_list_type_signature es) (length (indented env ind)) type_sig_size its) ind))))
        (\<lambda>s. texts_in s (list_reading env es) False)"
        unfolding ft if_True parts(5)
        by (rule gives_bind[OF multi], rule gives_mono[OF format_list_items[OF parts(3,4) ind l head sig]])
          (use ind l in \<open>auto simp: indented_def es(3) list_reading_def\<close>)
    qed
  qed
qed

end

end
