(* ===== verification/Format_Tuples.thy ===== *)
theory Format_Tuples
  imports Format_Layouts
begin

text \<open>The layouts of tuples, sugared and as calls of \<^verbatim>\<open>tuple\<close>, under the contract of the recursion.\<close>

lemma lexes_in_comma: "lexes_in s A False \<Longrightarrow> lexes_in (s @ '','') A op"
  using lexes_in_separator[of s A "[]" "{[]}" op "CHR '',''"] by simp

lemma sugar_comments:
  "list_all is_comment gap \<Longrightarrow> sugar_readings env b (gap @ es) = seq (all_readings env gap) (sugar_readings env b es)"
  by (induction gap) simp_all

lemma pairs_comments: "list_all is_comment gap \<Longrightarrow> pairs_ok b (gap @ es) = pairs_ok b es"
  by (induction gap) simp_all

lemma takeWhile_comments: "list_all is_comment (takeWhile is_comment es)"
  by (auto simp: list_all_iff dest: set_takeWhileD)

lemma gives_case_option:
  "gives I m Q \<Longrightarrow> (\<And>x. r = Some x \<Longrightarrow> gives I (f x) Q) \<Longrightarrow> gives I (case r of Some x \<Rightarrow> f x | None \<Rightarrow> m) Q"
  by (cases r) auto

context formatter_calls begin

definition entry_reading :: "string list set \<Rightarrow> pse list \<Rightarrow> string list set" where
  "entry_reading K vals = seq K (seq {['':'']} (all_readings env vals))"

lemma inline_entry_gives:
  assumes "child key" "list_all child val" "\<not> contains_comments val \<Longrightarrow> \<exists>v. val = [v]" "blanks ind"
  shows "gives I (inline_entry env c key val ind)
    (\<lambda>r. \<forall>s. r = Some s \<longrightarrow> texts_in s (seq {[''{'']} (seq (entry_reading (readings env key) val) {[''}'']})) False)"
proof (rule gives_layout)
  assume l: "blanks (indentation_str env)"
  show ?thesis
  proof (cases "is_comment key \<or> contains_comments val")
    case False
    then obtain v where v: "val = [v]" "\<not> is_comment v" "\<not> is_comment key" "child v"
      using assms(2,3) by (auto simp: contains_comments_def)
    have nested: "blanks (indented env ind)" using assms(4) l by (simp add: indented_def)
    have no_comments: "\<not> (is_comment key \<or> contains_comments [v])" using False v(1) by simp
    show ?thesis unfolding v(1) inline_entry_def if_not_P[OF no_comments]
    proof (rule gives_bind[OF exprs[OF v(4) nested]], rule gives_bind[OF display[OF assms(1,4)]])
      fix vx kx assume vx: "reads env v vx" and "reads env key kx \<and> (is_comment key \<longrightarrow> starts_with (CHR '';'') kx)"
      then have k: "lexes_in kx (readings env key) False" and v': "lexes_in (CHR '' '' # vx) (readings env v) False"
        using reads_lexes[of env key kx] reads_lexes[OF vx] v(2,3) lexes_in_leading_blanks[of "'' ''" vx "readings env v" False]
        by auto
      have "lexes_in ((CHR ''{'' # CHR '' '' # kx) @ CHR '':'' # CHR '' '' # vx)
          (seq (seq {[''{'']} (readings env key)) (seq {['':'']} (readings env v))) False"
        using k v' lexes_in_leading_blanks[of "'' ''" kx "readings env key" False]
        by (intro lexes_in_bracket lexes_in_open_bracket) auto
      from lexes_in_close_bracket[OF _ lexes_in_space_end[OF this], of "CHR ''}''" False]
      have "lexes_in (flow (Concat [Text ''{ '', Verbatim kx, Text '': '', Verbatim vx, Text '' }'']))
          (seq {[''{'']} (seq (entry_reading (readings env key) [v]) {[''}'']})) False"
        by (simp add: entry_reading_def)
      from doc_texts[OF _ this _ _ assms(4) l]
      show "gives I (if newline \<in> set vx \<or> max_line_length env < length ind + length kx + length vx + 8 then fmt_return None
          else fmt_return (Some (render_doc env (Concat [Text ''{ '', Verbatim kx, Text '': '', Verbatim vx, Text '' }'']) ind)))
        (\<lambda>r. \<forall>s. r = Some s \<longrightarrow> texts_in s (seq {[''{'']} (seq (entry_reading (readings env key) [v]) {[''}'']})) False)"
        by (auto simp: blank_def)
    qed
  qed (simp add: inline_entry_def)
qed

lemma entry_comments_gives:
  "list_all child gap \<Longrightarrow> child val \<Longrightarrow> blanks ind \<Longrightarrow>
     gives I (entry_comments env c val ind gap) (\<lambda>ds. lines_in ds (all_readings env gap) \<and> (ds = [] \<longleftrightarrow> gap = []))"
proof (induction gap)
  case (Cons x gap)
  then have IH: "gives I (entry_comments env c val ind gap) (\<lambda>ds. lines_in ds (all_readings env gap) \<and> (ds = [] \<longleftrightarrow> gap = []))"
    and x: "child x" by auto
  show ?case unfolding entry_comments.simps
  proof (intro gives_bind[OF check_ignored] gives_bind[OF display[OF x Cons.prems(3)]] gives_bind[OF IH])
    fix tx parts
    assume "reads env x tx \<and> (is_comment x \<longrightarrow> starts_with (CHR '';'') tx)"
      and "lines_in parts (all_readings env gap) \<and> (parts = [] \<longleftrightarrow> gap = [])"
    then show "gives I (fmt_return ([Hardline, Verbatim tx] @ parts))
        (\<lambda>ds. lines_in ds (all_readings env (x # gap)) \<and> (ds = [] \<longleftrightarrow> x # gap = []))"
      using Hardline_Cons[of "[Verbatim tx]" "readings env x" parts "all_readings env gap"]
        lexes_in_open[OF reads_lexes[of env x tx], of True] by auto
  qed (use Cons.prems peek_child in \<open>auto split: option.splits\<close>)
qed (simp add: lines_in_Nil)

text \<open>An entry on lines of its own, closed so that a comment can follow.\<close>

definition entry_lines :: "doc list \<Rightarrow> string list set \<Rightarrow> bool" where
  "entry_lines ds R = (\<exists>parts. ds = Hardline # parts \<and> list_all plain parts \<and> lexes_in (flows parts) R False)"

lemma entry_doc_gives:
  assumes "list_all child gap" "child val" "\<not> is_comment val" "lexes_in key K False" "blanks ind"
  shows "gives I (entry_doc env c key gap val ind) (\<lambda>ds. entry_lines ds (entry_reading K (gap @ [val])))"
proof (rule gives_layout)
  assume l: "blanks (indentation_str env)"
  have deeper: "blanks (indented env ind)" using assms(5) l by (simp add: indented_def)
  have fvalue: "lexes_in (CHR '' '' # vx) (readings env val) False" "lexes_in vx (readings env val) False"
    if "reads env val vx" for vx
    using reads_lexes[OF that] assms(3) lexes_in_leading_blanks[of "'' ''" vx "readings env val" False] by auto
  show ?thesis unfolding entry_doc_def
  proof (rule gives_bind[OF entry_comments_gives[OF assms(1,2,5)]])
    fix ds assume ds: "lines_in ds (all_readings env gap) \<and> (ds = [] \<longleftrightarrow> gap = [])"
    show "gives I (if ds = []
        then bind_fmt (call_exprs c [val] ind) (\<lambda>fvalue. fmt_return [Hardline, Verbatim (key @ '': '' @ fvalue @ '','')])
        else bind_fmt (call_exprs c [val] (indented env ind))
            (\<lambda>fvalue. fmt_return [Hardline, Verbatim (key @ '':''),
               Indent (Concat (ds @ [Hardline, Verbatim (fvalue @ '','')]))]))
      (\<lambda>ds. entry_lines ds (entry_reading K (gap @ [val])))"
    proof (cases "ds = []")
      case True
      have "lexes_in (key @ '': '' @ vx @ '','') (entry_reading K [val]) False" if "reads env val vx" for vx
        using lexes_in_comma[OF lexes_in_bracket[OF assms(4) fvalue(1)[OF that], of "CHR '':''"], of False]
        by (simp add: entry_reading_def)
      then show ?thesis using True ds
        by (auto simp: entry_lines_def intro!: gives_bind[OF exprs[OF assms(2,5)]])
    next
      case False
      have "lexes_in (key @ '':'' @ flows ds @ newline # vx @ '','') (entry_reading K (gap @ [val])) False"
        if "reads env val vx" for vx
      proof -
        have "lexes_in (key @ '':'') (seq K {['':'']}) True"
          by (rule lexes_in_close_bracket) (use assms(4) in auto)
        from lexes_in_newline[OF lexes_in_tails[OF this lines_in_tails[OF conjunct1[OF ds]]] lexes_in_comma[OF fvalue(2)[OF that], of False]]
        show ?thesis by (simp add: entry_reading_def)
      qed
      then show ?thesis using False lines_in_plain[OF conjunct1[OF ds]]
        by (auto simp: entry_lines_def intro!: gives_bind[OF exprs[OF assms(2) deeper]])
    qed
  qed
qed

section \<open>Sugared tuples\<close>

lemma tuple_loop_gives:
  "list_all child es \<Longrightarrow> siblings_ok es \<Longrightarrow> pairs_ok True es \<Longrightarrow> blanks ind \<Longrightarrow> blanks nested \<Longrightarrow>
     gives I (tuple_loop env c ind nested (tuple_passes es)) (\<lambda>ds. lines_in ds (sugar_readings env True es))"
proof (induction es rule: tuple_passes.induct)
  case (2 key rest)
  note prems = "2.prems"
  have key: "child key" "list_all child rest" and sib: "siblings_ok rest"
    using prems(1) siblings_ok_Cons[OF prems(2)] by auto
  show ?case
  proof (cases "is_comment key")
    case True
    have IH: "gives I (tuple_loop env c ind nested (tuple_passes rest)) (\<lambda>ds. lines_in ds (sugar_readings env True rest))"
      using "2.IH"(1)[OF True key(2) sib _ prems(4,5)] prems(3) True by simp
    have pass: "tuple_passes (key # rest) = BetweenEntries key # tuple_passes rest" using True by simp
    show ?thesis unfolding pass tuple_loop.simps
    proof (rule gives_bind[OF display[OF key(1) prems(4)]], rule gives_bind[OF IH], rule gives_return)
      fix tx parts
      assume "reads env key tx \<and> (is_comment key \<longrightarrow> starts_with (CHR '';'') tx)" "lines_in parts (sugar_readings env True rest)"
      then show "lines_in ([Hardline, Verbatim tx] @ parts) (sugar_readings env True (key # rest))"
        using Hardline_Cons[of "[Verbatim tx]" "readings env key" parts] lexes_in_open[OF reads_lexes[of env key tx], of True] True
        by auto
    qed
  next
    case False
    let ?gap = "takeWhile is_comment rest"
    have gap: "rest = ?gap @ dropWhile is_comment rest" "list_all is_comment ?gap" "list_all child ?gap"
      using key(2) takeWhile_comments by (auto simp: list_all_iff dest: set_takeWhileD)
    have "pairs_ok False (dropWhile is_comment rest)"
      using prems(3) False pairs_comments[OF gap(2), of False "dropWhile is_comment rest"] gap(1) by simp
    then obtain val rest1 where val: "dropWhile is_comment rest = val # rest1"
      by (cases "dropWhile is_comment rest") auto
    then have vc: "\<not> is_comment val" by (metis hd_dropWhile list.discI list.sel(1))
    obtain trailing rest2 where tr: "get_trailing_comment val rest1 = (trailing, rest2)" by force
    have rest: "rest = ?gap @ val # rest1" using gap(1) val by simp
    have v: "child val" "list_all child rest1" "siblings_ok (val # rest1)"
      using key(2) sib siblings_ok_append[of ?gap "val # rest1"] rest by (metis list.pred_inject(2) list_all_append)+
    note step = with_trailing_step[OF tr v(3,1,2)]
    have pairs: "pairs_ok True rest1" using \<open>pairs_ok False (dropWhile is_comment rest)\<close> vc by (simp add: val)
    have opt: "list_all is_comment (opt_list trailing)" using step(3) by (cases trailing) auto
    have IH: "gives I (tuple_loop env c ind nested (tuple_passes rest2)) (\<lambda>ds. lines_in ds (sugar_readings env True rest2))"
      using "2.IH"(2)[OF False val tr[symmetric] step(1,2) _ prems(4,5)] pairs pairs_comments[OF opt, of True rest2] step(4)
      by simp
    have pass: "tuple_passes (key # rest) =
        KeyValue key (peek rest) ?gap val trailing (peek rest2) # tuple_passes rest2"
      using False by (simp add: val tr)
    have readings: "sugar_readings env True (key # rest) =
        seq (seq (entry_reading (readings env key) (?gap @ [val])) (all_readings env (opt_list trailing))) (sugar_readings env True rest2)"
    proof -
      have "sugar_readings env False (?gap @ val # rest1) = seq (all_readings env ?gap) (seq (readings env val)
          (seq (all_readings env (opt_list trailing)) (sugar_readings env True rest2)))"
        by (simp add: sugar_comments[OF gap(2)] vc step(4) sugar_comments[OF opt])
      then show ?thesis unfolding rest[symmetric] using False by (simp add: entry_reading_def)
    qed
    show ?thesis unfolding pass tuple_loop.simps
    proof (rule gives_bind[OF check_ignored], use key(2) peek_child in blast, rule gives_bind[OF exprs[OF key(1) prems(5)]],
        rule gives_bind[OF check_ignored], use step(1) peek_child in blast)
      fix kx assume "reads env key kx"
      then have "lexes_in kx (readings env key) False" using reads_lexes False by force
      note entry_gives = entry_doc_gives[OF gap(3) v(1) vc this prems(5)]
      show "gives I (bind_fmt (entry_doc env c kx ?gap val nested) (\<lambda>entry.
          bind_fmt (push_trailing_comment c trailing nested) (\<lambda>comment_parts.
          bind_fmt (tuple_loop env c ind nested (tuple_passes rest2)) (\<lambda>parts. fmt_return (entry @ comment_parts @ parts)))))
        (\<lambda>ds. lines_in ds (sugar_readings env True (key # rest)))"
      proof (rule gives_bind[OF entry_gives], rule gives_bind[OF push_trailing], erule step(3), rule prems(5),
          rule gives_bind[OF IH], rule gives_return)
        fix entry cs parts
        assume entry: "entry_lines entry (entry_reading (readings env key) (?gap @ [val]))"
          and cs: "list_all plain cs \<and> (\<forall>a A. lexes_in a A (trailing = None) \<longrightarrow>
            lexes_in (a @ flows cs) (seq A (all_readings env (opt_list trailing))) True)"
          and parts: "lines_in parts (sugar_readings env True rest2)"
        obtain eps where eps: "entry = Hardline # eps" "list_all plain eps"
            "lexes_in (flows eps) (entry_reading (readings env key) (?gap @ [val])) False"
          using entry by (auto simp: entry_lines_def)
        have "lexes_in (flows (eps @ cs)) (seq (entry_reading (readings env key) (?gap @ [val])) (all_readings env (opt_list trailing))) True"
          using cs lexes_in_open[OF eps(3)] by auto
        from Hardline_Cons[OF _ this parts] eps(1,2) cs
        show "lines_in (entry @ cs @ parts) (sugar_readings env True (key # rest))" unfolding readings by simp
      qed
    qed
  qed
qed (simp add: lines_in_Nil)

lemma braces_block:
  assumes "lines_in ds R" "blanks ind" "blanks (indentation_str env)"
  shows "texts_in (render_doc env (block (Text ''{'') ds ''}'') ind) (seq {[''{'']} (seq R {[''}'']})) False"
  using block_texts[of "Text ''{''" "{[''{'']}" ds R "CHR ''}''" ind env]
    lexes_in_open_bracket[of "CHR ''{''" "[]" "{[]}" True] assms by simp

lemma format_sugar_reads:
  assumes "list_all child es" "siblings_ok es" "pairs_ok True es" "blanks ind"
  shows "gives I (format_key_value_sugar env c es ind)
    (\<lambda>s. texts_in s (seq {[''{'']} (seq (sugar_readings env True es) {[''}'']})) False)"
proof (rule gives_layout)
  assume l: "blanks (indentation_str env)"
  have nested: "blanks (indented env ind)" using assms(4) l by (simp add: indented_def)
  have inline: "gives I (case es of [key, val] \<Rightarrow> inline_entry env c key [val] ind | _ \<Rightarrow> fmt_return None)
      (\<lambda>r. \<forall>s. r = Some s \<longrightarrow> texts_in s (seq {[''{'']} (seq (sugar_readings env True es) {[''}'']})) False)"
  proof (cases "\<exists>key val. es = [key, val]")
    case True
    then obtain key val where es: "es = [key, val]" by blast
    show ?thesis
    proof (cases "is_comment key \<or> is_comment val")
      case True
      then show ?thesis by (simp add: es inline_entry_def contains_comments_def)
    next
      case False
      with inline_entry_gives[of key "[val]" ind] assms(1,4) show ?thesis by (simp add: es entry_reading_def)
    qed
  qed (auto split: list.split)
  show ?thesis unfolding format_key_value_sugar_def
    by (rule gives_bind[OF inline], rule gives_case_option)
      (auto intro!: gives_bind[OF tuple_loop_gives[OF assms nested]] braces_block assms(4) l)
qed

section \<open>Calls of tuple\<close>

text \<open>Comments after a value: only the first can stand on the line where the value ends.\<close>

lemma after_comments_gives:
  "list_all (\<lambda>x. child x \<and> is_comment x) cs \<Longrightarrow>
     sorted_wrt (\<lambda>a b. start_line (span_of a) < start_line (span_of b)) cs \<Longrightarrow>
     list_all (\<lambda>x. end_line (span_of val) \<le> start_line (span_of x)) cs \<Longrightarrow> blanks ind \<Longrightarrow>
     gives I (after_comments c ind val cs) (\<lambda>ds. list_all plain ds \<and>
       (\<forall>a A. lexes_in a A (list_all (\<lambda>x. start_line (span_of x) \<noteq> end_line (span_of val)) cs) \<longrightarrow>
          lexes_in (a @ flows ds) (seq A (all_readings env cs)) True))"
proof (induction cs)
  case (Cons x cs)
  have x: "child x" "is_comment x" using Cons.prems(1) by auto
  have rest: "list_all (\<lambda>y. start_line (span_of y) \<noteq> end_line (span_of val)) cs"
    using Cons.prems(2,3) by (fastforce simp: list_all_iff)
  with Cons have IH: "gives I (after_comments c ind val cs) (\<lambda>ds. list_all plain ds \<and>
      (\<forall>a A. lexes_in a A True \<longrightarrow> lexes_in (a @ flows ds) (seq A (all_readings env cs)) True))" by simp
  show ?case unfolding after_comments.simps
  proof (rule gives_bind[OF display[OF x(1) Cons.prems(4)]], rule gives_bind[OF IH], rule gives_return, intro conjI allI impI)
    fix tx ds a A
    assume "reads env x tx \<and> (is_comment x \<longrightarrow> starts_with (CHR '';'') tx)"
      and ds: "list_all plain ds \<and> (\<forall>a A. lexes_in a A True \<longrightarrow> lexes_in (a @ flows ds) (seq A (all_readings env cs)) True)"
      and a: "lexes_in a A (list_all (\<lambda>y. start_line (span_of y) \<noteq> end_line (span_of val)) (x # cs))"
    then have tx: "lexes_in tx (readings env x) True" using reads_lexes[of env x tx] x(2) by simp
    have "lexes_in (a @ flow (if start_line (span_of x) = end_line (span_of val) then Text '' '' else Hardline) @ tx) (seq A (readings env x)) True"
      using a rest lexes_in_space[OF _ tx, of a A] lexes_in_newline[OF lexes_in_open tx, of a A] by auto
    then have "lexes_in ((a @ flow (if start_line (span_of x) = end_line (span_of val) then Text '' '' else Hardline) @ tx) @ flows ds)
        (seq (seq A (readings env x)) (all_readings env cs)) True" using ds by blast
    then show "lexes_in (a @ flows ([if start_line (span_of x) = end_line (span_of val) then Text '' '' else Hardline, Verbatim tx] @ ds))
        (seq A (all_readings env (x # cs))) True" by simp
  qed auto
qed (auto intro: lexes_in_open)

lemma entry_parts:
  assumes "child arg" "split_tuple_entry arg = Some entry"
  obtains rest where "match_list arg = Some (te_key entry # rest)" "rest = te_before entry @ te_value entry # te_after entry"
    "\<not> is_comment (te_value entry)" "list_all is_comment (te_after entry)" "match_atom (te_key entry) \<noteq> None"
    "child (te_key entry)" "list_all child rest" "siblings_ok rest" "\<not> is_comment arg"
    "entry_readings env arg = entry_reading (readings env (te_key entry)) rest"
proof -
  obtain key rest v af where k: "match_list arg = Some (key # rest)" "match_atom key \<noteq> None"
      "dropWhile is_comment rest = v # af" "list_all is_comment af"
      "entry = \<lparr>te_key = key, te_before = takeWhile is_comment rest, te_value = v, te_after = af\<rparr>"
    using assms(2) by (auto simp: split_tuple_entry_def split: option.splits list.splits if_splits)
  have v: "rest = takeWhile is_comment rest @ v # af" using k(3) by (metis takeWhile_dropWhile_id)
  have vc: "\<not> is_comment v" using k(3) by (metis hd_dropWhile list.discI list.sel(1))
  have er: "entry_readings env arg = entry_reading (readings env key) rest"
    using k(1) by (cases arg) (auto simp: match_list_def entry_reading_def all_readings_def split: pre_expr.splits)
  note parts = list_parts[OF assms(1) k(1)]
  show thesis
    by (rule that[of rest]) (use k v vc er parts siblings_ok_Cons[of key rest] in auto)
qed

lemma siblings_comments:
  "list_all is_comment cs \<Longrightarrow> siblings_ok (v # cs) \<Longrightarrow> \<not> is_comment v \<Longrightarrow>
     list_all (\<lambda>x. end_line (span_of v) \<le> start_line (span_of x)) cs \<and>
     sorted_wrt (\<lambda>a b. start_line (span_of a) < start_line (span_of b)) cs"
proof (induction cs rule: rev_induct)
  case (snoc x cs)
  then have IH: "list_all (\<lambda>x. end_line (span_of v) \<le> start_line (span_of x)) cs"
      "sorted_wrt (\<lambda>a b. start_line (span_of a) < start_line (span_of b)) cs"
    using siblings_ok_append[of "v # cs" "[x]"] by auto
  show ?case
  proof (cases cs rule: rev_cases)
    case (snoc ys y)
    have "siblings_ok [y, x]" using snoc.prems(2) siblings_ok_append[of "v # ys" "[y, x]"] by (simp add: snoc)
    then have yx: "start_line (span_of y) < start_line (span_of x)" using snoc.prems(1) by (simp add: snoc)
    have "start_line (span_of z) \<le> start_line (span_of y)" if "z \<in> set cs" for z
      using IH(2) that by (auto simp: snoc sorted_wrt_append)
    with yx IH show ?thesis by (fastforce simp: sorted_wrt_append list_all_iff snoc)
  qed (use snoc.prems in simp)
qed simp

lemma after_bound:
  assumes "child arg" "match_list arg = Some (key # rest)" "rest = before @ v # cs" "\<not> is_comment v" "list_all is_comment cs"
  shows "end_line (span_of v) \<le> end_line (span_of arg) \<and>
    (\<forall>y\<in>set cs. start_line (span_of y) < end_line (span_of arg))"
proof -
  have ok: "siblings_ok (v # cs)" and last: "if is_comment (last (v # cs)) then start_line (span_of (last (v # cs))) < end_line (span_of arg)
      else end_line (span_of (last (v # cs))) \<le> end_line (span_of arg)"
    using child_ok[OF assms(1)] assms(2) siblings_ok_append[of "key # before" "v # cs"]
    by (auto simp: expr_ok_def list_ok_def match_list_def assms(3) split: pre_expr.splits)
  show ?thesis
  proof (cases cs rule: rev_cases)
    case (snoc ys y)
    with siblings_comments[OF assms(5) ok assms(4)] last assms(5) show ?thesis
      by (fastforce simp: sorted_wrt_append)
  qed (use last assms(4) in simp)
qed

lemma entries_loop_gives:
  "list_all child es \<Longrightarrow> siblings_ok es \<Longrightarrow> list_all (\<lambda>x. is_comment x \<or> split_tuple_entry x \<noteq> None) es \<Longrightarrow> blanks nested \<Longrightarrow>
     gives I (entries_loop env c nested (entry_passes es))
       (\<lambda>r. \<exists>ds. r = Some ds \<and> lines_in ds (cat (map (entry_readings env) es)))"
proof (induction es rule: entry_passes.induct)
  case (2 arg rest)
  note prems = "2.prems"
  have arg: "child arg" "list_all child rest" and sib: "siblings_ok rest"
    using prems(1) siblings_ok_Cons[OF prems(2)] by auto
  have comment_reading: "entry_readings env x = readings env x" if "is_comment x" for x
    using that by (cases x) (auto simp: is_comment_def split: pre_expr.splits)
  show ?case
  proof (cases "is_comment arg")
    case True
    have IH: "gives I (entries_loop env c nested (entry_passes rest))
        (\<lambda>r. \<exists>ds. r = Some ds \<and> lines_in ds (cat (map (entry_readings env) rest)))"
      using "2.IH"(1)[OF True arg(2) sib _ prems(4)] prems(3) by simp
    have pass: "entry_passes (arg # rest) = (arg, None, None) # entry_passes rest" using True by simp
    show ?thesis unfolding pass entries_loop.simps if_P[OF True]
    proof (rule gives_bind[OF display[OF arg(1) prems(4)]], rule gives_bind[OF IH], rule gives_return)
      fix tx r
      assume "reads env arg tx \<and> (is_comment arg \<longrightarrow> starts_with (CHR '';'') tx)"
        "\<exists>ds. r = Some ds \<and> lines_in ds (cat (map (entry_readings env) rest))"
      then show "\<exists>ds. map_option (\<lambda>ps. [Hardline, Verbatim tx] @ ps) r = Some ds \<and> lines_in ds (cat (map (entry_readings env) (arg # rest)))"
        using Hardline_Cons[of "[Verbatim tx]" "readings env arg"] lexes_in_open[OF reads_lexes[of env arg tx], of True] comment_reading[OF True]
        by auto
    qed
  next
    case False
    then obtain entry where entry: "split_tuple_entry arg = Some entry" using prems(3) by auto
    obtain er where er: "match_list arg = Some (te_key entry # er)" "er = te_before entry @ te_value entry # te_after entry"
      "\<not> is_comment (te_value entry)" "list_all is_comment (te_after entry)" "match_atom (te_key entry) \<noteq> None"
      "child (te_key entry)" "list_all child er" "siblings_ok er"
      "entry_readings env arg = entry_reading (readings env (te_key entry)) er"
      using entry_parts[OF arg(1) entry] by metis
    obtain trailing rest1 where tr: "get_trailing_comment arg rest = (trailing, rest1)" by force
    note step = with_trailing_step[OF tr prems(2) arg]
    have opt: "list_all is_comment (opt_list trailing)" "list_all child (opt_list trailing)"
      using step(3) by (cases trailing; auto)+
    have IH: "gives I (entries_loop env c nested (entry_passes rest1))
        (\<lambda>r. \<exists>ds. r = Some ds \<and> lines_in ds (cat (map (entry_readings env) rest1)))"
      using "2.IH"(2)[OF False tr[symmetric] step(1,2) _ prems(4)] prems(3) step(4) by simp
    have pass: "entry_passes (arg # rest) = (arg, trailing, peek rest1) # entry_passes rest1" using False by (simp add: tr)
    let ?cs = "te_after entry @ opt_list trailing"
    have after: "list_all (\<lambda>x. end_line (span_of (te_value entry)) \<le> start_line (span_of x)) (te_after entry) \<and>
        sorted_wrt (\<lambda>a b. start_line (span_of a) < start_line (span_of b)) (te_after entry)"
      using siblings_comments[OF er(4) _ er(3)] siblings_ok_append[of "te_before entry"] er(2,8) by blast
    have line: "end_line (span_of (te_value entry)) \<le> start_line (span_of x) \<and>
        (\<forall>y\<in>set (te_after entry). start_line (span_of y) < start_line (span_of x))" if "trailing = Some x" for x
    proof -
      have x: "end_line (span_of arg) = start_line (span_of x)"
        using trailing_comment_cases[OF tr prems(2) child_ok[OF arg(1)]] that by auto
      show ?thesis using after_bound[OF arg(1) er(1,2,3,4)] x by auto
    qed
    have cs: "list_all (\<lambda>x. child x \<and> is_comment x) ?cs"
        "list_all (\<lambda>x. end_line (span_of (te_value entry)) \<le> start_line (span_of x)) ?cs"
        "sorted_wrt (\<lambda>a b. start_line (span_of a) < start_line (span_of b)) ?cs"
      using after opt er(4,7) line by (auto simp: er(2) list_all_iff sorted_wrt_append opt_list_def split: option.splits)
    have key: "\<not> is_comment (te_key entry)" using er(5) atom_not_comment by blast
    have readings: "cat (map (entry_readings env) (arg # rest)) =
        seq (seq (entry_reading (readings env (te_key entry)) (te_before entry @ [te_value entry])) (all_readings env ?cs))
          (cat (map (entry_readings env) rest1))"
    proof -
      have "cat (map (entry_readings env) (opt_list trailing)) = all_readings env (opt_list trailing)"
        using opt(1) comment_reading by (cases trailing) auto
      then show ?thesis by (simp add: step(4) er(9) er(2) entry_reading_def)
    qed
    show ?thesis unfolding pass entries_loop.simps if_not_P[OF False] entry option.case
    proof (rule gives_bind[OF check_ignored], use step(1) peek_child in blast, rule gives_bind[OF display[OF er(6) prems(4)]])
      fix kx assume "reads env (te_key entry) kx \<and> (is_comment (te_key entry) \<longrightarrow> starts_with (CHR '';'') kx)"
      then have kx: "lexes_in kx (readings env (te_key entry)) False" using reads_lexes key by force
      have gap: "list_all child (te_before entry)" "child (te_value entry)" using er(2,7) by auto
      note entry_gives = entry_doc_gives[OF gap er(3) kx prems(4)]
      note comments_gives = after_comments_gives[OF cs(1,3,2) prems(4)]
      show "gives I (bind_fmt (entry_doc env c kx (te_before entry) (te_value entry) nested) (\<lambda>entry_parts.
          bind_fmt (after_comments c nested (te_value entry) (te_after entry @ (case trailing of None \<Rightarrow> [] | Some x \<Rightarrow> [x]))) (\<lambda>comment_parts.
          bind_fmt (entries_loop env c nested (entry_passes rest1)) (\<lambda>parts.
          fmt_return (map_option (\<lambda>ps. entry_parts @ comment_parts @ ps) parts)))))
        (\<lambda>r. \<exists>ds. r = Some ds \<and> lines_in ds (cat (map (entry_readings env) (arg # rest))))"
        unfolding opt_list_def[symmetric]
      proof (rule gives_bind[OF entry_gives], rule gives_bind[OF comments_gives], rule gives_bind[OF IH], rule gives_return)
        fix ep cp r
        assume ep: "entry_lines ep (entry_reading (readings env (te_key entry)) (te_before entry @ [te_value entry]))"
          and cp: "list_all plain cp \<and> (\<forall>a A. lexes_in a A (list_all (\<lambda>x. start_line (span_of x) \<noteq> end_line (span_of (te_value entry))) ?cs) \<longrightarrow>
            lexes_in (a @ flows cp) (seq A (all_readings env ?cs)) True)"
          and r: "\<exists>ds. r = Some ds \<and> lines_in ds (cat (map (entry_readings env) rest1))"
        obtain eps where eps: "ep = Hardline # eps" "list_all plain eps"
            "lexes_in (flows eps) (entry_reading (readings env (te_key entry)) (te_before entry @ [te_value entry])) False"
          using ep by (auto simp: entry_lines_def)
        obtain ds where ds: "r = Some ds" "lines_in ds (cat (map (entry_readings env) rest1))" using r by blast
        have "lexes_in (flows (eps @ cp)) (seq (entry_reading (readings env (te_key entry)) (te_before entry @ [te_value entry])) (all_readings env ?cs)) True"
          using cp lexes_in_open[OF eps(3)] by simp
        from Hardline_Cons[OF _ this ds(2)] eps(1,2) cp
        show "\<exists>ds. map_option (\<lambda>ps. ep @ cp @ ps) r = Some ds \<and> lines_in ds (cat (map (entry_readings env) (arg # rest)))"
          unfolding readings by (simp add: ds(1))
      qed
    qed
  qed
qed (simp add: lines_in_Nil)

lemma inline_single_gives:
  assumes "list_all child es" "list_all (\<lambda>x. is_comment x \<or> split_tuple_entry x \<noteq> None) es" "blanks ind"
  shows "gives I
      (case es of
         [entry] \<Rightarrow> (case match_list entry of Some (key # val) \<Rightarrow> inline_entry env c key val ind | _ \<Rightarrow> fmt_return None)
       | _ \<Rightarrow> fmt_return None)
      (\<lambda>r. \<forall>s. r = Some s \<longrightarrow> texts_in s (seq {[''{'']} (seq (cat (map (entry_readings env) es)) {[''}'']})) False)"
proof (cases "\<exists>arg key val. es = [arg] \<and> match_list arg = Some (key # val)")
  case True
  then obtain arg key val where es: "es = [arg]" "match_list arg = Some (key # val)" by blast
  then have "child arg" "\<not> is_comment arg" using assms(1) by (auto simp: match_list_def is_comment_def split: pre_expr.splits)
  moreover then obtain entry where "split_tuple_entry arg = Some entry" using assms(2) es(1) by auto
  ultimately obtain rest where r: "match_list arg = Some (te_key entry # rest)" "rest = te_before entry @ te_value entry # te_after entry"
      "\<not> is_comment (te_value entry)" "list_all is_comment (te_after entry)"
      "child (te_key entry)" "list_all child rest" "entry_readings env arg = entry_reading (readings env (te_key entry)) rest"
      "split_tuple_entry arg = Some entry"
    using entry_parts by metis
  have before: "list_all is_comment (te_before entry)"
    using r(8) takeWhile_comments by (auto simp: split_tuple_entry_def split: option.splits list.splits if_splits)
  have "\<exists>v. rest = [v]" if "\<not> contains_comments rest"
    using that r(2,4) before by (cases "te_before entry"; cases "te_after entry") (auto simp: contains_comments_def)
  from inline_entry_gives[OF r(5,6) this assms(3)] show ?thesis using r(1,7) es by simp
qed (auto split: list.split option.split)

lemma format_key_value_reads:
  assumes "list_all child es" "siblings_ok es" "blanks ind"
  shows "gives I (format_key_value env c es ind) (\<lambda>r.
    if list_all (\<lambda>x. is_comment x \<or> split_tuple_entry x \<noteq> None) es
    then \<exists>s. r = Some s \<and> texts_in s (seq {[''{'']} (seq (cat (map (entry_readings env) es)) {[''}'']})) False
    else r = None)"
proof (cases "list_all (\<lambda>x. is_comment x \<or> split_tuple_entry x \<noteq> None) es")
  case True
  show ?thesis
  proof (rule gives_layout)
    assume l: "blanks (indentation_str env)"
    have nested: "blanks (indented env ind)" using assms(3) l by (simp add: indented_def)
    show ?thesis unfolding format_key_value_def using True
      by (auto intro!: gives_bind[OF inline_single_gives[OF assms(1) True assms(3)]] gives_case_option
          gives_bind[OF entries_loop_gives[OF assms(1,2) True nested]] braces_block assms(3) l)
  qed
qed (simp add: format_key_value_def)

end

end
