(* ===== verification/Format_Traits.thy ===== *)
theory Format_Traits
  imports Format_Tuples
begin

text \<open>The layout of trait definitions, under the contract of the recursion.\<close>

section \<open>Sequences of expressions and the comments before them\<close>

definition item_exprs :: "sequence_item \<Rightarrow> pse list" where
  "item_exprs it = comments it @ [expression it]"

lemma sequence_split:
  "es = concat (map item_exprs (items (sequence_from es))) @ end_comments (sequence_from es) \<and>
   list_all (\<lambda>it. list_all is_comment (comments it) \<and> \<not> is_comment (expression it)) (items (sequence_from es)) \<and>
   list_all is_comment (end_comments (sequence_from es))"
proof (induction es rule: sequence_from.induct)
  case (1 es)
  show ?case
  proof (cases "dropWhile is_comment es")
    case Nil
    then have "list_all is_comment es" by (simp add: dropWhile_eq_Nil_conv list_all_iff)
    moreover have "sequence_from es = \<lparr>items = [], end_comments = es\<rparr>" by (subst sequence_from.simps) (simp add: Nil)
    ultimately show ?thesis by simp
  next
    case (Cons e rest)
    have es: "es = takeWhile is_comment es @ e # rest" using Cons by (metis takeWhile_dropWhile_id)
    have e: "\<not> is_comment e" using Cons by (metis hd_dropWhile list.discI list.sel(1))
    have step: "sequence_from es = (sequence_from rest)\<lparr>items :=
        \<lparr>expression = e, comments = takeWhile is_comment es\<rparr> # items (sequence_from rest)\<rparr>"
      by (subst sequence_from.simps) (simp add: Cons Let_def)
    show ?thesis using "1.IH"[OF Cons] es e takeWhile_comments[of es] unfolding step
      by (auto simp: item_exprs_def)
  qed
qed

lemma siblings_concat: "siblings_ok (concat (map item_exprs its)) \<Longrightarrow> it \<in> set its \<Longrightarrow> siblings_ok (comments it)"
proof (induction its)
  case (Cons x its)
  have "siblings_ok (comments x @ expression x # concat (map item_exprs its))"
    using Cons.prems(1) by (simp add: item_exprs_def[of x])
  then have "siblings_ok (comments x)" "siblings_ok (concat (map item_exprs its))"
    using siblings_ok_append[of "comments x"] siblings_ok_Cons[of "expression x"] by blast+
  with Cons show ?case by auto
qed simp

text \<open>A text that any other text can be written after.\<close>

definition joinable :: "string \<Rightarrow> string list set \<Rightarrow> bool" where
  "joinable a A = (\<forall>b B op. lexes_in b B op \<longrightarrow> lexes_in (a @ b) (seq A B) op)"

lemma joinable_bracket: "joinable ''('' {[''('']}"
  using lexes_in_open_bracket[of "CHR ''(''"] by (simp add: joinable_def)

lemma joinable_newline: "lexes_in a A True \<Longrightarrow> joinable (a @ [newline]) A"
  by (auto simp: joinable_def intro: lexes_in_newline)

lemma joinable_space: "lexes_in a A False \<Longrightarrow> joinable (a @ '' '') A"
  by (auto simp: joinable_def intro: lexes_in_space)

lemma joinable_closed: "joinable a A \<Longrightarrow> lexes_in a A False"
  unfolding joinable_def by (metis append_Nil2 lexes_in_Nil seq_simps(2) singletonI)

text \<open>What has to stand before a separator.\<close>

definition separates :: "doc \<Rightarrow> string \<Rightarrow> string list set \<Rightarrow> bool" where
  "separates sep a A = (if sep = Text [] then joinable a A else lexes_in a A False)"

lemma separates_closed: "separates sep a A \<Longrightarrow> lexes_in a A False"
  by (auto simp: separates_def joinable_closed split: if_splits)

lemma joinable_separator:
  assumes "sep \<in> {Hardline, Text [], Text '' ''}" "separates sep a A" shows "joinable (a @ flow sep) A"
  using assms joinable_space[of a A] joinable_newline[OF lexes_in_open, of a A False]
  by (auto simp: separates_def split: if_splits)

context formatter_calls begin

definition gap_ok :: "pse list \<Rightarrow> bool" where
  "gap_ok gap = (list_all child gap \<and> list_all is_comment gap \<and> siblings_ok gap)"

definition item_ok :: "sequence_item \<Rightarrow> bool" where
  "item_ok it = (gap_ok (comments it) \<and> child (expression it) \<and> \<not> is_comment (expression it))"

lemma sequence_parts:
  assumes "list_all child es" "siblings_ok es"
  shows "es = concat (map item_exprs (items (sequence_from es))) @ end_comments (sequence_from es)"
    "list_all item_ok (items (sequence_from es))" "gap_ok (end_comments (sequence_from es))"
proof -
  note s = sequence_split[of es]
  then show es: "es = concat (map item_exprs (items (sequence_from es))) @ end_comments (sequence_from es)" by blast
  have sib: "siblings_ok (concat (map item_exprs (items (sequence_from es))))" "siblings_ok (end_comments (sequence_from es))"
    using assms(2) es siblings_ok_append by metis+
  have ch: "list_all child (concat (map item_exprs (items (sequence_from es))))" "list_all child (end_comments (sequence_from es))"
    using assms(1) es list_all_append by metis+
  show "gap_ok (end_comments (sequence_from es))" using s sib(2) ch(2) by (simp add: gap_ok_def)
  show "list_all item_ok (items (sequence_from es))"
    using s siblings_concat[OF sib(1)] ch(1) by (auto simp: list_all_iff item_ok_def gap_ok_def item_exprs_def)
qed

lemma comment_gap_gives:
  "gap_ok gap \<Longrightarrow> blanks ind \<Longrightarrow>
     (\<forall>prev. previous = Some prev \<and> is_comment prev \<longrightarrow> expr_ok env prev \<and> siblings_ok (prev # gap)) \<Longrightarrow>
     gives I (comment_gap_loop c ind previous gap) (\<lambda>ds. list_all plain ds \<and>
       (\<forall>a A. lexes_in a A (\<exists>prev. previous = Some prev \<and> is_comment prev) \<longrightarrow>
          lexes_in (a @ flows ds) (seq A (all_readings env gap)) True))"
proof (induction gap arbitrary: previous)
  case (Cons x gap)
  have x: "child x" "is_comment x" "gap_ok gap" "siblings_ok (x # gap)"
    using Cons.prems(1) siblings_ok_Cons[of x gap] by (auto simp: gap_ok_def)
  have IH: "gives I (comment_gap_loop c ind (Some x) gap) (\<lambda>ds. list_all plain ds \<and>
       (\<forall>a A. lexes_in a A True \<longrightarrow> lexes_in (a @ flows ds) (seq A (all_readings env gap)) True))"
    using Cons.IH[OF x(3) Cons.prems(2), of "Some x"] x child_ok by simp
  have fresh: "gives I (bind_fmt (call_display c x ind) (\<lambda>tx. fmt_return [Hardline, Verbatim tx]))
      (\<lambda>ds. list_all plain ds \<and> (\<forall>a A. lexes_in a A True \<longrightarrow> lexes_in (a @ flows ds) (seq A (readings env x)) True))"
    by (rule gives_bind[OF display[OF x(1) Cons.prems(2)]]) (use x(2) in \<open>auto dest!: reads_lexes intro: lexes_in_newline\<close>)
  have same: "gives I (bind_fmt (spaced_comment c prev x ind) (\<lambda>tx. fmt_return [Verbatim tx]))
      (\<lambda>ds. list_all plain ds \<and> (\<forall>a A. lexes_in a A False \<longrightarrow> lexes_in (a @ flows ds) (seq A (readings env x)) True))" for prev
    by (rule gives_bind[OF spaced_comment_gives[OF x(1,2) Cons.prems(2)]]) (auto simp: attaches_def)
  let ?first = "case previous of
      Some prev \<Rightarrow>
        if end_line (span_of prev) = start_line (span_of x)
        then bind_fmt (spaced_comment c prev x ind) (\<lambda>tx. fmt_return [Verbatim tx])
        else bind_fmt (call_display c x ind) (\<lambda>tx. fmt_return [Hardline, Verbatim tx])
    | None \<Rightarrow> bind_fmt (call_display c x ind) (\<lambda>tx. fmt_return [Hardline, Verbatim tx])"
  have later: "end_line (span_of prev) \<noteq> start_line (span_of x)" if "previous = Some prev" "is_comment prev" for prev
    using Cons.prems(3) that comment_ok[of env prev] by fastforce
  have first: "gives I ?first (\<lambda>ds. list_all plain ds \<and>
      (\<forall>a A. lexes_in a A (\<exists>prev. previous = Some prev \<and> is_comment prev) \<longrightarrow> lexes_in (a @ flows ds) (seq A (readings env x)) True))"
  proof (cases previous)
    case None
    show ?thesis by (auto simp: None intro!: gives_mono[OF fresh] dest: lexes_in_open)
  next
    case (Some prev)
    show ?thesis
    proof (cases "end_line (span_of prev) = start_line (span_of x)")
      case True
      with later Some have "\<not> is_comment prev" by blast
      then show ?thesis using True by (auto simp: Some intro!: gives_mono[OF same])
    next
      case False
      then show ?thesis by (auto simp: Some intro!: gives_mono[OF fresh] dest: lexes_in_open)
    qed
  qed
  show ?case unfolding comment_gap_loop.simps
  proof (rule gives_bind[OF first], rule gives_bind[OF IH], rule gives_return, intro conjI allI impI)
    fix ds more a A
    assume ds: "list_all plain ds \<and> (\<forall>a A. lexes_in a A (\<exists>prev. previous = Some prev \<and> is_comment prev) \<longrightarrow>
        lexes_in (a @ flows ds) (seq A (readings env x)) True)"
      and more: "list_all plain more \<and> (\<forall>a A. lexes_in a A True \<longrightarrow> lexes_in (a @ flows more) (seq A (all_readings env gap)) True)"
    show "list_all plain (ds @ more)" using ds more by simp
    assume "lexes_in a A (\<exists>prev. previous = Some prev \<and> is_comment prev)"
    with ds have "lexes_in (a @ flows ds) (seq A (readings env x)) True" by blast
    with more have "lexes_in ((a @ flows ds) @ flows more) (seq (seq A (readings env x)) (all_readings env gap)) True" by blast
    then show "lexes_in (a @ flows (ds @ more)) (seq A (all_readings env (x # gap))) True" by simp
  qed
qed (auto intro: lexes_in_open)

text \<open>Comments after an expression, or at the start of a list.\<close>

definition follows :: "doc \<Rightarrow> pse list \<Rightarrow> bool" where
  "follows d gap = (plain d \<and> (\<forall>a A. lexes_in a A False \<longrightarrow> lexes_in (a @ flow d) (seq A (all_readings env gap)) (gap \<noteq> [])))"

lemma comment_gap_doc_gives:
  assumes "gap_ok gap" "blanks ind" "\<forall>prev. previous = Some prev \<longrightarrow> \<not> is_comment prev"
  shows "gives I (comment_gap_doc c gap previous ind) (\<lambda>d. follows d gap)"
proof (cases "gap = []")
  case False
  have closed: "(\<exists>prev. previous = Some prev \<and> is_comment prev) = False" using assms(3) by blast
  show ?thesis unfolding comment_gap_doc_def
    by (rule gives_bind[OF comment_gap_gives[OF assms(1,2), of previous, unfolded closed]])
      (use assms(3) False in \<open>auto simp: follows_def\<close>)
qed (auto simp: comment_gap_doc_def follows_def bind_fmt_def fmt_return_def gives_def)

lemma trait_item_prefix_gives:
  assumes "gap_ok gap" "blanks ind" "\<forall>prev. previous = Some prev \<longrightarrow> \<not> is_comment prev" "sep \<in> {Hardline, Text [], Text '' ''}"
  shows "gives I (trait_item_prefix c gap previous sep ind) (\<lambda>d. plain d \<and>
    (\<forall>a A. separates sep a A \<longrightarrow> joinable (a @ flow d) (seq A (all_readings env gap))))"
proof (cases "gap = []")
  case True
  with assms(4) joinable_separator[OF assms(4)] show ?thesis by (auto simp: trait_item_prefix_def)
next
  case False
  have "joinable (a @ flow d @ [newline]) (seq A (all_readings env gap))" if "separates sep a A" "follows d gap" for a A d
    using joinable_newline[of "a @ flow d" "seq A (all_readings env gap)"] that separates_closed[OF that(1)] False
    by (simp add: follows_def)
  with False show ?thesis
    by (auto simp: trait_item_prefix_def follows_def intro!: gives_bind[OF comment_gap_doc_gives[OF assms(1-3)]])
qed

definition items_reading :: "sequence_item list \<Rightarrow> string list set" where
  "items_reading its = all_readings env (concat (map item_exprs its))"

lemma trait_list_loop_gives:
  assumes item: "\<And>i e nested. child e \<Longrightarrow> \<not> is_comment e \<Longrightarrow> blanks nested \<Longrightarrow>
    gives I (item_doc i e nested) (\<lambda>d. plain d \<and> lexes_in (flow d) (readings env e) False)"
    and nested: "blanks nested"
  shows "list_all item_ok its \<Longrightarrow> \<forall>prev. previous = Some prev \<longrightarrow> \<not> is_comment prev \<Longrightarrow> sep \<in> {Hardline, Text []} \<Longrightarrow>
    gives I (trait_list_loop c nested item_doc i sep previous its) (\<lambda>(body, previous').
      list_all plain body \<and> (\<forall>prev. previous' = Some prev \<longrightarrow> \<not> is_comment prev) \<and>
      (\<forall>a A. separates sep a A \<longrightarrow> lexes_in (a @ flows body) (seq A (items_reading its)) False))"
proof (induction its arbitrary: i sep previous)
  case Nil
  then show ?case by (auto simp: items_reading_def dest: separates_closed)
next
  case (Cons it its)
  have it: "gap_ok (comments it)" "child (expression it)" "\<not> is_comment (expression it)" "list_all item_ok its"
    using Cons.prems(1) item_ok_def[of it] by auto
  have sep: "sep \<in> {Hardline, Text [], Text '' ''}" using Cons.prems(3) by auto
  have IH: "gives I (trait_list_loop c nested item_doc (Suc i) Hardline (Some (expression it)) its) (\<lambda>(body, previous').
      list_all plain body \<and> (\<forall>prev. previous' = Some prev \<longrightarrow> \<not> is_comment prev) \<and>
      (\<forall>a A. lexes_in a A False \<longrightarrow> lexes_in (a @ flows body) (seq A (items_reading its)) False))"
    using Cons.IH[OF it(4), of "Some (expression it)" Hardline "Suc i"] it(3) by (simp add: separates_def)
  show ?case unfolding trait_list_loop.simps
  proof (rule gives_bind[OF trait_item_prefix_gives[OF it(1) nested Cons.prems(2) sep]],
      rule gives_bind[OF item[OF it(2,3) nested]], rule gives_bind[OF IH])
    fix prefix d r
    assume prefix: "plain prefix \<and> (\<forall>a A. separates sep a A \<longrightarrow> joinable (a @ flow prefix) (seq A (all_readings env (comments it))))"
      and d: "plain d \<and> lexes_in (flow d) (readings env (expression it)) False"
      and r: "case r of (body, previous') \<Rightarrow> list_all plain body \<and> (\<forall>prev. previous' = Some prev \<longrightarrow> \<not> is_comment prev) \<and>
        (\<forall>a A. lexes_in a A False \<longrightarrow> lexes_in (a @ flows body) (seq A (items_reading its)) False)"
    obtain body previous' where rp: "r = (body, previous')" by force
    have "lexes_in (a @ flows ([prefix, d] @ body)) (seq A (items_reading (it # its))) False" if "separates sep a A" for a A
    proof -
      have "lexes_in ((a @ flow prefix) @ flow d) (seq (seq A (all_readings env (comments it))) (readings env (expression it))) False"
        using prefix d that unfolding joinable_def by blast
      then have "lexes_in (((a @ flow prefix) @ flow d) @ flows body)
          (seq (seq (seq A (all_readings env (comments it))) (readings env (expression it))) (items_reading its)) False"
        using r unfolding rp by blast
      then show ?thesis by (simp add: items_reading_def item_exprs_def)
    qed
    then show "gives I (case r of (body, previous') \<Rightarrow> fmt_return ([prefix, d] @ body, previous')) (\<lambda>(body, previous').
        list_all plain body \<and> (\<forall>prev. previous' = Some prev \<longrightarrow> \<not> is_comment prev) \<and>
        (\<forall>a A. separates sep a A \<longrightarrow> lexes_in (a @ flows body) (seq A (items_reading (it # its))) False))"
      using prefix d r by (auto simp: rp)
  qed
qed

lemma trait_list_doc_gives:
  assumes "list_all child es" "siblings_ok es" "blanks ind" "sep \<in> {Hardline, Text []}"
    and item: "\<And>i e nested. child e \<Longrightarrow> \<not> is_comment e \<Longrightarrow> blanks nested \<Longrightarrow>
      gives I (item_doc i e nested) (\<lambda>d. plain d \<and> lexes_in (flow d) (readings env e) False)"
  shows "gives I (trait_list_doc env c es ind sep item_doc) (\<lambda>d. plain d \<and> lexes_in (flow d) (list_reading env es) False)"
proof (rule gives_layout)
  assume "blanks (indentation_str env)"
  then have nested: "blanks (indented env ind)" using assms(3) by (simp add: indented_def)
  note parts = sequence_parts[OF assms(1,2)]
  show ?thesis
  proof (cases "es = []")
    case True
    have "lexes_in ''()'' (seq {[''('']} {['')'']}) False"
      using lexes_in_open_bracket[of "CHR ''(''" "'')''" "{['')'']}"] lexes_in_close_bracket[of "CHR '')''" "[]" "{[]}"] by simp
    with True show ?thesis by (auto simp: trait_list_doc_def list_reading_def)
  next
    case False
    show ?thesis unfolding trait_list_doc_def Let_def if_not_P[OF False]
    proof (rule gives_bind[OF trait_list_loop_gives[OF item nested parts(2) _ assms(4)]], assumption, assumption, assumption, simp)
      fix r
      assume r: "case r of (body, previous') \<Rightarrow> list_all plain body \<and> (\<forall>prev. previous' = Some prev \<longrightarrow> \<not> is_comment prev) \<and>
        (\<forall>a A. separates sep a A \<longrightarrow> lexes_in (a @ flows body) (seq A (items_reading (items (sequence_from es)))) False)"
      obtain body previous where rp: "r = (body, previous)" by force
      have "separates sep ''('' {[''('']}" using joinable_bracket joinable_closed by (simp add: separates_def)
      then have body: "lexes_in (''('' @ flows body) (seq {[''('']} (items_reading (items (sequence_from es)))) False"
        using r unfolding rp by blast
      have prev: "\<forall>prev. previous = Some prev \<longrightarrow> \<not> is_comment prev" using r by (simp add: rp)
      show "gives I (case r of (body, previous) \<Rightarrow> bind_fmt (comment_gap_doc c (end_comments (sequence_from es)) previous (indented env ind))
          (\<lambda>gap. fmt_return (block (Text ''('') (body @ [gap]) '')''))) (\<lambda>d. plain d \<and> lexes_in (flow d) (list_reading env es) False)"
        unfolding rp prod.case
      proof (rule gives_bind[OF comment_gap_doc_gives[OF parts(3) nested prev]], rule gives_return)
        fix gap assume gap: "follows gap (end_comments (sequence_from es))"
        have reading: "all_readings env es = seq (items_reading (items (sequence_from es))) (all_readings env (end_comments (sequence_from es)))"
          using arg_cong[OF parts(1), of "all_readings env"] by (simp add: items_reading_def)
        have "lexes_in ((''('' @ flows body) @ flow gap) (seq {[''('']} (all_readings env es)) True"
          using gap body lexes_in_open unfolding follows_def reading seq_simps(3)[symmetric] by blast
        from lexes_in_newline[OF this lexes_in_close_bracket[of "CHR '')''" "[]" "{[]}" False]]
        show "plain (block (Text ''('') (body @ [gap]) '')'') \<and> lexes_in (flow (block (Text ''('') (body @ [gap]) '')'')) (list_reading env es) False"
          using r gap by (auto simp: block_def rp follows_def list_reading_def)
      qed
    qed
  qed
qed

lemma trait_part_gives:
  assumes "child e" "\<not> is_comment e" "blanks nested"
  shows "gives I (trait_part_doc c i e nested) (\<lambda>d. plain d \<and> lexes_in (flow d) (readings env e) False)"
  unfolding trait_part_doc_def
  by (rule gives_bind[where P = "reads env e"])
    (use assms reads_lexes[of env e] in \<open>auto intro!: gives_mono[OF display[OF assms(1,3)]] preserve\<close>)

lemma trait_method_gives:
  assumes "child e" "\<not> is_comment e" "blanks nested"
  shows "gives I (trait_method_doc env c e nested) (\<lambda>d. plain d \<and> lexes_in (flow d) (readings env e) False)"
proof (cases "match_list e")
  case None
  then show ?thesis
    using assms reads_lexes[of env e] by (auto simp: trait_method_doc_def intro!: gives_bind[OF preserve[OF assms(1,3)]])
next
  case (Some es)
  note parts = list_parts[OF assms(1) Some]
  show ?thesis unfolding trait_method_doc_def Some option.case
    by (rule gives_mono[OF trait_list_doc_gives[OF parts(1,2) assms(3)]])
      (use parts(3) lexes_in_mono in \<open>auto intro: trait_part_gives\<close>)
qed

lemma trait_doc_gives:
  assumes "item_ok name" "item_ok methods" "gap_ok (end_comments sequence)" "blanks ind"
    and "\<not> is_comment (expression keyword)" "match_list (expression methods) = Some method_list"
    and "\<And>op. lexes_in ''(define-trait'' A op"
  shows "gives I (trait_doc env c sequence keyword name methods method_list ind) (\<lambda>d. plain d \<and> flow d \<noteq> [] \<and>
    last (flow d) = CHR '')'' \<and>
    lexes_in (flow d) (seq A (seq (items_reading [name, methods]) (seq (all_readings env (end_comments sequence)) {['')'']}))) False)"
proof (rule gives_layout)
  assume "blanks (indentation_str env)"
  then have nested: "blanks (indented env ind)" using assms(4) by (simp add: indented_def)
  let ?empty = "method_list = [] \<and> end_line (span_of (expression name)) \<noteq> start_line (span_of (expression methods))"
  let ?multi = "?empty \<or> comments name \<noteq> [] \<or> comments methods \<noteq> []"
  let ?ind = "if ?multi then indented env ind else ind"
  have ind: "blanks ?ind" using nested assms(4) by simp
  have it: "gap_ok (comments name)" "child (expression name)" "\<not> is_comment (expression name)"
    "gap_ok (comments methods)" "child (expression methods)" "\<not> is_comment (expression methods)"
    using assms(1,2) by (auto simp: item_ok_def)
  have sep: "Text '' '' \<in> {Hardline, Text [], Text '' ''}"
    "(if ?empty then Hardline else Text '' '') \<in> {Hardline, Text [], Text '' ''}" by simp_all
  have some: "\<forall>prev. Some x = Some prev \<longrightarrow> \<not> is_comment prev" if "\<not> is_comment x" for x using that by simp
  note list = list_parts[OF it(5) assms(6)]
  note methods = trait_list_doc_gives[OF list(1,2) ind, of Hardline "\<lambda>_ method_expr inner. trait_method_doc env c method_expr inner"]
  show ?thesis unfolding trait_doc_def Let_def
  proof (rule gives_bind[OF trait_item_prefix_gives[OF it(1) ind some[OF assms(5)] sep(1)]],
      rule gives_bind[OF display[OF it(2) ind]],
      rule gives_bind[OF trait_item_prefix_gives[OF it(4) ind some[OF it(3)] sep(2)]],
      rule gives_bind[OF methods], simp, rule trait_method_gives, assumption, assumption, assumption,
      rule gives_bind[OF comment_gap_doc_gives[OF assms(3) nested some[OF it(6)]]], rule gives_return)
    fix d1 nx d2 d3 gap
    assume d1: "plain d1 \<and> (\<forall>a A. separates (Text '' '') a A \<longrightarrow> joinable (a @ flow d1) (seq A (all_readings env (comments name))))"
      and nx: "reads env (expression name) nx \<and> (is_comment (expression name) \<longrightarrow> starts_with (CHR '';'') nx)"
      and d2: "plain d2 \<and> (\<forall>a A. separates (if ?empty then Hardline else Text '' '') a A \<longrightarrow>
        joinable (a @ flow d2) (seq A (all_readings env (comments methods))))"
      and d3: "plain d3 \<and> lexes_in (flow d3) (list_reading env method_list) False"
      and gap: "follows gap (end_comments sequence)"
    let ?h = "''(define-trait'' @ flow d1 @ nx @ flow d2 @ flow d3"
    have "separates (Text '' '') ''(define-trait'' A" using assms(7)[of False] by (simp add: separates_def)
    then have "joinable (''(define-trait'' @ flow d1) (seq A (all_readings env (comments name)))" using d1 by blast
    moreover have "lexes_in nx (readings env (expression name)) False"
      using nx reads_lexes[of env "expression name" nx] it(3) by simp
    ultimately have "lexes_in ((''(define-trait'' @ flow d1) @ nx) (seq (seq A (all_readings env (comments name))) (readings env (expression name))) False"
      unfolding joinable_def by blast
    then have "separates (if ?empty then Hardline else Text '' '') ((''(define-trait'' @ flow d1) @ nx)
        (seq (seq A (all_readings env (comments name))) (readings env (expression name)))" by (auto simp: separates_def)
    then have "joinable (((''(define-trait'' @ flow d1) @ nx) @ flow d2)
        (seq (seq (seq A (all_readings env (comments name))) (readings env (expression name))) (all_readings env (comments methods)))"
      using d2 by blast
    moreover have "lexes_in (flow d3) (readings env (expression methods)) False" using d3 list(3) lexes_in_mono by blast
    ultimately have "lexes_in ((((''(define-trait'' @ flow d1) @ nx) @ flow d2) @ flow d3)
        (seq (seq (seq (seq A (all_readings env (comments name))) (readings env (expression name))) (all_readings env (comments methods)))
          (readings env (expression methods))) False"
      unfolding joinable_def by blast
    then have head: "lexes_in ?h (seq A (items_reading [name, methods])) False"
      by (simp add: items_reading_def item_exprs_def)
    let ?R = "seq (seq A (items_reading [name, methods])) (all_readings env (end_comments sequence))"
    have all: "lexes_in (?h @ flow gap) ?R (end_comments sequence \<noteq> [])" using gap head unfolding follows_def by blast
    have close: "lexes_in ((?h @ flow gap) @ (if m then [newline] else []) @ '')'') (seq ?R {['')'']}) False"
      if "end_comments sequence \<noteq> [] \<longrightarrow> m" for m
      using lexes_in_newline[OF lexes_in_open[OF all] lexes_in_close_bracket[of "CHR '')''" "[]" "{[]}" False]]
        lexes_in_close_bracket[OF _ lexes_in_open[OF all], of "CHR '')''" False] that by auto
    let ?d = "Concat ([Text ''(define-trait'', if ?multi then Indent (Concat [d1, Verbatim nx, d2, d3]) else Concat [d1, Verbatim nx, d2, d3],
        Indent gap] @ (if ?multi \<or> end_comments sequence \<noteq> [] then [Hardline] else []) @ [Text '')''])"
    show "plain ?d \<and> flow ?d \<noteq> [] \<and> last (flow ?d) = CHR '')'' \<and> lexes_in (flow ?d)
        (seq A (seq (items_reading [name, methods]) (seq (all_readings env (end_comments sequence)) {['')'']}))) False"
      using d1 d2 d3 gap close[of "?multi \<or> end_comments sequence \<noteq> []"] by (auto simp: follows_def)
  qed
qed

lemma define_trait_reads:
  assumes es: "list_all child es" "siblings_ok es" "es = first # args" "match_atom first = Some ''define-trait''" and ind: "blanks ind"
    and self: "gives I (preserve_expr env c e ind) (reads env e)" "list_reading env es \<subseteq> readings env e" "\<not> is_comment e"
  shows "gives I (define_trait env c e es ind) (reads env e)"
proof (cases "\<exists>keyword name methods method_list. items (sequence_from es) = [keyword, name, methods] \<and> match_list (expression methods) = Some method_list")
  case True
  then obtain keyword name methods method_list where it: "items (sequence_from es) = [keyword, name, methods]"
      "match_list (expression methods) = Some method_list" by blast
  note parts = sequence_parts[OF es(1,2)]
  have first: "\<not> is_comment first" using atom_not_comment es(4) by blast
  have kw: "comments keyword = []" "expression keyword = first"
    using parts(1,2) first it(1) es(3) by (cases "comments keyword"; auto simp: item_exprs_def item_ok_def gap_ok_def)+
  have reading: "list_reading env es = seq (seq {[''('']} (readings env first)) (seq (items_reading [name, methods])
      (seq (all_readings env (end_comments (sequence_from es))) {['')'']}))"
    using arg_cong[OF parts(1), of "all_readings env"] it(1) kw
    by (simp add: list_reading_def items_reading_def item_exprs_def)
  have ok: "item_ok name" "item_ok methods" using parts(2) it(1) by auto
  have head: "lexes_in ''(define-trait'' (seq {[''('']} (readings env first)) op" for op
    using literal_word[OF form_words(5) es(4), of op] by simp
  have layout: "define_trait env c e es ind = bind_fmt (trait_doc env c (sequence_from es) keyword name methods method_list ind)
      (\<lambda>d. fmt_return (render_doc env d ind))"
    using it by (simp add: define_trait_def Let_def)
  show ?thesis unfolding layout
  proof (rule gives_layout, rule gives_bind[OF trait_doc_gives[OF ok parts(3) ind _ it(2) head]])
    show "\<not> is_comment (expression keyword)" using first kw(2) by simp
    fix d
    assume l: "blanks (indentation_str env)"
      and d: "plain d \<and> flow d \<noteq> [] \<and> last (flow d) = CHR '')'' \<and>
        lexes_in (flow d) (seq (seq {[''('']} (readings env first)) (seq (items_reading [name, methods])
          (seq (all_readings env (end_comments (sequence_from es))) {['')'']}))) False"
    then have "lexes_in (flow d) (readings env e) False" using reading self(2) lexes_in_mono by metis
    then show "gives I (fmt_return (render_doc env d ind)) (reads env e)"
      using d l ind self(3) doc_texts[of d "readings env e" ind env] by (auto simp: reads_def blank_def)
  qed
next
  case False
  then have "define_trait env c e es ind = preserve_expr env c e ind"
    by (auto simp: define_trait_def Let_def split: list.split option.split)
  with self(1) show ?thesis by simp
qed

end

end
