(* ===== verification/Format_Exprs.thy ===== *)
theory Format_Exprs
  imports Format_Traits
begin

text \<open>
  Leaves, the layout that keeps the syntax as it is, ordinary calls and the dispatch on the name
  of a form, under the contract of the recursion.
\<close>

text \<open>The source text of an expression, where there is one, reads as the expression.\<close>

definition sourced :: "settings \<Rightarrow> pse \<Rightarrow> bool" where
  "sourced env e = (\<forall>lines. source_lines env = Some lines \<longrightarrow>
     (\<exists>raw. extract_expr_source lines e = Done raw \<and> reads env e raw))"

lemma list_reads: "texts_in s (list_reading env its) False \<Longrightarrow> list_reading env its \<subseteq> readings env e \<Longrightarrow> \<not> is_comment e \<Longrightarrow> reads env e s"
  by (auto simp: reads_def texts_in_def)

section \<open>Leaves\<close>

lemma word_t: assumes "word w" shows "t w = Done w"
proof -
  have "ascii w" using assms by (simp add: word_def)
  then obtain v core v' where "t w = Done core" "w = v @ core @ v'" "list_all blank v" "list_all blank v'" by (rule t_ascii)
  moreover have "list_all (\<lambda>c. \<not> blank c) w" using assms by (auto simp: word_def separator_def list_all_iff)
  ultimately show ?thesis by (cases v; cases v') auto
qed

lemma comment_piece_texts:
  assumes "newline \<notin> set tx" "ascii tx"
  shows "texts (comment_piece tx e) [comment_token tx] True \<and> starts_with (CHR '';'') (comment_piece tx e)"
proof -
  let ?semi = "takeWhile (\<lambda>c. c = CHR '';'') tx" and ?rest = "dropWhile (\<lambda>c. c = CHR '';'') tx"
  have tx: "tx = ?semi @ ?rest" by simp
  have parts: "newline \<notin> set ?semi" "ascii ?semi" "newline \<notin> set ?rest" "ascii ?rest" "ink tx = ink ?semi @ ink ?rest"
    using assms tx by (metis UnI1 UnI2 ascii_simps(3) filter_append set_append)+
  have spaces: "newline \<notin> set (push_spaces n)" "ascii (push_spaces n)" "ink (push_spaces n) = []" for n
    by (auto simp: push_spaces_def ascii_def list_all_iff newline_def filter_empty_conv)
  have "\<exists>sp. comment_piece tx e = '';;'' @ ?semi @ sp @ ?rest \<and> newline \<notin> set sp \<and> ascii sp \<and> ink sp = []"
  proof (cases "0 < end_column (span_of e) - of_nat (length tx) - start_column (span_of e) - 1")
    case True
    with spaces show ?thesis by (auto simp: comment_piece_def Let_def)
  next
    case False
    then show ?thesis by (auto simp: comment_piece_def Let_def newline_def)
  qed
  then obtain sp where sp: "comment_piece tx e = '';;'' @ ?semi @ sp @ ?rest" "newline \<notin> set sp" "ascii sp" "ink sp = []" by blast
  have "ink (?semi @ sp @ ?rest) = ink tx" using sp(4) parts(5) by simp
  with comment_texts[of "?semi @ sp @ ?rest" tx] sp parts show ?thesis by (auto simp: starts_with_def)
qed

lemma gives_texts: "texts s ts op \<Longrightarrow> readings env e = {ts} \<Longrightarrow> is_comment e = op \<Longrightarrow> reads env e s"
  by (auto simp: reads_def texts_in_def)

lemma leaf_simps:
  "pre_expr e = x \<Longrightarrow> match_list e = (case x of ListExpr its \<Rightarrow> Some its | _ \<Rightarrow> None)"
  "pre_expr e = x \<Longrightarrow> is_comment e = (case x of Comment _ \<Rightarrow> True | _ \<Rightarrow> False)"
  by (auto simp: match_list_def is_comment_def)

lemma display_value_reads:
  assumes "pre_expr e = AtomValue val" "value_ok val" "sourced env e"
  shows "gives I (display_value env e val) (reads env e)"
proof -
  have r: "readings env e = value_readings env e val" "\<not> is_comment e"
    using assms(1) by (cases e; auto simp: leaf_readings_def is_comment_def)+
  show ?thesis
  proof (cases val)
    case (Utf8Value tx)
    have tx: "reads env e tx" using assms(2) r by (auto simp: Utf8Value reads_def texts_in_def value_readings_def value_ok_def)
    show ?thesis
    proof (cases "source_lines env")
      case (Some lines)
      with assms(3) obtain raw where "extract_expr_source lines e = Done raw" "reads env e raw" by (auto simp: sourced_def)
      with tx show ?thesis by (auto simp: Utf8Value display_value_def Some intro!: gives_bind[OF gives_outcome[where P = "reads env e"]])
    qed (use tx in \<open>simp add: Utf8Value display_value_def\<close>)
  qed (use assms(2) r word_texts ascii_literal_texts in
      \<open>auto simp: display_value_def reads_def texts_in_def value_readings_def value_ok_def\<close>)
qed

context formatter_calls begin

lemma display_pse_reads:
  assumes "expr_ok env e" "sourced env e" "blanks ind"
    and "\<And>its. match_list e = Some its \<Longrightarrow> list_all child its" "\<And>its. pre_expr e = TupleExpr its \<Longrightarrow> list_all child its"
  shows "gives I (display_pse env c e ind) (\<lambda>s. reads env e s \<and> (is_comment e \<longrightarrow> starts_with (CHR '';'') s))"
proof (cases "pre_expr e")
  case (Atom name)
  have "readings env e = {[name]}" by (rule readings_atom) (simp add: match_atom_def Atom)
  moreover have w: "word name" using assms(1) by (simp add: expr_ok_def Atom)
  ultimately have "reads env e name" "\<not> is_comment e"
    using gives_texts[OF word_texts[OF w]] by (auto simp: leaf_simps(2)[OF Atom])
  then show ?thesis unfolding display_pse_def Atom pre_expr.case by (intro gives_outcome[OF word_t[OF w]]) simp
next
  case (AtomValue val)
  with assms(1,2) show ?thesis
    by (auto simp: display_pse_def expr_ok_def is_comment_def intro!: gives_mono[OF display_value_reads])
next
  case (ListExpr its)
  have l: "match_list e = Some its" by (simp add: match_list_def ListExpr)
  have its: "siblings_ok its" "list_reading env its \<subseteq> readings env e"
    using assms(1) by (auto simp: expr_ok_def list_ok_def ListExpr readings_list[OF l] list_reading_def all_readings_def)
  show ?thesis unfolding display_pse_def ListExpr pre_expr.case
    by (rule gives_mono[OF display_list_reads[OF assms(4)[OF l] its(1) assms(3)]])
      (use its(2) list_reads in \<open>auto simp: leaf_simps(2)[OF ListExpr]\<close>)
next
  case (TupleExpr its)
  have "siblings_ok its" "pairs_ok True its" using assms(1) by (auto simp: expr_ok_def TupleExpr)
  from format_sugar_reads[OF assms(5)[OF TupleExpr] this assms(3)] show ?thesis
    by (auto simp: display_pse_def TupleExpr reads_def leaf_simps(2)[OF TupleExpr] readings_tuple[OF TupleExpr] elim!: gives_mono)
next
  case (Comment tx)
  have r: "readings env e = {[comment_token tx]}" by (cases e) (use Comment in \<open>auto simp: leaf_readings_def\<close>)
  have "texts '';;'' [comment_token tx] True" if "tx = []" using comment_texts[of "[]" "[]"] that by simp
  then show ?thesis using assms(1) comment_piece_texts[of tx e]
    by (auto simp: display_pse_def Comment expr_ok_def leaf_simps(2)[OF Comment] starts_with_def intro!: gives_texts[OF _ r])
qed (use assms(1) in \<open>cases e; auto simp: display_pse_def expr_ok_def is_comment_def leaf_readings_def intro!: gives_texts[OF word_texts]\<close>)+

lemma display_pse_exact:
  assumes "expr_ok env e" "pre_expr e \<in> {Atom w, AtomValue (IntValue w)}"
  shows "gives I (display_pse env c e ind) (\<lambda>s. s = w)"
  using assms by (auto simp: display_pse_def display_value_def expr_ok_def intro!: gives_outcome word_t)

section \<open>Syntax kept as it is\<close>

definition after_previous :: "pse option \<Rightarrow> string \<Rightarrow> string list set \<Rightarrow> bool" where
  "after_previous previous a A =
     (case previous of None \<Rightarrow> joinable a A | Some prev \<Rightarrow> if is_comment prev then joinable a A else lexes_in a A False)"

lemma preserve_items_gives:
  assumes "blanks ind"
  shows "list_all child its \<Longrightarrow> gives I (preserve_items c ind tuple is_key previous its) (\<lambda>s.
    \<forall>a A. after_previous previous a A \<longrightarrow>
      lexes_in (a @ s) (seq A (if tuple then sugar_readings env is_key its else all_readings env its)) False)"
proof (induction its arbitrary: is_key previous)
  case Nil
  then show ?case by (auto simp: after_previous_def joinable_closed split: option.splits if_splits)
next
  case (Cons e rest)
  let ?key = "if is_comment e \<or> \<not> tuple then is_key else \<not> is_key"
  let ?sep = "case previous of None \<Rightarrow> [] | Some prev \<Rightarrow> if is_comment prev then [] else '' ''"
  let ?fin = "if is_comment e then [newline] else if tuple then (if is_key then '':'' else '','') else []"
  let ?E = "if is_comment e \<or> \<not> tuple \<or> \<not> is_key then {[]} else {['':'']}"
  let ?R = "\<lambda>b its. if tuple then sugar_readings env b its else all_readings env its"
  have e: "child e" "list_all child rest" using Cons.prems by auto
  note IH = Cons.IH[OF e(2), of ?key "Some e"]
  show ?case unfolding preserve_items.simps
  proof (rule gives_bind[OF preserve[OF e(1) assms]], rule gives_bind[OF IH], rule gives_return, intro allI impI)
    fix tx s a A
    assume tx: "reads env e tx" and a: "after_previous previous a A"
      and s: "\<forall>a A. after_previous (Some e) a A \<longrightarrow> lexes_in (a @ s) (seq A (?R ?key rest)) False"
    have "joinable (a @ ?sep) A" using a joinable_space[of a A]
      by (auto simp: after_previous_def split: option.splits if_splits)
    then have written: "lexes_in ((a @ ?sep) @ tx) (seq A (readings env e)) (is_comment e)"
      using reads_lexes[OF tx] unfolding joinable_def by blast
    have "after_previous (Some e) (x @ ?fin) (seq X ?E)" if x: "lexes_in x X (is_comment e)" for x X
    proof (cases "is_comment e")
      case False
      with x lexes_in_comma[of x X False] lexes_in_close_bracket[of "CHR '':''" x X False] show ?thesis
        by (auto simp: after_previous_def)
    qed (use x joinable_newline[of x X] in \<open>simp add: after_previous_def\<close>)
    from this[OF written]
    have "lexes_in ((((a @ ?sep) @ tx) @ ?fin) @ s) (seq (seq (seq A (readings env e)) ?E) (?R ?key rest)) False"
      using s by blast
    then show "lexes_in (a @ ?sep @ tx @ ?fin @ s) (seq A (?R is_key (e # rest))) False" by (cases is_key) (simp_all split: if_splits)
  qed
qed

lemma bracketed_items:
  assumes "list_all child its" "blanks ind" "bracket b" "bracket b'"
  shows "gives I (bind_fmt (preserve_items c ind tuple True None its) (\<lambda>s. fmt_return ([b] @ s @ [b'])))
    (\<lambda>s. texts_in s (seq {[[b]]} (seq (if tuple then sugar_readings env True its else all_readings env its) {[[b']]})) False)"
proof (rule gives_bind[OF preserve_items_gives[OF assms(2,1)]], rule gives_return)
  let ?R = "if tuple then sugar_readings env True its else all_readings env its"
  fix s assume s: "\<forall>a A. after_previous None a A \<longrightarrow> lexes_in (a @ s) (seq A ?R) False"
  have "after_previous None [b] {[[b]]}"
    using lexes_in_open_bracket[OF assms(3)] by (simp add: after_previous_def joinable_def)
  with s have "lexes_in ([b] @ s) (seq {[[b]]} ?R) False" by blast
  from lexes_in_texts_in[OF lexes_in_close_bracket[OF assms(4) this, of False]] bracket_nonblank[OF assms(4)]
  show "texts_in ([b] @ s @ [b']) (seq {[[b]]} (seq ?R {[[b']]})) False" by simp
qed

lemma preserve_syntax_reads:
  assumes "pre_expr e \<in> {ListExpr its, TupleExpr its}" "list_all child its" "blanks ind"
  shows "gives I (preserve_syntax c e ind) (reads env e)"
proof -
  have nc: "\<not> is_comment e" using assms(1) by (auto simp: is_comment_def)
  consider "pre_expr e = TupleExpr its" | "pre_expr e = ListExpr its" using assms(1) by auto
  then show ?thesis
  proof cases
    case 1
    show ?thesis unfolding preserve_syntax_def 1 pre_expr.case
      using bracketed_items[OF assms(2,3), of "CHR ''{''" "CHR ''}''" True] nc
      by (auto simp: reads_def readings_tuple[OF 1] elim!: gives_mono)
  next
    case 2
    then have "match_list e = Some its" by (simp add: match_list_def)
    then have sub: "list_reading env its \<subseteq> readings env e" by (auto simp: readings_list list_reading_def all_readings_def)
    show ?thesis unfolding preserve_syntax_def 2 pre_expr.case
      using bracketed_items[OF assms(2,3), of "CHR ''(''" "CHR '')''" False] list_reads[OF _ sub nc]
      by (auto simp: list_reading_def elim!: gives_mono)
  qed
qed

section \<open>Ordinary calls\<close>

text \<open>Trimming keeps what a text reads as.\<close>

lemma reads_t: assumes "reads env e s" obtains s' where "t s = Done s'" "reads env e s'"
  using assms texts_t by (metis reads_def texts_in_def)

definition after_item :: "pse option \<Rightarrow> string \<Rightarrow> string list set \<Rightarrow> bool" where
  "after_item previous a A = (case previous of None \<Rightarrow> joinable a A | Some prev \<Rightarrow> lexes_in a A (is_comment prev))"

lemma inner_separator_gives:
  assumes "child e" "reads env e formatted" "blanks ind" "blanks (indentation_str env)"
    and "\<forall>prev. previous = Some prev \<and> is_comment prev \<longrightarrow> on_different_line prev e"
  shows "gives I
     (case previous of
        None \<Rightarrow> fmt_return ([], formatted, width)
      | Some prev \<Rightarrow>
          let is_map_opening = starts_with (CHR ''{'') trimmed
          in if on_different_line prev e
                \<or> (prev_multiline \<and> \<not> (is_map_opening \<and> prev_is_map))
                \<or> (\<not> is_map_opening \<and> max_line_length env < width + length trimmed + 1)
             then bind_fmt (call_exprs c [e] (indented env ind))
                    (\<lambda>again. fmt_return ([newline] @ indented env ind, again, length (indented env ind)))
             else fmt_return ('' '', formatted, width + 1))
     (\<lambda>(sep, formatted', w). reads env e formatted' \<and> (\<forall>a A. after_item previous a A \<longrightarrow> joinable (a @ sep) A))"
proof (cases previous)
  case (Some prev)
  have nested: "blanks (indented env ind)" using assms(3,4) by (simp add: indented_def)
  have "joinable (a @ newline # indented env ind) A" if "lexes_in a A op" for a A op
    unfolding joinable_def
  proof (intro allI impI)
    fix b B op' assume "lexes_in b B op'"
    then have "lexes_in (indented env ind @ b) B op'" using nested lexes_in_leading_blanks by (simp add: blanks_def)
    from lexes_in_newline[OF lexes_in_open[OF that] this]
    show "lexes_in ((a @ newline # indented env ind) @ b) (seq A B) op'" by simp
  qed
  then show ?thesis using assms joinable_space
    by (auto simp: Some Let_def after_item_def intro!: gives_bind[OF exprs[OF assms(1) nested]])
qed (use assms(2) in \<open>simp add: after_item_def\<close>)

lemma inner_loop_gives:
  assumes "blanks ind" "blanks (indentation_str env)"
  shows "list_all child es \<Longrightarrow> siblings_ok (opt_list previous @ es) \<Longrightarrow>
    gives I (inner_loop env c ind previous width multiline is_map es) (\<lambda>s. \<forall>a A. after_item previous a A \<longrightarrow>
      lexes_in (a @ s) (seq A (all_readings env es)) (opt_list previous @ es \<noteq> [] \<and> is_comment (last (opt_list previous @ es))))"
proof (induction es arbitrary: previous width multiline is_map)
  case Nil
  then show ?case by (auto simp: after_item_def joinable_closed split: option.splits)
next
  case (Cons e rest)
  have e: "child e" "list_all child rest" "siblings_ok (e # rest)"
    using Cons.prems siblings_ok_append[of "opt_list previous" "e # rest"] by auto
  have apart: "\<forall>prev. previous = Some prev \<and> is_comment prev \<longrightarrow> on_different_line prev e"
    using Cons.prems(2) by (auto simp: on_different_line_def is_same_line_def)
  have nested: "blanks (if previous = None then indented env ind else ind)" using assms by (simp add: indented_def)
  have IH: "gives I (inner_loop env c ind (Some e) w m p rest) (\<lambda>s. \<forall>a A. lexes_in a A (is_comment e) \<longrightarrow>
      lexes_in (a @ s) (seq A (all_readings env rest)) (is_comment (last (e # rest))))" for w m p
    using Cons.IH[OF e(2), of "Some e"] e(3) by (simp add: after_item_def)
  have trimmed: "gives I (fmt_outcome (t s)) (\<lambda>s'. reads env e s')" if "reads env e s" for s
    using reads_t[OF that] gives_outcome[of "t s"] by metis
  show ?case unfolding inner_loop.simps Let_def
  proof (rule gives_bind[OF check_ignored], use e(2) peek_child in blast, rule gives_bind[OF exprs[OF e(1) nested]],
      rule gives_bind[OF trimmed], assumption,
      rule gives_bind[OF inner_separator_gives[OF e(1) _ assms apart, unfolded Let_def]], assumption)
    fix s trimmed and r :: "string \<times> string \<times> nat"
    assume r: "case r of (sep, s', w) \<Rightarrow> reads env e s' \<and> (\<forall>a A. after_item previous a A \<longrightarrow> joinable (a @ sep) A)"
    obtain sep s' w where rp: "r = (sep, s', w)" by (cases r)
    have s': "reads env e s'" and sep: "\<forall>a A. after_item previous a A \<longrightarrow> joinable (a @ sep) A" using r by (auto simp: rp)
    show "gives I (case r of (sep, formatted', width') \<Rightarrow> bind_fmt (fmt_outcome (t formatted')) (\<lambda>text.
        bind_fmt (inner_loop env c ind (Some e) (last_line_len text width') (newline \<in> set text) (starts_with (CHR ''{'') text) rest)
          (\<lambda>result. fmt_return (sep @ text @ result))))
      (\<lambda>s. \<forall>a A. after_item previous a A \<longrightarrow> lexes_in (a @ s) (seq A (all_readings env (e # rest)))
        (opt_list previous @ e # rest \<noteq> [] \<and> is_comment (last (opt_list previous @ e # rest))))"
      unfolding rp prod.case
    proof (rule gives_bind[OF trimmed[OF s']], rule gives_bind[OF IH], rule gives_return, intro allI impI)
      fix tx res a A
      assume tx: "reads env e tx" and a: "after_item previous a A"
        and res: "\<forall>a A. lexes_in a A (is_comment e) \<longrightarrow> lexes_in (a @ res) (seq A (all_readings env rest)) (is_comment (last (e # rest)))"
      have "joinable (a @ sep) A" using a sep by blast
      then have "lexes_in ((a @ sep) @ tx) (seq A (readings env e)) (is_comment e)"
        using reads_lexes[OF tx] unfolding joinable_def by blast
      with res have "lexes_in (((a @ sep) @ tx) @ res) (seq (seq A (readings env e)) (all_readings env rest)) (is_comment (last (e # rest)))"
        by blast
      then show "lexes_in (a @ sep @ tx @ res) (seq A (all_readings env (e # rest)))
        (opt_list previous @ e # rest \<noteq> [] \<and> is_comment (last (opt_list previous @ e # rest)))" by simp
    qed
  qed
qed

lemma format_inner_content_reads:
  assumes "list_all child es" "siblings_ok es" "blanks ind"
  shows "gives I (format_inner_content env c es ind) (\<lambda>s. texts_in s (list_reading env es) False)"
proof (rule gives_layout)
  assume l: "blanks (indentation_str env)"
  have closes: "texts_in (s @ '')'') (seq A {['')'']}) False" if "lexes_in s A False" for s A
    using lexes_in_texts_in[OF lexes_in_close_bracket[OF _ that, of "CHR '')''" False]] by (simp add: blank_def)
  show ?thesis
  proof (cases "length es = 2 \<and> match_atom (es ! 0) \<noteq> None \<and> \<not> is_comment (es ! 1) \<and> \<not> is_special_format env (the (match_atom (es ! 0)))")
    case True
    then obtain f x where es: "es = [f, x]" "match_atom f \<noteq> None" "\<not> is_comment x"
      by (auto simp: length_Suc_conv numeral_2_eq_2)
    have f: "child f" "child x" "\<not> is_comment f" using assms(1) es atom_not_comment by auto
    have trimmed: "lexes_in (trim s) (readings env e) False" if "reads env e s" "\<not> is_comment e" for e s
      using that texts_trim_both texts_in_lexes_in by (fastforce simp: reads_def texts_in_def)
    show ?thesis unfolding format_inner_content_def if_P[OF True]
    proof (rule gives_bind[where P = "reads env f"], use exprs[OF f(1) assms(3)] es(1) in simp,
        rule gives_bind[where P = "reads env x"], use exprs[OF f(2) assms(3)] es(1) in simp, rule gives_return)
      fix fx xx assume "reads env f fx" "reads env x xx"
      then have "lexes_in ((CHR ''('' # trim fx) @ CHR '' '' # trim xx) (seq (seq {[''('']} (readings env f)) (readings env x)) False"
        using trimmed f(3) es(3) by (intro lexes_in_space lexes_in_open_bracket) auto
      from closes[OF this] show "texts_in (''('' @ trim fx @ '' '' @ trim xx @ '')'') (list_reading env es) False"
        by (simp add: list_reading_def es(1))
    qed
  next
    case False
    note loop = inner_loop_gives[OF assms(3) l assms(1), of None "length ind" False False]
    show ?thesis unfolding format_inner_content_def if_not_P[OF False] Let_def
    proof (rule gives_bind[OF loop], use assms(2) in simp, rule gives_return)
      fix s
      assume s: "\<forall>a A. after_item None a A \<longrightarrow> lexes_in (a @ s) (seq A (all_readings env es))
        (opt_list None @ es \<noteq> [] \<and> is_comment (last (opt_list None @ es)))"
      let ?brk = "if es \<noteq> [] \<and> is_comment (last es) then True
               else if newline \<notin> set s then False else trim (last_line s) \<notin> {'')'', ''}''}"
      have "after_item None ''('' {[''('']}" by (simp add: after_item_def joinable_bracket)
      with s have lex: "lexes_in (''('' @ s) (seq {[''('']} (all_readings env es)) (es \<noteq> [] \<and> is_comment (last es))"
        by fastforce
      have "lexes_in ind {[]} False" using assms(3) lexes_in_leading_blanks[of ind "[]" "{[]}" False] by (simp add: blanks_def)
      from lexes_in_newline[OF lexes_in_open[OF lex] this] lexes_in_open[OF lex, of False]
      have "lexes_in ((''('' @ s) @ (if brk then [newline] @ ind else [])) (seq {[''('']} (all_readings env es)) False"
        if "es \<noteq> [] \<and> is_comment (last es) \<longrightarrow> brk" for brk using that by auto
      from this[of ?brk]
      have "lexes_in ((''('' @ s) @ (if ?brk then [newline] @ ind else [])) (seq {[''('']} (all_readings env es)) False" by argo
      from closes[OF this]
      show "texts_in (''('' @ s @ (if ?brk then [newline] @ ind else []) @ '')'') (list_reading env es) False"
        by (simp add: list_reading_def)
    qed
  qed
qed

section \<open>Dispatch\<close>

text \<open>
  A list that starts with a name, laid out by the form it names. Only a call of \<^verbatim>\<open>tuple\<close> and a
  trait definition may fall back to the expression itself.
\<close>

lemma format_list_call_reads:
  assumes e: "expr_ok env e" "match_list e = Some es" "list_all child es" "es = first # args" "match_atom first = Some name"
    and ind: "blanks ind" and self: "gives I (preserve_expr env c e ind) (reads env e)"
  shows "gives I (format_list_call env c e name es ind) (reads env e)"
proof (rule gives_layout)
  assume names: "names_ok env"
  have ok: "siblings_ok es" "form_ok env name args"
    using e by (auto simp: expr_ok_def list_ok_def match_list_def split: pre_expr.splits)
  have sub: "list_reading env es \<subseteq> readings env e" by (auto simp: readings_list[OF e(2)] list_reading_def all_readings_def)
  have nc: "\<not> is_comment e" using e(2) by (auto simp: match_list_def is_comment_def split: pre_expr.splits)
  have lay: "gives I m (reads env e)" if "gives I m (\<lambda>s. texts_in s (list_reading env es) False)" for m
    by (rule gives_mono[OF that]) (rule list_reads[OF _ sub nc])
  note es = e(3) ok(1) e(4)
  note inner = lay[OF format_inner_content_reads[OF es(1,2) ind]]
  show ?thesis
  proof (cases "lookup_native env name")
    case None
    show ?thesis
    proof (cases "lookup_define env name")
      case (Some d)
      show ?thesis
      proof (cases d)
        case DefineTrait
        with names Some e(5) have "match_atom first = Some ''define-trait''" by (simp add: names_ok_def)
        from define_trait_reads[OF es this ind self sub nc] show ?thesis
          by (simp add: format_list_call_def None Some DefineTrait)
      qed (use ok(2) es e(5) ind in \<open>auto simp: format_list_call_def form_ok_def None Some
          intro!: lay format_function_reads format_constant_reads format_map_reads\<close>)
    qed (simp add: format_list_call_def None inner)
  next
    case (Some native)
    show ?thesis
    proof (cases native)
      case TupleCons
      have args: "list_all child args" "siblings_ok args" using es siblings_ok_Cons[of first args] by auto
      have from1: "exprs_from es 1 = fmt_outcome (Done args)" by (simp add: exprs_from_def e(4))
      have conv: "converts env es \<longleftrightarrow> list_all (\<lambda>x. is_comment x \<or> split_tuple_entry x \<noteq> None) args"
        by (simp add: converts_def e(4,5) Some TupleCons)
      have tup: "seq {[''{'']} (seq (cat (map (entry_readings env) args)) {[''}'']}) \<subseteq> readings env e" if "converts env es"
        using that by (auto simp: readings_list[OF e(2)] e(4))
      show ?thesis unfolding format_list_call_def Some TupleCons option.case native_function.case from1
      proof (rule gives_bind[OF gives_outcome[OF refl, where P = "\<lambda>x. x = args"]], simp, hypsubst,
          rule gives_bind[OF format_key_value_reads[OF args ind]])
        fix r
        assume r: "if list_all (\<lambda>x. is_comment x \<or> split_tuple_entry x \<noteq> None) args
          then \<exists>s. r = Some s \<and> texts_in s (seq {[''{'']} (seq (cat (map (entry_readings env) args)) {[''}'']})) False else r = None"
        have "reads env e s" if "r = Some s" for s
          using r that tup conv nc by (auto simp: reads_def texts_in_def split: if_splits)
        then show "gives I (case r of None \<Rightarrow> preserve_expr env c e ind | Some tx \<Rightarrow> fmt_return tx) (reads env e)"
          using self by (cases r) auto
      qed
    qed (use ok(2) es e(5) ind names inner in \<open>auto simp: format_list_call_def form_ok_def names_ok_def Some
        intro!: lay format_let_reads format_begin_reads format_match_reads format_if_reads format_booleans_reads
          format_list_reads format_restrict_assets_reads\<close>)
  qed
qed

lemma format_expr_reads:
  assumes e: "expr_ok env e" "\<And>its. match_list e = Some its \<Longrightarrow> list_all child its" and ind: "blanks ind"
    and self: "is_list e \<Longrightarrow> gives I (preserve_expr env c e ind) (reads env e)" "gives I (call_display c e ind) (reads env e)"
  shows "gives I (format_expr env c e ind) (\<lambda>(s, def). reads env e s \<and> (def \<longrightarrow> is_list e))"
proof -
  have display_self: "gives I (bind_fmt (call_display c e ind) (\<lambda>tx. fmt_return (tx, False))) (\<lambda>(s, def). reads env e s \<and> (def \<longrightarrow> is_list e))"
    by (rule gives_bind[OF self(2)]) auto
  show ?thesis
  proof (cases "\<exists>first rest name. match_list e = Some (first # rest) \<and> match_atom first = Some name")
    case True
    then obtain first rest name where l: "match_list e = Some (first # rest)" "match_atom first = Some name" by blast
    then have lst: "is_list e" by (simp add: is_list_def)
    from format_list_call_reads[OF e(1) l(1) e(2)[OF l(1)] refl l(2) ind self(1)[OF lst]] show ?thesis
      by (auto simp: format_expr_def l lst intro!: gives_bind[where P = "reads env e"])
  next
    case False
    then show ?thesis using display_self by (auto simp: format_expr_def split: option.split list.split)
  qed
qed

end

end
