(* ===== verification/Format_Correct.thy ===== *)
theory Format_Correct
  imports Format_Exprs
begin

text \<open>
  The loop over source expressions, the recursion and the entry points. The contract of the
  layouts holds of the formatter's own recursion at every depth, so formatting a parsed program
  returns, and what it returns reads as the program.
\<close>

section \<open>Texts of several expressions\<close>

lemma texts_in_blanks: "texts_in s A op \<Longrightarrow> blanks w \<Longrightarrow> texts_in (s @ w) A op"
  by (auto simp: texts_in_def texts_def blanks_def)

lemma blanks_newline [simp]: "blanks [newline]"
  by (simp add: blanks_def)

lemma texts_in_drop_newline: "texts_in (s @ [newline]) A op \<Longrightarrow> texts_in s A op"
  by (auto simp: texts_in_def texts_def)

lemma joinable_texts: "texts_in (s @ [newline]) A op \<Longrightarrow> joinable (s @ [newline]) A"
  using joinable_newline[OF lexes_in_open[OF texts_in_lexes_in]] texts_in_drop_newline by blast

lemma texts_in_append:
  assumes "texts_in a A True" "joinable a A" "texts_in b B op"
  shows "texts_in (a @ b) (seq A B) True"
proof -
  obtain us ts where ts: "us \<in> A" "texts a us True" "ts \<in> B" "texts b ts op" using assms(1,3) by (auto simp: texts_in_def)
  then have asc: "ascii a" "ascii b" by (auto dest: texts_ascii)
  show ?thesis
  proof (cases "list_all blank b")
    case True
    then have "ts = []" using ts(4) by (simp add: texts_def)
    then show ?thesis using True ts asc seqI[OF ts(1,3)] by (auto simp: texts_in_def texts_def intro!: bexI[of _ us])
  next
    case False
    have "lexes_in (strip b) {ts} op" using ts(4) by (simp add: texts_def lexes_in_def)
    then have "lexes_in (a @ strip b) (seq A {ts}) op" using assms(2) by (simp add: joinable_def)
    moreover have "seq A {ts} \<subseteq> seq A B" using ts(3) by (auto simp: seq_def)
    ultimately have "lexes_in (strip (a @ b)) (seq A B) True"
      using strip_append_blanks[OF False, of a] lexes_in_open lexes_in_mono by metis
    then show ?thesis using asc by (auto simp: texts_in_def texts_def lexes_in_def)
  qed
qed

lemma joinable_extra: "joinable a A \<Longrightarrow> joinable (a @ [newline]) A"
  using joinable_newline[OF lexes_in_open[OF joinable_closed]] by simp

lemma blank_line_before_cases: "blank_line_before prev e \<in> {[], [newline]}"
  by (simp add: blank_line_before_def Let_def)

text \<open>The result so far: another text can be written after it.\<close>

definition written_as :: "string \<Rightarrow> string list set \<Rightarrow> bool" where
  "written_as s A = (texts_in s A True \<and> joinable s A)"

lemma written_Nil: "written_as [] {[]}"
  by (auto simp: written_as_def joinable_def texts_in_def texts_def)

lemma written_extra: "written_as s A \<Longrightarrow> w \<in> {[], [newline]} \<Longrightarrow> written_as (s @ w) A"
  using texts_in_blanks[of s A True "[newline]"] joinable_extra[of s A] by (auto simp: written_as_def)

text \<open>The lines of an expression marked to be kept, with the marking comment and a trailing comment.\<close>

definition ignored_range :: "pse \<Rightarrow> pse \<Rightarrow> pse list \<Rightarrow> span" where
  "ignored_range comment e rest =
     (span_of (case fst (get_trailing_comment e rest) of Some x \<Rightarrow> x | None \<Rightarrow> e))
       \<lparr>start_line := start_line (span_of comment), start_column := start_column (span_of comment)\<rparr>"

fun ranges_ok :: "settings \<Rightarrow> pse list \<Rightarrow> bool" where
  "ranges_ok env (comment # e # rest) =
     ((is_format_ignore comment \<and> is_list e \<longrightarrow>
        (\<forall>lines. source_lines env = Some lines \<longrightarrow>
          (\<exists>raw. extract_source_range lines (ignored_range comment e rest) = Done raw \<and>
             texts_in raw (all_readings env ([comment, e] @ opt_list (fst (get_trailing_comment e rest)))) True))) \<and>
      ranges_ok env (e # rest))"
| "ranges_ok env _ = True"

lemma ranges_ok_append: "ranges_ok env (xs @ ys) \<Longrightarrow> ranges_ok env ys"
proof (induction xs)
  case (Cons x xs)
  then show ?case by (cases "xs @ ys") auto
qed simp

context formatter_calls begin

definition formattable :: "string \<Rightarrow> pse \<Rightarrow> bool" where
  "formattable ind e =
     (expr_ok env e \<and> sourced env e \<and> (\<forall>its. match_list e = Some its \<longrightarrow> list_all child its) \<and>
      (is_list e \<longrightarrow> gives I (preserve_expr env c e ind) (reads env e)) \<and> gives I (call_display c e ind) (reads env e))"

lemma formattable_expr:
  "formattable ind e \<Longrightarrow> blanks ind \<Longrightarrow> gives I (format_expr env c e ind) (\<lambda>(s, def). reads env e s \<and> (def \<longrightarrow> is_list e))"
  by (rule format_expr_reads) (auto simp: formattable_def)

lemma list_no_comment: "is_list e \<Longrightarrow> \<not> is_comment e"
  by (auto simp: is_list_def match_list_def is_comment_def split: pre_expr.splits)

text \<open>One expression alone, as the layouts format their parts.\<close>

lemma exprs_single:
  assumes "formattable ind e" "blanks ind"
  shows "gives I (exprs_loop env c ind [e] 0 []) (reads env e)"
proof (cases "is_format_ignore e")
  case True
  have "gives I (emit_format_ignored env c e [] ind) (\<lambda>(tx, line, rest). rest = [] \<and> reads env e tx)"
  proof (cases "source_lines env")
    case (Some lines)
    with assms(1) obtain raw where "extract_expr_source lines e = Done raw" "reads env e raw" by (auto simp: formattable_def sourced_def)
    then show ?thesis by (auto simp: emit_format_ignored_def Some intro!: gives_bind[OF gives_outcome[where P = "reads env e"]])
  next
    case None
    have "gives I (call_display c e ind) (reads env e)" using assms(1) by (simp add: formattable_def)
    then show ?thesis by (auto simp: emit_format_ignored_def None intro!: gives_bind[where P = "reads env e"])
  qed
  then show ?thesis using True by (fastforce simp: gives_def)
next
  case False
  have "gives I (format_step env c ind e None [] 0 []) (reads env e)"
    unfolding format_step_def Let_def
    by (rule gives_bind[OF formattable_expr[OF assms]])
      (auto simp: blank_line_before_def ends_with_def reads_def texts_in_blanks Let_def)
  then show ?thesis using False by (fastforce simp: gives_def)
qed

text \<open>A text with the expression it ends in, and what is written after it.\<close>

lemma written_expr:
  assumes "written_as a A" "texts_in s R op" shows "texts_in (a @ s) (seq A R) True" "lexes_in (a @ s) (seq A R) op"
  using assms texts_in_append texts_in_lexes_in[OF assms(2)] by (auto simp: written_as_def joinable_def)

lemma written_newline:
  assumes "written_as a A" "texts_in s R op" shows "written_as (a @ s @ [newline]) (seq A R)"
proof -
  have "texts_in ((a @ s) @ [newline]) (seq A R) True"
    using texts_in_blanks[OF written_expr(1)[OF assms], of "[newline]"] by simp
  with joinable_texts[OF this] show ?thesis by (simp add: written_as_def)
qed

lemma written_space:
  assumes "written_as a A" "texts_in s R False" shows "written_as (a @ s @ '' '') (seq A R)"
  using texts_in_blanks[OF written_expr(1)[OF assms], of "'' ''"] joinable_space[OF written_expr(2)[OF assms]]
  by (simp add: written_as_def blanks_def)

text \<open>After a pass: the expressions so far are written, and more can follow when there is more.\<close>

definition passed :: "pse list \<Rightarrow> string list set \<Rightarrow> pse list \<Rightarrow> string \<Rightarrow> bool" where
  "passed iter A es r = (texts_in r (seq A (all_readings env es)) True \<and> (iter \<noteq> [] \<longrightarrow> written_as r (seq A (all_readings env es))))"

lemma written_passed: "written_as r (seq A (all_readings env es)) \<Longrightarrow> passed iter A es r"
  by (simp add: passed_def written_as_def)

lemma ends_with_newline:
  assumes "ends_with newline s" "texts_in s R op" obtains s' where "s = s' @ [newline]" "texts_in s' R op"
  using assms texts_in_drop_newline by (metis append_butlast_last_id ends_with_def)

lemma step_trailing:
  assumes "written_as r A" "texts_in s (readings env e) False" "gives I (call_display c x ind) (reads env x)"
  shows "gives I (bind_fmt (call_display c x ind) (\<lambda>comment_text. fmt_return (r @
      (case strip_suffix newline s of Some tx \<Rightarrow> tx | None \<Rightarrow> s) @ '' '' @ comment_text @ [newline])))
    (passed iter A [e, x])"
proof (rule gives_bind[OF assms(3)], rule gives_return)
  fix tx assume tx: "reads env x tx"
  let ?s = "case strip_suffix newline s of Some tx \<Rightarrow> tx | None \<Rightarrow> s"
  have "texts_in ?s (readings env e) False"
  proof (cases "ends_with newline s")
    case True
    then obtain s' where "s = s' @ [newline]" "texts_in s' (readings env e) False" using ends_with_newline assms(2) by blast
    with True show ?thesis by (simp add: strip_suffix_def)
  qed (use assms(2) in \<open>simp add: strip_suffix_def\<close>)
  from written_newline[OF written_space[OF assms(1) this], of tx "readings env x"] tx
  show "passed iter A [e, x] (r @ ?s @ '' '' @ tx @ [newline])" by (intro written_passed) (simp add: reads_def)
qed

lemma step_plain:
  assumes "written_as r A" "texts_in s (readings env e) (is_comment e)"
    and "w = [] \<and> (iter = [] \<or> ends_with newline s) \<or> w = [newline] \<or> w = '' '' \<and> \<not> is_comment e"
  shows "passed iter A [e] (r @ s @ w)"
proof -
  consider "w = []" "iter = []" | "w = []" "ends_with newline s" | "w = [newline]" | "w = '' ''" "\<not> is_comment e"
    using assms(3) by blast
  then show ?thesis
  proof cases
    case 1
    then show ?thesis using written_expr(1)[OF assms(1,2)] by (simp add: passed_def)
  next
    case 2
    obtain s' where s': "s = s' @ [newline]" "texts_in s' (readings env e) (is_comment e)" using ends_with_newline[OF 2(2) assms(2)] .
    from written_newline[OF assms(1) s'(2)] show ?thesis by (intro written_passed) (simp add: 2(1) s'(1))
  next
    case 3
    then show ?thesis using written_newline[OF assms(1,2)] by (intro written_passed) simp
  next
    case 4
    then show ?thesis using written_space[OF assms(1)] assms(2) by (intro written_passed) simp
  qed
qed

lemma step_none:
  assumes "written_as r A" "texts_in s (readings env e) (is_comment e)" "def \<Longrightarrow> is_list e"
  shows "gives I (if def then fmt_return (r @ s @ (if ends_with newline s then [] else [newline]))
      else if is_list e then fmt_return (r @ s @ (case peek iter of None \<Rightarrow> [] | Some next \<Rightarrow> if is_same_line e next then '' '' else [newline]))
      else fmt_return (r @ s @ (case peek iter of None \<Rightarrow> [] | Some next \<Rightarrow> if \<not> is_same_line e next \<or> is_comment e then [newline] else '' '')))
    (passed iter A [e])"
proof -
  have w: "gives I (fmt_return (r @ s @ w)) (passed iter A [e])"
    if "w = [] \<and> (iter = [] \<or> ends_with newline s) \<or> w = [newline] \<or> w = '' '' \<and> \<not> is_comment e" for w
    by (intro gives_return step_plain[OF assms(1,2) that])
  have branches: "gives I (if p then m1 else if q then m2 else m3) Q"
    if "p \<Longrightarrow> gives I m1 Q" "\<not> p \<Longrightarrow> q \<Longrightarrow> gives I m2 Q" "\<not> p \<Longrightarrow> \<not> q \<Longrightarrow> gives I m3 Q" for p q m1 m2 m3 and Q :: "string \<Rightarrow> bool"
    using that by simp
  show ?thesis by (rule branches; rule w; use list_no_comment[of e] in \<open>cases iter; simp\<close>)
qed

lemma format_step_gives:
  assumes "formattable ind e" "blanks ind" "written_as result A"
    and trailing: "\<forall>x. trailing = Some x \<longrightarrow> formattable ind x \<and> \<not> is_comment e"
  shows "gives I (format_step env c ind e trailing iter prev result) (passed iter A (e # opt_list trailing))"
  unfolding format_step_def Let_def
proof (rule gives_bind[OF formattable_expr[OF assms(1,2)]], split prod.split, intro allI impI)
  fix r s def assume "case r of (s, def) \<Rightarrow> reads env e s \<and> (def \<longrightarrow> is_list e)" "r = (s, def)"
  then have s: "texts_in s (readings env e) (is_comment e)" "def \<Longrightarrow> is_list e" by (auto simp: reads_def)
  have r2: "written_as ((result @ blank_line_before prev e) @ (if b then [newline] else [])) A" for b
    by (intro written_extra assms(3) blank_line_before_cases) simp
  show "gives I (case trailing of
          None \<Rightarrow>
            if def then fmt_return (((result @ blank_line_before prev e) @ (if (trailing \<noteq> None \<or> is_list e) \<and> ind = [] \<and>
                ends_with (CHR '')'') (result @ blank_line_before prev e) then [newline] else [])) @ s @ (if ends_with newline s then [] else [newline]))
            else if is_list e then fmt_return (((result @ blank_line_before prev e) @ (if (trailing \<noteq> None \<or> is_list e) \<and> ind = [] \<and>
                ends_with (CHR '')'') (result @ blank_line_before prev e) then [newline] else [])) @ s @
                (case peek iter of None \<Rightarrow> [] | Some next \<Rightarrow> if is_same_line e next then '' '' else [newline]))
            else fmt_return (((result @ blank_line_before prev e) @ (if (trailing \<noteq> None \<or> is_list e) \<and> ind = [] \<and>
                ends_with (CHR '')'') (result @ blank_line_before prev e) then [newline] else [])) @ s @
                (case peek iter of None \<Rightarrow> [] | Some next \<Rightarrow> if \<not> is_same_line e next \<or> is_comment e then [newline] else '' ''))
        | Some comment \<Rightarrow> bind_fmt (call_display c comment ind) (\<lambda>comment_text.
            fmt_return (((result @ blank_line_before prev e) @ (if (trailing \<noteq> None \<or> is_list e) \<and> ind = [] \<and>
                ends_with (CHR '')'') (result @ blank_line_before prev e) then [newline] else [])) @
                (case strip_suffix newline s of Some tx \<Rightarrow> tx | None \<Rightarrow> s) @ '' '' @ comment_text @ [newline])))
      (passed iter A (e # opt_list trailing))"
  proof (cases trailing)
    case None
    show ?thesis unfolding None option.case(1) opt_list_simps by (rule step_none[OF r2 s])
  next
    case (Some x)
    with s trailing have "texts_in s (readings env e) False" "gives I (call_display c x ind) (reads env x)" by (auto simp: formattable_def)
    from step_trailing[OF r2 this] show ?thesis unfolding Some option.case(2) opt_list_simps .
  qed
qed

text \<open>Expressions marked to be kept are copied from the source.\<close>

lemma emit_gives:
  assumes "formattable ind e" "is_comment e" "is_format_ignore e" "ranges_ok env (e # iter)"
  shows "gives I (emit_format_ignored env c e iter ind) (\<lambda>(s, line, rest). \<exists>used s'. iter = used @ rest \<and>
    s = s' @ (if rest = [] then [] else [newline]) \<and> texts_in s' (all_readings env (e # used)) True)"
proof -
  have self: "texts_in s (readings env e) True" if "reads env e s" for s using that assms(2) by (simp add: reads_def)
  show ?thesis
  proof (cases "source_lines env")
    case None
    have "gives I (call_display c e ind) (reads env e)" using assms(1) by (simp add: formattable_def)
    then show ?thesis using self
      by (auto simp: emit_format_ignored_def None intro!: gives_bind[where P = "reads env e"])
  next
    case (Some lines)
    obtain raw where raw: "extract_expr_source lines e = Done raw" "reads env e raw"
      using assms(1) Some by (auto simp: formattable_def sourced_def)
    show ?thesis
    proof (cases "\<exists>next_expr rest. iter = next_expr # rest \<and> is_list next_expr")
      case False
      then have none: "filter is_list (take 1 iter) = []" by (cases iter) auto
      show ?thesis unfolding emit_format_ignored_def Some none prod.case option.case list.case
        by (rule gives_bind[OF gives_outcome[where P = "reads env e", OF raw]]) (use self in auto)
    next
      case True
      then obtain next_expr rest where it: "iter = next_expr # rest" "is_list next_expr" by blast
      obtain trailing rest1 where tr: "get_trailing_comment next_expr rest = (trailing, rest1)" by force
      have rest: "rest = opt_list trailing @ rest1" using tr by (cases rest) (auto split: if_splits)
      obtain kept where kept: "extract_source_range lines (ignored_range e next_expr rest) = Done kept"
          "texts_in kept (all_readings env ([e, next_expr] @ opt_list trailing)) True"
        using assms(3,4) Some it tr by auto
      have one: "filter is_list (take 1 (next_expr # rest)) = [next_expr]" using it by simp
      show ?thesis unfolding it(1) emit_format_ignored_def Some one prod.case option.case list.case list.sel tr Let_def
        by (rule gives_bind[OF gives_outcome[where P = "\<lambda>s. s = kept"]])
          (use kept tr rest in \<open>auto simp: ignored_range_def intro!: exI[of _ "next_expr # opt_list trailing"]\<close>)
    qed
  qed
qed

lemma exprs_loop_bind:
  "exprs_loop env c ind (e # rest) prev result =
     (case get_trailing_comment e rest of
        (trailing, iter) \<Rightarrow>
          if is_format_ignore e
          then bind_fmt (emit_format_ignored env c e iter ind) (\<lambda>(s, line, iter'). exprs_loop env c ind iter' line (result @ s))
          else bind_fmt (format_step env c ind e trailing iter prev result) (exprs_loop env c ind iter (end_line (span_of e))))"
  by (rule ext) (auto simp: bind_fmt_def split: prod.splits intro!: arg_cong2[where f = bind_outcome])

lemma exprs_loop_gives:
  "list_all (formattable ind) es \<Longrightarrow> siblings_ok es \<Longrightarrow> ranges_ok env es \<Longrightarrow> blanks ind \<Longrightarrow>
     texts_in result A True \<Longrightarrow> (es \<noteq> [] \<longrightarrow> written_as result A) \<Longrightarrow>
     gives I (exprs_loop env c ind es prev result) (\<lambda>s. texts_in s (seq A (all_readings env es)) True)"
proof (induction es arbitrary: prev result A rule: length_induct)
  case (1 es)
  note prems = "1.prems"
  show ?case
  proof (cases es)
    case Nil
    with prems(5) show ?thesis by (simp add: gives_def)
  next
    case (Cons e rest)
    have IH: "gives I (exprs_loop env c ind es' p r) (\<lambda>s. texts_in s (seq B (all_readings env es')) True)"
      if "es = used @ es'" "used \<noteq> []" "texts_in r B True" "es' \<noteq> [] \<longrightarrow> written_as r B" for used es' p r B
      using "1.IH"[rule_format, of es' r B p] that prems siblings_ok_append[of used es'] ranges_ok_append[of env used es'] by auto
    have e: "formattable ind e" "written_as result A" and rest: "list_all (formattable ind) rest" using prems Cons by auto
    obtain trailing iter where tr: "get_trailing_comment e rest = (trailing, iter)" by force
    have split: "rest = opt_list trailing @ iter" using tr by (cases rest) (auto split: if_splits)
    have cases: "trailing = None \<or> (\<exists>x. trailing = Some x \<and> \<not> is_comment e)"
      using trailing_comment_cases[OF tr, of env] prems(2) e(1) Cons by (auto simp: formattable_def)
    show ?thesis
    proof (cases "is_format_ignore e")
      case True
      then have com: "is_comment e" by (auto simp: is_format_ignore_def is_comment_def split: pre_expr.splits)
      then have iter: "iter = rest" using cases split by auto
      have ranges: "ranges_ok env (e # iter)" using prems(3) Cons iter by simp
      show ?thesis unfolding Cons exprs_loop_bind tr prod.case if_P[OF True]
      proof (rule gives_bind[OF emit_gives[OF e(1) com True ranges]], split prod.split, intro allI impI, split prod.split, intro allI impI)
        fix y s z iter' and line :: u32
        assume y: "case y of (s, line, rest) \<Rightarrow> \<exists>used s'. iter = used @ rest \<and>
            s = s' @ (if rest = [] then [] else [newline]) \<and> texts_in s' (all_readings env (e # used)) True"
          "y = (s, z)" "z = (line, iter')"
        then obtain used s' where u: "iter = used @ iter'" "s = s' @ (if iter' = [] then [] else [newline])"
            "texts_in s' (all_readings env (e # used)) True" by auto
        have "texts_in (result @ s) (seq A (all_readings env (e # used))) True"
            "iter' \<noteq> [] \<longrightarrow> written_as (result @ s) (seq A (all_readings env (e # used)))"
          using written_expr(1)[OF e(2) u(3)] written_newline[OF e(2) u(3)] u(2) by (auto simp: written_as_def)
        from IH[OF _ _ this, of "e # used" line] u(1) iter Cons
        show "gives I (exprs_loop env c ind iter' line (result @ s)) (\<lambda>s. texts_in s (seq A (all_readings env (e # rest))) True)" by simp
      qed
    next
      case False
      have trailing: "\<forall>x. trailing = Some x \<longrightarrow> formattable ind x \<and> \<not> is_comment e" using cases rest split by auto
      show ?thesis unfolding Cons exprs_loop_bind tr prod.case if_not_P[OF False]
      proof (rule gives_bind[OF format_step_gives[OF e(1) prems(4) e(2) trailing]])
        fix r assume "passed iter A (e # opt_list trailing) r"
        then show "gives I (exprs_loop env c ind iter (end_line (span_of e)) r) (\<lambda>s. texts_in s (seq A (all_readings env (e # rest))) True)"
          using IH[of "e # opt_list trailing" iter r "seq A (all_readings env (e # opt_list trailing))"] split Cons
          by (simp add: passed_def)
      qed
    qed
  qed
qed

end

section \<open>The recursion keeps the contract\<close>

fun subexprs :: "pse \<Rightarrow> pse list" where
  "subexprs (PSE (ListExpr its) sp a) = PSE (ListExpr its) sp a # concat (map subexprs its)"
| "subexprs (PSE (TupleExpr its) sp a) = PSE (TupleExpr its) sp a # concat (map subexprs its)"
| "subexprs (PSE x sp a) = [PSE x sp a]"

definition nodes :: "pse list \<Rightarrow> pse list" where
  "nodes es = concat (map subexprs es)"

text \<open>
  What the formatter relies on of a parsed program: every expression is well formed and stands in
  the source where its span says, siblings stand in source order, and no two expressions share an
  address.
\<close>

definition program_ok :: "settings \<Rightarrow> pse list \<Rightarrow> bool" where
  "program_ok env es =
     ((\<forall>e\<in>set (nodes es). expr_ok env e \<and> sourced env e) \<and>
      (\<forall>e\<in>set (nodes es). \<forall>e'\<in>set (nodes es). address e = address e' \<longrightarrow> e = e') \<and>
      siblings_ok es \<and> ranges_ok env es)"

lemma subexprs_self: "e \<in> set (subexprs e)"
  by (cases e rule: subexprs.cases) auto

lemma subexprs_list: "match_list e = Some its \<Longrightarrow> x \<in> set its \<Longrightarrow> x \<in> set (subexprs e)"
  using subexprs_self by (cases e rule: subexprs.cases) (auto simp: match_list_def)

lemma subexprs_tuple: "pre_expr e = TupleExpr its \<Longrightarrow> x \<in> set its \<Longrightarrow> x \<in> set (subexprs e)"
  using subexprs_self by (cases e rule: subexprs.cases) auto

lemma subexprs_trans: "x \<in> set (subexprs e) \<Longrightarrow> y \<in> set (subexprs x) \<Longrightarrow> y \<in> set (subexprs e)"
  by (induction e rule: subexprs.induct) auto

lemma nodes_list: "e \<in> set (nodes es) \<Longrightarrow> match_list e = Some its \<Longrightarrow> x \<in> set its \<Longrightarrow> x \<in> set (nodes es)"
  unfolding nodes_def using subexprs_list subexprs_trans by fastforce

lemma nodes_tuple: "e \<in> set (nodes es) \<Longrightarrow> pre_expr e = TupleExpr its \<Longrightarrow> x \<in> set its \<Longrightarrow> x \<in> set (nodes es)"
  unfolding nodes_def using subexprs_tuple subexprs_trans by fastforce

lemma nodes_roots: "e \<in> set es \<Longrightarrow> e \<in> set (nodes es)"
  unfolding nodes_def using subexprs_self by auto

lemma fold_max: "x \<in> set xs \<Longrightarrow> (x :: nat) \<le> fold max xs a" "a \<le> fold max xs a" for a :: nat
proof -
  show le: "a \<le> fold max xs a" for a :: nat and xs :: "nat list"
  proof (induction xs arbitrary: a)
    case (Cons y ys)
    show ?case using Cons.IH[of "max y a"] by simp
  qed simp
  show "x \<in> set xs \<Longrightarrow> x \<le> fold max xs a"
  proof (induction xs arbitrary: a)
    case (Cons y ys)
    then show ?case using le[of "max y a"] by auto
  qed simp
qed

lemma depth_list: "match_list e = Some its \<Longrightarrow> x \<in> set its \<Longrightarrow> depth x < depth e"
  by (cases e rule: depth.cases) (auto simp: match_list_def less_Suc_eq_le intro!: fold_max(1))

lemma depth_tuple: "pre_expr e = TupleExpr its \<Longrightarrow> x \<in> set its \<Longrightarrow> depth x < depth e"
  by (cases e rule: depth.cases) (auto simp: less_Suc_eq_le intro!: fold_max(1))

definition child_at :: "settings \<Rightarrow> pse list \<Rightarrow> nat \<Rightarrow> pse \<Rightarrow> bool" where
  "child_at env es n e = (program_ok env es \<and> e \<in> set (nodes es) \<and> 3 * depth e + 2 \<le> n)"

text \<open>The state: cached texts read as the expression at the address, kept texts are the source of the span.\<close>

definition agg_ok :: "settings \<Rightarrow> pse list \<Rightarrow> aggregator \<Rightarrow> bool" where
  "agg_ok env es agg =
     (blanks (indentation_str env) \<and> names_ok env \<and>
      (\<forall>e\<in>set (nodes es). \<forall>ind s. hm_get (fmt_cache agg) (address e, 1, ind) = Some s \<longrightarrow> reads env e s) \<and>
      (\<forall>sp s. hm_get (ignored_exprs agg) sp = Some s \<longrightarrow>
         (\<exists>lines. source_lines env = Some lines \<and> extract_source_range lines sp = Done s)))"

lemma child_at_simps:
  "child_at env es n e \<Longrightarrow> expr_ok env e" "child_at env es n e \<Longrightarrow> sourced env e"
  "child_at env es n e \<Longrightarrow> match_list e = Some its \<Longrightarrow> x \<in> set its \<Longrightarrow> child_at env es n x"
  "child_at env es n e \<Longrightarrow> pre_expr e = TupleExpr its \<Longrightarrow> x \<in> set its \<Longrightarrow> child_at env es n x"
  using depth_list[of e its x] depth_tuple[of e its x] nodes_list[of e es its x] nodes_tuple[of e es its x]
  by (auto simp: child_at_def program_ok_def)

lemma cache_ignored_gives:
  assumes "sourced env e" shows "gives (agg_ok env es) (cache_ignored_expression env e) (\<lambda>_. True)"
proof (cases "source_lines env")
  case (Some lines)
  with assms obtain raw where "extract_expr_source lines e = Done raw" by (auto simp: sourced_def)
  then show ?thesis
    by (auto simp: cache_ignored_expression_def Some gives_def bind_fmt_def fmt_outcome_def agg_ok_def extract_expr_source_def)
qed (simp add: cache_ignored_expression_def)

definition displays :: "settings \<Rightarrow> pse \<Rightarrow> string \<Rightarrow> bool" where
  "displays env e s =
     (reads env e s \<and> (is_comment e \<longrightarrow> starts_with (CHR '';'') s) \<and>
      (\<forall>w. pre_expr e \<in> {Atom w, AtomValue (IntValue w)} \<longrightarrow> s = w))"

definition calls_ok :: "settings \<Rightarrow> pse list \<Rightarrow> nat \<Rightarrow> bool" where
  "calls_ok env es n =
     (\<forall>e\<in>set (nodes es). \<forall>ind. blanks ind \<longrightarrow>
        (3 * depth e + 1 \<le> n \<longrightarrow> gives (agg_ok env es) (call_display (aggregator_calls n env) e ind) (displays env e)) \<and>
        (3 * depth e + 1 \<le> n \<and> 2 \<le> n \<longrightarrow> gives (agg_ok env es) (call_preserve (aggregator_calls n env) e ind) (reads env e)) \<and>
        (3 * depth e + 2 \<le> n \<longrightarrow> gives (agg_ok env es) (call_exprs (aggregator_calls n env) [e] ind) (reads env e)))"

lemma calls_okD:
  assumes "calls_ok env es n" "e \<in> set (nodes es)" "blanks ind"
  shows "3 * depth e + 1 \<le> n \<Longrightarrow> gives (agg_ok env es) (call_display (aggregator_calls n env) e ind) (displays env e)"
    and "3 * depth e + 1 \<le> n \<Longrightarrow> 2 \<le> n \<Longrightarrow> gives (agg_ok env es) (call_preserve (aggregator_calls n env) e ind) (reads env e)"
    and "3 * depth e + 2 \<le> n \<Longrightarrow> gives (agg_ok env es) (call_exprs (aggregator_calls n env) [e] ind) (reads env e)"
  using assms by (simp_all add: calls_ok_def)

lemma calls_contract:
  assumes "program_ok env es \<Longrightarrow> calls_ok env es n"
  shows "formatter_calls env (aggregator_calls n env) (agg_ok env es) (child_at env es n)"
proof
  show "blanks (indentation_str env) \<and> names_ok env" if "agg_ok env es agg" for agg using that by (simp add: agg_ok_def)
  show "expr_ok env e" if "child_at env es n e" for e using that by (rule child_at_simps)
  show "child_at env es n x" if "child_at env es n e" "match_list e = Some its" "x \<in> set its" for e its x
    using that by (rule child_at_simps)
  show "child_at env es n x" if "child_at env es n e" "pre_expr e = TupleExpr its" "x \<in> set its" for e its x
    using that by (rule child_at_simps)
  have ok: "e \<in> set (nodes es)" "3 * depth e + 1 \<le> n" "2 \<le> n" "3 * depth e + 2 \<le> n" "calls_ok env es n" "sourced env e"
    if "child_at env es n e" for e using that assms by (auto simp: child_at_def program_ok_def)
  have calls: "gives (agg_ok env es) (call_display (aggregator_calls n env) e ind) (displays env e)"
      "gives (agg_ok env es) (call_preserve (aggregator_calls n env) e ind) (reads env e)"
      "gives (agg_ok env es) (call_exprs (aggregator_calls n env) [e] ind) (reads env e)"
    if "child_at env es n e" "blanks ind" for e ind
    using calls_okD[OF ok(5,1)[OF that(1)] that(2)] ok(2-4)[OF that(1)] by blast+
  show "gives (agg_ok env es) (call_exprs (aggregator_calls n env) [e] ind) (reads env e)"
    if "child_at env es n e" "blanks ind" for e ind using that by (rule calls)
  show "gives (agg_ok env es) (call_display (aggregator_calls n env) e ind)
      (\<lambda>s. reads env e s \<and> (is_comment e \<longrightarrow> starts_with (CHR '';'') s))"
    if "child_at env es n e" "blanks ind" for e ind by (rule gives_mono[OF calls(1)[OF that]]) (simp add: displays_def)
  show "gives (agg_ok env es) (call_display (aggregator_calls n env) e ind) (\<lambda>s. s = w)"
    if "child_at env es n e" "blanks ind" "pre_expr e \<in> {Atom w, AtomValue (IntValue w)}" for e ind w
    by (rule gives_mono[OF calls(1)[OF that(1,2)]]) (use that(3) in \<open>auto simp: displays_def\<close>)
  show "gives (agg_ok env es) (call_preserve (aggregator_calls n env) e ind) (reads env e)"
    if "child_at env es n e" "blanks ind" for e ind using that by (rule calls)
  show "gives (agg_ok env es) (cache_ignored_expression env e) (\<lambda>_. True)" if "child_at env es n e" for e
    using ok(6)[OF that] by (rule cache_ignored_gives)
qed

lemma children_at:
  assumes "program_ok env es" "e \<in> set (nodes es)" "3 * depth e \<le> n + 1"
  shows "match_list e = Some its \<Longrightarrow> list_all (child_at env es n) its"
    and "pre_expr e = TupleExpr its \<Longrightarrow> list_all (child_at env es n) its"
proof -
  have "child_at env es n x" if "x \<in> set (nodes es)" "depth x < depth e" for x
    using that assms(1,3) by (simp add: child_at_def)
  then show "match_list e = Some its \<Longrightarrow> list_all (child_at env es n) its"
      "pre_expr e = TupleExpr its \<Longrightarrow> list_all (child_at env es n) its"
    using depth_list[of e its] depth_tuple[of e its] nodes_list[OF assms(2)] nodes_tuple[OF assms(2)]
    unfolding list_all_iff by blast+
qed

lemma preserve_expr_gives:
  assumes "sourced env e" "gives I (call_preserve c e ind) (reads env e)"
  shows "gives I (preserve_expr env c e ind) (reads env e)"
  using assms by (cases "source_lines env") (auto simp: preserve_expr_def sourced_def intro: gives_outcome)

lemma formattable_at:
  assumes "program_ok env es" "calls_ok env es n" "e \<in> set (nodes es)" "3 * depth e + 1 \<le> n" "blanks ind"
  shows "formatter_calls.formattable env (aggregator_calls n env) (agg_ok env es) (child_at env es n) ind e"
proof -
  have fc: "formatter_calls env (aggregator_calls n env) (agg_ok env es) (child_at env es n)"
    by (rule calls_contract) (rule assms(2))
  have e: "expr_ok env e" "sourced env e" using assms(1,3) by (auto simp: program_ok_def)
  have kids: "list_all (child_at env es n) its" if "match_list e = Some its" for its
    using children_at(1)[OF assms(1,3) _ that] assms(4) by simp
  have display: "gives (agg_ok env es) (call_display (aggregator_calls n env) e ind) (reads env e)"
    by (rule gives_mono[OF calls_okD(1)[OF assms(2,3,5,4)]]) (simp add: displays_def)
  have "gives (agg_ok env es) (preserve_expr env (aggregator_calls n env) e ind) (reads env e)" if "is_list e"
  proof (rule preserve_expr_gives[OF e(2)])
    have "0 < depth e" using that by (cases e rule: depth.cases) (auto simp: is_list_def match_list_def)
    then show "gives (agg_ok env es) (call_preserve (aggregator_calls n env) e ind) (reads env e)"
      using calls_okD(2)[OF assms(2,3,5,4)] assms(4) by simp
  qed
  with e kids display show ?thesis unfolding formatter_calls.formattable_def[OF fc] by blast
qed

lemma format_source_single:
  assumes "program_ok env es" "e \<in> set (nodes es)"
    and "gives (agg_ok env es) (exprs_loop env c ind [e] 0 []) (reads env e)"
  shows "gives (agg_ok env es) (format_source_exprs env c [e] ind) (reads env e)"
  unfolding gives_def
proof (intro allI impI)
  fix agg assume agg: "agg_ok env es agg"
  have e: "sourced env e" using assms(1,2) by (auto simp: program_ok_def)
  have same: "x = e" if "x \<in> set (nodes es)" "address x = address e" for x
    using assms(1,2) that by (auto simp: program_ok_def)
  obtain s agg' where loop: "exprs_loop env c ind [e] 0 [] agg = Done (s, agg')" "agg_ok env es agg'" "reads env e s"
    using assms(3) agg by (auto simp: gives_def)
  have store: "agg_ok env es (agg'\<lparr>fmt_cache := hm_insert (cache_key [e] ind) s (fmt_cache agg')\<rparr>)"
    using loop(2,3) same by (auto simp: agg_ok_def cache_key_def split: if_splits)
  consider tx where "ignored_source [e] agg = Some tx"
    | tx where "ignored_source [e] agg = None" "hm_get (fmt_cache agg) (cache_key [e] ind) = Some tx"
    | "ignored_source [e] agg = None" "hm_get (fmt_cache agg) (cache_key [e] ind) = None"
    by (cases "ignored_source [e] agg"; cases "hm_get (fmt_cache agg) (cache_key [e] ind)") auto
  then show "\<exists>x agg'. format_source_exprs env c [e] ind agg = Done (x, agg') \<and> agg_ok env es agg' \<and> reads env e x"
  proof cases
    case 1
    then have "reads env e tx" using agg e by (fastforce simp: ignored_source_def agg_ok_def sourced_def extract_expr_source_def)
    with 1 agg show ?thesis by (simp add: format_source_exprs_def)
  next
    case 2
    then have "reads env e tx" using agg assms(2) by (auto simp: cache_key_def agg_ok_def)
    with 2 agg show ?thesis by (simp add: format_source_exprs_def)
  next
    case 3
    then show ?thesis using loop store by (simp add: format_source_exprs_def del: exprs_loop.simps)
  qed
qed

lemma calls_step:
  assumes "program_ok env es" "calls_ok env es n" shows "calls_ok env es (Suc n)"
proof -
  let ?c = "aggregator_calls n env" and ?I = "agg_ok env es"
  have fc: "formatter_calls env ?c ?I (child_at env es n)" by (rule calls_contract) (rule assms(2))
  have "gives ?I (display_pse env ?c e ind) (displays env e)"
    if "e \<in> set (nodes es)" "blanks ind" "3 * depth e + 1 \<le> Suc n" for e ind
  proof -
    have e: "expr_ok env e" "sourced env e" using assms(1) that(1) by (auto simp: program_ok_def)
    have kids: "match_list e = Some its \<Longrightarrow> list_all (child_at env es n) its" "pre_expr e = TupleExpr its \<Longrightarrow> list_all (child_at env es n) its" for its
      using children_at[OF assms(1) that(1), of n its] that(3) by auto
    note reads = formatter_calls.display_pse_reads[OF fc e that(2) kids]
    show ?thesis unfolding gives_def
    proof (intro allI impI)
      fix agg assume agg: "?I agg"
      obtain s agg' where s: "display_pse env ?c e ind agg = Done (s, agg')" "?I agg'" "reads env e s \<and> (is_comment e \<longrightarrow> starts_with (CHR '';'') s)"
        using reads agg by (auto simp: gives_def)
      have "s = w" if "pre_expr e \<in> {Atom w, AtomValue (IntValue w)}" for w
        using formatter_calls.display_pse_exact[OF fc e(1) that, of ind] agg s(1) by (auto simp: gives_def)
      with s show "\<exists>x agg'. display_pse env ?c e ind agg = Done (x, agg') \<and> ?I agg' \<and> displays env e x"
        by (auto simp: displays_def)
    qed
  qed
  moreover have "gives ?I (preserve_syntax ?c e ind) (reads env e)"
    if "e \<in> set (nodes es)" "blanks ind" "3 * depth e + 1 \<le> Suc n" "2 \<le> Suc n" for e ind
  proof (cases "\<exists>its. pre_expr e \<in> {ListExpr its, TupleExpr its}")
    case True
    then obtain its where its: "pre_expr e \<in> {ListExpr its, TupleExpr its}" by blast
    then have "list_all (child_at env es n) its"
      using children_at[OF assms(1) that(1), of n its] that(3) by (auto simp: match_list_def)
    from formatter_calls.preserve_syntax_reads[OF fc its this that(2)] show ?thesis .
  next
    case False
    then have "depth e = 0" and leaf: "preserve_syntax ?c e ind = call_display ?c e ind"
      by (cases e rule: depth.cases; auto simp: preserve_syntax_def)+
    with that show ?thesis unfolding leaf
      by (intro gives_mono[OF calls_okD(1)[OF assms(2) that(1,2)]]) (auto simp: displays_def)
  qed
  moreover have "gives ?I (format_source_exprs env ?c [e] ind) (reads env e)"
    if "e \<in> set (nodes es)" "blanks ind" "3 * depth e + 2 \<le> Suc n" for e ind
  proof (rule format_source_single[OF assms(1) that(1)])
    have "formatter_calls.formattable env ?c ?I (child_at env es n) ind e"
      using formattable_at[OF assms that(1) _ that(2)] that(3) by simp
    from formatter_calls.exprs_single[OF fc this that(2)] show "gives ?I (exprs_loop env ?c ind [e] 0 []) (reads env e)" .
  qed
  ultimately show ?thesis by (simp add: calls_ok_def Let_def)
qed

lemma calls_correct: "program_ok env es \<Longrightarrow> calls_ok env es n"
proof (induction n)
  case 0
  show ?case by (simp add: calls_ok_def)
qed (rule calls_step)

interpretation recursion: formatter_calls env "aggregator_calls n env" "agg_ok env es" "child_at env es n" for env n es
  by (rule calls_contract) (rule calls_correct)

section \<open>Entry points\<close>

lemma agg_ok_empty:
  "blanks (indentation_str env) \<Longrightarrow> names_ok env \<Longrightarrow> agg_ok env es \<lparr>fmt_cache = [], ignored_exprs = []\<rparr>"
  by (simp add: agg_ok_def)

lemma depth_of_le: "e \<in> set es \<Longrightarrow> depth e \<le> depth_of es"
  unfolding depth_of_def by (rule fold_max) simp

lemma format_roots:
  assumes "program_ok env es" "blanks (indentation_str env)" "names_ok env" "blanks ind"
  shows "\<exists>s agg. format_source_exprs env (all_calls env es) es ind \<lparr>fmt_cache = [], ignored_exprs = []\<rparr> = Done (s, agg) \<and>
    texts_in s (all_readings env es) True"
proof -
  let ?n = "3 * depth_of es + 4"
  have roots: "list_all (formatter_calls.formattable env (aggregator_calls ?n env) (agg_ok env es) (child_at env es ?n) ind) es"
    using formattable_at[OF assms(1) calls_correct[OF assms(1)] nodes_roots _ assms(4)] depth_of_le
    by (fastforce simp: list_all_iff)
  have ok: "siblings_ok es" "ranges_ok env es" using assms(1) by (simp_all add: program_ok_def)
  have "gives (agg_ok env es) (exprs_loop env (aggregator_calls ?n env) ind es 0 []) (\<lambda>s. texts_in s (seq {[]} (all_readings env es)) True)"
    using recursion.exprs_loop_gives[OF roots ok assms(4), of "[]" "{[]}" 0] written_Nil by (simp add: written_as_def)
  from givesD[OF this agg_ok_empty[OF assms(2,3)]] show ?thesis
    by (auto simp: format_source_exprs_def all_calls_def ignored_source_def split: list.split)
qed

lemma blanks_indentation: "blanks (show_indentation i)"
  by (cases i) (auto simp: blanks_def ascii_def list_all_iff blank_def)

lemma leading_indent_ascii:
  assumes "ascii src" shows "leading_indent src = Done (takeWhile blank src)" "blanks (takeWhile blank src)"
proof -
  have "length (takeWhile is_whitespace (utf8_chars src)) = length (takeWhile blank src)"
    by (simp add: utf8_chars_ascii[OF assms] takeWhile_map comp_def is_whitespace_char)
  then show "leading_indent src = Done (takeWhile blank src)"
    using str_slice_ascii[OF assms, of 0] length_takeWhile_le[of blank src]
    by (simp add: leading_indent_def takeWhile_eq_take[of blank src, symmetric])
  show "blanks (takeWhile blank src)"
    using assms by (auto simp: blanks_def ascii_def list_all_iff dest: set_takeWhileD)
qed

lemma generate_gives:
  assumes "program_ok env es" "blanks (indentation_str env)" "names_ok env" "\<forall>src. source env = Some src \<longrightarrow> ascii src"
  shows "\<exists>s. generate env es = Done s \<and> texts_in s (all_readings env es) True"
proof -
  have spaces: "blanks (push_spaces n)" for n by (auto simp: push_spaces_def blanks_def ascii_def list_all_iff blank_def)
  obtain ind where ind: "(case source env of Some src \<Rightarrow> leading_indent src
      | None \<Rightarrow> Done (case es of [] \<Rightarrow> [] | e # _ \<Rightarrow> push_spaces (saturating_sub (start_column (span_of e)) 1))) = Done ind" "blanks ind"
    using assms(4) leading_indent_ascii spaces by (cases "source env"; cases es) auto
  obtain s agg where s: "format_source_exprs env (all_calls env es) es ind \<lparr>fmt_cache = [], ignored_exprs = []\<rparr> = Done (s, agg)"
      "texts_in s (all_readings env es) True"
    using format_roots[OF assms(1-3) ind(2)] by blast
  have "texts_in (ind @ s) (all_readings env es) True"
    using s(2) texts_trim[of ind "[]" s] ind(2) by (auto simp: texts_in_def blanks_def)
  with s ind(1) show ?thesis by (auto simp: generate_def)
qed

lemma texts_in_tokens: "texts_in s R op \<Longrightarrow> tokens s \<in> R"
  by (auto simp: texts_in_def texts_tokens)

text \<open>The source \<^verbatim>\<open>(f x) ;; c\<close> after an empty line, as the parser delivers it.\<close>

definition sample_span :: "u32 \<Rightarrow> u32 \<Rightarrow> u32 \<Rightarrow> u32 \<Rightarrow> span" where
  "sample_span l c l' c' = \<lparr>start_line = l, start_column = c, end_line = l', end_column = c'\<rparr>"

definition sample_source :: string where
  "sample_source = newline # ''(f x) ;; c''"

definition sample_exprs :: "pse list" where
  "sample_exprs =
     [PSE (ListExpr [PSE (Atom ''f'') (sample_span 1 2 1 2) 2, PSE (Atom ''x'') (sample_span 1 4 1 4) 3])
        (sample_span 1 1 1 5) 1,
      PSE (Comment ''c'') (sample_span 1 7 1 10) 4]"

definition sample_formatter :: formatter where
  "sample_formatter = \<lparr>fmt_indentation = Space 2, fmt_max_line_length = 80, fmt_native = (\<lambda>_. None),
     fmt_define = (\<lambda>_. None), fmt_parse = (\<lambda>_. Inr sample_exprs)\<rparr>"

lemma seq_singletons [simp]: "seq {a} {b} = {a @ b}"
  by (simp add: seq_def)

lemmas sample_defs = sample_span_def sample_source_def sample_exprs_def sample_formatter_def

lemmas sample_eval = sample_defs aggregator_new_def texts_in_def texts_def strip_def lexes_def lex_char_def closed_def
  separator_def blank_def bracket_def newline_def reads_def sourced_def extract_expr_source_def extract_source_range_def
  extract_line_def COLUMN_TO_INDEX_OFFSET_def str_slice_def char_boundary_def is_comment_def leaf_readings_def comment_token_def
  converts_def match_atom_def match_list_def

lemma sample_sourced: "list_all (sourced (aggregator_new sample_formatter (Some ''(f x) ;; c''))) (nodes sample_exprs)"
  by (simp add: sample_eval nodes_def upt_rec)


lemma sample_expr_ok: "list_all (expr_ok (aggregator_new sample_formatter src)) (nodes sample_exprs)"
  by (simp add: sample_eval nodes_def expr_ok_def list_ok_def form_ok_def word_def)

lemma sample_program:
  assumes "list_all (sourced (aggregator_new sample_formatter src)) (nodes sample_exprs)"
  shows "program_ok (aggregator_new sample_formatter src) sample_exprs"
proof -
  have "\<forall>e\<in>set (nodes sample_exprs). \<forall>e'\<in>set (nodes sample_exprs). address e = address e' \<longrightarrow> e = e'"
    by (simp add: sample_defs nodes_def)
  moreover have "siblings_ok sample_exprs" "ranges_ok (aggregator_new sample_formatter src) sample_exprs"
    by (simp_all add: sample_defs is_comment_def is_format_ignore_def)
  ultimately show ?thesis using assms sample_expr_ok by (auto simp: program_ok_def list_all_iff)
qed

lemma sample_program_ok:
  "program_ok (aggregator_new sample_formatter (Some ''(f x) ;; c'')) sample_exprs"
  "program_ok (aggregator_new sample_formatter None) sample_exprs"
proof -
  show "program_ok (aggregator_new sample_formatter (Some ''(f x) ;; c'')) sample_exprs"
    by (rule sample_program[OF sample_sourced])
  show "program_ok (aggregator_new sample_formatter None) sample_exprs"
    by (rule sample_program) (simp add: list_all_iff sourced_def aggregator_new_def)
qed

lemma sample_names_ok: "names_ok (aggregator_new sample_formatter src)"
  by (simp add: names_ok_def aggregator_new_def sample_formatter_def)



text \<open>
  Formatting expressions that have no source text returns, and the output has the tokens of the
  expressions.
\<close>

theorem format_ast_keeps_the_program:
  assumes "program_ok (aggregator_new f None) es" "names_ok (aggregator_new f None)"
  shows "\<exists>out. format_ast f es = Done out \<and> tokens out \<in> all_readings (aggregator_new f None) es"
  using generate_gives[OF assms(1) _ assms(2)] texts_in_tokens
  by (fastforce simp: format_ast_def aggregator_new_def blanks_indentation)

theorem format_ast_keeps_the_program_witness:
  "\<exists>out. format_ast sample_formatter sample_exprs = Done out \<and>
     tokens out \<in> all_readings (aggregator_new sample_formatter None) sample_exprs"
  using format_ast_keeps_the_program[OF sample_program_ok(2) sample_names_ok] .

lemma format_section_gives:
  assumes "fmt_parse f src = Inr es" "program_ok (aggregator_new f (Some src)) es" "names_ok (aggregator_new f (Some src))" "ascii src"
  shows "\<exists>out. format_section f src = Done (Inr out) \<and> tokens out \<in> all_readings (aggregator_new f (Some src)) es"
proof -
  obtain s where s: "generate (aggregator_new f (Some src)) es = Done s" "texts_in s (all_readings (aggregator_new f (Some src)) es) True"
    using generate_gives[OF assms(2) _ assms(3)] assms(4) blanks_indentation by (auto simp: aggregator_new_def)
  have "texts_in (takeWhile blank src @ s) (all_readings (aggregator_new f (Some src)) es) True"
    using s(2) texts_trim[of "takeWhile blank src" "[]" s] leading_indent_ascii(2)[OF assms(4)] by (auto simp: texts_in_def blanks_def)
  with s(1) assms(1) leading_indent_ascii(1)[OF assms(4)] texts_in_tokens show ?thesis
    by (auto simp: format_section_def)
qed

end
