(* ===== verification/Format_Limits.thy ===== *)
theory Format_Limits
  imports Format_Correct
begin

text \<open>
  What the theorems on the formatter leave open. Where no call of \<^verbatim>\<open>tuple\<close> can be rewritten, an
  expression can be written in one way only, so the tokens of the output are known. Outside the
  forms the layouts rely on, the formatter panics or writes a text that is not the program.
\<close>

section \<open>The tokens of an expression\<close>

definition leaf_token :: "pse \<Rightarrow> string" where
  "leaf_token e =
     (case pre_expr e of
        Atom name \<Rightarrow> name
      | AtomValue val \<Rightarrow>
          (case val of
             PrincipalValue p \<Rightarrow> [CHR 0x27] @ p
           | AsciiValue data \<Rightarrow> ascii_literal data
           | Utf8Value tx \<Rightarrow> tx
           | IntValue tx \<Rightarrow> tx
           | OtherValue tx \<Rightarrow> tx)
      | SugaredContractIdentifier name \<Rightarrow> ''.'' @ name
      | SugaredFieldIdentifier contract field \<Rightarrow> ''.'' @ contract @ ''.'' @ field
      | FieldIdentifier trait_id \<Rightarrow> [CHR 0x27] @ trait_id
      | TraitReference name \<Rightarrow> ''<'' @ name @ ''>''
      | Comment tx \<Rightarrow> comment_token tx
      | Placeholder tx \<Rightarrow> tx
      | _ \<Rightarrow> [])"

function expr_tokens :: "pse \<Rightarrow> string list" and entry_tokens :: "bool \<Rightarrow> pse list \<Rightarrow> string list" where
  "expr_tokens (PSE x sp a) =
     (case x of
        ListExpr its \<Rightarrow> [''(''] @ concat (map expr_tokens its) @ ['')'']
      | TupleExpr its \<Rightarrow> [''{''] @ entry_tokens True its @ [''}'']
      | _ \<Rightarrow> [leaf_token (PSE x sp a)])"
| "entry_tokens is_key [] = []"
| "entry_tokens is_key (e # es) =
     expr_tokens e @ (if is_comment e then entry_tokens is_key es
                      else if is_key then '':'' # entry_tokens False es
                      else entry_tokens True es)"
  by pat_completeness auto
termination
  by (relation "measure (\<lambda>x. case x of Inl e \<Rightarrow> 2 * size e | Inr (b, es) \<Rightarrow> 2 * size_list size es)")
    (auto dest!: elem_size simp: less_Suc_eq_le)

text \<open>No list of the program is a call of \<^verbatim>\<open>tuple\<close> that can be rewritten.\<close>

definition no_tuple_calls :: "settings \<Rightarrow> pse \<Rightarrow> bool" where
  "no_tuple_calls env e =
     list_all (\<lambda>x. case match_list x of Some its \<Rightarrow> \<not> converts env its | None \<Rightarrow> True) (subexprs e)"

lemma no_tuple_calls_simps [simp]:
  "no_tuple_calls env (PSE (ListExpr its) sp a) \<longleftrightarrow> \<not> converts env its \<and> list_all (no_tuple_calls env) its"
  "no_tuple_calls env (PSE (TupleExpr its) sp a) \<longleftrightarrow> list_all (no_tuple_calls env) its"
  by (auto simp: no_tuple_calls_def match_list_def list_all_iff)

lemma cat_singletons: "(\<And>e. e \<in> set es \<Longrightarrow> f e = {g e}) \<Longrightarrow> cat (map f es) = {concat (map g es)}"
  by (induction es) simp_all

lemma readings_unique:
  assumes "source_lines env = None"
  shows "no_tuple_calls env e \<Longrightarrow> readings env e = {expr_tokens e}"
    and "list_all (no_tuple_calls env) es \<Longrightarrow> sugar_readings env is_key es = {entry_tokens is_key es}"
proof (induction e and is_key es rule: expr_tokens_entry_tokens.induct)
  case (1 x sp a)
  have leaf: "readings env (PSE x sp a) = {[leaf_token (PSE x sp a)]}" if "\<And>its. x \<noteq> ListExpr its" "\<And>its. x \<noteq> TupleExpr its"
    using that assms by (cases x) (auto simp: leaf_readings_def leaf_token_def value_readings_def split: literal_value.split)
  show ?case
  proof (cases x)
    case (ListExpr its)
    have "cat (map (readings env) its) = {concat (map expr_tokens its)}"
      using 1 by (intro cat_singletons) (auto simp: ListExpr list_all_iff)
    then show ?thesis using "1.prems" by (simp add: ListExpr)
  next
    case (TupleExpr its)
    then show ?thesis using 1 by simp
  qed (use leaf in auto)
qed simp_all



lemma list_no_comment_ignore: "is_list e \<Longrightarrow> \<not> is_format_ignore e"
  by (auto simp: is_list_def match_list_def is_format_ignore_def split: pre_expr.splits)

section \<open>Where a form is not what the layout expects\<close>

context formatter_calls begin

lemma format_let_no_list:
  assumes "list_all child body" "\<not> is_list x" "blanks ind"
  shows "gives I (format_let env c (first # x # body) ind)
    (\<lambda>s. texts_in s (seq {[''('', ''let'', ''('']} (seq (all_readings env body) {['')'']})) False)"
proof (rule gives_layout)
  assume l: "blanks (indentation_str env)"
  have nested: "blanks (indented env ind)" using assms(3) l by (simp add: indented_def)
  have "lexes_in ''(let'' (seq {[''('']} {[''let'']}) False"
    using lexes_in_open_bracket[of "CHR ''(''", OF _ lexes_in_word[OF form_words(1)]] by simp
  from lexes_in_open_list[OF this, of True]
  have head: "lexes_in ''(let ('' {[''('', ''let'', ''('']} True" by (simp add: seq_def)
  have no_bindings: "match_list x = None" using assms(2) by (simp add: is_list_def)
  show ?thesis unfolding format_let_def Let_def
    by (rule gives_bind[OF nth_expr_gives[where i = 1]], simp, hypsubst,
        simp add: no_bindings, rule gives_bind[OF gives_return[where P = "\<lambda>ds. ds = []"]], simp, hypsubst,
        rule gives_bind[OF body_doc_gives[OF assms(1) nested]])
      (use body_close[of _ "all_readings env body" "[Text ''(let ('']" "{[''('', ''let'', ''('']}" ind] head assms(3) l in auto)
qed

end

text \<open>
  C39. A \<^verbatim>\<open>let\<close> with a comment, or anything that is no list, where the bindings are expected is written
  as an opened list of bindings, the rest of the form and one closing bracket: the comment is gone
  and the brackets do not match.
\<close>

theorem let_drops_comment_before_bindings:
  assumes "list_all (child_at env es n) body" "\<not> is_list x" "blanks ind" "agg_ok env es agg"
  shows "\<exists>out agg'. format_let env (aggregator_calls n env) (first # x # body) ind agg = Done (out, agg') \<and>
    tokens out \<in> seq {[''('', ''let'', ''('']} (seq (all_readings env body) {['')'']})"
  using givesD[OF recursion.format_let_no_list[OF assms(1-3)] assms(4)] texts_in_tokens by blast

theorem let_drops_comment_before_bindings_witness:
  "\<exists>out agg'. format_let (aggregator_new sample_formatter None) (aggregator_calls 5 (aggregator_new sample_formatter None))
      (PSE (Atom ''let'') (sample_span 1 2 1 4) 10 # PSE (Comment ''gone'') (sample_span 1 6 1 12) 11 # [hd sample_exprs]) []
      \<lparr>fmt_cache = [], ignored_exprs = []\<rparr> = Done (out, agg') \<and>
    tokens out = [''('', ''let'', ''('', ''('', ''f'', ''x'', '')'', '')'']"
proof -
  let ?env = "aggregator_new sample_formatter None"
  have agg: "agg_ok ?env sample_exprs \<lparr>fmt_cache = [], ignored_exprs = []\<rparr>"
    by (rule agg_ok_empty[OF _ sample_names_ok]) (simp add: aggregator_new_def blanks_indentation)
  have kids: "list_all (child_at ?env sample_exprs 5) [hd sample_exprs]"
    using sample_program_ok(2) by (simp add: child_at_def) (simp add: sample_exprs_def nodes_def)
  have comment: "\<not> is_list (PSE (Comment ''gone'') (sample_span 1 6 1 12) 11)" by (simp add: is_list_def match_list_def)
  have reading: "all_readings ?env [hd sample_exprs] = {[''('', ''f'', ''x'', '')'']}"
    by (simp add: sample_exprs_def leaf_readings_def converts_def match_atom_def aggregator_new_def sample_formatter_def)
  have empty: "blanks []" by simp
  from let_drops_comment_before_bindings[OF kids comment empty agg, of "PSE (Atom ''let'') (sample_span 1 2 1 4) 10"]
  show ?thesis unfolding reading by simp
qed

text \<open>
  C40. Bare \<^verbatim>\<open>(let)\<close>, \<^verbatim>\<open>(match)\<close> and \<^verbatim>\<open>(restrict-assets?)\<close>, which parse, make the formatter panic: the layouts
  index the second expression of the form.
\<close>

theorem bare_forms_panic:
  assumes "match_list e = Some [first]" "match_atom first = Some name"
    and "fmt_native f name \<in> {Some Let_native, Some Match, Some RestrictAssets}"
  shows "format_ast f [e] = Panic"
proof -
  let ?env = "aggregator_new f None"
  have "format_list_call ?env c e name [first] ind agg = Panic" for c ind agg
    using assms(3) by (auto simp: aggregator_new_def format_list_call_def format_let_def format_match_def
        format_restrict_assets_def nth_expr_def fmt_outcome_def bind_fmt_def Let_def)
  then have "format_expr ?env c e ind agg = Panic" for c ind agg
    by (simp add: format_expr_def assms(1,2) bind_fmt_def)
  then have "exprs_loop ?env c ind [e] prev result agg = Panic" for c ind prev result agg
    using list_no_comment_ignore[of e] assms(1) by (simp add: format_step_def bind_fmt_def Let_def is_list_def)
  then show ?thesis
    by (simp add: format_ast_def generate_def aggregator_new_def format_source_exprs_def ignored_source_def del: exprs_loop.simps)
qed

theorem bare_forms_panic_witness:
  "format_ast (sample_formatter\<lparr>fmt_native := \<lambda>name. if name = ''let'' then Some Let_native else None\<rparr>)
     [PSE (ListExpr [PSE (Atom ''let'') (sample_span 1 2 1 4) 2]) (sample_span 1 1 1 5) 1] = Panic"
  by (rule bare_forms_panic[where name = "''let''" and first = "PSE (Atom ''let'') (sample_span 1 2 1 4) 2"]) (simp_all add: match_list_def match_atom_def)

end
