(* ===== verification/Contract_Graph.thy ===== *)
theory Contract_Graph
  imports Simnet_Store
begin

text \<open>
  The order in which a deployment publishes its contracts: \<^verbatim>\<open>Graph\<close>, \<^verbatim>\<open>GraphWalker\<close> and
  \<^verbatim>\<open>ASTDependencyDetector::order_contracts\<close> of
  \<^verbatim>\<open>components/clarity-repl/src/analysis/ast_dependency_detector.rs\<close>.

  Contract identifiers are a linearly ordered type of another crate, so they are a type variable;
  what the code reads of one (its name, its printed form) is in \<open>contract_lib\<close>, together with the
  rank that fixes the iteration order of a hash set. A \<^verbatim>\<open>BTreeSet<Dependency>\<close>, whose
  elements are compared by their contract only, is an ordered map from contracts to the flag
  \<^verbatim>\<open>required_before_publish\<close>.
\<close>

record 'c contract_lib =
  cl_name :: "'c \<Rightarrow> string"
  cl_show :: "'c \<Rightarrow> string"
  cl_rank :: "nat \<Rightarrow> nat"

section \<open>Sets of dependencies\<close>

type_synonym 'c dependency = "'c \<times> bool"

type_synonym 'c dependency_set = "('c, bool) btree_map"

abbreviation dep_contract_id :: "'c dependency \<Rightarrow> 'c" where
  "dep_contract_id \<equiv> fst"

abbreviation required_before_publish :: "'c dependency \<Rightarrow> bool" where
  "required_before_publish \<equiv> snd"

text \<open>\<^verbatim>\<open>BTreeSet::insert\<close> keeps the element that is there.\<close>

definition dependency_insert :: "'c::linorder dependency \<Rightarrow> 'c dependency_set \<Rightarrow> 'c dependency_set" where
  "dependency_insert d ds =
     (case bt_get ds (dep_contract_id d) of
        None \<Rightarrow> bt_insert (dep_contract_id d) (required_before_publish d) ds
      | Some _ \<Rightarrow> ds)"

definition dependency_set_add :: "'c::linorder \<Rightarrow> bool \<Rightarrow> 'c dependency_set \<Rightarrow> 'c dependency_set" where
  "dependency_set_add c required ds =
     dependency_insert (c, required) (if required then bt_remove c ds else ds)"

definition has_dependency :: "'c dependency_set \<Rightarrow> 'c \<Rightarrow> bool option" where
  "has_dependency ds c = bt_get ds c"

lemma has_dependency_add:
  "has_dependency (dependency_set_add c required ds) c' =
     (if c' = c then Some (required \<or> has_dependency ds c = Some True) else has_dependency ds c')"
  by (auto simp: has_dependency_def dependency_set_add_def dependency_insert_def bt.get_insert
        bt.get_remove split: option.splits)

lemma keys_dependency_add [simp]:
  "fst ` set (dependency_set_add c required ds) = insert c (fst ` set ds)"
proof -
  have "x \<in> fst ` set m \<longleftrightarrow> bt_get m x \<noteq> None" for x and m :: "('a, bool) btree_map"
    by (simp add: map_of_eq_None_iff)
  then show ?thesis
    using has_dependency_add [of c required ds] by (auto simp: has_dependency_def set_eq_iff)
qed

lemma dependency_add_wf: "bt_wf ds \<Longrightarrow> bt_wf (dependency_set_add c required ds)"
  by (auto simp: dependency_set_add_def dependency_insert_def bt_wf_insert bt_wf_remove split: option.splits)

section \<open>The graph\<close>

type_synonym graph = "nat list list"

definition add_node :: "graph \<Rightarrow> nat \<Rightarrow> graph" where
  "add_node g i = g @ [[]]"

definition add_directed_edge :: "graph \<Rightarrow> nat \<Rightarrow> nat \<Rightarrow> graph outcome" where
  "add_directed_edge g src dst =
     bind_outcome (expect (if src < length g then Some (g ! src) else None))
       (\<lambda>edges. Done (g[src := edges @ [dst]]))"

definition get_node_descendants :: "graph \<Rightarrow> nat \<Rightarrow> nat list outcome" where
  "get_node_descendants g i = expect (if i < length g then Some (g ! i) else None)"

definition has_node_descendants :: "graph \<Rightarrow> nat \<Rightarrow> bool outcome" where
  "has_node_descendants g i =
     bind_outcome (expect (if i < length g then Some (g ! i) else None)) (\<lambda>edges. Done (edges \<noteq> []))"

definition nodes_count :: "graph \<Rightarrow> nat" where
  "nodes_count g = length g"

definition neighbors :: "graph \<Rightarrow> nat \<Rightarrow> nat list" where
  "neighbors g i = (if i < length g then g ! i else [])"

definition unseen :: "graph \<Rightarrow> nat set \<Rightarrow> nat" where
  "unseen g seen = card ({..<length g} - seen)"

lemma unseen_mono: "seen \<subseteq> seen' \<Longrightarrow> unseen g seen' \<le> unseen g seen"
  by (auto simp: unseen_def intro!: card_mono)

lemma unseen_insert: "i < length g \<Longrightarrow> i \<notin> seen \<Longrightarrow> unseen g (insert i seen) < unseen g seen"
  unfolding unseen_def by (rule psubset_card_mono) auto

text \<open>The depth-first walk: the nodes seen so far and the nodes finished so far, in order.\<close>

function (sequential)
  sort_dependencies_recursion :: "graph \<Rightarrow> nat \<Rightarrow> nat set \<times> nat list \<Rightarrow> nat set \<times> nat list"
  and sort_neighbors :: "graph \<Rightarrow> nat list \<Rightarrow> nat set \<times> nat list \<Rightarrow> nat set \<times> nat list"
where
  "sort_dependencies_recursion g i (seen, branch) =
     (if i \<in> seen then (seen, branch)
      else case sort_neighbors g (neighbors g i) (insert i seen, branch) of
             (seen', branch') \<Rightarrow> (seen', branch' @ [i]))"
| "sort_neighbors g [] st = st"
| "sort_neighbors g (n # ns) st = sort_neighbors g ns (sort_dependencies_recursion g n st)"
  by pat_completeness auto

termination
proof -
  have grows: "sort_dependencies_recursion_sort_neighbors_dom (Inl (g, i, st)) \<Longrightarrow>
      fst st \<subseteq> fst (sort_dependencies_recursion g i st)"
    "sort_dependencies_recursion_sort_neighbors_dom (Inr (g, ns, st)) \<Longrightarrow>
      fst st \<subseteq> fst (sort_neighbors g ns st)" for g i ns and st :: "nat set \<times> nat list"
  proof (induction g i st and g ns st rule: sort_dependencies_recursion_sort_neighbors.pinduct)
    case (1 g i seen branch)
    then show ?case
      by (force simp: sort_dependencies_recursion.psimps split: prod.splits)
  next
    case (2 g st)
    then show ?case by (simp add: sort_neighbors.psimps)
  next
    case (3 g n ns st)
    then show ?case by (auto simp: sort_neighbors.psimps)
  qed
  show ?thesis
  proof (relation "measures [\<lambda>x. case x of Inl (g, i, st) \<Rightarrow> unseen g (fst st)
                                           | Inr (g, ns, st) \<Rightarrow> unseen g (fst st),
                               \<lambda>x. case x of Inl _ \<Rightarrow> 1 | Inr (g, ns, st) \<Rightarrow> 2 * length ns]", goal_cases)
    case (2 g i seen branch)
    then show ?case
      using unseen_insert [of i g seen] unseen_mono [of seen "insert i seen" g]
      by (auto simp: neighbors_def le_less)
  next
    case (4 g n ns st)
    then show ?case
      using unseen_mono [OF grows(1) [OF 4], of g] by (auto simp: le_less)
  qed auto
qed

definition get_sorted_dependencies :: "graph \<Rightarrow> nat list" where
  "get_sorted_dependencies g = snd (sort_neighbors g [0..<nodes_count g] ({}, []))"

text \<open>
  The search for cycles. A node is tainted when everything below it has been accounted for.
\<close>

fun taint_descendants :: "graph \<Rightarrow> nat list \<Rightarrow> nat set \<Rightarrow> nat \<Rightarrow> (nat set \<times> nat) outcome" where
  "taint_descendants g [] tainted n = Done (tainted, n)"
| "taint_descendants g (d # ds) tainted n =
     bind_outcome (has_node_descendants g d) (\<lambda>has.
       if \<not> has \<or> d \<in> tainted then taint_descendants g ds (insert d tainted) (n + 1)
       else taint_descendants g ds tainted n)"

fun taint_nodes :: "graph \<Rightarrow> nat list \<Rightarrow> nat set \<Rightarrow> nat set outcome" where
  "taint_nodes g [] tainted = Done tainted"
| "taint_nodes g (i # is) tainted =
     bind_outcome (get_node_descendants g i) (\<lambda>ds.
       bind_outcome (taint_descendants g ds tainted 0) (\<lambda>(tainted', n).
         taint_nodes g is (if n = length ds then insert i tainted' else tainted')))"

text \<open>A hash set is iterated in the order of its ranks.\<close>

definition hash_set_iter :: "(nat \<Rightarrow> nat) \<Rightarrow> nat list \<Rightarrow> nat list" where
  "hash_set_iter rank xs = sort_key rank (remdups xs)"

definition get_cycling_dependencies :: "(nat \<Rightarrow> nat) \<Rightarrow> graph \<Rightarrow> nat list \<Rightarrow> nat list option outcome" where
  "get_cycling_dependencies rank g sorted_indexes =
     bind_outcome (taint_nodes g sorted_indexes {}) (\<lambda>tainted.
       Done (if card tainted = length sorted_indexes then None
             else Some (filter (\<lambda>i. i \<notin> tainted) (hash_set_iter rank sorted_indexes))))"

section \<open>Ordering the contracts\<close>

record incorrect_contract_height =
  ich_contract_id :: string
  ich_contract_epoch :: stacks_epoch_id
  ich_dep_contract_id :: string
  ich_dep_epoch :: stacks_epoch_id

datatype check_error =
    CircularReference "string list"
  | IncorrectContractHeight incorrect_contract_height

definition epoch_or_default :: "('c \<Rightarrow> stacks_epoch_id option) \<Rightarrow> 'c \<Rightarrow> stacks_epoch_id" where
  "epoch_or_default epochs c = (case epochs c of Some e \<Rightarrow> e | None \<Rightarrow> Epoch20)"

fun order_lookup :: "('c::linorder \<times> 'd) list \<Rightarrow> nat \<Rightarrow> ('c, nat) btree_map \<Rightarrow> 'c list \<Rightarrow>
    ('c, nat) btree_map \<times> 'c list" where
  "order_lookup [] index lookup reverse_lookup = (lookup, reverse_lookup)"
| "order_lookup ((c, _) # m) index lookup reverse_lookup =
     order_lookup m (index + 1) (bt_insert c index lookup) (reverse_lookup @ [c])"

fun add_edges :: "'c::linorder contract_lib \<Rightarrow> ('c \<Rightarrow> stacks_epoch_id option) \<Rightarrow> ('c, nat) btree_map \<Rightarrow>
    'c \<Rightarrow> nat \<Rightarrow> stacks_epoch_id \<Rightarrow> 'c dependency list \<Rightarrow> graph \<Rightarrow> (check_error + graph) outcome" where
  "add_edges L epochs lookup c contract_id contract_epoch [] g = Done (Inr g)"
| "add_edges L epochs lookup c contract_id contract_epoch (d # ds) g =
     (let dep_epoch = epoch_or_default epochs (dep_contract_id d) in
      if contract_epoch < dep_epoch then
        Done (Inl (IncorrectContractHeight
          \<lparr> ich_contract_id = cl_show L c, ich_contract_epoch = contract_epoch,
            ich_dep_contract_id = cl_show L (dep_contract_id d), ich_dep_epoch = dep_epoch \<rparr>))
      else
        case bt_get lookup (dep_contract_id d) of
          None \<Rightarrow> add_edges L epochs lookup c contract_id contract_epoch ds g
        | Some dep_id \<Rightarrow>
            bind_outcome (add_directed_edge g contract_id dep_id)
              (add_edges L epochs lookup c contract_id contract_epoch ds))"

fun build_graph :: "'c::linorder contract_lib \<Rightarrow> ('c \<Rightarrow> stacks_epoch_id option) \<Rightarrow> ('c, nat) btree_map \<Rightarrow>
    ('c \<times> 'c dependency_set) list \<Rightarrow> graph \<Rightarrow> (check_error + graph) outcome" where
  "build_graph L epochs lookup [] g = Done (Inr g)"
| "build_graph L epochs lookup ((c, ds) # m) g =
     bind_outcome (expect (bt_get lookup c)) (\<lambda>contract_id.
       bind_outcome
         (add_edges L epochs lookup c contract_id (epoch_or_default epochs c) ds (add_node g contract_id))
         (\<lambda>r. case r of Inl e \<Rightarrow> Done (Inl e) | Inr g' \<Rightarrow> build_graph L epochs lookup m g'))"

fun outcome_map :: "('a \<Rightarrow> 'b outcome) \<Rightarrow> 'a list \<Rightarrow> 'b list outcome" where
  "outcome_map f [] = Done []"
| "outcome_map f (x # xs) = bind_outcome (f x) (\<lambda>y. bind_outcome (outcome_map f xs) (\<lambda>ys. Done (y # ys)))"

definition index_or_panic :: "'a list \<Rightarrow> nat \<Rightarrow> 'a outcome" where
  "index_or_panic xs i = (if i < length xs then Done (xs ! i) else Panic)"

definition order_contracts :: "'c::linorder contract_lib \<Rightarrow> ('c, 'c dependency_set) btree_map \<Rightarrow>
    ('c \<Rightarrow> stacks_epoch_id option) \<Rightarrow> (check_error + 'c list) outcome" where
  "order_contracts L dependencies contract_epochs =
     (if dependencies = [] then Done (Inr [])
      else case order_lookup dependencies 0 [] [] of (lookup, reverse_lookup) \<Rightarrow>
        bind_outcome (build_graph L contract_epochs lookup dependencies []) (\<lambda>r.
          case r of
            Inl e \<Rightarrow> Done (Inl e)
          | Inr g \<Rightarrow>
              let sorted_indexes = get_sorted_dependencies g in
              bind_outcome (get_cycling_dependencies (cl_rank L) g sorted_indexes) (\<lambda>cyclic.
                case cyclic of
                  Some deps \<Rightarrow>
                    bind_outcome (outcome_map (index_or_panic reverse_lookup) deps)
                      (\<lambda>cs. Done (Inl (CircularReference (map (cl_name L) cs))))
                | None \<Rightarrow>
                    bind_outcome (outcome_map (index_or_panic reverse_lookup) sorted_indexes)
                      (\<lambda>cs. Done (Inr cs)))))"

end
