(* ===== verification/Ast_Expr.thy ===== *)
theory Ast_Expr
  imports Contract_Graph
begin

text \<open>
  The syntax tree of a contract as the analysis passes see it, and what a pass can be told about
  it: the visits of \<^verbatim>\<open>trait ASTVisitor\<close> in \<^verbatim>\<open>components/clarity-repl/src/analysis/ast_visitor.rs\<close>.

  Expressions, values and the enumerations \<^verbatim>\<open>NativeFunctions\<close> and \<^verbatim>\<open>DefineFunctions\<close> belong to
  another crate; the constructors are those the source matches on. There are 126 native functions
  and 111 visits, so both are sums of smaller data types, in the order of the source and by subject.
  The lookups by name, which depend on the version of the language, and the iteration order of hash
  maps are the fields of \<open>ast_lib\<close>.
\<close>

section \<open>Expressions\<close>

type_synonym clarity_name = string

type_synonym clarity_version = nat

record source_span =
  start_line :: u32
  start_column :: u32
  end_line :: u32
  end_column :: u32

definition zero_span :: source_span where
  "zero_span = \<lparr> start_line = 0, start_column = 0, end_line = 0, end_column = 0 \<rparr>"

datatype 'c ast_value =
    Contract_Principal 'c
  | UInt_Value u128
  | Other_Value string

text \<open>A trait identifier is ordered by its name first.\<close>

type_synonym 'c trait_identifier = "clarity_name \<times> 'c"

abbreviation trait_name :: "'c trait_identifier \<Rightarrow> clarity_name" where
  "trait_name \<equiv> fst"

abbreviation trait_contract :: "'c trait_identifier \<Rightarrow> 'c" where
  "trait_contract \<equiv> snd"

datatype 'c trait_definition =
    Trait_Defined "'c trait_identifier"
  | Trait_Imported "'c trait_identifier"

datatype 'c sexpr =
    AtomValue source_span "'c ast_value"
  | Atom source_span clarity_name
  | SList source_span "'c sexpr list"
  | LiteralValue source_span "'c ast_value"
  | Field source_span "'c trait_identifier"
  | TraitReference source_span clarity_name "'c trait_definition"

fun span_of :: "'c sexpr \<Rightarrow> source_span" where
  "span_of (AtomValue sp _) = sp"
| "span_of (Atom sp _) = sp"
| "span_of (SList sp _) = sp"
| "span_of (LiteralValue sp _) = sp"
| "span_of (Field sp _) = sp"
| "span_of (TraitReference sp _ _) = sp"

fun ast_match_list :: "'c sexpr \<Rightarrow> 'c sexpr list option" where
  "ast_match_list (SList _ xs) = Some xs"
| "ast_match_list _ = None"

fun ast_match_atom :: "'c sexpr \<Rightarrow> clarity_name option" where
  "ast_match_atom (Atom _ n) = Some n"
| "ast_match_atom _ = None"

fun match_literal_value :: "'c sexpr \<Rightarrow> 'c ast_value option" where
  "match_literal_value (LiteralValue _ v) = Some v"
| "match_literal_value _ = None"

fun match_field :: "'c sexpr \<Rightarrow> 'c trait_identifier option" where
  "match_field (Field _ t) = Some t"
| "match_field _ = None"

lemma match_Some:
  "ast_match_list e = Some xs \<longleftrightarrow> (\<exists>sp. e = SList sp xs)"
  "ast_match_atom e = Some n \<longleftrightarrow> (\<exists>sp. e = Atom sp n)"
  "match_literal_value e = Some v \<longleftrightarrow> (\<exists>sp. e = LiteralValue sp v)"
  "match_field e = Some t \<longleftrightarrow> (\<exists>sp. e = Field sp t)"
  by (cases e; auto)+

record 'c typed_var =
  tv_name :: clarity_name
  tv_type_expr :: "'c sexpr"
  tv_decl_span :: source_span

record 'c let_binding =
  lb_value :: "'c sexpr"
  lb_name_span :: source_span

section \<open>The functions of the language\<close>

datatype define_functions =
    Define_Constant | Define_PrivateFunction | Define_ReadOnlyFunction | Define_PublicFunction
  | Define_NonFungibleToken | Define_FungibleToken | Define_Map | Define_PersistedVariable
  | Define_Trait | Define_UseTrait | Define_ImplTrait

datatype basic_function =
    Nf_Add | Nf_Subtract | Nf_Multiply | Nf_Divide | Nf_Modulo
  | Nf_Power | Nf_Sqrti | Nf_Log2 | Nf_BitwiseXor | Nf_CmpLess | Nf_CmpLeq | Nf_CmpGreater
  | Nf_CmpGeq | Nf_Equals | Nf_And | Nf_Or | Nf_Not | Nf_ToInt | Nf_ToUInt | Nf_If | Nf_Let
  | Nf_ElementAt | Nf_ElementAtAlias | Nf_IndexOf | Nf_IndexOfAlias | Nf_Map | Nf_Fold

datatype data_function =
    Nf_Append | Nf_Concat | Nf_AsMaxLen | Nf_Len | Nf_ListCons
  | Nf_FetchVar | Nf_SetVar | Nf_FetchEntry | Nf_SetEntry | Nf_InsertEntry | Nf_DeleteEntry
  | Nf_TupleCons | Nf_TupleGet | Nf_TupleMerge | Nf_Begin

datatype contract_function =
    Nf_Hash160 | Nf_Sha256 | Nf_Sha512 | Nf_Sha512Trunc256
  | Nf_Keccak256 | Nf_Secp256k1Recover | Nf_Secp256k1Verify | Nf_Print | Nf_ContractCall
  | Nf_AsContract | Nf_AsContractSafe | Nf_ContractOf | Nf_PrincipalOf | Nf_AtBlock
  | Nf_GetBlockInfo | Nf_GetStacksBlockInfo | Nf_GetTenureInfo

datatype response_function =
    Nf_ConsError | Nf_ConsOkay | Nf_ConsSome | Nf_DefaultTo
  | Nf_Asserts | Nf_UnwrapRet | Nf_Unwrap | Nf_IsOkay | Nf_IsNone | Nf_IsErr | Nf_IsSome
  | Nf_Filter | Nf_UnwrapErrRet | Nf_UnwrapErr | Nf_Match | Nf_TryRet

datatype asset_function =
    Nf_StxBurn | Nf_StxTransfer | Nf_StxTransferMemo | Nf_GetStxBalance
  | Nf_BurnToken | Nf_TransferToken | Nf_GetTokenBalance | Nf_GetTokenSupply | Nf_MintToken
  | Nf_BurnAsset | Nf_TransferAsset | Nf_MintAsset | Nf_GetAssetOwner

datatype conversion_function =
    Nf_BuffToIntLe | Nf_BuffToUIntLe | Nf_BuffToIntBe
  | Nf_BuffToUIntBe | Nf_IsStandard | Nf_PrincipalDestruct | Nf_PrincipalConstruct
  | Nf_StringToInt | Nf_StringToUInt | Nf_IntToAscii | Nf_IntToUtf8 | Nf_ToAscii
  | Nf_GetBurnBlockInfo | Nf_StxGetAccount | Nf_Slice | Nf_ToConsensusBuff | Nf_FromConsensusBuff

datatype late_function =
    Nf_ReplaceAt | Nf_BitwiseAnd | Nf_BitwiseOr | Nf_BitwiseNot
  | Nf_BitwiseXor2 | Nf_BitwiseLShift | Nf_BitwiseRShift | Nf_ContractHash | Nf_Secp256r1Verify
  | Nf_RestrictAssets | Nf_AllowanceWithStx | Nf_AllowanceWithFt | Nf_AllowanceWithNft
  | Nf_AllowanceWithStacking | Nf_AllowanceAll | Nf_AllowanceWithStaking | Nf_AllowanceWithPox
  | Nf_VerifyMerkleProof | Nf_GetBitcoinTxOutput | Nf_Ed25519Verify | Nf_Secp256k1Decompress

datatype native_functions =
    Basic_fn basic_function
  | Data_fn data_function
  | Contract_fn contract_function
  | Response_fn response_function
  | Asset_fn asset_function
  | Conversion_fn conversion_function
  | Late_fn late_function

section \<open>Visits\<close>

datatype 'c leaf_visit =
    Visit_list "'c sexpr" "'c sexpr list"
  | Visit_atom_value "'c sexpr" "'c ast_value"
  | Visit_atom "'c sexpr" clarity_name
  | Visit_literal_value "'c sexpr" "'c ast_value"
  | Visit_field "'c sexpr" "'c trait_identifier"
  | Visit_trait_reference "'c sexpr" clarity_name "'c trait_definition"

datatype 'c define_visit =
    Visit_define_constant "'c sexpr" clarity_name "'c sexpr"
  | Visit_define_private "'c sexpr" clarity_name "'c typed_var list option" "'c sexpr"
  | Visit_define_read_only "'c sexpr" clarity_name "'c typed_var list option" "'c sexpr"
  | Visit_define_public "'c sexpr" clarity_name "'c typed_var list option" "'c sexpr"
  | Visit_define_nft "'c sexpr" clarity_name "'c sexpr"
  | Visit_define_ft "'c sexpr" clarity_name "'c sexpr option"
  | Visit_define_map "'c sexpr" clarity_name "'c sexpr" "'c sexpr"
  | Visit_define_data_var "'c sexpr" clarity_name "'c sexpr" "'c sexpr"
  | Visit_define_trait "'c sexpr" clarity_name "'c sexpr list"
  | Visit_use_trait "'c sexpr" clarity_name "'c trait_identifier"
  | Visit_impl_trait "'c sexpr" "'c trait_identifier"

datatype 'c compute_visit =
    Visit_arithmetic "'c sexpr" native_functions "'c sexpr list"
  | Visit_binary_bitwise "'c sexpr" native_functions "'c sexpr" "'c sexpr"
  | Visit_comparison "'c sexpr" native_functions "'c sexpr list"
  | Visit_lazy_logical "'c sexpr" native_functions "'c sexpr list"
  | Visit_logical "'c sexpr" native_functions "'c sexpr list"
  | Visit_int_cast "'c sexpr" "'c sexpr"
  | Visit_bitwise "'c sexpr" native_functions "'c sexpr list"
  | Visit_bit_shift "'c sexpr" native_functions "'c sexpr" "'c sexpr"
  | Visit_hash "'c sexpr" native_functions "'c sexpr"
  | Visit_secp256k1_recover "'c sexpr" "'c sexpr" "'c sexpr"
  | Visit_secp256k1_verify "'c sexpr" "'c sexpr" "'c sexpr" "'c sexpr"
  | Visit_secp256r1_verify "'c sexpr" "'c sexpr" "'c sexpr" "'c sexpr"
  | Visit_ed25519_verify "'c sexpr" "'c sexpr" "'c sexpr" "'c sexpr"
  | Visit_secp256k1_decompress "'c sexpr" "'c sexpr"
  | Visit_verify_merkle_proof "'c sexpr" "'c sexpr" "'c sexpr" "'c sexpr" "'c sexpr" "'c sexpr"
  | Visit_get_bitcoin_tx_output "'c sexpr" "'c sexpr" "'c sexpr"
  | Visit_buff_cast "'c sexpr" "'c sexpr"
  | Visit_string_to_int "'c sexpr" "'c sexpr"
  | Visit_int_to_string "'c sexpr" "'c sexpr"
  | Visit_to_ascii "'c sexpr" "'c sexpr"
  | Visit_to_consensus_buff "'c sexpr" "'c sexpr"
  | Visit_from_consensus_buff "'c sexpr" "'c sexpr" "'c sexpr"

datatype 'c control_visit =
    Visit_if "'c sexpr" "'c sexpr" "'c sexpr" "'c sexpr"
  | Visit_let "'c sexpr" "(clarity_name \<times> 'c let_binding) list" "'c sexpr list"
  | Visit_begin "'c sexpr" "'c sexpr list"
  | Visit_print "'c sexpr" "'c sexpr"
  | Visit_asserts "'c sexpr" "'c sexpr" "'c sexpr"
  | Visit_unwrap "'c sexpr" "'c sexpr" "'c sexpr"
  | Visit_unwrap_err "'c sexpr" "'c sexpr" "'c sexpr"
  | Visit_unwrap_panic "'c sexpr" "'c sexpr"
  | Visit_unwrap_err_panic "'c sexpr" "'c sexpr"
  | Visit_try "'c sexpr" "'c sexpr"
  | Visit_match_option "'c sexpr" "'c sexpr" clarity_name "'c sexpr" "'c sexpr"
  | Visit_match_response "'c sexpr" "'c sexpr" clarity_name "'c sexpr" clarity_name "'c sexpr"
  | Visit_default_to "'c sexpr" "'c sexpr" "'c sexpr"
  | Visit_err "'c sexpr" "'c sexpr"
  | Visit_ok "'c sexpr" "'c sexpr"
  | Visit_some "'c sexpr" "'c sexpr"
  | Visit_is_ok "'c sexpr" "'c sexpr"
  | Visit_is_none "'c sexpr" "'c sexpr"
  | Visit_is_err "'c sexpr" "'c sexpr"
  | Visit_is_some "'c sexpr" "'c sexpr"
  | Visit_call_user_defined "'c sexpr" clarity_name "'c sexpr list"

datatype 'c data_visit =
    Visit_var_get "'c sexpr" clarity_name
  | Visit_var_set "'c sexpr" clarity_name "'c sexpr"
  | Visit_map_get "'c sexpr" clarity_name "(clarity_name option \<times> 'c sexpr) list"
  | Visit_map_set "'c sexpr" clarity_name "(clarity_name option \<times> 'c sexpr) list" "(clarity_name option \<times> 'c sexpr) list"
  | Visit_map_insert "'c sexpr" clarity_name "(clarity_name option \<times> 'c sexpr) list" "(clarity_name option \<times> 'c sexpr) list"
  | Visit_map_delete "'c sexpr" clarity_name "(clarity_name option \<times> 'c sexpr) list"
  | Visit_tuple "'c sexpr" "(clarity_name option \<times> 'c sexpr) list"
  | Visit_get "'c sexpr" clarity_name "'c sexpr"
  | Visit_merge "'c sexpr" "'c sexpr" "'c sexpr"
  | Visit_filter "'c sexpr" clarity_name "'c sexpr"
  | Visit_map "'c sexpr" clarity_name "'c sexpr list"
  | Visit_fold "'c sexpr" clarity_name "'c sexpr" "'c sexpr"
  | Visit_append "'c sexpr" "'c sexpr" "'c sexpr"
  | Visit_concat "'c sexpr" "'c sexpr list"
  | Visit_as_max_len "'c sexpr" "'c sexpr" u128
  | Visit_len "'c sexpr" "'c sexpr"
  | Visit_element_at "'c sexpr" "'c sexpr" "'c sexpr"
  | Visit_index_of "'c sexpr" "'c sexpr" "'c sexpr"
  | Visit_list_cons "'c sexpr" "'c sexpr list"
  | Visit_slice "'c sexpr" "'c sexpr" "'c sexpr" "'c sexpr"
  | Visit_replace_at "'c sexpr" "'c sexpr" "'c sexpr" "'c sexpr"

datatype 'c chain_visit =
    Visit_static_contract_call "'c sexpr" 'c clarity_name "'c sexpr list"
  | Visit_dynamic_contract_call "'c sexpr" "'c sexpr" clarity_name "'c sexpr list"
  | Visit_as_contract "'c sexpr" "'c sexpr"
  | Visit_as_contract_safe "'c sexpr" "'c sexpr" "'c sexpr list"
  | Visit_contract_of "'c sexpr" "'c sexpr"
  | Visit_principal_of "'c sexpr" "'c sexpr"
  | Visit_at_block "'c sexpr" "'c sexpr" "'c sexpr"
  | Visit_get_block_info "'c sexpr" clarity_name "'c sexpr"
  | Visit_get_stacks_block_info "'c sexpr" clarity_name "'c sexpr"
  | Visit_get_tenure_info "'c sexpr" clarity_name "'c sexpr"
  | Visit_get_burn_block_info "'c sexpr" clarity_name "'c sexpr"
  | Visit_is_standard "'c sexpr" "'c sexpr"
  | Visit_principal_destruct "'c sexpr" "'c sexpr"
  | Visit_principal_construct "'c sexpr" "'c sexpr" "'c sexpr" "'c sexpr option"
  | Visit_contract_hash "'c sexpr" "'c sexpr"
  | Visit_restrict_assets "'c sexpr" "'c sexpr" "(clarity_name \<times> 'c let_binding) list" "'c sexpr list"
  | Visit_allowance "'c sexpr" "'c sexpr"
  | Visit_stx_get_account "'c sexpr" "'c sexpr"

datatype 'c asset_visit =
    Visit_stx_burn "'c sexpr" "'c sexpr" "'c sexpr"
  | Visit_stx_transfer "'c sexpr" "'c sexpr" "'c sexpr" "'c sexpr" "'c sexpr option"
  | Visit_stx_get_balance "'c sexpr" "'c sexpr"
  | Visit_ft_burn "'c sexpr" clarity_name "'c sexpr" "'c sexpr"
  | Visit_ft_transfer "'c sexpr" clarity_name "'c sexpr" "'c sexpr" "'c sexpr"
  | Visit_ft_get_balance "'c sexpr" clarity_name "'c sexpr"
  | Visit_ft_get_supply "'c sexpr" clarity_name
  | Visit_ft_mint "'c sexpr" clarity_name "'c sexpr" "'c sexpr"
  | Visit_nft_burn "'c sexpr" clarity_name "'c sexpr" "'c sexpr"
  | Visit_nft_transfer "'c sexpr" clarity_name "'c sexpr" "'c sexpr" "'c sexpr"
  | Visit_nft_mint "'c sexpr" clarity_name "'c sexpr" "'c sexpr"
  | Visit_nft_get_owner "'c sexpr" clarity_name "'c sexpr"

datatype 'c ast_visit =
    Leaf_visit "'c leaf_visit"
  | Define_visit "'c define_visit"
  | Compute_visit "'c compute_visit"
  | Control_visit "'c control_visit"
  | Data_visit "'c data_visit"
  | Chain_visit "'c chain_visit"
  | Asset_visit "'c asset_visit"

section \<open>The language and its hash maps\<close>

record 'c ast_lib =
  al_define :: "clarity_name \<Rightarrow> define_functions option"
  al_native :: "clarity_version \<Rightarrow> clarity_name \<Rightarrow> native_functions option"
  al_transient :: 'c
  al_tuple_rank :: "clarity_name option list \<Rightarrow> clarity_name option \<Rightarrow> nat"
  al_binding_rank :: "clarity_name list \<Rightarrow> clarity_name \<Rightarrow> nat"

end
