(* ===== verification/Ast_Visitor.thy ===== *)
theory Ast_Visitor
  imports Ast_Expr
begin

text \<open>
  \<^verbatim>\<open>trait ASTVisitor\<close> of \<^verbatim>\<open>components/clarity-repl/src/analysis/ast_visitor.rs\<close>: how a pass walks
  the syntax tree of a contract.

  The default body of a \<^verbatim>\<open>traverse_\<close> method walks some subexpressions in order, stops at the first
  one that answers false, and ends in a visit; it is modelled by its \<open>plan\<close>, the steps and the
  visit. The seven functions \<open>plan_basic\<close> to \<open>plan_late\<close> are consecutive stretches of the arms of
  \<^verbatim>\<open>traverse_list\<close>. A visitor is the state of the pass with its visits, and with what its overrides
  of \<^verbatim>\<open>traverse_\<close> methods do before and after the default body, or instead of walking the
  subexpressions.
\<close>

section \<open>Plans\<close>

datatype 'c step = Must "'c sexpr" | Ignoring "'c sexpr"

fun step_expr :: "'c step \<Rightarrow> 'c sexpr" where
  "step_expr (Must e) = e"
| "step_expr (Ignoring e) = e"

text \<open>\<open>Bare\<close> is a walk that ends in no visit.\<close>

datatype 'c plan = Plan "'c step list" "'c ast_visit" | Bare "'c step list"

fun plan_steps :: "'c plan \<Rightarrow> 'c step list" where
  "plan_steps (Plan steps _) = steps"
| "plan_steps (Bare steps) = steps"

definition DEFAULT_NAME :: clarity_name where
  "DEFAULT_NAME = ''placeholder__''"

definition DEFAULT_EXPR :: "'c sexpr" where
  "DEFAULT_EXPR = Atom zero_span DEFAULT_NAME"

definition DEFAULT_TRAIT_IDENTIFIER :: "'c ast_lib \<Rightarrow> 'c trait_identifier" where
  "DEFAULT_TRAIT_IDENTIFIER A = (DEFAULT_NAME, al_transient A)"

definition get_arg :: "'c sexpr list \<Rightarrow> nat \<Rightarrow> 'c sexpr option" where
  "get_arg args i = (if i < length args then Some (args ! i) else None)"

definition arg_or_default :: "'c sexpr list \<Rightarrow> nat \<Rightarrow> 'c sexpr" where
  "arg_or_default args i = (case get_arg args i of Some e \<Rightarrow> e | None \<Rightarrow> DEFAULT_EXPR)"

definition atom_of :: "'c sexpr \<Rightarrow> clarity_name" where
  "atom_of e = (case ast_match_atom e of Some n \<Rightarrow> n | None \<Rightarrow> DEFAULT_NAME)"

definition field_of :: "'c ast_lib \<Rightarrow> 'c sexpr \<Rightarrow> 'c trait_identifier" where
  "field_of A e = (case match_field e of Some t \<Rightarrow> t | None \<Rightarrow> DEFAULT_TRAIT_IDENTIFIER A)"

definition list_elements :: "'c sexpr \<Rightarrow> 'c sexpr list" where
  "list_elements e = (case ast_match_list e of Some xs \<Rightarrow> xs | None \<Rightarrow> [])"

fun list_of :: "'a option \<Rightarrow> 'a list" where
  "list_of None = []"
| "list_of (Some x) = [x]"

section \<open>Pairs and tuples\<close>

text \<open>
  A \<^verbatim>\<open>HashMap\<close> is an association list without repeated keys, in which a later insertion replaces
  an earlier one; \<^verbatim>\<open>values\<close> lists it in the order of the ranks of its keys.
\<close>

fun tuple_entries :: "'c sexpr list \<Rightarrow> (clarity_name option \<times> 'c sexpr) list \<Rightarrow>
    (clarity_name option \<times> 'c sexpr) list option" where
  "tuple_entries [] m = Some m"
| "tuple_entries (e # es) m =
     (case list_elements e of
        [k, v] \<Rightarrow> tuple_entries es (hm_insert (ast_match_atom k) v m)
      | _ \<Rightarrow> None)"

definition match_tuple :: "'c ast_lib \<Rightarrow> clarity_version \<Rightarrow> 'c sexpr \<Rightarrow>
    (clarity_name option \<times> 'c sexpr) list option" where
  "match_tuple A ver e =
     (case ast_match_list e of
        Some (f # args) \<Rightarrow>
          (case ast_match_atom f of
             Some n \<Rightarrow> if al_native A ver n = Some (Data_fn Nf_TupleCons) then tuple_entries args [] else None
           | None \<Rightarrow> None)
      | _ \<Rightarrow> None)"

definition tuple_or_single :: "'c ast_lib \<Rightarrow> clarity_version \<Rightarrow> 'c sexpr \<Rightarrow>
    (clarity_name option \<times> 'c sexpr) list" where
  "tuple_or_single A ver e = (case match_tuple A ver e of Some m \<Rightarrow> m | None \<Rightarrow> [(None, e)])"

fun pair_entries :: "'c sexpr list \<Rightarrow> (clarity_name \<times> 'c let_binding) list \<Rightarrow>
    (clarity_name \<times> 'c let_binding) list option" where
  "pair_entries [] m = Some m"
| "pair_entries (e # es) m =
     (case ast_match_list e of
        Some [k, v] \<Rightarrow>
          (case ast_match_atom k of
             Some n \<Rightarrow> pair_entries es (hm_insert n \<lparr> lb_value = v, lb_name_span = span_of k \<rparr> m)
           | None \<Rightarrow> None)
      | _ \<Rightarrow> None)"

definition match_pairs :: "'c sexpr \<Rightarrow> (clarity_name \<times> 'c let_binding) list option" where
  "match_pairs e = (case ast_match_list e of Some xs \<Rightarrow> pair_entries xs [] | None \<Rightarrow> None)"

definition match_pairs_or_empty :: "'c sexpr \<Rightarrow> (clarity_name \<times> 'c let_binding) list" where
  "match_pairs_or_empty e = (case match_pairs e of Some m \<Rightarrow> m | None \<Rightarrow> [])"

fun match_pairs_list :: "'c sexpr list \<Rightarrow> 'c typed_var list option" where
  "match_pairs_list [] = Some []"
| "match_pairs_list (e # es) =
     (case ast_match_list e of
        Some [k, t] \<Rightarrow>
          (case ast_match_atom k of
             Some n \<Rightarrow> map_option ((#) \<lparr> tv_name = n, tv_type_expr = t, tv_decl_span = span_of k \<rparr>) (match_pairs_list es)
           | None \<Rightarrow> None)
      | _ \<Rightarrow> None)"

definition tuple_values :: "'c ast_lib \<Rightarrow> (clarity_name option \<times> 'c sexpr) list \<Rightarrow> 'c sexpr list" where
  "tuple_values A m = map snd (sort_key (\<lambda>p. al_tuple_rank A (map fst m) (fst p)) m)"

definition binding_values :: "'c ast_lib \<Rightarrow> (clarity_name \<times> 'c let_binding) list \<Rightarrow> 'c sexpr list" where
  "binding_values A m =
     map (\<lambda>p. lb_value (snd p)) (sort_key (\<lambda>p. al_binding_rank A (map fst m) (fst p)) m)"

section \<open>The default bodies of the methods\<close>

definition traverse_define_constant :: "'c sexpr \<Rightarrow> clarity_name \<Rightarrow> 'c sexpr \<Rightarrow> 'c plan" where
  "traverse_define_constant e name val =
     Plan [Must val] (Define_visit (Visit_define_constant e name val))"

definition traverse_define_private :: "'c sexpr \<Rightarrow> clarity_name \<Rightarrow> 'c typed_var list option \<Rightarrow>
    'c sexpr \<Rightarrow> 'c plan" where
  "traverse_define_private e name parameters body =
     Plan [Must body] (Define_visit (Visit_define_private e name parameters body))"

definition traverse_define_read_only :: "'c sexpr \<Rightarrow> clarity_name \<Rightarrow> 'c typed_var list option \<Rightarrow>
    'c sexpr \<Rightarrow> 'c plan" where
  "traverse_define_read_only e name parameters body =
     Plan [Must body] (Define_visit (Visit_define_read_only e name parameters body))"

definition traverse_define_public :: "'c sexpr \<Rightarrow> clarity_name \<Rightarrow> 'c typed_var list option \<Rightarrow>
    'c sexpr \<Rightarrow> 'c plan" where
  "traverse_define_public e name parameters body =
     Plan [Must body] (Define_visit (Visit_define_public e name parameters body))"

definition traverse_define_nft :: "'c sexpr \<Rightarrow> clarity_name \<Rightarrow> 'c sexpr \<Rightarrow> 'c plan" where
  "traverse_define_nft e name nft_type =
     Plan [] (Define_visit (Visit_define_nft e name nft_type))"

definition traverse_define_ft :: "'c sexpr \<Rightarrow> clarity_name \<Rightarrow> 'c sexpr option \<Rightarrow> 'c plan" where
  "traverse_define_ft e name supply =
     Plan (map Must (list_of supply)) (Define_visit (Visit_define_ft e name supply))"

definition traverse_define_map :: "'c sexpr \<Rightarrow> clarity_name \<Rightarrow> 'c sexpr \<Rightarrow>
    'c sexpr \<Rightarrow> 'c plan" where
  "traverse_define_map e name key_type value_type =
     Plan [] (Define_visit (Visit_define_map e name key_type value_type))"

definition traverse_define_data_var :: "'c sexpr \<Rightarrow> clarity_name \<Rightarrow> 'c sexpr \<Rightarrow>
    'c sexpr \<Rightarrow> 'c plan" where
  "traverse_define_data_var e name data_type initial =
     Plan [Must initial] (Define_visit (Visit_define_data_var e name data_type initial))"

definition traverse_define_trait :: "'c sexpr \<Rightarrow> clarity_name \<Rightarrow> 'c sexpr list \<Rightarrow> 'c plan" where
  "traverse_define_trait e name functions =
     Plan [] (Define_visit (Visit_define_trait e name functions))"

definition traverse_use_trait :: "'c sexpr \<Rightarrow> clarity_name \<Rightarrow> 'c trait_identifier \<Rightarrow> 'c plan" where
  "traverse_use_trait e name trait_identifier =
     Plan [] (Define_visit (Visit_use_trait e name trait_identifier))"

definition traverse_impl_trait :: "'c sexpr \<Rightarrow> 'c trait_identifier \<Rightarrow> 'c plan" where
  "traverse_impl_trait e trait_identifier =
     Plan [] (Define_visit (Visit_impl_trait e trait_identifier))"

definition traverse_arithmetic :: "'c sexpr \<Rightarrow> native_functions \<Rightarrow> 'c sexpr list \<Rightarrow> 'c plan" where
  "traverse_arithmetic e func operands =
     Plan (map Must operands) (Compute_visit (Visit_arithmetic e func operands))"

definition traverse_binary_bitwise :: "'c sexpr \<Rightarrow> native_functions \<Rightarrow> 'c sexpr \<Rightarrow>
    'c sexpr \<Rightarrow> 'c plan" where
  "traverse_binary_bitwise e func lhs rhs =
     Plan [Must lhs, Must rhs] (Compute_visit (Visit_binary_bitwise e func lhs rhs))"

definition traverse_comparison :: "'c sexpr \<Rightarrow> native_functions \<Rightarrow> 'c sexpr list \<Rightarrow> 'c plan" where
  "traverse_comparison e func operands =
     Plan (map Must operands) (Compute_visit (Visit_comparison e func operands))"

definition traverse_lazy_logical :: "'c sexpr \<Rightarrow> native_functions \<Rightarrow> 'c sexpr list \<Rightarrow> 'c plan" where
  "traverse_lazy_logical e func operands =
     Plan (map Must operands) (Compute_visit (Visit_lazy_logical e func operands))"

definition traverse_logical :: "'c sexpr \<Rightarrow> native_functions \<Rightarrow> 'c sexpr list \<Rightarrow> 'c plan" where
  "traverse_logical e func operands =
     Plan (map Must operands) (Compute_visit (Visit_logical e func operands))"

definition traverse_int_cast :: "'c sexpr \<Rightarrow> 'c sexpr \<Rightarrow> 'c plan" where
  "traverse_int_cast e inp =
     Plan [Must inp] (Compute_visit (Visit_int_cast e inp))"

definition traverse_if :: "'c sexpr \<Rightarrow> 'c sexpr \<Rightarrow> 'c sexpr \<Rightarrow> 'c sexpr \<Rightarrow>
    'c plan" where
  "traverse_if e cond then_expr else_expr =
     Plan [Must cond, Must then_expr, Must else_expr]
       (Control_visit (Visit_if e cond then_expr else_expr))"

definition traverse_var_get :: "'c sexpr \<Rightarrow> clarity_name \<Rightarrow> 'c plan" where
  "traverse_var_get e name =
     Plan [] (Data_visit (Visit_var_get e name))"

definition traverse_var_set :: "'c sexpr \<Rightarrow> clarity_name \<Rightarrow> 'c sexpr \<Rightarrow> 'c plan" where
  "traverse_var_set e name val =
     Plan [Must val] (Data_visit (Visit_var_set e name val))"

definition traverse_map_get :: "'c ast_lib \<Rightarrow> 'c sexpr \<Rightarrow> clarity_name \<Rightarrow>
    (clarity_name option \<times> 'c sexpr) list \<Rightarrow> 'c plan" where
  "traverse_map_get A e name key =
     Plan (map Must (tuple_values A key)) (Data_visit (Visit_map_get e name key))"

definition traverse_map_set :: "'c ast_lib \<Rightarrow> 'c sexpr \<Rightarrow> clarity_name \<Rightarrow>
    (clarity_name option \<times> 'c sexpr) list \<Rightarrow>
    (clarity_name option \<times> 'c sexpr) list \<Rightarrow> 'c plan" where
  "traverse_map_set A e name key val =
     Plan (map Must (tuple_values A key) @ map Must (tuple_values A val))
       (Data_visit (Visit_map_set e name key val))"

definition traverse_map_insert :: "'c ast_lib \<Rightarrow> 'c sexpr \<Rightarrow> clarity_name \<Rightarrow>
    (clarity_name option \<times> 'c sexpr) list \<Rightarrow>
    (clarity_name option \<times> 'c sexpr) list \<Rightarrow> 'c plan" where
  "traverse_map_insert A e name key val =
     Plan (map Must (tuple_values A key) @ map Must (tuple_values A val))
       (Data_visit (Visit_map_insert e name key val))"

definition traverse_map_delete :: "'c ast_lib \<Rightarrow> 'c sexpr \<Rightarrow> clarity_name \<Rightarrow>
    (clarity_name option \<times> 'c sexpr) list \<Rightarrow> 'c plan" where
  "traverse_map_delete A e name key =
     Plan (map Must (tuple_values A key)) (Data_visit (Visit_map_delete e name key))"

definition traverse_tuple :: "'c ast_lib \<Rightarrow> 'c sexpr \<Rightarrow>
    (clarity_name option \<times> 'c sexpr) list \<Rightarrow> 'c plan" where
  "traverse_tuple A e vals =
     Plan (map Must (tuple_values A vals)) (Data_visit (Visit_tuple e vals))"

definition traverse_get :: "'c sexpr \<Rightarrow> clarity_name \<Rightarrow> 'c sexpr \<Rightarrow> 'c plan" where
  "traverse_get e key tuple =
     Plan [Must tuple] (Data_visit (Visit_get e key tuple))"

definition traverse_merge :: "'c sexpr \<Rightarrow> 'c sexpr \<Rightarrow> 'c sexpr \<Rightarrow> 'c plan" where
  "traverse_merge e tuple1 tuple2 =
     Plan [Must tuple1, Must tuple2] (Data_visit (Visit_merge e tuple1 tuple2))"

definition traverse_begin :: "'c sexpr \<Rightarrow> 'c sexpr list \<Rightarrow> 'c plan" where
  "traverse_begin e statements =
     Plan (map Must statements) (Control_visit (Visit_begin e statements))"

definition traverse_hash :: "'c sexpr \<Rightarrow> native_functions \<Rightarrow> 'c sexpr \<Rightarrow> 'c plan" where
  "traverse_hash e func val =
     Plan [Must val] (Compute_visit (Visit_hash e func val))"

definition traverse_secp256k1_recover :: "'c sexpr \<Rightarrow> 'c sexpr \<Rightarrow> 'c sexpr \<Rightarrow> 'c plan" where
  "traverse_secp256k1_recover e hash signature =
     Plan [Must hash, Must signature] (Compute_visit (Visit_secp256k1_recover e hash signature))"

definition traverse_secp256k1_verify :: "'c sexpr \<Rightarrow> 'c sexpr \<Rightarrow> 'c sexpr \<Rightarrow> 'c sexpr \<Rightarrow>
    'c plan" where
  "traverse_secp256k1_verify e hash signature public_key =
     Plan [Must hash, Must signature]
       (Compute_visit (Visit_secp256k1_verify e hash signature public_key))"

definition traverse_print :: "'c sexpr \<Rightarrow> 'c sexpr \<Rightarrow> 'c plan" where
  "traverse_print e val =
     Plan [Must val] (Control_visit (Visit_print e val))"

definition traverse_static_contract_call :: "'c sexpr \<Rightarrow> 'c \<Rightarrow> clarity_name \<Rightarrow>
    'c sexpr list \<Rightarrow> 'c plan" where
  "traverse_static_contract_call e contract_identifier function_name args =
     Plan (map Must args)
       (Chain_visit (Visit_static_contract_call e contract_identifier function_name args))"

definition traverse_dynamic_contract_call :: "'c sexpr \<Rightarrow> 'c sexpr \<Rightarrow> clarity_name \<Rightarrow>
    'c sexpr list \<Rightarrow> 'c plan" where
  "traverse_dynamic_contract_call e trait_ref function_name args =
     Plan (Ignoring trait_ref # map Must args)
       (Chain_visit (Visit_dynamic_contract_call e trait_ref function_name args))"

definition traverse_as_contract :: "'c sexpr \<Rightarrow> 'c sexpr \<Rightarrow> 'c plan" where
  "traverse_as_contract e inner =
     Plan [Must inner] (Chain_visit (Visit_as_contract e inner))"

definition traverse_as_contract_safe :: "'c sexpr \<Rightarrow> 'c sexpr \<Rightarrow> 'c sexpr list \<Rightarrow> 'c plan" where
  "traverse_as_contract_safe e allowances body =
     Plan (map Must (case ast_match_list allowances of Some xs \<Rightarrow> xs | None \<Rightarrow> [allowances]) @ map Must body)
       (Chain_visit (Visit_as_contract_safe e allowances body))"

definition traverse_contract_of :: "'c sexpr \<Rightarrow> 'c sexpr \<Rightarrow> 'c plan" where
  "traverse_contract_of e name =
     Plan [Must name] (Chain_visit (Visit_contract_of e name))"

definition traverse_principal_of :: "'c sexpr \<Rightarrow> 'c sexpr \<Rightarrow> 'c plan" where
  "traverse_principal_of e public_key =
     Plan [Must public_key] (Chain_visit (Visit_principal_of e public_key))"

definition traverse_at_block :: "'c sexpr \<Rightarrow> 'c sexpr \<Rightarrow> 'c sexpr \<Rightarrow> 'c plan" where
  "traverse_at_block e blk inner =
     Plan [Must blk, Must inner] (Chain_visit (Visit_at_block e blk inner))"

definition traverse_get_block_info :: "'c sexpr \<Rightarrow> clarity_name \<Rightarrow> 'c sexpr \<Rightarrow> 'c plan" where
  "traverse_get_block_info e prop_name blk =
     Plan [Must blk] (Chain_visit (Visit_get_block_info e prop_name blk))"

definition traverse_get_stacks_block_info :: "'c sexpr \<Rightarrow> clarity_name \<Rightarrow> 'c sexpr \<Rightarrow> 'c plan" where
  "traverse_get_stacks_block_info e prop_name blk =
     Plan [Must blk] (Chain_visit (Visit_get_stacks_block_info e prop_name blk))"

definition traverse_get_tenure_info :: "'c sexpr \<Rightarrow> clarity_name \<Rightarrow> 'c sexpr \<Rightarrow> 'c plan" where
  "traverse_get_tenure_info e prop_name blk =
     Plan [Must blk] (Chain_visit (Visit_get_tenure_info e prop_name blk))"

definition traverse_err :: "'c sexpr \<Rightarrow> 'c sexpr \<Rightarrow> 'c plan" where
  "traverse_err e val =
     Plan [Must val] (Control_visit (Visit_err e val))"

definition traverse_ok :: "'c sexpr \<Rightarrow> 'c sexpr \<Rightarrow> 'c plan" where
  "traverse_ok e val =
     Plan [Must val] (Control_visit (Visit_ok e val))"

definition traverse_some :: "'c sexpr \<Rightarrow> 'c sexpr \<Rightarrow> 'c plan" where
  "traverse_some e val =
     Plan [Must val] (Control_visit (Visit_some e val))"

definition traverse_default_to :: "'c sexpr \<Rightarrow> 'c sexpr \<Rightarrow> 'c sexpr \<Rightarrow> 'c plan" where
  "traverse_default_to e dflt val =
     Plan [Must dflt, Must val] (Control_visit (Visit_default_to e dflt val))"

definition traverse_unwrap :: "'c sexpr \<Rightarrow> 'c sexpr \<Rightarrow> 'c sexpr \<Rightarrow> 'c plan" where
  "traverse_unwrap e inp throws =
     Plan [Must inp, Must throws] (Control_visit (Visit_unwrap e inp throws))"

definition traverse_unwrap_err :: "'c sexpr \<Rightarrow> 'c sexpr \<Rightarrow> 'c sexpr \<Rightarrow> 'c plan" where
  "traverse_unwrap_err e inp throws =
     Plan [Must inp, Must throws] (Control_visit (Visit_unwrap_err e inp throws))"

definition traverse_is_ok :: "'c sexpr \<Rightarrow> 'c sexpr \<Rightarrow> 'c plan" where
  "traverse_is_ok e val =
     Plan [Must val] (Control_visit (Visit_is_ok e val))"

definition traverse_is_none :: "'c sexpr \<Rightarrow> 'c sexpr \<Rightarrow> 'c plan" where
  "traverse_is_none e val =
     Plan [Must val] (Control_visit (Visit_is_none e val))"

definition traverse_is_err :: "'c sexpr \<Rightarrow> 'c sexpr \<Rightarrow> 'c plan" where
  "traverse_is_err e val =
     Plan [Must val] (Control_visit (Visit_is_err e val))"

definition traverse_is_some :: "'c sexpr \<Rightarrow> 'c sexpr \<Rightarrow> 'c plan" where
  "traverse_is_some e val =
     Plan [Must val] (Control_visit (Visit_is_some e val))"

definition traverse_filter :: "'c sexpr \<Rightarrow> clarity_name \<Rightarrow> 'c sexpr \<Rightarrow> 'c plan" where
  "traverse_filter e func sequence =
     Plan [Must sequence] (Data_visit (Visit_filter e func sequence))"

definition traverse_unwrap_panic :: "'c sexpr \<Rightarrow> 'c sexpr \<Rightarrow> 'c plan" where
  "traverse_unwrap_panic e inp =
     Plan [Must inp] (Control_visit (Visit_unwrap_panic e inp))"

definition traverse_unwrap_err_panic :: "'c sexpr \<Rightarrow> 'c sexpr \<Rightarrow> 'c plan" where
  "traverse_unwrap_err_panic e inp =
     Plan [Must inp] (Control_visit (Visit_unwrap_err_panic e inp))"

definition traverse_match_option :: "'c sexpr \<Rightarrow> 'c sexpr \<Rightarrow> clarity_name \<Rightarrow>
    'c sexpr \<Rightarrow> 'c sexpr \<Rightarrow> 'c plan" where
  "traverse_match_option e inp some_name some_branch none_branch =
     Plan [Must inp, Must some_branch, Must none_branch]
       (Control_visit (Visit_match_option e inp some_name some_branch none_branch))"

definition traverse_match_response :: "'c sexpr \<Rightarrow> 'c sexpr \<Rightarrow> clarity_name \<Rightarrow>
    'c sexpr \<Rightarrow> clarity_name \<Rightarrow> 'c sexpr \<Rightarrow> 'c plan" where
  "traverse_match_response e inp ok_name ok_branch err_name err_branch =
     Plan [Must inp, Must ok_branch, Must err_branch]
       (Control_visit (Visit_match_response e inp ok_name ok_branch err_name err_branch))"

definition traverse_try :: "'c sexpr \<Rightarrow> 'c sexpr \<Rightarrow> 'c plan" where
  "traverse_try e inp =
     Plan [Must inp] (Control_visit (Visit_try e inp))"

definition traverse_asserts :: "'c sexpr \<Rightarrow> 'c sexpr \<Rightarrow> 'c sexpr \<Rightarrow> 'c plan" where
  "traverse_asserts e cond thrown =
     Plan [Must cond, Must thrown] (Control_visit (Visit_asserts e cond thrown))"

definition traverse_stx_burn :: "'c sexpr \<Rightarrow> 'c sexpr \<Rightarrow> 'c sexpr \<Rightarrow> 'c plan" where
  "traverse_stx_burn e amount sender =
     Plan [Must amount, Must sender] (Asset_visit (Visit_stx_burn e amount sender))"

definition traverse_stx_transfer :: "'c sexpr \<Rightarrow> 'c sexpr \<Rightarrow> 'c sexpr \<Rightarrow> 'c sexpr \<Rightarrow>
    'c sexpr option \<Rightarrow> 'c plan" where
  "traverse_stx_transfer e amount sender recipient memo =
     Plan ([Must amount, Must sender, Must recipient] @ map Must (list_of memo))
       (Asset_visit (Visit_stx_transfer e amount sender recipient memo))"

definition traverse_stx_get_balance :: "'c sexpr \<Rightarrow> 'c sexpr \<Rightarrow> 'c plan" where
  "traverse_stx_get_balance e owner =
     Plan [Must owner] (Asset_visit (Visit_stx_get_balance e owner))"

definition traverse_ft_burn :: "'c sexpr \<Rightarrow> clarity_name \<Rightarrow> 'c sexpr \<Rightarrow>
    'c sexpr \<Rightarrow> 'c plan" where
  "traverse_ft_burn e token amount sender =
     Plan [Must amount, Must sender] (Asset_visit (Visit_ft_burn e token amount sender))"

definition traverse_ft_transfer :: "'c sexpr \<Rightarrow> clarity_name \<Rightarrow> 'c sexpr \<Rightarrow>
    'c sexpr \<Rightarrow> 'c sexpr \<Rightarrow> 'c plan" where
  "traverse_ft_transfer e token amount sender recipient =
     Plan [Must amount, Must sender, Must recipient]
       (Asset_visit (Visit_ft_transfer e token amount sender recipient))"

definition traverse_ft_get_balance :: "'c sexpr \<Rightarrow> clarity_name \<Rightarrow> 'c sexpr \<Rightarrow> 'c plan" where
  "traverse_ft_get_balance e token owner =
     Plan [Must owner] (Asset_visit (Visit_ft_get_balance e token owner))"

definition traverse_ft_get_supply :: "'c sexpr \<Rightarrow> clarity_name \<Rightarrow> 'c plan" where
  "traverse_ft_get_supply e token =
     Plan [] (Asset_visit (Visit_ft_get_supply e token))"

definition traverse_ft_mint :: "'c sexpr \<Rightarrow> clarity_name \<Rightarrow> 'c sexpr \<Rightarrow>
    'c sexpr \<Rightarrow> 'c plan" where
  "traverse_ft_mint e token amount recipient =
     Plan [Must amount, Must recipient] (Asset_visit (Visit_ft_mint e token amount recipient))"

definition traverse_nft_burn :: "'c sexpr \<Rightarrow> clarity_name \<Rightarrow> 'c sexpr \<Rightarrow>
    'c sexpr \<Rightarrow> 'c plan" where
  "traverse_nft_burn e token identifier sender =
     Plan [Must identifier, Must sender] (Asset_visit (Visit_nft_burn e token identifier sender))"

definition traverse_nft_transfer :: "'c sexpr \<Rightarrow> clarity_name \<Rightarrow> 'c sexpr \<Rightarrow>
    'c sexpr \<Rightarrow> 'c sexpr \<Rightarrow> 'c plan" where
  "traverse_nft_transfer e token identifier sender recipient =
     Plan [Must identifier, Must sender, Must recipient]
       (Asset_visit (Visit_nft_transfer e token identifier sender recipient))"

definition traverse_nft_mint :: "'c sexpr \<Rightarrow> clarity_name \<Rightarrow> 'c sexpr \<Rightarrow>
    'c sexpr \<Rightarrow> 'c plan" where
  "traverse_nft_mint e token identifier recipient =
     Plan [Must identifier, Must recipient] (Asset_visit (Visit_nft_mint e token identifier recipient))"

definition traverse_nft_get_owner :: "'c sexpr \<Rightarrow> clarity_name \<Rightarrow> 'c sexpr \<Rightarrow> 'c plan" where
  "traverse_nft_get_owner e token identifier =
     Plan [Must identifier] (Asset_visit (Visit_nft_get_owner e token identifier))"

definition traverse_let :: "'c ast_lib \<Rightarrow> 'c sexpr \<Rightarrow>
    (clarity_name \<times> 'c let_binding) list \<Rightarrow> 'c sexpr list \<Rightarrow>
    'c plan" where
  "traverse_let A e bindings body =
     Plan (map Must (binding_values A bindings) @ map Must body)
       (Control_visit (Visit_let e bindings body))"

definition traverse_map :: "'c sexpr \<Rightarrow> clarity_name \<Rightarrow> 'c sexpr list \<Rightarrow> 'c plan" where
  "traverse_map e func sequences =
     Plan (map Must sequences) (Data_visit (Visit_map e func sequences))"

definition traverse_fold :: "'c sexpr \<Rightarrow> clarity_name \<Rightarrow> 'c sexpr \<Rightarrow>
    'c sexpr \<Rightarrow> 'c plan" where
  "traverse_fold e func sequence initial =
     Plan [Must sequence, Must initial] (Data_visit (Visit_fold e func sequence initial))"

definition traverse_append :: "'c sexpr \<Rightarrow> 'c sexpr \<Rightarrow> 'c sexpr \<Rightarrow> 'c plan" where
  "traverse_append e lst val =
     Plan [Must lst, Must val] (Data_visit (Visit_append e lst val))"

definition traverse_concat :: "'c sexpr \<Rightarrow> 'c sexpr list \<Rightarrow> 'c plan" where
  "traverse_concat e operands =
     Plan (map Must operands) (Data_visit (Visit_concat e operands))"

definition traverse_as_max_len :: "'c sexpr \<Rightarrow> 'c sexpr \<Rightarrow> u128 \<Rightarrow> 'c plan" where
  "traverse_as_max_len e sequence len =
     Plan [Must sequence] (Data_visit (Visit_as_max_len e sequence len))"

definition traverse_len :: "'c sexpr \<Rightarrow> 'c sexpr \<Rightarrow> 'c plan" where
  "traverse_len e sequence =
     Plan [Must sequence] (Data_visit (Visit_len e sequence))"

definition traverse_element_at :: "'c sexpr \<Rightarrow> 'c sexpr \<Rightarrow> 'c sexpr \<Rightarrow> 'c plan" where
  "traverse_element_at e sequence index =
     Plan [Must sequence, Must index] (Data_visit (Visit_element_at e sequence index))"

definition traverse_index_of :: "'c sexpr \<Rightarrow> 'c sexpr \<Rightarrow> 'c sexpr \<Rightarrow> 'c plan" where
  "traverse_index_of e sequence item =
     Plan [Must sequence, Must item] (Data_visit (Visit_element_at e sequence item))"

definition traverse_list_cons :: "'c sexpr \<Rightarrow> 'c sexpr list \<Rightarrow> 'c plan" where
  "traverse_list_cons e args =
     Plan (map Must args) (Data_visit (Visit_list_cons e args))"

definition traverse_call_user_defined :: "'c sexpr \<Rightarrow> clarity_name \<Rightarrow> 'c sexpr list \<Rightarrow> 'c plan" where
  "traverse_call_user_defined e name args =
     Plan (map Must args) (Control_visit (Visit_call_user_defined e name args))"

definition traverse_buff_cast :: "'c sexpr \<Rightarrow> 'c sexpr \<Rightarrow> 'c plan" where
  "traverse_buff_cast e inp =
     Plan [Must inp] (Compute_visit (Visit_buff_cast e inp))"

definition traverse_is_standard :: "'c sexpr \<Rightarrow> 'c sexpr \<Rightarrow> 'c plan" where
  "traverse_is_standard e val =
     Plan [Must val] (Chain_visit (Visit_is_standard e val))"

definition traverse_principal_destruct :: "'c sexpr \<Rightarrow> 'c sexpr \<Rightarrow> 'c plan" where
  "traverse_principal_destruct e princ =
     Plan [Must princ] (Chain_visit (Visit_principal_destruct e princ))"

definition traverse_principal_construct :: "'c sexpr \<Rightarrow> 'c sexpr \<Rightarrow> 'c sexpr \<Rightarrow>
    'c sexpr option \<Rightarrow> 'c plan" where
  "traverse_principal_construct e buff1 buff20 contract =
     Plan ([Must buff1, Must buff20] @ map Must (list_of contract))
       (Chain_visit (Visit_principal_construct e buff1 buff20 contract))"

definition traverse_string_to_int :: "'c sexpr \<Rightarrow> 'c sexpr \<Rightarrow> 'c plan" where
  "traverse_string_to_int e inp =
     Plan [Must inp] (Compute_visit (Visit_string_to_int e inp))"

definition traverse_int_to_string :: "'c sexpr \<Rightarrow> 'c sexpr \<Rightarrow> 'c plan" where
  "traverse_int_to_string e inp =
     Plan [Must inp] (Compute_visit (Visit_int_to_string e inp))"

definition traverse_to_ascii :: "'c sexpr \<Rightarrow> 'c sexpr \<Rightarrow> 'c plan" where
  "traverse_to_ascii e inp =
     Plan [Must inp] (Compute_visit (Visit_to_ascii e inp))"

definition traverse_stx_get_account :: "'c sexpr \<Rightarrow> 'c sexpr \<Rightarrow> 'c plan" where
  "traverse_stx_get_account e owner =
     Plan [Must owner] (Chain_visit (Visit_stx_get_account e owner))"

definition traverse_slice :: "'c sexpr \<Rightarrow> 'c sexpr \<Rightarrow> 'c sexpr \<Rightarrow> 'c sexpr \<Rightarrow>
    'c plan" where
  "traverse_slice e sq left right =
     Plan [Must sq, Must left, Must right] (Data_visit (Visit_slice e sq left right))"

definition traverse_get_burn_block_info :: "'c sexpr \<Rightarrow> clarity_name \<Rightarrow> 'c sexpr \<Rightarrow> 'c plan" where
  "traverse_get_burn_block_info e prop_name blk =
     Plan [Must blk] (Chain_visit (Visit_get_burn_block_info e prop_name blk))"

definition traverse_to_consensus_buff :: "'c sexpr \<Rightarrow> 'c sexpr \<Rightarrow> 'c plan" where
  "traverse_to_consensus_buff e inp =
     Plan [Must inp] (Compute_visit (Visit_to_consensus_buff e inp))"

definition traverse_from_consensus_buff :: "'c sexpr \<Rightarrow> 'c sexpr \<Rightarrow> 'c sexpr \<Rightarrow> 'c plan" where
  "traverse_from_consensus_buff e type_expr inp =
     Plan [Must type_expr, Must inp] (Compute_visit (Visit_from_consensus_buff e type_expr inp))"

definition traverse_bitwise :: "'c sexpr \<Rightarrow> native_functions \<Rightarrow> 'c sexpr list \<Rightarrow> 'c plan" where
  "traverse_bitwise e func operands =
     Plan (map Must operands) (Compute_visit (Visit_bitwise e func operands))"

definition traverse_replace_at :: "'c sexpr \<Rightarrow> 'c sexpr \<Rightarrow> 'c sexpr \<Rightarrow> 'c sexpr \<Rightarrow>
    'c plan" where
  "traverse_replace_at e sequence index element =
     Plan [Must sequence, Must index, Must element]
       (Data_visit (Visit_replace_at e sequence element index))"

definition traverse_bit_shift :: "'c sexpr \<Rightarrow> native_functions \<Rightarrow> 'c sexpr \<Rightarrow>
    'c sexpr \<Rightarrow> 'c plan" where
  "traverse_bit_shift e func inp shamt =
     Plan [Must inp, Must shamt] (Compute_visit (Visit_bit_shift e func inp shamt))"

definition traverse_contract_hash :: "'c sexpr \<Rightarrow> 'c sexpr \<Rightarrow> 'c plan" where
  "traverse_contract_hash e inp =
     Plan [Must inp] (Chain_visit (Visit_contract_hash e inp))"

definition traverse_secp256r1_verify :: "'c sexpr \<Rightarrow> 'c sexpr \<Rightarrow> 'c sexpr \<Rightarrow> 'c sexpr \<Rightarrow>
    'c plan" where
  "traverse_secp256r1_verify e message_hash signature public_key =
     Plan [Must message_hash, Must signature, Must public_key]
       (Compute_visit (Visit_secp256r1_verify e message_hash signature public_key))"

definition traverse_verify_merkle_proof :: "'c sexpr \<Rightarrow> 'c sexpr \<Rightarrow> 'c sexpr \<Rightarrow> 'c sexpr \<Rightarrow>
    'c sexpr \<Rightarrow> 'c sexpr \<Rightarrow> 'c plan" where
  "traverse_verify_merkle_proof e leaf_hash root_hash tx_index tx_count sibling_hashes =
     Plan [Must leaf_hash, Must root_hash, Must tx_index, Must tx_count, Must sibling_hashes]
       (Compute_visit (Visit_verify_merkle_proof e leaf_hash root_hash tx_index tx_count sibling_hashes))"

definition traverse_get_bitcoin_tx_output :: "'c sexpr \<Rightarrow> 'c sexpr \<Rightarrow> 'c sexpr \<Rightarrow> 'c plan" where
  "traverse_get_bitcoin_tx_output e tx_bytes vout =
     Plan [Must tx_bytes, Must vout] (Compute_visit (Visit_get_bitcoin_tx_output e tx_bytes vout))"

definition traverse_restrict_assets :: "'c sexpr \<Rightarrow> 'c sexpr \<Rightarrow> 'c sexpr \<Rightarrow>
    'c sexpr list \<Rightarrow> 'c plan" where
  "traverse_restrict_assets e owner raw_allowances body =
     Plan (Must owner # map Must (list_elements raw_allowances) @ map Must body)
       (Chain_visit (Visit_restrict_assets e owner (match_pairs_or_empty raw_allowances) body))"

definition traverse_allowance :: "'c sexpr \<Rightarrow> 'c sexpr \<Rightarrow> 'c plan" where
  "traverse_allowance e amount =
     Plan [Must amount] (Chain_visit (Visit_allowance e amount))"

definition traverse_ed25519_verify :: "'c sexpr \<Rightarrow> 'c sexpr \<Rightarrow> 'c sexpr \<Rightarrow> 'c sexpr \<Rightarrow>
    'c plan" where
  "traverse_ed25519_verify e message signature public_key =
     Plan [Must message, Must signature, Must public_key]
       (Compute_visit (Visit_ed25519_verify e message signature public_key))"

definition traverse_secp256k1_decompress :: "'c sexpr \<Rightarrow> 'c sexpr \<Rightarrow> 'c plan" where
  "traverse_secp256k1_decompress e public_key =
     Plan [Must public_key] (Compute_visit (Visit_secp256k1_decompress e public_key))"

section \<open>The dispatch on a list\<close>

definition plan_basic :: "'c ast_lib \<Rightarrow> clarity_version \<Rightarrow> 'c sexpr \<Rightarrow> 'c sexpr list \<Rightarrow>
    basic_function \<Rightarrow> 'c plan" where
  "plan_basic A ver e args f =
     (let arg = arg_or_default args; nf = Basic_fn f in
      case f of
       Nf_Add \<Rightarrow> traverse_arithmetic e nf args
     | Nf_Subtract \<Rightarrow> traverse_arithmetic e nf args
     | Nf_Multiply \<Rightarrow> traverse_arithmetic e nf args
     | Nf_Divide \<Rightarrow> traverse_arithmetic e nf args
     | Nf_Modulo \<Rightarrow> traverse_arithmetic e nf args
     | Nf_Power \<Rightarrow> traverse_arithmetic e nf args
     | Nf_Sqrti \<Rightarrow> traverse_arithmetic e nf args
     | Nf_Log2 \<Rightarrow> traverse_arithmetic e nf args
     | Nf_BitwiseXor \<Rightarrow> traverse_binary_bitwise e nf (arg 0) (arg 1)
     | Nf_CmpLess \<Rightarrow> traverse_comparison e nf args
     | Nf_CmpLeq \<Rightarrow> traverse_comparison e nf args
     | Nf_CmpGreater \<Rightarrow> traverse_comparison e nf args
     | Nf_CmpGeq \<Rightarrow> traverse_comparison e nf args
     | Nf_Equals \<Rightarrow> traverse_comparison e nf args
     | Nf_And \<Rightarrow> traverse_lazy_logical e nf args
     | Nf_Or \<Rightarrow> traverse_lazy_logical e nf args
     | Nf_Not \<Rightarrow> traverse_logical e nf args
     | Nf_ToInt \<Rightarrow> traverse_int_cast e (arg 0)
     | Nf_ToUInt \<Rightarrow> traverse_int_cast e (arg 0)
     | Nf_If \<Rightarrow> traverse_if e (arg 0) (arg 1) (arg 2)
     | Nf_Let \<Rightarrow> traverse_let A e (match_pairs_or_empty (arg 0)) (drop 1 args)
     | Nf_ElementAt \<Rightarrow> traverse_element_at e (arg 0) (arg 1)
     | Nf_ElementAtAlias \<Rightarrow> traverse_element_at e (arg 0) (arg 1)
     | Nf_IndexOf \<Rightarrow> traverse_index_of e (arg 0) (arg 1)
     | Nf_IndexOfAlias \<Rightarrow> traverse_index_of e (arg 0) (arg 1)
     | Nf_Map \<Rightarrow> traverse_map e (atom_of (arg 0)) (drop 1 args)
     | Nf_Fold \<Rightarrow> traverse_fold e (atom_of (arg 0)) (arg 1) (arg 2))"

definition plan_data :: "'c ast_lib \<Rightarrow> clarity_version \<Rightarrow> 'c sexpr \<Rightarrow> 'c sexpr list \<Rightarrow>
    data_function \<Rightarrow> 'c plan" where
  "plan_data A ver e args f =
     (let arg = arg_or_default args; nf = Data_fn f in
      case f of
       Nf_Append \<Rightarrow> traverse_append e (arg 0) (arg 1)
     | Nf_Concat \<Rightarrow> traverse_concat e args
     | Nf_AsMaxLen \<Rightarrow>
         (case match_literal_value (arg 1) of
         Some (UInt_Value l) \<Rightarrow> traverse_as_max_len e (arg 0) l
       | _ \<Rightarrow> Bare (map Must args))
     | Nf_Len \<Rightarrow> traverse_len e (arg 0)
     | Nf_ListCons \<Rightarrow> traverse_list_cons e args
     | Nf_FetchVar \<Rightarrow> traverse_var_get e (atom_of (arg 0))
     | Nf_SetVar \<Rightarrow> traverse_var_set e (atom_of (arg 0)) (arg 1)
     | Nf_FetchEntry \<Rightarrow>
         traverse_map_get A e (atom_of (arg 0)) (tuple_or_single A ver (arg 1))
     | Nf_SetEntry \<Rightarrow>
         traverse_map_set A e (atom_of (arg 0)) (tuple_or_single A ver (arg 1)) (tuple_or_single A ver (arg 2))
     | Nf_InsertEntry \<Rightarrow>
         traverse_map_insert A e (atom_of (arg 0)) (tuple_or_single A ver (arg 1)) (tuple_or_single A ver (arg 2))
     | Nf_DeleteEntry \<Rightarrow>
         traverse_map_delete A e (atom_of (arg 0)) (tuple_or_single A ver (arg 1))
     | Nf_TupleCons \<Rightarrow>
         traverse_tuple A e (case match_tuple A ver e of Some m \<Rightarrow> m | None \<Rightarrow> [])
     | Nf_TupleGet \<Rightarrow> traverse_get e (atom_of (arg 0)) (arg 1)
     | Nf_TupleMerge \<Rightarrow> traverse_merge e (arg 0) (arg 1)
     | Nf_Begin \<Rightarrow> traverse_begin e args)"

definition plan_contract :: "'c ast_lib \<Rightarrow> clarity_version \<Rightarrow> 'c sexpr \<Rightarrow> 'c sexpr list \<Rightarrow>
    contract_function \<Rightarrow> 'c plan outcome" where
  "plan_contract A ver e args f =
     (let arg = arg_or_default args; nf = Contract_fn f in
      case f of
       Nf_Hash160 \<Rightarrow> Done (traverse_hash e nf (arg 0))
     | Nf_Sha256 \<Rightarrow> Done (traverse_hash e nf (arg 0))
     | Nf_Sha512 \<Rightarrow> Done (traverse_hash e nf (arg 0))
     | Nf_Sha512Trunc256 \<Rightarrow> Done (traverse_hash e nf (arg 0))
     | Nf_Keccak256 \<Rightarrow> Done (traverse_hash e nf (arg 0))
     | Nf_Secp256k1Recover \<Rightarrow> Done (traverse_secp256k1_recover e (arg 0) (arg 1))
     | Nf_Secp256k1Verify \<Rightarrow> Done (traverse_secp256k1_verify e (arg 0) (arg 1) (arg 2))
     | Nf_Print \<Rightarrow> Done (traverse_print e (arg 0))
     | Nf_ContractCall \<Rightarrow>
         Done (case arg 0 of
         LiteralValue _ (Contract_Principal c) \<Rightarrow> traverse_static_contract_call e c (atom_of (arg 1)) (drop 2 args)
       | _ \<Rightarrow> traverse_dynamic_contract_call e (arg 0) (atom_of (arg 1)) (drop 2 args))
     | Nf_AsContract \<Rightarrow> Done (traverse_as_contract e (arg 0))
     | Nf_AsContractSafe \<Rightarrow>
         (if args = [] then Panic else Done (traverse_as_contract_safe e (arg 0) (drop 1 args)))
     | Nf_ContractOf \<Rightarrow> Done (traverse_contract_of e (arg 0))
     | Nf_PrincipalOf \<Rightarrow> Done (traverse_principal_of e (arg 0))
     | Nf_AtBlock \<Rightarrow> Done (traverse_at_block e (arg 0) (arg 1))
     | Nf_GetBlockInfo \<Rightarrow> Done (traverse_get_block_info e (atom_of (arg 0)) (arg 1))
     | Nf_GetStacksBlockInfo \<Rightarrow>
         Done (traverse_get_stacks_block_info e (atom_of (arg 0)) (arg 1))
     | Nf_GetTenureInfo \<Rightarrow> Done (traverse_get_tenure_info e (atom_of (arg 0)) (arg 1)))"

definition plan_response :: "'c ast_lib \<Rightarrow> clarity_version \<Rightarrow> 'c sexpr \<Rightarrow> 'c sexpr list \<Rightarrow>
    response_function \<Rightarrow> 'c plan" where
  "plan_response A ver e args f =
     (let arg = arg_or_default args; nf = Response_fn f in
      case f of
       Nf_ConsError \<Rightarrow> traverse_err e (arg 0)
     | Nf_ConsOkay \<Rightarrow> traverse_ok e (arg 0)
     | Nf_ConsSome \<Rightarrow> traverse_some e (arg 0)
     | Nf_DefaultTo \<Rightarrow> traverse_default_to e (arg 0) (arg 1)
     | Nf_Asserts \<Rightarrow> traverse_asserts e (arg 0) (arg 1)
     | Nf_UnwrapRet \<Rightarrow> traverse_unwrap e (arg 0) (arg 1)
     | Nf_Unwrap \<Rightarrow> traverse_unwrap_panic e (arg 0)
     | Nf_IsOkay \<Rightarrow> traverse_is_ok e (arg 0)
     | Nf_IsNone \<Rightarrow> traverse_is_none e (arg 0)
     | Nf_IsErr \<Rightarrow> traverse_is_err e (arg 0)
     | Nf_IsSome \<Rightarrow> traverse_is_some e (arg 0)
     | Nf_Filter \<Rightarrow> traverse_filter e (atom_of (arg 0)) (arg 1)
     | Nf_UnwrapErrRet \<Rightarrow> traverse_unwrap_err e (arg 0) (arg 1)
     | Nf_UnwrapErr \<Rightarrow> traverse_unwrap_err_panic e (arg 0)
     | Nf_Match \<Rightarrow>
         (if length args = 4 then traverse_match_option e (arg 0) (atom_of (arg 1)) (arg 2) (arg 3)
       else traverse_match_response e (arg 0) (atom_of (arg 1)) (arg 2) (atom_of (arg 3)) (arg 4))
     | Nf_TryRet \<Rightarrow> traverse_try e (arg 0))"

definition plan_asset :: "'c ast_lib \<Rightarrow> clarity_version \<Rightarrow> 'c sexpr \<Rightarrow> 'c sexpr list \<Rightarrow>
    asset_function \<Rightarrow> 'c plan" where
  "plan_asset A ver e args f =
     (let arg = arg_or_default args; nf = Asset_fn f in
      case f of
       Nf_StxBurn \<Rightarrow> traverse_stx_burn e (arg 0) (arg 1)
     | Nf_StxTransfer \<Rightarrow> traverse_stx_transfer e (arg 0) (arg 1) (arg 2) (get_arg args 3)
     | Nf_StxTransferMemo \<Rightarrow> traverse_stx_transfer e (arg 0) (arg 1) (arg 2) (get_arg args 3)
     | Nf_GetStxBalance \<Rightarrow> traverse_stx_get_balance e (arg 0)
     | Nf_BurnToken \<Rightarrow> traverse_ft_burn e (atom_of (arg 0)) (arg 1) (arg 2)
     | Nf_TransferToken \<Rightarrow> traverse_ft_transfer e (atom_of (arg 0)) (arg 1) (arg 2) (arg 3)
     | Nf_GetTokenBalance \<Rightarrow> traverse_ft_get_balance e (atom_of (arg 0)) (arg 1)
     | Nf_GetTokenSupply \<Rightarrow> traverse_ft_get_supply e (atom_of (arg 0))
     | Nf_MintToken \<Rightarrow> traverse_ft_mint e (atom_of (arg 0)) (arg 1) (arg 2)
     | Nf_BurnAsset \<Rightarrow> traverse_nft_burn e (atom_of (arg 0)) (arg 1) (arg 2)
     | Nf_TransferAsset \<Rightarrow> traverse_nft_transfer e (atom_of (arg 0)) (arg 1) (arg 2) (arg 3)
     | Nf_MintAsset \<Rightarrow> traverse_nft_mint e (atom_of (arg 0)) (arg 1) (arg 2)
     | Nf_GetAssetOwner \<Rightarrow> traverse_nft_get_owner e (atom_of (arg 0)) (arg 1))"

definition plan_conversion :: "'c ast_lib \<Rightarrow> clarity_version \<Rightarrow> 'c sexpr \<Rightarrow> 'c sexpr list \<Rightarrow>
    conversion_function \<Rightarrow> 'c plan" where
  "plan_conversion A ver e args f =
     (let arg = arg_or_default args; nf = Conversion_fn f in
      case f of
       Nf_BuffToIntLe \<Rightarrow> traverse_buff_cast e (arg 0)
     | Nf_BuffToUIntLe \<Rightarrow> traverse_buff_cast e (arg 0)
     | Nf_BuffToIntBe \<Rightarrow> traverse_buff_cast e (arg 0)
     | Nf_BuffToUIntBe \<Rightarrow> traverse_buff_cast e (arg 0)
     | Nf_IsStandard \<Rightarrow> traverse_is_standard e (arg 0)
     | Nf_PrincipalDestruct \<Rightarrow> traverse_principal_destruct e (arg 0)
     | Nf_PrincipalConstruct \<Rightarrow> traverse_principal_construct e (arg 0) (arg 1) (get_arg args 2)
     | Nf_StringToInt \<Rightarrow> traverse_string_to_int e (arg 0)
     | Nf_StringToUInt \<Rightarrow> traverse_string_to_int e (arg 0)
     | Nf_IntToAscii \<Rightarrow> traverse_int_to_string e (arg 0)
     | Nf_IntToUtf8 \<Rightarrow> traverse_int_to_string e (arg 0)
     | Nf_ToAscii \<Rightarrow> traverse_to_ascii e (arg 0)
     | Nf_GetBurnBlockInfo \<Rightarrow> traverse_get_burn_block_info e (atom_of (arg 0)) (arg 1)
     | Nf_StxGetAccount \<Rightarrow> traverse_stx_get_account e (arg 0)
     | Nf_Slice \<Rightarrow> traverse_slice e (arg 0) (arg 1) (arg 2)
     | Nf_ToConsensusBuff \<Rightarrow> traverse_to_consensus_buff e (arg 0)
     | Nf_FromConsensusBuff \<Rightarrow> traverse_from_consensus_buff e (arg 0) (arg 1))"

definition plan_late :: "'c ast_lib \<Rightarrow> clarity_version \<Rightarrow> 'c sexpr \<Rightarrow> 'c sexpr list \<Rightarrow>
    late_function \<Rightarrow> 'c plan" where
  "plan_late A ver e args f =
     (let arg = arg_or_default args; nf = Late_fn f in
      case f of
       Nf_ReplaceAt \<Rightarrow> traverse_replace_at e (arg 0) (arg 1) (arg 2)
     | Nf_BitwiseAnd \<Rightarrow> traverse_bitwise e nf args
     | Nf_BitwiseOr \<Rightarrow> traverse_bitwise e nf args
     | Nf_BitwiseNot \<Rightarrow> traverse_bitwise e nf args
     | Nf_BitwiseXor2 \<Rightarrow> traverse_bitwise e nf args
     | Nf_BitwiseLShift \<Rightarrow> traverse_bit_shift e nf (arg 0) (arg 1)
     | Nf_BitwiseRShift \<Rightarrow> traverse_bit_shift e nf (arg 0) (arg 1)
     | Nf_ContractHash \<Rightarrow> traverse_contract_hash e (arg 0)
     | Nf_Secp256r1Verify \<Rightarrow> traverse_secp256r1_verify e (arg 0) (arg 1) (arg 2)
     | Nf_RestrictAssets \<Rightarrow> traverse_restrict_assets e (arg 0) (arg 1) (drop 2 args)
     | Nf_AllowanceWithStx \<Rightarrow> traverse_allowance e (arg 0)
     | Nf_AllowanceWithFt \<Rightarrow> traverse_allowance e (arg 0)
     | Nf_AllowanceWithNft \<Rightarrow> traverse_allowance e (arg 0)
     | Nf_AllowanceWithStacking \<Rightarrow> traverse_allowance e (arg 0)
     | Nf_AllowanceAll \<Rightarrow> traverse_allowance e (arg 0)
     | Nf_AllowanceWithStaking \<Rightarrow> traverse_allowance e (arg 0)
     | Nf_AllowanceWithPox \<Rightarrow> traverse_allowance e (arg 0)
     | Nf_VerifyMerkleProof \<Rightarrow>
         traverse_verify_merkle_proof e (arg 0) (arg 1) (arg 2) (arg 3) (arg 4)
     | Nf_GetBitcoinTxOutput \<Rightarrow> traverse_get_bitcoin_tx_output e (arg 0) (arg 1)
     | Nf_Ed25519Verify \<Rightarrow> traverse_ed25519_verify e (arg 0) (arg 1) (arg 2)
     | Nf_Secp256k1Decompress \<Rightarrow> traverse_secp256k1_decompress e (arg 0))"

definition plan_native :: "'c ast_lib \<Rightarrow> clarity_version \<Rightarrow> 'c sexpr \<Rightarrow> 'c sexpr list \<Rightarrow>
    native_functions \<Rightarrow> 'c plan outcome" where
  "plan_native A ver e args f =
     (case f of
        Basic_fn f \<Rightarrow> Done (plan_basic A ver e args f)
      | Data_fn f \<Rightarrow> Done (plan_data A ver e args f)
      | Contract_fn f \<Rightarrow> plan_contract A ver e args f
      | Response_fn f \<Rightarrow> Done (plan_response A ver e args f)
      | Asset_fn f \<Rightarrow> Done (plan_asset A ver e args f)
      | Conversion_fn f \<Rightarrow> Done (plan_conversion A ver e args f)
      | Late_fn f \<Rightarrow> Done (plan_late A ver e args f))"

text \<open>
  A function definition whose signature is a list is a define; otherwise only its body is walked.
\<close>

definition plan_define_function :: "'c sexpr \<Rightarrow> 'c sexpr list \<Rightarrow>
    ('c sexpr \<Rightarrow> clarity_name \<Rightarrow> 'c typed_var list option \<Rightarrow> 'c sexpr \<Rightarrow> 'c plan) \<Rightarrow> 'c plan" where
  "plan_define_function e args method =
     (case ast_match_list (arg_or_default args 0) of
        Some signature \<Rightarrow>
          method e
            (case get_arg signature 0 of Some n \<Rightarrow> atom_of n | None \<Rightarrow> DEFAULT_NAME)
            (if length signature \<le> 1 then None else match_pairs_list (drop 1 signature))
            (arg_or_default args 1)
      | None \<Rightarrow> Bare [Must (arg_or_default args 1)])"

definition plan_define :: "'c ast_lib \<Rightarrow> 'c sexpr \<Rightarrow> 'c sexpr list \<Rightarrow> define_functions \<Rightarrow> 'c plan" where
  "plan_define A e args f =
     (let arg = arg_or_default args in
      case f of
       Define_Constant \<Rightarrow> traverse_define_constant e (atom_of (arg 0)) (arg 1)
     | Define_PrivateFunction \<Rightarrow> plan_define_function e args traverse_define_private
     | Define_ReadOnlyFunction \<Rightarrow> plan_define_function e args traverse_define_read_only
     | Define_PublicFunction \<Rightarrow> plan_define_function e args traverse_define_public
     | Define_NonFungibleToken \<Rightarrow> traverse_define_nft e (atom_of (arg 0)) (arg 1)
     | Define_FungibleToken \<Rightarrow> traverse_define_ft e (atom_of (arg 0)) (get_arg args 1)
     | Define_Map \<Rightarrow> traverse_define_map e (atom_of (arg 0)) (arg 1) (arg 2)
     | Define_PersistedVariable \<Rightarrow> traverse_define_data_var e (atom_of (arg 0)) (arg 1) (arg 2)
     | Define_Trait \<Rightarrow> traverse_define_trait e (atom_of (arg 0)) (drop 1 args)
     | Define_UseTrait \<Rightarrow> traverse_use_trait e (atom_of (arg 0)) (field_of A (arg 1))
     | Define_ImplTrait \<Rightarrow> traverse_impl_trait e (field_of A (arg 0)))"

text \<open>What is walked for a list; a list without an atom at its head has no plan.\<close>

definition dispatch :: "'c ast_lib \<Rightarrow> clarity_version \<Rightarrow> 'c sexpr \<Rightarrow> 'c sexpr list \<Rightarrow> 'c plan option outcome" where
  "dispatch A ver e xs =
     (case xs of
        [] \<Rightarrow> Done None
      | f # args \<Rightarrow>
          (case ast_match_atom f of
             None \<Rightarrow> Done None
           | Some function_name \<Rightarrow>
               (case al_define A function_name of
                  Some d \<Rightarrow> Done (Some (plan_define A e args d))
                | None \<Rightarrow>
                    (case al_native A ver function_name of
                       Some n \<Rightarrow> bind_outcome (plan_native A ver e args n) (\<lambda>p. Done (Some p))
                     | None \<Rightarrow> Done (Some (traverse_call_user_defined e function_name args))))))"

end
