(* ===== verification/Ast_Traverse.thy ===== *)
theory Ast_Traverse
  imports Ast_Visitor
begin

text \<open>
  The walk itself: \<^verbatim>\<open>traverse_expr\<close>, \<^verbatim>\<open>traverse_list\<close> and \<^verbatim>\<open>traverse\<close> of
  \<^verbatim>\<open>components/clarity-repl/src/analysis/ast_visitor.rs\<close>, over an arbitrary visitor. It terminates
  because the steps of a plan are subexpressions. A visitor that never stops the walk sees the
  events that the recording visitor collects, in the same order.
\<close>

section \<open>The steps of a plan are subexpressions\<close>

fun weight :: "'c sexpr \<Rightarrow> nat" where
  "weight (SList _ xs) = Suc (sum_list (map weight xs))"
| "weight _ = 0"

definition within :: "nat \<Rightarrow> 'c plan \<Rightarrow> bool" where
  "within n p \<longleftrightarrow> (\<forall>st \<in> set (plan_steps p). weight (step_expr st) < n)"

abbreviation weights :: "'c sexpr list \<Rightarrow> nat" where
  "weights xs \<equiv> sum_list (map weight xs)"

lemma weight_default [simp]: "weight DEFAULT_EXPR = 0"
  by (simp add: DEFAULT_EXPR_def)

lemma weight_mem: "x \<in> set xs \<Longrightarrow> weight x \<le> weights xs"
  by (simp add: member_le_sum_list)

lemma weight_get_arg: "x \<in> set (list_of (get_arg args i)) \<Longrightarrow> weight x \<le> weights args"
  by (auto simp: get_arg_def weight_mem split: if_splits)

lemma weight_arg: "weight (arg_or_default args i) \<le> weights args"
  by (auto simp: arg_or_default_def get_arg_def weight_mem split: option.splits)

lemma weight_drop: "x \<in> set (drop k args) \<Longrightarrow> weight x \<le> weights args"
  by (meson in_set_dropD weight_mem)

lemma weight_list_elements: "x \<in> set (list_elements e) \<Longrightarrow> weight x < weight e"
  using weight_mem by (cases e) (auto simp: list_elements_def less_Suc_eq_le)

lemma values_update: "x \<in> snd ` set (hm_insert k v m) \<Longrightarrow> x = v \<or> x \<in> snd ` set m"
  by (induction m) (auto split: if_splits)

lemma weight_tuple_entries:
  "tuple_entries es m = Some m' \<Longrightarrow> x \<in> snd ` set m' \<Longrightarrow>
     x \<in> snd ` set m \<or> (\<exists>e \<in> set es. weight x < weight e)"
proof (induction es m rule: tuple_entries.induct)
  case (2 e es m)
  from "2.prems"(1) obtain k v where kv: "list_elements e = [k, v]"
    and m': "tuple_entries es (hm_insert (ast_match_atom k) v m) = Some m'"
    by (auto split: list.splits)
  have "weight v < weight e"
    using weight_list_elements [of v e] kv by simp
  with "2.IH" [OF kv refl refl m' "2.prems"(2)] values_update [of x "ast_match_atom k" v m]
  show ?case by auto
qed simp

lemma weight_match_tuple:
  assumes "match_tuple A ver e = Some m" and "x \<in> snd ` set m"
  shows "weight x < weight e"
proof -
  obtain sp f args where e: "e = SList sp (f # args)" and m: "tuple_entries args [] = Some m"
    using assms(1) by (auto simp: match_tuple_def match_Some split: option.splits list.splits if_splits)
  from weight_tuple_entries [OF m assms(2)] obtain a where "a \<in> set args" "weight x < weight a" by auto
  then show ?thesis using weight_mem [of a args] by (simp add: e)
qed

lemma weight_pair_entries:
  "pair_entries es m = Some m' \<Longrightarrow> b \<in> snd ` set m' \<Longrightarrow>
     b \<in> snd ` set m \<or> (\<exists>e \<in> set es. weight (lb_value b) < weight e)"
proof (induction es m rule: pair_entries.induct)
  case (2 e es m)
  from "2.prems"(1) obtain k v n where kv: "ast_match_list e = Some [k, v]" and n: "ast_match_atom k = Some n"
    and m': "pair_entries es (hm_insert n \<lparr> lb_value = v, lb_name_span = span_of k \<rparr> m) = Some m'"
    by (auto split: list.splits option.splits)
  have v: "weight v < weight e" using kv by (auto simp: match_Some)
  consider "b = \<lparr> lb_value = v, lb_name_span = span_of k \<rparr>" | "b \<in> snd ` set m"
    | "\<exists>e \<in> set es. weight (lb_value b) < weight e"
    using "2.IH" [OF kv refl refl refl n m' "2.prems"(2)]
      values_update [of b n "\<lparr> lb_value = v, lb_name_span = span_of k \<rparr>" m] by argo
  then show ?case using v by cases auto
qed simp

lemma weight_match_pairs:
  assumes "b \<in> snd ` set (match_pairs_or_empty e)"
  shows "weight (lb_value b) < weight e"
proof -
  from assms obtain sp xs m where e: "e = SList sp xs" and m: "pair_entries xs [] = Some m" "b \<in> snd ` set m"
    by (cases e; cases "match_pairs e") (auto simp: match_pairs_or_empty_def match_pairs_def)
  from weight_pair_entries [OF m] obtain a where "a \<in> set xs" "weight (lb_value b) < weight a" by auto
  then show ?thesis using weight_mem [of a xs] by (simp add: e)
qed

lemma weight_tuple_values: "x \<in> set (tuple_values A m) \<Longrightarrow> x \<in> snd ` set m"
  by (simp add: tuple_values_def)

lemma weight_binding_values:
  "x \<in> set (binding_values A (match_pairs_or_empty e)) \<Longrightarrow> weight x < weight e"
  using weight_match_pairs by (auto simp: binding_values_def)

lemma weight_tuple_or_single:
  "x \<in> set (tuple_values A (tuple_or_single A ver e)) \<Longrightarrow> weight x \<le> weight e"
  using weight_match_tuple [of A ver e] by (auto simp: tuple_values_def tuple_or_single_def less_imp_le split: option.splits)

text \<open>The weights of the steps a plan can have.\<close>

lemma weight_steps:
  assumes "weights args < n"
  shows "weight (arg_or_default args i) < n"
    and "x \<in> set (list_of (get_arg args i)) \<Longrightarrow> weight x < n"
    and "x \<in> set args \<Longrightarrow> weight x < n"
    and "x \<in> set (drop k args) \<Longrightarrow> weight x < n"
    and "x \<in> set (tuple_values A (tuple_or_single A ver (arg_or_default args i))) \<Longrightarrow> weight x < n"
    and "x \<in> set (binding_values A (match_pairs_or_empty (arg_or_default args i))) \<Longrightarrow> weight x < n"
    and "x \<in> set (list_elements (arg_or_default args i)) \<Longrightarrow> weight x < n"
    and "ast_match_list (arg_or_default args i) = Some xs \<Longrightarrow> x \<in> set xs \<Longrightarrow> weight x < n"
  using assms weight_arg [of args i] weight_get_arg [of x args i] weight_mem [of x args] weight_drop [of x k args]
    weight_tuple_or_single [of x A ver "arg_or_default args i"]
    weight_binding_values [of x A "arg_or_default args i"] weight_list_elements [of x "arg_or_default args i"]
  by (auto simp: list_elements_def)

lemma within_Plan: "within n (Plan steps v) \<longleftrightarrow> (\<forall>st \<in> set steps. weight (step_expr st) < n)"
  by (simp add: within_def)

lemma within_Bare: "within n (Bare steps) \<longleftrightarrow> (\<forall>st \<in> set steps. weight (step_expr st) < n)"
  by (simp add: within_def)

lemmas step_simps = within_Plan within_Bare ball_Un

lemmas traverse_basic_defs =
  traverse_arithmetic_def traverse_binary_bitwise_def traverse_comparison_def
  traverse_lazy_logical_def traverse_logical_def traverse_int_cast_def traverse_if_def
  traverse_let_def traverse_element_at_def traverse_index_of_def traverse_map_def
  traverse_fold_def

lemmas traverse_data_defs =
  traverse_tuple_def traverse_as_max_len_def traverse_append_def traverse_concat_def
  traverse_len_def traverse_list_cons_def traverse_var_get_def traverse_var_set_def
  traverse_map_get_def traverse_map_set_def traverse_map_insert_def traverse_map_delete_def
  traverse_get_def traverse_merge_def traverse_begin_def

lemmas traverse_call_defs =
  traverse_static_contract_call_def traverse_dynamic_contract_call_def traverse_as_contract_safe_def

lemmas traverse_contract_defs =
  traverse_hash_def traverse_secp256k1_recover_def
  traverse_secp256k1_verify_def traverse_print_def traverse_as_contract_def
  traverse_contract_of_def traverse_principal_of_def traverse_at_block_def
  traverse_get_block_info_def traverse_get_stacks_block_info_def traverse_get_tenure_info_def

lemmas traverse_response_defs =
  traverse_err_def traverse_ok_def traverse_some_def traverse_default_to_def traverse_asserts_def
  traverse_unwrap_def traverse_unwrap_panic_def traverse_is_ok_def traverse_is_none_def
  traverse_is_err_def traverse_is_some_def traverse_filter_def traverse_unwrap_err_def
  traverse_unwrap_err_panic_def traverse_match_option_def traverse_match_response_def
  traverse_try_def

lemmas traverse_asset_defs =
  traverse_stx_burn_def traverse_stx_transfer_def traverse_stx_get_balance_def
  traverse_ft_burn_def traverse_ft_transfer_def traverse_ft_get_balance_def
  traverse_ft_get_supply_def traverse_ft_mint_def traverse_nft_burn_def traverse_nft_transfer_def
  traverse_nft_mint_def traverse_nft_get_owner_def

lemmas traverse_conversion_defs =
  traverse_buff_cast_def traverse_is_standard_def traverse_principal_destruct_def
  traverse_principal_construct_def traverse_string_to_int_def traverse_int_to_string_def
  traverse_to_ascii_def traverse_get_burn_block_info_def traverse_stx_get_account_def
  traverse_slice_def traverse_to_consensus_buff_def traverse_from_consensus_buff_def

lemmas traverse_late_defs =
  traverse_replace_at_def traverse_bitwise_def traverse_bit_shift_def traverse_contract_hash_def
  traverse_secp256r1_verify_def traverse_restrict_assets_def traverse_allowance_def
  traverse_verify_merkle_proof_def traverse_get_bitcoin_tx_output_def traverse_ed25519_verify_def
  traverse_secp256k1_decompress_def

lemmas traverse_define_defs =
  traverse_define_constant_def traverse_define_private_def traverse_define_read_only_def
  traverse_define_public_def traverse_define_nft_def traverse_define_ft_def
  traverse_define_map_def traverse_define_data_var_def traverse_define_trait_def
  traverse_use_trait_def traverse_impl_trait_def

lemma plan_basic_within: "weights args < n \<Longrightarrow> within n (plan_basic A ver e args f)"
  by (cases f)
    (auto simp: plan_basic_def Let_def step_simps weight_steps traverse_basic_defs)

lemma plan_data_within:
  assumes "weights args < n" and "n \<le> weight e"
  shows "within (weight e) (plan_data A ver e args f)"
proof -
  have tuple: "within (weight e) (traverse_tuple A e (case match_tuple A ver e of Some m \<Rightarrow> m | None \<Rightarrow> []))"
  proof (cases "match_tuple A ver e")
    case (Some m)
    show ?thesis
      by (simp add: Some traverse_tuple_def step_simps weight_match_tuple [OF Some weight_tuple_values])
  qed (simp add: traverse_tuple_def step_simps tuple_values_def)
  have "weights args < weight e" using assms by simp
  note W = weight_steps [OF this]
  show ?thesis
  proof (cases f)
    case Nf_TupleCons
    with tuple show ?thesis by (simp add: plan_data_def)
  next
    case Nf_AsMaxLen
    then show ?thesis
      by (auto simp: plan_data_def Let_def traverse_as_max_len_def step_simps W split: option.split ast_value.split)
  qed (auto simp: plan_data_def Let_def step_simps W traverse_data_defs)
qed

lemma plan_contract_within:
  assumes n: "weights args < n" and p: "plan_contract A ver e args f = Done p"
  shows "within n p"
proof -
  have call: "within n (case arg_or_default args 0 of
        LiteralValue _ (Contract_Principal c) \<Rightarrow> traverse_static_contract_call e c a (drop 2 args)
      | _ \<Rightarrow> traverse_dynamic_contract_call e (arg_or_default args 0) a (drop 2 args))" for a
    using weight_steps(1) [OF n, of 0] weight_steps(4) [OF n]
    by (auto simp: traverse_static_contract_call_def traverse_dynamic_contract_call_def step_simps
        split: sexpr.split ast_value.split)
  have safe: "within n (traverse_as_contract_safe e (arg_or_default args 0) (drop (Suc 0) args))"
    using weight_steps(1) [OF n, of 0] weight_steps(4,8) [OF n]
    by (auto simp: traverse_as_contract_safe_def step_simps split: option.split)
  show ?thesis
    using p n call safe
    by (cases f)
      (auto simp: plan_contract_def Let_def step_simps weight_steps traverse_contract_defs split: if_splits)
qed

lemma plan_response_within: "weights args < n \<Longrightarrow> within n (plan_response A ver e args f)"
  by (cases f)
    (auto simp: plan_response_def Let_def step_simps weight_steps traverse_response_defs)

lemma plan_asset_within: "weights args < n \<Longrightarrow> within n (plan_asset A ver e args f)"
  by (cases f)
    (auto simp: plan_asset_def Let_def step_simps weight_steps traverse_asset_defs)

lemma plan_conversion_within: "weights args < n \<Longrightarrow> within n (plan_conversion A ver e args f)"
  by (cases f)
    (auto simp: plan_conversion_def Let_def step_simps weight_steps traverse_conversion_defs)

lemma plan_late_within: "weights args < n \<Longrightarrow> within n (plan_late A ver e args f)"
  by (cases f)
    (auto simp: plan_late_def Let_def step_simps weight_steps traverse_late_defs)

lemma plan_define_within: "weights args < n \<Longrightarrow> within n (plan_define A e args f)"
  by (cases f)
    (auto simp: plan_define_def plan_define_function_def Let_def step_simps weight_steps traverse_define_defs
      split: option.split)

lemma plan_native_within:
  assumes "weights args < weight e" and "plan_native A ver e args f = Done p"
  shows "within (weight e) p"
  using assms plan_basic_within plan_data_within [OF assms(1) order_refl] plan_contract_within [OF assms(1)]
    plan_response_within plan_asset_within plan_conversion_within plan_late_within
  by (cases f) (auto simp: plan_native_def)

lemma dispatch_within:
  assumes "dispatch A ver (SList sp xs) xs = Done (Some p)"
  shows "within (weight (SList sp xs)) p"
proof -
  obtain h args where xs: "xs = h # args" using assms by (cases xs) (auto simp: dispatch_def)
  have w: "weights args < weight (SList sp xs)" by (simp add: xs)
  show ?thesis
    using assms plan_define_within [OF w] plan_native_within [OF w] weight_steps(3) [OF w]
    by (auto simp: dispatch_def xs bind_outcome_Done_iff traverse_call_user_defined_def step_simps
        split: option.splits)
qed

section \<open>Visitors\<close>

text \<open>
  \<open>av_before\<close> and \<open>av_after\<close> are what a visitor does around the default body of a method (the
  \<^verbatim>\<open>pre_traverse_\<close> and \<^verbatim>\<open>post_traverse_\<close> hooks, and overrides that wrap the default body);
  \<open>av_descends\<close> is false for the methods whose override does not walk the subexpressions.
\<close>

record ('c, 's) visitor =
  av_version :: "'s \<Rightarrow> clarity_version"
  av_before :: "'c ast_visit \<Rightarrow> 's \<Rightarrow> 's"
  av_descends :: "'c ast_visit \<Rightarrow> bool"
  av_visit :: "'c ast_visit \<Rightarrow> 's \<Rightarrow> bool \<times> 's"
  av_after :: "'c ast_visit \<Rightarrow> 's \<Rightarrow> 's"

definition visit_leaf :: "('c, 's) visitor \<Rightarrow> 'c leaf_visit \<Rightarrow> 's \<Rightarrow> (bool \<times> 's) outcome" where
  "visit_leaf V v s = Done (av_visit V (Leaf_visit v) s)"

declare bind_outcome_cong [fundef_cong]

definition steps_weight :: "'c step list \<Rightarrow> nat" where
  "steps_weight steps = Max (insert 0 ((\<lambda>st. weight (step_expr st)) ` set steps))"

lemma steps_weight_dispatch:
  assumes "dispatch A ver (SList sp xs) xs = Done (Some p)"
  shows "steps_weight (plan_steps p) < weight (SList sp xs)"
  using dispatch_within [OF assms] by (auto simp: steps_weight_def within_def)

lemma steps_weight_Nil [simp]: "steps_weight [] = 0"
  by (simp add: steps_weight_def)

lemma steps_weight_Cons:
  "weight (step_expr st) \<le> steps_weight (st # steps)" "steps_weight steps \<le> steps_weight (st # steps)"
  by (auto simp: steps_weight_def intro!: Max_mono)

function (sequential)
  traverse_expr :: "'c ast_lib \<Rightarrow> ('c, 's) visitor \<Rightarrow> 'c sexpr \<Rightarrow> 's \<Rightarrow> (bool \<times> 's) outcome"
  and traverse_steps :: "'c ast_lib \<Rightarrow> ('c, 's) visitor \<Rightarrow> 'c step list \<Rightarrow> 's \<Rightarrow> (bool \<times> 's) outcome"
where
  "traverse_expr A V (AtomValue sp v) s = visit_leaf V (Visit_atom_value (AtomValue sp v) v) s"
| "traverse_expr A V (Atom sp n) s = visit_leaf V (Visit_atom (Atom sp n) n) s"
| "traverse_expr A V (LiteralValue sp v) s = visit_leaf V (Visit_literal_value (LiteralValue sp v) v) s"
| "traverse_expr A V (Field sp t) s = visit_leaf V (Visit_field (Field sp t) t) s"
| "traverse_expr A V (TraitReference sp n t) s = visit_leaf V (Visit_trait_reference (TraitReference sp n t) n t) s"
| "traverse_expr A V (SList sp xs) s =
     bind_outcome (dispatch A (av_version V s) (SList sp xs) xs) (\<lambda>plan.
       bind_outcome
         (case plan of
            None \<Rightarrow> Done (True, s)
          | Some (Bare steps) \<Rightarrow> traverse_steps A V steps s
          | Some (Plan steps v) \<Rightarrow>
              bind_outcome (traverse_steps A V (if av_descends V v then steps else []) (av_before V v s))
                (\<lambda>(ok, s1).
                   case (if ok then av_visit V v s1 else (False, s1)) of
                     (rv, s2) \<Rightarrow> Done (rv, av_after V v s2)))
         (\<lambda>(rv, s1). if rv then visit_leaf V (Visit_list (SList sp xs) xs) s1 else Done (False, s1)))"
| "traverse_steps A V [] s = Done (True, s)"
| "traverse_steps A V (Must e # steps) s =
     bind_outcome (traverse_expr A V e s) (\<lambda>(ok, s1).
       if ok then traverse_steps A V steps s1 else Done (False, s1))"
| "traverse_steps A V (Ignoring e # steps) s =
     bind_outcome (traverse_expr A V e s) (\<lambda>(_, s1). traverse_steps A V steps s1)"
  by pat_completeness auto

termination
proof (relation "measures [\<lambda>x. case x of Inl (A, V, e, s) \<Rightarrow> weight e | Inr (A, V, steps, s) \<Rightarrow> steps_weight steps,
    \<lambda>x. case x of Inl _ \<Rightarrow> 0 | Inr (A, V, steps, s) \<Rightarrow> Suc (length steps)]", goal_cases)
  case (2 A V sp xs s x p steps v)
  then show ?case using steps_weight_dispatch [of A "av_version V s" sp xs p] by auto
next
  case (3 A V sp xs s x p steps)
  then show ?case using steps_weight_dispatch [of A "av_version V s" sp xs p] by auto
qed (simp_all add: steps_weight_Cons le_less [symmetric]
      steps_weight_Cons(1) [of "Must e" for e, simplified] steps_weight_Cons(1) [of "Ignoring e" for e, simplified])

fun traverse_ast :: "'c ast_lib \<Rightarrow> ('c, 's) visitor \<Rightarrow> 'c sexpr list \<Rightarrow> 's \<Rightarrow> (bool \<times> 's) outcome" where
  "traverse_ast A V [] s = Done (True, s)"
| "traverse_ast A V (e # es) s =
     bind_outcome (traverse_expr A V e s) (\<lambda>(ok, s1). if ok then traverse_ast A V es s1 else Done (False, s1))"

lemma traverse_eq_steps: "traverse_ast A V es s = traverse_steps A V (map Must es) s"
  by (induction es arbitrary: s) (auto intro!: arg_cong2 [where f = bind_outcome] ext split: prod.split)

text \<open>The visitor that overrides nothing: every method has its default body.\<close>

definition default_visitor :: "clarity_version \<Rightarrow> ('c, 's) visitor" where
  "default_visitor ver =
     \<lparr> av_version = \<lambda>_. ver, av_before = \<lambda>_ s. s, av_descends = \<lambda>_. True,
       av_visit = \<lambda>_ s. (True, s), av_after = \<lambda>_ s. s \<rparr>"

end
