(* ===== verification/Ast_Events.thy ===== *)
theory Ast_Events
  imports Ast_Traverse
begin

text \<open>
  What a walk tells its visitor, as a sequence of events. The recording visitor collects it; a
  visitor that never stops a walk and keeps the version of the language, the contract of the locale
  \<open>steady_visitor\<close>, ends in the state that the recorded events lead to. An expression is visited
  exactly when it can be reached through the steps of the plans.
\<close>

section \<open>Events\<close>

datatype 'c event = Before "'c ast_visit" | At "'c ast_visit" | After "'c ast_visit"

definition recorder :: "clarity_version \<Rightarrow> ('c ast_visit \<Rightarrow> bool) \<Rightarrow> ('c, 'c event list) visitor" where
  "recorder ver d =
     \<lparr> av_version = \<lambda>_. ver, av_before = \<lambda>v t. t @ [Before v], av_descends = d,
       av_visit = \<lambda>v t. (True, t @ [At v]), av_after = \<lambda>v t. t @ [After v] \<rparr>"

lemma recorder_simps [simp]:
  "av_version (recorder ver d) t = ver" "av_before (recorder ver d) v t = t @ [Before v]"
  "av_descends (recorder ver d) = d" "av_visit (recorder ver d) v t = (True, t @ [At v])"
  "av_after (recorder ver d) v t = t @ [After v]"
  by (simp_all add: recorder_def)

fun event_step :: "('c, 's) visitor \<Rightarrow> 'c event \<Rightarrow> 's \<Rightarrow> 's" where
  "event_step V (Before v) s = av_before V v s"
| "event_step V (At v) s = snd (av_visit V v s)"
| "event_step V (After v) s = av_after V v s"

definition run_events :: "('c, 's) visitor \<Rightarrow> 'c event list \<Rightarrow> 's \<Rightarrow> 's" where
  "run_events V t s = fold (event_step V) t s"

lemma run_events_simps [simp]:
  "run_events V [] s = s"
  "run_events V (ev # t) s = run_events V t (event_step V ev s)"
  "run_events V (t @ u) s = run_events V u (run_events V t s)"
  by (simp_all add: run_events_def)

lemma dispatch_terminates: "dispatch A ver e xs \<noteq> Diverge"
  by (auto simp: dispatch_def bind_outcome_Diverge_iff plan_native_def plan_contract_def Let_def
      split: list.splits option.splits native_functions.splits contract_function.splits if_splits)

locale steady_visitor =
  fixes V :: "('c, 's) visitor" and ver :: clarity_version
  assumes never_stops: "fst (av_visit V v s)"
    and keeps_version: "av_version V s = ver \<Longrightarrow> av_version V (event_step V ev s) = ver"
begin

lemma keeps_version_run: "av_version V s = ver \<Longrightarrow> av_version V (run_events V t s) = ver"
  by (induction t arbitrary: s) (simp_all add: keeps_version)

definition shadows :: "'c event list \<Rightarrow> (bool \<times> 'c event list) outcome \<Rightarrow> 's \<Rightarrow> (bool \<times> 's) outcome \<Rightarrow> bool" where
  "shadows t r s r' \<longleftrightarrow>
     (r = Panic \<and> r' = Panic) \<or> (\<exists>u. r = Done (True, t @ u) \<and> r' = Done (True, run_events V u s))"

lemma follows_Done: "r = Done (True, t @ u) \<Longrightarrow> r' = Done (True, run_events V u s) \<Longrightarrow> shadows t r s r'"
  unfolding shadows_def by (intro disjI2 exI conjI)

lemma follows_Panic: "r = Panic \<Longrightarrow> r' = Panic \<Longrightarrow> shadows t r s r'"
  by (simp add: shadows_def)

lemma follows_cases:
  assumes "shadows t r s r'"
  obtains (panic) "r = Panic" "r' = Panic"
  | (done_) u where "r = Done (True, t @ u)" "r' = Done (True, run_events V u s)"
  using assms unfolding shadows_def by (elim disjE exE conjE)

lemma follows_bind:
  assumes "shadows t r s r'"
    and "\<And>u. r = Done (True, t @ u) \<Longrightarrow>
      shadows (t @ u) (f (True, t @ u)) (run_events V u s) (g (True, run_events V u s))"
  shows "shadows t (bind_outcome r f) s (bind_outcome r' g)"
  using assms(1)
proof (cases rule: follows_cases)
  case r: (done_ u)
  from assms(2) [OF r(1)] show ?thesis
  proof (cases rule: follows_cases)
    case (done_ u')
    then show ?thesis by (intro follows_Done [of _ _ "u @ u'"]) (simp_all add: r)
  qed (simp add: follows_Panic r)
qed (simp add: follows_Panic)

lemma follows_leaf:
  "shadows t (visit_leaf (recorder ver d) v t) s (visit_leaf V v s)"
  by (intro follows_Done [of _ _ "[At (Leaf_visit v)]"]) (simp_all add: visit_leaf_def prod_eq_iff never_stops)

lemma walk_follows_recorder:
  "R = recorder ver (av_descends V) \<Longrightarrow> av_version V s = ver \<Longrightarrow>
     shadows t (traverse_expr A R e t) s (traverse_expr A V e s)"
  "R = recorder ver (av_descends V) \<Longrightarrow> av_version V s = ver \<Longrightarrow>
     shadows t (traverse_steps A R steps t) s (traverse_steps A V steps s)"
proof (induction A R e t and A R steps t arbitrary: s and s rule: traverse_expr_traverse_steps.induct)
  case (6 A R sp xs t)
  let ?e = "SList sp xs"
  let ?run = "\<lambda>W plan x. case plan of
      None \<Rightarrow> Done (True, x)
    | Some (Bare steps) \<Rightarrow> traverse_steps A W steps x
    | Some (Plan steps v) \<Rightarrow>
        bind_outcome (traverse_steps A W (if av_descends W v then steps else []) (av_before W v x))
          (\<lambda>(ok, s1). case (if ok then av_visit W v s1 else (False, s1)) of
             (rv, s2) \<Rightarrow> Done (rv, av_after W v s2))"
  show ?case
  proof (cases "dispatch A ver ?e xs")
    case (Done plan)
    have run: "shadows t (?run R plan t) s (?run V plan s)"
    proof (cases plan)
      case None
      show ?thesis by (simp add: None shadows_def)
    next
      case (Some p)
      show ?thesis
      proof (cases p)
        case (Plan steps v)
        let ?steps = "if av_descends V v then steps else []"
        have "shadows (t @ [Before v]) (traverse_steps A R ?steps (t @ [Before v])) (av_before V v s)
            (traverse_steps A V ?steps (av_before V v s))"
          using "6.IH"(1) [of plan p steps v "av_before V v s"] "6.prems" Done Some Plan
            keeps_version [of s "Before v"] by simp
        then show ?thesis
        proof (cases rule: follows_cases)
          case panic
          then show ?thesis using "6.prems"(1) by (intro follows_Panic) (simp_all add: Some Plan)
        next
          case (done_ u)
          then show ?thesis using "6.prems"(1)
            by (intro follows_Done [of _ _ "Before v # u @ [At v, After v]"]) (simp_all add: Some Plan case_prod_beta never_stops)
        qed
      next
        case (Bare steps)
        then show ?thesis using "6.IH"(2) [of plan p steps s] "6.prems" Done Some by simp
      qed
    qed
    have "shadows t
        (bind_outcome (?run R plan t) (\<lambda>(rv, s1). if rv then visit_leaf R (Visit_list ?e xs) s1 else Done (False, s1))) s
        (bind_outcome (?run V plan s) (\<lambda>(rv, s1). if rv then visit_leaf V (Visit_list ?e xs) s1 else Done (False, s1)))"
      by (rule follows_bind [OF run]) (simp add: "6.prems"(1) follows_leaf)
    moreover have "av_version R t = ver" using "6.prems"(1) by simp
    ultimately show ?thesis using Done "6.prems"(2) by (simp only: traverse_expr.simps bind_outcome.simps)
  next
    case Panic
    then show ?thesis using "6.prems" by (simp add: shadows_def)
  next
    case Diverge
    then show ?thesis using dispatch_terminates by blast
  qed
next
  case (8 A R e steps t)
  show ?case
    unfolding traverse_steps.simps
  proof (rule follows_bind [OF "8.IH"(1) [OF "8.prems"]])
    fix u
    assume "traverse_expr A R e t = Done (True, t @ u)"
    then show "shadows (t @ u) (case (True, t @ u) of (ok, s1) \<Rightarrow> if ok then traverse_steps A R steps s1 else Done (False, s1))
        (run_events V u s) (case (True, run_events V u s) of (ok, s1) \<Rightarrow> if ok then traverse_steps A V steps s1 else Done (False, s1))"
      using "8.IH"(2) [OF _ refl TrueI "8.prems"(1) keeps_version_run [OF "8.prems"(2)]] by simp
  qed
next
  case (9 A R e steps t)
  show ?case
    unfolding traverse_steps.simps
  proof (rule follows_bind [OF "9.IH"(1) [OF "9.prems"]])
    fix u
    assume "traverse_expr A R e t = Done (True, t @ u)"
    then show "shadows (t @ u) (case (True, t @ u) of (_, s1) \<Rightarrow> traverse_steps A R steps s1)
        (run_events V u s) (case (True, run_events V u s) of (_, s1) \<Rightarrow> traverse_steps A V steps s1)"
      using "9.IH"(2) [OF _ refl "9.prems"(1) keeps_version_run [OF "9.prems"(2)]] by simp
  qed
qed (simp_all add: follows_leaf follows_Done [of _ _ "[]"])

end

section \<open>The recorded events\<close>

definition trace_expr :: "'c ast_lib \<Rightarrow> clarity_version \<Rightarrow> ('c ast_visit \<Rightarrow> bool) \<Rightarrow> 'c sexpr \<Rightarrow> 'c event list option" where
  "trace_expr A ver d e =
     (case traverse_expr A (recorder ver d) e [] of Done (_, t) \<Rightarrow> Some t | _ \<Rightarrow> None)"

definition trace_steps :: "'c ast_lib \<Rightarrow> clarity_version \<Rightarrow> ('c ast_visit \<Rightarrow> bool) \<Rightarrow> 'c step list \<Rightarrow> 'c event list option" where
  "trace_steps A ver d steps =
     (case traverse_steps A (recorder ver d) steps [] of Done (_, t) \<Rightarrow> Some t | _ \<Rightarrow> None)"

interpretation recording: steady_visitor "recorder ver d" ver for ver d
  by unfold_locales simp_all

context steady_visitor
begin

lemma traverse_expr_trace:
  assumes "av_version V s = ver"
  shows "traverse_expr A V e s =
    (case trace_expr A ver (av_descends V) e of Some t \<Rightarrow> Done (True, run_events V t s) | None \<Rightarrow> Panic)"
  by (cases rule: follows_cases [OF walk_follows_recorder(1) [OF refl assms, of "[]" A e]])
    (simp_all add: trace_expr_def)

lemma traverse_steps_trace:
  assumes "av_version V s = ver"
  shows "traverse_steps A V steps s =
    (case trace_steps A ver (av_descends V) steps of Some t \<Rightarrow> Done (True, run_events V t s) | None \<Rightarrow> Panic)"
  by (cases rule: follows_cases [OF walk_follows_recorder(2) [OF refl assms, of "[]" A steps]])
    (simp_all add: trace_steps_def)

end

lemma event_step_recorder [simp]: "event_step (recorder ver d) ev t = t @ [ev]"
  by (cases ev) simp_all

lemma run_events_recorder [simp]: "run_events (recorder ver d) u t = t @ u"
  by (induction u arbitrary: t) simp_all

lemma record_expr:
  "traverse_expr A (recorder ver d) e t =
     (case trace_expr A ver d e of Some u \<Rightarrow> Done (True, t @ u) | None \<Rightarrow> Panic)"
  using recording.traverse_expr_trace [of ver d t A e] by (simp split: option.split)

lemma record_steps:
  "traverse_steps A (recorder ver d) steps t =
     (case trace_steps A ver d steps of Some u \<Rightarrow> Done (True, t @ u) | None \<Rightarrow> Panic)"
  using recording.traverse_steps_trace [of ver d t A steps] by (simp split: option.split)

lemma trace_steps_simps:
  "trace_steps A ver d [] = Some []"
  "trace_steps A ver d (st # steps) =
     (case trace_expr A ver d (step_expr st) of
        None \<Rightarrow> None
      | Some t \<Rightarrow> map_option ((@) t) (trace_steps A ver d steps))"
proof -
  show "trace_steps A ver d [] = Some []" by (simp add: trace_steps_def)
  have "traverse_steps A (recorder ver d) (st # steps) [] =
      bind_outcome (traverse_expr A (recorder ver d) (step_expr st) []) (\<lambda>(_, t). traverse_steps A (recorder ver d) steps t)"
    by (cases st) (simp_all only: traverse_steps.simps step_expr.simps record_expr split: option.split, simp_all)
  then show "trace_steps A ver d (st # steps) =
     (case trace_expr A ver d (step_expr st) of
        None \<Rightarrow> None
      | Some t \<Rightarrow> map_option ((@) t) (trace_steps A ver d steps))"
    unfolding trace_steps_def [of A ver d "st # steps"] by (simp add: record_expr record_steps split: option.split)
qed

fun walked_steps :: "('c ast_visit \<Rightarrow> bool) \<Rightarrow> 'c plan \<Rightarrow> 'c step list" where
  "walked_steps d (Plan steps v) = (if d v then steps else [])"
| "walked_steps d (Bare steps) = steps"

fun plan_events :: "'c plan \<Rightarrow> 'c event list \<Rightarrow> 'c event list" where
  "plan_events (Plan steps v) t = Before v # t @ [At v, After v]"
| "plan_events (Bare steps) t = t"

lemma trace_expr_SList:
  "trace_expr A ver d (SList sp xs) =
     (case dispatch A ver (SList sp xs) xs of
        Done None \<Rightarrow> Some [At (Leaf_visit (Visit_list (SList sp xs) xs))]
      | Done (Some p) \<Rightarrow>
          map_option (\<lambda>t. plan_events p t @ [At (Leaf_visit (Visit_list (SList sp xs) xs))])
            (trace_steps A ver d (walked_steps d p))
      | _ \<Rightarrow> None)"
proof (cases "dispatch A ver (SList sp xs) xs")
  case (Done plan)
  show ?thesis
  proof (cases plan)
    case (Some p)
    then show ?thesis
      by (cases p) (simp_all add: Done trace_expr_def record_steps visit_leaf_def split: option.split)
  qed (simp add: Done trace_expr_def visit_leaf_def)
qed (simp_all add: trace_expr_def)

lemma trace_expr_leaf:
  "trace_expr A ver d (AtomValue sp v) = Some [At (Leaf_visit (Visit_atom_value (AtomValue sp v) v))]"
  "trace_expr A ver d (Atom sp n) = Some [At (Leaf_visit (Visit_atom (Atom sp n) n))]"
  "trace_expr A ver d (LiteralValue sp v) = Some [At (Leaf_visit (Visit_literal_value (LiteralValue sp v) v))]"
  "trace_expr A ver d (Field sp t) = Some [At (Leaf_visit (Visit_field (Field sp t) t))]"
  "trace_expr A ver d (TraitReference sp n td) =
     Some [At (Leaf_visit (Visit_trait_reference (TraitReference sp n td) n td))]"
  by (simp_all add: trace_expr_def visit_leaf_def)

lemmas trace_simps = trace_steps_simps trace_expr_leaf trace_expr_SList

section \<open>What is visited\<close>

text \<open>The expressions a walk gets to, and the visits each of them is due.\<close>

inductive walked :: "'c ast_lib \<Rightarrow> clarity_version \<Rightarrow> ('c ast_visit \<Rightarrow> bool) \<Rightarrow> 'c sexpr \<Rightarrow> 'c sexpr \<Rightarrow> bool"
  for A ver d where
  walked_refl: "walked A ver d e e"
| walked_step: "dispatch A ver (SList sp xs) xs = Done (Some p) \<Longrightarrow> st \<in> set (walked_steps d p) \<Longrightarrow>
    walked A ver d (step_expr st) e' \<Longrightarrow> walked A ver d (SList sp xs) e'"

inductive_cases walked_list_cases: "walked A ver d (SList sp xs) e'"

fun visits_due :: "'c ast_lib \<Rightarrow> clarity_version \<Rightarrow> 'c sexpr \<Rightarrow> 'c ast_visit set" where
  "visits_due A ver (AtomValue sp v) = {Leaf_visit (Visit_atom_value (AtomValue sp v) v)}"
| "visits_due A ver (Atom sp n) = {Leaf_visit (Visit_atom (Atom sp n) n)}"
| "visits_due A ver (LiteralValue sp v) = {Leaf_visit (Visit_literal_value (LiteralValue sp v) v)}"
| "visits_due A ver (Field sp t) = {Leaf_visit (Visit_field (Field sp t) t)}"
| "visits_due A ver (TraitReference sp n t) = {Leaf_visit (Visit_trait_reference (TraitReference sp n t) n t)}"
| "visits_due A ver (SList sp xs) =
     insert (Leaf_visit (Visit_list (SList sp xs) xs))
       (case dispatch A ver (SList sp xs) xs of Done (Some (Plan steps v)) \<Rightarrow> {v} | _ \<Rightarrow> {})"

lemma walked_leaf: "walked A ver d e e' \<Longrightarrow> ast_match_list e = None \<Longrightarrow> e' = e"
  by (induction rule: walked.induct) auto

lemma trace_steps_Some:
  assumes "trace_steps A ver d steps = Some t"
  shows "At v \<in> set t \<longleftrightarrow> (\<exists>st \<in> set steps. \<exists>u. trace_expr A ver d (step_expr st) = Some u \<and> At v \<in> set u)"
    and "st \<in> set steps \<Longrightarrow> trace_expr A ver d (step_expr st) \<noteq> None"
  using assms by (induction steps arbitrary: t) (auto simp: trace_steps_simps split: option.splits)

lemma trace_steps_None:
  "trace_steps A ver d steps = None \<longleftrightarrow> (\<exists>st \<in> set steps. trace_expr A ver d (step_expr st) = None)"
  by (induction steps) (auto simp: trace_steps_simps split: option.splits)

lemma walked_steps_smaller:
  assumes "dispatch A ver (SList sp xs) xs = Done (Some p)" and "st \<in> set (walked_steps d p)"
  shows "weight (step_expr st) < weight (SList sp xs)"
proof -
  have "st \<in> set (plan_steps p)" using assms(2) by (cases p) (auto split: if_splits)
  with dispatch_within [OF assms(1)] show ?thesis by (simp add: within_def)
qed

lemma walked_list_iff:
  "dispatch A ver (SList sp xs) xs = Done (Some p) \<Longrightarrow>
     walked A ver d (SList sp xs) e' \<longleftrightarrow>
       e' = SList sp xs \<or> (\<exists>st \<in> set (walked_steps d p). walked A ver d (step_expr st) e')"
  by (auto elim: walked_list_cases intro: walked_refl walked_step)

lemma visited_iff_due:
  "trace_expr A ver d e = Some t \<Longrightarrow>
     At v \<in> set t \<longleftrightarrow> (\<exists>e'. walked A ver d e e' \<and> v \<in> visits_due A ver e')"
proof (induction e arbitrary: t rule: measure_induct_rule [of weight])
  case (less e)
  show ?case
  proof (cases "ast_match_list e")
    case None
    then have "At v \<in> set t \<longleftrightarrow> v \<in> visits_due A ver e"
      using less.prems by (cases e) (auto simp: trace_expr_leaf)
    with None walked_leaf walked_refl show ?thesis by metis
  next
    case (Some xs)
    then obtain sp where e: "e = SList sp xs" by (auto simp: match_Some)
    let ?here = "Leaf_visit (Visit_list e xs)"
    show ?thesis
    proof (cases "dispatch A ver e xs")
      case (Done plan)
      show ?thesis
      proof (cases plan)
        case None
        then have w: "walked A ver d e e' \<longleftrightarrow> e' = e" for e'
          using Done by (auto simp: e elim: walked_list_cases intro: walked_refl)
        show ?thesis
          using less.prems None Done by (auto simp: w [unfolded e] e trace_expr_SList)
      next
        case (Some p)
        from less.prems Done Some obtain u where
          u: "trace_steps A ver d (walked_steps d p) = Some u" and t: "t = plan_events p u @ [At ?here]"
          by (auto simp: e trace_expr_SList)
        have IH: "At v \<in> set u' \<longleftrightarrow> (\<exists>e'. walked A ver d (step_expr st) e' \<and> v \<in> visits_due A ver e')"
          if "st \<in> set (walked_steps d p)" "trace_expr A ver d (step_expr st) = Some u'" for st u'
          using less.IH [of "step_expr st" u'] walked_steps_smaller [of A ver sp xs p st d] that Done Some
          by (simp add: e)
        have below: "At v \<in> set u \<longleftrightarrow>
            (\<exists>st \<in> set (walked_steps d p). \<exists>e'. walked A ver d (step_expr st) e' \<and> v \<in> visits_due A ver e')"
          using trace_steps_Some [OF u] IH by (metis option.exhaust)
        have walked: "walked A ver d e e' \<longleftrightarrow>
            e' = e \<or> (\<exists>st \<in> set (walked_steps d p). walked A ver d (step_expr st) e')" for e'
          using walked_list_iff Done Some by (simp add: e)
        have "At v \<in> set t \<longleftrightarrow> At v \<in> set u \<or> v \<in> visits_due A ver e"
          using Done Some by (cases p) (auto simp: e t)
        with below walked show ?thesis by metis
      qed
    qed (use less.prems in \<open>simp_all add: e trace_expr_SList\<close>)
  qed
qed

lemma dispatch_panics_iff:
  "dispatch A ver e xs = Panic \<longleftrightarrow>
     (\<exists>sp n. xs = [Atom sp n] \<and> al_define A n = None \<and> al_native A ver n = Some (Contract_fn Nf_AsContractSafe))"
  by (auto simp: dispatch_def bind_outcome_Panic_iff plan_native_def plan_contract_def Let_def match_Some
      split: list.splits option.splits native_functions.splits contract_function.splits if_splits)

fun panics_at :: "'c ast_lib \<Rightarrow> clarity_version \<Rightarrow> 'c sexpr \<Rightarrow> bool" where
  "panics_at A ver (SList sp xs) = (dispatch A ver (SList sp xs) xs = Panic)"
| "panics_at A ver _ = False"

lemma panics_iff:
  "trace_expr A ver d e = None \<longleftrightarrow>
     (\<exists>e'. walked A ver d e e' \<and> panics_at A ver e')"
proof (induction e rule: measure_induct_rule [of weight])
  case (less e)
  show ?case
  proof (cases "ast_match_list e")
    case None
    then have "\<not> panics_at A ver e'" if "walked A ver d e e'" for e'
      using walked_leaf [OF that] by (cases e) auto
    moreover have "trace_expr A ver d e \<noteq> None" using None by (cases e) (simp_all add: trace_expr_leaf)
    ultimately show ?thesis by blast
  next
    case (Some xs)
    then obtain sp where e: "e = SList sp xs" by (auto simp: match_Some)
    show ?thesis
    proof (cases "dispatch A ver e xs")
      case (Done plan)
      show ?thesis
      proof (cases plan)
        case None
        then have w: "walked A ver d e e' \<longleftrightarrow> e' = e" for e'
          using Done by (auto simp: e elim: walked_list_cases intro: walked_refl)
        show ?thesis using None Done by (auto simp: w [unfolded e] e trace_expr_SList)
      next
        case (Some p)
        have "trace_expr A ver d e = None \<longleftrightarrow>
            (\<exists>st \<in> set (walked_steps d p). trace_expr A ver d (step_expr st) = None)"
          using Done Some by (simp add: e trace_expr_SList trace_steps_None)
        also have "\<dots> \<longleftrightarrow> (\<exists>st \<in> set (walked_steps d p). \<exists>e'. walked A ver d (step_expr st) e' \<and> panics_at A ver e')"
          using less.IH walked_steps_smaller [of A ver sp xs p _ d] Done Some by (simp add: e)
        also have "\<dots> \<longleftrightarrow> (\<exists>e'. walked A ver d e e' \<and> panics_at A ver e')"
        proof -
          have w: "walked A ver d e e' \<longleftrightarrow> e' = e \<or> (\<exists>st \<in> set (walked_steps d p). walked A ver d (step_expr st) e')" for e'
            using walked_list_iff Done Some by (simp add: e)
          have "\<not> panics_at A ver e" using Done by (simp add: e)
          then show ?thesis unfolding w by metis
        qed
        finally show ?thesis .
      qed
    next
      case Panic
      then show ?thesis by (auto simp: e trace_expr_SList intro: walked_refl)
    next
      case Diverge
      then show ?thesis using dispatch_terminates by blast
    qed
  qed
qed

section \<open>Walking a contract\<close>

definition trace :: "'c ast_lib \<Rightarrow> clarity_version \<Rightarrow> ('c ast_visit \<Rightarrow> bool) \<Rightarrow> 'c sexpr list \<Rightarrow> 'c event list option" where
  "trace A ver d es = trace_steps A ver d (map Must es)"

context steady_visitor
begin

lemma traverse_trace:
  assumes "av_version V s = ver"
  shows "traverse_ast A V es s =
    (case trace A ver (av_descends V) es of Some t \<Rightarrow> Done (True, run_events V t s) | None \<Rightarrow> Panic)"
  by (simp add: traverse_eq_steps trace_def traverse_steps_trace [OF assms])

end

lemma visited_in_contract:
  assumes "trace A ver d es = Some t"
  shows "At v \<in> set t \<longleftrightarrow> (\<exists>e \<in> set es. \<exists>e'. walked A ver d e e' \<and> v \<in> visits_due A ver e')"
proof -
  have "trace_expr A ver d e \<noteq> None" if "e \<in> set es" for e
    using trace_steps_Some(2) [OF assms [unfolded trace_def], of "Must e"] that by auto
  then show ?thesis
    using trace_steps_Some(1) [OF assms [unfolded trace_def], of v] visited_iff_due by fastforce
qed

end
