(* ===== verification/Dependency_Detector.thy ===== *)
theory Dependency_Detector
  imports Ast_Events "HOL-Library.Product_Lexorder"
begin

text \<open>
  \<^verbatim>\<open>ASTDependencyDetector\<close> of \<^verbatim>\<open>components/clarity-repl/src/analysis/ast_dependency_detector.rs\<close>:
  which contracts a contract depends on, read off its syntax tree. A call whose callee has not been
  seen yet is kept pending and looked at again when the callee is defined; what is still pending at
  the end is unresolved.

  The type parsers of the Clarity crate and the name of a contract are the fields of
  \<open>detector_lib\<close>; of a type the detector only reads where traits occur in it, of a function
  signature its argument types.
\<close>

section \<open>Types and the contracts among the arguments\<close>

datatype type_signature =
    Callable_Trait
  | TraitReferenceType
  | OptionalType type_signature
  | ResponseType type_signature type_signature
  | TupleType "(clarity_name \<times> type_signature) list"
  | ListType type_signature
  | Other_Type string

definition BoolType :: type_signature where
  "BoolType = Other_Type ''bool''"

type_synonym function_signature = "type_signature list"

type_synonym trait_signature = "(clarity_name, function_signature) btree_map"

record 'c detector_lib = "'c ast_lib" +
  dl_parse_type :: "'c sexpr \<Rightarrow> type_signature option"
  dl_parse_trait :: "'c sexpr list \<Rightarrow> clarity_version \<Rightarrow> trait_signature option"
  dl_name :: "'c \<Rightarrow> string"

lemma weight_element: "get_arg (list_elements e) i = Some x \<Longrightarrow> weight x < weight e"
  using weight_list_elements [of x e] by (auto simp: get_arg_def split: if_splits)

lemma weights_rest:
  "weights (drop (Suc 0) (list_elements e)) < weight e \<or>
     weights (drop (Suc 0) (list_elements e)) = weight e \<and> length (list_elements e) \<le> Suc 0"
proof -
  have "weights (drop k xs) \<le> weights xs" for k and xs :: "'a sexpr list"
    by (metis append_take_drop_id map_append sum_list.append le_add2)
  then show ?thesis by (cases e) (auto simp: list_elements_def less_Suc_eq_le)
qed

function (sequential)
  deep_check_callee_type :: "type_signature \<Rightarrow> 'c::linorder sexpr \<Rightarrow> 'c btree_set \<Rightarrow> 'c btree_set"
  and deep_check_tuple :: "(clarity_name \<times> type_signature) list \<Rightarrow> 'c sexpr list \<Rightarrow> 'c btree_set \<Rightarrow> 'c btree_set"
  and deep_check_list :: "type_signature \<Rightarrow> 'c sexpr list \<Rightarrow> 'c btree_set \<Rightarrow> 'c btree_set"
where
  "deep_check_callee_type Callable_Trait e ds =
     (case match_literal_value e of Some (Contract_Principal c) \<Rightarrow> bs_insert c ds | _ \<Rightarrow> ds)"
| "deep_check_callee_type TraitReferenceType e ds =
     (case match_literal_value e of Some (Contract_Principal c) \<Rightarrow> bs_insert c ds | _ \<Rightarrow> ds)"
| "deep_check_callee_type (OptionalType t) e ds =
     (case get_arg (list_elements e) 1 of Some e' \<Rightarrow> deep_check_callee_type t e' ds | None \<Rightarrow> ds)"
| "deep_check_callee_type (ResponseType t u) e ds =
     (let ds' = (case get_arg (list_elements e) 1 of Some e' \<Rightarrow> deep_check_callee_type t e' ds | None \<Rightarrow> ds) in
      case get_arg (list_elements e) 2 of Some e' \<Rightarrow> deep_check_callee_type u e' ds' | None \<Rightarrow> ds')"
| "deep_check_callee_type (TupleType m) e ds = deep_check_tuple m (drop 1 (list_elements e)) ds"
| "deep_check_callee_type (ListType t) e ds = deep_check_list t (drop 1 (list_elements e)) ds"
| "deep_check_callee_type (Other_Type _) e ds = ds"
| "deep_check_tuple m [] ds = ds"
| "deep_check_tuple m (kv # es) ds =
     deep_check_tuple m es
       (case (get_arg (list_elements kv) 0, get_arg (list_elements kv) 1) of
          (Some k, Some v) \<Rightarrow>
            (case ast_match_atom k of
               Some n \<Rightarrow> (case map_of m n of Some t \<Rightarrow> deep_check_callee_type t v ds | None \<Rightarrow> ds)
             | None \<Rightarrow> ds)
        | _ \<Rightarrow> ds)"
| "deep_check_list t [] ds = ds"
| "deep_check_list t (e # es) ds = deep_check_list t es (deep_check_callee_type t e ds)"
  by pat_completeness auto

termination
proof (relation "measures [\<lambda>x. case x of Inl (_, e, _) \<Rightarrow> weight e | Inr (Inl (_, es, _)) \<Rightarrow> weights es
      | Inr (Inr (_, es, _)) \<Rightarrow> weights es,
    \<lambda>x. case x of Inl _ \<Rightarrow> 1 | Inr (Inl (_, es, _)) \<Rightarrow> 2 * length es | Inr (Inr (_, es, _)) \<Rightarrow> 2 * length es]", goal_cases)
  case (5 m e ds)
  then show ?case using weights_rest [of e] by auto
next
  case (6 t e ds)
  then show ?case using weights_rest [of e] by auto
next
  case (7 m kv es ds)
  then show ?case by (auto dest!: sym [of "Some _"] weight_element)
qed (auto dest!: weight_element simp: le_less [symmetric])

text \<open>What the detector remembers.\<close>

record 'c detector =
  dd_dependencies :: "('c, 'c dependency_set) btree_map"
  dd_clarity_version :: "clarity_version option"
  dd_contract :: "'c option"
  dd_functions :: "('c \<times> clarity_name, type_signature list) btree_map"
  dd_traits :: "('c \<times> clarity_name, trait_signature) btree_map"
  dd_constants :: "('c \<times> clarity_name, 'c) btree_map"
  dd_pending_functions :: "('c \<times> clarity_name, ('c \<times> 'c sexpr list) list) btree_map"
  dd_pending_traits :: "('c trait_identifier, ('c \<times> clarity_name \<times> 'c sexpr list) list) btree_map"
  dd_params :: "'c typed_var list option"
  dd_top_level :: bool
  dd_preloaded :: "('c, clarity_version \<times> 'c sexpr list) btree_map"

section \<open>Recording dependencies\<close>

definition is_placeholder :: "'c detector_lib \<Rightarrow> 'c \<Rightarrow> bool" where
  "is_placeholder L c \<longleftrightarrow> take 2 (dl_name L c) = ''__''"

definition add_dependency :: "'c::linorder detector_lib \<Rightarrow> 'c \<Rightarrow> 'c \<Rightarrow> 'c detector \<Rightarrow> 'c detector" where
  "add_dependency L source target s =
     (if bt_get (dd_preloaded s) source \<noteq> None then s
      else if is_placeholder L target then s
      else s\<lparr> dd_dependencies := bt_insert source
             (dependency_set_add target (dd_top_level s)
               (case bt_get (dd_dependencies s) source of Some ds \<Rightarrow> ds | None \<Rightarrow> []))
             (dd_dependencies s) \<rparr>)"

definition check_callee_type :: "type_signature list \<Rightarrow> 'c::linorder sexpr list \<Rightarrow> 'c btree_set" where
  "check_callee_type arg_types args =
     fold (\<lambda>(i, t) ds. case get_arg args i of Some e \<Rightarrow> deep_check_callee_type t e ds | None \<Rightarrow> ds)
       (enumerate 0 arg_types) []"

definition check_trait_dependencies :: "trait_signature \<Rightarrow> clarity_name \<Rightarrow> 'c::linorder sexpr list \<Rightarrow> 'c btree_set" where
  "check_trait_dependencies trait_definition function_name args =
     (case bt_get trait_definition function_name of
        None \<Rightarrow> []
      | Some signature \<Rightarrow> check_callee_type signature args)"

definition add_dependencies :: "'c::linorder detector_lib \<Rightarrow> 'c \<Rightarrow> 'c list \<Rightarrow> 'c detector \<Rightarrow> 'c detector" where
  "add_dependencies L source targets s = fold (add_dependency L source) targets s"

definition add_defined_function :: "'c::linorder detector_lib \<Rightarrow> 'c \<Rightarrow> clarity_name \<Rightarrow> type_signature list \<Rightarrow>
    'c detector \<Rightarrow> 'c detector" where
  "add_defined_function L contract name param_types s =
     (let s' = (case bt_get (dd_pending_functions s) (contract, name) of
                  None \<Rightarrow> s
                | Some pending \<Rightarrow>
                    fold (\<lambda>(caller, args). add_dependencies L caller (check_callee_type param_types args)) pending
                      (s\<lparr> dd_pending_functions := bt_remove (contract, name) (dd_pending_functions s) \<rparr>)) in
      s'\<lparr> dd_functions := bt_insert (contract, name) param_types (dd_functions s') \<rparr>)"

definition add_pending_function_check :: "'c::linorder \<Rightarrow> 'c \<times> clarity_name \<Rightarrow> 'c sexpr list \<Rightarrow>
    'c detector \<Rightarrow> 'c detector" where
  "add_pending_function_check caller callee args s =
     s\<lparr> dd_pending_functions := bt_insert callee
          (case bt_get (dd_pending_functions s) callee of
             Some checks \<Rightarrow> checks @ [(caller, args)]
           | None \<Rightarrow> [(caller, args)])
          (dd_pending_functions s) \<rparr>"

definition add_defined_trait :: "'c::linorder detector_lib \<Rightarrow> 'c \<Rightarrow> clarity_name \<Rightarrow> trait_signature \<Rightarrow>
    'c detector \<Rightarrow> 'c detector" where
  "add_defined_trait L contract name trait_definition s =
     (let s' = (case bt_get (dd_pending_traits s) (name, contract) of
                  None \<Rightarrow> s
                | Some pending \<Rightarrow>
                    fold (\<lambda>(caller, function, args).
                        add_dependencies L caller (check_trait_dependencies trait_definition function args)) pending
                      (s\<lparr> dd_pending_traits := bt_remove (name, contract) (dd_pending_traits s) \<rparr>)) in
      s'\<lparr> dd_traits := bt_insert (contract, name) trait_definition (dd_traits s') \<rparr>)"

definition add_defined_contract_constant :: "'c::linorder \<Rightarrow> clarity_name \<Rightarrow> 'c \<Rightarrow> 'c detector \<Rightarrow> 'c detector" where
  "add_defined_contract_constant contract name target s =
     s\<lparr> dd_constants := bt_insert (contract, name) target (dd_constants s) \<rparr>"

definition add_pending_trait_check :: "'c::linorder \<Rightarrow> 'c trait_identifier \<Rightarrow> clarity_name \<Rightarrow> 'c sexpr list \<Rightarrow>
    'c detector \<Rightarrow> 'c detector" where
  "add_pending_trait_check caller callee function args s =
     s\<lparr> dd_pending_traits := bt_insert callee
          (case bt_get (dd_pending_traits s) callee of
             Some checks \<Rightarrow> checks @ [(caller, function, args)]
           | None \<Rightarrow> [(caller, function, args)])
          (dd_pending_traits s) \<rparr>"

fun find_param :: "'c typed_var list \<Rightarrow> clarity_name \<Rightarrow> 'c trait_identifier option" where
  "find_param [] name = None"
| "find_param (p # ps) name =
     (if tv_name p = name then
        (case tv_type_expr p of
           TraitReference _ _ (Trait_Defined t) \<Rightarrow> Some t
         | TraitReference _ _ (Trait_Imported t) \<Rightarrow> Some t
         | _ \<Rightarrow> None)
      else find_param ps name)"

definition get_param_trait :: "'c detector \<Rightarrow> clarity_name \<Rightarrow> 'c trait_identifier option" where
  "get_param_trait s name = (case dd_params s of None \<Rightarrow> None | Some params \<Rightarrow> find_param params name)"

definition current_contract :: "'c detector \<Rightarrow> 'c" where
  "current_contract s = the (dd_contract s)"

definition get_contract_constant :: "'c detector \<Rightarrow> clarity_name \<Rightarrow> 'c option" where
  "get_contract_constant s name = bt_get (dd_constants s) (current_contract s, name)"

section \<open>The visits of the detector\<close>

text \<open>
  The contract being walked is set before every walk, so \<^verbatim>\<open>current_contract.unwrap()\<close> never fails.
\<close>

definition param_types :: "'c detector_lib \<Rightarrow> 'c typed_var list option \<Rightarrow> type_signature list" where
  "param_types L parameters =
     (case parameters of
        Some ps \<Rightarrow> map (\<lambda>v. case dl_parse_type L (tv_type_expr v) of Some t \<Rightarrow> t | None \<Rightarrow> BoolType) ps
      | None \<Rightarrow> [])"

definition visit_define_function :: "'c::linorder detector_lib \<Rightarrow> clarity_name \<Rightarrow> 'c typed_var list option \<Rightarrow>
    'c detector \<Rightarrow> 'c detector" where
  "visit_define_function L name parameters s =
     add_defined_function L (current_contract s) name (param_types L parameters) s"

definition visit_define_trait :: "'c::linorder detector_lib \<Rightarrow> clarity_name \<Rightarrow> 'c sexpr list \<Rightarrow>
    'c detector \<Rightarrow> 'c detector" where
  "visit_define_trait L name functions s =
     (case dl_parse_trait L functions (the (dd_clarity_version s)) of
        Some trait_definition \<Rightarrow> add_defined_trait L (current_contract s) name trait_definition s
      | None \<Rightarrow> s)"

definition visit_static_contract_call :: "'c::linorder detector_lib \<Rightarrow> 'c \<Rightarrow> clarity_name \<Rightarrow> 'c sexpr list \<Rightarrow>
    'c detector \<Rightarrow> 'c detector" where
  "visit_static_contract_call L contract function args s =
     (let s' = add_dependency L (current_contract s) contract s in
      case bt_get (dd_functions s') (contract, function) of
        Some arg_types \<Rightarrow> add_dependencies L (current_contract s) (check_callee_type arg_types args) s'
      | None \<Rightarrow> add_pending_function_check (current_contract s) (contract, function) args s')"

definition visit_dynamic_contract_call :: "'c::linorder detector_lib \<Rightarrow> 'c sexpr \<Rightarrow> clarity_name \<Rightarrow>
    'c sexpr list \<Rightarrow> 'c detector \<Rightarrow> 'c detector" where
  "visit_dynamic_contract_call L callable_expr function args s =
     (let callable = (case ast_match_atom callable_expr of Some n \<Rightarrow> n | None \<Rightarrow> ''placeholder'') in
      case get_param_trait s callable of
        Some t \<Rightarrow>
          (case bt_get (dd_traits s) (trait_contract t, trait_name t) of
             Some trait_definition \<Rightarrow>
               add_dependencies L (current_contract s) (check_trait_dependencies trait_definition function args) s
           | None \<Rightarrow> add_pending_trait_check (current_contract s) t function args s)
      | None \<Rightarrow>
          (case get_contract_constant s callable of
             Some c \<Rightarrow> add_dependency L (current_contract s) c s
           | None \<Rightarrow> s))"

definition visit_call_user_defined :: "'c::linorder detector_lib \<Rightarrow> clarity_name \<Rightarrow> 'c sexpr list \<Rightarrow>
    'c detector \<Rightarrow> 'c detector" where
  "visit_call_user_defined L name args s =
     (case bt_get (dd_functions s) (current_contract s, name) of
        Some arg_types \<Rightarrow> add_dependencies L (current_contract s) (check_callee_type arg_types args) s
      | None \<Rightarrow> s)"

definition visit_trait_use :: "'c::linorder detector_lib \<Rightarrow> 'c trait_identifier \<Rightarrow> 'c detector \<Rightarrow> 'c detector" where
  "visit_trait_use L t s = add_dependency L (current_contract s) (trait_contract t) s"

definition visit_define_constant :: "clarity_name \<Rightarrow> 'c::linorder sexpr \<Rightarrow> 'c detector \<Rightarrow> 'c detector" where
  "visit_define_constant name val s =
     (case match_literal_value val of
        Some (Contract_Principal c) \<Rightarrow> add_defined_contract_constant (current_contract s) name c s
      | _ \<Rightarrow> s)"

fun detector_visit :: "'c::linorder detector_lib \<Rightarrow> 'c ast_visit \<Rightarrow> 'c detector \<Rightarrow> 'c detector" where
  "detector_visit L (Define_visit (Visit_define_private _ name parameters _)) s = visit_define_function L name parameters s"
| "detector_visit L (Define_visit (Visit_define_read_only _ name parameters _)) s = visit_define_function L name parameters s"
| "detector_visit L (Define_visit (Visit_define_public _ name parameters _)) s = visit_define_function L name parameters s"
| "detector_visit L (Define_visit (Visit_define_trait _ name functions)) s = visit_define_trait L name functions s"
| "detector_visit L (Define_visit (Visit_use_trait _ _ t)) s = visit_trait_use L t s"
| "detector_visit L (Define_visit (Visit_impl_trait _ t)) s = visit_trait_use L t s"
| "detector_visit L (Define_visit (Visit_define_constant _ name val)) s = visit_define_constant name val s"
| "detector_visit L (Chain_visit (Visit_static_contract_call _ c f args)) s = visit_static_contract_call L c f args s"
| "detector_visit L (Chain_visit (Visit_dynamic_contract_call _ t f args)) s = visit_dynamic_contract_call L t f args s"
| "detector_visit L (Control_visit (Visit_call_user_defined _ name args)) s = visit_call_user_defined L name args s"
| "detector_visit L _ s = s"

text \<open>Around the body of a function, its parameters are known and the walk is not at top level.\<close>

fun defined_parameters :: "'c ast_visit \<Rightarrow> 'c typed_var list option option" where
  "defined_parameters (Define_visit (Visit_define_private _ _ parameters _)) = Some parameters"
| "defined_parameters (Define_visit (Visit_define_read_only _ _ parameters _)) = Some parameters"
| "defined_parameters (Define_visit (Visit_define_public _ _ parameters _)) = Some parameters"
| "defined_parameters _ = None"

definition enter_function :: "'c ast_visit \<Rightarrow> 'c detector \<Rightarrow> 'c detector" where
  "enter_function v s =
     (case defined_parameters v of
        Some parameters \<Rightarrow> s\<lparr> dd_params := parameters, dd_top_level := False \<rparr>
      | None \<Rightarrow> s)"

definition leave_function :: "'c ast_visit \<Rightarrow> 'c detector \<Rightarrow> 'c detector" where
  "leave_function v s =
     (case defined_parameters v of
        Some _ \<Rightarrow> s\<lparr> dd_params := None, dd_top_level := True \<rparr>
      | None \<Rightarrow> s)"

definition DEFAULT_CLARITY_VERSION :: clarity_version where
  "DEFAULT_CLARITY_VERSION = 6"

definition detector_visitor :: "'c::linorder detector_lib \<Rightarrow> ('c, 'c detector) visitor" where
  "detector_visitor L =
     \<lparr> av_version = \<lambda>s. (case dd_clarity_version s of Some v \<Rightarrow> v | None \<Rightarrow> DEFAULT_CLARITY_VERSION),
       av_before = enter_function, av_descends = \<lambda>_. True,
       av_visit = \<lambda>v s. (True, detector_visit L v s), av_after = leave_function \<rparr>"

text \<open>The visitor of the preloaded contracts only records signatures, and has a contract of its own.\<close>

fun preloaded_visit :: "'c::linorder detector_lib \<Rightarrow> 'c \<Rightarrow> clarity_version \<Rightarrow> 'c ast_visit \<Rightarrow> 'c detector \<Rightarrow> 'c detector" where
  "preloaded_visit L c ver (Define_visit (Visit_define_read_only _ name parameters _)) s =
     add_defined_function L c name (param_types L parameters) s"
| "preloaded_visit L c ver (Define_visit (Visit_define_public _ name parameters _)) s =
     add_defined_function L c name (param_types L parameters) s"
| "preloaded_visit L c ver (Define_visit (Visit_define_trait _ name functions)) s =
     (case dl_parse_trait L functions ver of
        Some trait_definition \<Rightarrow> add_defined_trait L c name trait_definition s
      | None \<Rightarrow> s)"
| "preloaded_visit L c ver _ s = s"

fun preloaded_descends :: "'c ast_visit \<Rightarrow> bool" where
  "preloaded_descends (Define_visit (Visit_define_read_only _ _ _ _)) = False"
| "preloaded_descends (Define_visit (Visit_define_public _ _ _ _)) = False"
| "preloaded_descends (Define_visit (Visit_define_trait _ _ _)) = False"
| "preloaded_descends _ = True"

definition preloaded_visitor :: "'c::linorder detector_lib \<Rightarrow> 'c \<Rightarrow> clarity_version \<Rightarrow> ('c, 'c detector) visitor" where
  "preloaded_visitor L c ver =
     \<lparr> av_version = \<lambda>_. ver, av_before = \<lambda>_ s. s, av_descends = preloaded_descends,
       av_visit = \<lambda>v s. (True, preloaded_visit L c ver v s), av_after = \<lambda>_ s. s \<rparr>"

section \<open>Detecting the dependencies of a deployment\<close>

type_synonym 'c contract_asts = "('c, clarity_version \<times> 'c sexpr list) btree_map"

fun walk_preloaded :: "'c::linorder detector_lib \<Rightarrow> 'c contract_asts \<Rightarrow> 'c detector \<Rightarrow> 'c detector outcome" where
  "walk_preloaded L [] s = Done s"
| "walk_preloaded L ((c, ver, exprs) # m) s =
     bind_outcome (traverse_ast (ast_lib.truncate L) (preloaded_visitor L c ver) exprs s)
       (\<lambda>(_, s'). walk_preloaded L m s')"

fun walk_contracts :: "'c::linorder detector_lib \<Rightarrow> 'c contract_asts \<Rightarrow> 'c detector \<Rightarrow> 'c detector outcome" where
  "walk_contracts L [] s = Done s"
| "walk_contracts L ((c, ver, exprs) # m) s =
     bind_outcome
       (traverse_ast (ast_lib.truncate L) (detector_visitor L) exprs
         (s\<lparr> dd_dependencies := bt_insert c [] (dd_dependencies s),
             dd_clarity_version := Some ver, dd_contract := Some c \<rparr>))
       (\<lambda>(_, s'). walk_contracts L m s')"

definition detector_new :: "'c contract_asts \<Rightarrow> 'c detector" where
  "detector_new preloaded =
     \<lparr> dd_dependencies = [], dd_clarity_version = None, dd_contract = None, dd_functions = [], dd_traits = [],
       dd_constants = [], dd_pending_functions = [], dd_pending_traits = [], dd_params = None,
       dd_top_level = True, dd_preloaded = preloaded \<rparr>"

definition unresolved :: "'c detector \<Rightarrow> 'c list" where
  "unresolved s = map (fst \<circ> fst) (dd_pending_functions s) @ map (trait_contract \<circ> fst) (dd_pending_traits s)"

definition detect_dependencies :: "'c::linorder detector_lib \<Rightarrow> 'c contract_asts \<Rightarrow> 'c contract_asts \<Rightarrow>
    (('c, 'c dependency_set) btree_map \<times> 'c list + ('c, 'c dependency_set) btree_map) outcome" where
  "detect_dependencies L contract_asts preloaded =
     bind_outcome (walk_preloaded L preloaded (detector_new preloaded)) (\<lambda>s.
       bind_outcome (walk_contracts L contract_asts s) (\<lambda>s'.
         Done (if unresolved s' = [] then Inr (dd_dependencies s')
               else Inl (dd_dependencies s', unresolved s'))))"

end
