(* ===== verification/Contract_Order.thy ===== *)
theory Contract_Order
  imports Contract_Graph
begin

text \<open>
  What \<^verbatim>\<open>order_contracts\<close> promises. The depth-first walk of the graph lists every node once,
  behind its neighbours unless they lead back to it; the search for cycles taints the nodes from
  which no cycle can be reached; so the published order has every dependency in front of its
  dependents, and it is refused exactly on cycles and on dependencies of a later epoch.
\<close>

section \<open>Relations on the graph\<close>

definition graph_edges :: "graph \<Rightarrow> (nat \<times> nat) set" where
  "graph_edges g = {(u, v). v \<in> set (neighbors g u)}"

definition reaches_cycle :: "graph \<Rightarrow> nat \<Rightarrow> bool" where
  "reaches_cycle g u \<longleftrightarrow> (\<exists>v. (u, v) \<in> (graph_edges g)\<^sup>* \<and> (v, v) \<in> (graph_edges g)\<^sup>+)"

definition graph_wf :: "graph \<Rightarrow> bool" where
  "graph_wf g \<longleftrightarrow> (\<forall>ds \<in> set g. \<forall>d \<in> set ds. d < length g)"

definition precedes :: "'a list \<Rightarrow> 'a \<Rightarrow> 'a \<Rightarrow> bool" where
  "precedes xs v u \<longleftrightarrow> (\<exists>ys zs. xs = ys @ u # zs \<and> v \<in> set ys)"

lemma precedes_append: "precedes xs v u \<Longrightarrow> precedes (xs @ ys) v u"
  by (fastforce simp: precedes_def)

lemma precedes_last: "v \<in> set xs \<Longrightarrow> precedes (xs @ [u]) v u"
  by (auto simp: precedes_def)

lemma precedes_head: "distinct (u # xs) \<Longrightarrow> \<not> precedes (u # xs) v u"
  by (auto simp: precedes_def Cons_eq_append_conv)

lemma precedes_Cons: "precedes (x # xs) v u \<Longrightarrow> u \<noteq> x \<Longrightarrow> v = x \<or> precedes xs v u"
  by (auto simp: precedes_def Cons_eq_append_conv)

lemma precedes_map: "precedes xs v u \<Longrightarrow> precedes (map f xs) (f v) (f u)"
  by (fastforce simp: precedes_def)

lemma edges_less: "graph_wf g \<Longrightarrow> (u, v) \<in> graph_edges g \<Longrightarrow> u < length g \<and> v < length g"
  by (auto simp: graph_edges_def neighbors_def graph_wf_def split: if_splits)

lemma reaches_cycle_step: "(u, v) \<in> graph_edges g \<Longrightarrow> reaches_cycle g v \<Longrightarrow> reaches_cycle g u"
  unfolding reaches_cycle_def by (meson converse_rtrancl_into_rtrancl)

lemma reaches_cycle_cases:
  assumes "reaches_cycle g u"
  obtains v where "(u, v) \<in> graph_edges g" and "reaches_cycle g v"
proof -
  from assms obtain w where w: "(u, w) \<in> (graph_edges g)\<^sup>*" "(w, w) \<in> (graph_edges g)\<^sup>+"
    by (auto simp: reaches_cycle_def)
  from w(1) show ?thesis
  proof (cases rule: converse_rtranclE)
    case base
    with w(2) obtain v where "(u, v) \<in> graph_edges g" "(v, w) \<in> (graph_edges g)\<^sup>*"
      by (meson tranclD)
    with w that show ?thesis by (auto simp: reaches_cycle_def)
  next
    case (step v)
    with w that show ?thesis by (auto simp: reaches_cycle_def)
  qed
qed

lemma acyclic_iff_no_cycle_reached: "acyclic (graph_edges g) \<longleftrightarrow> (\<forall>u. \<not> reaches_cycle g u)"
  by (auto simp: acyclic_def reaches_cycle_def)

section \<open>The walk\<close>

definition dfs_placed :: "graph \<Rightarrow> nat set \<Rightarrow> nat list \<Rightarrow> nat \<Rightarrow> nat \<Rightarrow> bool" where
  "dfs_placed g gray branch u v \<longleftrightarrow> precedes branch v u \<or> v \<in> gray \<or> (v, u) \<in> (graph_edges g)\<^sup>*"

definition dfs_walked :: "graph \<Rightarrow> nat set \<times> nat list \<Rightarrow> nat set \<Rightarrow> nat set \<times> nat list \<Rightarrow> bool" where
  "dfs_walked g st roots st' \<longleftrightarrow>
     fst st \<subseteq> fst st' \<and> roots \<subseteq> fst st' \<and>
     (\<exists>new. snd st' = snd st @ new \<and> set new = fst st' - fst st \<and> distinct new \<and>
       (\<forall>u \<in> set new. (\<exists>r \<in> roots. (r, u) \<in> (graph_edges g)\<^sup>*) \<and>
         (\<forall>v. (u, v) \<in> graph_edges g \<longrightarrow> v \<in> fst st' \<and> dfs_placed g (fst st - set (snd st)) (snd st') u v)))"

lemma walked_Nil: "dfs_walked g st {} st"
  by (simp add: dfs_walked_def)

lemma walked_seen: "i \<in> fst st \<Longrightarrow> dfs_walked g st {i} st"
  by (simp add: dfs_walked_def)

lemma placed_append: "dfs_placed g gray branch u v \<Longrightarrow> dfs_placed g gray (branch @ ys) u v"
  by (auto simp: dfs_placed_def precedes_append)

lemma walked_Cons:
  assumes "dfs_walked g st {n} st1" and "dfs_walked g st1 (set ns) st2"
  shows "dfs_walked g st (set (n # ns)) st2"
proof -
  from assms(1) obtain new1 where
    1: "fst st \<subseteq> fst st1" "n \<in> fst st1" "snd st1 = snd st @ new1" "set new1 = fst st1 - fst st"
      "distinct new1"
    and p1: "\<And>u v. u \<in> set new1 \<Longrightarrow> (u, v) \<in> graph_edges g \<Longrightarrow>
        v \<in> fst st1 \<and> dfs_placed g (fst st - set (snd st)) (snd st1) u v"
    and r1: "\<And>u. u \<in> set new1 \<Longrightarrow> (n, u) \<in> (graph_edges g)\<^sup>*"
    by (auto simp: dfs_walked_def)
  from assms(2) obtain new2 where
    2: "fst st1 \<subseteq> fst st2" "set ns \<subseteq> fst st2" "snd st2 = snd st1 @ new2"
      "set new2 = fst st2 - fst st1" "distinct new2"
    and p2: "\<And>u v. u \<in> set new2 \<Longrightarrow> (u, v) \<in> graph_edges g \<Longrightarrow>
        v \<in> fst st2 \<and> dfs_placed g (fst st1 - set (snd st1)) (snd st2) u v"
    and r2: "\<And>u. u \<in> set new2 \<Longrightarrow> \<exists>r \<in> set ns. (r, u) \<in> (graph_edges g)\<^sup>*"
    by (auto simp: dfs_walked_def)
  have gray: "fst st1 - set (snd st1) = fst st - set (snd st)"
    using 1 by auto
  have "v \<in> fst st2 \<and> dfs_placed g (fst st - set (snd st)) (snd st2) u v"
    if u: "u \<in> set (new1 @ new2)" and e: "(u, v) \<in> graph_edges g" for u v
  proof (cases "u \<in> set new1")
    case True
    from p1 [OF this e] have "v \<in> fst st1" "dfs_placed g (fst st - set (snd st)) (snd st1) u v" by auto
    with 2(1) show ?thesis unfolding 2(3) by (blast intro: placed_append)
  next
    case False
    with u have "u \<in> set new2" by simp
    from p2 [OF this e] gray show ?thesis by simp
  qed
  moreover have "\<exists>r \<in> set (n # ns). (r, u) \<in> (graph_edges g)\<^sup>*" if "u \<in> set (new1 @ new2)" for u
    using that r1 r2 by auto
  moreover have "set (new1 @ new2) = fst st2 - fst st" "distinct (new1 @ new2)"
    "snd st2 = snd st @ new1 @ new2" "fst st \<subseteq> fst st2" "set (n # ns) \<subseteq> fst st2"
    using 1 2 by auto
  ultimately show ?thesis unfolding dfs_walked_def by blast
qed

lemma walked_node:
  assumes "i \<notin> seen" and "set branch \<subseteq> seen"
    and inner: "dfs_walked g (insert i seen, branch) (set (neighbors g i)) (seen', branch')"
  shows "dfs_walked g (seen, branch) {i} (seen', branch' @ [i])"
proof -
  obtain new where
    1: "insert i seen \<subseteq> seen'" "set (neighbors g i) \<subseteq> seen'" "branch' = branch @ new"
      "set new = seen' - insert i seen" "distinct new"
    and p: "\<And>u v. u \<in> set new \<Longrightarrow> (u, v) \<in> graph_edges g \<Longrightarrow>
        v \<in> seen' \<and> dfs_placed g (insert i seen - set branch) branch' u v"
    and r: "\<And>u. u \<in> set new \<Longrightarrow> \<exists>r \<in> set (neighbors g i). (r, u) \<in> (graph_edges g)\<^sup>*"
    using inner unfolding dfs_walked_def fst_conv snd_conv by blast
  have reach: "(i, u) \<in> (graph_edges g)\<^sup>*" if "u \<in> set (new @ [i])" for u
  proof (cases "u \<in> set new")
    case True
    from r [OF this] obtain n where "(i, n) \<in> graph_edges g" "(n, u) \<in> (graph_edges g)\<^sup>*" by (auto simp: graph_edges_def)
    then show ?thesis by (rule converse_rtrancl_into_rtrancl)
  qed (use that in simp)
  have "v \<in> seen' \<and> dfs_placed g (seen - set branch) (branch' @ [i]) u v"
    if u: "u \<in> set (new @ [i])" and e: "(u, v) \<in> graph_edges g" for u v
  proof (cases "u = i")
    case True
    with e 1(2) have v: "v \<in> seen'" by (auto simp: graph_edges_def)
    consider "v = i" | "v \<in> set branch'" | "v \<in> seen - set branch"
      using v 1(3,4) by auto
    then have "dfs_placed g (seen - set branch) (branch' @ [i]) u v"
      by cases (auto simp: dfs_placed_def True precedes_last)
    with v show ?thesis by simp
  next
    case False
    with u have "u \<in> set new" by simp
    from p [OF this e] have v: "v \<in> seen'" "dfs_placed g (insert i seen - set branch) branch' u v" by auto
    then have "dfs_placed g (seen - set branch) branch' u v"
      using reach [OF u] by (auto simp: dfs_placed_def)
    with v(1) show ?thesis by (simp add: placed_append)
  qed
  moreover have "set (new @ [i]) = seen' - seen" "distinct (new @ [i])" "seen \<subseteq> seen'" "i \<in> seen'"
    "branch' @ [i] = branch @ new @ [i]"
    using 1 assms(1) by auto
  ultimately show ?thesis
    unfolding dfs_walked_def fst_conv snd_conv using reach by (intro conjI exI [of _ "new @ [i]"]) auto
qed

lemma walked_branch_seen:
  "dfs_walked g st roots st' \<Longrightarrow> set (snd st) \<subseteq> fst st \<Longrightarrow> set (snd st') \<subseteq> fst st'"
  by (auto simp: dfs_walked_def)

lemma sort_walked:
  "set (snd st) \<subseteq> fst st \<Longrightarrow> dfs_walked g st {i} (sort_dependencies_recursion g i st)"
  "set (snd st) \<subseteq> fst st \<Longrightarrow> dfs_walked g st (set ns) (sort_neighbors g ns st)"
proof (induction g i st and g ns st rule: sort_dependencies_recursion_sort_neighbors.induct)
  case (1 g i seen branch)
  show ?case
  proof (cases "i \<in> seen")
    case False
    obtain seen' branch' where r: "sort_neighbors g (neighbors g i) (insert i seen, branch) = (seen', branch')"
      by fastforce
    with 1 False have "dfs_walked g (insert i seen, branch) (set (neighbors g i)) (seen', branch')"
      by auto
    with 1 False r show ?thesis by (simp add: walked_node)
  qed (simp add: walked_seen)
next
  case (2 g st)
  show ?case by (simp add: walked_Nil)
next
  case (3 g n ns st)
  then show ?case
    using walked_Cons walked_branch_seen [OF "3.IH"(1) [OF "3.prems"] "3.prems"] by simp
qed

theorem sorted_dependencies_walk:
  fixes g
  defines "s \<equiv> get_sorted_dependencies g"
  assumes "graph_wf g"
  shows "distinct s" and "set s = {..<length g}"
    and "\<And>u v. (u, v) \<in> graph_edges g \<Longrightarrow> precedes s v u \<or> (v, u) \<in> (graph_edges g)\<^sup>*"
proof -
  obtain seen where r: "sort_neighbors g [0..<length g] ({}, []) = (seen, s)"
    unfolding s_def get_sorted_dependencies_def nodes_count_def by (metis prod.collapse)
  have "dfs_walked g ({}, []) (set [0..<length g]) (seen, s)"
    using sort_walked(2) [of "({}, [])" g "[0..<length g]"] r by simp
  then have s: "{..<length g} \<subseteq> set s" "distinct s"
    and reach: "\<And>u. u \<in> set s \<Longrightarrow> \<exists>r < length g. (r, u) \<in> (graph_edges g)\<^sup>*"
    and pl: "\<And>u v. u \<in> set s \<Longrightarrow> (u, v) \<in> graph_edges g \<Longrightarrow> dfs_placed g {} s u v"
    by (fastforce simp: dfs_walked_def)+
  have stays: "u < length g" if "(r, u) \<in> (graph_edges g)\<^sup>*" "r < length g" for r u
    using that by (induction rule: rtrancl_induct) (auto dest: edges_less [OF assms(2)])
  show "distinct s" by fact
  show eq: "set s = {..<length g}"
    using s(1) reach stays by auto
  show "precedes s v u \<or> (v, u) \<in> (graph_edges g)\<^sup>*" if "(u, v) \<in> graph_edges g" for u v
    using pl [of u v] that eq edges_less [OF assms(2) that] by (auto simp: dfs_placed_def)
qed

section \<open>The search for cycles\<close>

abbreviation leaf_or :: "graph \<Rightarrow> nat set \<Rightarrow> nat \<Rightarrow> bool" where
  "leaf_or g tainted d \<equiv> neighbors g d = [] \<or> d \<in> tainted"

lemma taint_descendants_eq:
  assumes "\<forall>d \<in> set ds. d < length g"
  shows "taint_descendants g ds tainted n =
    Done (tainted \<union> {d \<in> set ds. leaf_or g tainted d}, n + length (filter (leaf_or g tainted) ds))"
  using assms
proof (induction ds arbitrary: tainted n)
  case (Cons d ds)
  then have d: "d < length g" and ds: "\<forall>d \<in> set ds. d < length g" by auto
  have h: "has_node_descendants g d = Done (neighbors g d \<noteq> [])"
    using d by (simp add: has_node_descendants_def neighbors_def)
  show ?case
  proof (cases "leaf_or g tainted d")
    case True
    then have "leaf_or g (insert d tainted) = leaf_or g tainted" by auto
    then show ?thesis using True h Cons.IH [OF ds] by auto
  next
    case False
    then show ?thesis using h Cons.IH [OF ds] by auto
  qed
qed simp

definition taint_step :: "graph \<Rightarrow> nat set \<Rightarrow> nat \<Rightarrow> nat set" where
  "taint_step g tainted i = tainted \<union> {d \<in> set (neighbors g i). leaf_or g tainted d} \<union>
     (if \<forall>d \<in> set (neighbors g i). leaf_or g tainted d then {i} else {})"

lemma taint_nodes_Cons:
  assumes "graph_wf g" and "i < length g"
  shows "taint_nodes g (i # is) tainted = taint_nodes g is (taint_step g tainted i)"
proof -
  have n: "neighbors g i = g ! i" and ds: "\<forall>d \<in> set (g ! i). d < length g"
    using assms by (auto simp: neighbors_def graph_wf_def)
  have "(length (filter P xs) = length xs) \<longleftrightarrow> (\<forall>d \<in> set xs. P d)" for P and xs :: "nat list"
    by (metis filter_id_conv length_filter_less less_irrefl)
  then show ?thesis
    using assms(2) by (auto simp: get_node_descendants_def taint_descendants_eq [OF ds] taint_step_def n)
qed

lemma no_cycle_below_leaf: "neighbors g d = [] \<Longrightarrow> \<not> reaches_cycle g d"
  by (auto simp: graph_edges_def elim: reaches_cycle_cases)

lemma taint_nodes_sound:
  assumes wf: "graph_wf g"
  shows "\<lbrakk>\<forall>i \<in> set is. i < length g; \<forall>t \<in> tainted. t < length g \<and> \<not> reaches_cycle g t;
    \<And>u v. u \<in> set is \<Longrightarrow> (u, v) \<in> graph_edges g \<Longrightarrow> \<not> reaches_cycle g u \<Longrightarrow> v \<in> tainted \<or> precedes is v u;
    distinct is\<rbrakk> \<Longrightarrow>
    \<exists>t. taint_nodes g is tainted = Done t \<and> (\<forall>i \<in> t. i < length g \<and> \<not> reaches_cycle g i) \<and>
      tainted \<subseteq> t \<and> {i \<in> set is. \<not> reaches_cycle g i} \<subseteq> t"
proof (induction "is" arbitrary: tainted)
  case (Cons i "is")
  let ?t = "taint_step g tainted i"
  have i: "i < length g" using Cons.prems(1) by simp
  have clean: "\<not> reaches_cycle g d" if "leaf_or g tainted d" for d
    using that Cons.prems(2) no_cycle_below_leaf by blast
  have sound: "\<forall>t \<in> ?t. t < length g \<and> \<not> reaches_cycle g t"
  proof
    fix t
    assume "t \<in> ?t"
    then consider "t \<in> tainted" | "(i, t) \<in> graph_edges g" "leaf_or g tainted t"
      | "t = i" "\<forall>d. (i, d) \<in> graph_edges g \<longrightarrow> leaf_or g tainted d"
      by (auto simp: taint_step_def graph_edges_def split: if_splits)
    then show "t < length g \<and> \<not> reaches_cycle g t"
    proof cases
      case 1
      with Cons.prems(2) show ?thesis by blast
    next
      case 2
      with clean [of t] edges_less [OF wf] show ?thesis by blast
    next
      case 3
      with clean i show ?thesis by (blast elim: reaches_cycle_cases)
    qed
  qed
  have here: "i \<in> ?t" if "\<not> reaches_cycle g i"
  proof -
    have "v \<in> tainted" if "(i, v) \<in> graph_edges g" for v
      using Cons.prems(3) [of i v] that \<open>\<not> reaches_cycle g i\<close> precedes_head [OF Cons.prems(4), of v] by auto
    then show ?thesis by (auto simp: taint_step_def graph_edges_def)
  qed
  have "\<exists>t. taint_nodes g is ?t = Done t \<and> (\<forall>i \<in> t. i < length g \<and> \<not> reaches_cycle g i) \<and>
      ?t \<subseteq> t \<and> {i \<in> set is. \<not> reaches_cycle g i} \<subseteq> t"
  proof (rule Cons.IH)
    show "v \<in> ?t \<or> precedes is v u" if u: "u \<in> set is" "(u, v) \<in> graph_edges g" "\<not> reaches_cycle g u" for u v
    proof -
      have "v \<in> tainted \<or> precedes (i # is) v u" using Cons.prems(3) [of u v] u by auto
      moreover have "u \<noteq> i" using u(1) Cons.prems(4) by auto
      moreover have "\<not> reaches_cycle g v" using u reaches_cycle_step by blast
      moreover have "tainted \<subseteq> ?t" by (auto simp: taint_step_def)
      ultimately show ?thesis using here by (auto dest: precedes_Cons)
    qed
  qed (use Cons.prems sound in auto)
  then obtain t where t: "taint_nodes g is ?t = Done t" "\<forall>i \<in> t. i < length g \<and> \<not> reaches_cycle g i"
    "?t \<subseteq> t" "{i \<in> set is. \<not> reaches_cycle g i} \<subseteq> t" by blast
  have "tainted \<subseteq> t" using t(3) by (auto simp: taint_step_def)
  moreover have "{j \<in> set (i # is). \<not> reaches_cycle g j} \<subseteq> t" using t(3,4) here by auto
  ultimately show ?case unfolding taint_nodes_Cons [OF wf i] using t(1,2) by blast
qed simp

theorem get_cycling_dependencies_exact:
  fixes g
  defines "s \<equiv> get_sorted_dependencies g"
  assumes wf: "graph_wf g"
  shows "get_cycling_dependencies rank g s =
    Done (if acyclic (graph_edges g) then None else Some (filter (reaches_cycle g) (hash_set_iter rank s)))"
proof -
  note walk = sorted_dependencies_walk [OF wf, folded s_def]
  have "\<exists>t. taint_nodes g s {} = Done t \<and> (\<forall>i \<in> t. i < length g \<and> \<not> reaches_cycle g i) \<and>
      {} \<subseteq> t \<and> {i \<in> set s. \<not> reaches_cycle g i} \<subseteq> t"
  proof (rule taint_nodes_sound [OF wf _ _ _ walk(1)])
    show "v \<in> {} \<or> precedes s v u" if "(u, v) \<in> graph_edges g" "\<not> reaches_cycle g u" for u v
    proof -
      have "(v, u) \<notin> (graph_edges g)\<^sup>*"
        using that rtrancl_into_trancl2 [OF that(1), of u] unfolding reaches_cycle_def by blast
      with walk(3) [OF that(1)] show ?thesis by simp
    qed
  qed (use walk(2) in auto)
  then obtain t where t: "taint_nodes g s {} = Done t"
    and in_t: "\<forall>i \<in> t. i < length g \<and> \<not> reaches_cycle g i" "{i \<in> set s. \<not> reaches_cycle g i} \<subseteq> t" by blast
  have t': "t = {..<length g} - {i. reaches_cycle g i}"
    using in_t(1) in_t(2) [unfolded walk(2)] by (intro equalityI subsetI) (simp, fastforce)
  have cyc: "reaches_cycle g i \<Longrightarrow> i < length g" for i
    by (erule reaches_cycle_cases) (simp add: edges_less [OF wf])
  have len: "length s = length g"
    using walk(1,2) distinct_card [of s] by simp
  have "card t = length s \<longleftrightarrow> t = {..<length g}"
    unfolding len using t' by (metis Diff_subset card_lessThan card_subset_eq finite_lessThan)
  also have "\<dots> \<longleftrightarrow> acyclic (graph_edges g)"
    unfolding acyclic_iff_no_cycle_reached t' using cyc by auto
  finally have card: "card t = length s \<longleftrightarrow> acyclic (graph_edges g)" .
  have "filter (\<lambda>i. i \<notin> t) (hash_set_iter rank s) = filter (reaches_cycle g) (hash_set_iter rank s)"
    using walk(2) by (intro filter_cong) (auto simp: t' hash_set_iter_def)
  then show ?thesis by (simp add: get_cycling_dependencies_def t card)
qed

section \<open>The graph of a deployment\<close>

text \<open>The contracts a contract of the deployment depends on inside the deployment.\<close>

definition depends :: "('c, 'c dependency_set) btree_map \<Rightarrow> ('c \<times> 'c) set" where
  "depends deps = {(c, d). d \<in> fst ` set deps \<and> (\<exists>ds. (c, ds) \<in> set deps \<and> d \<in> fst ` set ds)}"

text \<open>The first dependency, in the order of the maps, whose epoch is later than its dependent's.\<close>

definition late_dependency :: "('c \<Rightarrow> stacks_epoch_id option) \<Rightarrow> ('c \<times> 'c dependency_set) list \<Rightarrow> ('c \<times> 'c) option" where
  "late_dependency epochs deps =
     List.find (\<lambda>(c, d). epoch_or_default epochs c < epoch_or_default epochs d)
       (concat (map (\<lambda>(c, ds). map (\<lambda>d. (c, dep_contract_id d)) ds) deps))"

definition height_error :: "'c contract_lib \<Rightarrow> ('c \<Rightarrow> stacks_epoch_id option) \<Rightarrow> 'c \<times> 'c \<Rightarrow> incorrect_contract_height" where
  "height_error L epochs p =
     \<lparr> ich_contract_id = cl_show L (fst p), ich_contract_epoch = epoch_or_default epochs (fst p),
       ich_dep_contract_id = cl_show L (snd p), ich_dep_epoch = epoch_or_default epochs (snd p) \<rparr>"

lemma find_append: "List.find P (xs @ ys) = (case List.find P xs of None \<Rightarrow> List.find P ys | Some x \<Rightarrow> Some x)"
  by (induction xs) auto

lemma late_dependency_Nil [simp]: "late_dependency epochs [] = None"
  by (simp add: late_dependency_def)

lemma late_dependency_Cons:
  "late_dependency epochs ((c, ds) # m) =
     (case late_dependency epochs [(c, ds)] of None \<Rightarrow> late_dependency epochs m | Some p \<Rightarrow> Some p)"
  by (simp add: late_dependency_def find_append split: option.split)

lemma late_dependency_single:
  "late_dependency epochs [(c, [])] = None"
  "late_dependency epochs [(c, d # ds)] =
     (if epoch_or_default epochs c < epoch_or_default epochs (dep_contract_id d)
      then Some (c, dep_contract_id d) else late_dependency epochs [(c, ds)])"
  by (simp_all add: late_dependency_def)

lemma late_dependency_None:
  "late_dependency epochs deps = None \<longleftrightarrow>
     (\<forall>(c, ds) \<in> set deps. \<forall>d \<in> fst ` set ds. epoch_or_default epochs d \<le> epoch_or_default epochs c)"
  by (fastforce simp: late_dependency_def find_None_iff not_less)

definition target_indexes :: "('c, nat) btree_map \<Rightarrow> 'c dependency_set \<Rightarrow> nat list" where
  "target_indexes lookup ds = List.map_filter (\<lambda>d. bt_get lookup (dep_contract_id d)) ds"

lemma target_indexes_simps:
  "target_indexes lookup [] = []"
  "target_indexes lookup (d # ds) =
     (case bt_get lookup (dep_contract_id d) of None \<Rightarrow> [] | Some i \<Rightarrow> [i]) @ target_indexes lookup ds"
  by (simp_all add: target_indexes_def List.map_filter_def split: option.split)

lemma in_target_indexes:
  "i \<in> set (target_indexes lookup ds) \<longleftrightarrow> (\<exists>d \<in> set ds. bt_get lookup (dep_contract_id d) = Some i)"
  by (induction ds) (auto simp: target_indexes_simps split: option.splits)

lemma add_edges_eq:
  assumes "i < length g"
  shows "add_edges L epochs lookup c i (epoch_or_default epochs c) ds g =
    Done (case late_dependency epochs [(c, ds)] of
            Some p \<Rightarrow> Inl (IncorrectContractHeight (height_error L epochs p))
          | None \<Rightarrow> Inr (g[i := g ! i @ target_indexes lookup ds]))"
  using assms
proof (induction ds arbitrary: g)
  case (Cons d ds)
  show ?case
    by (cases "bt_get lookup (dep_contract_id d)"; cases "late_dependency epochs [(c, ds)]")
      (simp_all add: Cons late_dependency_single target_indexes_simps height_error_def Let_def
        add_directed_edge_def)
qed (simp add: late_dependency_single target_indexes_simps)

lemma build_graph_eq:
  assumes "\<And>j. j < length m \<Longrightarrow> bt_get lookup (fst (m ! j)) = Some (length g + j)"
  shows "build_graph L epochs lookup m g =
    Done (case late_dependency epochs m of
            Some p \<Rightarrow> Inl (IncorrectContractHeight (height_error L epochs p))
          | None \<Rightarrow> Inr (g @ map (\<lambda>(c, ds). target_indexes lookup ds) m))"
  using assms
proof (induction m arbitrary: g)
  case (Cons p m)
  obtain c ds where p: "p = (c, ds)" by (cases p)
  have c: "bt_get lookup c = Some (length g)" using Cons.prems [of 0] p by simp
  have IH: "build_graph L epochs lookup m (g @ [e]) =
      Done (case late_dependency epochs m of
            Some p \<Rightarrow> Inl (IncorrectContractHeight (height_error L epochs p))
          | None \<Rightarrow> Inr ((g @ [e]) @ map (\<lambda>(c, ds). target_indexes lookup ds) m))" for e
    using Cons.IH [of "g @ [e]"] Cons.prems [of "Suc _"] by simp
  show ?case
    by (cases "late_dependency epochs [(c, ds)]"; cases "late_dependency epochs m")
      (simp_all add: p c add_edges_eq add_node_def late_dependency_Cons [of epochs c ds m] IH nth_append)
qed simp

lemma order_lookup_eq:
  "distinct (map fst m) \<Longrightarrow>
     (\<forall>j < length m. bt_get (fst (order_lookup m i lookup r)) (fst (m ! j)) = Some (i + j)) \<and>
     (\<forall>k. k \<notin> fst ` set m \<longrightarrow> bt_get (fst (order_lookup m i lookup r)) k = bt_get lookup k) \<and>
     snd (order_lookup m i lookup r) = r @ map fst m"
proof (induction m arbitrary: i lookup r)
  case (Cons p m)
  obtain c ds where p: "p = (c, ds)" by (cases p)
  have IH: "\<And>i lookup r. (\<forall>j < length m. bt_get (fst (order_lookup m i lookup r)) (fst (m ! j)) = Some (i + j))"
    "\<And>i lookup r k. k \<notin> fst ` set m \<Longrightarrow> bt_get (fst (order_lookup m i lookup r)) k = bt_get lookup k"
    "\<And>i lookup r. snd (order_lookup m i lookup r) = r @ map fst m"
    using Cons by auto
  have "c \<notin> fst ` set m" using Cons.prems p by simp
  then have "bt_get (fst (order_lookup (p # m) i lookup r)) (fst ((p # m) ! j)) = Some (i + j)"
    if "j < length (p # m)" for j
    using that IH(1) [rule_format] IH(2) by (cases j) (auto simp: p bt.get_insert)
  then show ?case using IH(2,3) by (auto simp: p bt.get_insert)
qed simp

definition deployment_graph :: "('c::linorder, 'c dependency_set) btree_map \<Rightarrow> graph" where
  "deployment_graph deps =
     map (\<lambda>(c, ds). target_indexes (fst (order_lookup deps 0 [] [])) ds) deps"

lemma lookup_eq_Some:
  assumes "bt_wf deps"
  shows "bt_get (fst (order_lookup deps 0 [] [])) c = Some j \<longleftrightarrow> j < length deps \<and> map fst deps ! j = c"
proof -
  note d = bt_wf_distinct [OF assms]
  note L = order_lookup_eq [OF d, of 0 "[]" "[]"]
  show ?thesis
  proof (cases "c \<in> fst ` set deps")
    case True
    then have "c \<in> set (map fst deps)" by simp
    then obtain k where k: "k < length deps" "map fst deps ! k = c"
      unfolding in_set_conv_nth by auto
    with L have "bt_get (fst (order_lookup deps 0 [] [])) c = Some k" by auto
    with k show ?thesis using nth_eq_iff_index_eq [OF d, of j k] by auto
  next
    case False
    with L have "bt_get (fst (order_lookup deps 0 [] [])) c = None" by simp
    moreover have "map fst deps ! j \<noteq> c" if "j < length deps"
      using False that nth_mem [of j "map fst deps"] by auto
    ultimately show ?thesis by auto
  qed
qed

lemma edges_deployment_graph:
  assumes "bt_wf deps"
  shows "(u, v) \<in> graph_edges (deployment_graph deps) \<longleftrightarrow>
    u < length deps \<and> v < length deps \<and> (map fst deps ! u, map fst deps ! v) \<in> depends deps"
proof -
  have set: "v \<in> set (target_indexes (fst (order_lookup deps 0 [] [])) ds) \<longleftrightarrow>
      v < length deps \<and> map fst deps ! v \<in> fst ` set ds" for v and ds :: "'a dependency_set"
    by (force simp: in_target_indexes lookup_eq_Some [OF assms])
  have in_keys: "map fst deps ! v \<in> fst ` set deps" if "v < length deps" for v
    using that by simp
  have entry: "(map fst deps ! u, ds) \<in> set deps \<longleftrightarrow> ds = snd (deps ! u)" if "u < length deps" for u ds
    using that bt_get_in_set [OF assms, of "fst (deps ! u)" "snd (deps ! u)"]
      bt_get_in_set [OF assms, of "fst (deps ! u)" ds] by auto
  have node: "neighbors (deployment_graph deps) u =
      (if u < length deps then target_indexes (fst (order_lookup deps 0 [] [])) (snd (deps ! u)) else [])"
    by (simp add: neighbors_def deployment_graph_def case_prod_beta)
  show ?thesis
    using in_keys [of v]
    by (cases "u < length deps") (auto simp: graph_edges_def node set depends_def entry simp del: nth_map)
qed

lemma deployment_graph_wf: "bt_wf deps \<Longrightarrow> graph_wf (deployment_graph deps)"
  by (auto simp: graph_wf_def deployment_graph_def in_target_indexes lookup_eq_Some)

lemma depends_keys: "(c, d) \<in> depends deps \<Longrightarrow> c \<in> set (map fst deps) \<and> d \<in> set (map fst deps)"
  by (force simp: depends_def)

lemma depends_of_edges:
  assumes "bt_wf deps"
  shows "(u, v) \<in> (graph_edges (deployment_graph deps))\<^sup>+ \<Longrightarrow>
    (map fst deps ! u, map fst deps ! v) \<in> (depends deps)\<^sup>+"
  by (induction rule: trancl_induct)
    (auto simp: edges_deployment_graph [OF assms] intro: trancl_into_trancl)

lemma edges_of_depends:
  assumes wf: "bt_wf deps" and "(map fst deps ! u, d) \<in> (depends deps)\<^sup>+" and "u < length deps"
  shows "\<exists>v < length deps. map fst deps ! v = d \<and> (u, v) \<in> (graph_edges (deployment_graph deps))\<^sup>+"
  using assms(2)
proof (induction rule: trancl_induct)
  case (base d)
  then obtain v where "v < length deps" "map fst deps ! v = d"
    using depends_keys [OF base] unfolding in_set_conv_nth by auto
  with base assms(3) show ?case
    using edges_deployment_graph [OF wf, of u v] by auto
next
  case (step d d')
  then obtain v where v: "v < length deps" "map fst deps ! v = d"
    "(u, v) \<in> (graph_edges (deployment_graph deps))\<^sup>+" by blast
  obtain v' where v': "v' < length deps" "map fst deps ! v' = d'"
    using depends_keys [OF step(2)] unfolding in_set_conv_nth by auto
  have "(v, v') \<in> graph_edges (deployment_graph deps)"
    using step(2) v v' edges_deployment_graph [OF wf, of v v'] by auto
  with v(3) v' show ?case by (blast intro: trancl_into_trancl)
qed

lemma key_index_eq:
  "bt_wf deps \<Longrightarrow> u < length deps \<Longrightarrow> v < length deps \<Longrightarrow> map fst deps ! u = map fst deps ! v \<Longrightarrow> u = v"
  using nth_eq_iff_index_eq [OF bt_wf_distinct, of deps u v] by simp

definition depends_on_cycle :: "('c, 'c dependency_set) btree_map \<Rightarrow> 'c \<Rightarrow> bool" where
  "depends_on_cycle deps c \<longleftrightarrow> (\<exists>d. (c, d) \<in> (depends deps)\<^sup>* \<and> (d, d) \<in> (depends deps)\<^sup>+)"

lemma reaches_cycle_deployment:
  assumes wf: "bt_wf deps" and u: "u < length deps"
  shows "reaches_cycle (deployment_graph deps) u \<longleftrightarrow> depends_on_cycle deps (map fst deps ! u)"
proof
  assume "reaches_cycle (deployment_graph deps) u"
  then show "depends_on_cycle deps (map fst deps ! u)"
    unfolding reaches_cycle_def depends_on_cycle_def rtrancl_eq_or_trancl
    using depends_of_edges [OF wf] by blast
next
  have loop: "(v, v) \<in> (graph_edges (deployment_graph deps))\<^sup>+"
    if "v < length deps" "(map fst deps ! v, map fst deps ! v) \<in> (depends deps)\<^sup>+" for v
    using edges_of_depends [OF wf that(2,1)] key_index_eq [OF wf] that(1) by metis
  assume "depends_on_cycle deps (map fst deps ! u)"
  then obtain d where d: "(map fst deps ! u, d) \<in> (depends deps)\<^sup>*" "(d, d) \<in> (depends deps)\<^sup>+"
    by (auto simp: depends_on_cycle_def)
  then show "reaches_cycle (deployment_graph deps) u"
    unfolding rtrancl_eq_or_trancl reaches_cycle_def
    using loop u edges_of_depends [OF wf _ u, of d] by metis
qed

lemma acyclic_deployment:
  assumes "bt_wf deps"
  shows "acyclic (graph_edges (deployment_graph deps)) \<longleftrightarrow> acyclic (depends deps)"
proof
  assume a: "acyclic (graph_edges (deployment_graph deps))"
  show "acyclic (depends deps)"
    unfolding acyclic_def
  proof (intro allI notI)
    fix c
    assume c: "(c, c) \<in> (depends deps)\<^sup>+"
    then obtain d where "(c, d) \<in> depends deps" by (meson tranclD)
    then obtain u where "u < length deps" "map fst deps ! u = c"
      using depends_keys [of c d deps] unfolding in_set_conv_nth by auto
    with c edges_of_depends [OF assms, of u c] key_index_eq [OF assms] a show False
      unfolding acyclic_def by metis
  qed
next
  assume "acyclic (depends deps)"
  then show "acyclic (graph_edges (deployment_graph deps))"
    unfolding acyclic_def using depends_of_edges [OF assms] by blast
qed

section \<open>The order\<close>

lemma outcome_map_index:
  "\<forall>i \<in> set is. i < length xs \<Longrightarrow> outcome_map (index_or_panic xs) is = Done (map ((!) xs) is)"
  by (induction "is") (auto simp: index_or_panic_def)

lemma order_contracts_eq:
  assumes wf: "bt_wf deps"
  defines "s \<equiv> get_sorted_dependencies (deployment_graph deps)"
  shows "order_contracts L deps epochs = Done (case late_dependency epochs deps of
      Some p \<Rightarrow> Inl (IncorrectContractHeight (height_error L epochs p))
    | None \<Rightarrow>
        if acyclic (depends deps) then Inr (map ((!) (map fst deps)) s)
        else Inl (CircularReference (map (cl_name L) (map ((!) (map fst deps))
               (filter (\<lambda>u. depends_on_cycle deps (map fst deps ! u)) (hash_set_iter (cl_rank L) s))))))"
proof (cases "deps = []")
  case True
  then show ?thesis
    by (simp add: s_def order_contracts_def get_sorted_dependencies_def deployment_graph_def
          nodes_count_def depends_def acyclic_def)
next
  case False
  let ?l = "fst (order_lookup deps 0 [] [])"
  have l: "order_lookup deps 0 [] [] = (?l, map fst deps)"
    using order_lookup_eq [OF bt_wf_distinct [OF wf], of 0 "[]" "[]"] by (simp add: prod_eq_iff)
  have b: "build_graph L epochs ?l deps [] = Done (case late_dependency epochs deps of
            Some p \<Rightarrow> Inl (IncorrectContractHeight (height_error L epochs p))
          | None \<Rightarrow> Inr (deployment_graph deps))"
    using build_graph_eq [of deps ?l "[]" L epochs] lookup_eq_Some [OF wf]
    by (simp add: deployment_graph_def split: option.split)
  note g = deployment_graph_wf [OF wf]
  have s: "set s = {..<length deps}"
    using sorted_dependencies_walk(2) [OF g] by (simp add: s_def deployment_graph_def)
  have f: "filter (reaches_cycle (deployment_graph deps)) (hash_set_iter (cl_rank L) s) =
      filter (\<lambda>u. depends_on_cycle deps (map fst deps ! u)) (hash_set_iter (cl_rank L) s)"
    by (rule filter_cong) (auto simp: hash_set_iter_def s reaches_cycle_deployment [OF wf] simp del: nth_map)
  have o1: "outcome_map (index_or_panic (map fst deps)) s = Done (map ((!) (map fst deps)) s)"
    by (rule outcome_map_index) (simp add: s)
  have o2: "outcome_map (index_or_panic (map fst deps)) (filter P (hash_set_iter r s)) =
      Done (map ((!) (map fst deps)) (filter P (hash_set_iter r s)))" for P r
    by (rule outcome_map_index) (simp add: s hash_set_iter_def)
  note cyc = get_cycling_dependencies_exact [OF g, folded s_def, of "cl_rank L", unfolded f acyclic_deployment [OF wf]]
  have unfolded: "order_contracts L deps epochs =
      bind_outcome (build_graph L epochs ?l deps []) (\<lambda>r.
        case r of
          Inl e \<Rightarrow> Done (Inl e)
        | Inr g \<Rightarrow>
            bind_outcome (get_cycling_dependencies (cl_rank L) g (get_sorted_dependencies g)) (\<lambda>cyclic.
              case cyclic of
                Some ds \<Rightarrow> bind_outcome (outcome_map (index_or_panic (map fst deps)) ds)
                    (\<lambda>cs. Done (Inl (CircularReference (map (cl_name L) cs))))
              | None \<Rightarrow> bind_outcome (outcome_map (index_or_panic (map fst deps)) (get_sorted_dependencies g))
                    (\<lambda>cs. Done (Inr cs))))"
    unfolding order_contracts_def by (subst l) (simp add: False Let_def)
  show ?thesis
    unfolding unfolded b
    by (simp add: cyc o1 o2 flip: s_def split: option.split)
qed

lemma order_is_topological:
  assumes wf: "bt_wf deps" and "acyclic (depends deps)"
  defines "cs \<equiv> map ((!) (map fst deps)) (get_sorted_dependencies (deployment_graph deps))"
  shows "distinct cs" and "set cs = fst ` set deps"
    and "(c, d) \<in> depends deps \<Longrightarrow> precedes cs d c"
proof -
  let ?s = "get_sorted_dependencies (deployment_graph deps)"
  note walk = sorted_dependencies_walk [OF deployment_graph_wf [OF wf]]
  have n: "set ?s = {..<length deps}"
    using walk(2) by (simp add: deployment_graph_def)
  show "distinct cs"
    unfolding cs_def distinct_map using walk(1) n key_index_eq [OF wf] by (intro conjI inj_onI) auto
  have "set cs = (!) (map fst deps) ` {..<length (map fst deps)}"
    using n by (simp add: cs_def)
  then show "set cs = fst ` set deps"
    using nth_image [of "length (map fst deps)" "map fst deps"] by (simp add: lessThan_atLeast0)
  show "precedes cs d c" if cd: "(c, d) \<in> depends deps"
  proof -
    obtain u v where uv: "u < length deps" "v < length deps" "map fst deps ! u = c" "map fst deps ! v = d"
      using depends_keys [OF cd] unfolding in_set_conv_nth by auto
    with cd have e: "(u, v) \<in> graph_edges (deployment_graph deps)"
      by (simp add: edges_deployment_graph [OF wf] del: nth_map)
    have "(v, u) \<notin> (graph_edges (deployment_graph deps))\<^sup>*"
      using assms(2) [folded acyclic_deployment [OF wf]] rtrancl_into_trancl2 [OF e, of u]
      unfolding acyclic_def by blast
    with walk(3) [OF e] have "precedes ?s v u" by simp
    from precedes_map [OF this, of "(!) (map fst deps)"] uv show ?thesis by (simp add: cs_def)
  qed
qed

text \<open>Two contracts of which one, or each, depends on the other.\<close>

definition sample_names :: "nat contract_lib" where
  "sample_names = \<lparr> cl_name = \<lambda>_. ''contract'', cl_show = \<lambda>_. ''contract'', cl_rank = \<lambda>i. i \<rparr>"

definition sample_pair :: "(nat, nat dependency_set) btree_map" where
  "sample_pair = [(1, [(2, True)]), (2, [])]"

definition sample_circle :: "(nat, nat dependency_set) btree_map" where
  "sample_circle = [(1, [(2, True)]), (2, [(1, True)])]"

text \<open>
  C9. When the contracts are ordered, the order lists every contract of the deployment exactly
  once, each behind all of its dependencies inside the deployment, and no dependency (inside or
  outside of it) has a later epoch than its dependent.
\<close>
theorem order_puts_dependencies_first:
  assumes "bt_wf deps" and "order_contracts L deps epochs = Done (Inr cs)"
  shows "distinct cs \<and> set cs = fst ` set deps \<and>
    (\<forall>(c, ds) \<in> set deps. \<forall>d \<in> fst ` set ds.
       epoch_or_default epochs d \<le> epoch_or_default epochs c \<and> (d \<in> set cs \<longrightarrow> precedes cs d c))"
proof -
  from assms(2) have late: "late_dependency epochs deps = None" and acyc: "acyclic (depends deps)"
    and cs: "cs = map ((!) (map fst deps)) (get_sorted_dependencies (deployment_graph deps))"
    by (auto simp: order_contracts_eq [OF assms(1)] split: option.splits if_splits)
  note order = order_is_topological [OF assms(1) acyc, folded cs]
  have "precedes cs d c" if "(c, ds) \<in> set deps" "d \<in> fst ` set ds" "d \<in> set cs" for c ds d
    using order(2) order(3) [of c d] that by (auto simp: depends_def)
  then have "\<forall>(c, ds) \<in> set deps. \<forall>d \<in> fst ` set ds. d \<in> set cs \<longrightarrow> precedes cs d c" by blast
  with order(1,2) late show ?thesis unfolding late_dependency_None by blast
qed

theorem order_puts_dependencies_first_witness: "precedes [2, 1] (2 :: nat) 1"
proof -
  have "bt_wf sample_pair" by code_simp
  moreover have "order_contracts sample_names sample_pair (\<lambda>_. None) = Done (Inr [2, 1])" by code_simp
  ultimately show ?thesis using order_puts_dependencies_first [of sample_pair] by (fastforce simp: sample_pair_def)
qed

text \<open>
  C8. Ordering never panics and has exactly three outcomes. A dependency with a later epoch than
  its dependent is reported first, and it is the first one in the order of the maps. Otherwise a
  circular dependency is reported, naming exactly the contracts from which a cycle of
  dependencies can be reached, each once. Otherwise the contracts are ordered.
\<close>
theorem order_contracts_decides:
  assumes "bt_wf deps"
  shows "\<exists>r. order_contracts L deps epochs = Done r \<and>
    (case late_dependency epochs deps of
       Some p \<Rightarrow> r = Inl (IncorrectContractHeight (height_error L epochs p))
     | None \<Rightarrow>
         if acyclic (depends deps) then \<exists>cs. r = Inr cs
         else \<exists>cs. r = Inl (CircularReference (map (cl_name L) cs)) \<and> distinct cs \<and>
                set cs = {c. depends_on_cycle deps c})"
proof -
  let ?s = "get_sorted_dependencies (deployment_graph deps)"
  let ?ix = "filter (\<lambda>u. depends_on_cycle deps (map fst deps ! u)) (hash_set_iter (cl_rank L) ?s)"
  have n: "set ?s = {..<length deps}"
    using sorted_dependencies_walk(2) [OF deployment_graph_wf [OF assms]] by (simp add: deployment_graph_def)
  have ix: "set ?ix = {u. u < length deps \<and> depends_on_cycle deps (map fst deps ! u)}" "distinct ?ix"
    by (auto simp: hash_set_iter_def n)
  have "distinct (map ((!) (map fst deps)) ?ix)"
    unfolding distinct_map using ix key_index_eq [OF assms] by (intro conjI inj_onI) auto
  moreover have "c \<in> set (map fst deps)" if "depends_on_cycle deps c" for c
    using that depends_keys [of c _ deps] unfolding depends_on_cycle_def
    by (metis converse_rtranclE tranclD)
  then have "set (map ((!) (map fst deps)) ?ix) = {c. depends_on_cycle deps c}"
    unfolding set_map ix(1) by (force simp: in_set_conv_nth)
  ultimately have "\<exists>cs. map (cl_name L) (map ((!) (map fst deps)) ?ix) = map (cl_name L) cs \<and> distinct cs \<and>
      set cs = {c. depends_on_cycle deps c}" by blast
  then show ?thesis
    unfolding order_contracts_eq [OF assms] by (simp del: map_map set_map set_filter split: option.split)
qed

theorem order_contracts_decides_witness:
  "\<exists>cs. order_contracts sample_names sample_circle (\<lambda>_. None) =
     Done (Inl (CircularReference (map (cl_name sample_names) cs))) \<and> set cs = {c. depends_on_cycle sample_circle c}"
proof -
  have wf: "bt_wf sample_circle" and late: "late_dependency (\<lambda>_. None) sample_circle = None" by code_simp+
  have "(1, 2) \<in> depends sample_circle" "(2, 1) \<in> depends sample_circle"
    by (auto simp: depends_def sample_circle_def)
  then have "(1, 1) \<in> (depends sample_circle)\<^sup>+" by (meson trancl.intros)
  then have "\<not> acyclic (depends sample_circle)" by (auto simp: acyclic_def)
  with order_contracts_decides [OF wf, of sample_names "\<lambda>_. None"] late show ?thesis by auto
qed

end
