(* ===== verification/Dependency_Invariant.thy ===== *)
theory Dependency_Invariant
  imports Dependency_Detector Contract_Order
begin

text \<open>
  What the detector finds. The invariant \<open>detector_inv\<close> ties its state to what it has been told so
  far: the calls to other contracts, the traits that are used, and the functions that are defined.
  A call is either still pending, and then its function has not been defined, or the contracts that
  its arguments pass for traits are dependencies of the caller. So a deployment without unresolved
  names has all of its dependencies, in whatever order callers and callees are walked, and the
  published order puts them first.
\<close>

section \<open>Recording\<close>

definition depends_in :: "'c::linorder detector_lib \<Rightarrow> 'c detector \<Rightarrow> 'c \<Rightarrow> 'c \<Rightarrow> bool" where
  "depends_in L s c x \<longleftrightarrow> bt_get (dd_preloaded s) c \<noteq> None \<or> is_placeholder L x \<or>
     (\<exists>ds. bt_get (dd_dependencies s) c = Some ds \<and> has_dependency ds x \<noteq> None)"

lemma add_dependency_fields [simp]:
  "dd_clarity_version (add_dependency L a b s) = dd_clarity_version s"
  "dd_contract (add_dependency L a b s) = dd_contract s"
  "dd_functions (add_dependency L a b s) = dd_functions s"
  "dd_traits (add_dependency L a b s) = dd_traits s"
  "dd_constants (add_dependency L a b s) = dd_constants s"
  "dd_pending_functions (add_dependency L a b s) = dd_pending_functions s"
  "dd_pending_traits (add_dependency L a b s) = dd_pending_traits s"
  "dd_preloaded (add_dependency L a b s) = dd_preloaded s"
  by (simp_all add: add_dependency_def)

lemma depends_in_add: "depends_in L (add_dependency L a b s) c x \<longleftrightarrow> depends_in L s c x \<or> (c = a \<and> x = b)"
  by (auto simp: depends_in_def add_dependency_def bt.get_insert has_dependency_add split: option.splits)
    (auto simp: has_dependency_def)

lemma add_dependencies_fields [simp]:
  "dd_clarity_version (add_dependencies L a xs s) = dd_clarity_version s"
  "dd_contract (add_dependencies L a xs s) = dd_contract s"
  "dd_functions (add_dependencies L a xs s) = dd_functions s"
  "dd_traits (add_dependencies L a xs s) = dd_traits s"
  "dd_constants (add_dependencies L a xs s) = dd_constants s"
  "dd_pending_functions (add_dependencies L a xs s) = dd_pending_functions s"
  "dd_pending_traits (add_dependencies L a xs s) = dd_pending_traits s"
  "dd_preloaded (add_dependencies L a xs s) = dd_preloaded s"
  by (induction xs arbitrary: s) (simp_all add: add_dependencies_def)

lemma depends_in_adds:
  "depends_in L (add_dependencies L a xs s) c x \<longleftrightarrow> depends_in L s c x \<or> (c = a \<and> x \<in> set xs)"
  by (induction xs arbitrary: s) (auto simp: add_dependencies_def depends_in_add)

text \<open>Going through a list of pending checks.\<close>

definition resolve :: "'c::linorder detector_lib \<Rightarrow> ('p \<Rightarrow> 'c \<times> 'c list) \<Rightarrow> 'p list \<Rightarrow> 'c detector \<Rightarrow> 'c detector" where
  "resolve L targets checks s = fold (\<lambda>p. add_dependencies L (fst (targets p)) (snd (targets p))) checks s"

lemma resolve_fields [simp]:
  "dd_clarity_version (resolve L f ps s) = dd_clarity_version s"
  "dd_contract (resolve L f ps s) = dd_contract s"
  "dd_functions (resolve L f ps s) = dd_functions s"
  "dd_traits (resolve L f ps s) = dd_traits s"
  "dd_constants (resolve L f ps s) = dd_constants s"
  "dd_pending_functions (resolve L f ps s) = dd_pending_functions s"
  "dd_pending_traits (resolve L f ps s) = dd_pending_traits s"
  "dd_preloaded (resolve L f ps s) = dd_preloaded s"
  by (induction ps arbitrary: s) (simp_all add: resolve_def)

lemma depends_in_resolve:
  "depends_in L (resolve L f ps s) c x \<longleftrightarrow>
     depends_in L s c x \<or> (\<exists>p \<in> set ps. fst (f p) = c \<and> x \<in> set (snd (f p)))"
  by (induction ps arbitrary: s) (auto simp: resolve_def depends_in_adds)

lemma depends_in_cong:
  "dd_dependencies s = dd_dependencies s' \<Longrightarrow> dd_preloaded s = dd_preloaded s' \<Longrightarrow>
     depends_in L s c x = depends_in L s' c x"
  by (simp add: depends_in_def)

lemma add_dependency_pending:
  "add_dependency L a b (s\<lparr> dd_pending_functions := q \<rparr>) = (add_dependency L a b s)\<lparr> dd_pending_functions := q \<rparr>"
  "add_dependency L a b (s\<lparr> dd_pending_traits := r \<rparr>) = (add_dependency L a b s)\<lparr> dd_pending_traits := r \<rparr>"
  by (simp_all add: add_dependency_def)

lemma add_dependencies_pending:
  "add_dependencies L a xs (s\<lparr> dd_pending_functions := q \<rparr>) = (add_dependencies L a xs s)\<lparr> dd_pending_functions := q \<rparr>"
  "add_dependencies L a xs (s\<lparr> dd_pending_traits := r \<rparr>) = (add_dependencies L a xs s)\<lparr> dd_pending_traits := r \<rparr>"
  by (induction xs arbitrary: s) (simp_all add: add_dependencies_def add_dependency_pending)

lemma resolve_pending:
  "resolve L g ps (s\<lparr> dd_pending_functions := q \<rparr>) = (resolve L g ps s)\<lparr> dd_pending_functions := q \<rparr>"
  "resolve L g ps (s\<lparr> dd_pending_traits := r \<rparr>) = (resolve L g ps s)\<lparr> dd_pending_traits := r \<rparr>"
  by (induction ps arbitrary: s) (simp_all add: resolve_def add_dependencies_pending)

lemma resolve_simps: "resolve L g [] s = s"
  "fold (\<lambda>(caller, args). add_dependencies L caller (h args)) ps s' = resolve L (\<lambda>(caller, args). (caller, h args)) ps s'"
  "fold (\<lambda>(caller, f, args). add_dependencies L caller (k f args)) qs s' = resolve L (\<lambda>(caller, f, args). (caller, k f args)) qs s'"
  by (simp_all add: resolve_def case_prod_unfold)

lemma bt_remove_absent: "bt_get m k = None \<Longrightarrow> bt_remove k m = m"
  by (auto simp: bt_remove_def map_of_eq_None_iff intro!: filter_True)

lemma add_defined_function_eq:
  "add_defined_function L c f ts s =
     (resolve L (\<lambda>(caller, args). (caller, check_callee_type ts args))
        (case bt_get (dd_pending_functions s) (c, f) of Some ps \<Rightarrow> ps | None \<Rightarrow> []) s)
       \<lparr> dd_pending_functions := bt_remove (c, f) (dd_pending_functions s),
         dd_functions := bt_insert (c, f) ts (dd_functions s) \<rparr>"
  by (cases "bt_get (dd_pending_functions s) (c, f)")
    (simp_all add: add_defined_function_def Let_def resolve_simps resolve_pending bt_remove_absent)

lemma add_defined_trait_eq:
  "add_defined_trait L c n def s =
     (resolve L (\<lambda>(caller, f, args). (caller, check_trait_dependencies def f args))
        (case bt_get (dd_pending_traits s) (n, c) of Some ps \<Rightarrow> ps | None \<Rightarrow> []) s)
       \<lparr> dd_pending_traits := bt_remove (n, c) (dd_pending_traits s),
         dd_traits := bt_insert (c, n) def (dd_traits s) \<rparr>"
  by (cases "bt_get (dd_pending_traits s) (n, c)")
    (simp_all add: add_defined_trait_def Let_def resolve_simps resolve_pending bt_remove_absent)

section \<open>What the detector has been told\<close>

record 'c told =
  told_calls :: "('c \<times> 'c \<times> clarity_name \<times> 'c sexpr list) set"
  told_uses :: "('c \<times> 'c) set"
  told_functions :: "('c \<times> clarity_name \<times> type_signature list) set"

definition told_nothing :: "'c told" where
  "told_nothing = \<lparr> told_calls = {}, told_uses = {}, told_functions = {} \<rparr>"

fun function_defined :: "'c detector_lib \<Rightarrow> 'c ast_visit \<Rightarrow> (clarity_name \<times> type_signature list) option" where
  "function_defined L (Define_visit (Visit_define_private _ name parameters _)) = Some (name, param_types L parameters)"
| "function_defined L (Define_visit (Visit_define_read_only _ name parameters _)) = Some (name, param_types L parameters)"
| "function_defined L (Define_visit (Visit_define_public _ name parameters _)) = Some (name, param_types L parameters)"
| "function_defined L _ = None"

text \<open>A visit while the contract \<open>c\<close> is walked, and a visit of the preloaded contract \<open>c\<close>.\<close>

fun tell :: "'c detector_lib \<Rightarrow> 'c \<Rightarrow> 'c ast_visit \<Rightarrow> 'c told \<Rightarrow> 'c told" where
  "tell L c (Chain_visit (Visit_static_contract_call _ x f args)) G =
     G\<lparr> told_calls := insert (c, x, f, args) (told_calls G), told_uses := insert (c, x) (told_uses G) \<rparr>"
| "tell L c (Define_visit (Visit_use_trait _ _ t)) G = G\<lparr> told_uses := insert (c, trait_contract t) (told_uses G) \<rparr>"
| "tell L c (Define_visit (Visit_impl_trait _ t)) G = G\<lparr> told_uses := insert (c, trait_contract t) (told_uses G) \<rparr>"
| "tell L c v G =
     (case function_defined L v of
        Some (f, ts) \<Rightarrow> G\<lparr> told_functions := insert (c, f, ts) (told_functions G) \<rparr>
      | None \<Rightarrow> G)"

fun tell_preloaded :: "'c detector_lib \<Rightarrow> 'c \<Rightarrow> 'c ast_visit \<Rightarrow> 'c told \<Rightarrow> 'c told" where
  "tell_preloaded L c (Define_visit (Visit_define_read_only _ name parameters _)) G =
     G\<lparr> told_functions := insert (c, name, param_types L parameters) (told_functions G) \<rparr>"
| "tell_preloaded L c (Define_visit (Visit_define_public _ name parameters _)) G =
     G\<lparr> told_functions := insert (c, name, param_types L parameters) (told_functions G) \<rparr>"
| "tell_preloaded L c v G = G"

section \<open>The invariant\<close>

definition call_settled :: "'c::linorder detector_lib \<Rightarrow> 'c told \<Rightarrow> 'c detector \<Rightarrow> 'c \<times> 'c \<times> clarity_name \<times> 'c sexpr list \<Rightarrow> bool" where
  "call_settled L G s = (\<lambda>(c, x, f, args).
     \<exists>ts. (x, f, ts) \<in> told_functions G \<and> (\<forall>d \<in> set (check_callee_type ts args). depends_in L s c d))"

definition call_pending :: "'c detector \<Rightarrow> 'c \<times> 'c \<times> clarity_name \<times> 'c sexpr list \<Rightarrow> bool" where
  "call_pending s = (\<lambda>(c, x, f, args).
     \<exists>ps. bt_get (dd_pending_functions s) (x, f) = Some ps \<and> (c, args) \<in> set ps)"

definition detector_inv :: "'c::linorder detector_lib \<Rightarrow> 'c told \<Rightarrow> 'c detector \<Rightarrow> bool" where
  "detector_inv L G s \<longleftrightarrow>
     (\<forall>c x. (c, x) \<in> told_uses G \<longrightarrow> depends_in L s c x) \<and>
     (\<forall>c x f args. (c, x, f, args) \<in> told_calls G \<longrightarrow>
        call_settled L G s (c, x, f, args) \<or> call_pending s (c, x, f, args)) \<and>
     (\<forall>x f ps. bt_get (dd_pending_functions s) (x, f) = Some ps \<longrightarrow>
        bt_get (dd_functions s) (x, f) = None \<and> ps \<noteq> []) \<and>
     (\<forall>x f ps c args. bt_get (dd_pending_functions s) (x, f) = Some ps \<longrightarrow> (c, args) \<in> set ps \<longrightarrow>
        (c, x, f, args) \<in> told_calls G) \<and>
     (\<forall>x f ts. bt_get (dd_functions s) (x, f) = Some ts \<longrightarrow> (x, f, ts) \<in> told_functions G) \<and>
     (\<forall>x f ts. (x, f, ts) \<in> told_functions G \<longrightarrow> bt_get (dd_functions s) (x, f) \<noteq> None)"

lemma detector_inv_intro:
  assumes "\<And>c x. (c, x) \<in> told_uses G \<Longrightarrow> depends_in L s c x"
    and "\<And>c x f args. (c, x, f, args) \<in> told_calls G \<Longrightarrow>
      call_settled L G s (c, x, f, args) \<or> call_pending s (c, x, f, args)"
    and "\<And>x f ps. bt_get (dd_pending_functions s) (x, f) = Some ps \<Longrightarrow>
      bt_get (dd_functions s) (x, f) = None \<and> ps \<noteq> []"
    and "\<And>x f ps c args. bt_get (dd_pending_functions s) (x, f) = Some ps \<Longrightarrow> (c, args) \<in> set ps \<Longrightarrow>
      (c, x, f, args) \<in> told_calls G"
    and "\<And>x f ts. bt_get (dd_functions s) (x, f) = Some ts \<Longrightarrow> (x, f, ts) \<in> told_functions G"
    and "\<And>x f ts. (x, f, ts) \<in> told_functions G \<Longrightarrow> bt_get (dd_functions s) (x, f) \<noteq> None"
  shows "detector_inv L G s"
  unfolding detector_inv_def by (intro conjI allI impI) (simp_all add: assms)

lemma detector_invD:
  assumes "detector_inv L G s"
  shows "(c, x) \<in> told_uses G \<Longrightarrow> depends_in L s c x"
    and "(c, x, f, args) \<in> told_calls G \<Longrightarrow> call_settled L G s (c, x, f, args) \<or> call_pending s (c, x, f, args)"
    and "bt_get (dd_pending_functions s) (x, f) = Some ps \<Longrightarrow> bt_get (dd_functions s) (x, f) = None \<and> ps \<noteq> []"
    and "bt_get (dd_pending_functions s) (x, f) = Some ps \<Longrightarrow> (c, args) \<in> set ps \<Longrightarrow> (c, x, f, args) \<in> told_calls G"
    and "bt_get (dd_functions s) (x, f) = Some ts \<Longrightarrow> (x, f, ts) \<in> told_functions G"
    and "(x, f, ts) \<in> told_functions G \<Longrightarrow> bt_get (dd_functions s) (x, f) \<noteq> None"
proof -
  note i = assms [unfolded detector_inv_def]
  show "(c, x) \<in> told_uses G \<Longrightarrow> depends_in L s c x"
    by (rule i [THEN conjunct1, rule_format])
  show "(c, x, f, args) \<in> told_calls G \<Longrightarrow> call_settled L G s (c, x, f, args) \<or> call_pending s (c, x, f, args)"
    by (rule i [THEN conjunct2, THEN conjunct1, rule_format])
  show "bt_get (dd_pending_functions s) (x, f) = Some ps \<Longrightarrow> bt_get (dd_functions s) (x, f) = None \<and> ps \<noteq> []"
    by (rule i [THEN conjunct2, THEN conjunct2, THEN conjunct1, rule_format])
  show "bt_get (dd_pending_functions s) (x, f) = Some ps \<Longrightarrow> (c, args) \<in> set ps \<Longrightarrow> (c, x, f, args) \<in> told_calls G"
    by (rule i [THEN conjunct2, THEN conjunct2, THEN conjunct2, THEN conjunct1, rule_format])
  show "bt_get (dd_functions s) (x, f) = Some ts \<Longrightarrow> (x, f, ts) \<in> told_functions G"
    by (rule i [THEN conjunct2, THEN conjunct2, THEN conjunct2, THEN conjunct2, THEN conjunct1, rule_format])
  show "(x, f, ts) \<in> told_functions G \<Longrightarrow> bt_get (dd_functions s) (x, f) \<noteq> None"
    by (rule i [THEN conjunct2, THEN conjunct2, THEN conjunct2, THEN conjunct2, THEN conjunct2, rule_format])
qed

lemma call_settled_mono:
  assumes "call_settled L G s q" and "told_functions G \<subseteq> told_functions G'"
    and "\<And>c x. depends_in L s c x \<Longrightarrow> depends_in L s' c x"
  shows "call_settled L G' s' q"
  using assms by (cases q) (auto simp: call_settled_def)

text \<open>A change that only adds dependencies.\<close>

lemma detector_inv_more:
  assumes "detector_inv L G s" and "\<And>c x. depends_in L s c x \<Longrightarrow> depends_in L s' c x"
    and "dd_functions s' = dd_functions s" and "dd_pending_functions s' = dd_pending_functions s"
    and "told_calls G' = told_calls G" and "told_functions G' = told_functions G"
    and "\<And>c x. (c, x) \<in> told_uses G' \<Longrightarrow> (c, x) \<in> told_uses G \<or> depends_in L s' c x"
  shows "detector_inv L G' s'"
proof (rule detector_inv_intro)
  fix c x f args
  assume "(c, x, f, args) \<in> told_calls G'"
  with assms(5) have "(c, x, f, args) \<in> told_calls G" by simp
  from detector_invD(2) [OF assms(1) this]
  show "call_settled L G' s' (c, x, f, args) \<or> call_pending s' (c, x, f, args)"
  proof
    assume "call_settled L G s (c, x, f, args)"
    then have "call_settled L G' s' (c, x, f, args)"
      by (rule call_settled_mono) (simp_all add: assms(2,6))
    then show ?thesis ..
  qed (simp add: call_pending_def assms(4))
next
  show "depends_in L s' c x" if "(c, x) \<in> told_uses G'" for c x
    using assms(7) [OF that] detector_invD(1) [OF assms(1)] assms(2) by blast
qed (use detector_invD(3-) [OF assms(1)] in \<open>simp_all add: assms(3-6)\<close>)

lemma detector_inv_define:
  assumes inv: "detector_inv L G s"
  shows "detector_inv L (G\<lparr> told_functions := insert (c, f, ts) (told_functions G) \<rparr>) (add_defined_function L c f ts s)"
    (is "detector_inv L ?G ?s")
proof -
  have more: "depends_in L ?s d x" if "depends_in L s d x" for d x
    using that by (subst depends_in_cong [of ?s "resolve L _ _ s"])
      (simp_all add: add_defined_function_eq depends_in_resolve)
  show ?thesis
  proof (rule detector_inv_intro)
    fix d x g args
    assume "(d, x, g, args) \<in> told_calls ?G"
    then have "(d, x, g, args) \<in> told_calls G" by simp
    from detector_invD(2) [OF inv this]
    show "call_settled L ?G ?s (d, x, g, args) \<or> call_pending ?s (d, x, g, args)"
    proof
      assume "call_settled L G s (d, x, g, args)"
      then have "call_settled L ?G ?s (d, x, g, args)"
        by (rule call_settled_mono) (auto intro: more)
      then show ?thesis ..
    next
      assume "call_pending s (d, x, g, args)"
      then obtain ps where ps: "bt_get (dd_pending_functions s) (x, g) = Some ps" "(d, args) \<in> set ps"
        by (auto simp: call_pending_def)
      show ?thesis
      proof (cases "(x, g) = (c, f)")
        case True
        have "depends_in L ?s d y" if "y \<in> set (check_callee_type ts args)" for y
          using that ps True
          by (subst depends_in_cong [of ?s "resolve L _ _ s"])
            (force simp: add_defined_function_eq depends_in_resolve)+
        then have "call_settled L ?G ?s (d, x, g, args)"
          using True by (auto simp: call_settled_def)
        then show ?thesis ..
      next
        case False
        with ps show ?thesis
          by (auto simp: call_pending_def add_defined_function_eq bt.get_remove)
      qed
    qed
  qed (use detector_invD [OF inv] more in
    \<open>auto simp: add_defined_function_eq bt.get_remove bt.get_insert split: if_splits\<close>)
qed

lemma detector_inv_call:
  assumes inv: "detector_inv L G s" and c: "current_contract s = c"
  shows "detector_inv L (G\<lparr> told_calls := insert (c, x, f, args) (told_calls G), told_uses := insert (c, x) (told_uses G) \<rparr>)
    (visit_static_contract_call L x f args s)" (is "detector_inv L ?G ?s")
proof (cases "bt_get (dd_functions s) (x, f)")
  case (Some ts)
  then have s: "?s = add_dependencies L c (check_callee_type ts args) (add_dependency L c x s)"
    by (simp add: visit_static_contract_call_def c)
  show ?thesis
  proof (rule detector_inv_intro)
    fix d y g args'
    assume "(d, y, g, args') \<in> told_calls ?G"
    then consider "(d, y, g, args') = (c, x, f, args)" | "(d, y, g, args') \<in> told_calls G" by auto
    then show "call_settled L ?G ?s (d, y, g, args') \<or> call_pending ?s (d, y, g, args')"
    proof cases
      case 1
      have "call_settled L ?G ?s (d, y, g, args')"
        using 1 detector_invD(5) [OF inv Some] by (auto simp: call_settled_def s depends_in_adds)
      then show ?thesis ..
    next
      case 2
      from detector_invD(2) [OF inv this] show ?thesis
        using call_settled_mono [of L G s "(d, y, g, args')" ?G ?s]
        by (auto simp: s depends_in_adds depends_in_add call_pending_def)
    qed
  qed (use detector_invD [OF inv] in \<open>auto simp: s depends_in_adds depends_in_add\<close>)
next
  case None
  let ?checks = "case bt_get (dd_pending_functions s) (x, f) of Some checks \<Rightarrow> checks @ [(c, args)] | None \<Rightarrow> [(c, args)]"
  from None have s: "?s = (add_dependency L c x s)\<lparr> dd_pending_functions :=
      bt_insert (x, f) ?checks (dd_pending_functions s) \<rparr>"
    by (simp add: visit_static_contract_call_def add_pending_function_check_def c)
  have more: "depends_in L ?s d y \<longleftrightarrow> depends_in L (add_dependency L c x s) d y" for d y
    by (rule depends_in_cong) (simp_all add: s)
  show ?thesis
  proof (rule detector_inv_intro)
    fix d y g args'
    assume "(d, y, g, args') \<in> told_calls ?G"
    then consider "(d, y, g, args') = (c, x, f, args)" | "(d, y, g, args') \<in> told_calls G" by auto
    then show "call_settled L ?G ?s (d, y, g, args') \<or> call_pending ?s (d, y, g, args')"
    proof cases
      case 1
      then have "call_pending ?s (d, y, g, args')"
        by (auto simp: call_pending_def s bt.get_insert split: option.split)
      then show ?thesis ..
    next
      case 2
      from detector_invD(2) [OF inv this] show ?thesis
      proof
        assume "call_settled L G s (d, y, g, args')"
        then have "call_settled L ?G ?s (d, y, g, args')"
          by (rule call_settled_mono) (auto simp: more depends_in_add)
        then show ?thesis ..
      qed (auto simp: call_pending_def s bt.get_insert split: option.splits)
    qed
  next
    fix y g ps d args'
    assume "bt_get (dd_pending_functions ?s) (y, g) = Some ps" "(d, args') \<in> set ps"
    then show "(d, y, g, args') \<in> told_calls ?G"
      using detector_invD(4) [OF inv, of x f] detector_invD(4) [OF inv, of y g]
      by (auto simp: s bt.get_insert split: if_splits option.splits)
  next
    fix y g ps
    assume "bt_get (dd_pending_functions ?s) (y, g) = Some ps"
    then show "bt_get (dd_functions ?s) (y, g) = None \<and> ps \<noteq> []"
      using detector_invD(3) [OF inv, of y g] None by (auto simp: s bt.get_insert split: if_splits option.splits)
  qed (use detector_invD [OF inv] in \<open>auto simp: more depends_in_add\<close>, use detector_invD(5-) [OF inv] in \<open>auto simp: s\<close>)
qed

lemma depends_in_fields [simp]:
  "depends_in L (s\<lparr> dd_pending_traits := r \<rparr>) = depends_in L s"
  "depends_in L (s\<lparr> dd_pending_functions := q \<rparr>) = depends_in L s"
  "depends_in L (s\<lparr> dd_traits := ts \<rparr>) = depends_in L s"
  "depends_in L (s\<lparr> dd_functions := fs \<rparr>) = depends_in L s"
  "depends_in L (s\<lparr> dd_constants := cs \<rparr>) = depends_in L s"
  "depends_in L (s\<lparr> dd_params := ps \<rparr>) = depends_in L s"
  "depends_in L (s\<lparr> dd_top_level := b \<rparr>) = depends_in L s"
  "depends_in L (s\<lparr> dd_clarity_version := ver \<rparr>) = depends_in L s"
  "depends_in L (s\<lparr> dd_contract := co \<rparr>) = depends_in L s"
  by (simp_all add: depends_in_def fun_eq_iff)

lemma detector_inv_use:
  assumes "detector_inv L G s" and "current_contract s = c"
  shows "detector_inv L (G\<lparr> told_uses := insert (c, trait_contract t) (told_uses G) \<rparr>) (visit_trait_use L t s)"
  by (rule detector_inv_more [OF assms(1)]) (auto simp: visit_trait_use_def depends_in_add assms(2))

lemma detector_inv_user_defined:
  "detector_inv L G s \<Longrightarrow> detector_inv L G (visit_call_user_defined L name args s)"
  by (erule detector_inv_more) (auto simp: visit_call_user_defined_def depends_in_adds split: option.split)

lemma detector_inv_dynamic:
  "detector_inv L G s \<Longrightarrow> detector_inv L G (visit_dynamic_contract_call L callable f args s)"
  by (erule detector_inv_more)
    (auto simp: visit_dynamic_contract_call_def Let_def add_pending_trait_check_def depends_in_adds depends_in_add
      split: option.split)

lemma detector_inv_constant:
  "detector_inv L G s \<Longrightarrow> detector_inv L G (visit_define_constant name val s)"
  by (erule detector_inv_more)
    (auto simp: visit_define_constant_def add_defined_contract_constant_def split: option.split ast_value.split)

lemma detector_inv_defined_trait:
  "detector_inv L G s \<Longrightarrow> detector_inv L G (add_defined_trait L c name def s)"
  by (erule detector_inv_more) (auto simp: add_defined_trait_eq depends_in_resolve)

lemma detector_inv_trait:
  "detector_inv L G s \<Longrightarrow> detector_inv L G (visit_define_trait L name fs s)"
  by (auto simp: visit_define_trait_def detector_inv_defined_trait split: option.split)

lemma detector_inv_function:
  "detector_inv L G s \<Longrightarrow> current_contract s = c \<Longrightarrow>
     detector_inv L (G\<lparr> told_functions := insert (c, name, param_types L ps) (told_functions G) \<rparr>)
       (visit_define_function L name ps s)"
  by (simp add: visit_define_function_def detector_inv_define)

lemmas detector_inv_visits = detector_inv_use detector_inv_user_defined detector_inv_dynamic detector_inv_constant
  detector_inv_trait detector_inv_function detector_inv_call

lemma detector_inv_visit:
  assumes "detector_inv L G s" and "current_contract s = c"
  shows "detector_inv L (tell L c v G) (detector_visit L v s)"
proof (cases v)
  case (Define_visit d)
  then show ?thesis using assms by (cases d) (simp_all add: detector_inv_visits)
next
  case (Control_visit d)
  then show ?thesis using assms by (cases d) (simp_all add: detector_inv_visits)
next
  case (Chain_visit d)
  then show ?thesis using assms by (cases d) (simp_all add: detector_inv_visits)
qed (use assms in simp_all)

lemma detector_visit_fields [simp]:
  "dd_contract (detector_visit L v s) = dd_contract s"
  "dd_clarity_version (detector_visit L v s) = dd_clarity_version s"
  "dd_preloaded (detector_visit L v s) = dd_preloaded s"
  by (induction L v s rule: detector_visit.induct)
    (auto simp: visit_define_function_def add_defined_function_eq visit_define_trait_def add_defined_trait_eq
      visit_trait_use_def visit_define_constant_def add_defined_contract_constant_def visit_static_contract_call_def
      add_pending_function_check_def visit_dynamic_contract_call_def add_pending_trait_check_def
      visit_call_user_defined_def Let_def split: option.split ast_value.split)

section \<open>Well-formedness\<close>

text \<open>
  \<open>E\<close> are the contracts that have been entered: exactly they have a set of dependencies, in which no
  placeholder occurs, and that stays empty for a preloaded contract; every pending check is one of
  theirs.
\<close>

definition set_wf :: "'c::linorder detector_lib \<Rightarrow> 'c detector \<Rightarrow> 'c \<Rightarrow> 'c dependency_set \<Rightarrow> bool" where
  "set_wf L s c ds \<longleftrightarrow>
     bt_wf ds \<and> (\<forall>d \<in> fst ` set ds. \<not> is_placeholder L d) \<and> (bt_get (dd_preloaded s) c \<noteq> None \<longrightarrow> ds = [])"

definition detector_wf :: "'c::linorder detector_lib \<Rightarrow> 'c set \<Rightarrow> 'c detector \<Rightarrow> bool" where
  "detector_wf L E s \<longleftrightarrow>
     bt_wf (dd_dependencies s) \<and>
     (\<forall>c. bt_get (dd_dependencies s) c = None \<longleftrightarrow> c \<notin> E) \<and>
     (\<forall>c ds. bt_get (dd_dependencies s) c = Some ds \<longrightarrow> set_wf L s c ds) \<and>
     (\<forall>q ps p. bt_get (dd_pending_functions s) q = Some ps \<longrightarrow> p \<in> set ps \<longrightarrow> fst p \<in> E) \<and>
     (\<forall>q ps p. bt_get (dd_pending_traits s) q = Some ps \<longrightarrow> p \<in> set ps \<longrightarrow> fst p \<in> E)"

lemma detector_wf_intro:
  assumes "bt_wf (dd_dependencies s)" and "\<And>c. bt_get (dd_dependencies s) c = None \<longleftrightarrow> c \<notin> E"
    and "\<And>c ds. bt_get (dd_dependencies s) c = Some ds \<Longrightarrow> set_wf L s c ds"
    and "\<And>q ps p. bt_get (dd_pending_functions s) q = Some ps \<Longrightarrow> p \<in> set ps \<Longrightarrow> fst p \<in> E"
    and "\<And>q ps p. bt_get (dd_pending_traits s) q = Some ps \<Longrightarrow> p \<in> set ps \<Longrightarrow> fst p \<in> E"
  shows "detector_wf L E s"
  unfolding detector_wf_def by (intro conjI allI impI) (use assms in blast)+

lemma detector_wfD:
  assumes "detector_wf L E s"
  shows "bt_wf (dd_dependencies s)" and "bt_get (dd_dependencies s) c = None \<longleftrightarrow> c \<notin> E"
    and "bt_get (dd_dependencies s) c = Some ds \<Longrightarrow> set_wf L s c ds"
    and "bt_get (dd_pending_functions s) q = Some ps \<Longrightarrow> p \<in> set ps \<Longrightarrow> fst p \<in> E"
    and "bt_get (dd_pending_traits s) r = Some qs \<Longrightarrow> u \<in> set qs \<Longrightarrow> fst u \<in> E"
  using assms unfolding detector_wf_def by blast+

lemma set_wf_add:
  "set_wf L s c ds \<Longrightarrow> bt_get (dd_preloaded s) c = None \<Longrightarrow> \<not> is_placeholder L x \<Longrightarrow>
     set_wf L s c (dependency_set_add x b ds)"
  by (simp add: set_wf_def dependency_add_wf)

lemma set_wf_cong: "dd_preloaded s' = dd_preloaded s \<Longrightarrow> set_wf L s' c ds = set_wf L s c ds"
  by (simp add: set_wf_def)

lemma detector_wf_cong:
  assumes "detector_wf L E s" and "dd_dependencies s' = dd_dependencies s" and "dd_preloaded s' = dd_preloaded s"
    and "dd_pending_functions s' = dd_pending_functions s" and "dd_pending_traits s' = dd_pending_traits s"
  shows "detector_wf L E s'"
  using assms by (simp add: detector_wf_def set_wf_def)

lemma detector_wf_add:
  assumes wf: "detector_wf L E s" and a: "a \<in> E"
  shows "detector_wf L E (add_dependency L a b s)"
proof (cases "bt_get (dd_preloaded s) a = None \<and> \<not> is_placeholder L b")
  case True
  obtain ds where ds: "bt_get (dd_dependencies s) a = Some ds"
    using detector_wfD(2) [OF wf, of a] a by (cases "bt_get (dd_dependencies s) a") auto
  let ?d = "bt_insert a (dependency_set_add b (dd_top_level s) ds) (dd_dependencies s)"
  have s: "add_dependency L a b s = s\<lparr> dd_dependencies := ?d \<rparr>"
    using True ds by (simp add: add_dependency_def)
  have new: "set_wf L s a (dependency_set_add b (dd_top_level s) ds)"
    by (rule set_wf_add) (use True detector_wfD(3) [OF wf ds] in auto)
  show ?thesis
    unfolding s
  proof (rule detector_wf_intro)
    show "bt_get (dd_dependencies (s\<lparr> dd_dependencies := ?d \<rparr>)) c = None \<longleftrightarrow> c \<notin> E" for c
      using detector_wfD(2) [OF wf, of c] a by (simp add: bt.get_insert)
    show "set_wf L (s\<lparr> dd_dependencies := ?d \<rparr>) c ds'"
      if "bt_get (dd_dependencies (s\<lparr> dd_dependencies := ?d \<rparr>)) c = Some ds'" for c ds'
      using that new detector_wfD(3) [OF wf, of c ds']
      by (cases "c = a") (auto simp: bt.get_insert set_wf_def)
  qed (use detector_wfD [OF wf] in \<open>simp_all add: bt_wf_insert\<close>)
qed (use wf in \<open>auto simp: add_dependency_def\<close>)

lemma detector_wf_adds: "detector_wf L E s \<Longrightarrow> a \<in> E \<Longrightarrow> detector_wf L E (add_dependencies L a xs s)"
  by (induction xs arbitrary: s) (simp_all add: add_dependencies_def detector_wf_add)

lemma detector_wf_resolve:
  "detector_wf L E s \<Longrightarrow> \<forall>p \<in> set ps. fst (g p) \<in> E \<Longrightarrow> detector_wf L E (resolve L g ps s)"
  by (induction ps arbitrary: s) (simp_all add: resolve_def detector_wf_adds)

lemma detector_wf_settle:
  assumes wf: "detector_wf L E s"
  shows "detector_wf L E (s\<lparr> dd_pending_functions := bt_remove q (dd_pending_functions s) \<rparr>)"
    and "detector_wf L E (s\<lparr> dd_pending_traits := bt_remove r (dd_pending_traits s) \<rparr>)"
proof -
  note D = detector_wfD [OF wf]
  show "detector_wf L E (s\<lparr> dd_pending_functions := bt_remove q (dd_pending_functions s) \<rparr>)"
  proof (rule detector_wf_intro)
    show "fst p \<in> E" if "bt_get (dd_pending_functions (s\<lparr> dd_pending_functions := bt_remove q (dd_pending_functions s) \<rparr>)) k = Some ps"
      "p \<in> set ps" for k ps p
      using that D(4) [of k ps p] by (simp add: bt.get_remove split: if_splits)
  qed (use D in \<open>simp_all add: set_wf_def\<close>)
  show "detector_wf L E (s\<lparr> dd_pending_traits := bt_remove r (dd_pending_traits s) \<rparr>)"
  proof (rule detector_wf_intro)
    show "fst p \<in> E" if "bt_get (dd_pending_traits (s\<lparr> dd_pending_traits := bt_remove r (dd_pending_traits s) \<rparr>)) k = Some ps"
      "p \<in> set ps" for k ps p
      using that D(5) [of k ps p] by (simp add: bt.get_remove split: if_splits)
  qed (use D in \<open>simp_all add: set_wf_def\<close>)
qed

lemma detector_wf_defined:
  assumes wf: "detector_wf L E s"
  shows "detector_wf L E (add_defined_function L c f ts s)" and "detector_wf L E (add_defined_trait L c f def s)"
proof -
  have "detector_wf L E (resolve L (\<lambda>(caller, args). (caller, check_callee_type ts args))
      (case bt_get (dd_pending_functions s) (c, f) of Some ps \<Rightarrow> ps | None \<Rightarrow> []) s)"
  proof (rule detector_wf_resolve [OF wf], cases "bt_get (dd_pending_functions s) (c, f)")
    case (Some ps)
    show "\<forall>p \<in> set (case bt_get (dd_pending_functions s) (c, f) of Some ps \<Rightarrow> ps | None \<Rightarrow> []).
        fst (case p of (caller, args) \<Rightarrow> (caller, check_callee_type ts args)) \<in> E"
      using detector_wfD(4) [OF wf Some] by (auto simp: Some)
  qed simp
  from detector_wf_settle(1) [OF this, of "(c, f)"]
  show "detector_wf L E (add_defined_function L c f ts s)"
    by (rule detector_wf_cong) (simp_all add: add_defined_function_eq)
  have "detector_wf L E (resolve L (\<lambda>(caller, g, args). (caller, check_trait_dependencies def g args))
      (case bt_get (dd_pending_traits s) (f, c) of Some ps \<Rightarrow> ps | None \<Rightarrow> []) s)"
  proof (rule detector_wf_resolve [OF wf], cases "bt_get (dd_pending_traits s) (f, c)")
    case (Some ps)
    show "\<forall>p \<in> set (case bt_get (dd_pending_traits s) (f, c) of Some ps \<Rightarrow> ps | None \<Rightarrow> []).
        fst (case p of (caller, g, args) \<Rightarrow> (caller, check_trait_dependencies def g args)) \<in> E"
      using detector_wfD(5) [OF wf Some] by (auto simp: Some)
  qed simp
  from detector_wf_settle(2) [OF this, of "(f, c)"]
  show "detector_wf L E (add_defined_trait L c f def s)"
    by (rule detector_wf_cong) (simp_all add: add_defined_trait_eq)
qed

lemma detector_wf_pend:
  assumes wf: "detector_wf L E s" and c: "c \<in> E"
  shows "detector_wf L E (add_pending_function_check c q args s)" and "detector_wf L E (add_pending_trait_check c t f args s)"
proof -
  note D = detector_wfD [OF wf]
  show "detector_wf L E (add_pending_function_check c q args s)"
  proof (rule detector_wf_intro)
    show "fst p \<in> E" if "bt_get (dd_pending_functions (add_pending_function_check c q args s)) k = Some ps" "p \<in> set ps" for k ps p
    proof (cases "bt_get (dd_pending_functions s) k")
      case None
      then show ?thesis using that c
        by (auto simp: add_pending_function_check_def bt.get_insert split: if_splits)
    next
      case (Some ps')
      then show ?thesis using that c D(4) [OF Some, of p]
        by (auto simp: add_pending_function_check_def bt.get_insert split: if_splits)
    qed
  qed (use D in \<open>simp_all add: add_pending_function_check_def set_wf_def\<close>)
  show "detector_wf L E (add_pending_trait_check c t f args s)"
  proof (rule detector_wf_intro)
    show "fst p \<in> E" if "bt_get (dd_pending_traits (add_pending_trait_check c t f args s)) k = Some ps" "p \<in> set ps" for k ps p
    proof (cases "bt_get (dd_pending_traits s) k")
      case None
      then show ?thesis using that c
        by (auto simp: add_pending_trait_check_def bt.get_insert split: if_splits)
    next
      case (Some ps')
      then show ?thesis using that c D(5) [OF Some, of p]
        by (auto simp: add_pending_trait_check_def bt.get_insert split: if_splits)
    qed
  qed (use D in \<open>simp_all add: add_pending_trait_check_def set_wf_def\<close>)
qed

lemma detector_wf_constants [simp]: "detector_wf L E (s\<lparr> dd_constants := cs \<rparr>) = detector_wf L E s"
  by (simp add: detector_wf_def set_wf_def)

lemma detector_wf_visit:
  assumes wf: "detector_wf L E s" and c: "current_contract s \<in> E"
  shows "detector_wf L E (detector_visit L v s)"
  using wf c
  by (induction L v s rule: detector_visit.induct)
    (simp_all add: visit_define_function_def visit_define_trait_def visit_trait_use_def visit_define_constant_def
      add_defined_contract_constant_def visit_static_contract_call_def visit_dynamic_contract_call_def
      visit_call_user_defined_def Let_def detector_wf_defined detector_wf_add detector_wf_adds detector_wf_pend
      split: option.split ast_value.split)

lemma preloaded_wf_visit: "detector_wf L E s \<Longrightarrow> detector_wf L E (preloaded_visit L c ver v s)"
  by (induction L c ver v s rule: preloaded_visit.induct)
    (simp_all add: detector_wf_defined split: option.split)

end
