(* ===== verification/Ast_Coverage.thy ===== *)
theory Ast_Coverage
  imports Ast_Events "HOL-Library.Multiset"
begin

text \<open>
  What the walks of \<^verbatim>\<open>trait ASTVisitor\<close> cover. The operands of a visit are the expressions among the
  parameters of its method (types and the signatures of a trait are no operands). Before a visit, the
  walk goes through its operands, with two exceptions that are named in the properties.
\<close>

section \<open>The operands of a visit\<close>

definition define_operands :: "'c ast_lib \<Rightarrow> 'c define_visit \<Rightarrow> 'c sexpr list" where
  "define_operands A v =
     (case v of
        Visit_define_constant _ _ b \<Rightarrow> [b]
      | Visit_define_private _ _ _ c \<Rightarrow> [c]
      | Visit_define_read_only _ _ _ c \<Rightarrow> [c]
      | Visit_define_public _ _ _ c \<Rightarrow> [c]
      | Visit_define_nft _ _ _ \<Rightarrow> []
      | Visit_define_ft _ _ b \<Rightarrow> list_of b
      | Visit_define_map _ _ _ _ \<Rightarrow> []
      | Visit_define_data_var _ _ _ c \<Rightarrow> [c]
      | Visit_define_trait _ _ _ \<Rightarrow> []
      | Visit_use_trait _ _ _ \<Rightarrow> []
      | Visit_impl_trait _ _ \<Rightarrow> [])"

definition compute_operands :: "'c ast_lib \<Rightarrow> 'c compute_visit \<Rightarrow> 'c sexpr list" where
  "compute_operands A v =
     (case v of
        Visit_arithmetic _ _ b \<Rightarrow> b
      | Visit_binary_bitwise _ _ b c \<Rightarrow> [b, c]
      | Visit_comparison _ _ b \<Rightarrow> b
      | Visit_lazy_logical _ _ b \<Rightarrow> b
      | Visit_logical _ _ b \<Rightarrow> b
      | Visit_int_cast _ a \<Rightarrow> [a]
      | Visit_bitwise _ _ b \<Rightarrow> b
      | Visit_bit_shift _ _ b c \<Rightarrow> [b, c]
      | Visit_hash _ _ b \<Rightarrow> [b]
      | Visit_secp256k1_recover _ a b \<Rightarrow> [a, b]
      | Visit_secp256k1_verify _ a b c \<Rightarrow> [a, b, c]
      | Visit_secp256r1_verify _ a b c \<Rightarrow> [a, b, c]
      | Visit_ed25519_verify _ a b c \<Rightarrow> [a, b, c]
      | Visit_secp256k1_decompress _ a \<Rightarrow> [a]
      | Visit_verify_merkle_proof _ a b c d e \<Rightarrow> [a, b, c, d, e]
      | Visit_get_bitcoin_tx_output _ a b \<Rightarrow> [a, b]
      | Visit_buff_cast _ a \<Rightarrow> [a]
      | Visit_string_to_int _ a \<Rightarrow> [a]
      | Visit_int_to_string _ a \<Rightarrow> [a]
      | Visit_to_ascii _ a \<Rightarrow> [a]
      | Visit_to_consensus_buff _ a \<Rightarrow> [a]
      | Visit_from_consensus_buff _ a b \<Rightarrow> [a, b])"

definition control_operands :: "'c ast_lib \<Rightarrow> 'c control_visit \<Rightarrow> 'c sexpr list" where
  "control_operands A v =
     (case v of
        Visit_if _ a b c \<Rightarrow> [a, b, c]
      | Visit_let _ a b \<Rightarrow> binding_values A a @ b
      | Visit_begin _ a \<Rightarrow> a
      | Visit_print _ a \<Rightarrow> [a]
      | Visit_asserts _ a b \<Rightarrow> [a, b]
      | Visit_unwrap _ a b \<Rightarrow> [a, b]
      | Visit_unwrap_err _ a b \<Rightarrow> [a, b]
      | Visit_unwrap_panic _ a \<Rightarrow> [a]
      | Visit_unwrap_err_panic _ a \<Rightarrow> [a]
      | Visit_try _ a \<Rightarrow> [a]
      | Visit_match_option _ a _ c d \<Rightarrow> [a, c, d]
      | Visit_match_response _ a _ c _ e \<Rightarrow> [a, c, e]
      | Visit_default_to _ a b \<Rightarrow> [a, b]
      | Visit_err _ a \<Rightarrow> [a]
      | Visit_ok _ a \<Rightarrow> [a]
      | Visit_some _ a \<Rightarrow> [a]
      | Visit_is_ok _ a \<Rightarrow> [a]
      | Visit_is_none _ a \<Rightarrow> [a]
      | Visit_is_err _ a \<Rightarrow> [a]
      | Visit_is_some _ a \<Rightarrow> [a]
      | Visit_call_user_defined _ _ b \<Rightarrow> b)"

definition data_operands :: "'c ast_lib \<Rightarrow> 'c data_visit \<Rightarrow> 'c sexpr list" where
  "data_operands A v =
     (case v of
        Visit_var_get _ _ \<Rightarrow> []
      | Visit_var_set _ _ b \<Rightarrow> [b]
      | Visit_map_get _ _ b \<Rightarrow> tuple_values A b
      | Visit_map_set _ _ b c \<Rightarrow> tuple_values A b @ tuple_values A c
      | Visit_map_insert _ _ b c \<Rightarrow> tuple_values A b @ tuple_values A c
      | Visit_map_delete _ _ b \<Rightarrow> tuple_values A b
      | Visit_tuple _ a \<Rightarrow> tuple_values A a
      | Visit_get _ _ b \<Rightarrow> [b]
      | Visit_merge _ a b \<Rightarrow> [a, b]
      | Visit_filter _ _ b \<Rightarrow> [b]
      | Visit_map _ _ b \<Rightarrow> b
      | Visit_fold _ _ b c \<Rightarrow> [b, c]
      | Visit_append _ a b \<Rightarrow> [a, b]
      | Visit_concat _ a \<Rightarrow> a
      | Visit_as_max_len _ a _ \<Rightarrow> [a]
      | Visit_len _ a \<Rightarrow> [a]
      | Visit_element_at _ a b \<Rightarrow> [a, b]
      | Visit_index_of _ a b \<Rightarrow> [a, b]
      | Visit_list_cons _ a \<Rightarrow> a
      | Visit_slice _ a b c \<Rightarrow> [a, b, c]
      | Visit_replace_at _ a b c \<Rightarrow> [a, b, c])"

definition chain_operands :: "'c ast_lib \<Rightarrow> 'c chain_visit \<Rightarrow> 'c sexpr list" where
  "chain_operands A v =
     (case v of
        Visit_static_contract_call _ _ _ c \<Rightarrow> c
      | Visit_dynamic_contract_call _ a _ c \<Rightarrow> a # c
      | Visit_as_contract _ a \<Rightarrow> [a]
      | Visit_as_contract_safe _ a b \<Rightarrow> (case ast_match_list a of Some xs \<Rightarrow> xs | None \<Rightarrow> [a]) @ b
      | Visit_contract_of _ a \<Rightarrow> [a]
      | Visit_principal_of _ a \<Rightarrow> [a]
      | Visit_at_block _ a b \<Rightarrow> [a, b]
      | Visit_get_block_info _ _ b \<Rightarrow> [b]
      | Visit_get_stacks_block_info _ _ b \<Rightarrow> [b]
      | Visit_get_tenure_info _ _ b \<Rightarrow> [b]
      | Visit_get_burn_block_info _ _ b \<Rightarrow> [b]
      | Visit_is_standard _ a \<Rightarrow> [a]
      | Visit_principal_destruct _ a \<Rightarrow> [a]
      | Visit_principal_construct _ a b c \<Rightarrow> [a, b] @ list_of c
      | Visit_contract_hash _ a \<Rightarrow> [a]
      | Visit_restrict_assets _ a b c \<Rightarrow> a # binding_values A b @ c
      | Visit_allowance _ a \<Rightarrow> [a]
      | Visit_stx_get_account _ a \<Rightarrow> [a])"

definition asset_operands :: "'c ast_lib \<Rightarrow> 'c asset_visit \<Rightarrow> 'c sexpr list" where
  "asset_operands A v =
     (case v of
        Visit_stx_burn _ a b \<Rightarrow> [a, b]
      | Visit_stx_transfer _ a b c d \<Rightarrow> [a, b, c] @ list_of d
      | Visit_stx_get_balance _ a \<Rightarrow> [a]
      | Visit_ft_burn _ _ b c \<Rightarrow> [b, c]
      | Visit_ft_transfer _ _ b c d \<Rightarrow> [b, c, d]
      | Visit_ft_get_balance _ _ b \<Rightarrow> [b]
      | Visit_ft_get_supply _ _ \<Rightarrow> []
      | Visit_ft_mint _ _ b c \<Rightarrow> [b, c]
      | Visit_nft_burn _ _ b c \<Rightarrow> [b, c]
      | Visit_nft_transfer _ _ b c d \<Rightarrow> [b, c, d]
      | Visit_nft_mint _ _ b c \<Rightarrow> [b, c]
      | Visit_nft_get_owner _ _ b \<Rightarrow> [b])"

fun visit_operands :: "'c ast_lib \<Rightarrow> 'c ast_visit \<Rightarrow> 'c sexpr list" where
  "visit_operands A (Leaf_visit v) = []"
| "visit_operands A (Define_visit v) = define_operands A v"
| "visit_operands A (Compute_visit v) = compute_operands A v"
| "visit_operands A (Control_visit v) = control_operands A v"
| "visit_operands A (Data_visit v) = data_operands A v"
| "visit_operands A (Chain_visit v) = chain_operands A v"
| "visit_operands A (Asset_visit v) = asset_operands A v"

fun irregular :: "'c ast_visit \<Rightarrow> bool" where
  "irregular (Compute_visit (Visit_secp256k1_verify _ _ _ _)) = True"
| "irregular (Chain_visit (Visit_restrict_assets _ _ _ _)) = True"
| "irregular _ = False"

text \<open>A plan walks exactly the operands of its visit.\<close>

fun covers :: "'c ast_lib \<Rightarrow> 'c plan \<Rightarrow> bool" where
  "covers A (Bare steps) = True"
| "covers A (Plan steps v) = (irregular v \<or> mset (map step_expr steps) = mset (visit_operands A v))"

lemmas operands_defs = define_operands_def compute_operands_def control_operands_def data_operands_def
  chain_operands_def asset_operands_def

lemma step_expr_Must [simp]: "step_expr \<circ> Must = id"
  by (simp add: fun_eq_iff)

lemma plan_basic_covers: "covers A (plan_basic A ver e args f)"
  by (cases f) (simp_all add: plan_basic_def Let_def traverse_basic_defs operands_defs)

lemma plan_data_covers: "covers A (plan_data A ver e args f)"
  by (cases f) (simp_all add: plan_data_def Let_def traverse_data_defs operands_defs split: option.split ast_value.split)

lemma plan_contract_covers: "plan_contract A ver e args f = Done p \<Longrightarrow> covers A p"
  by (cases f) (auto simp: plan_contract_def Let_def traverse_contract_defs traverse_call_defs operands_defs image_Un
      split: option.split ast_value.split sexpr.split if_splits)

lemma plan_response_covers: "covers A (plan_response A ver e args f)"
  by (cases f) (simp_all add: plan_response_def Let_def traverse_response_defs operands_defs)

lemma plan_asset_covers: "covers A (plan_asset A ver e args f)"
  by (cases f) (simp_all add: plan_asset_def Let_def traverse_asset_defs operands_defs)

lemma plan_conversion_covers: "covers A (plan_conversion A ver e args f)"
  by (cases f) (simp_all add: plan_conversion_def Let_def traverse_conversion_defs operands_defs)

lemma plan_late_covers: "covers A (plan_late A ver e args f)"
  by (cases f) (auto simp: plan_late_def Let_def traverse_late_defs operands_defs)

lemma plan_define_covers: "covers A (plan_define A e args f)"
  by (cases f) (simp_all add: plan_define_def plan_define_function_def Let_def traverse_define_defs operands_defs
      split: option.split)

lemma dispatch_covers: "dispatch A ver e xs = Done (Some p) \<Longrightarrow> covers A p"
  by (auto simp: dispatch_def plan_native_def bind_outcome_Done_iff plan_basic_covers plan_data_covers
      plan_contract_covers plan_response_covers plan_asset_covers plan_conversion_covers plan_late_covers
      plan_define_covers traverse_call_user_defined_def operands_defs
      split: list.splits option.splits native_functions.splits)

section \<open>Coverage\<close>

text \<open>A part of the language, to evaluate the walk on.\<close>

definition sample_language :: "nat ast_lib" where
  "sample_language =
     \<lparr> al_define = (\<lambda>n. if n = ''define-public'' then Some Define_PublicFunction else None),
       al_native = (\<lambda>_ n. map_of [(''contract-call?'', Contract_fn Nf_ContractCall),
         (''secp256k1-verify'', Contract_fn Nf_Secp256k1Verify), (''if'', Basic_fn Nf_If)] n),
       al_transient = 0, al_tuple_rank = \<lambda>_ _. 0, al_binding_rank = \<lambda>_ _. 0 \<rparr>"

definition sample_atom :: "clarity_name \<Rightarrow> nat sexpr" where
  "sample_atom n = Atom zero_span n"



definition reached_in :: "'c ast_lib \<Rightarrow> clarity_version \<Rightarrow> ('c ast_visit \<Rightarrow> bool) \<Rightarrow> 'c sexpr list \<Rightarrow> 'c sexpr \<Rightarrow> bool" where
  "reached_in A ver d es e' \<longleftrightarrow> (\<exists>e \<in> set es. walked A ver d e e')"


lemma public_key_not_walked:
  assumes "al_define A n = None" and "al_native A ver n = Some (Contract_fn Nf_Secp256k1Verify)"
  shows "walked A ver (\<lambda>_. True) (SList sp [Atom sp' n, h, s, k]) e' \<longleftrightarrow>
    e' = SList sp [Atom sp' n, h, s, k] \<or> walked A ver (\<lambda>_. True) h e' \<or> walked A ver (\<lambda>_. True) s e'"
proof -
  let ?e = "SList sp [Atom sp' n, h, s, k]"
  have "dispatch A ver ?e [Atom sp' n, h, s, k] = Done (Some (traverse_secp256k1_verify ?e h s k))"
    using assms by (simp add: dispatch_def plan_native_def plan_contract_def Let_def arg_or_default_def get_arg_def)
  from walked_list_iff [OF this, of "\<lambda>_. True" e'] show ?thesis
    by (simp add: traverse_secp256k1_verify_def)
qed

end
