(* ===== verification/Dependency_Correct.thy ===== *)
theory Dependency_Correct
  imports Dependency_Invariant Ast_Coverage
begin

text \<open>
  The results of the detection. The invariants of \<open>Dependency_Invariant\<close> are carried through the walk
  of every contract, by the events of \<open>Ast_Events\<close>.
\<close>

section \<open>Walking\<close>

lemma detector_visitor_simps [simp]:
  "av_version (detector_visitor L) s = (case dd_clarity_version s of Some v \<Rightarrow> v | None \<Rightarrow> DEFAULT_CLARITY_VERSION)"
  "av_before (detector_visitor L) v s = enter_function v s"
  "av_descends (detector_visitor L) = (\<lambda>_. True)"
  "av_visit (detector_visitor L) v s = (True, detector_visit L v s)"
  "av_after (detector_visitor L) v s = leave_function v s"
  by (simp_all add: detector_visitor_def)

lemma preloaded_visitor_simps [simp]:
  "av_version (preloaded_visitor L c ver) s = ver"
  "av_before (preloaded_visitor L c ver) v s = s"
  "av_descends (preloaded_visitor L c ver) = preloaded_descends"
  "av_visit (preloaded_visitor L c ver) v s = (True, preloaded_visit L c ver v s)"
  "av_after (preloaded_visitor L c ver) v s = s"
  by (simp_all add: preloaded_visitor_def)

interpretation det: steady_visitor "detector_visitor L" ver for L ver
proof
  show "av_version (detector_visitor L) (event_step (detector_visitor L) ev s) = ver"
    if "av_version (detector_visitor L) s = ver" for ev s
    using that by (cases ev) (auto simp: enter_function_def leave_function_def split: option.split)
qed simp

interpretation pre: steady_visitor "preloaded_visitor L c ver" ver for L c ver
  by unfold_locales simp_all

fun tell_events :: "('c ast_visit \<Rightarrow> 'c told \<Rightarrow> 'c told) \<Rightarrow> 'c event list \<Rightarrow> 'c told \<Rightarrow> 'c told" where
  "tell_events say [] G = G"
| "tell_events say (At v # t) G = tell_events say t (say v G)"
| "tell_events say (_ # t) G = tell_events say t G"

lemma detector_inv_run:
  "detector_inv L G s \<Longrightarrow> dd_contract s = Some c \<Longrightarrow>
     detector_inv L (tell_events (tell L c) t G) (run_events (detector_visitor L) t s) \<and>
     dd_contract (run_events (detector_visitor L) t s) = Some c \<and>
     dd_preloaded (run_events (detector_visitor L) t s) = dd_preloaded s"
proof (induction t arbitrary: G s)
  case (Cons ev t)
  let ?s = "event_step (detector_visitor L) ev s"
  have same: "dd_contract ?s = Some c" "dd_preloaded ?s = dd_preloaded s"
    using Cons.prems(2)
    by (cases ev; simp add: enter_function_def leave_function_def split: option.split)+
  show ?case
  proof (cases ev)
    case (At v)
    have "detector_inv L (tell L c v G) ?s"
      using Cons.prems by (simp add: At detector_inv_visit current_contract_def)
    from Cons.IH [OF this same(1)] same(2) show ?thesis by (simp add: At)
  next
    case (Before v)
    have "detector_inv L G ?s"
      using Cons.prems(1) by (rule detector_inv_more)
        (auto simp: Before enter_function_def split: option.split)
    from Cons.IH [OF this same(1)] same(2) show ?thesis by (simp add: Before)
  next
    case (After v)
    have "detector_inv L G ?s"
      using Cons.prems(1) by (rule detector_inv_more)
        (auto simp: After leave_function_def split: option.split)
    from Cons.IH [OF this same(1)] same(2) show ?thesis by (simp add: After)
  qed
qed simp

lemma preloaded_inv_visit:
  assumes "detector_inv L G s"
  shows "detector_inv L (tell_preloaded L c v G) (preloaded_visit L c ver v s)"
proof (cases v)
  case (Define_visit d)
  then show ?thesis
    using assms by (cases d) (auto simp: detector_inv_define detector_inv_defined_trait split: option.split)
qed (use assms in simp_all)

lemma preloaded_inv_run:
  "detector_inv L G s \<Longrightarrow>
     detector_inv L (tell_events (tell_preloaded L c) t G) (run_events (preloaded_visitor L c ver) t s) \<and>
     dd_preloaded (run_events (preloaded_visitor L c ver) t s) = dd_preloaded s"
proof (induction t arbitrary: G s)
  case (Cons ev t)
  have pre: "dd_preloaded (preloaded_visit L c ver v s) = dd_preloaded s" for v s
    by (induction L c ver v s rule: preloaded_visit.induct)
      (simp_all add: add_defined_function_eq add_defined_trait_eq split: option.split)
  show ?case
  proof (cases ev)
    case (At v)
    from Cons.IH [OF preloaded_inv_visit [OF Cons.prems, of c v ver]] show ?thesis by (simp add: At pre)
  qed (use Cons in simp_all)
qed simp

text \<open>
  What a detection tells the detector: the definitions of the preloaded contracts, then everything
  in the contracts. Nothing, if walking one of them panics.
\<close>

fun told_preloaded :: "'c detector_lib \<Rightarrow> 'c contract_asts \<Rightarrow> 'c told \<Rightarrow> 'c told option" where
  "told_preloaded L [] G = Some G"
| "told_preloaded L ((c, ver, exprs) # m) G =
     (case trace (ast_lib.truncate L) ver preloaded_descends exprs of
        None \<Rightarrow> None
      | Some t \<Rightarrow> told_preloaded L m (tell_events (tell_preloaded L c) t G))"

fun told_contracts :: "'c detector_lib \<Rightarrow> 'c contract_asts \<Rightarrow> 'c told \<Rightarrow> 'c told option" where
  "told_contracts L [] G = Some G"
| "told_contracts L ((c, ver, exprs) # m) G =
     (case trace (ast_lib.truncate L) ver (\<lambda>_. True) exprs of
        None \<Rightarrow> None
      | Some t \<Rightarrow> told_contracts L m (tell_events (tell L c) t G))"

definition told_by :: "'c detector_lib \<Rightarrow> 'c contract_asts \<Rightarrow> 'c contract_asts \<Rightarrow> 'c told option" where
  "told_by L contract_asts preloaded =
     (case told_preloaded L preloaded told_nothing of None \<Rightarrow> None | Some G \<Rightarrow> told_contracts L contract_asts G)"

lemma walk_preloaded_inv:
  "detector_inv L G s \<Longrightarrow>
     (case told_preloaded L m G of
        None \<Rightarrow> walk_preloaded L m s = Panic
      | Some G' \<Rightarrow> \<exists>s'. walk_preloaded L m s = Done s' \<and> detector_inv L G' s' \<and> dd_preloaded s' = dd_preloaded s)"
proof (induction m arbitrary: G s)
  case (Cons p m)
  obtain c ver exprs where p: "p = (c, ver, exprs)" by (cases p) auto
  have walk: "traverse_ast (ast_lib.truncate L) (preloaded_visitor L c ver) exprs s =
      (case trace (ast_lib.truncate L) ver preloaded_descends exprs of
         Some t \<Rightarrow> Done (True, run_events (preloaded_visitor L c ver) t s) | None \<Rightarrow> Panic)"
    using pre.traverse_trace [where L = L and c = c and ver = ver and s = s] by simp
  show ?case
  proof (cases "trace (ast_lib.truncate L) ver preloaded_descends exprs")
    case (Some t)
    from preloaded_inv_run [OF Cons.prems, of c t ver]
    have i: "detector_inv L (tell_events (tell_preloaded L c) t G) (run_events (preloaded_visitor L c ver) t s)"
      "dd_preloaded (run_events (preloaded_visitor L c ver) t s) = dd_preloaded s" by auto
    from Cons.IH [OF i(1)] i(2) show ?thesis by (simp add: p walk Some split: option.splits)
  qed (simp add: p walk)
qed simp

lemma entering_inv:
  assumes "detector_inv L G s" and "bt_get (dd_dependencies s) c = None"
  shows "detector_inv L G (s\<lparr> dd_dependencies := bt_insert c [] (dd_dependencies s),
    dd_clarity_version := ver, dd_contract := co \<rparr>)"
  using assms(1) by (rule detector_inv_more) (auto simp: depends_in_def bt.get_insert assms(2))

lemma entering_wf:
  assumes wf: "detector_wf L E s" and "c \<notin> E"
  shows "detector_wf L (insert c E) (s\<lparr> dd_dependencies := bt_insert c [] (dd_dependencies s),
    dd_clarity_version := ver, dd_contract := co \<rparr>)"
proof (rule detector_wf_intro)
  let ?s = "s\<lparr> dd_dependencies := bt_insert c [] (dd_dependencies s), dd_clarity_version := ver, dd_contract := co \<rparr>"
  note D = detector_wfD [OF wf]
  show "set_wf L ?s d ds" if "bt_get (dd_dependencies ?s) d = Some ds" for d ds
    using that D(3) [of d ds] by (cases "d = c") (auto simp: bt.get_insert set_wf_def)
  show "bt_get (dd_dependencies ?s) d = None \<longleftrightarrow> d \<notin> insert c E" for d
    using D(2) [of d] by (simp add: bt.get_insert)
  show "fst p \<in> insert c E" if "bt_get (dd_pending_functions ?s) q = Some ps" "p \<in> set ps" for q ps p
    using that D(4) [of q ps p] by simp
  show "fst p \<in> insert c E" if "bt_get (dd_pending_traits ?s) q = Some ps" "p \<in> set ps" for q ps p
    using that D(5) [of q ps p] by simp
qed (simp add: bt_wf_insert detector_wfD(1) [OF wf])

lemma detector_wf_run:
  "detector_wf L E s \<Longrightarrow> dd_contract s = Some c \<Longrightarrow> c \<in> E \<Longrightarrow>
     detector_wf L E (run_events (detector_visitor L) t s)"
proof (induction t arbitrary: s)
  case (Cons ev t)
  have "detector_wf L E (event_step (detector_visitor L) ev s)"
  proof (cases ev)
    case (At v)
    then show ?thesis using Cons.prems by (simp add: detector_wf_visit current_contract_def)
  next
    case (Before v)
    show ?thesis
      using Cons.prems(1) by (rule detector_wf_cong) (simp_all add: Before enter_function_def split: option.split)
  next
    case (After v)
    show ?thesis
      using Cons.prems(1) by (rule detector_wf_cong) (simp_all add: After leave_function_def split: option.split)
  qed
  moreover have "dd_contract (event_step (detector_visitor L) ev s) = Some c"
    using Cons.prems(2) by (cases ev) (simp_all add: enter_function_def leave_function_def split: option.split)
  ultimately show ?case using Cons.IH Cons.prems(3) by simp
qed simp

lemma preloaded_wf_run:
  "detector_wf L E s \<Longrightarrow> detector_wf L E (run_events (preloaded_visitor L c ver) t s)"
proof (induction t arbitrary: s)
  case (Cons ev t)
  have "detector_wf L E (event_step (preloaded_visitor L c ver) ev s)"
    using Cons.prems by (cases ev) (simp_all add: preloaded_wf_visit)
  then show ?case using Cons.IH by simp
qed simp

lemma walk_preloaded_wf:
  "detector_wf L E s \<Longrightarrow> walk_preloaded L m s = Done s' \<Longrightarrow> detector_wf L E s'"
proof (induction m arbitrary: s)
  case (Cons p m)
  obtain c ver exprs where p: "p = (c, ver, exprs)" by (cases p) auto
  have "traverse_ast (ast_lib.truncate L) (preloaded_visitor L c ver) exprs s =
      (case trace (ast_lib.truncate L) ver preloaded_descends exprs of
         Some t \<Rightarrow> Done (True, run_events (preloaded_visitor L c ver) t s) | None \<Rightarrow> Panic)"
    using pre.traverse_trace [where L = L and c = c and ver = ver and s = s] by simp
  then obtain t where "walk_preloaded L m (run_events (preloaded_visitor L c ver) t s) = Done s'"
    using Cons.prems(2) by (auto simp: p split: option.splits)
  then show ?case using Cons.IH preloaded_wf_run [OF Cons.prems(1)] by blast
qed simp

lemma walk_contracts_inv:
  "detector_inv L G s \<Longrightarrow> detector_wf L E s \<Longrightarrow> distinct (map fst m) \<Longrightarrow> set (map fst m) \<inter> E = {} \<Longrightarrow>
     (case told_contracts L m G of
        None \<Rightarrow> walk_contracts L m s = Panic
      | Some G' \<Rightarrow> \<exists>s'. walk_contracts L m s = Done s' \<and> detector_inv L G' s' \<and>
          detector_wf L (set (map fst m) \<union> E) s' \<and> dd_preloaded s' = dd_preloaded s)"
proof (induction m arbitrary: G s E)
  case (Cons p m)
  obtain c ver exprs where p: "p = (c, ver, exprs)" by (cases p) auto
  let ?s = "s\<lparr> dd_dependencies := bt_insert c [] (dd_dependencies s),
             dd_clarity_version := Some ver, dd_contract := Some c \<rparr>"
  have c: "c \<notin> E" "bt_get (dd_dependencies s) c = None"
    using Cons.prems(4) detector_wfD(2) [OF Cons.prems(2), of c] by (auto simp: p)
  have walk: "traverse_ast (ast_lib.truncate L) (detector_visitor L) exprs ?s =
      (case trace (ast_lib.truncate L) ver (\<lambda>_. True) exprs of
         Some t \<Rightarrow> Done (True, run_events (detector_visitor L) t ?s) | None \<Rightarrow> Panic)"
    using det.traverse_trace [where L = L and ver = ver and s = ?s] by simp
  show ?case
  proof (cases "trace (ast_lib.truncate L) ver (\<lambda>_. True) exprs")
    case (Some t)
    let ?s' = "run_events (detector_visitor L) t ?s" and ?G = "tell_events (tell L c) t G"
    have i: "detector_inv L ?G ?s'" "dd_preloaded ?s' = dd_preloaded s"
      using detector_inv_run [OF entering_inv [OF Cons.prems(1) c(2)], where c = c and t = t] by auto
    have w: "detector_wf L (insert c E) ?s'"
      by (rule detector_wf_run [OF entering_wf [OF Cons.prems(2) c(1)], where c = c]) simp_all
    have d: "distinct (map fst m)" "set (map fst m) \<inter> insert c E = {}"
      using Cons.prems(3,4) by (auto simp: p)
    have walk': "walk_contracts L (p # m) s = walk_contracts L m ?s'" by (simp add: p walk Some)
    have told': "told_contracts L (p # m) G = told_contracts L m ?G" by (simp add: p Some)
    have E: "set (map fst (p # m)) \<union> E = set (map fst m) \<union> insert c E" by (auto simp: p)
    show ?thesis
      using Cons.IH [OF i(1) w d] unfolding walk' told' E i(2) .
  qed (simp add: p walk)
qed simp

section \<open>The result of a detection\<close>

lemma detector_new_inv: "detector_inv L told_nothing (detector_new preloaded)"
  by (rule detector_inv_intro) (simp_all add: told_nothing_def detector_new_def)

lemma detector_new_wf: "detector_wf L {} (detector_new preloaded)"
  by (rule detector_wf_intro) (simp_all add: detector_new_def)

lemma detect_dependencies_eq:
  assumes "bt_wf asts"
  shows "case told_by L asts preloaded of
      None \<Rightarrow> detect_dependencies L asts preloaded = Panic
    | Some G \<Rightarrow> \<exists>s. detector_inv L G s \<and> detector_wf L (set (map fst asts)) s \<and> dd_preloaded s = preloaded \<and>
        (\<exists>s0. walk_preloaded L preloaded (detector_new preloaded) = Done s0 \<and> walk_contracts L asts s0 = Done s) \<and>
        detect_dependencies L asts preloaded =
          Done (if unresolved s = [] then Inr (dd_dependencies s) else Inl (dd_dependencies s, unresolved s))"
proof (cases "told_preloaded L preloaded told_nothing")
  case None
  then show ?thesis
    using walk_preloaded_inv [OF detector_new_inv [of L preloaded], of preloaded]
    by (simp add: told_by_def detect_dependencies_def)
next
  case (Some G)
  then obtain s where s: "walk_preloaded L preloaded (detector_new preloaded) = Done s" "detector_inv L G s"
      "dd_preloaded s = preloaded"
    using walk_preloaded_inv [OF detector_new_inv [of L preloaded], of preloaded] by (auto simp: detector_new_def)
  have wf: "detector_wf L {} s" by (rule walk_preloaded_wf [OF detector_new_wf s(1)])
  from walk_contracts_inv [OF s(2) wf bt_wf_distinct [OF assms]] s(1,3) show ?thesis
    by (cases "told_contracts L asts G") (auto simp: told_by_def detect_dependencies_def Some)
qed

section \<open>What the contracts say\<close>

text \<open>The visits that a walk over the contract \<open>c\<close> of the deployment gets to.\<close>

definition says :: "'c ast_lib \<Rightarrow> ('c ast_visit \<Rightarrow> bool) \<Rightarrow> 'c contract_asts \<Rightarrow> 'c \<Rightarrow> 'c ast_visit \<Rightarrow> bool" where
  "says A d asts c v \<longleftrightarrow>
     (\<exists>ver es. (c, ver, es) \<in> set asts \<and> (\<exists>e \<in> set es. \<exists>e'. walked A ver d e e' \<and> v \<in> visits_due A ver e'))"

abbreviation contract_says :: "'c::linorder detector_lib \<Rightarrow> 'c contract_asts \<Rightarrow> 'c \<Rightarrow> 'c ast_visit \<Rightarrow> bool" where
  "contract_says L asts \<equiv> says (ast_lib.truncate L) (\<lambda>_. True) asts"

fun used_contract :: "'c ast_visit \<Rightarrow> 'c option" where
  "used_contract (Chain_visit (Visit_static_contract_call _ x _ _)) = Some x"
| "used_contract (Define_visit (Visit_use_trait _ _ t)) = Some (trait_contract t)"
| "used_contract (Define_visit (Visit_impl_trait _ t)) = Some (trait_contract t)"
| "used_contract _ = None"

fun called_function :: "'c ast_visit \<Rightarrow> ('c \<times> clarity_name \<times> 'c sexpr list) option" where
  "called_function (Chain_visit (Visit_static_contract_call _ x f args)) = Some (x, f, args)"
| "called_function _ = None"

fun callable_function :: "'c detector_lib \<Rightarrow> 'c ast_visit \<Rightarrow> (clarity_name \<times> type_signature list) option" where
  "callable_function L (Define_visit (Visit_define_read_only _ name parameters _)) = Some (name, param_types L parameters)"
| "callable_function L (Define_visit (Visit_define_public _ name parameters _)) = Some (name, param_types L parameters)"
| "callable_function L _ = None"

text \<open>A function of a contract of the deployment, or a public one of a preloaded contract.\<close>

definition defines_function :: "'c::linorder detector_lib \<Rightarrow> 'c contract_asts \<Rightarrow> 'c contract_asts \<Rightarrow> 'c \<Rightarrow>
    clarity_name \<Rightarrow> type_signature list \<Rightarrow> bool" where
  "defines_function L asts preloaded x f ts \<longleftrightarrow>
     (\<exists>v. contract_says L asts x v \<and> function_defined L v = Some (f, ts)) \<or>
     (\<exists>v. says (ast_lib.truncate L) preloaded_descends preloaded x v \<and> callable_function L v = Some (f, ts))"

lemma tell_facts:
  "(d, q) \<in> told_calls (tell L c v G) \<longleftrightarrow> (d, q) \<in> told_calls G \<or> (d = c \<and> called_function v = Some q)"
  "(d, x) \<in> told_uses (tell L c v G) \<longleftrightarrow> (d, x) \<in> told_uses G \<or> (d = c \<and> used_contract v = Some x)"
  "(d, w) \<in> told_functions (tell L c v G) \<longleftrightarrow> (d, w) \<in> told_functions G \<or> (d = c \<and> function_defined L v = Some w)"
  by (induction L c v G rule: tell.induct) auto

lemma tell_preloaded_facts:
  "told_calls (tell_preloaded L c v G) = told_calls G"
  "told_uses (tell_preloaded L c v G) = told_uses G"
  "(d, w) \<in> told_functions (tell_preloaded L c v G) \<longleftrightarrow> (d, w) \<in> told_functions G \<or> (d = c \<and> callable_function L v = Some w)"
  by (induction L c v G rule: tell_preloaded.induct) auto

lemma tell_events_facts:
  assumes "\<And>v G. P (say v G) \<longleftrightarrow> P G \<or> Q v"
  shows "P (tell_events say t G) \<longleftrightarrow> P G \<or> (\<exists>v. At v \<in> set t \<and> Q v)"
proof (induction t arbitrary: G)
  case (Cons ev t)
  then show ?case by (cases ev) (auto simp: assms)
qed simp

lemma says_Cons:
  assumes "trace A ver d es = Some t"
  shows "says A d ((c, ver, es) # m) c' v \<longleftrightarrow> (c' = c \<and> At v \<in> set t) \<or> says A d m c' v"
  unfolding says_def visited_in_contract [OF assms] by auto

lemma says_Nil: "\<not> says A d [] c v"
  by (simp add: says_def)

lemma told_contracts_facts:
  assumes "told_contracts L m G = Some G'" and "\<And>c v G. P (tell L c v G) \<longleftrightarrow> P G \<or> Q c v"
  shows "P G' \<longleftrightarrow> P G \<or> (\<exists>c v. contract_says L m c v \<and> Q c v)"
  using assms(1)
proof (induction m arbitrary: G)
  case Nil
  then show ?case by (simp add: says_Nil)
next
  case (Cons p m)
  obtain c ver es where p: "p = (c, ver, es)" by (cases p) auto
  then obtain t where t: "trace (ast_lib.truncate L) ver (\<lambda>_. True) es = Some t"
    and G': "told_contracts L m (tell_events (tell L c) t G) = Some G'"
    using Cons.prems by (auto split: option.splits)
  have "P (tell_events (tell L c) t G) \<longleftrightarrow> P G \<or> (\<exists>v. At v \<in> set t \<and> Q c v)"
    by (rule tell_events_facts) (rule assms(2))
  with Cons.IH [OF G'] show ?case unfolding p says_Cons [OF t] by metis
qed

lemma told_preloaded_facts:
  assumes "told_preloaded L m G = Some G'" and "\<And>c v G. P (tell_preloaded L c v G) \<longleftrightarrow> P G \<or> Q c v"
  shows "P G' \<longleftrightarrow> P G \<or> (\<exists>c v. says (ast_lib.truncate L) preloaded_descends m c v \<and> Q c v)"
  using assms(1)
proof (induction m arbitrary: G)
  case Nil
  then show ?case by (simp add: says_Nil)
next
  case (Cons p m)
  obtain c ver es where p: "p = (c, ver, es)" by (cases p) auto
  then obtain t where t: "trace (ast_lib.truncate L) ver preloaded_descends es = Some t"
    and G': "told_preloaded L m (tell_events (tell_preloaded L c) t G) = Some G'"
    using Cons.prems by (auto split: option.splits)
  have "P (tell_events (tell_preloaded L c) t G) \<longleftrightarrow> P G \<or> (\<exists>v. At v \<in> set t \<and> Q c v)"
    by (rule tell_events_facts) (rule assms(2))
  with Cons.IH [OF G'] show ?case unfolding p says_Cons [OF t] by metis
qed

lemma told_by_facts:
  assumes "told_by L asts preloaded = Some G"
  shows "(c, x, f, args) \<in> told_calls G \<longleftrightarrow> (\<exists>v. contract_says L asts c v \<and> called_function v = Some (x, f, args))"
    and "(c, x) \<in> told_uses G \<longleftrightarrow> (\<exists>v. contract_says L asts c v \<and> used_contract v = Some x)"
    and "(x, f, ts) \<in> told_functions G \<longleftrightarrow> defines_function L asts preloaded x f ts"
proof -
  obtain G0 where G0: "told_preloaded L preloaded told_nothing = Some G0" and G: "told_contracts L asts G0 = Some G"
    using assms by (auto simp: told_by_def split: option.splits)
  have none: "told_calls G0 = {}" "told_uses G0 = {}"
    using told_preloaded_facts [OF G0, of "\<lambda>G. told_calls G \<noteq> {}" "\<lambda>_ _. False"]
      told_preloaded_facts [OF G0, of "\<lambda>G. told_uses G \<noteq> {}" "\<lambda>_ _. False"]
    by (simp_all add: tell_preloaded_facts told_nothing_def)
  have fs: "(x, f, ts) \<in> told_functions G0 \<longleftrightarrow>
      (\<exists>v. says (ast_lib.truncate L) preloaded_descends preloaded x v \<and> callable_function L v = Some (f, ts))"
    using told_preloaded_facts [OF G0, of "\<lambda>G. (x, f, ts) \<in> told_functions G" "\<lambda>c v. x = c \<and> callable_function L v = Some (f, ts)"]
    by (auto simp: tell_preloaded_facts told_nothing_def)
  show "(c, x, f, args) \<in> told_calls G \<longleftrightarrow> (\<exists>v. contract_says L asts c v \<and> called_function v = Some (x, f, args))"
    using told_contracts_facts [OF G, of "\<lambda>G. (c, x, f, args) \<in> told_calls G" "\<lambda>d v. c = d \<and> called_function v = Some (x, f, args)"] none
    by (auto simp: tell_facts)
  show "(c, x) \<in> told_uses G \<longleftrightarrow> (\<exists>v. contract_says L asts c v \<and> used_contract v = Some x)"
    using told_contracts_facts [OF G, of "\<lambda>G. (c, x) \<in> told_uses G" "\<lambda>d v. c = d \<and> used_contract v = Some x"] none
    by (auto simp: tell_facts)
  show "(x, f, ts) \<in> told_functions G \<longleftrightarrow> defines_function L asts preloaded x f ts"
    using told_contracts_facts [OF G, of "\<lambda>G. (x, f, ts) \<in> told_functions G" "\<lambda>d v. x = d \<and> function_defined L v = Some (f, ts)"] fs
    by (auto simp: tell_facts defines_function_def)
qed

text \<open>Only a call through a trait parameter leaves a trait pending.\<close>

fun dynamic_call :: "'c ast_visit \<Rightarrow> bool" where
  "dynamic_call (Chain_visit (Visit_dynamic_contract_call _ _ _ _)) = True"
| "dynamic_call _ = False"

lemma pending_trait_visit:
  "dd_pending_traits (detector_visit L v s) = [] \<or> dd_pending_traits s \<noteq> [] \<or> dynamic_call v"
  by (induction L v s rule: detector_visit.induct)
    (auto simp: visit_define_function_def add_defined_function_eq visit_define_trait_def add_defined_trait_eq
      visit_trait_use_def visit_define_constant_def add_defined_contract_constant_def visit_static_contract_call_def
      add_pending_function_check_def visit_call_user_defined_def Let_def bt_remove_def split: option.split ast_value.split)

lemma pending_trait_run:
  "dd_pending_traits (run_events (detector_visitor L) t s) = [] \<or> dd_pending_traits s \<noteq> [] \<or>
     (\<exists>v. At v \<in> set t \<and> dynamic_call v)"
proof (induction t arbitrary: s)
  case (Cons ev t)
  have "dd_pending_traits (event_step (detector_visitor L) ev s) = [] \<or> dd_pending_traits s \<noteq> [] \<or>
      (\<exists>v. At v = ev \<and> dynamic_call v)"
    using pending_trait_visit [of L _ s]
    by (cases ev) (auto simp: enter_function_def leave_function_def split: option.split)
  with Cons.IH show ?case by fastforce
qed simp

lemma pending_trait_preloaded:
  "walk_preloaded L m s = Done s' \<Longrightarrow> dd_pending_traits s = [] \<Longrightarrow> dd_pending_traits s' = []"
proof (induction m arbitrary: s)
  case (Cons p m)
  obtain c ver es where p: "p = (c, ver, es)" by (cases p) auto
  have one: "dd_pending_traits (preloaded_visit L c ver v s) = []" if "dd_pending_traits s = []" for v s
    using that by (induction L c ver v s rule: preloaded_visit.induct)
      (auto simp: add_defined_function_eq add_defined_trait_eq bt_remove_def split: option.split)
  have "dd_pending_traits (event_step (preloaded_visitor L c ver) ev s) = []" if "dd_pending_traits s = []" for ev s
    using that by (cases ev) (simp_all add: one)
  then have run: "dd_pending_traits (run_events (preloaded_visitor L c ver) t s) = []"
    if "dd_pending_traits s = []" for t s
    using that by (induction t arbitrary: s) simp_all
  show ?case
    using Cons pre.traverse_trace [where L = L and c = c and ver = ver and s = s]
    by (auto simp: p run split: option.splits)
qed simp

lemma pending_trait_contracts:
  "walk_contracts L m s = Done s' \<Longrightarrow> dd_pending_traits s = [] \<Longrightarrow> dd_pending_traits s' \<noteq> [] \<Longrightarrow>
     \<exists>c v. contract_says L m c v \<and> dynamic_call v"
proof (induction m arbitrary: s)
  case (Cons p m)
  obtain c ver es where p: "p = (c, ver, es)" by (cases p) auto
  let ?s = "s\<lparr> dd_dependencies := bt_insert c [] (dd_dependencies s),
             dd_clarity_version := Some ver, dd_contract := Some c \<rparr>"
  from Cons.prems(1) obtain t where t: "trace (ast_lib.truncate L) ver (\<lambda>_. True) es = Some t"
    and rest: "walk_contracts L m (run_events (detector_visitor L) t ?s) = Done s'"
    using det.traverse_trace [where L = L and ver = ver and s = ?s] by (auto simp: p split: option.splits)
  show ?case
  proof (cases "dd_pending_traits (run_events (detector_visitor L) t ?s) = []")
    case True
    from Cons.IH [OF rest this Cons.prems(3)] show ?thesis unfolding p says_Cons [OF t] by blast
  next
    case False
    then have "\<exists>v. At v \<in> set t \<and> dynamic_call v"
      using pending_trait_run [of L t ?s] Cons.prems(2) by auto
    then show ?thesis unfolding p says_Cons [OF t] by blast
  qed
qed simp

section \<open>The dependencies found\<close>

text \<open>
  A preloaded contract records nothing, and a placeholder of the parser is never recorded.
\<close>

definition records :: "'c::linorder detector_lib \<Rightarrow> 'c contract_asts \<Rightarrow> ('c, 'c dependency_set) btree_map \<Rightarrow> 'c \<Rightarrow> 'c \<Rightarrow> bool" where
  "records L preloaded deps c d \<longleftrightarrow> bt_get preloaded c \<noteq> None \<or> is_placeholder L d \<or>
     (\<exists>ds. bt_get deps c = Some ds \<and> has_dependency ds d \<noteq> None)"

lemma detected_pending_trait:
  assumes "walk_preloaded L preloaded (detector_new preloaded) = Done s0" and "walk_contracts L asts s0 = Done s"
    and "dd_pending_traits s \<noteq> []"
  shows "\<exists>c v. contract_says L asts c v \<and> dynamic_call v"
  using pending_trait_contracts [OF assms(2) pending_trait_preloaded [OF assms(1)] assms(3)]
  by (simp add: detector_new_def)

lemma detected:
  assumes "bt_wf asts" and "detect_dependencies L asts preloaded = Done r"
  obtains G s where "told_by L asts preloaded = Some G" "detector_inv L G s"
    "detector_wf L (set (map fst asts)) s" "dd_preloaded s = preloaded"
    "r = (if unresolved s = [] then Inr (dd_dependencies s) else Inl (dd_dependencies s, unresolved s))"
    "dd_pending_traits s \<noteq> [] \<Longrightarrow> \<exists>c v. contract_says L asts c v \<and> dynamic_call v"
  using detected_pending_trait [of L preloaded _ asts] detect_dependencies_eq [OF assms(1), of L preloaded] assms(2) that
  by (cases "told_by L asts preloaded") auto

lemma unresolved_Nil: "unresolved s = [] \<longleftrightarrow> dd_pending_functions s = [] \<and> dd_pending_traits s = []"
  by (simp add: unresolved_def)

lemma depends_in_records:
  "dd_preloaded s = preloaded \<Longrightarrow> depends_in L s c d = records L preloaded (dd_dependencies s) c d"
  by (simp add: depends_in_def records_def)

lemma detected_well_formed:
  assumes "bt_wf asts" and "detect_dependencies L asts preloaded = Done r"
    and "deps = (case r of Inr deps \<Rightarrow> deps | Inl (deps, names) \<Rightarrow> deps)"
  shows "bt_wf deps \<and> map fst deps = map fst asts \<and>
    (\<forall>(c, ds) \<in> set deps. bt_wf ds \<and> (\<forall>d \<in> fst ` set ds. \<not> is_placeholder L d) \<and>
       (bt_get preloaded c \<noteq> None \<longrightarrow> ds = []))"
proof -
  from assms(1,2) obtain G s where wf: "detector_wf L (set (map fst asts)) s" and pre: "dd_preloaded s = preloaded"
    and r: "r = (if unresolved s = [] then Inr (dd_dependencies s) else Inl (dd_dependencies s, unresolved s))"
    by (rule detected)
  have deps: "deps = dd_dependencies s" using assms(3) r by (simp split: if_splits)
  note D = detector_wfD [OF wf, folded deps]
  have "set (map fst deps) = set (map fst asts)"
    using D(2) by (auto simp: map_of_eq_None_iff)
  then have "map fst deps = map fst asts"
    using D(1) assms(1) unfolding bt_wf_def by (intro sorted_distinct_set_unique) (auto simp: strict_sorted_iff)
  moreover have "\<forall>p \<in> set deps. set_wf L s (fst p) (snd p)"
    using D(3) bt_get_in_set [OF D(1)] by (metis prod.collapse)
  ultimately show ?thesis using D(1) by (simp add: set_wf_def pre case_prod_unfold)
qed

lemma detected_use:
  assumes "bt_wf asts" and "detect_dependencies L asts preloaded = Done (Inr deps)"
    and "contract_says L asts c v" and "used_contract v = Some x"
  shows "records L preloaded deps c x"
proof -
  from assms(1,2) obtain G s where G: "told_by L asts preloaded = Some G" and inv: "detector_inv L G s"
    and pre: "dd_preloaded s = preloaded"
    and r: "Inr deps = (if unresolved s = [] then Inr (dd_dependencies s) else Inl (dd_dependencies s, unresolved s))"
    by (rule detected)
  then have "depends_in L s c x" using told_by_facts(2) [OF G] detector_invD(1) [OF inv] assms(3,4) by blast
  with r show ?thesis by (simp add: depends_in_records [OF pre] split: if_splits)
qed

section \<open>An example\<close>

text \<open>
  Two contracts of a deployment; the first one calls the function \<^verbatim>\<open>f\<close> that the second one defines.
\<close>

definition sample_detector :: "nat detector_lib" where
  "sample_detector = ast_lib.extend sample_language
     \<lparr> dl_parse_type = \<lambda>_. None, dl_parse_trait = \<lambda>_ _. None, dl_name = \<lambda>_. ''contract'' \<rparr>"

definition sample_call :: "nat sexpr" where
  "sample_call = SList zero_span
     [sample_atom ''contract-call?'', LiteralValue zero_span (Contract_Principal 2), sample_atom ''f'']"

definition sample_function :: "clarity_name \<Rightarrow> nat sexpr \<Rightarrow> nat sexpr" where
  "sample_function f body =
     SList zero_span [sample_atom ''define-public'', SList zero_span [sample_atom f], body]"

definition sample_asts :: "nat contract_asts" where
  "sample_asts = [(1, 3, [sample_function ''go'' sample_call]), (2, 3, [sample_function ''f'' (sample_atom ''x'')])]"

definition sample_deps :: "(nat, nat dependency_set) btree_map" where
  "sample_deps = [(1, [(2, False)]), (2, [])]"

lemma sample_asts_wf: "bt_wf sample_asts"
  by code_simp

lemma sample_detected: "detect_dependencies sample_detector sample_asts [] = Done (Inr sample_deps)"
  by code_simp

lemma sample_says:
  "contract_says sample_detector sample_asts 1 (Chain_visit (Visit_static_contract_call sample_call 2 ''f'' []))"
proof -
  let ?trace = "trace (ast_lib.truncate sample_detector) 3 (\<lambda>_. True) [sample_function ''go'' sample_call]"
  have "?trace \<noteq> None \<and> At (Chain_visit (Visit_static_contract_call sample_call 2 ''f'' [])) \<in> set (the ?trace)"
    by code_simp
  then obtain t where t: "?trace = Some t" and v: "At (Chain_visit (Visit_static_contract_call sample_call 2 ''f'' [])) \<in> set t"
    by auto
  show ?thesis unfolding sample_asts_def says_Cons [OF t] using v by simp
qed

definition sample_publisher :: "nat contract_lib" where
  "sample_publisher = \<lparr> cl_name = \<lambda>_. ''contract'', cl_show = \<lambda>_. ''contract'', cl_rank = \<lambda>i. i \<rparr>"

lemma sample_ordered: "order_contracts sample_publisher sample_deps (\<lambda>_. None) = Done (Inr [2, 1])"
  by code_simp

section \<open>Properties\<close>

text \<open>
  C17. Whether or not names stay unresolved, the dependencies that are found are a well-formed map
  with exactly the contracts of the deployment as its keys, and well-formed sets as its values, in
  which no placeholder of the parser occurs; a preloaded contract has the empty set.
\<close>
theorem dependencies_well_formed:
  assumes "bt_wf asts" and "detect_dependencies L asts preloaded = Done r"
    and "deps = (case r of Inr deps \<Rightarrow> deps | Inl (deps, names) \<Rightarrow> deps)"
  shows "bt_wf deps \<and> map fst deps = map fst asts \<and>
    (\<forall>(c, ds) \<in> set deps. bt_wf ds \<and> (\<forall>d \<in> fst ` set ds. \<not> is_placeholder L d) \<and>
       (bt_get preloaded c \<noteq> None \<longrightarrow> ds = []))"
  using assms by (rule detected_well_formed)

theorem dependencies_well_formed_witness:
  "bt_wf sample_deps \<and> map fst sample_deps = map fst sample_asts"
  using dependencies_well_formed [OF sample_asts_wf sample_detected, of sample_deps] by simp



definition undefined_calls :: "'c::linorder detector_lib \<Rightarrow> 'c contract_asts \<Rightarrow> 'c contract_asts \<Rightarrow> 'c set" where
  "undefined_calls L asts preloaded =
     {x. \<exists>c v f args. contract_says L asts c v \<and> called_function v = Some (x, f, args) \<and>
        (\<nexists>ts. defines_function L asts preloaded x f ts)}"

lemma pending_undefined:
  assumes inv: "detector_inv L G s" and G: "told_by L asts preloaded = Some G"
  shows "fst ` fst ` set (dd_pending_functions s) = undefined_calls L asts preloaded"
proof (intro equalityI subsetI)
  note facts = told_by_facts [OF G]
  fix x
  {
    assume "x \<in> fst ` fst ` set (dd_pending_functions s)"
    then obtain f ps' where "((x, f), ps') \<in> set (dd_pending_functions s)" by auto
    then have "(x, f) \<in> fst ` set (dd_pending_functions s)" by force
    then obtain ps where ps: "bt_get (dd_pending_functions s) (x, f) = Some ps"
      by (metis map_of_eq_None_iff option.exhaust)
    from detector_invD(3) [OF inv ps] obtain c args where "(c, args) \<in> set ps"
      and none: "bt_get (dd_functions s) (x, f) = None" by (cases ps) auto
    with detector_invD(4) [OF inv ps] have "(c, x, f, args) \<in> told_calls G" by blast
    then obtain v where v: "contract_says L asts c v" "called_function v = Some (x, f, args)"
      using facts(1) by blast
    have "\<nexists>ts. defines_function L asts preloaded x f ts"
      using detector_invD(6) [OF inv] none facts(3) by blast
    with v show "x \<in> undefined_calls L asts preloaded" by (auto simp: undefined_calls_def)
  next
    assume "x \<in> undefined_calls L asts preloaded"
    then obtain c v f args where "contract_says L asts c v" "called_function v = Some (x, f, args)"
      and none: "\<nexists>ts. defines_function L asts preloaded x f ts" by (auto simp: undefined_calls_def)
    then have "(c, x, f, args) \<in> told_calls G" using facts(1) by blast
    from detector_invD(2) [OF inv this] have "call_pending s (c, x, f, args)"
      using none facts(3) by (auto simp: call_settled_def)
    then obtain ps where "((x, f), ps) \<in> set (dd_pending_functions s)"
      by (auto simp: call_pending_def dest: map_of_SomeD)
    then show "x \<in> fst ` fst ` set (dd_pending_functions s)" by force
  }
qed







text \<open>
  C22. The public key of a \<^verbatim>\<open>secp256k1-verify\<close> is not looked at: whatever expression it is, even a call
  of another contract, the contract gets no dependency from it and detection succeeds.
\<close>
theorem public_key_dependencies_missed:
  assumes "al_define L n = None" and "al_native L ver n = Some (Contract_fn Nf_Secp256k1Verify)"
    and "e = SList sp [Atom sp0 n, Atom sp1 h, Atom sp2 s, key]"
  shows "detect_dependencies L [(c, ver, [e])] [] = Done (Inr [(c, [])])"
  using assms
  by (simp add: detect_dependencies_def detector_new_def dispatch_def plan_native_def plan_contract_def Let_def
      arg_or_default_def get_arg_def traverse_secp256k1_verify_def ast_lib.defs enter_function_def leave_function_def
      visit_leaf_def unresolved_def)

theorem public_key_dependencies_missed_witness:
  "detect_dependencies sample_detector
     [(1, 3, [SList zero_span (map sample_atom [''secp256k1-verify'', ''h'', ''s''] @ [sample_call])])] [] =
   Done (Inr [(1, [])])"
  by (rule public_key_dependencies_missed [where n = "''secp256k1-verify''"])
    (simp_all add: sample_detector_def sample_language_def sample_atom_def ast_lib.defs)

end
