(* ===== verification/Spec2Isabelle.thy ===== *)
theory Spec2Isabelle
  imports Indexer Mempool_Correct Simnet_History Format_Limits Dependency_Correct
begin

text \<open>
  A verification of the core of Clarinet, the tool chain for Clarity smart contracts. Five parts of
  it carry logic of their own and are modelled here from their Rust sources under \<^verbatim>\<open>components/\<close>:

  \<^item> the \<^bold>\<open>chain indexer\<close> of \<^verbatim>\<open>observer\<close>: it receives Bitcoin headers and Stacks blocks, microblocks and
    signer messages from a node, keeps the competing forks and emits the events (blocks to apply,
    blocks to roll back, blocks confirmed) that a consumer follows;
  \<^item> the \<^bold>\<open>mempool\<close> of \<^verbatim>\<open>clarity-repl\<close>: it admits raw transactions by their nonces and hands out the next
    one that can run;
  \<^item> the \<^bold>\<open>simnet datastore\<close> of \<^verbatim>\<open>clarity-repl\<close>: the in-memory chain the interpreter runs on, with
    versioned data, time travel, block tables and the undo of a rejected block;
  \<^item> the \<^bold>\<open>formatter\<close> of \<^verbatim>\<open>clarinet-format\<close>: the layout of Clarity programs;
  \<^item> the \<^bold>\<open>contract dependencies\<close> of \<^verbatim>\<open>clarity-repl\<close>: the walk over syntax trees that the analysis passes
    share, the detection of the contracts a contract depends on, and the order of a deployment.

  The mempool feeds the datastore (the next raw transaction is run in a tentative block that is
  undone when the transaction is not included). The indexer feeds standardized blocks to its two
  pools. The detected dependencies are what the contracts of a deployment are ordered by. The formatter
  stands alone.

  \<^bold>\<open>Theories and sources\<close>

  \<^item> \<open>Clarinet_Prelude\<close>: outcomes of calls (a value, a panic, no return), results with errors, ordered
    maps and sets and hash maps as the code uses them, words, decimal numbers. The locale
    \<open>ordered_map\<close> states the contract of a map and is interpreted on the sorted association lists.
  \<^item> \<open>Block_Types\<close> (\<^verbatim>\<open>types/rosetta.rs\<close>), \<open>Chain_Segment\<close> (\<^verbatim>\<open>indexer/mod.rs\<close>): block identifiers, and the
    segment of a fork with append, prune and the divergence of two segments.
  \<^item> \<open>Fork_Set\<close>, \<open>Fork_Chains\<close>, \<open>Fork_Invariants\<close>, \<open>Fork_Scratch_Pad\<close> (\<^verbatim>\<open>indexer/fork_scratch_pad.rs\<close>): the
    loops over forks and orphans both pools share, what it means for the forks to be chains of
    stored blocks, and the pool of Bitcoin headers. The locale \<open>fork_allocator\<close> is the contract on
    keys of new forks and is interpreted on the allocation of the Stacks pool.
  \<^item> \<open>Stacks_Types\<close> (\<^verbatim>\<open>types/\<close>), \<open>Stacks_Block_Pool\<close>, \<open>Stacks_Pool_Invariants\<close>, \<open>Stacks_Pool_Correct\<close>,
    \<open>Stacks_Pool_Runs\<close> (\<^verbatim>\<open>indexer/stacks/blocks_pool.rs\<close>): the pool of Stacks blocks and microblocks,
    its invariant, that every step keeps it, and runs of the pool as a step relation.
  \<^item> \<open>Stacks_Receipt\<close>, \<open>Stacks_Standardize\<close>, \<open>Stacks_Standardize_Correct\<close>, \<open>Stacks_Signers\<close>
    (\<^verbatim>\<open>indexer/stacks/mod.rs\<close>): operations of a transaction, blocks, microblock trails and signer
    messages from what the node sends.
  \<^item> \<open>Indexer\<close> (\<^verbatim>\<open>indexer/mod.rs\<close>): the handlers that standardize a message and feed it to the pool.
  \<^item> \<open>Nonce_Graph\<close>, \<open>Mempool\<close>, \<open>Mempool_Correct\<close> (\<^verbatim>\<open>repl/mempool.rs\<close>, parts of \<^verbatim>\<open>raw_transaction.rs\<close> and
    \<^verbatim>\<open>interpreter.rs\<close>): the graph of nonce dependencies and its topological visit, admission, selection
    and removal, and the invariant of reachable mempools.
  \<^item> \<open>Simnet_Store\<close>, \<open>Simnet_Chain\<close>, \<open>Simnet_Undo\<close>, \<open>Simnet_Chain_Correct\<close>, \<open>Simnet_History\<close>
    (\<^verbatim>\<open>repl/datastore.rs\<close>, \<^verbatim>\<open>repl/remote_data/\<close>, parts of \<^verbatim>\<open>interpreter.rs\<close> and \<^verbatim>\<open>session.rs\<close>): versioned
    storage, the block tables of both chains, journals and checkpoints. The locale \<open>versioned_map\<close>
    is the contract on versioned values and is interpreted on the store.
  \<^item> \<open>Format_Doc\<close> (\<^verbatim>\<open>formatter/doc.rs\<close>): documents and the printer. \<open>Format_Expr\<close> (\<^verbatim>\<open>helpers.rs\<close>,
    \<^verbatim>\<open>ignored.rs\<close>, \<^verbatim>\<open>sequence.rs\<close>, the functions of \<^verbatim>\<open>mod.rs\<close>): strings as Rust has them, expressions,
    spans. \<open>Format_Aggregator\<close> (\<^verbatim>\<open>mod.rs\<close>): every layout, the cache and the entry points.
    \<open>Format_Lex\<close>, \<open>Format_Readings\<close>: the tokens of a text and the texts an expression can be written
    as. \<open>Format_Calls\<close>, \<open>Format_Layouts\<close>, \<open>Format_Tuples\<close>, \<open>Format_Traits\<close>, \<open>Format_Exprs\<close>: each layout
    under the locale \<open>formatter_calls\<close>, the contract of the recursion. \<open>Format_Correct\<close>: the recursion
    keeps the contract at every depth (the interpretation \<open>recursion\<close>), and the entry points.
    \<open>Format_Limits\<close>: exact tokens without calls of \<^verbatim>\<open>tuple\<close>, and the forms the layouts get wrong.
  \<^item> \<open>Ast_Expr\<close>, \<open>Ast_Visitor\<close>, \<open>Ast_Traverse\<close> (\<^verbatim>\<open>analysis/ast_visitor.rs\<close>): expressions, every visit, every
    \<^verbatim>\<open>traverse_\<close> method as its plan (what is walked, then which visit), the dispatch of \<^verbatim>\<open>traverse_list\<close> and
    the walk over an arbitrary visitor. \<open>Ast_Events\<close>: the walk as a sequence of events; the locale
    \<open>steady_visitor\<close> is the contract of a visitor that never stops a walk, and is interpreted on the
    recording visitor and on both visitors of the detector. \<open>Ast_Coverage\<close>: what the walk covers.
  \<^item> \<open>Dependency_Detector\<close>, \<open>Dependency_Invariant\<close>, \<open>Dependency_Correct\<close> and \<open>Contract_Graph\<close>,
    \<open>Contract_Order\<close> (\<^verbatim>\<open>analysis/ast_dependency_detector.rs\<close>): the detector with its pending checks, the
    invariant that ties its state to what the contracts say, and the order of the contracts.

  \<^bold>\<open>What the lemmas show\<close>

  For both pools: a consumer that performs the events holds the canonical fork, for every sequence of
  messages from a blockchain whose forks stay connected; calls return; and, by counterexample, where
  that fails (a fork key that is reused, forks without a common block). For the segment: the divergence
  is the shortest roll back and replays to the new segment. For transactions: operations conserve
  assets, every transaction of a block carries exactly its events, trails come out complete and in
  order. For the mempool: admission decides whether the queued transactions can be ordered by nonce,
  reachable mempools can always make progress. For the datastore: the tables implement two lists of
  blocks, a read sees the last write at or below the tip, a rejected block leaves no trace, times
  ascend, nothing panics. For the formatter: formatting a parsed program returns and keeps every token
  and comment; the printer fits lines exactly and adds white space only. For dependencies: a walk ends
  and visits exactly what can be reached, going through every operand of a visit but for named
  exceptions; what a contract calls or uses is its dependency, in whatever order the contracts are
  walked; unresolved names are exactly the calls of undefined functions; contracts are ordered behind
  their dependencies, and otherwise exactly the contracts that lead to a cycle are named.

  \<^bold>\<open>Bounds\<close>

  Machine integers are words and wrap as in a release build. Where a theorem needs more it says so:
  chains have at most 2^32 blocks, the clock is below 2^63 and a block takes at most 610 seconds, so
  64-bit times do not wrap. Loops that may not end return \<open>Diverge\<close>, and the theorems show that they
  end. The formatter's methods call each other on parts of an expression; \<open>aggregator_calls n\<close> is the
  recursion cut off after \<open>n\<close> nested calls, and \<open>3 * depth + 4\<close> is enough: a layout calls the methods
  on the parts, and formatting an expression calls at most display or preserve on the expression
  itself before that. The walk over a syntax tree and the depth-first search of the order terminate by a
  measure (the weight of an expression, the nodes not seen) and need no bound.

  \<^bold>\<open>Parameters\<close>

  Third-party code is a parameter: the Clarity parser and its tables of native and define names, the
  decoding of transactions and values, hashes, signature recovery, HTTP requests to a remote node, the
  iteration order of hash maps, the parsers of types and traits and the clock. What a theorem relies on is a hypothesis with a name,
  such as \<open>program_ok\<close> for what the parser delivers to the formatter. Shared \<^verbatim>\<open>Rc\<close> cells are kept once
  in the state. Addresses of expressions, which the formatter's cache uses as keys, are part of an
  expression and distinct.

  \<^bold>\<open>Not modelled\<close>

  Execution of Clarity code (a third-party virtual machine) and with it the interpreter, sessions and
  debugger hooks; the lints and checks that produce diagnostics from the modelled walk (their visits
  are messages for the user); the spans and texts of diagnostics; static cost analysis; deployments
  and manifests; the Bitcoin indexer, event observer and orchestration of a local network; the
  language server, the command line, the bindings for JavaScript and the RPC client. Deployment plans,
  the rest of raw transactions and the cost trees are the next candidates; the others are input and
  output around third-party code.
\<close>

end
